(* ===== verification/Qdf_Prelude.thy ===== *)
theory Qdf_Prelude
  imports Main "HOL-Library.Word"
begin

text \<open>
  Shared vocabulary of the development: the status codes of the QDF layer that
  the driver's components return to each other, the fixed-width integer types
  of the C sources, C strings, and generic facts on lists and function updates
  that several component theories use.

  QDF is the operating-system layer of the driver and its sources are not part
  of the repository.  Its list container is represented by HOL lists and its
  events by booleans; everything QDF decides (an allocation, a timer
  initialisation, the clock, a platform predicate) is an argument of the
  definitions that use it.
\<close>

section \<open>Machine integers and strings\<close>

type_synonym u8 = "8 word"
type_synonym u16 = "16 word"
type_synonym u32 = "32 word"
type_synonym u64 = "64 word"

text \<open>Addresses of heap objects; a C pointer that may be \<open>NULL\<close> is an option.\<close>

type_synonym ptr = nat

section \<open>Status codes\<close>

datatype QDF_STATUS =
    QDF_STATUS_SUCCESS
  | QDF_STATUS_E_RESOURCES
  | QDF_STATUS_E_NOMEM
  | QDF_STATUS_E_AGAIN
  | QDF_STATUS_E_INVAL
  | QDF_STATUS_E_FAULT
  | QDF_STATUS_E_ALREADY
  | QDF_STATUS_E_FAILURE
  | QDF_STATUS_E_ABORTED
  | QDF_STATUS_E_TIMEOUT

definition QDF_IS_STATUS_SUCCESS :: "QDF_STATUS \<Rightarrow> bool" where
  [simp]: "QDF_IS_STATUS_SUCCESS st \<longleftrightarrow> st = QDF_STATUS_SUCCESS"

definition QDF_IS_STATUS_ERROR :: "QDF_STATUS \<Rightarrow> bool" where
  [simp]: "QDF_IS_STATUS_ERROR st \<longleftrightarrow> st \<noteq> QDF_STATUS_SUCCESS"

section \<open>Collections of facts\<close>

named_theorems dsc_defs \<open>definitions of the driver synchronisation core\<close>
named_theorems dsc_frame \<open>what an operation of the synchronisation core leaves unchanged\<close>
named_theorems osif_defs \<open>definitions of the OS interface synchronisation layer\<close>
named_theorems blm_defs \<open>definitions of the blacklist manager\<close>
named_theorems oui_defs \<open>definitions of the action OUI component\<close>

section \<open>Generic lemmas\<close>

lemma in_set_remove1_distinct:
  "distinct xs \<Longrightarrow> x \<in> set (remove1 y xs) \<longleftrightarrow> x \<in> set xs \<and> x \<noteq> y"
  by (simp add: set_remove1_eq)

lemma list_ex_iff_ex: "list_ex P xs \<longleftrightarrow> (\<exists>x \<in> set xs. P x)"
  by (simp add: list_ex_iff)

lemma fold_invariant:
  assumes "P s" and "\<And>x t. x \<in> set xs \<Longrightarrow> P t \<Longrightarrow> P (f x t)"
  shows "P (fold f xs s)"
  using assms by (induction xs arbitrary: s) auto

lemma nth_list_update_if: "xs[i := v] ! j = (if i = j \<and> j < length xs then v else xs ! j)"
  by (cases "i = j") (auto simp: not_less list_update_beyond)

lemma last_notin_butlast: "distinct xs \<Longrightarrow> xs \<noteq> [] \<Longrightarrow> last xs \<notin> set (butlast xs)"
  by (induction xs rule: rev_induct) auto

section \<open>Searching an array\<close>

text \<open>The loop that returns the first element of an array with a property.\<close>

fun find_index_from :: "('a \<Rightarrow> bool) \<Rightarrow> nat \<Rightarrow> 'a list \<Rightarrow> nat option" where
  "find_index_from P n [] = None"
| "find_index_from P n (x # xs) = (if P x then Some n else find_index_from P (Suc n) xs)"

lemma find_index_from_shift: "find_index_from P (Suc n) xs = map_option Suc (find_index_from P n xs)"
  by (induction xs arbitrary: n) auto

lemma find_index_from_None: "find_index_from P n xs = None \<longleftrightarrow> (\<forall>x \<in> set xs. \<not> P x)"
  by (induction xs arbitrary: n) auto

lemma find_index_from_0_Some:
  "find_index_from P 0 xs = Some i \<longleftrightarrow> i < length xs \<and> P (xs ! i) \<and> (\<forall>j < i. \<not> P (xs ! j))"
proof (induction xs arbitrary: i)
  case (Cons x xs)
  then show ?case by (cases i) (auto simp: find_index_from_shift less_Suc_eq_0_disj)
qed simp

end
