(* ===== verification/Dsc_Core.thy ===== *)
theory Dsc_Core
  imports Qdf_Prelude
begin

text \<open>
  The data and the primitives of the driver synchronisation core (DSC),
  \<^verbatim>\<open>src/components/dsc/src/__wlan_dsc.h\<close> and \<^verbatim>\<open>__wlan_dsc.c\<close>: the containers
  \<^verbatim>\<open>struct dsc_trans\<close> (the active transition of a node and the queue of
  transitions that wait for it) and \<^verbatim>\<open>struct dsc_ops\<close> (the operations in
  flight), and the functions on them.

  A driver owns psocs and a psoc owns vdevs.  The heap is split by struct: the
  link fields of drivers, psocs and vdevs, and the embedded containers
  \<^verbatim>\<open>trans\<close> and \<^verbatim>\<open>ops\<close>, which are addressed by the node that embeds them, so
  that \<^verbatim>\<open>&psoc->trans\<close> is the container of \<open>PsocNode p\<close>.  A \<^verbatim>\<open>struct dsc_tran\<close>
  lives on the stack of the thread that waits on it and is reached through its
  address.  \<open>dsc_panic\<close> records that some \<^verbatim>\<open>dsc_assert\<close> or
  \<^verbatim>\<open>QDF_DEBUG_PANIC\<close> has fired; a release build carries on after it and so does
  the model.
\<close>

section \<open>Data\<close>

datatype dsc_node = DriverNode ptr | PsocNode ptr | VdevNode ptr

record dsc_ops =
  ops_list :: "string list"
  ops_count :: u32
  ops_event :: bool

record dsc_tran =
  tran_abort :: bool
  tran_desc :: string
  tran_event :: bool

record dsc_trans =
  active_desc :: "string option"
  trans_queue :: "ptr list"

record dsc_driver =
  driver_psocs :: "ptr list"

record dsc_psoc =
  psoc_driver :: ptr
  psoc_vdevs :: "ptr list"

record dsc_vdev =
  vdev_psoc :: ptr
  nb_cmd_during_ssr :: u8

record dsc =
  drivers :: "ptr \<Rightarrow> dsc_driver"
  psocs :: "ptr \<Rightarrow> dsc_psoc"
  vdevs :: "ptr \<Rightarrow> dsc_vdev"
  trans_of :: "dsc_node \<Rightarrow> dsc_trans"
  ops_of :: "dsc_node \<Rightarrow> dsc_ops"
  trans_store :: "ptr \<Rightarrow> dsc_tran"
  dsc_panic :: bool

text \<open>
  What the platform answers during one call: whether the debug build is used,
  whether the allocation and the timers of the debug build can be set up, and
  the two platform predicates that the vdev file consults.
\<close>

record dsc_env =
  wlan_dsc_debug :: bool
  op_malloc :: bool
  op_timer_init :: QDF_STATUS
  trans_timer_init :: "dsc_node \<Rightarrow> QDF_STATUS"
  tran_timer_init :: QDF_STATUS
  qdf_is_recovering :: bool
  qdf_is_driver_unloading :: bool

section \<open>Updates of one container\<close>

definition upd_trans :: "dsc_node \<Rightarrow> (dsc_trans \<Rightarrow> dsc_trans) \<Rightarrow> dsc \<Rightarrow> dsc" where
  "upd_trans n f s = s\<lparr>trans_of := (trans_of s)(n := f (trans_of s n))\<rparr>"

definition upd_ops :: "dsc_node \<Rightarrow> (dsc_ops \<Rightarrow> dsc_ops) \<Rightarrow> dsc \<Rightarrow> dsc" where
  "upd_ops n f s = s\<lparr>ops_of := (ops_of s)(n := f (ops_of s n))\<rparr>"

definition upd_tran :: "ptr \<Rightarrow> (dsc_tran \<Rightarrow> dsc_tran) \<Rightarrow> dsc \<Rightarrow> dsc" where
  "upd_tran t f s = s\<lparr>trans_store := (trans_store s)(t := f (trans_store s t))\<rparr>"

definition dsc_assert :: "bool \<Rightarrow> dsc \<Rightarrow> dsc" where
  "dsc_assert c s = (if c then s else s\<lparr>dsc_panic := True\<rparr>)"

section \<open>Operations in flight\<close>

definition dsc_dbg_ops_insert :: "dsc_env \<Rightarrow> dsc_node \<Rightarrow> string \<Rightarrow> dsc \<Rightarrow> QDF_STATUS \<times> dsc" where
  "dsc_dbg_ops_insert e n func s =
     (if \<not> wlan_dsc_debug e then (QDF_STATUS_SUCCESS, s)
      else if \<not> op_malloc e then (QDF_STATUS_E_NOMEM, s)
      else if QDF_IS_STATUS_ERROR (op_timer_init e) then (op_timer_init e, s)
      else (QDF_STATUS_SUCCESS, upd_ops n (\<lambda>o'. o'\<lparr>ops_list := ops_list o' @ [func]\<rparr>) s))"

definition dsc_dbg_ops_remove :: "dsc_env \<Rightarrow> dsc_node \<Rightarrow> string \<Rightarrow> dsc \<Rightarrow> dsc" where
  "dsc_dbg_ops_remove e n func s =
     (if \<not> wlan_dsc_debug e then s
      else if func \<in> set (ops_list (ops_of s n))
      then upd_ops n (\<lambda>o'. o'\<lparr>ops_list := remove1 func (ops_list o')\<rparr>) s
      else dsc_assert False s)"

definition dsc_ops_init :: "dsc_node \<Rightarrow> dsc \<Rightarrow> dsc" where
  "dsc_ops_init n s =
     upd_ops n (\<lambda>_. \<lparr>ops_list = [], ops_count = 0, ops_event = False\<rparr>) s"

definition dsc_ops_deinit :: "dsc_node \<Rightarrow> dsc \<Rightarrow> dsc" where
  "dsc_ops_deinit n s = dsc_assert (ops_count (ops_of s n) = 0) s"

definition dsc_ops_insert :: "dsc_env \<Rightarrow> dsc_node \<Rightarrow> string \<Rightarrow> dsc \<Rightarrow> QDF_STATUS \<times> dsc" where
  "dsc_ops_insert e n func s =
     (let (status, s1) = dsc_dbg_ops_insert e n func s
      in if QDF_IS_STATUS_ERROR status then (status, s1)
         else (QDF_STATUS_SUCCESS,
               upd_ops n (\<lambda>o'. o'\<lparr>ops_count := ops_count o' + 1\<rparr>) s1))"

definition dsc_ops_remove :: "dsc_env \<Rightarrow> dsc_node \<Rightarrow> string \<Rightarrow> dsc \<Rightarrow> bool \<times> dsc" where
  "dsc_ops_remove e n func s =
     (let s1 = dsc_assert (ops_count (ops_of s n) \<noteq> 0) s;
          s2 = upd_ops n (\<lambda>o'. o'\<lparr>ops_count := ops_count o' - 1\<rparr>) s1;
          s3 = dsc_dbg_ops_remove e n func s2
      in (ops_count (ops_of s3 n) = 0, s3))"

section \<open>Transitions\<close>

definition dsc_dbg_trans_timeout_start :: "dsc_env \<Rightarrow> dsc_node \<Rightarrow> QDF_STATUS" where
  "dsc_dbg_trans_timeout_start e n =
     (if wlan_dsc_debug e then trans_timer_init e n else QDF_STATUS_SUCCESS)"

definition dsc_dbg_tran_wait_timeout_start :: "dsc_env \<Rightarrow> QDF_STATUS" where
  "dsc_dbg_tran_wait_timeout_start e =
     (if wlan_dsc_debug e then tran_timer_init e else QDF_STATUS_SUCCESS)"

definition dsc_trans_init :: "dsc_node \<Rightarrow> dsc \<Rightarrow> dsc" where
  "dsc_trans_init n s = upd_trans n (\<lambda>_. \<lparr>active_desc = None, trans_queue = []\<rparr>) s"

definition dsc_trans_deinit :: "dsc_node \<Rightarrow> dsc \<Rightarrow> dsc" where
  "dsc_trans_deinit n s = upd_trans n (\<lambda>tr. tr\<lparr>active_desc := None\<rparr>) s"

definition dsc_trans_start :: "dsc_env \<Rightarrow> dsc_node \<Rightarrow> string \<Rightarrow> dsc \<Rightarrow> QDF_STATUS \<times> dsc" where
  "dsc_trans_start e n desc s =
     (let status = dsc_dbg_trans_timeout_start e n
      in if QDF_IS_STATUS_ERROR status then (status, s)
         else (QDF_STATUS_SUCCESS,
               upd_trans n (\<lambda>tr. tr\<lparr>active_desc := Some desc\<rparr>)
                 (dsc_assert (active_desc (trans_of s n) = None) s)))"

definition dsc_trans_stop :: "dsc_node \<Rightarrow> dsc \<Rightarrow> dsc" where
  "dsc_trans_stop n s =
     upd_trans n (\<lambda>tr. tr\<lparr>active_desc := None\<rparr>)
       (dsc_assert (active_desc (trans_of s n) \<noteq> None) s)"

definition dsc_trans_queue :: "dsc_env \<Rightarrow> dsc_node \<Rightarrow> ptr \<Rightarrow> string \<Rightarrow> dsc \<Rightarrow> QDF_STATUS \<times> dsc" where
  "dsc_trans_queue e n t desc s =
     (let s1 = upd_tran t (\<lambda>_. \<lparr>tran_abort = False, tran_desc = desc, tran_event = False\<rparr>) s;
          status = dsc_dbg_tran_wait_timeout_start e
      in if QDF_IS_STATUS_ERROR status then (status, s1)
         else (QDF_STATUS_SUCCESS,
               upd_trans n (\<lambda>tr. tr\<lparr>trans_queue := trans_queue tr @ [t]\<rparr>) s1))"

definition dsc_trans_dequeue :: "dsc_node \<Rightarrow> dsc \<Rightarrow> ptr option \<times> dsc" where
  "dsc_trans_dequeue n s =
     (case trans_queue (trans_of s n) of
        [] \<Rightarrow> (None, s)
      | t # ts \<Rightarrow> (Some t, upd_trans n (\<lambda>tr. tr\<lparr>trans_queue := ts\<rparr>) s))"

definition dsc_trans_abort :: "dsc_node \<Rightarrow> dsc \<Rightarrow> bool \<times> dsc" where
  "dsc_trans_abort n s =
     (case dsc_trans_dequeue n s of
        (None, s1) \<Rightarrow> (False, s1)
      | (Some t, s1) \<Rightarrow> (True, upd_tran t (\<lambda>r. r\<lparr>tran_abort := True, tran_event := True\<rparr>) s1))"

definition dsc_trans_trigger :: "dsc_env \<Rightarrow> dsc_node \<Rightarrow> dsc \<Rightarrow> bool \<times> dsc" where
  "dsc_trans_trigger e n s =
     (case dsc_trans_dequeue n s of
        (None, s1) \<Rightarrow> (False, s1)
      | (Some t, s1) \<Rightarrow>
          (let (_, s2) = dsc_trans_start e n (tran_desc (trans_store s1 t)) s1
           in (True, upd_tran t (\<lambda>r. r\<lparr>tran_event := True\<rparr>) s2)))"

definition dsc_trans_active :: "dsc_node \<Rightarrow> dsc \<Rightarrow> bool" where
  "dsc_trans_active n s \<longleftrightarrow> active_desc (trans_of s n) \<noteq> None"

definition dsc_trans_queued :: "dsc_node \<Rightarrow> dsc \<Rightarrow> bool" where
  "dsc_trans_queued n s \<longleftrightarrow> trans_queue (trans_of s n) \<noteq> []"

definition dsc_trans_active_or_queued :: "dsc_node \<Rightarrow> dsc \<Rightarrow> bool" where
  "dsc_trans_active_or_queued n s \<longleftrightarrow> dsc_trans_active n s \<or> dsc_trans_queued n s"

text \<open>
  \<open>dsc_tran_wait\<close> is entered after the lock is released: \<open>None\<close> while the event
  of the pending transition is not set, and the status that the waiting thread
  returns once it is.  \<open>wst\<close> is what \<^verbatim>\<open>qdf_wait_single_event\<close> returns.
\<close>

definition dsc_tran_wait :: "QDF_STATUS \<Rightarrow> ptr \<Rightarrow> dsc \<Rightarrow> QDF_STATUS option" where
  "dsc_tran_wait wst t s =
     (if \<not> tran_event (trans_store s t) then None
      else if QDF_IS_STATUS_ERROR wst then Some wst
      else if tran_abort (trans_store s t) then Some QDF_STATUS_E_ABORTED
      else Some QDF_STATUS_SUCCESS)"

text \<open>The loop \<^verbatim>\<open>while (__dsc_trans_abort(&x->trans));\<close> of the three destroy functions.\<close>

function dsc_trans_flush :: "dsc_node \<Rightarrow> dsc \<Rightarrow> dsc" where
  "dsc_trans_flush n s =
     (let (more, s1) = dsc_trans_abort n s in if more then dsc_trans_flush n s1 else s1)"
  by pat_completeness auto
termination
  by (relation "measure (\<lambda>(n, s). length (trans_queue (trans_of s n)))")
    (auto simp: dsc_trans_abort_def dsc_trans_dequeue_def upd_trans_def upd_tran_def
      split: list.splits option.splits prod.splits)

declare dsc_trans_flush.simps [simp del]

section \<open>Facts on the primitives\<close>

lemma upd_trans_sel [simp]:
  "trans_of (upd_trans n f s) m = (if m = n then f (trans_of s n) else trans_of s m)"
  "ops_of (upd_trans n f s) = ops_of s"
  "drivers (upd_trans n f s) = drivers s"
  "psocs (upd_trans n f s) = psocs s"
  "vdevs (upd_trans n f s) = vdevs s"
  "trans_store (upd_trans n f s) = trans_store s"
  "dsc_panic (upd_trans n f s) = dsc_panic s"
  by (simp_all add: upd_trans_def)

lemma upd_ops_sel [simp]:
  "ops_of (upd_ops n f s) m = (if m = n then f (ops_of s n) else ops_of s m)"
  "trans_of (upd_ops n f s) = trans_of s"
  "drivers (upd_ops n f s) = drivers s"
  "psocs (upd_ops n f s) = psocs s"
  "vdevs (upd_ops n f s) = vdevs s"
  "trans_store (upd_ops n f s) = trans_store s"
  "dsc_panic (upd_ops n f s) = dsc_panic s"
  by (simp_all add: upd_ops_def)

lemma upd_tran_sel [simp]:
  "trans_store (upd_tran t f s) u = (if u = t then f (trans_store s t) else trans_store s u)"
  "trans_of (upd_tran t f s) = trans_of s"
  "ops_of (upd_tran t f s) = ops_of s"
  "drivers (upd_tran t f s) = drivers s"
  "psocs (upd_tran t f s) = psocs s"
  "vdevs (upd_tran t f s) = vdevs s"
  "dsc_panic (upd_tran t f s) = dsc_panic s"
  by (simp_all add: upd_tran_def)

lemma dsc_assert_sel [simp]:
  "trans_of (dsc_assert c s) = trans_of s"
  "ops_of (dsc_assert c s) = ops_of s"
  "drivers (dsc_assert c s) = drivers s"
  "psocs (dsc_assert c s) = psocs s"
  "vdevs (dsc_assert c s) = vdevs s"
  "trans_store (dsc_assert c s) = trans_store s"
  "dsc_panic (dsc_assert c s) \<longleftrightarrow> dsc_panic s \<or> \<not> c"
  by (simp_all add: dsc_assert_def)

lemma dsc_assert_True [simp]: "dsc_assert True s = s"
  by (simp add: dsc_assert_def)

end
