(* ===== verification/Dsc_Driver.thy ===== *)
theory Dsc_Driver
  imports Dsc_Core
begin

text \<open>
  The driver level of DSC, \<^verbatim>\<open>src/components/dsc/src/wlan_dsc_driver.c\<close>.  Every
  definition is the body that runs between \<^verbatim>\<open>__dsc_lock\<close> and \<^verbatim>\<open>__dsc_unlock\<close>,
  with the argument checks before it; the exported wrapper only logs.  A
  pointer argument that the code checks is an option, and a call that blocks
  returns \<open>Blocked\<close> with the pending transition its thread waits on.
\<close>

datatype dsc_start = Returned QDF_STATUS | Blocked ptr

section \<open>Creation and destruction\<close>

text \<open>
  \<open>out\<close> says whether the out parameter is a valid pointer and \<open>mem\<close> is what the
  allocator returns; the result is the status and the value stored through the
  out parameter.
\<close>

definition dsc_driver_create :: "bool \<Rightarrow> ptr option \<Rightarrow> dsc \<Rightarrow> QDF_STATUS \<times> ptr option \<times> dsc" where
  "dsc_driver_create out mem s =
     (if \<not> out then (QDF_STATUS_E_INVAL, None, dsc_assert False s)
      else case mem of
        None \<Rightarrow> (QDF_STATUS_E_NOMEM, None, s)
      | Some d \<Rightarrow>
          (let s1 = s\<lparr>drivers := (drivers s)(d := \<lparr>driver_psocs = []\<rparr>)\<rparr>;
               s2 = dsc_trans_init (DriverNode d) s1;
               s3 = dsc_ops_init (DriverNode d) s2
           in (QDF_STATUS_SUCCESS, Some d, s3)))"

definition dsc_driver_destroy :: "ptr option option \<Rightarrow> dsc \<Rightarrow> dsc" where
  "dsc_driver_destroy out s =
     (case out of
        None \<Rightarrow> dsc_assert False s
      | Some None \<Rightarrow> dsc_assert False s
      | Some (Some d) \<Rightarrow>
          (let s1 = dsc_assert (driver_psocs (drivers s d) = []) s;
               s2 = dsc_trans_flush (DriverNode d) s1;
               s3 = dsc_ops_deinit (DriverNode d) s2
           in dsc_trans_deinit (DriverNode d) s3))"

section \<open>Transitions\<close>

definition dsc_driver_trans_active_down_tree :: "ptr \<Rightarrow> dsc \<Rightarrow> bool" where
  "dsc_driver_trans_active_down_tree d s \<longleftrightarrow>
     list_ex (\<lambda>p. dsc_trans_active (PsocNode p) s \<or>
                  list_ex (\<lambda>v. dsc_trans_active (VdevNode v) s) (psoc_vdevs (psocs s p)))
       (driver_psocs (drivers s d))"

definition dsc_driver_can_trans :: "ptr \<Rightarrow> dsc \<Rightarrow> bool" where
  "dsc_driver_can_trans d s \<longleftrightarrow>
     \<not> dsc_trans_active_or_queued (DriverNode d) s \<and> \<not> dsc_driver_trans_active_down_tree d s"

abbreviation dsc_driver_can_op :: "ptr \<Rightarrow> dsc \<Rightarrow> bool" where
  "dsc_driver_can_op \<equiv> dsc_driver_can_trans"

definition dsc_driver_can_trigger :: "ptr \<Rightarrow> dsc \<Rightarrow> bool" where
  "dsc_driver_can_trigger d s \<longleftrightarrow>
     \<not> dsc_trans_active (DriverNode d) s \<and> \<not> dsc_driver_trans_active_down_tree d s"

definition dsc_driver_trans_start_nolock :: "dsc_env \<Rightarrow> ptr \<Rightarrow> string \<Rightarrow> dsc \<Rightarrow> QDF_STATUS \<times> dsc" where
  "dsc_driver_trans_start_nolock e d desc s =
     (if \<not> dsc_driver_can_trans d s then (QDF_STATUS_E_AGAIN, s)
      else dsc_trans_start e (DriverNode d) desc s)"

definition dsc_driver_trans_start ::
  "dsc_env \<Rightarrow> ptr option \<Rightarrow> string option \<Rightarrow> dsc \<Rightarrow> QDF_STATUS \<times> dsc" where
  "dsc_driver_trans_start e driver desc s =
     (case driver of
        None \<Rightarrow> (QDF_STATUS_E_INVAL, dsc_assert False s)
      | Some d \<Rightarrow> (case desc of
          None \<Rightarrow> (QDF_STATUS_E_INVAL, dsc_assert False s)
        | Some ds \<Rightarrow> dsc_driver_trans_start_nolock e d ds s))"

definition dsc_driver_trans_start_wait ::
  "dsc_env \<Rightarrow> ptr \<Rightarrow> ptr option \<Rightarrow> string option \<Rightarrow> dsc \<Rightarrow> dsc_start \<times> dsc" where
  "dsc_driver_trans_start_wait e tran driver desc s =
     (case driver of
        None \<Rightarrow> (Returned QDF_STATUS_E_INVAL, dsc_assert False s)
      | Some d \<Rightarrow> (case desc of
          None \<Rightarrow> (Returned QDF_STATUS_E_INVAL, dsc_assert False s)
        | Some ds \<Rightarrow>
            (let (status, s1) = dsc_driver_trans_start_nolock e d ds s
             in if QDF_IS_STATUS_SUCCESS status then (Returned status, s1)
                else let (status', s2) = dsc_trans_queue e (DriverNode d) tran ds s1
                     in if QDF_IS_STATUS_ERROR status' then (Returned status', s2)
                        else (Blocked tran, s2))))"

definition dsc_driver_trans_trigger_checked :: "dsc_env \<Rightarrow> ptr \<Rightarrow> dsc \<Rightarrow> bool \<times> dsc" where
  "dsc_driver_trans_trigger_checked e d s =
     (if \<not> dsc_trans_queued (DriverNode d) s then (False, s)
      else if \<not> dsc_driver_can_trigger d s then (True, s)
      else dsc_trans_trigger e (DriverNode d) s)"

text \<open>The body of the loop over the vdevs of a psoc, shared with the psoc level.\<close>

definition dsc_trigger_vdevs :: "dsc_env \<Rightarrow> ptr list \<Rightarrow> dsc \<Rightarrow> dsc" where
  "dsc_trigger_vdevs e vs s = fold (\<lambda>v t. snd (dsc_trans_trigger e (VdevNode v) t)) vs s"

text \<open>One iteration of the loop over the psocs of the driver.\<close>

definition dsc_trigger_psoc :: "dsc_env \<Rightarrow> ptr \<Rightarrow> dsc \<Rightarrow> dsc" where
  "dsc_trigger_psoc e p s =
     (let (triggered, s1) = dsc_trans_trigger e (PsocNode p) s
      in if triggered then s1 else dsc_trigger_vdevs e (psoc_vdevs (psocs s1 p)) s1)"

definition dsc_driver_trigger_trans :: "dsc_env \<Rightarrow> ptr \<Rightarrow> dsc \<Rightarrow> dsc" where
  "dsc_driver_trigger_trans e d s =
     (let (triggered, s1) = dsc_trans_trigger e (DriverNode d) s
      in if triggered then s1
         else fold (dsc_trigger_psoc e) (driver_psocs (drivers s1 d)) s1)"

definition dsc_driver_trans_stop :: "dsc_env \<Rightarrow> ptr option \<Rightarrow> dsc \<Rightarrow> dsc" where
  "dsc_driver_trans_stop e driver s =
     (case driver of
        None \<Rightarrow> dsc_assert False s
      | Some d \<Rightarrow> dsc_driver_trigger_trans e d (dsc_trans_stop (DriverNode d) s))"

definition dsc_driver_assert_trans_protected :: "ptr option \<Rightarrow> dsc \<Rightarrow> dsc" where
  "dsc_driver_assert_trans_protected driver s =
     (case driver of
        None \<Rightarrow> dsc_assert False s
      | Some d \<Rightarrow> dsc_assert (dsc_trans_active (DriverNode d) s) s)"

section \<open>Operations\<close>

definition dsc_driver_op_start ::
  "dsc_env \<Rightarrow> ptr option \<Rightarrow> string option \<Rightarrow> dsc \<Rightarrow> QDF_STATUS \<times> dsc" where
  "dsc_driver_op_start e driver func s =
     (case driver of
        None \<Rightarrow> (QDF_STATUS_E_INVAL, dsc_assert False s)
      | Some d \<Rightarrow> (case func of
          None \<Rightarrow> (QDF_STATUS_E_INVAL, dsc_assert False s)
        | Some f \<Rightarrow>
            if \<not> dsc_driver_can_op d s then (QDF_STATUS_E_AGAIN, s)
            else dsc_ops_insert e (DriverNode d) f s))"

text \<open>
  The tail of the three \<^verbatim>\<open>op_stop\<close> functions: the waiters of a node are woken
  when its last operation in flight has been removed.
\<close>

definition dsc_op_stop_node :: "dsc_env \<Rightarrow> dsc_node \<Rightarrow> string \<Rightarrow> dsc \<Rightarrow> dsc" where
  "dsc_op_stop_node e n func s =
     (let (last, s1) = dsc_ops_remove e n func s
      in if last then upd_ops n (\<lambda>o'. o'\<lparr>ops_event := True\<rparr>) s1 else s1)"

definition dsc_driver_op_stop :: "dsc_env \<Rightarrow> ptr option \<Rightarrow> string option \<Rightarrow> dsc \<Rightarrow> dsc" where
  "dsc_driver_op_stop e driver func s =
     (case driver of
        None \<Rightarrow> dsc_assert False s
      | Some d \<Rightarrow> (case func of
          None \<Rightarrow> dsc_assert False s
        | Some f \<Rightarrow> dsc_op_stop_node e (DriverNode d) f s))"

text \<open>
  Waiting for the operations of a node.  The locked section decides whether the
  thread has to wait and re-arms the event; \<open>True\<close> means that the thread blocks
  until the event of the node is set.
\<close>

definition dsc_wait_enter :: "dsc_node \<Rightarrow> dsc \<Rightarrow> bool \<times> dsc" where
  "dsc_wait_enter n s =
     (let wait = ops_count (ops_of s n) > 0
      in (wait, if wait then upd_ops n (\<lambda>o'. o'\<lparr>ops_event := False\<rparr>) s else s))"

definition dsc_driver_wait_for_ops :: "ptr option \<Rightarrow> dsc \<Rightarrow> bool \<times> dsc" where
  "dsc_driver_wait_for_ops driver s =
     (case driver of
        None \<Rightarrow> (False, dsc_assert False s)
      | Some d \<Rightarrow> dsc_wait_enter (DriverNode d) (dsc_assert (\<not> dsc_driver_can_op d s) s))"

end
