(* ===== verification/Dsc_Psoc.thy ===== *)
theory Dsc_Psoc
  imports Dsc_Driver
begin

text \<open>
  The psoc level of DSC, \<^verbatim>\<open>src/components/dsc/src/wlan_dsc_psoc.c\<close>.  The
  conventions are those of the driver level; \<open>dsc_psoc_can_trans\<close> returns a
  status that tells a request which must be rejected from one that may queue.
\<close>

section \<open>Creation and destruction\<close>

definition dsc_psoc_create ::
  "ptr option \<Rightarrow> bool \<Rightarrow> ptr option \<Rightarrow> dsc \<Rightarrow> QDF_STATUS \<times> ptr option \<times> dsc" where
  "dsc_psoc_create driver out mem s =
     (case driver of
        None \<Rightarrow> (QDF_STATUS_E_INVAL, None, dsc_assert False s)
      | Some d \<Rightarrow>
          if \<not> out then (QDF_STATUS_E_INVAL, None, dsc_assert False s)
          else case mem of
            None \<Rightarrow> (QDF_STATUS_E_NOMEM, None, s)
          | Some p \<Rightarrow>
              (let s1 = s\<lparr>psocs := (psocs s)(p := \<lparr>psoc_driver = d, psoc_vdevs = []\<rparr>)\<rparr>;
                   s2 = dsc_trans_init (PsocNode p) s1;
                   s3 = dsc_ops_init (PsocNode p) s2;
                   s4 = s3\<lparr>drivers := (drivers s3)
                     (d := \<lparr>driver_psocs = driver_psocs (drivers s3 d) @ [p]\<rparr>)\<rparr>
               in (QDF_STATUS_SUCCESS, Some p, s4)))"

definition dsc_psoc_destroy :: "ptr option option \<Rightarrow> dsc \<Rightarrow> dsc" where
  "dsc_psoc_destroy out s =
     (case out of
        None \<Rightarrow> dsc_assert False s
      | Some None \<Rightarrow> dsc_assert False s
      | Some (Some p) \<Rightarrow>
          (let s1 = dsc_assert (psoc_vdevs (psocs s p) = []) s;
               s2 = dsc_trans_flush (PsocNode p) s1;
               d = psoc_driver (psocs s2 p);
               s3 = s2\<lparr>drivers := (drivers s2)
                 (d := \<lparr>driver_psocs = remove1 p (driver_psocs (drivers s2 d))\<rparr>)\<rparr>;
               s4 = dsc_ops_deinit (PsocNode p) s3
           in dsc_trans_deinit (PsocNode p) s4))"

section \<open>Transitions\<close>

definition dsc_psoc_trans_active_down_tree :: "ptr \<Rightarrow> dsc \<Rightarrow> bool" where
  "dsc_psoc_trans_active_down_tree p s \<longleftrightarrow>
     list_ex (\<lambda>v. dsc_trans_active (VdevNode v) s) (psoc_vdevs (psocs s p))"

definition dsc_psoc_can_trans :: "ptr \<Rightarrow> dsc \<Rightarrow> QDF_STATUS" where
  "dsc_psoc_can_trans p s =
     (if dsc_trans_active_or_queued (DriverNode (psoc_driver (psocs s p))) s
      then QDF_STATUS_E_INVAL
      else if dsc_trans_active_or_queued (PsocNode p) s \<or> dsc_psoc_trans_active_down_tree p s
      then QDF_STATUS_E_AGAIN
      else QDF_STATUS_SUCCESS)"

abbreviation dsc_psoc_can_op :: "ptr \<Rightarrow> dsc \<Rightarrow> QDF_STATUS" where
  "dsc_psoc_can_op \<equiv> dsc_psoc_can_trans"

definition dsc_psoc_can_trigger :: "ptr \<Rightarrow> dsc \<Rightarrow> bool" where
  "dsc_psoc_can_trigger p s \<longleftrightarrow>
     \<not> dsc_trans_active_or_queued (DriverNode (psoc_driver (psocs s p))) s \<and>
     \<not> dsc_trans_active (PsocNode p) s \<and>
     \<not> dsc_psoc_trans_active_down_tree p s"

definition dsc_psoc_trans_start_nolock :: "dsc_env \<Rightarrow> ptr \<Rightarrow> string \<Rightarrow> dsc \<Rightarrow> QDF_STATUS \<times> dsc" where
  "dsc_psoc_trans_start_nolock e p desc s =
     (let status = dsc_psoc_can_trans p s
      in if QDF_IS_STATUS_ERROR status then (status, s)
         else dsc_trans_start e (PsocNode p) desc s)"

definition dsc_psoc_trans_start ::
  "dsc_env \<Rightarrow> ptr option \<Rightarrow> string option \<Rightarrow> dsc \<Rightarrow> QDF_STATUS \<times> dsc" where
  "dsc_psoc_trans_start e psoc desc s =
     (case psoc of
        None \<Rightarrow> (QDF_STATUS_E_INVAL, dsc_assert False s)
      | Some p \<Rightarrow> (case desc of
          None \<Rightarrow> (QDF_STATUS_E_INVAL, dsc_assert False s)
        | Some ds \<Rightarrow> dsc_psoc_trans_start_nolock e p ds s))"

definition dsc_psoc_trans_start_wait ::
  "dsc_env \<Rightarrow> ptr \<Rightarrow> ptr option \<Rightarrow> string option \<Rightarrow> dsc \<Rightarrow> dsc_start \<times> dsc" where
  "dsc_psoc_trans_start_wait e tran psoc desc s =
     (case psoc of
        None \<Rightarrow> (Returned QDF_STATUS_E_INVAL, dsc_assert False s)
      | Some p \<Rightarrow> (case desc of
          None \<Rightarrow> (Returned QDF_STATUS_E_INVAL, dsc_assert False s)
        | Some ds \<Rightarrow>
            (let (status, s1) = dsc_psoc_trans_start_nolock e p ds s
             in if QDF_IS_STATUS_SUCCESS status \<or> status = QDF_STATUS_E_INVAL
                then (Returned status, s1)
                else let (status', s2) = dsc_trans_queue e (PsocNode p) tran ds s1
                     in if QDF_IS_STATUS_ERROR status' then (Returned status', s2)
                        else (Blocked tran, s2))))"

definition dsc_psoc_trigger_trans :: "dsc_env \<Rightarrow> ptr \<Rightarrow> dsc \<Rightarrow> dsc" where
  "dsc_psoc_trigger_trans e p s =
     (let (handled, s1) = dsc_driver_trans_trigger_checked e (psoc_driver (psocs s p)) s
      in if handled then s1
         else let (triggered, s2) = dsc_trans_trigger e (PsocNode p) s1
              in if triggered then s2
                 else dsc_trigger_vdevs e (psoc_vdevs (psocs s2 p)) s2)"

definition dsc_psoc_trans_stop :: "dsc_env \<Rightarrow> ptr option \<Rightarrow> dsc \<Rightarrow> dsc" where
  "dsc_psoc_trans_stop e psoc s =
     (case psoc of
        None \<Rightarrow> dsc_assert False s
      | Some p \<Rightarrow> dsc_psoc_trigger_trans e p (dsc_trans_stop (PsocNode p) s))"

definition dsc_psoc_assert_trans_protected :: "ptr option \<Rightarrow> dsc \<Rightarrow> dsc" where
  "dsc_psoc_assert_trans_protected psoc s =
     (case psoc of
        None \<Rightarrow> dsc_assert False s
      | Some p \<Rightarrow> dsc_assert (dsc_trans_active (PsocNode p) s \<or>
                            dsc_trans_active (DriverNode (psoc_driver (psocs s p))) s) s)"

definition dsc_psoc_trans_trigger_checked :: "dsc_env \<Rightarrow> ptr \<Rightarrow> dsc \<Rightarrow> bool \<times> dsc" where
  "dsc_psoc_trans_trigger_checked e p s =
     (if trans_queue (trans_of s (PsocNode p)) = [] then (False, s)
      else if \<not> dsc_psoc_can_trigger p s then (True, s)
      else dsc_trans_trigger e (PsocNode p) s)"

section \<open>Operations\<close>

definition dsc_psoc_op_start ::
  "dsc_env \<Rightarrow> ptr option \<Rightarrow> string option \<Rightarrow> dsc \<Rightarrow> QDF_STATUS \<times> dsc" where
  "dsc_psoc_op_start e psoc func s =
     (case psoc of
        None \<Rightarrow> (QDF_STATUS_E_INVAL, dsc_assert False s)
      | Some p \<Rightarrow> (case func of
          None \<Rightarrow> (QDF_STATUS_E_INVAL, dsc_assert False s)
        | Some f \<Rightarrow>
            (let status = dsc_psoc_can_op p s
             in if QDF_IS_STATUS_ERROR status then (status, s)
                else dsc_ops_insert e (PsocNode p) f s)))"

definition dsc_psoc_op_stop :: "dsc_env \<Rightarrow> ptr option \<Rightarrow> string option \<Rightarrow> dsc \<Rightarrow> dsc" where
  "dsc_psoc_op_stop e psoc func s =
     (case psoc of
        None \<Rightarrow> dsc_assert False s
      | Some p \<Rightarrow> (case func of
          None \<Rightarrow> dsc_assert False s
        | Some f \<Rightarrow> dsc_op_stop_node e (PsocNode p) f s))"

definition dsc_psoc_wait_for_ops :: "ptr option \<Rightarrow> dsc \<Rightarrow> bool \<times> dsc" where
  "dsc_psoc_wait_for_ops psoc s =
     (case psoc of
        None \<Rightarrow> (False, dsc_assert False s)
      | Some p \<Rightarrow> dsc_wait_enter (PsocNode p) s)"

end
