(* ===== verification/Dsc_Vdev.thy ===== *)
theory Dsc_Vdev
  imports Dsc_Psoc
begin

text \<open>
  The vdev level of DSC, \<^verbatim>\<open>src/components/dsc/src/wlan_dsc_vdev.c\<close>.  The
  platform predicates \<^verbatim>\<open>qdf_is_recovering\<close> and \<^verbatim>\<open>qdf_is_driver_unloading\<close> are
  read from the environment of the call.
\<close>

section \<open>Creation and destruction\<close>

definition dsc_vdev_create ::
  "ptr option \<Rightarrow> bool \<Rightarrow> ptr option \<Rightarrow> dsc \<Rightarrow> QDF_STATUS \<times> ptr option \<times> dsc" where
  "dsc_vdev_create psoc out mem s =
     (case psoc of
        None \<Rightarrow> (QDF_STATUS_E_INVAL, None, dsc_assert False s)
      | Some p \<Rightarrow>
          if \<not> out then (QDF_STATUS_E_INVAL, None, dsc_assert False s)
          else case mem of
            None \<Rightarrow> (QDF_STATUS_E_NOMEM, None, s)
          | Some v \<Rightarrow>
              (let s1 = s\<lparr>vdevs := (vdevs s)(v := \<lparr>vdev_psoc = p, nb_cmd_during_ssr = 0\<rparr>)\<rparr>;
                   s2 = dsc_trans_init (VdevNode v) s1;
                   s3 = dsc_ops_init (VdevNode v) s2;
                   s4 = s3\<lparr>psocs := (psocs s3)
                     (p := (psocs s3 p)\<lparr>psoc_vdevs := psoc_vdevs (psocs s3 p) @ [v]\<rparr>)\<rparr>
               in (QDF_STATUS_SUCCESS, Some v, s4)))"

definition dsc_vdev_destroy :: "ptr option option \<Rightarrow> dsc \<Rightarrow> dsc" where
  "dsc_vdev_destroy out s =
     (case out of
        None \<Rightarrow> dsc_assert False s
      | Some None \<Rightarrow> dsc_assert False s
      | Some (Some v) \<Rightarrow>
          (let s1 = dsc_trans_flush (VdevNode v) s;
               p = vdev_psoc (vdevs s1 v);
               s2 = s1\<lparr>psocs := (psocs s1)
                 (p := (psocs s1 p)\<lparr>psoc_vdevs := remove1 v (psoc_vdevs (psocs s1 p))\<rparr>)\<rparr>;
               s3 = dsc_ops_deinit (VdevNode v) s2
           in dsc_trans_deinit (VdevNode v) s3))"

section \<open>Transitions\<close>

text \<open>\<^verbatim>\<open>vdev->psoc->driver\<close>\<close>

definition vdev_driver :: "ptr \<Rightarrow> dsc \<Rightarrow> ptr" where
  "vdev_driver v s = psoc_driver (psocs s (vdev_psoc (vdevs s v)))"

definition dsc_vdev_can_trans :: "dsc_env \<Rightarrow> ptr \<Rightarrow> dsc \<Rightarrow> QDF_STATUS" where
  "dsc_vdev_can_trans e v s =
     (if dsc_trans_active_or_queued (DriverNode (vdev_driver v s)) s then QDF_STATUS_E_INVAL
      else if qdf_is_recovering e then QDF_STATUS_E_INVAL
      else if dsc_trans_active_or_queued (PsocNode (vdev_psoc (vdevs s v))) s
      then (if qdf_is_driver_unloading e then QDF_STATUS_E_INVAL else QDF_STATUS_E_AGAIN)
      else if dsc_trans_active_or_queued (VdevNode v) s then QDF_STATUS_E_AGAIN
      else QDF_STATUS_SUCCESS)"

abbreviation dsc_vdev_can_op :: "dsc_env \<Rightarrow> ptr \<Rightarrow> dsc \<Rightarrow> QDF_STATUS" where
  "dsc_vdev_can_op \<equiv> dsc_vdev_can_trans"

definition dsc_vdev_trans_start_nolock :: "dsc_env \<Rightarrow> ptr \<Rightarrow> string \<Rightarrow> dsc \<Rightarrow> QDF_STATUS \<times> dsc" where
  "dsc_vdev_trans_start_nolock e v desc s =
     (let status = dsc_vdev_can_trans e v s
      in if QDF_IS_STATUS_ERROR status then (status, s)
         else dsc_trans_start e (VdevNode v) desc s)"

definition dsc_vdev_trans_start ::
  "dsc_env \<Rightarrow> ptr option \<Rightarrow> string option \<Rightarrow> dsc \<Rightarrow> QDF_STATUS \<times> dsc" where
  "dsc_vdev_trans_start e vdev desc s =
     (case vdev of
        None \<Rightarrow> (QDF_STATUS_E_INVAL, dsc_assert False s)
      | Some v \<Rightarrow> (case desc of
          None \<Rightarrow> (QDF_STATUS_E_INVAL, dsc_assert False s)
        | Some ds \<Rightarrow> dsc_vdev_trans_start_nolock e v ds s))"

definition dsc_vdev_trans_start_wait ::
  "dsc_env \<Rightarrow> ptr \<Rightarrow> ptr option \<Rightarrow> string option \<Rightarrow> dsc \<Rightarrow> dsc_start \<times> dsc" where
  "dsc_vdev_trans_start_wait e tran vdev desc s =
     (case vdev of
        None \<Rightarrow> (Returned QDF_STATUS_E_INVAL, dsc_assert False s)
      | Some v \<Rightarrow> (case desc of
          None \<Rightarrow> (Returned QDF_STATUS_E_INVAL, dsc_assert False s)
        | Some ds \<Rightarrow>
            (let (status, s1) = dsc_vdev_trans_start_nolock e v ds s
             in if QDF_IS_STATUS_SUCCESS status \<or> status = QDF_STATUS_E_INVAL
                then (Returned status, s1)
                else let (status', s2) = dsc_trans_queue e (VdevNode v) tran ds s1
                     in if QDF_IS_STATUS_ERROR status' then (Returned status', s2)
                        else (Blocked tran, s2))))"

definition dsc_vdev_trigger_trans :: "dsc_env \<Rightarrow> ptr \<Rightarrow> dsc \<Rightarrow> dsc" where
  "dsc_vdev_trigger_trans e v s =
     (let (handled, s1) = dsc_driver_trans_trigger_checked e (vdev_driver v s) s
      in if handled then s1
         else let (handled', s2) = dsc_psoc_trans_trigger_checked e (vdev_psoc (vdevs s1 v)) s1
              in if handled' then s2
                 else snd (dsc_trans_trigger e (VdevNode v) s2))"

definition dsc_vdev_trans_stop :: "dsc_env \<Rightarrow> ptr option \<Rightarrow> dsc \<Rightarrow> dsc" where
  "dsc_vdev_trans_stop e vdev s =
     (case vdev of
        None \<Rightarrow> dsc_assert False s
      | Some v \<Rightarrow> dsc_vdev_trigger_trans e v (dsc_trans_stop (VdevNode v) s))"

definition dsc_vdev_assert_trans_protected :: "ptr option \<Rightarrow> dsc \<Rightarrow> dsc" where
  "dsc_vdev_assert_trans_protected vdev s =
     (case vdev of
        None \<Rightarrow> dsc_assert False s
      | Some v \<Rightarrow> dsc_assert (dsc_trans_active (VdevNode v) s \<or>
                            dsc_trans_active (PsocNode (vdev_psoc (vdevs s v))) s \<or>
                            dsc_trans_active (DriverNode (vdev_driver v s)) s) s)"

section \<open>Operations\<close>

definition dsc_vdev_op_start ::
  "dsc_env \<Rightarrow> ptr option \<Rightarrow> string option \<Rightarrow> dsc \<Rightarrow> QDF_STATUS \<times> dsc" where
  "dsc_vdev_op_start e vdev func s =
     (case vdev of
        None \<Rightarrow> (QDF_STATUS_E_INVAL, dsc_assert False s)
      | Some v \<Rightarrow> (case func of
          None \<Rightarrow> (QDF_STATUS_E_INVAL, dsc_assert False s)
        | Some f \<Rightarrow>
            (let status = dsc_vdev_can_op e v s
             in if QDF_IS_STATUS_ERROR status then (status, s)
                else dsc_ops_insert e (VdevNode v) f s)))"

definition dsc_vdev_op_stop :: "dsc_env \<Rightarrow> ptr option \<Rightarrow> string option \<Rightarrow> dsc \<Rightarrow> dsc" where
  "dsc_vdev_op_stop e vdev func s =
     (case vdev of
        None \<Rightarrow> dsc_assert False s
      | Some v \<Rightarrow> (case func of
          None \<Rightarrow> dsc_assert False s
        | Some f \<Rightarrow> dsc_op_stop_node e (VdevNode v) f s))"

definition dsc_vdev_wait_for_ops :: "ptr option \<Rightarrow> dsc \<Rightarrow> bool \<times> dsc" where
  "dsc_vdev_wait_for_ops vdev s =
     (case vdev of
        None \<Rightarrow> (False, dsc_assert False s)
      | Some v \<Rightarrow> dsc_wait_enter (VdevNode v) s)"

definition dsc_vdev_get_cached_cmd :: "ptr \<Rightarrow> dsc \<Rightarrow> u8" where
  "dsc_vdev_get_cached_cmd v s = nb_cmd_during_ssr (vdevs s v)"

definition dsc_vdev_cache_command :: "ptr \<Rightarrow> u8 \<Rightarrow> dsc \<Rightarrow> dsc" where
  "dsc_vdev_cache_command v cmd_id s =
     s\<lparr>vdevs := (vdevs s)(v := (vdevs s v)\<lparr>nb_cmd_during_ssr := cmd_id\<rparr>)\<rparr>"

end
