(* ===== verification/Dsc_Inv.thy ===== *)
theory Dsc_Inv
  imports Dsc_Vdev
begin

text \<open>
  The invariant of a DSC tree and the operations that keep it: the links of
  the tree are consistent (\<open>tree_wf\<close>), a node in transition excludes its
  ancestors and descendants (\<open>tree_excl\<close>), and a transition is queued only
  where a later \<^verbatim>\<open>trans_stop\<close> will reach it (\<open>tree_pend\<close>).
\<close>

section \<open>The tree and its invariant\<close>

definition dsc_nodes :: "ptr \<Rightarrow> dsc \<Rightarrow> dsc_node list" where
  "dsc_nodes d s = DriverNode d #
     concat (map (\<lambda>p. PsocNode p # map VdevNode (psoc_vdevs (psocs s p)))
       (driver_psocs (drivers s d)))"

fun dsc_ancestors :: "dsc \<Rightarrow> dsc_node \<Rightarrow> dsc_node list" where
  "dsc_ancestors s (DriverNode d) = []"
| "dsc_ancestors s (PsocNode p) = [DriverNode (psoc_driver (psocs s p))]"
| "dsc_ancestors s (VdevNode v) =
     [PsocNode (vdev_psoc (vdevs s v)), DriverNode (vdev_driver v s)]"

definition tree_wf :: "ptr \<Rightarrow> dsc \<Rightarrow> bool" where
  "tree_wf d s \<longleftrightarrow>
     distinct (driver_psocs (drivers s d)) \<and>
     (\<forall>p \<in> set (driver_psocs (drivers s d)).
        psoc_driver (psocs s p) = d \<and> distinct (psoc_vdevs (psocs s p)) \<and>
        (\<forall>v \<in> set (psoc_vdevs (psocs s p)). vdev_psoc (vdevs s v) = p))"

definition tree_excl :: "ptr \<Rightarrow> dsc \<Rightarrow> bool" where
  "tree_excl d s \<longleftrightarrow>
     (\<forall>n \<in> set (dsc_nodes d s). \<forall>m \<in> set (dsc_ancestors s n).
        \<not> (dsc_trans_active n s \<and> dsc_trans_active m s))"

text \<open>
  A node with a queue has, at or above it, a transition in progress or a queued
  one that comes first, or, for a driver or a psoc, a transition in progress
  below it.
\<close>

definition tree_pend :: "ptr \<Rightarrow> dsc \<Rightarrow> bool" where
  "tree_pend d s \<longleftrightarrow>
     (\<forall>n \<in> set (dsc_nodes d s). dsc_trans_queued n s \<longrightarrow>
        dsc_trans_active n s \<or>
        (\<exists>m \<in> set (dsc_ancestors s n). dsc_trans_active_or_queued m s) \<or>
        (\<exists>m \<in> set (dsc_nodes d s). n \<in> set (dsc_ancestors s m) \<and> dsc_trans_active m s))"

definition tree_inv :: "ptr \<Rightarrow> dsc \<Rightarrow> bool" where
  "tree_inv d s \<longleftrightarrow> tree_wf d s \<and> tree_excl d s \<and> tree_pend d s"

text \<open>The timer of a started transition can be set up (always so outside the debug build).\<close>

definition env_ok :: "dsc_env \<Rightarrow> bool" where
  "env_ok e \<longleftrightarrow> (\<forall>n. dsc_dbg_trans_timeout_start e n = QDF_STATUS_SUCCESS)"

section \<open>Membership in the tree\<close>

lemma DriverNode_in_nodes [simp]: "DriverNode d' \<in> set (dsc_nodes d s) \<longleftrightarrow> d' = d"
  by (auto simp: dsc_nodes_def)

lemma PsocNode_in_nodes [simp]:
  "PsocNode p \<in> set (dsc_nodes d s) \<longleftrightarrow> p \<in> set (driver_psocs (drivers s d))"
  by (auto simp: dsc_nodes_def)

lemma VdevNode_in_nodes [simp]:
  "VdevNode v \<in> set (dsc_nodes d s) \<longleftrightarrow>
     (\<exists>p \<in> set (driver_psocs (drivers s d)). v \<in> set (psoc_vdevs (psocs s p)))"
  by (auto simp: dsc_nodes_def)

lemma dsc_nodes_cong:
  "drivers s' d = drivers s d \<Longrightarrow> psocs s' = psocs s \<Longrightarrow> dsc_nodes d s' = dsc_nodes d s"
  by (simp add: dsc_nodes_def)

lemma dsc_ancestors_cong:
  "psocs s' = psocs s \<Longrightarrow> vdevs s' = vdevs s \<Longrightarrow> dsc_ancestors s' n = dsc_ancestors s n"
  by (cases n) (simp_all add: vdev_driver_def)

lemma tree_wf_cong:
  "drivers s' = drivers s \<Longrightarrow> psocs s' = psocs s \<Longrightarrow> vdevs s' = vdevs s \<Longrightarrow>
     tree_wf d s' = tree_wf d s"
  by (simp add: tree_wf_def)

lemma ball_dsc_nodes:
  "(\<forall>n \<in> set (dsc_nodes d s). P n) \<longleftrightarrow>
     P (DriverNode d) \<and>
     (\<forall>p \<in> set (driver_psocs (drivers s d)). P (PsocNode p) \<and>
        (\<forall>v \<in> set (psoc_vdevs (psocs s p)). P (VdevNode v)))"
  by (auto simp: dsc_nodes_def)

lemma tree_wfD:
  assumes "tree_wf d s" and "p \<in> set (driver_psocs (drivers s d))"
  shows "psoc_driver (psocs s p) = d" and "distinct (psoc_vdevs (psocs s p))"
    and "v \<in> set (psoc_vdevs (psocs s p)) \<Longrightarrow> vdev_psoc (vdevs s v) = p"
    and "v \<in> set (psoc_vdevs (psocs s p)) \<Longrightarrow> vdev_driver v s = d"
  using assms by (auto simp: tree_wf_def vdev_driver_def)

text \<open>The two state predicates level by level, which the proofs below use.\<close>

lemma tree_excl_levels:
  assumes "tree_wf d s"
  shows "tree_excl d s \<longleftrightarrow>
     (\<forall>p \<in> set (driver_psocs (drivers s d)).
        \<not> (dsc_trans_active (PsocNode p) s \<and> dsc_trans_active (DriverNode d) s) \<and>
        (\<forall>v \<in> set (psoc_vdevs (psocs s p)). dsc_trans_active (VdevNode v) s \<longrightarrow>
           \<not> dsc_trans_active (PsocNode p) s \<and> \<not> dsc_trans_active (DriverNode d) s))"
  using assms by (auto simp: tree_excl_def ball_dsc_nodes dest: tree_wfD)

lemma tree_pend_levels:
  assumes "tree_wf d s"
  shows "tree_pend d s \<longleftrightarrow>
     (dsc_trans_queued (DriverNode d) s \<longrightarrow>
        dsc_trans_active (DriverNode d) s \<or> dsc_driver_trans_active_down_tree d s) \<and>
     (\<forall>p \<in> set (driver_psocs (drivers s d)).
        (dsc_trans_queued (PsocNode p) s \<longrightarrow>
           dsc_trans_active (PsocNode p) s \<or> dsc_trans_active_or_queued (DriverNode d) s \<or>
           dsc_psoc_trans_active_down_tree p s) \<and>
        (\<forall>v \<in> set (psoc_vdevs (psocs s p)). dsc_trans_queued (VdevNode v) s \<longrightarrow>
           dsc_trans_active (VdevNode v) s \<or> dsc_trans_active_or_queued (PsocNode p) s \<or>
           dsc_trans_active_or_queued (DriverNode d) s))"
proof -
  have D: "(\<exists>m \<in> set (dsc_nodes d s). DriverNode d \<in> set (dsc_ancestors s m) \<and> dsc_trans_active m s)
     \<longleftrightarrow> dsc_driver_trans_active_down_tree d s"
    using assms
    by (auto simp: dsc_nodes_def dsc_driver_trans_active_down_tree_def list_ex_iff tree_wfD)
  have P: "(\<exists>m \<in> set (dsc_nodes d s). PsocNode p \<in> set (dsc_ancestors s m) \<and> dsc_trans_active m s)
     \<longleftrightarrow> dsc_psoc_trans_active_down_tree p s" if "p \<in> set (driver_psocs (drivers s d))" for p
    using assms that
    by (fastforce simp: dsc_nodes_def dsc_psoc_trans_active_down_tree_def list_ex_iff tree_wfD)
  have V: "VdevNode v \<notin> set (dsc_ancestors s m)" for v m
    by (cases m) auto
  show ?thesis
    unfolding tree_pend_def ball_dsc_nodes
    using assms by (auto simp: D P V tree_wfD)
qed

section \<open>What a trigger does to each node\<close>

text \<open>The container of a node after its first queued transition, if any, has been started.\<close>

definition triggered :: "dsc \<Rightarrow> dsc_node \<Rightarrow> dsc_trans" where
  "triggered s n =
     (case trans_queue (trans_of s n) of
        [] \<Rightarrow> trans_of s n
      | t # ts \<Rightarrow> \<lparr>active_desc = Some (tran_desc (trans_store s t)), trans_queue = ts\<rparr>)"

text \<open>
  \<open>triggers T s s'\<close>: the step from \<open>s\<close> to \<open>s'\<close> starts the first queued
  transition of every node of \<open>T\<close>, wakes the threads that wait on those, and
  changes nothing else; no assertion fires if no node of \<open>T\<close> was in transition.
\<close>

definition triggers :: "dsc_node set \<Rightarrow> dsc \<Rightarrow> dsc \<Rightarrow> bool" where
  "triggers T s s' \<longleftrightarrow>
     drivers s' = drivers s \<and> psocs s' = psocs s \<and> vdevs s' = vdevs s \<and> ops_of s' = ops_of s \<and>
     (\<forall>m. trans_of s' m = (if m \<in> T then triggered s m else trans_of s m)) \<and>
     (\<forall>t. tran_desc (trans_store s' t) = tran_desc (trans_store s t) \<and>
          tran_abort (trans_store s' t) = tran_abort (trans_store s t) \<and>
          (tran_event (trans_store s' t) \<longleftrightarrow>
             tran_event (trans_store s t) \<or> (\<exists>m \<in> T. \<exists>ts. trans_queue (trans_of s m) = t # ts))) \<and>
     ((\<forall>m \<in> T. \<not> dsc_trans_active m s) \<longrightarrow> dsc_panic s' = dsc_panic s)"

lemma triggers_frame:
  assumes "triggers T s s'"
  shows "drivers s' = drivers s" and "psocs s' = psocs s" and "vdevs s' = vdevs s"
    and "ops_of s' = ops_of s" and "dsc_nodes d s' = dsc_nodes d s"
    and "dsc_ancestors s' n = dsc_ancestors s n" and "tree_wf d s' = tree_wf d s"
  using assms
  by (simp_all add: triggers_def dsc_nodes_cong [of s' d s] dsc_ancestors_cong [of s' s]
      tree_wf_cong [of s' s])

lemma triggers_trans_of:
  "triggers T s s' \<Longrightarrow> trans_of s' m = (if m \<in> T then triggered s m else trans_of s m)"
  by (simp add: triggers_def)

lemma triggers_empty: "triggers {} s s"
  by (simp add: triggers_def)

lemma triggers_comp:
  assumes "triggers T s t" and "triggers U t u" and "T \<inter> U = {}"
  shows "triggers (T \<union> U) s u"
proof -
  have same: "trans_of t m = trans_of s m" if "m \<in> U" for m
    using assms that by (auto simp: triggers_def)
  have "triggered t m = triggered s m" if "m \<in> U" for m
    using assms(1) same [OF that] by (simp add: triggered_def triggers_def split: list.split)
  moreover have "dsc_panic u = dsc_panic s" if "\<forall>m \<in> T \<union> U. \<not> dsc_trans_active m s"
    using assms(1,2) that same by (simp add: triggers_def dsc_trans_active_def)
  ultimately show ?thesis
    using assms same by (auto simp: triggers_def)
qed

lemma trigger_triggers:
  assumes "env_ok e"
  shows "triggers {n} s (snd (dsc_trans_trigger e n s))"
  using assms
  by (auto simp: triggers_def dsc_trans_trigger_def dsc_trans_dequeue_def dsc_trans_start_def
      env_ok_def triggered_def dsc_trans_active_def Let_def split: list.split)

lemma trigger_fst: "fst (dsc_trans_trigger e n s) \<longleftrightarrow> dsc_trans_queued n s"
  by (auto simp: dsc_trans_trigger_def dsc_trans_dequeue_def dsc_trans_queued_def
      split: list.split prod.split)

lemma trigger_not_queued: "\<not> dsc_trans_queued n s \<Longrightarrow> dsc_trans_trigger e n s = (False, s)"
  by (simp add: dsc_trans_trigger_def dsc_trans_dequeue_def dsc_trans_queued_def)

lemma fold_triggers:
  assumes "distinct xs"
    and step: "\<And>x t. x \<in> set xs \<Longrightarrow> psocs t = psocs s \<Longrightarrow>
       trans_of t (PsocNode x) = trans_of s (PsocNode x) \<Longrightarrow> triggers (F x) t (f x t)"
    and disj: "\<And>x y. x \<in> set xs \<Longrightarrow> y \<in> set xs \<Longrightarrow> x \<noteq> y \<Longrightarrow> F x \<inter> insert (PsocNode y) (F y) = {}"
  shows "triggers (\<Union>x \<in> set xs. F x) s (fold f xs s)"
proof -
  have "triggers (\<Union>x \<in> set ys. F x) s (fold f ys s)" if "set ys \<subseteq> set xs" "distinct ys" for ys
    using that
  proof (induction ys rule: rev_induct)
    case Nil
    then show ?case by (simp add: triggers_empty)
  next
    case (snoc y ys)
    then have IH: "triggers (\<Union>x \<in> set ys. F x) s (fold f ys s)" by simp
    have y: "y \<in> set xs" "y \<notin> set ys" "set ys \<subseteq> set xs" using snoc.prems by auto
    have un: "PsocNode y \<notin> (\<Union>x \<in> set ys. F x)" "(\<Union>x \<in> set ys. F x) \<inter> F y = {}"
      using disj y by blast+
    have "triggers (F y) (fold f ys s) (f y (fold f ys s))"
      by (rule step) (use IH y un in \<open>auto simp: triggers_frame triggers_trans_of\<close>)
    from triggers_comp [OF IH this un(2)]
    have "triggers ((\<Union>x \<in> set ys. F x) \<union> F y) s (f y (fold f ys s))" .
    then show ?case by (simp add: Un_commute)
  qed
  then show ?thesis using assms(1) by blast
qed

lemma trigger_vdevs_triggers:
  assumes "env_ok e" and "distinct vs"
  shows "triggers (VdevNode ` set vs) s (dsc_trigger_vdevs e vs s)"
proof -
  have "triggers (\<Union>v \<in> set vs. {VdevNode v}) s (dsc_trigger_vdevs e vs s)"
    unfolding dsc_trigger_vdevs_def
    by (rule fold_triggers) (use assms in \<open>auto simp: trigger_triggers\<close>)
  moreover have "(\<Union>v \<in> set vs. {VdevNode v}) = VdevNode ` set vs" by auto
  ultimately show ?thesis by simp
qed

text \<open>The nodes that an iteration over a psoc triggers: the psoc, or its vdevs.\<close>

definition psoc_targets :: "dsc \<Rightarrow> ptr \<Rightarrow> dsc_node set" where
  "psoc_targets s p =
     (if dsc_trans_queued (PsocNode p) s then {PsocNode p}
      else VdevNode ` set (psoc_vdevs (psocs s p)))"

lemma trigger_psoc_triggers:
  assumes "env_ok e" and "distinct (psoc_vdevs (psocs s p))"
  shows "triggers (psoc_targets s p) s (dsc_trigger_psoc e p s)"
proof (cases "dsc_trans_queued (PsocNode p) s")
  case True
  then have "fst (dsc_trans_trigger e (PsocNode p) s)" by (simp add: trigger_fst)
  with True show ?thesis
    using trigger_triggers [OF assms(1), of "PsocNode p" s]
    by (auto simp: dsc_trigger_psoc_def psoc_targets_def split: prod.split)
next
  case False
  then show ?thesis
    using trigger_vdevs_triggers [OF assms, of s]
    by (simp add: dsc_trigger_psoc_def psoc_targets_def trigger_not_queued)
qed

definition driver_targets :: "dsc \<Rightarrow> ptr \<Rightarrow> dsc_node set" where
  "driver_targets s d =
     (if dsc_trans_queued (DriverNode d) s then {DriverNode d}
      else (\<Union>p \<in> set (driver_psocs (drivers s d)). psoc_targets s p))"

lemma driver_trigger_triggers:
  assumes "env_ok e" and "tree_wf d s"
  shows "triggers (driver_targets s d) s (dsc_driver_trigger_trans e d s)"
proof (cases "dsc_trans_queued (DriverNode d) s")
  case True
  then have "fst (dsc_trans_trigger e (DriverNode d) s)" by (simp add: trigger_fst)
  with True show ?thesis
    using trigger_triggers [OF assms(1), of "DriverNode d" s]
    by (auto simp: dsc_driver_trigger_trans_def driver_targets_def split: prod.split)
next
  case False
  have "triggers (\<Union>p \<in> set (driver_psocs (drivers s d)). psoc_targets s p) s
     (fold (dsc_trigger_psoc e) (driver_psocs (drivers s d)) s)"
  proof (rule fold_triggers)
    show "distinct (driver_psocs (drivers s d))"
      using assms(2) by (simp add: tree_wf_def)
    fix p and t :: dsc assume p: "p \<in> set (driver_psocs (drivers s d))" and t: "psocs t = psocs s"
      "trans_of t (PsocNode p) = trans_of s (PsocNode p)"
    then have "psoc_targets t p = psoc_targets s p"
      by (simp add: psoc_targets_def dsc_trans_queued_def)
    then show "triggers (psoc_targets s p) t (dsc_trigger_psoc e p t)"
      using trigger_psoc_triggers [OF assms(1), of t p] t(1) tree_wfD(2) [OF assms(2) p] by simp
  next
    fix p q assume "p \<in> set (driver_psocs (drivers s d))" "q \<in> set (driver_psocs (drivers s d))" "p \<noteq> q"
    then show "psoc_targets s p \<inter> insert (PsocNode q) (psoc_targets s q) = {}"
      using tree_wfD(3) [OF assms(2)] by (auto simp: psoc_targets_def split: if_splits)
  qed
  with False show ?thesis
    by (simp add: dsc_driver_trigger_trans_def driver_targets_def trigger_not_queued)
qed

lemma triggers_active:
  "triggers T s s' \<Longrightarrow>
     dsc_trans_active m s' \<longleftrightarrow> dsc_trans_active m s \<or> (m \<in> T \<and> dsc_trans_queued m s)"
  by (simp add: triggers_trans_of dsc_trans_active_def dsc_trans_queued_def triggered_def
      split: list.split)

lemma triggers_queuedD:
  assumes "triggers T s s'" and "dsc_trans_queued m s'"
  shows "dsc_trans_queued m s" and "m \<in> T \<Longrightarrow> dsc_trans_active m s'"
  using assms
  by (auto simp: triggers_trans_of dsc_trans_active_def dsc_trans_queued_def triggered_def
      split: list.splits if_splits)

lemma triggers_queued_other:
  "triggers T s s' \<Longrightarrow> m \<notin> T \<Longrightarrow> dsc_trans_queued m s' \<longleftrightarrow> dsc_trans_queued m s"
  by (simp add: triggers_trans_of dsc_trans_queued_def)

section \<open>Stopping a transition\<close>

lemma trans_stop_sel:
  "dsc_trans_active m (dsc_trans_stop n s) \<longleftrightarrow> m \<noteq> n \<and> dsc_trans_active m s"
  "dsc_trans_queued m (dsc_trans_stop n s) \<longleftrightarrow> dsc_trans_queued m s"
  "drivers (dsc_trans_stop n s) = drivers s" "psocs (dsc_trans_stop n s) = psocs s"
  "vdevs (dsc_trans_stop n s) = vdevs s" "ops_of (dsc_trans_stop n s) = ops_of s"
  "trans_store (dsc_trans_stop n s) = trans_store s"
  "trans_queue (trans_of (dsc_trans_stop n s) m) = trans_queue (trans_of s m)"
  "dsc_panic (dsc_trans_stop n s) \<longleftrightarrow> dsc_panic s \<or> \<not> dsc_trans_active n s"
  by (auto simp: dsc_trans_stop_def dsc_trans_active_def dsc_trans_queued_def)

lemma trans_stop_wf: "tree_wf d (dsc_trans_stop n s) = tree_wf d s"
  by (rule tree_wf_cong) (simp_all add: trans_stop_sel)

lemmas down_tree_defs =
  dsc_driver_trans_active_down_tree_def dsc_psoc_trans_active_down_tree_def list_ex_iff

text \<open>
  What the three stop functions trigger, as a set of nodes: a queued driver
  transition comes first, then a queued psoc transition, then the vdevs; at the
  two lower levels nothing is triggered while an ancestor that is queued still
  has to wait.
\<close>

definition checked_targets :: "bool \<Rightarrow> bool \<Rightarrow> dsc_node \<Rightarrow> dsc_node set \<Rightarrow> dsc_node set" where
  "checked_targets queued can n rest = (if queued then (if can then {n} else {}) else rest)"

definition psoc_stop_targets :: "dsc \<Rightarrow> ptr \<Rightarrow> dsc_node set" where
  "psoc_stop_targets s p =
     (let d = psoc_driver (psocs s p)
      in checked_targets (dsc_trans_queued (DriverNode d) s) (dsc_driver_can_trigger d s)
           (DriverNode d) (psoc_targets s p))"

definition vdev_stop_targets :: "dsc \<Rightarrow> ptr \<Rightarrow> dsc_node set" where
  "vdev_stop_targets s v =
     (let p = vdev_psoc (vdevs s v); d = vdev_driver v s
      in checked_targets (dsc_trans_queued (DriverNode d) s) (dsc_driver_can_trigger d s)
           (DriverNode d)
           (checked_targets (dsc_trans_queued (PsocNode p) s) (dsc_psoc_can_trigger p s)
              (PsocNode p) {VdevNode v}))"

lemma driver_checked_cases:
  assumes "env_ok e" and "dsc_driver_trans_trigger_checked e d s = (b, s')"
  shows "b = dsc_trans_queued (DriverNode d) s" and "\<not> b \<Longrightarrow> s' = s"
    and "b \<Longrightarrow> triggers (if dsc_driver_can_trigger d s then {DriverNode d} else {}) s s'"
  using assms trigger_fst [of e "DriverNode d" s] trigger_triggers [OF assms(1), of "DriverNode d" s]
  by (auto simp: dsc_driver_trans_trigger_checked_def triggers_empty split: if_splits)

lemma psoc_checked_cases:
  assumes "env_ok e" and "dsc_psoc_trans_trigger_checked e p s = (b, s')"
  shows "b = dsc_trans_queued (PsocNode p) s" and "\<not> b \<Longrightarrow> s' = s"
    and "b \<Longrightarrow> triggers (if dsc_psoc_can_trigger p s then {PsocNode p} else {}) s s'"
  using assms trigger_fst [of e "PsocNode p" s] trigger_triggers [OF assms(1), of "PsocNode p" s]
  by (auto simp: dsc_psoc_trans_trigger_checked_def dsc_trans_queued_def triggers_empty
      split: if_splits)

lemma psoc_trigger_triggers:
  assumes "env_ok e" and "distinct (psoc_vdevs (psocs s p))"
  shows "triggers (psoc_stop_targets s p) s (dsc_psoc_trigger_trans e p s)"
proof -
  obtain b s1 where c: "dsc_driver_trans_trigger_checked e (psoc_driver (psocs s p)) s = (b, s1)"
    by fastforce
  have "dsc_psoc_trigger_trans e p s = (if b then s1 else dsc_trigger_psoc e p s1)"
    by (simp add: dsc_psoc_trigger_trans_def dsc_trigger_psoc_def c)
  then show ?thesis
    using driver_checked_cases [OF assms(1) c] trigger_psoc_triggers [OF assms]
    by (auto simp: psoc_stop_targets_def checked_targets_def Let_def split: if_splits)
qed

lemma vdev_trigger_triggers:
  assumes "env_ok e"
  shows "triggers (vdev_stop_targets s v) s (dsc_vdev_trigger_trans e v s)"
proof -
  obtain b s1 where c: "dsc_driver_trans_trigger_checked e (vdev_driver v s) s = (b, s1)"
    by fastforce
  obtain b' s2 where c': "dsc_psoc_trans_trigger_checked e (vdev_psoc (vdevs s1 v)) s1 = (b', s2)"
    by fastforce
  have "dsc_vdev_trigger_trans e v s =
      (if b then s1 else if b' then s2 else snd (dsc_trans_trigger e (VdevNode v) s2))"
    by (simp add: dsc_vdev_trigger_trans_def c c')
  then show ?thesis
    using driver_checked_cases [OF assms c] psoc_checked_cases [OF assms c'] trigger_triggers [OF assms]
    by (auto simp: vdev_stop_targets_def checked_targets_def Let_def split: if_splits)
qed

text \<open>The effect of a stop on the two predicates, with the nodes it triggers as a parameter.\<close>

lemma stop_effect:
  assumes "triggers T (dsc_trans_stop n s) s'"
  shows "dsc_trans_active m s' \<longleftrightarrow>
      (m \<noteq> n \<and> dsc_trans_active m s) \<or> (m \<in> T \<and> dsc_trans_queued m s)"
    and "dsc_trans_queued m s' \<Longrightarrow> dsc_trans_queued m s"
    and "dsc_trans_queued m s' \<Longrightarrow> m \<in> T \<Longrightarrow> dsc_trans_active m s'"
    and "m \<notin> T \<Longrightarrow> dsc_trans_queued m s' \<longleftrightarrow> dsc_trans_queued m s"
    and "drivers s' = drivers s" and "psocs s' = psocs s" and "vdevs s' = vdevs s"
    and "tree_wf d s' = tree_wf d s"
  using triggers_active [OF assms] triggers_queuedD [OF assms] triggers_queued_other [OF assms]
    triggers_frame [OF assms]
  by (auto simp: trans_stop_sel trans_stop_wf)

lemma driver_stop_inv:
  assumes e: "env_ok e" and inv: "tree_inv d s" and act: "dsc_trans_active (DriverNode d) s"
  shows "tree_inv d (dsc_driver_trans_stop e (Some d) s)"
proof -
  let ?s0 = "dsc_trans_stop (DriverNode d) s" and ?s' = "dsc_driver_trans_stop e (Some d) s"
  from inv have wf: "tree_wf d s" and ex: "tree_excl d s" and pe: "tree_pend d s"
    by (simp_all add: tree_inv_def)
  have tr: "triggers (driver_targets ?s0 d) ?s0 ?s'"
    using driver_trigger_triggers [OF e, of d ?s0] wf
    by (simp add: dsc_driver_trans_stop_def trans_stop_wf)
  have T: "driver_targets ?s0 d =
    (if dsc_trans_queued (DriverNode d) s then {DriverNode d}
     else (\<Union>p \<in> set (driver_psocs (drivers s d)).
       if dsc_trans_queued (PsocNode p) s then {PsocNode p}
       else VdevNode ` set (psoc_vdevs (psocs s p))))"
    by (simp add: driver_targets_def psoc_targets_def trans_stop_sel)
  note eff = stop_effect [OF tr, unfolded T]
  have wf': "tree_wf d ?s'" using wf by (simp add: stop_effect(8) [OF tr])
  have idle: "\<not> dsc_trans_active (PsocNode p) s" "v \<in> set (psoc_vdevs (psocs s p)) \<Longrightarrow>
     \<not> dsc_trans_active (VdevNode v) s" if "p \<in> set (driver_psocs (drivers s d))" for p v
    using ex act that by (auto simp: tree_excl_levels [OF wf])
  have same: "p = q" if "p \<in> set (driver_psocs (drivers s d))" "q \<in> set (driver_psocs (drivers s d))"
     "v \<in> set (psoc_vdevs (psocs s p))" "v \<in> set (psoc_vdevs (psocs s q))" for p q v
    using tree_wfD(3) [OF wf] that by metis
  have "tree_excl d ?s'"
    by (auto simp: tree_excl_levels [OF wf'] eff(1,5,6) idle dest: same split: if_splits)
  moreover have "tree_pend d ?s'"
    by (cases "dsc_trans_queued (DriverNode d) s")
      (auto simp: tree_pend_levels [OF wf'] eff(1,5,6) dsc_trans_active_or_queued_def dest: eff(2))
  ultimately show ?thesis using wf' by (simp add: tree_inv_def)
qed

lemma psoc_stop_inv:
  assumes e: "env_ok e" and inv: "tree_inv d s" and p: "p \<in> set (driver_psocs (drivers s d))"
    and act: "dsc_trans_active (PsocNode p) s"
  shows "tree_inv d (dsc_psoc_trans_stop e (Some p) s)"
proof -
  let ?s0 = "dsc_trans_stop (PsocNode p) s" and ?s' = "dsc_psoc_trans_stop e (Some p) s"
  from inv have wf: "tree_wf d s" and ex: "tree_excl d s" and pe: "tree_pend d s"
    by (simp_all add: tree_inv_def)
  have tr: "triggers (psoc_stop_targets ?s0 p) ?s0 ?s'"
    using psoc_trigger_triggers [OF e, of ?s0 p] tree_wfD(2) [OF wf p]
    by (simp add: dsc_psoc_trans_stop_def trans_stop_sel)
  have T: "psoc_stop_targets ?s0 p =
    (if dsc_trans_queued (DriverNode d) s
     then (if dsc_driver_can_trigger d ?s0 then {DriverNode d} else {})
     else if dsc_trans_queued (PsocNode p) s then {PsocNode p}
     else VdevNode ` set (psoc_vdevs (psocs s p)))"
    using tree_wfD(1) [OF wf p]
    by (simp add: psoc_stop_targets_def psoc_targets_def checked_targets_def trans_stop_sel)
  note eff = stop_effect [OF tr, unfolded T]
  have wf': "tree_wf d ?s'" using wf by (simp add: stop_effect(8) [OF tr])
  have can: "dsc_driver_can_trigger d ?s0 \<longleftrightarrow>
      (\<forall>q \<in> set (driver_psocs (drivers s d)). (q \<noteq> p \<longrightarrow> \<not> dsc_trans_active (PsocNode q) s) \<and>
         (\<forall>v \<in> set (psoc_vdevs (psocs s q)). \<not> dsc_trans_active (VdevNode v) s))"
    using ex act p
    by (auto simp: dsc_driver_can_trigger_def down_tree_defs trans_stop_sel tree_excl_levels [OF wf])
  have idle: "\<not> dsc_trans_active (DriverNode d) s" "v \<in> set (psoc_vdevs (psocs s p)) \<Longrightarrow>
     \<not> dsc_trans_active (VdevNode v) s" for v
    using ex act p by (auto simp: tree_excl_levels [OF wf])
  have same: "q = p" if "q \<in> set (driver_psocs (drivers s d))"
     "v \<in> set (psoc_vdevs (psocs s p))" "v \<in> set (psoc_vdevs (psocs s q))" for q v
    using tree_wfD(3) [OF wf] p that by metis
  have "tree_excl d ?s'"
    using ex can
    by (auto simp: tree_excl_levels [OF wf'] tree_excl_levels [OF wf] eff(1,5,6) idle dest: same
        split: if_splits)
  moreover have "tree_pend d ?s'"
  proof (cases "dsc_trans_queued (DriverNode d) s")
    case True
    then show ?thesis
      using can eff(4) [of "DriverNode d"]
      by (auto simp: tree_pend_levels [OF wf'] eff(1,5,6) dsc_trans_active_or_queued_def down_tree_defs
          split: if_splits)
  next
    case False
    have other: "dsc_trans_queued (PsocNode q) ?s' \<longleftrightarrow> dsc_trans_queued (PsocNode q) s"
      if "q \<noteq> p" for q
      by (rule eff(4)) (use that False in auto)
    have "dsc_trans_active_or_queued (PsocNode q) ?s'"
      if "dsc_trans_active_or_queued (PsocNode q) s" "q = p \<Longrightarrow> dsc_trans_queued (PsocNode p) s" for q
      using other [of q] that False by (auto simp: dsc_trans_active_or_queued_def eff(1))
    then show ?thesis
      using pe idle(1) False
      by (auto simp: tree_pend_levels [OF wf'] tree_pend_levels [OF wf] eff(1,5,6)
          dsc_trans_active_or_queued_def [of "DriverNode d"] down_tree_defs dest!: eff(2)
          split: if_splits)
  qed
  ultimately show ?thesis using wf' by (simp add: tree_inv_def)
qed

lemma vdev_stop_inv:
  assumes e: "env_ok e" and inv: "tree_inv d s" and p: "p \<in> set (driver_psocs (drivers s d))"
    and v: "v \<in> set (psoc_vdevs (psocs s p))" and act: "dsc_trans_active (VdevNode v) s"
  shows "tree_inv d (dsc_vdev_trans_stop e (Some v) s)"
proof -
  let ?s0 = "dsc_trans_stop (VdevNode v) s" and ?s' = "dsc_vdev_trans_stop e (Some v) s"
  from inv have wf: "tree_wf d s" and ex: "tree_excl d s" and pe: "tree_pend d s"
    by (simp_all add: tree_inv_def)
  have tr: "triggers (vdev_stop_targets ?s0 v) ?s0 ?s'"
    using vdev_trigger_triggers [OF e, of ?s0 v] by (simp add: dsc_vdev_trans_stop_def)
  have up: "vdev_driver v s = d" "vdev_driver v ?s0 = d" "vdev_psoc (vdevs s v) = p"
    "psoc_driver (psocs s p) = d"
    using tree_wfD [OF wf p] v by (auto simp: vdev_driver_def trans_stop_sel)
  have T: "vdev_stop_targets ?s0 v =
    (if dsc_trans_queued (DriverNode d) s
     then (if dsc_driver_can_trigger d ?s0 then {DriverNode d} else {})
     else if dsc_trans_queued (PsocNode p) s
     then (if dsc_psoc_can_trigger p ?s0 then {PsocNode p} else {})
     else {VdevNode v})"
    by (simp add: vdev_stop_targets_def checked_targets_def trans_stop_sel up)
  note eff = stop_effect [OF tr, unfolded T]
  have wf': "tree_wf d ?s'" using wf by (simp add: stop_effect(8) [OF tr])
  have idle: "\<not> dsc_trans_active (DriverNode d) s" "\<not> dsc_trans_active (PsocNode p) s"
    using ex act p v by (auto simp: tree_excl_levels [OF wf])
  have can: "dsc_driver_can_trigger d ?s0 \<longleftrightarrow>
      (\<forall>q \<in> set (driver_psocs (drivers s d)). \<not> dsc_trans_active (PsocNode q) s \<and>
         (\<forall>w \<in> set (psoc_vdevs (psocs s q)). w \<noteq> v \<longrightarrow> \<not> dsc_trans_active (VdevNode w) s))"
    using idle by (auto simp: dsc_driver_can_trigger_def down_tree_defs trans_stop_sel)
  have can': "\<not> dsc_trans_queued (DriverNode d) s \<Longrightarrow> dsc_psoc_can_trigger p ?s0 \<longleftrightarrow>
      (\<forall>w \<in> set (psoc_vdevs (psocs s p)). w \<noteq> v \<longrightarrow> \<not> dsc_trans_active (VdevNode w) s)"
    using idle
    by (auto simp: dsc_psoc_can_trigger_def down_tree_defs trans_stop_sel up
        dsc_trans_active_or_queued_def)
  have same: "q = p" if "q \<in> set (driver_psocs (drivers s d))" "v \<in> set (psoc_vdevs (psocs s q))" for q
    using tree_wfD(3) [OF wf that(1)] that up by simp
  have "tree_excl d ?s'"
    using ex can can' idle
    by (auto simp: tree_excl_levels [OF wf'] tree_excl_levels [OF wf] eff(1,5,6) dest: same
        split: if_splits)
  moreover have "tree_pend d ?s'"
  proof (cases "dsc_trans_queued (DriverNode d) s")
    case True
    then show ?thesis
      using can eff(4) [of "DriverNode d"]
      by (auto simp: tree_pend_levels [OF wf'] eff(1,5,6) dsc_trans_active_or_queued_def down_tree_defs
          split: if_splits)
  next
    case False
    note pend = pe [unfolded tree_pend_levels [OF wf] dsc_trans_active_or_queued_def [of "DriverNode d"]]
    have up': "dsc_trans_active_or_queued (PsocNode q) ?s'"
      if "dsc_trans_active_or_queued (PsocNode q) s" for q
      using eff(4) [of "PsocNode q"] that False
      by (cases "q = p") (auto simp: dsc_trans_active_or_queued_def eff(1) split: if_splits)
    have P: "dsc_trans_active (PsocNode q) ?s' \<or> dsc_psoc_trans_active_down_tree q ?s'"
      if "q \<in> set (driver_psocs (drivers s d))" "dsc_trans_queued (PsocNode q) s" for q
    proof (cases "q = p")
      case True
      then show ?thesis
        using can' False that by (auto simp: eff(1,5,6) down_tree_defs split: if_splits)
    next
      case False
      then have "v \<notin> set (psoc_vdevs (psocs s q))" using same that by blast
      with pend that idle \<open>\<not> dsc_trans_queued (DriverNode d) s\<close> show ?thesis
        by (auto simp: eff(1,5,6) down_tree_defs)
    qed
    have V: "dsc_trans_active (VdevNode w) ?s' \<or> dsc_trans_active_or_queued (PsocNode q) ?s'"
      if "q \<in> set (driver_psocs (drivers s d))" "w \<in> set (psoc_vdevs (psocs s q))"
        "dsc_trans_queued (VdevNode w) s" for q w
    proof (cases "w = v")
      case True
      with that have "q = p" using same by blast
      with True that False show ?thesis
        using up' [of p] by (auto simp: eff(1) dsc_trans_active_or_queued_def split: if_splits)
    next
      case False
      with pend that idle \<open>\<not> dsc_trans_queued (DriverNode d) s\<close> up' show ?thesis
        by (auto simp: eff(1))
    qed
    show ?thesis
      using P V False by (auto simp: tree_pend_levels [OF wf'] eff(5,6) dest!: eff(2))
  qed
  ultimately show ?thesis using wf' by (simp add: tree_inv_def)
qed

section \<open>Starting and queueing a transition\<close>

text \<open>The three levels behind one name, as the callers of DSC use them.\<close>

fun dsc_start_at :: "dsc_env \<Rightarrow> dsc_node \<Rightarrow> string \<Rightarrow> dsc \<Rightarrow> QDF_STATUS \<times> dsc" where
  "dsc_start_at e (DriverNode d) desc s = dsc_driver_trans_start e (Some d) (Some desc) s"
| "dsc_start_at e (PsocNode p) desc s = dsc_psoc_trans_start e (Some p) (Some desc) s"
| "dsc_start_at e (VdevNode v) desc s = dsc_vdev_trans_start e (Some v) (Some desc) s"

fun dsc_start_wait_at :: "dsc_env \<Rightarrow> ptr \<Rightarrow> dsc_node \<Rightarrow> string \<Rightarrow> dsc \<Rightarrow> dsc_start \<times> dsc" where
  "dsc_start_wait_at e t (DriverNode d) desc s = dsc_driver_trans_start_wait e t (Some d) (Some desc) s"
| "dsc_start_wait_at e t (PsocNode p) desc s = dsc_psoc_trans_start_wait e t (Some p) (Some desc) s"
| "dsc_start_wait_at e t (VdevNode v) desc s = dsc_vdev_trans_start_wait e t (Some v) (Some desc) s"

fun dsc_stop_at :: "dsc_env \<Rightarrow> dsc_node \<Rightarrow> dsc \<Rightarrow> dsc" where
  "dsc_stop_at e (DriverNode d) s = dsc_driver_trans_stop e (Some d) s"
| "dsc_stop_at e (PsocNode p) s = dsc_psoc_trans_stop e (Some p) s"
| "dsc_stop_at e (VdevNode v) s = dsc_vdev_trans_stop e (Some v) s"

fun dsc_op_start_at :: "dsc_env \<Rightarrow> dsc_node \<Rightarrow> string \<Rightarrow> dsc \<Rightarrow> QDF_STATUS \<times> dsc" where
  "dsc_op_start_at e (DriverNode d) func s = dsc_driver_op_start e (Some d) (Some func) s"
| "dsc_op_start_at e (PsocNode p) func s = dsc_psoc_op_start e (Some p) (Some func) s"
| "dsc_op_start_at e (VdevNode v) func s = dsc_vdev_op_start e (Some v) (Some func) s"

fun dsc_op_stop_at :: "dsc_env \<Rightarrow> dsc_node \<Rightarrow> string \<Rightarrow> dsc \<Rightarrow> dsc" where
  "dsc_op_stop_at e (DriverNode d) func s = dsc_driver_op_stop e (Some d) (Some func) s"
| "dsc_op_stop_at e (PsocNode p) func s = dsc_psoc_op_stop e (Some p) (Some func) s"
| "dsc_op_stop_at e (VdevNode v) func s = dsc_vdev_op_stop e (Some v) (Some func) s"

text \<open>The check that guards a start: what it answers, and what it means when it succeeds.\<close>

fun dsc_can_at :: "dsc_env \<Rightarrow> dsc_node \<Rightarrow> dsc \<Rightarrow> QDF_STATUS" where
  "dsc_can_at e (DriverNode d) s =
     (if dsc_driver_can_trans d s then QDF_STATUS_SUCCESS else QDF_STATUS_E_AGAIN)"
| "dsc_can_at e (PsocNode p) s = dsc_psoc_can_trans p s"
| "dsc_can_at e (VdevNode v) s = dsc_vdev_can_trans e v s"

lemma start_at_eq:
  "dsc_start_at e n desc s =
     (if dsc_can_at e n s = QDF_STATUS_SUCCESS then dsc_trans_start e n desc s
      else (dsc_can_at e n s, s))"
  by (cases n) (auto simp: dsc_driver_trans_start_def dsc_driver_trans_start_nolock_def
      dsc_psoc_trans_start_def dsc_psoc_trans_start_nolock_def
      dsc_vdev_trans_start_def dsc_vdev_trans_start_nolock_def Let_def)

lemma can_at_range:
  "dsc_can_at e n s \<in> {QDF_STATUS_SUCCESS, QDF_STATUS_E_AGAIN, QDF_STATUS_E_INVAL}"
  by (cases n) (auto simp: dsc_psoc_can_trans_def dsc_vdev_can_trans_def)

lemma start_wait_at_eq:
  assumes "env_ok e"
  shows "dsc_start_wait_at e t n desc s =
     (case dsc_can_at e n s of
        QDF_STATUS_SUCCESS \<Rightarrow> (Returned QDF_STATUS_SUCCESS, snd (dsc_trans_start e n desc s))
      | QDF_STATUS_E_AGAIN \<Rightarrow>
          (case dsc_trans_queue e n t desc s of
             (st, s') \<Rightarrow> (if st = QDF_STATUS_SUCCESS then Blocked t else Returned st, s'))
      | st \<Rightarrow> (Returned st, s))"
  using can_at_range [of e n s] assms
  by (cases n)
    (auto simp: dsc_driver_trans_start_wait_def dsc_driver_trans_start_nolock_def
      dsc_psoc_trans_start_wait_def dsc_psoc_trans_start_nolock_def
      dsc_vdev_trans_start_wait_def dsc_vdev_trans_start_nolock_def
      dsc_trans_start_def env_ok_def Let_def split: prod.splits)

lemma trans_start_ok:
  assumes "env_ok e"
  shows "fst (dsc_trans_start e n desc s) = QDF_STATUS_SUCCESS"
    and "trans_of (snd (dsc_trans_start e n desc s)) m =
      (if m = n then (trans_of s n)\<lparr>active_desc := Some desc\<rparr> else trans_of s m)"
    and "dsc_panic (snd (dsc_trans_start e n desc s)) \<longleftrightarrow> dsc_panic s \<or> dsc_trans_active n s"
  using assms by (auto simp: dsc_trans_start_def env_ok_def dsc_trans_active_def)

lemma trans_start_frame:
  "drivers (snd (dsc_trans_start e n desc s)) = drivers s"
  "psocs (snd (dsc_trans_start e n desc s)) = psocs s"
  "vdevs (snd (dsc_trans_start e n desc s)) = vdevs s"
  "ops_of (snd (dsc_trans_start e n desc s)) = ops_of s"
  "trans_store (snd (dsc_trans_start e n desc s)) = trans_store s"
  by (simp_all add: dsc_trans_start_def Let_def)

text \<open>A transition that may start has no transition in progress at, above or below it.\<close>

lemma can_at_clear:
  assumes wf: "tree_wf d s" and n: "n \<in> set (dsc_nodes d s)" and can: "dsc_can_at e n s = QDF_STATUS_SUCCESS"
  shows "\<not> dsc_trans_active n s" and "\<not> dsc_trans_queued n s"
    and "m \<in> set (dsc_ancestors s n) \<Longrightarrow> \<not> dsc_trans_active_or_queued m s"
    and "m \<in> set (dsc_nodes d s) \<Longrightarrow> n \<in> set (dsc_ancestors s m) \<Longrightarrow> \<not> dsc_trans_active m s"
proof -
  have V: "VdevNode v \<notin> set (dsc_ancestors s m)" for v m
    by (cases m) auto
  show "\<not> dsc_trans_active n s" "\<not> dsc_trans_queued n s"
    "m \<in> set (dsc_ancestors s n) \<Longrightarrow> \<not> dsc_trans_active_or_queued m s"
    using can by (cases n; auto simp: dsc_driver_can_trans_def dsc_psoc_can_trans_def dsc_vdev_can_trans_def
        dsc_trans_active_or_queued_def split: if_splits)+
  show "m \<in> set (dsc_nodes d s) \<Longrightarrow> n \<in> set (dsc_ancestors s m) \<Longrightarrow> \<not> dsc_trans_active m s"
    using can n wf
    by (cases n; cases m)
      (auto simp: dsc_driver_can_trans_def dsc_psoc_can_trans_def V down_tree_defs
        tree_wfD split: if_splits)
qed

lemma tree_inv_start:
  assumes e: "env_ok e" and inv: "tree_inv d s" and n: "n \<in> set (dsc_nodes d s)"
    and can: "dsc_can_at e n s = QDF_STATUS_SUCCESS"
  shows "tree_inv d (snd (dsc_trans_start e n desc s))"
proof -
  let ?s' = "snd (dsc_trans_start e n desc s)"
  have wf: "tree_wf d s" using inv by (simp add: tree_inv_def)
  have fr: "dsc_nodes d ?s' = dsc_nodes d s" "\<And>m. dsc_ancestors ?s' m = dsc_ancestors s m"
    "tree_wf d ?s' = tree_wf d s"
    by (simp_all add: trans_start_frame dsc_nodes_cong [of ?s' d s] dsc_ancestors_cong [of ?s' s]
        tree_wf_cong [of ?s' s])
  have act: "dsc_trans_active m ?s' \<longleftrightarrow> m = n \<or> dsc_trans_active m s" for m
    using e by (simp add: dsc_trans_active_def trans_start_ok)
  have que: "dsc_trans_queued m ?s' \<longleftrightarrow> dsc_trans_queued m s" for m
    using e by (simp add: dsc_trans_queued_def trans_start_ok)
  have self: "n \<notin> set (dsc_ancestors s n)" by (cases n) auto
  have "tree_excl d ?s'"
    using inv can_at_clear [OF wf n can] self
    unfolding tree_inv_def tree_excl_def fr act dsc_trans_active_or_queued_def by blast
  moreover have "tree_pend d ?s'"
    using inv unfolding tree_inv_def tree_pend_def fr act que dsc_trans_active_or_queued_def by blast
  ultimately show ?thesis using wf by (simp add: tree_inv_def fr)
qed

lemma trans_queue_sel:
  assumes "dsc_trans_queue e n t desc s = (st, s')"
  shows "dsc_trans_active m s' \<longleftrightarrow> dsc_trans_active m s"
    and "dsc_trans_queued m s' \<longleftrightarrow> dsc_trans_queued m s \<or> (m = n \<and> st = QDF_STATUS_SUCCESS)"
    and "drivers s' = drivers s" and "psocs s' = psocs s" and "vdevs s' = vdevs s"
    and "ops_of s' = ops_of s" and "dsc_panic s' = dsc_panic s"
  using assms
  by (auto simp: dsc_trans_queue_def dsc_trans_active_def dsc_trans_queued_def Let_def split: if_splits)

text \<open>A request is queued only behind a transition that is in progress or queued.\<close>

lemma can_again_blocked:
  assumes wf: "tree_wf d s" and n: "n \<in> set (dsc_nodes d s)" and can: "dsc_can_at e n s = QDF_STATUS_E_AGAIN"
  shows "dsc_trans_active_or_queued n s \<or> (\<exists>m \<in> set (dsc_ancestors s n). dsc_trans_active_or_queued m s)
     \<or> (\<exists>m \<in> set (dsc_nodes d s). n \<in> set (dsc_ancestors s m) \<and> dsc_trans_active m s)"
proof (cases n)
  case (DriverNode d')
  then have d: "d' = d" using n by simp
  have "\<exists>m \<in> set (dsc_nodes d s). DriverNode d \<in> set (dsc_ancestors s m) \<and> dsc_trans_active m s"
    if "dsc_driver_trans_active_down_tree d s"
    using that wf by (fastforce simp: down_tree_defs tree_wfD dsc_nodes_def)
  with can DriverNode d show ?thesis
    by (auto simp: dsc_driver_can_trans_def split: if_splits)
next
  case (PsocNode p)
  then have p: "p \<in> set (driver_psocs (drivers s d))" using n by simp
  have "\<exists>m \<in> set (dsc_nodes d s). PsocNode p \<in> set (dsc_ancestors s m) \<and> dsc_trans_active m s"
    if "dsc_psoc_trans_active_down_tree p s"
    using that wf p by (fastforce simp: down_tree_defs tree_wfD dsc_nodes_def)
  with can PsocNode show ?thesis
    by (auto simp: dsc_psoc_can_trans_def split: if_splits)
next
  case (VdevNode v)
  with can show ?thesis by (auto simp: dsc_vdev_can_trans_def split: if_splits)
qed

lemma tree_inv_queue:
  assumes inv: "tree_inv d s" and n: "n \<in> set (dsc_nodes d s)"
    and can: "dsc_can_at e n s = QDF_STATUS_E_AGAIN" and q: "dsc_trans_queue e n t desc s = (st, s')"
  shows "tree_inv d s'"
proof -
  have wf: "tree_wf d s" using inv by (simp add: tree_inv_def)
  note sel = trans_queue_sel [OF q]
  have fr: "dsc_nodes d s' = dsc_nodes d s" "\<And>m. dsc_ancestors s' m = dsc_ancestors s m"
    "tree_wf d s' = tree_wf d s"
    by (simp_all add: sel dsc_nodes_cong [of s' d s] dsc_ancestors_cong [of s' s] tree_wf_cong [of s' s])
  have "tree_excl d s'"
    using inv unfolding tree_inv_def tree_excl_def fr sel(1) by blast
  moreover have "tree_pend d s'"
    using inv can_again_blocked [OF wf n can]
    unfolding tree_inv_def tree_pend_def fr sel(1,2) dsc_trans_active_or_queued_def by blast
  ultimately show ?thesis using wf by (simp add: tree_inv_def fr)
qed

section \<open>Every call keeps the invariant\<close>

lemma tree_inv_start_at:
  assumes "env_ok e" and "tree_inv d s" and "n \<in> set (dsc_nodes d s)"
  shows "tree_inv d (snd (dsc_start_at e n desc s))"
  using assms by (simp add: start_at_eq tree_inv_start)

lemma tree_inv_start_wait_at:
  assumes "env_ok e" and "tree_inv d s" and "n \<in> set (dsc_nodes d s)"
  shows "tree_inv d (snd (dsc_start_wait_at e t n desc s))"
  using assms tree_inv_queue [OF assms(2,3)]
  by (auto simp: start_wait_at_eq tree_inv_start split: QDF_STATUS.split prod.split)

lemma tree_inv_stop_at:
  assumes "env_ok e" and "tree_inv d s" and "n \<in> set (dsc_nodes d s)" and "dsc_trans_active n s"
  shows "tree_inv d (dsc_stop_at e n s)"
  using assms by (cases n) (auto simp: driver_stop_inv psoc_stop_inv vdev_stop_inv)

text \<open>A stop, whichever the level, is the stop of one node followed by triggers.\<close>

fun stop_targets :: "dsc \<Rightarrow> dsc_node \<Rightarrow> dsc_node set" where
  "stop_targets s (DriverNode d) = driver_targets s d"
| "stop_targets s (PsocNode p) = psoc_stop_targets s p"
| "stop_targets s (VdevNode v) = vdev_stop_targets s v"

lemma stop_at_triggers:
  assumes "env_ok e" and "tree_wf d s" and "n \<in> set (dsc_nodes d s)"
  shows "triggers (stop_targets (dsc_trans_stop n s) n) (dsc_trans_stop n s) (dsc_stop_at e n s)"
  using assms
  by (cases n)
    (auto simp: dsc_driver_trans_stop_def dsc_psoc_trans_stop_def dsc_vdev_trans_stop_def
      trans_stop_wf trans_stop_sel tree_wfD
      intro!: driver_trigger_triggers psoc_trigger_triggers vdev_trigger_triggers)

lemma stop_targets_related:
  assumes wf: "tree_wf d s" and n: "n \<in> set (dsc_nodes d s)" and m: "m \<in> stop_targets s n"
  shows "m \<in> set (dsc_nodes d s) \<and> (m = n \<or> m \<in> set (dsc_ancestors s n) \<or> n \<in> set (dsc_ancestors s m))"
proof (cases n)
  case (DriverNode d')
  then show ?thesis
    using n m tree_wfD(1,4) [OF wf]
    by (auto simp: driver_targets_def psoc_targets_def split: if_splits)
next
  case (PsocNode p)
  then have p: "p \<in> set (driver_psocs (drivers s d))" using n by simp
  note up = tree_wfD [OF wf p]
  show ?thesis
    using m p up PsocNode
    by (auto simp: psoc_stop_targets_def psoc_targets_def checked_targets_def split: if_splits)
next
  case (VdevNode v)
  then obtain p where p: "p \<in> set (driver_psocs (drivers s d))" "v \<in> set (psoc_vdevs (psocs s p))"
    using n by auto
  note up = tree_wfD(1) [OF wf p(1)] tree_wfD(3,4) [OF wf p]
  show ?thesis
    using m p up VdevNode
    by (auto simp: vdev_stop_targets_def checked_targets_def Let_def split: if_splits)
qed

text \<open>
  In a tree that satisfies the invariant, a stop triggers only nodes that are
  not in transition, so none of its assertions can fire.
\<close>

lemma stop_targets_idle:
  assumes inv: "tree_inv d s" and n: "n \<in> set (dsc_nodes d s)" and act: "dsc_trans_active n s"
    and m: "m \<in> stop_targets (dsc_trans_stop n s) n"
  shows "m \<in> set (dsc_nodes d s)" and "m \<noteq> n \<Longrightarrow> \<not> dsc_trans_active m s"
proof -
  let ?s0 = "dsc_trans_stop n s"
  have wf: "tree_wf d s" and ex: "tree_excl d s" using inv by (simp_all add: tree_inv_def)
  have fr: "dsc_nodes d ?s0 = dsc_nodes d s" "\<And>m. dsc_ancestors ?s0 m = dsc_ancestors s m"
    by (simp_all add: trans_stop_sel dsc_nodes_cong [of ?s0 d s] dsc_ancestors_cong [of ?s0 s])
  show "m \<in> set (dsc_nodes d s)" "m \<noteq> n \<Longrightarrow> \<not> dsc_trans_active m s"
    using stop_targets_related [of d ?s0 n m] m wf n act ex
    unfolding fr trans_stop_wf tree_excl_def by blast+
qed

lemma stop_at_no_panic:
  assumes e: "env_ok e" and inv: "tree_inv d s" and n: "n \<in> set (dsc_nodes d s)"
    and act: "dsc_trans_active n s"
  shows "dsc_panic (dsc_stop_at e n s) = dsc_panic s"
proof -
  have "\<not> dsc_trans_active m (dsc_trans_stop n s)" if "m \<in> stop_targets (dsc_trans_stop n s) n" for m
    using stop_targets_idle(2) [OF inv n act that] by (auto simp: trans_stop_sel)
  then have "dsc_panic (dsc_stop_at e n s) = dsc_panic (dsc_trans_stop n s)"
    using stop_at_triggers [OF e _ n] inv by (simp add: triggers_def tree_inv_def)
  then show ?thesis using act by (simp add: trans_stop_sel)
qed

text \<open>A pending transition of an ancestor is served before those of the nodes below it.\<close>

lemma stop_targets_first:
  assumes wf: "tree_wf d s" and n: "n \<in> set (dsc_nodes d s)" and m: "m \<in> stop_targets s n"
    and a: "a \<in> set (dsc_ancestors s m)"
  shows "\<not> dsc_trans_queued a s"
proof (cases n)
  case (DriverNode d')
  then show ?thesis
    using n m a tree_wfD(1,3,4) [OF wf]
    by (auto simp: driver_targets_def psoc_targets_def split: if_splits)
next
  case (PsocNode p)
  then have p: "p \<in> set (driver_psocs (drivers s d))" using n by simp
  show ?thesis
    using m a tree_wfD [OF wf p] PsocNode
    by (auto simp: psoc_stop_targets_def psoc_targets_def checked_targets_def Let_def split: if_splits)
next
  case (VdevNode v)
  then obtain p where p: "p \<in> set (driver_psocs (drivers s d))" "v \<in> set (psoc_vdevs (psocs s p))"
    using n by auto
  show ?thesis
    using m a tree_wfD(1) [OF wf p(1)] tree_wfD(3,4) [OF wf p] VdevNode
    by (auto simp: vdev_stop_targets_def checked_targets_def Let_def split: if_splits)
qed

text \<open>Behind every pending transition there is one in progress somewhere in the tree.\<close>

lemma pend_active:
  assumes wf: "tree_wf d s" and pend: "tree_pend d s" and n: "n \<in> set (dsc_nodes d s)"
    and q: "dsc_trans_queued n s"
  shows "\<exists>m \<in> set (dsc_nodes d s). dsc_trans_active m s"
proof -
  note lv = pend [unfolded tree_pend_levels [OF wf]]
  have D: ?thesis if "dsc_trans_active_or_queued (DriverNode d) s"
    using that lv by (fastforce simp: dsc_trans_active_or_queued_def down_tree_defs)
  have P: ?thesis if "p \<in> set (driver_psocs (drivers s d))" "dsc_trans_active_or_queued (PsocNode p) s" for p
    using that lv D by (fastforce simp: dsc_trans_active_or_queued_def down_tree_defs)
  show ?thesis
  proof (cases n)
    case (VdevNode v)
    then obtain p where p: "p \<in> set (driver_psocs (drivers s d))" "v \<in> set (psoc_vdevs (psocs s p))"
      using n by auto
    then have "dsc_trans_active (VdevNode v) s \<or> dsc_trans_active_or_queued (PsocNode p) s \<or>
        dsc_trans_active_or_queued (DriverNode d) s"
      using lv q VdevNode by blast
    then show ?thesis using D P [OF p(1)] n VdevNode by blast
  qed (use n q D P in \<open>auto simp: dsc_trans_active_or_queued_def\<close>)
qed

end
