(* ===== verification/Dsc_Threads.thy ===== *)
theory Dsc_Threads
  imports Dsc_Inv "HOL-Library.Multiset"
begin

text \<open>
  Threads that use a DSC tree.  Every DSC call runs its body under the lock of
  the driver, so a call is one step; a call that blocks leaves its thread
  waiting on the pending transition it has queued, and the flush of operations
  in flight (\<^verbatim>\<open>*_wait_for_ops\<close>) walks the subtree node by node, with other
  threads running between the steps.  The rules of \<open>dsc_step\<close> state the contract
  of the callers as premises: a thread stops only a transition it owns, an
  operation ends only if it was started, memory that the allocator returns is
  not in use, and a node is destroyed only when it is idle and has no children.
\<close>

section \<open>The system\<close>

type_synonym thread = nat

datatype pc =
    Running
  | Waiting dsc_node ptr
  | Flushing dsc_node "dsc_node list"
  | FlushWait dsc_node dsc_node "dsc_node list"

text \<open>
  \<open>owner n\<close> is the thread to which the transition of \<open>n\<close> has been returned and
  that has not stopped it yet, \<open>in_flight n\<close> are the operations of \<open>n\<close> that have
  been started and not stopped, and \<open>flushed n\<close> says that the owner of \<open>n\<close> has
  returned from \<^verbatim>\<open>wait_for_ops\<close>.
\<close>

record sys =
  heap :: dsc
  pc_of :: "thread \<Rightarrow> pc"
  owner :: "dsc_node \<Rightarrow> thread option"
  in_flight :: "dsc_node \<Rightarrow> string multiset"
  flushed :: "dsc_node \<Rightarrow> bool"

fun dsc_subtree :: "dsc \<Rightarrow> dsc_node \<Rightarrow> dsc_node list" where
  "dsc_subtree s (DriverNode d) = dsc_nodes d s"
| "dsc_subtree s (PsocNode p) = PsocNode p # map VdevNode (psoc_vdevs (psocs s p))"
| "dsc_subtree s (VdevNode v) = [VdevNode v]"

fun dsc_wait_at :: "dsc_node \<Rightarrow> dsc \<Rightarrow> bool \<times> dsc" where
  "dsc_wait_at (DriverNode d) s = dsc_driver_wait_for_ops (Some d) s"
| "dsc_wait_at (PsocNode p) s = dsc_psoc_wait_for_ops (Some p) s"
| "dsc_wait_at (VdevNode v) s = dsc_vdev_wait_for_ops (Some v) s"

text \<open>The tree of a new driver, with no thread in a call.\<close>

inductive dsc_init :: "ptr \<Rightarrow> sys \<Rightarrow> bool" for d where
  dsc_init: "dsc_driver_create True (Some d) h = (QDF_STATUS_SUCCESS, Some d, h') \<Longrightarrow> \<not> dsc_panic h \<Longrightarrow>
     dsc_init d \<lparr>heap = h', pc_of = (\<lambda>_. Running), owner = (\<lambda>_. None),
                 in_flight = (\<lambda>_. {#}), flushed = (\<lambda>_. False)\<rparr>"

definition tran_fresh :: "ptr \<Rightarrow> sys \<Rightarrow> bool" where
  "tran_fresh t \<sigma> \<longleftrightarrow> (\<forall>i n. pc_of \<sigma> i \<noteq> Waiting n t)"

text \<open>No thread is between the calls of a flush that involves the node.\<close>

definition not_flushing :: "dsc_node \<Rightarrow> sys \<Rightarrow> bool" where
  "not_flushing n \<sigma> \<longleftrightarrow> (\<forall>i. case pc_of \<sigma> i of
      Flushing m ms \<Rightarrow> n \<noteq> m \<and> n \<notin> set ms
    | FlushWait m k ms \<Rightarrow> n \<noteq> m \<and> n \<noteq> k \<and> n \<notin> set ms
    | _ \<Rightarrow> True)"

inductive dsc_step :: "bool \<Rightarrow> ptr \<Rightarrow> sys \<Rightarrow> sys \<Rightarrow> bool" for dbg d where
  start:
    "n \<in> set (dsc_nodes d (heap \<sigma>)) \<Longrightarrow> env_ok e \<Longrightarrow> wlan_dsc_debug e = dbg \<Longrightarrow>
     pc_of \<sigma> i = Running \<Longrightarrow> dsc_start_at e n desc (heap \<sigma>) = (st, h') \<Longrightarrow>
     dsc_step dbg d \<sigma> (\<sigma>\<lparr>heap := h',
       owner := (if st = QDF_STATUS_SUCCESS then (owner \<sigma>)(n := Some i) else owner \<sigma>)\<rparr>)"
| start_wait:
    "n \<in> set (dsc_nodes d (heap \<sigma>)) \<Longrightarrow> env_ok e \<Longrightarrow> wlan_dsc_debug e = dbg \<Longrightarrow>
     pc_of \<sigma> i = Running \<Longrightarrow> tran_fresh t \<sigma> \<Longrightarrow>
     dsc_start_wait_at e t n desc (heap \<sigma>) = (r, h') \<Longrightarrow>
     dsc_step dbg d \<sigma> (\<sigma>\<lparr>heap := h',
       pc_of := (case r of Blocked u \<Rightarrow> (pc_of \<sigma>)(i := Waiting n u) | Returned st \<Rightarrow> pc_of \<sigma>),
       owner := (if r = Returned QDF_STATUS_SUCCESS then (owner \<sigma>)(n := Some i) else owner \<sigma>)\<rparr>)"
| wake:
    "pc_of \<sigma> i = Waiting n t \<Longrightarrow> dsc_tran_wait QDF_STATUS_SUCCESS t (heap \<sigma>) = Some st \<Longrightarrow>
     dsc_step dbg d \<sigma> (\<sigma>\<lparr>pc_of := (pc_of \<sigma>)(i := Running),
       owner := (if st = QDF_STATUS_SUCCESS then (owner \<sigma>)(n := Some i) else owner \<sigma>)\<rparr>)"
| stop:
    "n \<in> set (dsc_nodes d (heap \<sigma>)) \<Longrightarrow> env_ok e \<Longrightarrow> wlan_dsc_debug e = dbg \<Longrightarrow>
     pc_of \<sigma> i = Running \<Longrightarrow> owner \<sigma> n = Some i \<Longrightarrow>
     dsc_step dbg d \<sigma> (\<sigma>\<lparr>heap := dsc_stop_at e n (heap \<sigma>), owner := (owner \<sigma>)(n := None),
       flushed := (flushed \<sigma>)(n := False)\<rparr>)"
| op_start:
    "n \<in> set (dsc_nodes d (heap \<sigma>)) \<Longrightarrow> wlan_dsc_debug e = dbg \<Longrightarrow>
     size (in_flight \<sigma> n) + 1 < 2 ^ 32 \<Longrightarrow> dsc_op_start_at e n func (heap \<sigma>) = (st, h') \<Longrightarrow>
     dsc_step dbg d \<sigma> (\<sigma>\<lparr>heap := h',
       in_flight := (if st = QDF_STATUS_SUCCESS
         then (in_flight \<sigma>)(n := add_mset func (in_flight \<sigma> n)) else in_flight \<sigma>)\<rparr>)"
| op_stop:
    "n \<in> set (dsc_nodes d (heap \<sigma>)) \<Longrightarrow> wlan_dsc_debug e = dbg \<Longrightarrow> func \<in># in_flight \<sigma> n \<Longrightarrow>
     dsc_step dbg d \<sigma> (\<sigma>\<lparr>heap := dsc_op_stop_at e n func (heap \<sigma>),
       in_flight := (in_flight \<sigma>)(n := in_flight \<sigma> n - {#func#})\<rparr>)"
| flush:
    "n \<in> set (dsc_nodes d (heap \<sigma>)) \<Longrightarrow> pc_of \<sigma> i = Running \<Longrightarrow> owner \<sigma> n = Some i \<Longrightarrow>
     dsc_step dbg d \<sigma> (\<sigma>\<lparr>pc_of := (pc_of \<sigma>)(i := Flushing n (dsc_subtree (heap \<sigma>) n))\<rparr>)"
| flush_enter:
    "pc_of \<sigma> i = Flushing n (m # ms) \<Longrightarrow> dsc_wait_at m (heap \<sigma>) = (wait, h') \<Longrightarrow>
     dsc_step dbg d \<sigma> (\<sigma>\<lparr>heap := h',
       pc_of := (pc_of \<sigma>)(i := if wait then FlushWait n m ms else Flushing n ms)\<rparr>)"
| flush_wake:
    "pc_of \<sigma> i = FlushWait n m ms \<Longrightarrow> ops_event (ops_of (heap \<sigma>) m) \<Longrightarrow>
     dsc_step dbg d \<sigma> (\<sigma>\<lparr>pc_of := (pc_of \<sigma>)(i := Flushing n ms)\<rparr>)"
| flush_done:
    "pc_of \<sigma> i = Flushing n [] \<Longrightarrow>
     dsc_step dbg d \<sigma> (\<sigma>\<lparr>pc_of := (pc_of \<sigma>)(i := Running), flushed := (flushed \<sigma>)(n := True)\<rparr>)"

| create_psoc:
    "PsocNode p \<notin> set (dsc_nodes d (heap \<sigma>)) \<Longrightarrow>
     dsc_psoc_create (Some d) True (Some p) (heap \<sigma>) = (st, out, h') \<Longrightarrow>
     dsc_step dbg d \<sigma> (\<sigma>\<lparr>heap := h'\<rparr>)"
| create_vdev:
    "PsocNode p \<in> set (dsc_nodes d (heap \<sigma>)) \<Longrightarrow> VdevNode v \<notin> set (dsc_nodes d (heap \<sigma>)) \<Longrightarrow>
     dsc_vdev_create (Some p) True (Some v) (heap \<sigma>) = (st, out, h') \<Longrightarrow>
     dsc_step dbg d \<sigma> (\<sigma>\<lparr>heap := h'\<rparr>)"
| destroy_psoc:
    "PsocNode p \<in> set (dsc_nodes d (heap \<sigma>)) \<Longrightarrow> psoc_vdevs (psocs (heap \<sigma>) p) = [] \<Longrightarrow>
     \<not> dsc_trans_active (PsocNode p) (heap \<sigma>) \<Longrightarrow> in_flight \<sigma> (PsocNode p) = {#} \<Longrightarrow>
     not_flushing (PsocNode p) \<sigma> \<Longrightarrow>
     dsc_step dbg d \<sigma> (\<sigma>\<lparr>heap := dsc_psoc_destroy (Some (Some p)) (heap \<sigma>)\<rparr>)"
| destroy_vdev:
    "VdevNode v \<in> set (dsc_nodes d (heap \<sigma>)) \<Longrightarrow> \<not> dsc_trans_active (VdevNode v) (heap \<sigma>) \<Longrightarrow>
     in_flight \<sigma> (VdevNode v) = {#} \<Longrightarrow> not_flushing (VdevNode v) \<sigma> \<Longrightarrow>
     dsc_step dbg d \<sigma> (\<sigma>\<lparr>heap := dsc_vdev_destroy (Some (Some v)) (heap \<sigma>)\<rparr>)"

inductive dsc_reach :: "bool \<Rightarrow> ptr \<Rightarrow> sys \<Rightarrow> bool" for dbg d where
  reach_init: "dsc_init d \<sigma> \<Longrightarrow> dsc_reach dbg d \<sigma>"
| reach_step: "dsc_reach dbg d \<sigma> \<Longrightarrow> dsc_step dbg d \<sigma> \<sigma>' \<Longrightarrow> dsc_reach dbg d \<sigma>'"

section \<open>The invariant of the system\<close>

definition inv_tree :: "ptr \<Rightarrow> sys \<Rightarrow> bool" where
  "inv_tree d \<sigma> \<longleftrightarrow> tree_inv d (heap \<sigma>) \<and> \<not> dsc_panic (heap \<sigma>)"

text \<open>Every queued transition has its waiting thread, and no waiting thread is forgotten.\<close>

definition inv_queue :: "ptr \<Rightarrow> sys \<Rightarrow> bool" where
  "inv_queue d \<sigma> \<longleftrightarrow>
     (\<forall>n \<in> set (dsc_nodes d (heap \<sigma>)). distinct (trans_queue (trans_of (heap \<sigma>) n)) \<and>
        (\<forall>t \<in> set (trans_queue (trans_of (heap \<sigma>) n)). (\<exists>i. pc_of \<sigma> i = Waiting n t) \<and>
           \<not> tran_event (trans_store (heap \<sigma>) t) \<and> \<not> tran_abort (trans_store (heap \<sigma>) t))) \<and>
     (\<forall>i n t. pc_of \<sigma> i = Waiting n t \<longrightarrow> tran_event (trans_store (heap \<sigma>) t) \<or>
        (n \<in> set (dsc_nodes d (heap \<sigma>)) \<and> t \<in> set (trans_queue (trans_of (heap \<sigma>) n)))) \<and>
     (\<forall>i j n m t. pc_of \<sigma> i = Waiting n t \<longrightarrow> pc_of \<sigma> j = Waiting m t \<longrightarrow> i = j)"

text \<open>The pending transition of a thread has been started on its behalf.\<close>

definition granted :: "sys \<Rightarrow> dsc_node \<Rightarrow> thread \<Rightarrow> ptr \<Rightarrow> bool" where
  "granted \<sigma> n i t \<longleftrightarrow> pc_of \<sigma> i = Waiting n t \<and> tran_event (trans_store (heap \<sigma>) t) \<and>
     \<not> tran_abort (trans_store (heap \<sigma>) t)"

text \<open>A node is in transition exactly on behalf of one thread.\<close>

definition inv_grant :: "ptr \<Rightarrow> sys \<Rightarrow> bool" where
  "inv_grant d \<sigma> \<longleftrightarrow>
     (\<forall>n i. owner \<sigma> n = Some i \<longrightarrow> n \<in> set (dsc_nodes d (heap \<sigma>)) \<and> dsc_trans_active n (heap \<sigma>) \<and>
        (\<forall>j t. \<not> granted \<sigma> n j t)) \<and>
     (\<forall>n i j t u. granted \<sigma> n i t \<longrightarrow> granted \<sigma> n j u \<longrightarrow> i = j) \<and>
     (\<forall>n i t. granted \<sigma> n i t \<longrightarrow>
        n \<in> set (dsc_nodes d (heap \<sigma>)) \<and> dsc_trans_active n (heap \<sigma>)) \<and>
     (\<forall>n \<in> set (dsc_nodes d (heap \<sigma>)). dsc_trans_active n (heap \<sigma>) \<longrightarrow>
        owner \<sigma> n \<noteq> None \<or> (\<exists>i t. granted \<sigma> n i t))"

text \<open>The counter of a node counts its operations in flight.\<close>

definition inv_ops :: "bool \<Rightarrow> ptr \<Rightarrow> sys \<Rightarrow> bool" where
  "inv_ops dbg d \<sigma> \<longleftrightarrow>
     (\<forall>n \<in> set (dsc_nodes d (heap \<sigma>)).
        unat (ops_count (ops_of (heap \<sigma>) n)) = size (in_flight \<sigma> n) \<and>
        (dbg \<longrightarrow> mset (ops_list (ops_of (heap \<sigma>) n)) = in_flight \<sigma> n)) \<and>
     (\<forall>n. n \<notin> set (dsc_nodes d (heap \<sigma>)) \<longrightarrow> in_flight \<sigma> n = {#})"

text \<open>What the owner of a node has flushed so far stays without operations in flight.\<close>

definition flush_rest :: "sys \<Rightarrow> thread \<Rightarrow> dsc_node \<Rightarrow> dsc_node list \<Rightarrow> bool" where
  "flush_rest \<sigma> i n ks \<longleftrightarrow> owner \<sigma> n = Some i \<and> set ks \<subseteq> set (dsc_subtree (heap \<sigma>) n) \<and>
     (\<forall>m \<in> set (dsc_subtree (heap \<sigma>) n). m \<in> set ks \<or> in_flight \<sigma> m = {#})"

definition inv_flush :: "sys \<Rightarrow> bool" where
  "inv_flush \<sigma> \<longleftrightarrow>
     (\<forall>i n ms. pc_of \<sigma> i = Flushing n ms \<longrightarrow> flush_rest \<sigma> i n ms) \<and>
     (\<forall>i n k ms. pc_of \<sigma> i = FlushWait n k ms \<longrightarrow> flush_rest \<sigma> i n (k # ms) \<and>
        (ops_event (ops_of (heap \<sigma>) k) \<longleftrightarrow> in_flight \<sigma> k = {#})) \<and>
     (\<forall>n. flushed \<sigma> n \<longrightarrow> (\<exists>i. flush_rest \<sigma> i n []))"

definition sys_inv :: "bool \<Rightarrow> ptr \<Rightarrow> sys \<Rightarrow> bool" where
  "sys_inv dbg d \<sigma> \<longleftrightarrow>
     inv_tree d \<sigma> \<and> inv_queue d \<sigma> \<and> inv_grant d \<sigma> \<and> inv_ops dbg d \<sigma> \<and> inv_flush \<sigma>"

section \<open>The initial state\<close>

lemma dsc_init_inv:
  assumes "dsc_init d \<sigma>"
  shows "sys_inv dbg d \<sigma>"
proof -
  from assms obtain h h' where \<sigma>: "\<sigma> = \<lparr>heap = h', pc_of = (\<lambda>_. Running), owner = (\<lambda>_. None),
      in_flight = (\<lambda>_. {#}), flushed = (\<lambda>_. False)\<rparr>"
    and c: "dsc_driver_create True (Some d) h = (QDF_STATUS_SUCCESS, Some d, h')"
    and p: "\<not> dsc_panic h"
    by (auto elim: dsc_init.cases)
  have h': "dsc_nodes d h' = [DriverNode d]"
    "trans_of h' (DriverNode d) = \<lparr>active_desc = None, trans_queue = []\<rparr>"
    "ops_of h' (DriverNode d) = \<lparr>ops_list = [], ops_count = 0, ops_event = False\<rparr>"
    "\<not> dsc_panic h'" "driver_psocs (drivers h' d) = []"
    using c p
    by (auto simp: dsc_driver_create_def dsc_trans_init_def dsc_ops_init_def dsc_nodes_def Let_def)
  show ?thesis
    by (simp add: sys_inv_def inv_tree_def inv_queue_def inv_grant_def granted_def inv_ops_def
        inv_flush_def flush_rest_def \<sigma> h' tree_inv_def tree_wf_def tree_excl_def tree_pend_def
        dsc_trans_active_def dsc_trans_queued_def)
qed

section \<open>Membership in a subtree\<close>

lemma in_subtree:
  assumes "tree_wf d s" and "n \<in> set (dsc_nodes d s)"
  shows "m \<in> set (dsc_subtree s n) \<longleftrightarrow> m \<in> set (dsc_nodes d s) \<and> (m = n \<or> n \<in> set (dsc_ancestors s m))"
proof (cases n)
  case (DriverNode d')
  then show ?thesis
    using assms(2) tree_wfD(1,4) [OF assms(1)] by (cases m) auto
next
  case (PsocNode p)
  then show ?thesis
    using assms(2) tree_wfD(3) [OF assms(1)] by (cases m) auto
next
  case (VdevNode v)
  then show ?thesis
    using assms(2) by (cases m) auto
qed

lemma dsc_subtree_cong:
  "drivers s' = drivers s \<Longrightarrow> psocs s' = psocs s \<Longrightarrow> dsc_subtree s' n = dsc_subtree s n"
  by (cases n) (simp_all add: dsc_nodes_def)

section \<open>Steps that start or stop transitions\<close>

lemma sys_invD:
  assumes "sys_inv dbg d \<sigma>"
  shows "tree_inv d (heap \<sigma>)" and "tree_wf d (heap \<sigma>)" and "\<not> dsc_panic (heap \<sigma>)"
    and "inv_queue d \<sigma>" and "inv_grant d \<sigma>" and "inv_ops dbg d \<sigma>" and "inv_flush \<sigma>"
  using assms by (simp_all add: sys_inv_def inv_tree_def tree_inv_def)

lemma inv_flushD:
  assumes "inv_flush \<sigma>"
  shows "pc_of \<sigma> i = Flushing n ms \<Longrightarrow> flush_rest \<sigma> i n ms"
    and "pc_of \<sigma> i = FlushWait n k ms \<Longrightarrow> flush_rest \<sigma> i n (k # ms)"
    and "pc_of \<sigma> i = FlushWait n k ms \<Longrightarrow> ops_event (ops_of (heap \<sigma>) k) \<longleftrightarrow> in_flight \<sigma> k = {#}"
    and "flushed \<sigma> n \<Longrightarrow> \<exists>i. flush_rest \<sigma> i n []"
  using assms unfolding inv_flush_def by blast+

lemma flush_restD:
  assumes "flush_rest \<sigma> i n ks"
  shows "owner \<sigma> n = Some i" and "k \<in> set ks \<Longrightarrow> k \<in> set (dsc_subtree (heap \<sigma>) n)"
    and "m \<in> set (dsc_subtree (heap \<sigma>) n) \<Longrightarrow> m \<notin> set ks \<Longrightarrow> in_flight \<sigma> m = {#}"
  using assms by (auto simp: flush_rest_def)

text \<open>
  A step that leaves the control points of the threads alone keeps the flush
  invariant if it keeps what a thread in a flush knows.
\<close>

lemma inv_flush_keep:
  assumes inv: "inv_flush \<sigma>" and pc: "\<And>i n k ms. pc_of \<sigma>' i = Flushing n ms \<or> pc_of \<sigma>' i = FlushWait n k ms \<Longrightarrow>
        pc_of \<sigma>' i = pc_of \<sigma> i"
    and rest: "\<And>i n ks. flush_rest \<sigma> i n ks \<Longrightarrow>
        (\<exists>k ms. pc_of \<sigma>' i = Flushing n ms \<and> ks = ms \<or> pc_of \<sigma>' i = FlushWait n k ms \<and> ks = k # ms) \<or>
        flushed \<sigma>' n \<and> ks = [] \<Longrightarrow> flush_rest \<sigma>' i n ks"
    and ev: "\<And>i n k ms. flush_rest \<sigma> i n (k # ms) \<Longrightarrow> pc_of \<sigma>' i = FlushWait n k ms \<Longrightarrow>
        ops_event (ops_of (heap \<sigma>) k) = (in_flight \<sigma> k = {#}) \<Longrightarrow>
        ops_event (ops_of (heap \<sigma>') k) = (in_flight \<sigma>' k = {#})"
    and fl: "\<And>n. flushed \<sigma>' n \<Longrightarrow> flushed \<sigma> n"
  shows "inv_flush \<sigma>'"
  unfolding inv_flush_def
proof (intro conjI allI impI)
  fix i n ms assume *: "pc_of \<sigma>' i = Flushing n ms"
  then show "flush_rest \<sigma>' i n ms" using pc inv_flushD(1) [OF inv, of i n ms] rest by metis
next
  fix i n k ms assume *: "pc_of \<sigma>' i = FlushWait n k ms"
  then have "pc_of \<sigma> i = FlushWait n k ms" using pc by metis
  note old = inv_flushD(2,3) [OF inv this]
  show "flush_rest \<sigma>' i n (k # ms)" using rest [OF old(1)] * by blast
  show "ops_event (ops_of (heap \<sigma>') k) = (in_flight \<sigma>' k = {#})" using ev [OF old(1) * old(2)] .
next
  fix n assume "flushed \<sigma>' n"
  then show "\<exists>i. flush_rest \<sigma>' i n []" using inv_flushD(4) [OF inv fl] rest by blast
qed

lemma inv_queueD:
  assumes "inv_queue d \<sigma>"
  shows "n \<in> set (dsc_nodes d (heap \<sigma>)) \<Longrightarrow> distinct (trans_queue (trans_of (heap \<sigma>) n))"
    and "n \<in> set (dsc_nodes d (heap \<sigma>)) \<Longrightarrow> t \<in> set (trans_queue (trans_of (heap \<sigma>) n)) \<Longrightarrow>
      \<exists>i. pc_of \<sigma> i = Waiting n t"
    and "n \<in> set (dsc_nodes d (heap \<sigma>)) \<Longrightarrow> t \<in> set (trans_queue (trans_of (heap \<sigma>) n)) \<Longrightarrow>
      \<not> tran_event (trans_store (heap \<sigma>) t) \<and> \<not> tran_abort (trans_store (heap \<sigma>) t)"
    and "pc_of \<sigma> i = Waiting n t \<Longrightarrow> \<not> tran_event (trans_store (heap \<sigma>) t) \<Longrightarrow>
      n \<in> set (dsc_nodes d (heap \<sigma>)) \<and> t \<in> set (trans_queue (trans_of (heap \<sigma>) n))"
    and "pc_of \<sigma> i = Waiting n t \<Longrightarrow> pc_of \<sigma> j = Waiting m t \<Longrightarrow> i = j \<and> n = m"
proof -
  show "n \<in> set (dsc_nodes d (heap \<sigma>)) \<Longrightarrow> distinct (trans_queue (trans_of (heap \<sigma>) n))"
    using assms by (simp add: inv_queue_def)
  show "pc_of \<sigma> i = Waiting n t \<Longrightarrow> \<not> tran_event (trans_store (heap \<sigma>) t) \<Longrightarrow>
      n \<in> set (dsc_nodes d (heap \<sigma>)) \<and> t \<in> set (trans_queue (trans_of (heap \<sigma>) n))"
    using assms by (simp add: inv_queue_def) blast
  show "i = j \<and> n = m" if "pc_of \<sigma> i = Waiting n t" "pc_of \<sigma> j = Waiting m t"
  proof -
    have "i = j" using assms that unfolding inv_queue_def by blast
    then show ?thesis using that by simp
  qed
qed (use assms in \<open>simp_all add: inv_queue_def\<close>)

lemma ownerD:
  assumes "inv_grant d \<sigma>" and "owner \<sigma> n = Some i"
  shows "n \<in> set (dsc_nodes d (heap \<sigma>))" and "dsc_trans_active n (heap \<sigma>)" and "\<not> granted \<sigma> n j t"
  using assms unfolding inv_grant_def by blast+

lemma grantedD:
  assumes "inv_grant d \<sigma>" and "granted \<sigma> n i t"
  shows "n \<in> set (dsc_nodes d (heap \<sigma>))" and "dsc_trans_active n (heap \<sigma>)"
    and "granted \<sigma> n j u \<Longrightarrow> j = i" and "owner \<sigma> n = None"
proof -
  show "n \<in> set (dsc_nodes d (heap \<sigma>))" "dsc_trans_active n (heap \<sigma>)"
    using assms by (simp_all add: inv_grant_def) blast+
  show "j = i" if "granted \<sigma> n j u"
    using assms that by (simp add: inv_grant_def) blast
  show "owner \<sigma> n = None"
    using assms ownerD(3) by (cases "owner \<sigma> n") blast+
qed

lemma not_active_free:
  assumes "inv_grant d \<sigma>" and "\<not> dsc_trans_active n (heap \<sigma>)"
  shows "owner \<sigma> n = None" and "\<not> granted \<sigma> n i t"
  using ownerD(2) [OF assms(1)] grantedD(2) [OF assms(1)] assms(2)
  by (cases "owner \<sigma> n", auto)

text \<open>A successful start makes the caller the owner of a node that nobody had.\<close>

lemma inv_started:
  assumes inv: "sys_inv dbg d \<sigma>" and n: "n \<in> set (dsc_nodes d (heap \<sigma>))" and e: "env_ok e"
    and can: "dsc_can_at e n (heap \<sigma>) = QDF_STATUS_SUCCESS"
    and pc: "pc_of \<sigma> i = Running"
  shows "sys_inv dbg d (\<sigma>\<lparr>heap := snd (dsc_trans_start e n desc (heap \<sigma>)), owner := (owner \<sigma>)(n := Some i)\<rparr>)"
proof -
  let ?h = "heap \<sigma>" and ?h' = "snd (dsc_trans_start e n desc (heap \<sigma>))"
  let ?\<sigma>' = "\<sigma>\<lparr>heap := ?h', owner := (owner \<sigma>)(n := Some i)\<rparr>"
  have wf: "tree_wf d ?h" using inv by (simp add: sys_inv_def inv_tree_def tree_inv_def)
  note clear = can_at_clear [OF wf n can]
  have fr: "dsc_nodes d ?h' = dsc_nodes d ?h" "\<And>k. dsc_subtree ?h' k = dsc_subtree ?h k"
    by (simp_all add: trans_start_frame dsc_nodes_cong [of ?h' d ?h] dsc_subtree_cong [of ?h' ?h])
  have act: "dsc_trans_active m ?h' \<longleftrightarrow> m = n \<or> dsc_trans_active m ?h" for m
    using e by (simp add: dsc_trans_active_def trans_start_ok)
  have que: "trans_queue (trans_of ?h' m) = trans_queue (trans_of ?h m)" for m
    using e by (simp add: trans_start_ok)
  note free = not_active_free [OF sys_invD(5) [OF inv] clear(1)]
  have gr: "granted ?\<sigma>' = granted \<sigma>"
    by (simp add: fun_eq_iff granted_def trans_start_frame)
  have "inv_tree d ?\<sigma>'"
    using inv tree_inv_start [OF e _ n can] clear(1) e
    by (simp add: sys_inv_def inv_tree_def trans_start_ok)
  moreover have "inv_queue d ?\<sigma>'"
    using inv by (simp add: sys_inv_def inv_queue_def fr que trans_start_frame)
  moreover have "inv_grant d ?\<sigma>'"
    using inv free n unfolding sys_inv_def inv_grant_def gr by (auto simp: fr act)
  moreover have "inv_ops dbg d ?\<sigma>'"
    using inv by (simp add: sys_inv_def inv_ops_def fr trans_start_frame)
  moreover have "inv_flush ?\<sigma>'"
    by (rule inv_flush_keep [OF sys_invD(7) [OF inv]])
      (use free(1) in \<open>auto simp: flush_rest_def fr trans_start_frame\<close>)
  ultimately show ?thesis by (simp add: sys_inv_def)
qed

lemma fresh_not_queued:
  assumes "inv_queue d \<sigma>" and "tran_fresh t \<sigma>" and "m \<in> set (dsc_nodes d (heap \<sigma>))"
  shows "t \<notin> set (trans_queue (trans_of (heap \<sigma>) m))"
  using assms unfolding inv_queue_def tran_fresh_def by blast

lemma still_waiting:
  "\<exists>j. f j = Waiting m u \<Longrightarrow> f i = Running \<Longrightarrow> \<exists>j. (f(i := x)) j = Waiting m u"
  by (metis fun_upd_other pc.distinct(1))

text \<open>Queueing a fresh pending transition; its thread waits if that succeeds.\<close>

lemma inv_queued:
  assumes inv: "sys_inv dbg d \<sigma>" and n: "n \<in> set (dsc_nodes d (heap \<sigma>))"
    and can: "dsc_can_at e n (heap \<sigma>) = QDF_STATUS_E_AGAIN"
    and pc: "pc_of \<sigma> i = Running" and fresh: "tran_fresh t \<sigma>"
    and q: "dsc_trans_queue e n t desc (heap \<sigma>) = (st, h')"
  shows "sys_inv dbg d (\<sigma>\<lparr>heap := h', pc_of := (if st = QDF_STATUS_SUCCESS
     then (pc_of \<sigma>)(i := Waiting n t) else pc_of \<sigma>)\<rparr>)"
proof -
  let ?h = "heap \<sigma>"
  let ?\<sigma>' = "\<sigma>\<lparr>heap := h', pc_of := (if st = QDF_STATUS_SUCCESS
     then (pc_of \<sigma>)(i := Waiting n t) else pc_of \<sigma>)\<rparr>"
  note sel = trans_queue_sel [OF q]
  have fr: "dsc_nodes d h' = dsc_nodes d ?h" "\<And>k. dsc_subtree h' k = dsc_subtree ?h k"
    by (simp_all add: sel dsc_nodes_cong [of h' d ?h] dsc_subtree_cong [of h' ?h])
  have store: "trans_store h' u = (if u = t then \<lparr>tran_abort = False, tran_desc = desc, tran_event = False\<rparr>
     else trans_store ?h u)" for u
    using q by (auto simp: dsc_trans_queue_def Let_def split: if_splits)
  have que: "trans_queue (trans_of h' m) = (if m = n \<and> st = QDF_STATUS_SUCCESS
     then trans_queue (trans_of ?h n) @ [t] else trans_queue (trans_of ?h m))" for m
    using q by (auto simp: dsc_trans_queue_def Let_def split: if_splits)
  have gr: "granted ?\<sigma>' = granted \<sigma>"
    using fresh pc by (auto simp: fun_eq_iff granted_def store tran_fresh_def)
  note iq = inv_queueD [OF sys_invD(4) [OF inv]]
  note fq = fresh_not_queued [OF sys_invD(4) [OF inv] fresh]
  have "inv_tree d ?\<sigma>'"
    using sys_invD(1,3) [OF inv] tree_inv_queue [OF _ n can q] sel(7) by (simp add: inv_tree_def)
  moreover have "inv_queue d ?\<sigma>'"
    unfolding inv_queue_def
  proof (intro conjI ballI allI impI)
    fix m u assume m: "m \<in> set (dsc_nodes d (heap ?\<sigma>'))"
      and u: "u \<in> set (trans_queue (trans_of (heap ?\<sigma>') m))"
    show "\<exists>j. pc_of ?\<sigma>' j = Waiting m u"
      using m u iq(2) [of m u] pc still_waiting [of "pc_of \<sigma>" m u i "Waiting n t"]
      by (auto simp: fr que split: if_splits)
    show "\<not> tran_event (trans_store (heap ?\<sigma>') u)" "\<not> tran_abort (trans_store (heap ?\<sigma>') u)"
      using m u iq(3) [of m u] by (auto simp: fr que store split: if_splits)
  next
    fix m assume "m \<in> set (dsc_nodes d (heap ?\<sigma>'))"
    then show "distinct (trans_queue (trans_of (heap ?\<sigma>') m))"
      using iq(1) [of m] fq [of m] by (auto simp: fr que)
  next
    fix j m u assume "pc_of ?\<sigma>' j = Waiting m u"
    then show "tran_event (trans_store (heap ?\<sigma>') u) \<or> m \<in> set (dsc_nodes d (heap ?\<sigma>')) \<and>
        u \<in> set (trans_queue (trans_of (heap ?\<sigma>') m))"
      using iq(4) [of j m u] n fresh by (auto simp: fr que store tran_fresh_def split: if_splits)
  next
    fix j k m l u assume "pc_of ?\<sigma>' j = Waiting m u" "pc_of ?\<sigma>' k = Waiting l u"
    then show "j = k"
      using iq(5) [of j m u k l] fresh by (auto simp: tran_fresh_def split: if_splits)
  qed
  moreover have "inv_grant d ?\<sigma>'"
    using sys_invD(5) [OF inv] unfolding inv_grant_def gr by (simp add: fr sel(1))
  moreover have "inv_ops dbg d ?\<sigma>'"
    using sys_invD(6) [OF inv] by (simp add: inv_ops_def fr sel(6))
  moreover have "inv_flush ?\<sigma>'"
    by (rule inv_flush_keep [OF sys_invD(7) [OF inv]])
      (auto simp: flush_rest_def fr sel(6) split: if_splits)
  ultimately show ?thesis by (simp add: sys_inv_def)
qed

lemma inv_wake:
  assumes inv: "sys_inv dbg d \<sigma>" and pc: "pc_of \<sigma> i = Waiting n t"
    and w: "dsc_tran_wait QDF_STATUS_SUCCESS t (heap \<sigma>) = Some st"
  shows "sys_inv dbg d (\<sigma>\<lparr>pc_of := (pc_of \<sigma>)(i := Running),
       owner := (if st = QDF_STATUS_SUCCESS then (owner \<sigma>)(n := Some i) else owner \<sigma>)\<rparr>)"
    (is "sys_inv dbg d ?\<sigma>'")
proof -
  have st: "st = QDF_STATUS_SUCCESS \<longleftrightarrow> granted \<sigma> n i t" and ev: "tran_event (trans_store (heap \<sigma>) t)"
    using w pc by (auto simp: dsc_tran_wait_def granted_def split: if_splits)
  have gr: "granted ?\<sigma>' m j u \<longleftrightarrow> granted \<sigma> m j u \<and> j \<noteq> i" for m j u
    by (auto simp: granted_def)
  note g = sys_invD(5) [OF inv] and iq = inv_queueD [OF sys_invD(4) [OF inv]]
  have free: "st = QDF_STATUS_SUCCESS \<Longrightarrow> owner \<sigma> n = None"
    using st grantedD(4) [OF g] by blast
  have nq: "t \<notin> set (trans_queue (trans_of (heap \<sigma>) m))" if "m \<in> set (dsc_nodes d (heap \<sigma>))" for m
    using iq(3) [OF that] ev by blast
  have "inv_queue d ?\<sigma>'"
    unfolding inv_queue_def
  proof (intro conjI ballI allI impI)
    fix m u assume m: "m \<in> set (dsc_nodes d (heap ?\<sigma>'))"
      and u: "u \<in> set (trans_queue (trans_of (heap ?\<sigma>') m))"
    then obtain j where j: "pc_of \<sigma> j = Waiting m u" using iq(2) by auto
    then have "j \<noteq> i" using m u nq pc by auto
    then show "\<exists>j. pc_of ?\<sigma>' j = Waiting m u" using j by auto
    show "\<not> tran_event (trans_store (heap ?\<sigma>') u)" "\<not> tran_abort (trans_store (heap ?\<sigma>') u)"
      using m u iq(3) by auto
  qed (use iq(1,4,5) in \<open>auto split: if_splits\<close>)
  moreover have "inv_grant d ?\<sigma>'"
    unfolding inv_grant_def gr
  proof (intro conjI ballI allI impI)
    fix m j assume "owner ?\<sigma>' m = Some j"
    then have o: "owner \<sigma> m = Some j \<or> m = n \<and> granted \<sigma> n i t"
      using st by (auto split: if_splits)
    then show "m \<in> set (dsc_nodes d (heap ?\<sigma>'))" "dsc_trans_active m (heap ?\<sigma>')"
      using ownerD(1,2) [OF g, of m j] grantedD(1,2) [OF g, of n i t] by auto
    show "\<not> (granted \<sigma> m k u \<and> k \<noteq> i)" for k u
      using o ownerD(3) [OF g, of m j k u] grantedD(3) [OF g, of n i t k u] by blast
  next
    fix m j k u v assume "granted \<sigma> m j u \<and> j \<noteq> i" "granted \<sigma> m k v \<and> k \<noteq> i"
    then show "j = k" using grantedD(3) [OF g] by metis
  next
    fix m j u assume "granted \<sigma> m j u \<and> j \<noteq> i"
    then show "m \<in> set (dsc_nodes d (heap ?\<sigma>'))" "dsc_trans_active m (heap ?\<sigma>')"
      using grantedD(1,2) [OF g, of m j u] by simp_all
  next
    fix m assume "m \<in> set (dsc_nodes d (heap ?\<sigma>'))" "dsc_trans_active m (heap ?\<sigma>')"
    then have "owner \<sigma> m \<noteq> None \<or> (\<exists>j u. granted \<sigma> m j u)"
      using g unfolding inv_grant_def by simp
    moreover have "m = n \<and> st = QDF_STATUS_SUCCESS" if "granted \<sigma> m i u" for u
      using that pc st by (auto simp: granted_def)
    moreover have "owner ?\<sigma>' m \<noteq> None" if "owner \<sigma> m \<noteq> None \<or> m = n \<and> st = QDF_STATUS_SUCCESS"
      using that by auto
    ultimately show "owner ?\<sigma>' m \<noteq> None \<or> (\<exists>j u. granted \<sigma> m j u \<and> j \<noteq> i)"
      by blast
  qed
  moreover have "inv_flush ?\<sigma>'"
    by (rule inv_flush_keep [OF sys_invD(7) [OF inv]])
      (use free in \<open>auto simp: flush_rest_def split: if_splits\<close>)
  ultimately show ?thesis
    using inv by (simp add: sys_inv_def inv_tree_def inv_ops_def)
qed

text \<open>
  A stop hands the nodes that become free to the threads at the head of their
  queues: these threads, and no others, are granted a transition by it.
\<close>

lemma stop_at_effect:
  assumes inv: "sys_inv dbg d \<sigma>" and n: "n \<in> set (dsc_nodes d (heap \<sigma>))" and e: "env_ok e"
    and h': "h' = dsc_stop_at e n (heap \<sigma>)"
  defines "T \<equiv> stop_targets (dsc_trans_stop n (heap \<sigma>)) n"
  shows "trans_queue (trans_of h' m) =
      (if m \<in> T then tl (trans_queue (trans_of (heap \<sigma>) m)) else trans_queue (trans_of (heap \<sigma>) m))"
    and "dsc_trans_active m h' \<longleftrightarrow>
      m \<in> T \<and> dsc_trans_queued m (heap \<sigma>) \<or> m \<noteq> n \<and> dsc_trans_active m (heap \<sigma>)"
    and "tran_event (trans_store h' t) \<longleftrightarrow> tran_event (trans_store (heap \<sigma>) t) \<or>
      (\<exists>m \<in> T. \<exists>ts. trans_queue (trans_of (heap \<sigma>) m) = t # ts)"
    and "tran_abort (trans_store h' t) = tran_abort (trans_store (heap \<sigma>) t)"
    and "ops_of h' = ops_of (heap \<sigma>)" and "dsc_nodes d h' = dsc_nodes d (heap \<sigma>)"
    and "dsc_subtree h' m = dsc_subtree (heap \<sigma>) m"
proof -
  let ?h0 = "dsc_trans_stop n (heap \<sigma>)"
  have tr: "triggers T ?h0 h'"
    unfolding T_def h' by (rule stop_at_triggers [OF e sys_invD(2) [OF inv] n])
  note sel = triggers_trans_of [OF tr] triggers_frame [OF tr] trans_stop_sel
  show "trans_queue (trans_of h' m) =
      (if m \<in> T then tl (trans_queue (trans_of (heap \<sigma>) m)) else trans_queue (trans_of (heap \<sigma>) m))"
    by (simp add: sel triggered_def split: list.split)
  show "dsc_trans_active m h' \<longleftrightarrow>
      m \<in> T \<and> dsc_trans_queued m (heap \<sigma>) \<or> m \<noteq> n \<and> dsc_trans_active m (heap \<sigma>)"
    using stop_effect(1) [OF tr] by blast
  show "tran_event (trans_store h' t) \<longleftrightarrow> tran_event (trans_store (heap \<sigma>) t) \<or>
      (\<exists>m \<in> T. \<exists>ts. trans_queue (trans_of (heap \<sigma>) m) = t # ts)"
    "tran_abort (trans_store h' t) = tran_abort (trans_store (heap \<sigma>) t)"
    using tr by (auto simp: triggers_def trans_stop_sel)
  show "ops_of h' = ops_of (heap \<sigma>)" by (simp add: sel)
  show "dsc_nodes d h' = dsc_nodes d (heap \<sigma>)" "dsc_subtree h' m = dsc_subtree (heap \<sigma>) m"
    by (simp_all add: sel dsc_nodes_cong [of ?h0 d "heap \<sigma>"] dsc_subtree_cong [of h' "heap \<sigma>"])
qed

lemma inv_stop:
  assumes inv: "sys_inv dbg d \<sigma>" and n: "n \<in> set (dsc_nodes d (heap \<sigma>))" and e: "env_ok e"
    and pc: "pc_of \<sigma> i = Running" and own: "owner \<sigma> n = Some i"
  shows "sys_inv dbg d (\<sigma>\<lparr>heap := dsc_stop_at e n (heap \<sigma>), owner := (owner \<sigma>)(n := None),
       flushed := (flushed \<sigma>)(n := False)\<rparr>)" (is "sys_inv dbg d ?\<sigma>'")
proof -
  let ?h = "heap \<sigma>" and ?T = "stop_targets (dsc_trans_stop n (heap \<sigma>)) n"
  note g = sys_invD(5) [OF inv] and iq = inv_queueD [OF sys_invD(4) [OF inv]]
  note act = ownerD(2) [OF g own] and eff = stop_at_effect [OF inv n e refl]
  have T: "m \<in> set (dsc_nodes d ?h)" "m \<noteq> n \<Longrightarrow> \<not> dsc_trans_active m ?h" if "m \<in> ?T" for m
    using stop_targets_idle [OF sys_invD(1) [OF inv] n act that] by blast+
  have wake: "m = m' \<and> k = j" if "m' \<in> ?T" "trans_queue (trans_of ?h m') = u # ts"
    "pc_of \<sigma> j = Waiting m u" "pc_of \<sigma> k = Waiting m u" for m m' u ts j k
    using iq(2) [OF T(1) [OF that(1)], of u] iq(5) that by (metis list.set_intros(1))
  have gr: "granted ?\<sigma>' m j u \<longleftrightarrow> granted \<sigma> m j u \<or>
      m \<in> ?T \<and> pc_of \<sigma> j = Waiting m u \<and> (\<exists>ts. trans_queue (trans_of ?h m) = u # ts)" for m j u
  proof (cases "pc_of \<sigma> j = Waiting m u")
    case True
    then have "(\<exists>m' \<in> ?T. \<exists>ts. trans_queue (trans_of ?h m') = u # ts) \<longleftrightarrow>
        m \<in> ?T \<and> (\<exists>ts. trans_queue (trans_of ?h m) = u # ts)"
      using wake [OF _ _ True True] by blast
    moreover have "\<not> tran_abort (trans_store ?h u)" if "m \<in> ?T" "\<exists>ts. trans_queue (trans_of ?h m) = u # ts"
      using iq(3) [OF T(1) [OF that(1)], of u] that(2) by auto
    ultimately show ?thesis using True by (simp add: granted_def eff(3,4)) blast
  qed (simp add: granted_def)
  have "inv_tree d ?\<sigma>'"
    using tree_inv_stop_at [OF e sys_invD(1) [OF inv] n act] stop_at_no_panic [OF e sys_invD(1) [OF inv] n act]
      sys_invD(3) [OF inv] by (simp add: inv_tree_def)
  moreover have "inv_queue d ?\<sigma>'"
    unfolding inv_queue_def
  proof (intro conjI ballI allI impI)
    fix m assume m: "m \<in> set (dsc_nodes d (heap ?\<sigma>'))"
    then show "distinct (trans_queue (trans_of (heap ?\<sigma>') m))"
      using iq(1) [of m] by (simp add: eff distinct_tl)
    fix u assume u: "u \<in> set (trans_queue (trans_of (heap ?\<sigma>') m))"
    then have u': "u \<in> set (trans_queue (trans_of ?h m))"
      by (cases "trans_queue (trans_of ?h m)") (auto simp: eff split: if_splits)
    then obtain j where j: "pc_of \<sigma> j = Waiting m u" using iq(2) m by (auto simp: eff)
    then show "\<exists>j. pc_of ?\<sigma>' j = Waiting m u" by auto
    show "\<not> tran_event (trans_store (heap ?\<sigma>') u)"
      using m u u' iq(1,3) [of m] wake [OF _ _ j j] by (fastforce simp: eff)
    show "\<not> tran_abort (trans_store (heap ?\<sigma>') u)"
      using m u' iq(3) by (simp add: eff)
  next
    fix j m u assume "pc_of ?\<sigma>' j = Waiting m u"
    then show "tran_event (trans_store (heap ?\<sigma>') u) \<or> m \<in> set (dsc_nodes d (heap ?\<sigma>')) \<and>
        u \<in> set (trans_queue (trans_of (heap ?\<sigma>') m))"
      using iq(4) [of j m u] by (cases "trans_queue (trans_of ?h m)") (auto simp: eff)
  qed (use iq(5) in simp)
  moreover have "inv_grant d ?\<sigma>'"
    unfolding inv_grant_def
  proof (intro conjI ballI allI impI)
    fix m j assume "owner ?\<sigma>' m = Some j"
    then have o: "owner \<sigma> m = Some j" "m \<noteq> n" by (auto split: if_splits)
    then show "m \<in> set (dsc_nodes d (heap ?\<sigma>'))" "dsc_trans_active m (heap ?\<sigma>')"
      using ownerD(1,2) [OF g o(1)] by (simp_all add: eff)
    show "\<not> granted ?\<sigma>' m k u" for k u
      using o(2) ownerD(2,3) [OF g o(1)] T(2) by (auto simp: gr)
  next
    fix m j k u v assume *: "granted ?\<sigma>' m j u" "granted ?\<sigma>' m k v"
    have "\<not> granted \<sigma> m j' u'" if "m \<in> ?T" for j' u'
      using that T(2) grantedD(2) [OF g] ownerD(3) [OF g own] by blast
    then show "j = k"
      using * grantedD(3) [OF g] iq(5) by (auto simp: gr)
  next
    fix m j u assume "granted ?\<sigma>' m j u"
    then show "m \<in> set (dsc_nodes d (heap ?\<sigma>'))" "dsc_trans_active m (heap ?\<sigma>')"
      using T(1) grantedD(1,2) [OF g] ownerD(3) [OF g own] by (auto simp: gr eff dsc_trans_queued_def)
  next
    fix m assume m: "m \<in> set (dsc_nodes d (heap ?\<sigma>'))" and a: "dsc_trans_active m (heap ?\<sigma>')"
    show "owner ?\<sigma>' m \<noteq> None \<or> (\<exists>j u. granted ?\<sigma>' m j u)"
    proof (cases "m \<in> ?T \<and> dsc_trans_queued m ?h")
      case True
      then show ?thesis
        using m iq(2) [of m "hd (trans_queue (trans_of ?h m))"]
        by (cases "trans_queue (trans_of ?h m)") (auto simp: gr eff dsc_trans_queued_def)
    next
      case False
      with a have "m \<noteq> n" "dsc_trans_active m ?h" by (auto simp: eff)
      then show ?thesis using g m unfolding inv_grant_def by (auto simp: gr eff)
    qed
  qed
  moreover have "inv_ops dbg d ?\<sigma>'"
    using sys_invD(6) [OF inv] by (simp add: inv_ops_def eff)
  moreover have "inv_flush ?\<sigma>'"
    by (rule inv_flush_keep [OF sys_invD(7) [OF inv]])
      (use pc own in \<open>auto simp: flush_rest_def eff split: if_splits\<close>)
  ultimately show ?thesis by (simp add: sys_inv_def)
qed

lemma inv_start_at:
  assumes inv: "sys_inv dbg d \<sigma>" and n: "n \<in> set (dsc_nodes d (heap \<sigma>))" and e: "env_ok e"
    and pc: "pc_of \<sigma> i = Running" and st: "dsc_start_at e n desc (heap \<sigma>) = (st, h')"
  shows "sys_inv dbg d (\<sigma>\<lparr>heap := h',
       owner := (if st = QDF_STATUS_SUCCESS then (owner \<sigma>)(n := Some i) else owner \<sigma>)\<rparr>)"
proof (cases "dsc_can_at e n (heap \<sigma>) = QDF_STATUS_SUCCESS")
  case True
  then have "st = QDF_STATUS_SUCCESS" "h' = snd (dsc_trans_start e n desc (heap \<sigma>))"
    using st trans_start_ok(1) [OF e, of n desc "heap \<sigma>"] by (auto simp: start_at_eq)
  then show ?thesis using inv_started [OF inv n e True pc, of desc] by simp
next
  case False
  then show ?thesis using st inv by (auto simp: start_at_eq)
qed

lemma inv_start_wait_at:
  assumes inv: "sys_inv dbg d \<sigma>" and n: "n \<in> set (dsc_nodes d (heap \<sigma>))" and e: "env_ok e"
    and pc: "pc_of \<sigma> i = Running" and fresh: "tran_fresh t \<sigma>"
    and r: "dsc_start_wait_at e t n desc (heap \<sigma>) = (r, h')"
  shows "sys_inv dbg d (\<sigma>\<lparr>heap := h',
       pc_of := (case r of Blocked u \<Rightarrow> (pc_of \<sigma>)(i := Waiting n u) | Returned st \<Rightarrow> pc_of \<sigma>),
       owner := (if r = Returned QDF_STATUS_SUCCESS then (owner \<sigma>)(n := Some i) else owner \<sigma>)\<rparr>)"
proof -
  consider "dsc_can_at e n (heap \<sigma>) = QDF_STATUS_SUCCESS"
    | (again) "dsc_can_at e n (heap \<sigma>) = QDF_STATUS_E_AGAIN"
    | (inval) "dsc_can_at e n (heap \<sigma>) = QDF_STATUS_E_INVAL"
    using can_at_range [of e n "heap \<sigma>"] by auto
  then show ?thesis
  proof cases
    case 1
    then show ?thesis
      using r inv_started [OF inv n e 1 pc, of desc] by (auto simp: start_wait_at_eq [OF e])
  next
    case again
    obtain st h1 where q: "dsc_trans_queue e n t desc (heap \<sigma>) = (st, h1)" by fastforce
    show ?thesis
      using r inv_queued [OF inv n again pc fresh q] by (auto simp: start_wait_at_eq [OF e] again q split: if_splits)
  next
    case inval
    then show ?thesis using r inv by (auto simp: start_wait_at_eq [OF e])
  qed
qed

section \<open>Steps that start, stop and flush operations\<close>

lemma inv_core_cong:
  assumes "drivers (heap \<sigma>') = drivers (heap \<sigma>)" "psocs (heap \<sigma>') = psocs (heap \<sigma>)"
    "vdevs (heap \<sigma>') = vdevs (heap \<sigma>)" "trans_of (heap \<sigma>') = trans_of (heap \<sigma>)"
    "trans_store (heap \<sigma>') = trans_store (heap \<sigma>)" "dsc_panic (heap \<sigma>') = dsc_panic (heap \<sigma>)"
    "owner \<sigma>' = owner \<sigma>"
    and pc: "\<And>i n t. pc_of \<sigma>' i = Waiting n t \<longleftrightarrow> pc_of \<sigma> i = Waiting n t"
  shows "inv_tree d \<sigma>' = inv_tree d \<sigma>" and "inv_queue d \<sigma>' = inv_queue d \<sigma>"
    and "inv_grant d \<sigma>' = inv_grant d \<sigma>"
proof -
  note fr = dsc_nodes_cong [of "heap \<sigma>'" d "heap \<sigma>"] dsc_ancestors_cong [of "heap \<sigma>'" "heap \<sigma>"]
    tree_wf_cong [of "heap \<sigma>'" "heap \<sigma>"]
  have gr: "granted \<sigma>' = granted \<sigma>"
    using assms(5) pc by (simp add: fun_eq_iff granted_def)
  show "inv_tree d \<sigma>' = inv_tree d \<sigma>"
    using assms by (simp add: inv_tree_def tree_inv_def tree_excl_def tree_pend_def fr
        dsc_trans_active_or_queued_def dsc_trans_active_def dsc_trans_queued_def)
  show "inv_queue d \<sigma>' = inv_queue d \<sigma>"
    using assms by (simp add: inv_queue_def fr)
  show "inv_grant d \<sigma>' = inv_grant d \<sigma>"
    using assms gr by (simp add: inv_grant_def fr dsc_trans_active_def)
qed

lemma upd_ops_tree [simp]:
  "dsc_nodes d (upd_ops n f s) = dsc_nodes d s"
  "dsc_subtree (upd_ops n f s) m = dsc_subtree s m"
  by (rule dsc_nodes_cong, simp_all) (rule dsc_subtree_cong, simp_all)

lemma op_start_at_eq:
  "dsc_op_start_at e n func s =
     (if dsc_can_at e n s = QDF_STATUS_SUCCESS then dsc_ops_insert e n func s
      else (dsc_can_at e n s, s))"
  by (cases n) (auto simp: dsc_driver_op_start_def dsc_psoc_op_start_def dsc_vdev_op_start_def Let_def)

lemma op_stop_at_eq: "dsc_op_stop_at e n func s = dsc_op_stop_node e n func s"
  by (cases n) (auto simp: dsc_driver_op_stop_def dsc_psoc_op_stop_def dsc_vdev_op_stop_def)

lemma ops_insert_cases:
  assumes "dsc_ops_insert e n func s = (st, s')"
  shows "st \<noteq> QDF_STATUS_SUCCESS \<Longrightarrow> s' = s"
    and "st = QDF_STATUS_SUCCESS \<Longrightarrow> s' = upd_ops n (\<lambda>o'. \<lparr>ops_list =
        (if wlan_dsc_debug e then ops_list o' @ [func] else ops_list o'),
        ops_count = ops_count o' + 1, ops_event = ops_event o'\<rparr>) s"
  using assms
  by (cases "ops_of s n";
      auto simp: dsc_ops_insert_def dsc_dbg_ops_insert_def upd_ops_def Let_def split: if_splits)+

text \<open>A node on which an operation may start lies in the subtree of no owned node.\<close>

lemma can_at_outside:
  assumes inv: "sys_inv dbg d \<sigma>" and n: "n \<in> set (dsc_nodes d (heap \<sigma>))"
    and can: "dsc_can_at e n (heap \<sigma>) = QDF_STATUS_SUCCESS" and own: "owner \<sigma> k \<noteq> None"
  shows "n \<notin> set (dsc_subtree (heap \<sigma>) k)"
proof -
  note wf = sys_invD(2) [OF inv] and o = ownerD [OF sys_invD(5) [OF inv]]
  have k: "k \<in> set (dsc_nodes d (heap \<sigma>))" "dsc_trans_active k (heap \<sigma>)"
    using own o(1,2) by auto
  then show ?thesis
    using can_at_clear(1,3) [OF wf n can] in_subtree [OF wf k(1), of n]
    by (auto simp: dsc_trans_active_or_queued_def)
qed

lemma inv_op_start:
  assumes inv: "sys_inv dbg d \<sigma>" and n: "n \<in> set (dsc_nodes d (heap \<sigma>))"
    and dbg: "wlan_dsc_debug e = dbg" and sz: "size (in_flight \<sigma> n) + 1 < 2 ^ 32"
    and st: "dsc_op_start_at e n func (heap \<sigma>) = (st, h')"
  shows "sys_inv dbg d (\<sigma>\<lparr>heap := h',
       in_flight := (if st = QDF_STATUS_SUCCESS
         then (in_flight \<sigma>)(n := add_mset func (in_flight \<sigma> n)) else in_flight \<sigma>)\<rparr>)"
proof (cases "st = QDF_STATUS_SUCCESS")
  case False
  then have "h' = heap \<sigma>"
    using st ops_insert_cases(1) [of e n func "heap \<sigma>" st h'] by (auto simp: op_start_at_eq split: if_splits)
  then show ?thesis using False inv by simp
next
  case True
  let ?h = "heap \<sigma>"
  let ?\<sigma>' = "\<sigma>\<lparr>heap := h', in_flight := (in_flight \<sigma>)(n := add_mset func (in_flight \<sigma> n))\<rparr>"
  have can: "dsc_can_at e n ?h = QDF_STATUS_SUCCESS" and ins: "dsc_ops_insert e n func ?h = (st, h')"
    using st True by (auto simp: op_start_at_eq split: if_splits)
  note h' = ops_insert_cases(2) [OF ins True]
  have fr: "dsc_nodes d h' = dsc_nodes d ?h" "\<And>k. dsc_subtree h' k = dsc_subtree ?h k"
    by (simp_all add: h')
  have core: "inv_tree d ?\<sigma>'" "inv_queue d ?\<sigma>'" "inv_grant d ?\<sigma>'"
    using inv_core_cong [of ?\<sigma>' \<sigma> d] sys_invD(4,5) [OF inv] inv by (simp_all add: h' sys_inv_def)
  have ops: "inv_ops dbg d ?\<sigma>'"
  proof -
    have "unat (ops_count (ops_of ?h n) + 1) = size (in_flight \<sigma> n) + 1"
      using sys_invD(6) [OF inv] n sz by (simp add: inv_ops_def unat_word_ariths)
    then show ?thesis
      using sys_invD(6) [OF inv] dbg n by (auto simp: inv_ops_def fr) (auto simp: h')
  qed
  have out: "n \<notin> set (dsc_subtree ?h k)" if "owner \<sigma> k = Some j" for k j
    using can_at_outside [OF inv n can] that by simp
  have "inv_flush ?\<sigma>'"
  proof (rule inv_flush_keep [OF sys_invD(7) [OF inv]])
    fix i k ks assume "flush_rest \<sigma> i k ks"
    then show "flush_rest ?\<sigma>' i k ks" using out [of k i] by (auto simp: flush_rest_def fr)
  next
    fix i k l ms assume "flush_rest \<sigma> i k (l # ms)"
      and "ops_event (ops_of ?h l) = (in_flight \<sigma> l = {#})"
    then show "ops_event (ops_of (heap ?\<sigma>') l) = (in_flight ?\<sigma>' l = {#})"
      using out [of k i] by (auto simp: flush_rest_def h')
  qed simp_all
  with core ops True show ?thesis by (simp add: sys_inv_def)
qed

lemma op_stop_node_sel:
  assumes "ops_count (ops_of s n) \<noteq> 0" and "wlan_dsc_debug e \<Longrightarrow> func \<in> set (ops_list (ops_of s n))"
  shows "dsc_op_stop_node e n func s = upd_ops n (\<lambda>o'. \<lparr>ops_list =
      (if wlan_dsc_debug e then remove1 func (ops_list o') else ops_list o'),
      ops_count = ops_count o' - 1, ops_event = ops_event o' \<or> ops_count o' = 1\<rparr>) s"
  using assms
  by (cases "ops_of s n")
    (auto simp: dsc_op_stop_node_def dsc_ops_remove_def dsc_dbg_ops_remove_def upd_ops_def Let_def)

lemma inv_op_stop:
  assumes inv: "sys_inv dbg d \<sigma>" and n: "n \<in> set (dsc_nodes d (heap \<sigma>))"
    and dbg: "wlan_dsc_debug e = dbg" and func: "func \<in># in_flight \<sigma> n"
  shows "sys_inv dbg d (\<sigma>\<lparr>heap := dsc_op_stop_at e n func (heap \<sigma>),
       in_flight := (in_flight \<sigma>)(n := in_flight \<sigma> n - {#func#})\<rparr>)" (is "sys_inv dbg d ?\<sigma>'")
proof -
  let ?h = "heap \<sigma>" and ?h' = "dsc_op_stop_at e n func (heap \<sigma>)"
  have cnt: "unat (ops_count (ops_of ?h n)) = size (in_flight \<sigma> n)"
    "dbg \<Longrightarrow> mset (ops_list (ops_of ?h n)) = in_flight \<sigma> n"
    using sys_invD(6) [OF inv] n by (simp_all add: inv_ops_def)
  have ne: "in_flight \<sigma> n \<noteq> {#}" using func by auto
  then have pos: "size (in_flight \<sigma> n) > 0" by (simp add: nonempty_has_size)
  then have nz: "ops_count (ops_of ?h n) \<noteq> 0" using cnt(1) by auto
  have h': "?h' = upd_ops n (\<lambda>o'. \<lparr>ops_list = (if dbg then remove1 func (ops_list o') else ops_list o'),
      ops_count = ops_count o' - 1, ops_event = ops_event o' \<or> ops_count o' = 1\<rparr>) ?h"
    unfolding op_stop_at_eq dbg [symmetric]
    by (rule op_stop_node_sel [OF nz]) (use cnt(2) func dbg in \<open>metis set_mset_mset\<close>)
  have fr: "dsc_nodes d ?h' = dsc_nodes d ?h" "\<And>k. dsc_subtree ?h' k = dsc_subtree ?h k"
    by (simp_all add: h')
  have core: "inv_tree d ?\<sigma>'" "inv_queue d ?\<sigma>'" "inv_grant d ?\<sigma>'"
    using inv_core_cong [of ?\<sigma>' \<sigma> d] sys_invD(4,5) [OF inv] inv by (simp_all add: h' sys_inv_def)
  have dec: "unat (ops_count (ops_of ?h n) - 1) = size (in_flight \<sigma> n) - 1"
    using cnt(1) nz by (simp add: unat_minus_one)
  have ops: "inv_ops dbg d ?\<sigma>'"
    using sys_invD(6) [OF inv] n dec func cnt by (auto simp: inv_ops_def fr size_Diff_singleton)
      (auto simp: h' size_Diff_singleton)
  have one: "ops_count (ops_of ?h n) = 1 \<longleftrightarrow> in_flight \<sigma> n - {#func#} = {#}"
  proof -
    have "ops_count (ops_of ?h n) = 1 \<longleftrightarrow> size (in_flight \<sigma> n) = 1"
      using cnt(1) by (metis unat_1 word_unat_eq_iff)
    also have "\<dots> \<longleftrightarrow> size (in_flight \<sigma> n - {#func#}) = 0"
      using pos func by (auto simp: size_Diff_singleton)
    finally show ?thesis by (simp only: size_eq_0_iff_empty)
  qed
  have "inv_flush ?\<sigma>'"
  proof (rule inv_flush_keep [OF sys_invD(7) [OF inv]])
    fix i k ks assume "flush_rest \<sigma> i k ks"
    then show "flush_rest ?\<sigma>' i k ks" using ne by (auto simp: flush_rest_def fr)
  next
    fix i k l ms assume "ops_event (ops_of ?h l) = (in_flight \<sigma> l = {#})"
    then show "ops_event (ops_of (heap ?\<sigma>') l) = (in_flight ?\<sigma>' l = {#})"
      using ne one by (auto simp: h')
  qed simp_all
  with core ops show ?thesis by (simp add: sys_inv_def)
qed

lemma wait_at_eq:
  assumes "\<And>d. m = DriverNode d \<Longrightarrow> dsc_trans_active m s"
  shows "dsc_wait_at m s = dsc_wait_enter m s"
  using assms
  by (cases m) (auto simp: dsc_driver_wait_for_ops_def dsc_psoc_wait_for_ops_def dsc_vdev_wait_for_ops_def
      dsc_driver_can_trans_def dsc_trans_active_or_queued_def)

lemma inv_flush_enter:
  assumes inv: "sys_inv dbg d \<sigma>" and pc: "pc_of \<sigma> i = Flushing n (m # ms)"
    and w: "dsc_wait_at m (heap \<sigma>) = (wait, h')"
  shows "sys_inv dbg d (\<sigma>\<lparr>heap := h',
       pc_of := (pc_of \<sigma>)(i := if wait then FlushWait n m ms else Flushing n ms)\<rparr>)"
    (is "sys_inv dbg d ?\<sigma>'")
proof -
  let ?h = "heap \<sigma>"
  note rest = inv_flushD(1) [OF sys_invD(7) [OF inv] pc]
  have own: "owner \<sigma> n = Some i" and sub: "m \<in> set (dsc_subtree ?h n)"
    using flush_restD(1,2) [OF rest] by auto
  note o = ownerD [OF sys_invD(5) [OF inv] own]
  have m: "m \<in> set (dsc_nodes d ?h)" "m = n \<or> n \<in> set (dsc_ancestors ?h m)"
    using in_subtree [OF sys_invD(2) [OF inv] o(1)] sub by auto
  have "dsc_wait_enter m ?h = (wait, h')"
    using w wait_at_eq [of m ?h] m(2) o(2) by fastforce
  then have h': "h' = (if wait then upd_ops m (\<lambda>o'. o'\<lparr>ops_event := False\<rparr>) ?h else ?h)"
    and wait: "wait \<longleftrightarrow> ops_count (ops_of ?h m) \<noteq> 0"
    by (auto simp: dsc_wait_enter_def Let_def word_neq_0_conv)
  have fl: "wait \<longleftrightarrow> in_flight \<sigma> m \<noteq> {#}"
    using sys_invD(6) [OF inv] m(1) wait by (auto simp: inv_ops_def unat_eq_zero)
  have fr: "dsc_nodes d h' = dsc_nodes d ?h" "\<And>k. dsc_subtree h' k = dsc_subtree ?h k"
    by (simp_all add: h')
  have core: "inv_tree d ?\<sigma>'" "inv_queue d ?\<sigma>'" "inv_grant d ?\<sigma>'"
    using inv_core_cong [of ?\<sigma>' \<sigma> d] sys_invD(4,5) [OF inv] inv pc by (simp_all add: h' sys_inv_def)
  have ops: "inv_ops dbg d ?\<sigma>'"
    using sys_invD(6) [OF inv] by (simp add: inv_ops_def fr) (simp add: h')
  have ev: "ops_event (ops_of h' k) = (if wait \<and> k = m then False else ops_event (ops_of ?h k))" for k
    by (simp add: h')
  have keep: "flush_rest ?\<sigma>' j k ks = flush_rest \<sigma> j k ks" for j k ks
    by (simp add: flush_rest_def fr)
  have "flush_rest ?\<sigma>' i n ms" if "\<not> wait"
    using rest that fl by (auto simp: flush_rest_def fr)
  then have "inv_flush ?\<sigma>'"
    using inv_flushD [OF sys_invD(7) [OF inv]] rest fl unfolding inv_flush_def keep
    by (auto simp: ev split: if_splits)
  with core ops show ?thesis by (simp add: sys_inv_def)
qed

lemma inv_flush_steps:
  assumes inv: "sys_inv dbg d \<sigma>"
  shows "pc_of \<sigma> i = Running \<Longrightarrow> owner \<sigma> n = Some i \<Longrightarrow>
      sys_inv dbg d (\<sigma>\<lparr>pc_of := (pc_of \<sigma>)(i := Flushing n (dsc_subtree (heap \<sigma>) n))\<rparr>)"
    and "pc_of \<sigma> i = FlushWait n m ms \<Longrightarrow> ops_event (ops_of (heap \<sigma>) m) \<Longrightarrow>
      sys_inv dbg d (\<sigma>\<lparr>pc_of := (pc_of \<sigma>)(i := Flushing n ms)\<rparr>)"
    and "pc_of \<sigma> i = Flushing n [] \<Longrightarrow>
      sys_inv dbg d (\<sigma>\<lparr>pc_of := (pc_of \<sigma>)(i := Running), flushed := (flushed \<sigma>)(n := True)\<rparr>)"
proof -
  have core: "inv_tree d (\<sigma>\<lparr>pc_of := (pc_of \<sigma>)(i := c), flushed := f\<rparr>)"
    "inv_queue d (\<sigma>\<lparr>pc_of := (pc_of \<sigma>)(i := c), flushed := f\<rparr>)"
    "inv_grant d (\<sigma>\<lparr>pc_of := (pc_of \<sigma>)(i := c), flushed := f\<rparr>)"
    "inv_ops dbg d (\<sigma>\<lparr>pc_of := (pc_of \<sigma>)(i := c), flushed := f\<rparr>)"
    if "\<forall>n t. c \<noteq> Waiting n t \<and> pc_of \<sigma> i \<noteq> Waiting n t" for c f
    using that inv inv_core_cong [of "\<sigma>\<lparr>pc_of := (pc_of \<sigma>)(i := c), flushed := f\<rparr>" \<sigma> d]
    by (auto simp: sys_inv_def inv_ops_def)
  note core' = core [where f = "flushed \<sigma>", simplified]
  have keep: "flush_rest (\<sigma>\<lparr>pc_of := f, flushed := g\<rparr>) = flush_rest \<sigma>"
    "flush_rest (\<sigma>\<lparr>pc_of := f\<rparr>) = flush_rest \<sigma>" for f g
    by (simp_all add: fun_eq_iff flush_rest_def)
  note fl = inv_flushD [OF sys_invD(7) [OF inv]]
  show "sys_inv dbg d (\<sigma>\<lparr>pc_of := (pc_of \<sigma>)(i := Flushing n (dsc_subtree (heap \<sigma>) n))\<rparr>)"
    if "pc_of \<sigma> i = Running" "owner \<sigma> n = Some i"
  proof -
    have "flush_rest \<sigma> i n (dsc_subtree (heap \<sigma>) n)" using that by (simp add: flush_rest_def)
    then show ?thesis using that fl by (simp add: sys_inv_def core' inv_flush_def keep)
  qed
  show "sys_inv dbg d (\<sigma>\<lparr>pc_of := (pc_of \<sigma>)(i := Flushing n ms)\<rparr>)"
    if "pc_of \<sigma> i = FlushWait n m ms" "ops_event (ops_of (heap \<sigma>) m)"
  proof -
    have "flush_rest \<sigma> i n ms" using fl(2,3) [OF that(1)] that(2) by (auto simp: flush_rest_def)
    then show ?thesis using that fl by (simp add: sys_inv_def core' inv_flush_def keep)
  qed
  show "sys_inv dbg d (\<sigma>\<lparr>pc_of := (pc_of \<sigma>)(i := Running), flushed := (flushed \<sigma>)(n := True)\<rparr>)"
    if "pc_of \<sigma> i = Flushing n []"
    using that fl by (simp add: sys_inv_def core inv_flush_def keep) blast
qed

section \<open>Steps that create and destroy nodes\<close>

lemma abort_cases:
  "dsc_trans_abort n s =
     (case trans_queue (trans_of s n) of
        [] \<Rightarrow> (False, s)
      | t # ts \<Rightarrow> (True, upd_tran t (\<lambda>r. r\<lparr>tran_abort := True, tran_event := True\<rparr>)
                    (upd_trans n (\<lambda>tr. tr\<lparr>trans_queue := ts\<rparr>) s)))"
  by (simp add: dsc_trans_abort_def dsc_trans_dequeue_def split: list.split)

text \<open>Destroying a node wakes every thread in its queue with an aborted transition.\<close>

lemma trans_flush_sel:
  "trans_queue (trans_of (dsc_trans_flush n s) m) = (if m = n then [] else trans_queue (trans_of s m))"
  "active_desc (trans_of (dsc_trans_flush n s) m) = active_desc (trans_of s m)"
  "tran_abort (trans_store (dsc_trans_flush n s) t) \<longleftrightarrow>
     tran_abort (trans_store s t) \<or> t \<in> set (trans_queue (trans_of s n))"
  "tran_event (trans_store (dsc_trans_flush n s) t) \<longleftrightarrow>
     tran_event (trans_store s t) \<or> t \<in> set (trans_queue (trans_of s n))"
  "drivers (dsc_trans_flush n s) = drivers s" "psocs (dsc_trans_flush n s) = psocs s"
  "vdevs (dsc_trans_flush n s) = vdevs s" "ops_of (dsc_trans_flush n s) = ops_of s"
  "dsc_panic (dsc_trans_flush n s) = dsc_panic s"
proof -
  have "trans_queue (trans_of s n) = q \<Longrightarrow>
     trans_of (dsc_trans_flush n s) = (trans_of s)(n := (trans_of s n)\<lparr>trans_queue := []\<rparr>) \<and>
     trans_store (dsc_trans_flush n s) = (\<lambda>t. if t \<in> set q
       then (trans_store s t)\<lparr>tran_abort := True, tran_event := True\<rparr> else trans_store s t) \<and>
     drivers (dsc_trans_flush n s) = drivers s \<and> psocs (dsc_trans_flush n s) = psocs s \<and>
     vdevs (dsc_trans_flush n s) = vdevs s \<and> ops_of (dsc_trans_flush n s) = ops_of s \<and>
     dsc_panic (dsc_trans_flush n s) = dsc_panic s" for q
  proof (induction q arbitrary: s)
    case Nil
    then have "dsc_trans_flush n s = s" by (simp add: dsc_trans_flush.simps [of n s] abort_cases)
    with Nil show ?case by (cases "trans_of s n") (auto simp: fun_eq_iff)
  next
    case (Cons t ts)
    let ?s1 = "upd_tran t (\<lambda>r. r\<lparr>tran_abort := True, tran_event := True\<rparr>)
      (upd_trans n (\<lambda>tr. tr\<lparr>trans_queue := ts\<rparr>) s)"
    have "dsc_trans_flush n s = dsc_trans_flush n ?s1"
      using Cons.prems by (simp add: dsc_trans_flush.simps [of n s] abort_cases)
    with Cons.IH [of ?s1] show ?case by (auto simp: fun_eq_iff)
  qed
  note this [OF refl]
  then show
    "trans_queue (trans_of (dsc_trans_flush n s) m) = (if m = n then [] else trans_queue (trans_of s m))"
    "active_desc (trans_of (dsc_trans_flush n s) m) = active_desc (trans_of s m)"
    "tran_abort (trans_store (dsc_trans_flush n s) t) \<longleftrightarrow>
       tran_abort (trans_store s t) \<or> t \<in> set (trans_queue (trans_of s n))"
    "tran_event (trans_store (dsc_trans_flush n s) t) \<longleftrightarrow>
       tran_event (trans_store s t) \<or> t \<in> set (trans_queue (trans_of s n))"
    "drivers (dsc_trans_flush n s) = drivers s" "psocs (dsc_trans_flush n s) = psocs s"
    "vdevs (dsc_trans_flush n s) = vdevs s" "ops_of (dsc_trans_flush n s) = ops_of s"
    "dsc_panic (dsc_trans_flush n s) = dsc_panic s"
    by simp_all
qed

text \<open>
  A destroyed node leaves the tree; what the threads know of the others stays.
  The two levels differ only in the list from which the node is removed.
\<close>

lemma inv_removed:
  assumes inv: "sys_inv dbg d \<sigma>" and n: "n \<in> set (dsc_nodes d (heap \<sigma>))"
    and idle: "\<not> dsc_trans_active n (heap \<sigma>)" and fl: "in_flight \<sigma> n = {#}" and nf: "not_flushing n \<sigma>"
    and leaf: "\<And>m. m \<in> set (dsc_nodes d (heap \<sigma>)) \<Longrightarrow> n \<notin> set (dsc_ancestors (heap \<sigma>) m)"
    and wf': "tree_wf d h'" and p': "\<not> dsc_panic h'"
    and nodes: "set (dsc_nodes d h') = set (dsc_nodes d (heap \<sigma>)) - {n}"
    and anc: "\<And>m. dsc_ancestors h' m = dsc_ancestors (heap \<sigma>) m"
    and sub: "\<And>m. m \<in> set (dsc_nodes d (heap \<sigma>)) \<Longrightarrow>
        set (dsc_subtree h' m) = set (dsc_subtree (heap \<sigma>) m) - (if m = n then {} else {n})"
    and que: "\<And>m. m \<noteq> n \<Longrightarrow> trans_queue (trans_of h' m) = trans_queue (trans_of (heap \<sigma>) m)"
    and act: "\<And>m. dsc_trans_active m h' = dsc_trans_active m (heap \<sigma>)"
    and abort: "\<And>t. tran_abort (trans_store h' t) \<longleftrightarrow> tran_abort (trans_store (heap \<sigma>) t) \<or>
        t \<in> set (trans_queue (trans_of (heap \<sigma>) n))"
    and event: "\<And>t. tran_event (trans_store h' t) \<longleftrightarrow> tran_event (trans_store (heap \<sigma>) t) \<or>
        t \<in> set (trans_queue (trans_of (heap \<sigma>) n))"
    and ops: "ops_of h' = ops_of (heap \<sigma>)"
  shows "sys_inv dbg d (\<sigma>\<lparr>heap := h'\<rparr>)"
proof -
  let ?h = "heap \<sigma>" and ?\<sigma>' = "\<sigma>\<lparr>heap := h'\<rparr>"
  note g = sys_invD(5) [OF inv] and iq = inv_queueD [OF sys_invD(4) [OF inv]]
  note free = not_active_free [OF g idle]
  have other: "t \<notin> set (trans_queue (trans_of ?h n))"
    if "m \<in> set (dsc_nodes d ?h)" "m \<noteq> n" "t \<in> set (trans_queue (trans_of ?h m))" for m t
    using iq(2) [OF that(1,3)] iq(2) [OF n] iq(5) that(2) by blast
  have gr: "granted ?\<sigma>' = granted \<sigma>"
    using iq(3) [OF n] by (auto simp: fun_eq_iff granted_def abort event)
  have que': "dsc_trans_queued m h' \<longleftrightarrow> dsc_trans_queued m ?h" if "m \<noteq> n" for m
    using que [OF that] by (simp add: dsc_trans_queued_def)
  have ti: "tree_excl d ?h" "tree_pend d ?h" using sys_invD(1) [OF inv] by (simp_all add: tree_inv_def)
  have "tree_excl d h'"
    using ti(1) unfolding tree_excl_def nodes anc act by blast
  moreover have "tree_pend d h'"
    unfolding tree_pend_def
  proof (intro ballI impI)
    fix m assume m: "m \<in> set (dsc_nodes d h')" and q: "dsc_trans_queued m h'"
    then have m': "m \<in> set (dsc_nodes d ?h)" "m \<noteq> n" "dsc_trans_queued m ?h"
      using que' by (auto simp: nodes)
    have aq: "dsc_trans_active_or_queued k h' \<longleftrightarrow> dsc_trans_active_or_queued k ?h"
      if "k \<in> set (dsc_ancestors ?h m)" for k
      using that leaf [OF m'(1)] que' [of k] by (auto simp: dsc_trans_active_or_queued_def act)
    show "dsc_trans_active m h' \<or> (\<exists>k\<in>set (dsc_ancestors h' m). dsc_trans_active_or_queued k h') \<or>
        (\<exists>k\<in>set (dsc_nodes d h'). m \<in> set (dsc_ancestors h' k) \<and> dsc_trans_active k h')"
      using ti(2) m' idle aq unfolding tree_pend_def anc act nodes by (auto dest!: bspec [of _ _ m])
  qed
  ultimately have "inv_tree d ?\<sigma>'" using wf' p' by (simp add: inv_tree_def tree_inv_def)
  moreover have "inv_queue d ?\<sigma>'"
    unfolding inv_queue_def
  proof (intro conjI ballI allI impI)
    fix m assume m: "m \<in> set (dsc_nodes d (heap ?\<sigma>'))"
    then show "distinct (trans_queue (trans_of (heap ?\<sigma>') m))" using iq(1) by (simp add: nodes que)
    fix u assume "u \<in> set (trans_queue (trans_of (heap ?\<sigma>') m))"
    then have u: "u \<in> set (trans_queue (trans_of ?h m))" using m by (simp add: nodes que)
    show "\<exists>i. pc_of ?\<sigma>' i = Waiting m u" using iq(2) [of m u] m u by (simp add: nodes)
    show "\<not> tran_event (trans_store (heap ?\<sigma>') u)" "\<not> tran_abort (trans_store (heap ?\<sigma>') u)"
      using iq(3) [of m u] other [of m u] m u by (simp_all add: nodes event abort)
  next
    fix i m u assume "pc_of ?\<sigma>' i = Waiting m u"
    then show "tran_event (trans_store (heap ?\<sigma>') u) \<or> m \<in> set (dsc_nodes d (heap ?\<sigma>')) \<and>
        u \<in> set (trans_queue (trans_of (heap ?\<sigma>') m))"
      using iq(4) [of i m u] by (cases "m = n") (auto simp: nodes event que)
  qed (use iq(5) in auto)
  moreover have "inv_grant d ?\<sigma>'"
    using g free unfolding inv_grant_def gr by (auto simp: nodes act)
  moreover have "inv_ops dbg d ?\<sigma>'"
    using sys_invD(6) [OF inv] fl by (auto simp: inv_ops_def nodes ops)
  moreover have "inv_flush ?\<sigma>'"
  proof (rule inv_flush_keep [OF sys_invD(7) [OF inv]])
    fix i m ks assume r: "flush_rest \<sigma> i m ks"
      and c: "(\<exists>k ms. pc_of ?\<sigma>' i = Flushing m ms \<and> ks = ms \<or> pc_of ?\<sigma>' i = FlushWait m k ms \<and> ks = k # ms) \<or>
        flushed ?\<sigma>' m \<and> ks = []"
    have "n \<notin> set ks"
      using c nf by (auto simp: not_flushing_def dest!: spec [of _ i])
    then show "flush_rest ?\<sigma>' i m ks"
      using r ownerD(1) [OF g flush_restD(1) [OF r]] by (auto simp: flush_rest_def sub split: if_splits)
  qed (auto simp: ops)
  ultimately show ?thesis by (simp add: sys_inv_def)
qed

lemma no_ops_count:
  assumes "sys_inv dbg d \<sigma>" and "n \<in> set (dsc_nodes d (heap \<sigma>))" and "in_flight \<sigma> n = {#}"
  shows "ops_count (ops_of (heap \<sigma>) n) = 0"
proof -
  have "unat (ops_count (ops_of (heap \<sigma>) n)) = size (in_flight \<sigma> n)"
    using sys_invD(6) [OF assms(1)] assms(2) by (simp add: inv_ops_def)
  then show ?thesis using assms(3) by (simp add: unat_eq_zero)
qed

lemma inv_psoc_destroy:
  assumes inv: "sys_inv dbg d \<sigma>" and n: "PsocNode p \<in> set (dsc_nodes d (heap \<sigma>))"
    and leaf: "psoc_vdevs (psocs (heap \<sigma>) p) = []"
    and idle: "\<not> dsc_trans_active (PsocNode p) (heap \<sigma>)" and fl: "in_flight \<sigma> (PsocNode p) = {#}"
    and nf: "not_flushing (PsocNode p) \<sigma>"
  shows "sys_inv dbg d (\<sigma>\<lparr>heap := dsc_psoc_destroy (Some (Some p)) (heap \<sigma>)\<rparr>)"
proof -
  let ?h = "heap \<sigma>" and ?h' = "dsc_psoc_destroy (Some (Some p)) (heap \<sigma>)"
  note wf = sys_invD(2) [OF inv]
  have p: "p \<in> set (driver_psocs (drivers ?h d))" using n by simp
  have zero: "ops_count (ops_of ?h (PsocNode p)) = 0"
    by (rule no_ops_count [OF inv n fl])
  have links: "drivers ?h' = (drivers ?h)(d := \<lparr>driver_psocs = remove1 p (driver_psocs (drivers ?h d))\<rparr>)"
    "psocs ?h' = psocs ?h" "vdevs ?h' = vdevs ?h" "ops_of ?h' = ops_of ?h"
    and panic: "dsc_panic ?h' = dsc_panic ?h"
    using tree_wfD(1) [OF wf p] leaf zero
    by (simp_all add: dsc_psoc_destroy_def dsc_ops_deinit_def dsc_trans_deinit_def Let_def trans_flush_sel)
  have tr: "trans_queue (trans_of ?h' m) = (if m = PsocNode p then [] else trans_queue (trans_of ?h m))"
    "active_desc (trans_of ?h' m) = (if m = PsocNode p then None else active_desc (trans_of ?h m))"
    "tran_abort (trans_store ?h' t) \<longleftrightarrow>
       tran_abort (trans_store ?h t) \<or> t \<in> set (trans_queue (trans_of ?h (PsocNode p)))"
    "tran_event (trans_store ?h' t) \<longleftrightarrow>
       tran_event (trans_store ?h t) \<or> t \<in> set (trans_queue (trans_of ?h (PsocNode p)))" for m t
    by (simp_all add: dsc_psoc_destroy_def dsc_ops_deinit_def dsc_trans_deinit_def Let_def trans_flush_sel)
  have dist: "distinct (driver_psocs (drivers ?h d))" using wf by (simp add: tree_wf_def)
  have up: "PsocNode p \<notin> set (dsc_ancestors ?h m)" if "m \<in> set (dsc_nodes d ?h)" for m
    using that leaf tree_wfD(3) [OF wf] by - (cases m; auto)
  have nodes: "set (dsc_nodes d ?h') = set (dsc_nodes d ?h) - {PsocNode p}"
    using dist leaf by (auto simp: dsc_nodes_def links)
  have sub: "set (dsc_subtree ?h' m) = set (dsc_subtree ?h m) - (if m = PsocNode p then {} else {PsocNode p})"
    if "m \<in> set (dsc_nodes d ?h)" for m
    using that nodes by - (cases m; auto simp: links)
  have anc: "dsc_ancestors ?h' m = dsc_ancestors ?h m" for m
    by (rule dsc_ancestors_cong) (simp_all add: links)
  have wf': "tree_wf d ?h'" using wf dist by (simp add: tree_wf_def links)
  show ?thesis
    by (rule inv_removed [OF inv n idle fl nf up wf' _ nodes anc sub])
      (use links panic sys_invD(3) [OF inv] idle in \<open>auto simp: tr dsc_trans_active_def\<close>)
qed

lemma inv_vdev_destroy:
  assumes inv: "sys_inv dbg d \<sigma>" and n: "VdevNode v \<in> set (dsc_nodes d (heap \<sigma>))"
    and idle: "\<not> dsc_trans_active (VdevNode v) (heap \<sigma>)" and fl: "in_flight \<sigma> (VdevNode v) = {#}"
    and nf: "not_flushing (VdevNode v) \<sigma>"
  shows "sys_inv dbg d (\<sigma>\<lparr>heap := dsc_vdev_destroy (Some (Some v)) (heap \<sigma>)\<rparr>)"
proof -
  let ?h = "heap \<sigma>" and ?h' = "dsc_vdev_destroy (Some (Some v)) (heap \<sigma>)"
  note wf = sys_invD(2) [OF inv]
  obtain p where p: "p \<in> set (driver_psocs (drivers ?h d))" "v \<in> set (psoc_vdevs (psocs ?h p))"
    using n by auto
  have zero: "ops_count (ops_of ?h (VdevNode v)) = 0"
    by (rule no_ops_count [OF inv n fl])
  have links: "drivers ?h' = drivers ?h" "vdevs ?h' = vdevs ?h" "ops_of ?h' = ops_of ?h"
    "psocs ?h' = (psocs ?h)(p := (psocs ?h p)\<lparr>psoc_vdevs := remove1 v (psoc_vdevs (psocs ?h p))\<rparr>)"
    and panic: "dsc_panic ?h' = dsc_panic ?h"
    using tree_wfD(3) [OF wf p] zero
    by (simp_all add: dsc_vdev_destroy_def dsc_ops_deinit_def dsc_trans_deinit_def Let_def trans_flush_sel)
  have tr: "trans_queue (trans_of ?h' m) = (if m = VdevNode v then [] else trans_queue (trans_of ?h m))"
    "active_desc (trans_of ?h' m) = (if m = VdevNode v then None else active_desc (trans_of ?h m))"
    "tran_abort (trans_store ?h' t) \<longleftrightarrow>
       tran_abort (trans_store ?h t) \<or> t \<in> set (trans_queue (trans_of ?h (VdevNode v)))"
    "tran_event (trans_store ?h' t) \<longleftrightarrow>
       tran_event (trans_store ?h t) \<or> t \<in> set (trans_queue (trans_of ?h (VdevNode v)))" for m t
    by (simp_all add: dsc_vdev_destroy_def dsc_ops_deinit_def dsc_trans_deinit_def Let_def trans_flush_sel)
  have other: "v \<notin> set (psoc_vdevs (psocs ?h q))" if "q \<in> set (driver_psocs (drivers ?h d))" "q \<noteq> p" for q
    using tree_wfD(3) [OF wf p] tree_wfD(3) [OF wf that(1), of v] that(2) by auto
  note dist = tree_wfD(2) [OF wf p(1)]
  have up: "VdevNode v \<notin> set (dsc_ancestors ?h m)" for m by (cases m) auto
  have nodes: "set (dsc_nodes d ?h') = set (dsc_nodes d ?h) - {VdevNode v}"
    using dist other by (auto simp: dsc_nodes_def links split: if_splits)
  have anc: "dsc_ancestors ?h' m = dsc_ancestors ?h m" for m
    by (cases m) (auto simp: links vdev_driver_def)
  have wf': "tree_wf d ?h'" using wf by (auto simp: tree_wf_def links)
  have sub: "set (dsc_subtree ?h' m) = set (dsc_subtree ?h m) - (if m = VdevNode v then {} else {VdevNode v})"
    if "m \<in> set (dsc_nodes d ?h)" for m
    using that nodes other dist by - (cases m; auto simp: links)
  show ?thesis
    by (rule inv_removed [OF inv n idle fl nf up wf' _ nodes anc sub])
      (use links panic sys_invD(3) [OF inv] idle in \<open>auto simp: tr dsc_trans_active_def\<close>)
qed

text \<open>A created node joins the tree idle, with an empty queue and no operation in flight.\<close>

lemma inv_added:
  assumes inv: "sys_inv dbg d \<sigma>" and n: "n \<notin> set (dsc_nodes d (heap \<sigma>))"
    and nodes: "set (dsc_nodes d h') = insert n (set (dsc_nodes d (heap \<sigma>)))"
    and wf': "tree_wf d h'" and panic: "dsc_panic h' = dsc_panic (heap \<sigma>)"
    and anc: "\<And>m. m \<in> set (dsc_nodes d (heap \<sigma>)) \<Longrightarrow> dsc_ancestors h' m = dsc_ancestors (heap \<sigma>) m"
    and sub: "\<And>m. m \<in> set (dsc_nodes d (heap \<sigma>)) \<Longrightarrow>
        set (dsc_subtree (heap \<sigma>) m) \<subseteq> set (dsc_subtree h' m) \<and>
        set (dsc_subtree h' m) \<subseteq> insert n (set (dsc_subtree (heap \<sigma>) m))"
    and new: "trans_of h' n = \<lparr>active_desc = None, trans_queue = []\<rparr>"
      "ops_of h' n = \<lparr>ops_list = [], ops_count = 0, ops_event = False\<rparr>"
    and old: "\<And>m. m \<noteq> n \<Longrightarrow> trans_of h' m = trans_of (heap \<sigma>) m"
      "\<And>m. m \<noteq> n \<Longrightarrow> ops_of h' m = ops_of (heap \<sigma>) m" "trans_store h' = trans_store (heap \<sigma>)"
    and up: "\<And>m. m \<in> set (dsc_ancestors h' n) \<Longrightarrow> m \<noteq> n"
  shows "sys_inv dbg d (\<sigma>\<lparr>heap := h'\<rparr>)"
proof -
  let ?h = "heap \<sigma>" and ?\<sigma>' = "\<sigma>\<lparr>heap := h'\<rparr>"
  note g = sys_invD(5) [OF inv] and iq = sys_invD(4) [OF inv]
  have new': "\<not> dsc_trans_active n h'" "\<not> dsc_trans_queued n h'"
    by (simp_all add: dsc_trans_active_def dsc_trans_queued_def new)
  have act: "dsc_trans_active m h' = dsc_trans_active m ?h" "dsc_trans_queued m h' = dsc_trans_queued m ?h"
    "trans_queue (trans_of h' m) = trans_queue (trans_of ?h m)" "ops_of h' m = ops_of ?h m"
    if "m \<in> set (dsc_nodes d ?h)" for m
    using that n old by (metis dsc_trans_active_def dsc_trans_queued_def)+
  have fl: "in_flight \<sigma> n = {#}" using sys_invD(6) [OF inv] n by (simp add: inv_ops_def)
  have gr: "granted ?\<sigma>' = granted \<sigma>" by (simp add: fun_eq_iff granted_def old)
  have ti: "tree_excl d ?h" "tree_pend d ?h" using sys_invD(1) [OF inv] by (simp_all add: tree_inv_def)
  have up': "k \<in> set (dsc_nodes d ?h)" if "m \<in> set (dsc_nodes d ?h)" "k \<in> set (dsc_ancestors ?h m)" for m k
    using that tree_wfD [OF sys_invD(2) [OF inv]] by - (cases m; auto)
  have "tree_excl d h'"
    unfolding tree_excl_def nodes
  proof (intro ballI)
    fix m k assume "m \<in> insert n (set (dsc_nodes d ?h))" "k \<in> set (dsc_ancestors h' m)"
    then show "\<not> (dsc_trans_active m h' \<and> dsc_trans_active k h')"
      using ti(1) new'(1) act(1) anc up' unfolding tree_excl_def by fastforce
  qed
  moreover have "tree_pend d h'"
    unfolding tree_pend_def nodes
  proof (intro ballI impI)
    fix m assume "m \<in> insert n (set (dsc_nodes d ?h))" and q: "dsc_trans_queued m h'"
    then have m: "m \<in> set (dsc_nodes d ?h)" using new'(2) by auto
    then have "dsc_trans_queued m ?h" using q act(2) by simp
    with m ti(2) consider "dsc_trans_active m ?h"
      | (up) k where "k \<in> set (dsc_ancestors ?h m)" "dsc_trans_active_or_queued k ?h"
      | (down) k where "k \<in> set (dsc_nodes d ?h)" "m \<in> set (dsc_ancestors ?h k)" "dsc_trans_active k ?h"
      unfolding tree_pend_def by blast
    then show "dsc_trans_active m h' \<or> (\<exists>k\<in>set (dsc_ancestors h' m). dsc_trans_active_or_queued k h') \<or>
        (\<exists>k\<in>insert n (set (dsc_nodes d ?h)). m \<in> set (dsc_ancestors h' k) \<and> dsc_trans_active k h')"
    proof cases
      case up
      then have "dsc_trans_active_or_queued k h'"
        using up' [OF m] act(1,2) by (simp add: dsc_trans_active_or_queued_def)
      then show ?thesis using up anc [OF m] by auto
    qed (use m act(1) anc in auto)
  qed
  ultimately have "inv_tree d ?\<sigma>'"
    using wf' panic sys_invD(3) [OF inv] by (simp add: inv_tree_def tree_inv_def)
  moreover have "inv_queue d ?\<sigma>'"
    unfolding inv_queue_def
  proof (intro conjI ballI allI impI)
    fix i m t assume "pc_of ?\<sigma>' i = Waiting m t"
    then show "tran_event (trans_store (heap ?\<sigma>') t) \<or> m \<in> set (dsc_nodes d (heap ?\<sigma>')) \<and>
        t \<in> set (trans_queue (trans_of (heap ?\<sigma>') m))"
      using inv_queueD(4) [OF iq, of i m t] act(3) [of m] by (auto simp: nodes old)
  qed (use inv_queueD [OF iq] act(3) in \<open>auto simp: nodes new old\<close>)
  moreover have "inv_grant d ?\<sigma>'"
    using g new'(1) act(1) unfolding inv_grant_def gr by (auto simp: nodes)
  moreover have "inv_ops dbg d ?\<sigma>'"
    using sys_invD(6) [OF inv] act(4) new(2) fl by (auto simp: inv_ops_def nodes)
  moreover have "inv_flush ?\<sigma>'"
  proof (rule inv_flush_keep [OF sys_invD(7) [OF inv]])
    fix i m ks assume r: "flush_rest \<sigma> i m ks"
    then show "flush_rest ?\<sigma>' i m ks"
      using sub [OF ownerD(1) [OF g flush_restD(1) [OF r]]] fl unfolding flush_rest_def by auto
  next
    fix i m k ms assume r: "flush_rest \<sigma> i m (k # ms)"
      and "ops_event (ops_of ?h k) = (in_flight \<sigma> k = {#})"
    moreover have "k \<in> set (dsc_nodes d ?h)"
      using in_subtree [OF sys_invD(2) [OF inv] ownerD(1) [OF g flush_restD(1) [OF r]]] flush_restD(2) [OF r] by simp
    ultimately show "ops_event (ops_of (heap ?\<sigma>') k) = (in_flight ?\<sigma>' k = {#})" using act(4) by simp
  qed simp_all
  ultimately show ?thesis by (simp add: sys_inv_def)
qed

lemma inv_psoc_create:
  assumes inv: "sys_inv dbg d \<sigma>" and n: "PsocNode p \<notin> set (dsc_nodes d (heap \<sigma>))"
    and c: "dsc_psoc_create (Some d) True (Some p) (heap \<sigma>) = (st, out, h')"
  shows "sys_inv dbg d (\<sigma>\<lparr>heap := h'\<rparr>)"
proof -
  let ?h = "heap \<sigma>"
  note wf = sys_invD(2) [OF inv]
  have links: "drivers h' = (drivers ?h)(d := \<lparr>driver_psocs = driver_psocs (drivers ?h d) @ [p]\<rparr>)"
    "psocs h' = (psocs ?h)(p := \<lparr>psoc_driver = d, psoc_vdevs = []\<rparr>)" "vdevs h' = vdevs ?h"
    and rest: "trans_of h' = (trans_of ?h)(PsocNode p := \<lparr>active_desc = None, trans_queue = []\<rparr>)"
    "ops_of h' = (ops_of ?h)(PsocNode p := \<lparr>ops_list = [], ops_count = 0, ops_event = False\<rparr>)"
    "trans_store h' = trans_store ?h" "dsc_panic h' = dsc_panic ?h"
    using c by (auto simp: dsc_psoc_create_def dsc_trans_init_def dsc_ops_init_def upd_trans_def upd_ops_def Let_def)
  have p: "p \<notin> set (driver_psocs (drivers ?h d))" using n by simp
  have ps: "psocs h' q = psocs ?h q" if "q \<in> set (driver_psocs (drivers ?h d))" for q
    using p that by (auto simp: links)
  have nodes: "set (dsc_nodes d h') = insert (PsocNode p) (set (dsc_nodes d ?h))"
    using ps by (auto simp: dsc_nodes_def links(1)) (auto simp: links)
  have anc: "dsc_ancestors h' m = dsc_ancestors ?h m" if "m \<in> set (dsc_nodes d ?h)" for m
    using that tree_wfD(3) [OF wf] p by - (cases m; auto simp: links vdev_driver_def)
  have sub: "set (dsc_subtree ?h m) \<subseteq> set (dsc_subtree h' m) \<and>
        set (dsc_subtree h' m) \<subseteq> insert (PsocNode p) (set (dsc_subtree ?h m))"
    if "m \<in> set (dsc_nodes d ?h)" for m
    using that nodes ps by - (cases m; auto)
  have "tree_wf d h'" using wf p by (auto simp: tree_wf_def links)
  then show ?thesis
    by (rule inv_added [OF inv n nodes _ _ anc sub]) (auto simp: rest)
qed

lemma inv_vdev_create:
  assumes inv: "sys_inv dbg d \<sigma>" and p: "PsocNode p \<in> set (dsc_nodes d (heap \<sigma>))"
    and n: "VdevNode v \<notin> set (dsc_nodes d (heap \<sigma>))"
    and c: "dsc_vdev_create (Some p) True (Some v) (heap \<sigma>) = (st, out, h')"
  shows "sys_inv dbg d (\<sigma>\<lparr>heap := h'\<rparr>)"
proof -
  let ?h = "heap \<sigma>"
  note wf = sys_invD(2) [OF inv]
  have links: "drivers h' = drivers ?h"
    "psocs h' = (psocs ?h)(p := (psocs ?h p)\<lparr>psoc_vdevs := psoc_vdevs (psocs ?h p) @ [v]\<rparr>)"
    "vdevs h' = (vdevs ?h)(v := \<lparr>vdev_psoc = p, nb_cmd_during_ssr = 0\<rparr>)"
    and rest: "trans_of h' = (trans_of ?h)(VdevNode v := \<lparr>active_desc = None, trans_queue = []\<rparr>)"
    "ops_of h' = (ops_of ?h)(VdevNode v := \<lparr>ops_list = [], ops_count = 0, ops_event = False\<rparr>)"
    "trans_store h' = trans_store ?h" "dsc_panic h' = dsc_panic ?h"
    using c by (auto simp: dsc_vdev_create_def dsc_trans_init_def dsc_ops_init_def upd_trans_def upd_ops_def Let_def)
  have nodes: "set (dsc_nodes d h') = insert (VdevNode v) (set (dsc_nodes d ?h))"
    using p by (auto simp: dsc_nodes_def links split: if_splits)
  have anc: "dsc_ancestors h' m = dsc_ancestors ?h m" if "m \<in> set (dsc_nodes d ?h)" for m
    using that n by - (cases m; auto simp: links vdev_driver_def)
  have sub: "set (dsc_subtree ?h m) \<subseteq> set (dsc_subtree h' m) \<and>
        set (dsc_subtree h' m) \<subseteq> insert (VdevNode v) (set (dsc_subtree ?h m))"
    if "m \<in> set (dsc_nodes d ?h)" for m
    using that nodes by - (cases m; auto simp: links)
  have "tree_wf d h'" using wf p n by (auto simp: tree_wf_def links)
  then show ?thesis
    by (rule inv_added [OF inv n nodes _ _ anc sub]) (auto simp: rest)
qed

section \<open>Every reachable state satisfies the invariant\<close>

lemma dsc_step_inv:
  assumes "dsc_step dbg d \<sigma> \<sigma>'" and "sys_inv dbg d \<sigma>"
  shows "sys_inv dbg d \<sigma>'"
  using assms
proof (cases rule: dsc_step.cases)
  case (start n e i desc st h') with assms(2) show ?thesis by (simp add: inv_start_at)
next
  case (start_wait n e i t desc r h') with assms(2) show ?thesis by (simp only: inv_start_wait_at)
next
  case (wake i n t st) with assms(2) show ?thesis by (simp only: inv_wake)
next
  case (stop n e i) with assms(2) show ?thesis by (simp only: inv_stop)
next
  case (op_start n e func st h') with assms(2) show ?thesis by (simp only: inv_op_start)
next
  case (op_stop n e func) with assms(2) show ?thesis by (simp only: inv_op_stop)
next
  case (flush n i) with assms(2) show ?thesis by (simp only: inv_flush_steps(1))
next
  case (flush_enter i n m ms wait h') with assms(2) show ?thesis by (simp only: inv_flush_enter)
next
  case (flush_wake i n m ms) with assms(2) show ?thesis by (simp only: inv_flush_steps(2))
next
  case (flush_done i n) with assms(2) show ?thesis by (simp only: inv_flush_steps(3))
next
  case (create_psoc p st out h') with assms(2) show ?thesis by (simp only: inv_psoc_create)
next
  case (create_vdev p v st out h') with assms(2) show ?thesis by (simp only: inv_vdev_create)
next
  case (destroy_psoc p) with assms(2) show ?thesis by (blast intro: inv_psoc_destroy)
next
  case (destroy_vdev v) with assms(2) show ?thesis by (blast intro: inv_vdev_destroy)
qed

lemma dsc_reach_inv: "dsc_reach dbg d \<sigma> \<Longrightarrow> sys_inv dbg d \<sigma>"
  by (induction rule: dsc_reach.induct) (auto intro: dsc_init_inv dsc_step_inv)

end
