(* ===== verification/Dsc_Props.thy ===== *)
theory Dsc_Props
  imports Dsc_Threads
begin

text \<open>
  What the synchronisation core promises its callers, for every interleaving of
  the calls of any number of threads: exclusion of related transitions, no
  failing assertion, no forgotten waiter, first-in-first-out service with
  priority for the upper levels, and silence of the operations below a node
  that has been flushed.
\<close>

section \<open>Safety\<close>

text \<open>C1. Two related nodes are never owned at the same time: while a thread holds the transition
  of a node, no thread holds the transition of one of the node's ancestors.\<close>

theorem dsc_owners_exclusive:
  assumes "dsc_reach dbg d \<sigma>" and "m \<in> set (dsc_ancestors (heap \<sigma>) n)"
  shows "owner \<sigma> n = None \<or> owner \<sigma> m = None"
proof (rule ccontr)
  assume "\<not> ?thesis"
  then obtain i j where o: "owner \<sigma> n = Some i" "owner \<sigma> m = Some j" by auto
  note inv = dsc_reach_inv [OF assms(1)]
  have "tree_excl d (heap \<sigma>)" using sys_invD(1) [OF inv] by (simp add: tree_inv_def)
  then show False
    using ownerD(1,2) [OF sys_invD(5) [OF inv] o(1)] ownerD(2) [OF sys_invD(5) [OF inv] o(2)] assms(2)
    by (auto simp: tree_excl_def)
qed

text \<open>C5. No assertion of the component fires in a run that keeps the contract of the callers: in the release
  build whatever the environment does, and in the debug build as long as the timers of transitions can
  be set up.  The condition is needed: where that fails while a queued transition is triggered, its
  thread is told success on a node that is not in transition, and when the thread stops the transition
  the assertion of the stop fires.\<close>

theorem dsc_no_panic:
  assumes "dsc_reach dbg d \<sigma>"
  shows "\<not> dsc_panic (heap \<sigma>) \<and> (\<forall>e. \<not> wlan_dsc_debug e \<longrightarrow> env_ok e) \<and>
    (\<forall>e n h t ts. trans_queue (trans_of h n) = t # ts \<and> \<not> tran_abort (trans_store h t) \<and> \<not> dsc_trans_active n h \<and>
       dsc_dbg_trans_timeout_start e n \<noteq> QDF_STATUS_SUCCESS \<longrightarrow>
       (let h' = snd (dsc_trans_trigger e n h) in
        dsc_tran_wait QDF_STATUS_SUCCESS t h' = Some QDF_STATUS_SUCCESS \<and> dsc_panic (dsc_trans_stop n h')))"
  using sys_invD(3) [OF dsc_reach_inv [OF assms]]
  by (auto simp: env_ok_def dsc_dbg_trans_timeout_start_def dsc_trans_trigger_def dsc_trans_dequeue_def
      dsc_trans_start_def dsc_trans_stop_def dsc_tran_wait_def dsc_trans_active_def Let_def)

text \<open>C3. After the owner of a node has returned from waiting for operations, and until it stops its
  transition, no operation is in flight on any node below it and none can be started there.\<close>

theorem dsc_flushed_silent:
  assumes r: "dsc_reach dbg d \<sigma>" and f: "flushed \<sigma> n" and m: "m \<in> set (dsc_subtree (heap \<sigma>) n)"
  shows "ops_count (ops_of (heap \<sigma>) m) = 0 \<and>
     fst (dsc_op_start_at e m func (heap \<sigma>)) \<in> {QDF_STATUS_E_AGAIN, QDF_STATUS_E_INVAL}"
proof -
  note inv = dsc_reach_inv [OF r]
  obtain i where fr: "flush_rest \<sigma> i n []" using inv_flushD(4) [OF sys_invD(7) [OF inv] f] by blast
  note own = flush_restD(1) [OF fr] and o = ownerD(1) [OF sys_invD(5) [OF inv] flush_restD(1) [OF fr]]
  have mn: "m \<in> set (dsc_nodes d (heap \<sigma>))" using in_subtree [OF sys_invD(2) [OF inv] o] m by simp
  have "in_flight \<sigma> m = {#}" using flush_restD(3) [OF fr m] by simp
  then have "ops_count (ops_of (heap \<sigma>) m) = 0" by (rule no_ops_count [OF inv mn])
  moreover have "dsc_can_at e m (heap \<sigma>) \<noteq> QDF_STATUS_SUCCESS"
    using can_at_outside [OF inv mn, of e n] own m by auto
  ultimately show ?thesis using can_at_range [of e m "heap \<sigma>"] by (auto simp: op_start_at_eq)
qed

section \<open>Waiting threads\<close>

text \<open>C4. No waiter is forgotten: while a thread waits for a transition that has not been handed to
  it, some node of the tree is in transition on behalf of a thread that can still act: one that owns
  the node, or one that has been woken up for it.\<close>

theorem dsc_no_lost_wakeup:
  assumes r: "dsc_reach dbg d \<sigma>" and pc: "pc_of \<sigma> i = Waiting n t"
    and ev: "dsc_tran_wait QDF_STATUS_SUCCESS t (heap \<sigma>) = None"
  shows "\<exists>m \<in> set (dsc_nodes d (heap \<sigma>)). owner \<sigma> m \<noteq> None \<or>
     (\<exists>j u. pc_of \<sigma> j = Waiting m u \<and>
        dsc_tran_wait QDF_STATUS_SUCCESS u (heap \<sigma>) = Some QDF_STATUS_SUCCESS)"
proof -
  note inv = dsc_reach_inv [OF r]
  have pend: "tree_pend d (heap \<sigma>)" using sys_invD(1) [OF inv] by (simp add: tree_inv_def)
  have "\<not> tran_event (trans_store (heap \<sigma>) t)" using ev by (auto simp: dsc_tran_wait_def split: if_splits)
  then have n: "n \<in> set (dsc_nodes d (heap \<sigma>))" "dsc_trans_queued n (heap \<sigma>)"
    using inv_queueD(4) [OF sys_invD(4) [OF inv] pc] by (auto simp: dsc_trans_queued_def)
  then obtain m where m: "m \<in> set (dsc_nodes d (heap \<sigma>))" "dsc_trans_active m (heap \<sigma>)"
    using pend_active [OF sys_invD(2) [OF inv] pend] by blast
  then have "owner \<sigma> m \<noteq> None \<or> (\<exists>j u. granted \<sigma> m j u)"
    using sys_invD(5) [OF inv] by (simp add: inv_grant_def)
  then show ?thesis
    using m(1) by (force simp: granted_def dsc_tran_wait_def)
qed

section \<open>Draining\<close>

text \<open>
  The steps that finish what has been requested: a thread whose event is set
  returns from its wait, a flush of operations goes on, an operation in flight
  ends, and an owner that is not inside a call stops its transition.
\<close>

inductive dsc_drain :: "bool \<Rightarrow> ptr \<Rightarrow> sys \<Rightarrow> sys \<Rightarrow> bool" for dbg d where
  drain_wake:
    "pc_of \<sigma> i = Waiting n t \<Longrightarrow> dsc_tran_wait QDF_STATUS_SUCCESS t (heap \<sigma>) = Some st \<Longrightarrow>
     dsc_drain dbg d \<sigma> (\<sigma>\<lparr>pc_of := (pc_of \<sigma>)(i := Running),
       owner := (if st = QDF_STATUS_SUCCESS then (owner \<sigma>)(n := Some i) else owner \<sigma>)\<rparr>)"
| drain_stop:
    "n \<in> set (dsc_nodes d (heap \<sigma>)) \<Longrightarrow> env_ok e \<Longrightarrow> wlan_dsc_debug e = dbg \<Longrightarrow>
     pc_of \<sigma> i = Running \<Longrightarrow> owner \<sigma> n = Some i \<Longrightarrow>
     dsc_drain dbg d \<sigma> (\<sigma>\<lparr>heap := dsc_stop_at e n (heap \<sigma>), owner := (owner \<sigma>)(n := None),
       flushed := (flushed \<sigma>)(n := False)\<rparr>)"
| drain_op_stop:
    "n \<in> set (dsc_nodes d (heap \<sigma>)) \<Longrightarrow> wlan_dsc_debug e = dbg \<Longrightarrow> func \<in># in_flight \<sigma> n \<Longrightarrow>
     dsc_drain dbg d \<sigma> (\<sigma>\<lparr>heap := dsc_op_stop_at e n func (heap \<sigma>),
       in_flight := (in_flight \<sigma>)(n := in_flight \<sigma> n - {#func#})\<rparr>)"
| drain_flush_enter:
    "pc_of \<sigma> i = Flushing n (m # ms) \<Longrightarrow> dsc_wait_at m (heap \<sigma>) = (wait, h') \<Longrightarrow>
     dsc_drain dbg d \<sigma> (\<sigma>\<lparr>heap := h',
       pc_of := (pc_of \<sigma>)(i := if wait then FlushWait n m ms else Flushing n ms)\<rparr>)"
| drain_flush_wake:
    "pc_of \<sigma> i = FlushWait n m ms \<Longrightarrow> ops_event (ops_of (heap \<sigma>) m) \<Longrightarrow>
     dsc_drain dbg d \<sigma> (\<sigma>\<lparr>pc_of := (pc_of \<sigma>)(i := Flushing n ms)\<rparr>)"
| drain_flush_done:
    "pc_of \<sigma> i = Flushing n [] \<Longrightarrow>
     dsc_drain dbg d \<sigma> (\<sigma>\<lparr>pc_of := (pc_of \<sigma>)(i := Running), flushed := (flushed \<sigma>)(n := True)\<rparr>)"

lemma drain_is_step: "dsc_drain dbg d \<sigma> \<sigma>' \<Longrightarrow> dsc_step dbg d \<sigma> \<sigma>'"
  by (induction rule: dsc_drain.induct) (blast intro: dsc_step.intros)+

definition busy_threads :: "sys \<Rightarrow> thread set" where
  "busy_threads \<sigma> = {i. pc_of \<sigma> i \<noteq> Running}"

lemma step_one_thread: "dsc_step dbg d \<sigma> \<sigma>' \<Longrightarrow> \<exists>i. \<forall>j. j \<noteq> i \<longrightarrow> pc_of \<sigma>' j = pc_of \<sigma> j"
  by (induction rule: dsc_step.induct) (auto split: dsc_start.splits)

lemma reach_finite_busy: "dsc_reach dbg d \<sigma> \<Longrightarrow> finite (busy_threads \<sigma>)"
proof (induction rule: dsc_reach.induct)
  case (reach_init \<sigma>)
  then show ?case by (auto simp: busy_threads_def elim: dsc_init.cases)
next
  case (reach_step \<sigma> \<sigma>')
  then obtain i where "\<forall>j. j \<noteq> i \<longrightarrow> pc_of \<sigma>' j = pc_of \<sigma> j" using step_one_thread by blast
  then have "busy_threads \<sigma>' \<subseteq> insert i (busy_threads \<sigma>)" by (auto simp: busy_threads_def)
  then show ?case using reach_step.IH finite_subset by blast
qed

text \<open>The work that is left: on the nodes, in the operations in flight, and in the threads.\<close>

definition node_work :: "dsc \<Rightarrow> dsc_node \<Rightarrow> nat" where
  "node_work h n = 2 * length (trans_queue (trans_of h n)) + (if dsc_trans_active n h then 1 else 0)"

fun pc_work :: "pc \<Rightarrow> nat" where
  "pc_work Running = 0"
| "pc_work (Waiting n t) = 1"
| "pc_work (Flushing n ms) = 2 * length ms + 1"
| "pc_work (FlushWait n m ms) = 2 * length ms + 2"

definition tree_work :: "ptr \<Rightarrow> sys \<Rightarrow> nat" where
  "tree_work d \<sigma> = (\<Sum>n \<in> set (dsc_nodes d (heap \<sigma>)). node_work (heap \<sigma>) n + size (in_flight \<sigma> n))"

definition drain_work :: "ptr \<Rightarrow> sys \<Rightarrow> nat" where
  "drain_work d \<sigma> = tree_work d \<sigma> + (\<Sum>i \<in> busy_threads \<sigma>. pc_work (pc_of \<sigma> i))"

lemma thread_work_decreases:
  assumes f: "finite (busy_threads \<sigma>)" and pc: "pc_of \<sigma>' = (pc_of \<sigma>)(i := c)"
    and w: "pc_work c < pc_work (pc_of \<sigma> i)" and tree: "tree_work d \<sigma>' = tree_work d \<sigma>"
  shows "drain_work d \<sigma>' < drain_work d \<sigma>"
proof -
  have i: "i \<in> busy_threads \<sigma>" using w by (auto simp: busy_threads_def)
  have "(\<Sum>j \<in> busy_threads \<sigma>'. pc_work (pc_of \<sigma>' j)) = (\<Sum>j \<in> busy_threads \<sigma>. pc_work (pc_of \<sigma>' j))"
    by (rule sum.mono_neutral_left [OF f]) (use i pc in \<open>auto simp: busy_threads_def split: if_splits\<close>)
  also have "\<dots> < (\<Sum>j \<in> busy_threads \<sigma>. pc_work (pc_of \<sigma> j))"
    by (rule sum_strict_mono_ex1 [OF f]) (use i w pc in auto)
  finally show ?thesis by (simp add: drain_work_def tree)
qed

lemma tree_work_decreases:
  assumes "pc_of \<sigma>' = pc_of \<sigma>" "dsc_nodes d (heap \<sigma>') = dsc_nodes d (heap \<sigma>)" "n \<in> set (dsc_nodes d (heap \<sigma>))"
    and "\<And>m. node_work (heap \<sigma>') m + size (in_flight \<sigma>' m) \<le> node_work (heap \<sigma>) m + size (in_flight \<sigma> m)"
    and "node_work (heap \<sigma>') n + size (in_flight \<sigma>' n) < node_work (heap \<sigma>) n + size (in_flight \<sigma> n)"
  shows "drain_work d \<sigma>' < drain_work d \<sigma>"
proof -
  have "tree_work d \<sigma>' < tree_work d \<sigma>"
    unfolding tree_work_def assms(2) by (rule sum_strict_mono_ex1) (use assms(3-5) in blast)+
  then show ?thesis by (simp add: drain_work_def busy_threads_def assms(1))
qed

lemma stop_node_work:
  assumes inv: "sys_inv dbg d \<sigma>" and n: "n \<in> set (dsc_nodes d (heap \<sigma>))" and e: "env_ok e"
  shows "node_work (dsc_stop_at e n (heap \<sigma>)) m \<le> node_work (heap \<sigma>) m"
    and "dsc_trans_active n (heap \<sigma>) \<Longrightarrow> node_work (dsc_stop_at e n (heap \<sigma>)) n < node_work (heap \<sigma>) n"
proof -
  note eff = stop_at_effect [OF inv n e refl]
  show "node_work (dsc_stop_at e n (heap \<sigma>)) m \<le> node_work (heap \<sigma>) m"
    by (cases "trans_queue (trans_of (heap \<sigma>) m)") (auto simp: node_work_def eff dsc_trans_queued_def)
  show "node_work (dsc_stop_at e n (heap \<sigma>)) n < node_work (heap \<sigma>) n" if "dsc_trans_active n (heap \<sigma>)"
    using that by (cases "trans_queue (trans_of (heap \<sigma>) n)") (auto simp: node_work_def eff dsc_trans_queued_def)
qed

lemma wait_at_frame:
  "drivers (snd (dsc_wait_at m s)) = drivers s" "psocs (snd (dsc_wait_at m s)) = psocs s"
  "trans_of (snd (dsc_wait_at m s)) = trans_of s"
  by (cases m; simp add: dsc_driver_wait_for_ops_def dsc_psoc_wait_for_ops_def dsc_vdev_wait_for_ops_def
      dsc_wait_enter_def Let_def)+

lemma op_stop_frame:
  "drivers (dsc_op_stop_at e n func s) = drivers s" "psocs (dsc_op_stop_at e n func s) = psocs s"
  "trans_of (dsc_op_stop_at e n func s) = trans_of s"
  unfolding op_stop_at_eq
  by (simp_all add: dsc_op_stop_node_def dsc_ops_remove_def dsc_dbg_ops_remove_def Let_def)

lemma drain_decreases:
  assumes "dsc_reach dbg d \<sigma>" and "dsc_drain dbg d \<sigma> \<sigma>'"
  shows "drain_work d \<sigma>' < drain_work d \<sigma>"
  using assms(2)
proof (cases rule: dsc_drain.cases)
  case (drain_wake i n t st)
  show ?thesis
    by (rule thread_work_decreases [OF reach_finite_busy [OF assms(1)], of _ i Running])
      (simp_all add: drain_wake tree_work_def)
next
  case (drain_stop n e i)
  note inv = dsc_reach_inv [OF assms(1)]
  have "dsc_trans_active n (heap \<sigma>)" using ownerD(2) [OF sys_invD(5) [OF inv]] drain_stop by blast
  then show ?thesis
    by (intro tree_work_decreases [of _ _ _ n])
      (simp_all add: drain_stop stop_node_work [OF inv] stop_at_effect(6) [OF inv drain_stop(2,3) refl])
next
  case (drain_op_stop n e func)
  have "dsc_nodes d (heap \<sigma>') = dsc_nodes d (heap \<sigma>)"
    by (rule dsc_nodes_cong) (simp_all add: drain_op_stop op_stop_frame)
  then show ?thesis
    by (intro tree_work_decreases [of _ _ _ n])
      (use drain_op_stop in \<open>auto simp: op_stop_frame node_work_def dsc_trans_active_def size_Diff1_le
         simp del: size_Diff_singleton_if intro: size_Diff1_less\<close>)
next
  case (drain_flush_enter i n m ms wait h')
  have h': "h' = snd (dsc_wait_at m (heap \<sigma>))" using drain_flush_enter(3) by simp
  then have "dsc_nodes d h' = dsc_nodes d (heap \<sigma>)" by (intro dsc_nodes_cong) (simp_all add: wait_at_frame)
  then show ?thesis
    by (intro thread_work_decreases [OF reach_finite_busy [OF assms(1)], of _ i "if wait then FlushWait n m ms else Flushing n ms"])
      (simp_all add: drain_flush_enter(1,2) tree_work_def node_work_def dsc_trans_active_def h' wait_at_frame)
next
  case (drain_flush_wake i n m ms)
  show ?thesis
    by (rule thread_work_decreases [OF reach_finite_busy [OF assms(1)], of _ i "Flushing n ms"])
      (simp_all add: drain_flush_wake tree_work_def)
next
  case (drain_flush_done i n)
  show ?thesis
    by (rule thread_work_decreases [OF reach_finite_busy [OF assms(1)], of _ i Running])
      (simp_all add: drain_flush_done tree_work_def)
qed

definition dsc_env_default :: "bool \<Rightarrow> dsc_env" where
  "dsc_env_default dbg = \<lparr>wlan_dsc_debug = dbg, op_malloc = True, op_timer_init = QDF_STATUS_SUCCESS,
     trans_timer_init = (\<lambda>_. QDF_STATUS_SUCCESS), tran_timer_init = QDF_STATUS_SUCCESS,
     qdf_is_recovering = False, qdf_is_driver_unloading = False\<rparr>"

lemma env_default_ok: "env_ok (dsc_env_default dbg)" "wlan_dsc_debug (dsc_env_default dbg) = dbg"
  by (simp_all add: dsc_env_default_def env_ok_def dsc_dbg_trans_timeout_start_def)

text \<open>No thread waits for a transition while it owns a node; draining keeps it so.\<close>

definition no_owner_waits :: "sys \<Rightarrow> bool" where
  "no_owner_waits \<sigma> \<longleftrightarrow> (\<forall>n i m t. owner \<sigma> n = Some i \<longrightarrow> pc_of \<sigma> i \<noteq> Waiting m t)"

lemma drain_no_owner_waits: "dsc_drain dbg d \<sigma> \<sigma>' \<Longrightarrow> no_owner_waits \<sigma> \<Longrightarrow> no_owner_waits \<sigma>'"
  by (induction rule: dsc_drain.induct) (auto simp: no_owner_waits_def split: if_splits)

lemma drains:
  assumes "(dsc_drain dbg d)\<^sup>*\<^sup>* \<sigma> \<sigma>'" "dsc_reach dbg d \<sigma>" "no_owner_waits \<sigma>"
  shows "dsc_reach dbg d \<sigma>' \<and> no_owner_waits \<sigma>'"
  using assms by (induction rule: rtranclp_induct) (blast intro: reach_step drain_is_step drain_no_owner_waits)+

text \<open>Where no step of a drain is possible no call is going on.\<close>

lemma drained:
  assumes r: "dsc_reach dbg d \<sigma>" and own: "no_owner_waits \<sigma>" and stuck: "\<And>\<sigma>'. \<not> dsc_drain dbg d \<sigma> \<sigma>'"
  shows "in_flight \<sigma> n = {#}" and "owner \<sigma> n = None" and "pc_of \<sigma> i = Running \<or> (\<exists>n t. pc_of \<sigma> i = Waiting n t)"
proof -
  note inv = dsc_reach_inv [OF r]
  show fl: "in_flight \<sigma> n = {#}" for n
  proof (cases "n \<in> set (dsc_nodes d (heap \<sigma>))")
    case True
    then show ?thesis
      using stuck drain_op_stop [of n d \<sigma> "dsc_env_default dbg" dbg] env_default_ok(2) by (metis multiset_nonemptyE)
  qed (use sys_invD(6) [OF inv] in \<open>simp add: inv_ops_def\<close>)
  show pc: "pc_of \<sigma> i = Running \<or> (\<exists>n t. pc_of \<sigma> i = Waiting n t)" for i
  proof (cases "pc_of \<sigma> i")
    case (Flushing n ms)
    then show ?thesis
      using stuck drain_flush_done drain_flush_enter [of \<sigma> i n _ _ _ _ dbg d] by (cases ms) (metis surj_pair)+
  next
    case (FlushWait n m ms)
    then show ?thesis
      using stuck drain_flush_wake inv_flushD(3) [OF sys_invD(7) [OF inv]] fl by metis
  qed auto
  show "owner \<sigma> n = None"
  proof (cases "owner \<sigma> n")
    case (Some i)
    then have "pc_of \<sigma> i = Running" using own pc [of i] unfolding no_owner_waits_def by blast
    then show ?thesis
      using stuck drain_stop [of n d \<sigma> "dsc_env_default dbg" dbg] env_default_ok Some
        ownerD(1) [OF sys_invD(5) [OF inv] Some] by blast
  qed
qed

text \<open>C2. Every waiter returns, if no thread waits for a transition while it owns a node: runs that only
  return from waits, flush and end operations and stop owned transitions are finite, and where such a
  run can not go on every thread is outside the calls, nothing is owned, queued, in transition or in
  flight.\<close>

theorem dsc_drain_completes:
  shows "wfP (\<lambda>\<sigma>' \<sigma>. dsc_reach dbg d \<sigma> \<and> dsc_drain dbg d \<sigma> \<sigma>') \<and>
    (\<forall>\<sigma> \<sigma>'. dsc_reach dbg d \<sigma> \<and> no_owner_waits \<sigma> \<and> (dsc_drain dbg d)\<^sup>*\<^sup>* \<sigma> \<sigma>' \<and> (\<nexists>\<sigma>''. dsc_drain dbg d \<sigma>' \<sigma>'') \<longrightarrow>
       (\<forall>i. pc_of \<sigma>' i = Running) \<and> (\<forall>n. owner \<sigma>' n = None \<and> in_flight \<sigma>' n = {#}) \<and>
       (\<forall>n \<in> set (dsc_nodes d (heap \<sigma>')). \<not> dsc_trans_active_or_queued n (heap \<sigma>')))"
proof (intro conjI allI ballI impI)
  show "wfP (\<lambda>\<sigma>' \<sigma>. dsc_reach dbg d \<sigma> \<and> dsc_drain dbg d \<sigma> \<sigma>')"
    by (rule wfp_if_convertible_to_nat [where f = "drain_work d"]) (blast intro: drain_decreases)
next
  fix \<sigma>0 \<sigma>
  assume "dsc_reach dbg d \<sigma>0 \<and> no_owner_waits \<sigma>0 \<and> (dsc_drain dbg d)\<^sup>*\<^sup>* \<sigma>0 \<sigma> \<and> (\<nexists>\<sigma>'. dsc_drain dbg d \<sigma> \<sigma>')"
  then have r: "dsc_reach dbg d \<sigma>" and ow: "no_owner_waits \<sigma>" and stuck: "\<And>\<sigma>'. \<not> dsc_drain dbg d \<sigma> \<sigma>'"
    using drains by blast+
  note inv = dsc_reach_inv [OF r] and dr = drained [OF r ow stuck]
  have blocked: "dsc_tran_wait QDF_STATUS_SUCCESS t (heap \<sigma>) = None" if "pc_of \<sigma> i = Waiting n t" for i n t
    using stuck drain_wake [OF that] by (cases "dsc_tran_wait QDF_STATUS_SUCCESS t (heap \<sigma>)") blast+
  have ng: "\<not> granted \<sigma> n i t" for n i t
    using blocked [of i n t] by (auto simp: granted_def dsc_tran_wait_def split: if_splits)
  have idle: "\<not> dsc_trans_active n (heap \<sigma>)" if "n \<in> set (dsc_nodes d (heap \<sigma>))" for n
    using sys_invD(5) [OF inv] dr(2) ng that by (simp add: inv_grant_def)
  have pend: "tree_pend d (heap \<sigma>)" using sys_invD(1) [OF inv] by (simp add: tree_inv_def)
  have nq: "\<not> dsc_trans_queued n (heap \<sigma>)" if "n \<in> set (dsc_nodes d (heap \<sigma>))" for n
    using pend_active [OF sys_invD(2) [OF inv] pend that] idle by blast
  show "owner \<sigma> n = None" "in_flight \<sigma> n = {#}" for n by (rule dr(2), rule dr(1))
  show "pc_of \<sigma> i = Running" for i
    using dr(3) [of i] inv_queueD(4) [OF sys_invD(4) [OF inv]] blocked nq
    by (fastforce simp: dsc_tran_wait_def dsc_trans_queued_def split: if_splits)
  show "\<not> dsc_trans_active_or_queued n (heap \<sigma>)" if "n \<in> set (dsc_nodes d (heap \<sigma>))" for n
    using idle nq that by (simp add: dsc_trans_active_or_queued_def)
qed

section \<open>Order of service\<close>

text \<open>A stop serves the queues first in, first out and from the top of the tree down: a pending
  transition that it starts was the first of its queue, its thread is told success, the node shows
  its description, and no ancestor of the node had a pending transition.\<close>

theorem dsc_stop_order:
  assumes r: "dsc_reach dbg d \<sigma>" and own: "owner \<sigma> n = Some i" and e: "env_ok e"
    and before: "\<not> tran_event (trans_store (heap \<sigma>) t)"
    and after: "tran_event (trans_store (dsc_stop_at e n (heap \<sigma>)) t)"
  shows "\<exists>m. trans_queue (trans_of (heap \<sigma>) m) = t # trans_queue (trans_of (dsc_stop_at e n (heap \<sigma>)) m) \<and>
     dsc_tran_wait QDF_STATUS_SUCCESS t (dsc_stop_at e n (heap \<sigma>)) = Some QDF_STATUS_SUCCESS \<and>
     active_desc (trans_of (dsc_stop_at e n (heap \<sigma>)) m) = Some (tran_desc (trans_store (heap \<sigma>) t)) \<and>
     (\<forall>a \<in> set (dsc_ancestors (heap \<sigma>) m). \<not> dsc_trans_queued a (heap \<sigma>))"
proof -
  let ?h = "heap \<sigma>" and ?stopped = "dsc_trans_stop n (heap \<sigma>)"
  note inv = dsc_reach_inv [OF r]
  note n = ownerD(1,2) [OF sys_invD(5) [OF inv] own] and wf = sys_invD(2) [OF inv]
  note eff = stop_at_effect [OF inv n(1) e refl] and tr = stop_at_triggers [OF e wf n(1)]
  obtain m ts where m: "m \<in> stop_targets ?stopped n" and q: "trans_queue (trans_of ?h m) = t # ts"
    using before after eff(3) by blast
  have mn: "m \<in> set (dsc_nodes d ?h)"
    using stop_targets_idle(1) [OF sys_invD(1) [OF inv] n m] .
  have "\<not> tran_abort (trans_store ?h t)"
    using inv_queueD(3) [OF sys_invD(4) [OF inv] mn, of t] q by simp
  then have "dsc_tran_wait QDF_STATUS_SUCCESS t (dsc_stop_at e n ?h) = Some QDF_STATUS_SUCCESS"
    using after eff(4) by (simp add: dsc_tran_wait_def)
  moreover have "trans_of (dsc_stop_at e n ?h) m =
      \<lparr>active_desc = Some (tran_desc (trans_store ?h t)), trans_queue = ts\<rparr>"
    using triggers_trans_of [OF tr, of m] m q by (simp add: triggered_def trans_stop_sel)
  moreover have "\<not> dsc_trans_queued a ?h" if "a \<in> set (dsc_ancestors ?h m)" for a
    using stop_targets_first [of d ?stopped n m a] m n(1) wf that
    by (simp add: trans_stop_sel trans_stop_wf dsc_nodes_cong [of ?stopped d ?h] dsc_ancestors_cong [of ?stopped ?h])
  ultimately show ?thesis using q by (intro exI [of _ m]) simp
qed

section \<open>Requests and their status\<close>

lemma start_at_status: "env_ok e \<Longrightarrow> fst (dsc_start_at e n desc s) = dsc_can_at e n s"
  by (simp add: start_at_eq trans_start_ok)

text \<open>A start request succeeds exactly when nothing is in progress at, above or below the node,
  nothing is pending at or above it, and, for a vdev, the target is not recovering; a request that
  does not succeed changes nothing.\<close>

theorem dsc_start_at_iff:
  assumes wf: "tree_wf d s" and n: "n \<in> set (dsc_nodes d s)" and e: "env_ok e"
  shows "(fst (dsc_start_at e n desc s) = QDF_STATUS_SUCCESS \<longleftrightarrow>
      \<not> dsc_trans_active_or_queued n s \<and>
      (\<forall>a \<in> set (dsc_ancestors s n). \<not> dsc_trans_active_or_queued a s) \<and>
      (\<forall>m \<in> set (dsc_nodes d s). n \<in> set (dsc_ancestors s m) \<longrightarrow> \<not> dsc_trans_active m s) \<and>
      ((\<exists>v. n = VdevNode v) \<longrightarrow> \<not> qdf_is_recovering e)) \<and>
    (fst (dsc_start_at e n desc s) \<noteq> QDF_STATUS_SUCCESS \<longrightarrow> snd (dsc_start_at e n desc s) = s)"
proof -
  have "dsc_can_at e n s = QDF_STATUS_SUCCESS"
    if "\<not> dsc_trans_active_or_queued n s" "\<forall>a \<in> set (dsc_ancestors s n). \<not> dsc_trans_active_or_queued a s"
      "\<forall>m \<in> set (dsc_nodes d s). n \<in> set (dsc_ancestors s m) \<longrightarrow> \<not> dsc_trans_active m s"
      "(\<exists>v. n = VdevNode v) \<longrightarrow> \<not> qdf_is_recovering e"
  proof -
    have "dsc_can_at e n s \<noteq> QDF_STATUS_E_AGAIN"
      using can_again_blocked [OF wf n, of e] that by blast
    moreover have "dsc_can_at e n s \<noteq> QDF_STATUS_E_INVAL"
      using that(2,4) by (cases n) (auto simp: dsc_psoc_can_trans_def dsc_vdev_can_trans_def)
    ultimately show ?thesis using can_at_range [of e n s] by blast
  qed
  moreover have "\<not> qdf_is_recovering e" if "n = VdevNode v" "dsc_can_at e n s = QDF_STATUS_SUCCESS" for v
    using that by (auto simp: dsc_vdev_can_trans_def split: if_splits)
  ultimately have "dsc_can_at e n s = QDF_STATUS_SUCCESS \<longleftrightarrow> \<not> dsc_trans_active_or_queued n s \<and>
      (\<forall>a \<in> set (dsc_ancestors s n). \<not> dsc_trans_active_or_queued a s) \<and>
      (\<forall>m \<in> set (dsc_nodes d s). n \<in> set (dsc_ancestors s m) \<longrightarrow> \<not> dsc_trans_active m s) \<and>
      ((\<exists>v. n = VdevNode v) \<longrightarrow> \<not> qdf_is_recovering e)"
    using can_at_clear [OF wf n, of e] unfolding dsc_trans_active_or_queued_def by blast
  moreover have "dsc_can_at e n s \<noteq> QDF_STATUS_SUCCESS \<Longrightarrow> snd (dsc_start_at e n desc s) = s"
    by (simp add: start_at_eq)
  ultimately show ?thesis unfolding start_at_status [OF e] by blast
qed

text \<open>A transition that is started and stopped with nobody waiting leaves the tree as it was.\<close>

theorem dsc_start_stop_roundtrip:
  assumes wf: "tree_wf d s" and n: "n \<in> set (dsc_nodes d s)" and e: "env_ok e"
    and start: "dsc_start_at e n desc s = (QDF_STATUS_SUCCESS, s1)"
    and nq: "\<And>m. m \<in> set (dsc_nodes d s) \<Longrightarrow> \<not> dsc_trans_queued m s"
  shows "dsc_stop_at e n s1 = s"
proof -
  have can: "dsc_can_at e n s = QDF_STATUS_SUCCESS" using start start_at_status [OF e, of n desc s] by simp
  then have s1: "s1 = snd (dsc_trans_start e n desc s)" using start by (simp add: start_at_eq)
  have none: "active_desc (trans_of s n) = None"
    using can_at_clear(1) [OF wf n can] by (simp add: dsc_trans_active_def)
  have stop: "dsc_trans_stop n s1 = s"
    using e none unfolding s1
    by (cases "trans_of s n")
      (simp add: dsc_trans_start_def dsc_trans_stop_def env_ok_def upd_trans_def dsc_assert_def Let_def fun_upd_idem)
  have fr: "tree_wf d s1" "n \<in> set (dsc_nodes d s1)"
    using wf n tree_wf_cong [of s1 s d] dsc_nodes_cong [of s1 d s] by (simp_all add: s1 trans_start_frame)
  have tr: "triggers (stop_targets s n) s (dsc_stop_at e n s1)"
    using stop_at_triggers [OF e fr] by (simp add: stop)
  have T: "m \<in> set (dsc_nodes d s)" if "m \<in> stop_targets s n" for m
    using stop_targets_related [OF wf n that] by blast
  have idle: "\<not> dsc_trans_active m s" if "m \<in> stop_targets s n" for m
    using stop_targets_related [OF wf n that] can_at_clear(1,3,4) [OF wf n can]
    by (auto simp: dsc_trans_active_or_queued_def)
  have "triggered s m = trans_of s m" if "m \<in> stop_targets s n" for m
    using nq [OF T [OF that]] by (simp add: triggered_def dsc_trans_queued_def)
  then have "trans_of (dsc_stop_at e n s1) = trans_of s"
    using triggers_trans_of [OF tr] by auto
  moreover have "trans_store (dsc_stop_at e n s1) = trans_store s"
  proof
    fix t
    have "\<not> (\<exists>m \<in> stop_targets s n. \<exists>ts. trans_queue (trans_of s m) = t # ts)"
      using nq T by (auto simp: dsc_trans_queued_def)
    then show "trans_store (dsc_stop_at e n s1) t = trans_store s t"
      using tr by (intro dsc_tran.equality) (auto simp: triggers_def)
  qed
  moreover have "dsc_panic (dsc_stop_at e n s1) = dsc_panic s"
    using tr idle by (simp add: triggers_def)
  ultimately show ?thesis
    using triggers_frame(1-4) [OF tr] by (intro dsc.equality) simp_all
qed

text \<open>Destroying a vdev or a psoc sends every thread that is queued on it home with an aborted
  transition, and changes the outcome of no other wait.\<close>

theorem dsc_destroy_aborts:
  assumes n: "n = PsocNode p \<and> s' = dsc_psoc_destroy (Some (Some p)) s \<or>
      n = VdevNode v \<and> s' = dsc_vdev_destroy (Some (Some v)) s"
  shows "dsc_tran_wait QDF_STATUS_SUCCESS t s' =
     (if t \<in> set (trans_queue (trans_of s n)) then Some QDF_STATUS_E_ABORTED
      else dsc_tran_wait QDF_STATUS_SUCCESS t s) \<and> \<not> dsc_trans_active_or_queued n s'"
  using n
  by (auto simp: dsc_psoc_destroy_def dsc_vdev_destroy_def dsc_ops_deinit_def dsc_trans_deinit_def Let_def
      trans_flush_sel dsc_tran_wait_def dsc_trans_active_or_queued_def dsc_trans_active_def dsc_trans_queued_def)

text \<open>The status of the start inside a trigger is dropped: in the debug build, when the timer
  of the transition cannot be set up, the waiting thread is told that its transition has started
  although the node is not in transition, so that the next request is let in beside it.\<close>

theorem dsc_trigger_drops_status:
  assumes dbg: "wlan_dsc_debug e" and fail: "trans_timer_init e n \<noteq> QDF_STATUS_SUCCESS"
    and q: "trans_queue (trans_of s n) = t # ts" and act: "\<not> dsc_trans_active n s"
    and ab: "\<not> tran_abort (trans_store s t)" and tr: "dsc_trans_trigger e n s = (b, s')"
  shows "b \<and> dsc_tran_wait QDF_STATUS_SUCCESS t s' = Some QDF_STATUS_SUCCESS \<and> \<not> dsc_trans_active n s'"
  using assms
  by (auto simp: dsc_trans_trigger_def dsc_trans_dequeue_def dsc_trans_start_def
      dsc_dbg_trans_timeout_start_def dsc_tran_wait_def dsc_trans_active_def)

end
