(* ===== verification/Dsc_Run.thy ===== *)
theory Dsc_Run
  imports Dsc_Props
begin

text \<open>
  A run of the synchronisation core with three threads, on which the properties
  of \<open>Dsc_Props\<close> are applied: an operation is in flight on a vdev when thread 1
  starts a transition of it; threads 2 and 3 queue behind it on the psoc and on
  the vdev; thread 1 flushes the operation and stops, which hands the psoc to
  thread 2.
\<close>

section \<open>The run\<close>

definition dsc_zero :: dsc where
  "dsc_zero = \<lparr>drivers = (\<lambda>_. \<lparr>driver_psocs = []\<rparr>), psocs = (\<lambda>_. \<lparr>psoc_driver = 0, psoc_vdevs = []\<rparr>),
     vdevs = (\<lambda>_. \<lparr>vdev_psoc = 0, nb_cmd_during_ssr = 0\<rparr>),
     trans_of = (\<lambda>_. \<lparr>active_desc = None, trans_queue = []\<rparr>),
     ops_of = (\<lambda>_. \<lparr>ops_list = [], ops_count = 0, ops_event = False\<rparr>),
     trans_store = (\<lambda>_. \<lparr>tran_abort = False, tran_desc = [], tran_event = False\<rparr>), dsc_panic = False\<rparr>"

definition run_sys :: "dsc \<Rightarrow> (thread \<Rightarrow> pc) \<Rightarrow> (dsc_node \<Rightarrow> thread option) \<Rightarrow>
    (dsc_node \<Rightarrow> string multiset) \<Rightarrow> (dsc_node \<Rightarrow> bool) \<Rightarrow> sys" where
  "run_sys h p o' f l = \<lparr>heap = h, pc_of = p, owner = o', in_flight = f, flushed = l\<rparr>"

definition run_env :: dsc_env where
  "run_env = dsc_env_default False"

definition heap_tree :: dsc where
  "heap_tree = snd (snd (dsc_vdev_create (Some 2) True (Some 3)
     (snd (snd (dsc_psoc_create (Some 4) True (Some 2)
       (snd (snd (dsc_driver_create True (Some 4) dsc_zero))))))))"

definition heap_op :: dsc where
  "heap_op = snd (dsc_op_start_at run_env (VdevNode 3) ''ioctl'' heap_tree)"

definition heap_start :: dsc where
  "heap_start = snd (dsc_start_at run_env (VdevNode 3) ''down'' heap_op)"

definition heap_wait2 :: dsc where
  "heap_wait2 = snd (dsc_start_wait_at run_env 7 (PsocNode 2) ''reset'' heap_start)"

definition heap_wait3 :: dsc where
  "heap_wait3 = snd (dsc_start_wait_at run_env 8 (VdevNode 3) ''up'' heap_wait2)"

definition heap_armed :: dsc where
  "heap_armed = snd (dsc_wait_at (VdevNode 3) heap_wait3)"

definition heap_drained :: dsc where
  "heap_drained = dsc_op_stop_at run_env (VdevNode 3) ''ioctl'' heap_armed"

definition heap_stopped :: dsc where
  "heap_stopped = dsc_stop_at run_env (VdevNode 3) heap_drained"

definition pcs_wait :: "thread \<Rightarrow> pc" where
  "pcs_wait = ((\<lambda>_. Running)(2 := Waiting (PsocNode 2) 7))(3 := Waiting (VdevNode 3) 8)"

definition sys_tree :: sys where
  "sys_tree = run_sys heap_tree (\<lambda>_. Running) (\<lambda>_. None) (\<lambda>_. {#}) (\<lambda>_. False)"

definition sys_wait :: sys where
  "sys_wait = run_sys heap_wait3 pcs_wait ((\<lambda>_. None)(VdevNode 3 := Some 1))
     ((\<lambda>_. {#})(VdevNode 3 := {#''ioctl''#})) (\<lambda>_. False)"

definition sys_flushed :: sys where
  "sys_flushed = run_sys heap_drained pcs_wait ((\<lambda>_. None)(VdevNode 3 := Some 1))
     (\<lambda>_. {#}) ((\<lambda>_. False)(VdevNode 3 := True))"

lemma run_env_ok: "env_ok run_env" "wlan_dsc_debug run_env = False"
  by (simp_all add: run_env_def env_default_ok)

lemma sys_tree_reach: "dsc_reach False 4 sys_tree"
proof -
  let ?h1 = "snd (snd (dsc_driver_create True (Some 4) dsc_zero))"
  let ?hp = "snd (snd (dsc_psoc_create (Some 4) True (Some 2) ?h1))"
  let ?s = "\<lambda>h. run_sys h (\<lambda>_. Running) (\<lambda>_. None) (\<lambda>_. {#}) (\<lambda>_. False)"
  have "dsc_init 4 (?s ?h1)"
    unfolding run_sys_def
    by (rule dsc_init [of 4 dsc_zero]) (simp_all add: dsc_driver_create_def dsc_zero_def Let_def)
  then have "dsc_reach False 4 (?s ?h1)" by (rule reach_init)
  moreover have "dsc_step False 4 (?s ?h1) (?s ?hp)"
    using create_psoc [of 2 4 "?s ?h1" "fst (dsc_psoc_create (Some 4) True (Some 2) ?h1)"
        "fst (snd (dsc_psoc_create (Some 4) True (Some 2) ?h1))" ?hp False]
    by (simp add: run_sys_def dsc_driver_create_def dsc_trans_init_def dsc_ops_init_def)
  moreover have "dsc_step False 4 (?s ?hp) (?s heap_tree)"
    using create_vdev [of 2 4 "?s ?hp" 3 "fst (dsc_vdev_create (Some 2) True (Some 3) ?hp)"
        "fst (snd (dsc_vdev_create (Some 2) True (Some 3) ?hp))" heap_tree False]
    by (simp add: run_sys_def heap_tree_def dsc_psoc_create_def dsc_driver_create_def dsc_trans_init_def
        dsc_ops_init_def)
  ultimately show ?thesis unfolding sys_tree_def by (blast intro: reach_step)
qed

text \<open>What the calls of the run return.\<close>

lemma run_results:
  "dsc_nodes 4 heap_tree = [DriverNode 4, PsocNode 2, VdevNode 3]"
  "dsc_nodes 4 heap_op = [DriverNode 4, PsocNode 2, VdevNode 3]"
  "dsc_nodes 4 heap_start = [DriverNode 4, PsocNode 2, VdevNode 3]"
  "dsc_nodes 4 heap_wait2 = [DriverNode 4, PsocNode 2, VdevNode 3]"
  "dsc_nodes 4 heap_wait3 = [DriverNode 4, PsocNode 2, VdevNode 3]"
  "dsc_nodes 4 heap_armed = [DriverNode 4, PsocNode 2, VdevNode 3]"
  "dsc_nodes 4 heap_drained = [DriverNode 4, PsocNode 2, VdevNode 3]"
  "fst (dsc_op_start_at run_env (VdevNode 3) ''ioctl'' heap_tree) = QDF_STATUS_SUCCESS"
  "fst (dsc_start_at run_env (VdevNode 3) ''down'' heap_op) = QDF_STATUS_SUCCESS"
  "fst (dsc_start_wait_at run_env 7 (PsocNode 2) ''reset'' heap_start) = Blocked 7"
  "fst (dsc_start_wait_at run_env 8 (VdevNode 3) ''up'' heap_wait2) = Blocked 8"
  "fst (dsc_wait_at (VdevNode 3) heap_wait3)"
  "ops_event (ops_of heap_drained (VdevNode 3))"
  by code_simp+

declare VdevNode_in_nodes [simp del] PsocNode_in_nodes [simp del] dsc_op_start_at.simps [simp del]
  dsc_start_at.simps [simp del] dsc_start_wait_at.simps [simp del] dsc_wait_at.simps [simp del]
  dsc_op_stop_at.simps [simp del] dsc_stop_at.simps [simp del]

lemma sys_wait_reach: "dsc_reach False 4 sys_wait"
proof -
  let ?own = "(\<lambda>_. None)(VdevNode 3 := Some 1)" and ?ops = "(\<lambda>_. {#})(VdevNode 3 := {#''ioctl''#})"
  have "dsc_step False 4 sys_tree (run_sys heap_op (\<lambda>_. Running) (\<lambda>_. None) ?ops (\<lambda>_. False))"
    using dsc_step.op_start [of "VdevNode 3" 4 sys_tree run_env False "''ioctl''" QDF_STATUS_SUCCESS heap_op]
    by (simp add: sys_tree_def run_sys_def run_results run_env_ok heap_op_def prod_eq_iff)
  moreover have "dsc_step False 4 (run_sys heap_op (\<lambda>_. Running) (\<lambda>_. None) ?ops (\<lambda>_. False))
      (run_sys heap_start (\<lambda>_. Running) ?own ?ops (\<lambda>_. False))"
    using dsc_step.start [of "VdevNode 3" 4 "run_sys heap_op (\<lambda>_. Running) (\<lambda>_. None) ?ops (\<lambda>_. False)"
        run_env False 1 "''down''" QDF_STATUS_SUCCESS heap_start]
    by (simp add: run_sys_def run_results run_env_ok heap_start_def prod_eq_iff)
  moreover have "dsc_step False 4 (run_sys heap_start (\<lambda>_. Running) ?own ?ops (\<lambda>_. False))
      (run_sys heap_wait2 ((\<lambda>_. Running)(2 := Waiting (PsocNode 2) 7)) ?own ?ops (\<lambda>_. False))"
    using dsc_step.start_wait [of "PsocNode 2" 4 "run_sys heap_start (\<lambda>_. Running) ?own ?ops (\<lambda>_. False)"
        run_env False 2 7 "''reset''" "Blocked 7" heap_wait2]
    by (simp add: run_sys_def run_results run_env_ok heap_wait2_def prod_eq_iff tran_fresh_def)
  moreover have "dsc_step False 4
      (run_sys heap_wait2 ((\<lambda>_. Running)(2 := Waiting (PsocNode 2) 7)) ?own ?ops (\<lambda>_. False)) sys_wait"
    using dsc_step.start_wait [of "VdevNode 3" 4
        "run_sys heap_wait2 ((\<lambda>_. Running)(2 := Waiting (PsocNode 2) 7)) ?own ?ops (\<lambda>_. False)"
        run_env False 3 8 "''up''" "Blocked 8" heap_wait3]
    by (simp add: run_sys_def run_results run_env_ok heap_wait3_def prod_eq_iff tran_fresh_def sys_wait_def pcs_wait_def)
  ultimately show ?thesis using sys_tree_reach by (blast intro: reach_step)
qed

lemma pcs_wait_run: "pcs_wait(Suc 0 := Running) = pcs_wait"
  by (simp add: pcs_wait_def fun_eq_iff)

lemma sys_flushed_reach: "dsc_reach False 4 sys_flushed"
proof -
  let ?own = "(\<lambda>_. None)(VdevNode 3 := Some 1)" and ?ops = "(\<lambda>_. {#})(VdevNode 3 := {#''ioctl''#})"
  let ?in = "pcs_wait(1 := Flushing (VdevNode 3) [VdevNode 3])"
  let ?wt = "pcs_wait(1 := FlushWait (VdevNode 3) (VdevNode 3) [])"
  let ?out = "pcs_wait(1 := Flushing (VdevNode 3) [])"
  let ?none = "\<lambda>_. False"
  have s1: "dsc_step False 4 sys_wait (run_sys heap_wait3 ?in ?own ?ops ?none)"
    using dsc_step.flush [of "VdevNode 3" 4 sys_wait 1 False]
    by (simp add: sys_wait_def run_sys_def run_results pcs_wait_def)
  have s2: "dsc_step False 4 (run_sys heap_wait3 ?in ?own ?ops ?none) (run_sys heap_armed ?wt ?own ?ops ?none)"
    using dsc_step.flush_enter [of "run_sys heap_wait3 ?in ?own ?ops ?none" 1 "VdevNode 3" "VdevNode 3" "[]" True heap_armed]
    by (simp add: run_sys_def run_results heap_armed_def prod_eq_iff)
  have s3: "dsc_step False 4 (run_sys heap_armed ?wt ?own ?ops ?none) (run_sys heap_drained ?wt ?own (\<lambda>_. {#}) ?none)"
    using dsc_step.op_stop [of "VdevNode 3" 4 "run_sys heap_armed ?wt ?own ?ops ?none" run_env False "''ioctl''"]
    by (simp add: run_sys_def run_results run_env_ok heap_drained_def fun_upd_idem)
  have s4: "dsc_step False 4 (run_sys heap_drained ?wt ?own (\<lambda>_. {#}) ?none)
      (run_sys heap_drained ?out ?own (\<lambda>_. {#}) ?none)"
    using dsc_step.flush_wake [of "run_sys heap_drained ?wt ?own (\<lambda>_. {#}) ?none" 1 "VdevNode 3" "VdevNode 3" "[]"]
    by (simp add: run_sys_def run_results)
  have s5: "dsc_step False 4 (run_sys heap_drained ?out ?own (\<lambda>_. {#}) ?none) sys_flushed"
    using dsc_step.flush_done [of "run_sys heap_drained ?out ?own (\<lambda>_. {#}) ?none" 1 "VdevNode 3"]
    by (simp add: run_sys_def sys_flushed_def pcs_wait_run)
  show ?thesis
    by (rule reach_step [OF reach_step [OF reach_step [OF reach_step [OF reach_step
        [OF sys_wait_reach s1] s2] s3] s4] s5])
qed

section \<open>The properties on the run\<close>

theorem dsc_owners_exclusive_witness:
  "owner sys_wait (VdevNode 3) = Some 1 \<and> owner sys_wait (PsocNode 2) = None"
proof -
  have "PsocNode 2 \<in> set (dsc_ancestors (heap sys_wait) (VdevNode 3))" by code_simp
  moreover have "owner sys_wait (VdevNode 3) = Some 1" by (simp add: sys_wait_def run_sys_def)
  ultimately show ?thesis
    using dsc_owners_exclusive [OF sys_wait_reach, of "PsocNode 2" "VdevNode 3"] by simp
qed

theorem dsc_no_panic_witness: "\<not> dsc_panic heap_drained"
  using dsc_no_panic [OF sys_flushed_reach] by (simp add: sys_flushed_def run_sys_def)

theorem dsc_flushed_silent_witness:
  "ops_count (ops_of heap_drained (VdevNode 3)) = 0 \<and>
   fst (dsc_op_start_at run_env (VdevNode 3) ''ioctl'' heap_drained) \<in> {QDF_STATUS_E_AGAIN, QDF_STATUS_E_INVAL}"
  using dsc_flushed_silent [OF sys_flushed_reach, of "VdevNode 3" "VdevNode 3" run_env "''ioctl''"]
  by (simp add: sys_flushed_def run_sys_def)

theorem dsc_no_lost_wakeup_witness:
  "\<exists>m \<in> set (dsc_nodes 4 (heap sys_wait)). owner sys_wait m \<noteq> None \<or>
     (\<exists>j u. pc_of sys_wait j = Waiting m u \<and>
        dsc_tran_wait QDF_STATUS_SUCCESS u (heap sys_wait) = Some QDF_STATUS_SUCCESS)"
proof -
  have "pc_of sys_wait 3 = Waiting (VdevNode 3) 8" by (simp add: sys_wait_def run_sys_def pcs_wait_def)
  moreover have "dsc_tran_wait QDF_STATUS_SUCCESS 8 (heap sys_wait) = None" by code_simp
  ultimately show ?thesis by (rule dsc_no_lost_wakeup [OF sys_wait_reach])
qed

theorem dsc_drain_completes_witness: "\<exists>\<sigma>'. dsc_drain False 4 sys_flushed \<sigma>'"
proof -
  have "pc_of sys_flushed 3 = Waiting (VdevNode 3) 8" "no_owner_waits sys_flushed"
    by (simp_all add: no_owner_waits_def sys_flushed_def run_sys_def pcs_wait_def)
  then show ?thesis using dsc_drain_completes [of False 4] sys_flushed_reach by (metis pc.distinct(1) rtranclp.rtrancl_refl)
qed

theorem dsc_stop_order_witness:
  "\<exists>m. trans_queue (trans_of heap_drained m) = 7 # trans_queue (trans_of heap_stopped m) \<and>
     dsc_tran_wait QDF_STATUS_SUCCESS 7 heap_stopped = Some QDF_STATUS_SUCCESS \<and>
     active_desc (trans_of heap_stopped m) = Some ''reset''"
proof -
  have h: "heap sys_flushed = heap_drained" "owner sys_flushed (VdevNode 3) = Some 1"
    by (simp_all add: sys_flushed_def run_sys_def)
  have "\<not> tran_event (trans_store heap_drained 7)" "tran_event (trans_store heap_stopped 7)"
    "tran_desc (trans_store heap_drained 7) = ''reset''"
    by code_simp+
  then show ?thesis
    using dsc_stop_order [OF sys_flushed_reach h(2) run_env_ok(1), of 7] by (auto simp: h heap_stopped_def)
qed

theorem dsc_start_at_iff_witness:
  "fst (dsc_start_at run_env (VdevNode 3) ''down'' heap_tree) = QDF_STATUS_SUCCESS \<and>
   fst (dsc_start_at run_env (PsocNode 2) ''down'' heap_start) \<noteq> QDF_STATUS_SUCCESS"
proof -
  have w: "tree_wf 4 heap_tree" "tree_wf 4 heap_start" by code_simp+
  have "\<not> dsc_trans_active_or_queued (VdevNode 3) heap_tree"
    "\<forall>a \<in> set (dsc_ancestors heap_tree (VdevNode 3)). \<not> dsc_trans_active_or_queued a heap_tree"
    "\<forall>m \<in> set (dsc_nodes 4 heap_tree). VdevNode 3 \<in> set (dsc_ancestors heap_tree m) \<longrightarrow> \<not> dsc_trans_active m heap_tree"
    "\<not> qdf_is_recovering run_env" by code_simp+
  moreover have "\<not> (\<forall>m \<in> set (dsc_nodes 4 heap_start).
      PsocNode 2 \<in> set (dsc_ancestors heap_start m) \<longrightarrow> \<not> dsc_trans_active m heap_start)" by code_simp
  ultimately show ?thesis
    using dsc_start_at_iff [OF w(1) _ run_env_ok(1), of "VdevNode 3" "''down''"]
      dsc_start_at_iff [OF w(2) _ run_env_ok(1), of "PsocNode 2" "''down''"]
    by (simp add: run_results)
qed

theorem dsc_start_stop_roundtrip_witness:
  "dsc_stop_at run_env (VdevNode 3) (snd (dsc_start_at run_env (VdevNode 3) ''down'' heap_tree)) = heap_tree"
proof (rule dsc_start_stop_roundtrip [of 4])
  show "tree_wf 4 heap_tree" by code_simp
  show "dsc_start_at run_env (VdevNode 3) ''down'' heap_tree =
      (QDF_STATUS_SUCCESS, snd (dsc_start_at run_env (VdevNode 3) ''down'' heap_tree))"
  proof -
    have "fst (dsc_start_at run_env (VdevNode 3) ''down'' heap_tree) = QDF_STATUS_SUCCESS" by code_simp
    then show ?thesis by (simp add: prod_eq_iff)
  qed
  have "list_all (\<lambda>m. \<not> dsc_trans_queued m heap_tree) (dsc_nodes 4 heap_tree)" by code_simp
  then show "\<not> dsc_trans_queued m heap_tree" if "m \<in> set (dsc_nodes 4 heap_tree)" for m
    using that by (simp add: list_all_iff)
qed (simp_all add: run_results run_env_ok)

theorem dsc_destroy_aborts_witness:
  "dsc_tran_wait QDF_STATUS_SUCCESS 8 (dsc_vdev_destroy (Some (Some 3)) heap_wait3) = Some QDF_STATUS_E_ABORTED"
proof -
  have "8 \<in> set (trans_queue (trans_of heap_wait3 (VdevNode 3)))" by code_simp
  then show ?thesis
    using dsc_destroy_aborts [of "VdevNode 3" 0 "dsc_vdev_destroy (Some (Some 3)) heap_wait3" heap_wait3 3 8] by simp
qed

theorem dsc_trigger_drops_status_witness:
  "let e = run_env\<lparr>wlan_dsc_debug := True, trans_timer_init := (\<lambda>_. QDF_STATUS_E_FAILURE)\<rparr>;
       s' = snd (dsc_trans_trigger e (PsocNode 2) heap_wait2)
   in dsc_tran_wait QDF_STATUS_SUCCESS 7 s' = Some QDF_STATUS_SUCCESS \<and> \<not> dsc_trans_active (PsocNode 2) s'"
proof -
  let ?e = "run_env\<lparr>wlan_dsc_debug := True, trans_timer_init := (\<lambda>_. QDF_STATUS_E_FAILURE)\<rparr>"
  have "trans_queue (trans_of heap_wait2 (PsocNode 2)) = [7]" "\<not> dsc_trans_active (PsocNode 2) heap_wait2"
    "\<not> tran_abort (trans_store heap_wait2 7)" by code_simp+
  from dsc_trigger_drops_status [OF _ _ this, of ?e _ "snd (dsc_trans_trigger ?e (PsocNode 2) heap_wait2)"]
  show ?thesis by (simp add: Let_def prod_eq_iff)
qed

end
