(* ===== verification/Osif_State.thy ===== *)
theory Osif_State
  imports Dsc_Threads
begin

text \<open>
  The state of the OS interface synchronisation layer, \<^verbatim>\<open>src/os_if/sync\<close>: one
  context for the driver and two static arrays of contexts, which the layer
  looks up by the kernel's \<^verbatim>\<open>struct device\<close> and \<^verbatim>\<open>struct net_device\<close> pointers.
  A pointer into one of the arrays is its index.  The theory also states the
  two interfaces of the layer: the table of contexts, and what the layer needs
  from a node of the synchronisation core.
\<close>

section \<open>Contexts\<close>

record osif_driver_sync =
  drv_dsc_driver :: "ptr option"
  drv_in_use :: bool
  drv_is_registered :: bool

record osif_psoc_sync =
  ps_dev :: "ptr option"
  ps_dsc_psoc :: "ptr option"
  ps_in_use :: bool

record osif_vdev_sync =
  vs_net_dev :: "ptr option"
  vs_dsc_vdev :: "ptr option"
  vs_in_use :: bool

record osif =
  driver_sync :: osif_driver_sync
  psoc_sync_arr :: "osif_psoc_sync list"
  vdev_sync_arr :: "osif_vdev_sync list"
  osif_dsc :: dsc
  osif_bug :: bool

definition QDF_BUG :: "bool \<Rightarrow> osif \<Rightarrow> osif" where
  "QDF_BUG c s = (if c then s else s\<lparr>osif_bug := True\<rparr>)"

text \<open>Error numbers of the kernel that the layer returns itself.\<close>

definition EAGAIN :: int where "EAGAIN = 11"
definition ENOMEM :: int where "ENOMEM = 12"
definition EINVAL :: int where "EINVAL = 22"

lemmas errno_defs = EAGAIN_def ENOMEM_def EINVAL_def

text \<open>
  A call that may sleep either returns, with its error number and the context it
  stores through the out parameter, or leaves its thread waiting on a pending
  transition with the context it has looked up.
\<close>

datatype osif_wait = OsifReturned int "nat option" | OsifBlocked ptr nat

lemma QDF_BUG_sel [simp]:
  "driver_sync (QDF_BUG c s) = driver_sync s" "psoc_sync_arr (QDF_BUG c s) = psoc_sync_arr s"
  "vdev_sync_arr (QDF_BUG c s) = vdev_sync_arr s" "osif_dsc (QDF_BUG c s) = osif_dsc s"
  "osif_bug (QDF_BUG c s) \<longleftrightarrow> osif_bug s \<or> \<not> c" "QDF_BUG True s = s"
  by (simp_all add: QDF_BUG_def)

section \<open>The table of contexts\<close>

text \<open>
  What the layer relies on in its two arrays: a lookup returns the first used
  context with the key, an allocation marks the first unused one, and a context
  that is put back is zeroed.
\<close>

locale slot_table =
  fixes used :: "'a \<Rightarrow> bool" and key :: "'a \<Rightarrow> 'k option" and set_key :: "'k option \<Rightarrow> 'a \<Rightarrow> 'a"
    and zero :: 'a
    and lookup :: "'k option \<Rightarrow> 'a list \<Rightarrow> nat option"
    and get :: "'a list \<Rightarrow> nat option \<times> 'a list"
  assumes zero_free: "\<not> used zero"
    and key_set: "key (set_key k x) = k" and used_set: "used (set_key k x) = used x"
    and lookup_Some: "lookup k xs = Some i \<longleftrightarrow> i < length xs \<and> used (xs ! i) \<and> key (xs ! i) = k \<and>
      (\<forall>j < i. \<not> (used (xs ! j) \<and> key (xs ! j) = k))"
    and get_Some: "get xs = (Some i, ys) \<Longrightarrow> i < length xs \<and> \<not> used (xs ! i) \<and>
      (\<exists>y. ys = xs[i := y] \<and> used y \<and> key y = key (xs ! i))"
    and get_None: "get xs = (None, ys) \<Longrightarrow> ys = xs \<and> (\<forall>x \<in> set xs. used x)"
begin

definition has_key :: "'a list \<Rightarrow> nat \<Rightarrow> 'k option \<Rightarrow> bool" where
  "has_key xs i k \<longleftrightarrow> i < length xs \<and> used (xs ! i) \<and> key (xs ! i) = k"

definition keys_ok :: "'a list \<Rightarrow> bool" where
  "keys_ok xs \<longleftrightarrow> (\<forall>i j k. has_key xs i (Some k) \<longrightarrow> has_key xs j (Some k) \<longrightarrow> i = j)"

lemma has_key_update:
  "has_key (xs[i := y]) j k \<longleftrightarrow>
     (if j = i \<and> i < length xs then used y \<and> key y = k else has_key xs j k)"
  by (auto simp: has_key_def nth_list_update)

lemma lookup_Some_iff: "lookup k xs = Some i \<longleftrightarrow> has_key xs i k \<and> (\<forall>j < i. \<not> has_key xs j k)"
  unfolding lookup_Some has_key_def by (meson less_trans)

lemma lookup_None_iff: "lookup k xs = None \<longleftrightarrow> (\<forall>i. \<not> has_key xs i k)"
proof
  assume none: "lookup k xs = None"
  show "\<forall>i. \<not> has_key xs i k"
  proof (rule ccontr)
    assume "\<not> ?thesis"
    then have ex: "\<exists>i. has_key xs i k" by blast
    have "lookup k xs = Some (LEAST i. has_key xs i k)"
      unfolding lookup_Some_iff using LeastI_ex [OF ex] not_less_Least by blast
    then show False using none by simp
  qed
next
  assume "\<forall>i. \<not> has_key xs i k"
  then show "lookup k xs = None" using lookup_Some_iff by (cases "lookup k xs") blast+
qed

lemma lookup_used: "keys_ok xs \<Longrightarrow> has_key xs i (Some k) \<Longrightarrow> lookup (Some k) xs = Some i"
  unfolding lookup_Some_iff keys_ok_def by blast

text \<open>Registering a key makes the context the one that is found under it.\<close>

lemma register_lookup:
  assumes "i < length xs" and "used (xs ! i)" and "lookup (Some k) xs = None"
  shows "lookup (Some k) (xs[i := set_key (Some k) (xs ! i)]) = Some i"
  using assms unfolding lookup_None_iff lookup_Some_iff by (simp add: has_key_update key_set used_set)

lemma register_other:
  assumes "i < length xs" and "key (xs ! i) = None" and "k' \<noteq> k"
  shows "lookup (Some k') (xs[i := set_key (Some k) (xs ! i)]) = lookup (Some k') xs"
proof -
  have "has_key (xs[i := set_key (Some k) (xs ! i)]) j (Some k') \<longleftrightarrow> has_key xs j (Some k')" for j
    using assms by (auto simp: has_key_update key_set) (auto simp: has_key_def)
  then have "lookup (Some k') (xs[i := set_key (Some k) (xs ! i)]) = Some j \<longleftrightarrow> lookup (Some k') xs = Some j" for j
    unfolding lookup_Some_iff by simp
  then show ?thesis by (metis option.exhaust)
qed

lemma register_keys_ok:
  assumes "keys_ok xs" and "lookup (Some k) xs = None"
  shows "keys_ok (xs[i := set_key (Some k) (xs ! i)])"
  using assms unfolding keys_ok_def lookup_None_iff
  by (auto simp: has_key_update key_set split: if_splits)

text \<open>Unregistering a key hides the context until it is registered again.\<close>

lemma unregister_lookup:
  assumes "keys_ok xs" and "lookup (Some k) xs = Some i"
  shows "lookup (Some k) (xs[i := set_key None (xs ! i)]) = None"
    and "keys_ok (xs[i := set_key None (xs ! i)])"
  using assms unfolding keys_ok_def lookup_None_iff lookup_Some_iff
  by (auto simp: has_key_update key_set split: if_splits) (auto simp: has_key_def)

lemma get_keys_ok:
  assumes g: "get xs = (r, ys)" and ok: "keys_ok xs"
    and free: "\<And>x. x \<in> set xs \<Longrightarrow> \<not> used x \<Longrightarrow> key x = None"
  shows "keys_ok ys" and "length ys = length xs"
proof -
  have "ys = xs \<or> (\<exists>i y. ys = xs[i := y] \<and> i < length xs \<and> key y = None)"
  proof (cases r)
    case None
    then show ?thesis using get_None g by blast
  next
    case (Some i)
    then show ?thesis using get_Some [of xs i ys] g free [of "xs ! i"] by auto
  qed
  then show "keys_ok ys" "length ys = length xs"
    using ok by (auto simp: keys_ok_def has_key_update split: if_splits)
qed

lemma put_keys_ok: "keys_ok xs \<Longrightarrow> keys_ok (xs[i := zero])"
  using zero_free by (auto simp: keys_ok_def has_key_update split: if_splits)

end

section \<open>What the layer needs from a node\<close>

text \<open>
  A start that succeeds leaves the node active, a start on an active node is
  refused, and a refused start changes nothing.
\<close>

locale sync_node =
  fixes start :: "'d \<Rightarrow> string option \<Rightarrow> 's \<Rightarrow> QDF_STATUS \<times> 's" and active :: "'d \<Rightarrow> 's \<Rightarrow> bool"
  assumes start_ok: "start d (Some desc) s = (QDF_STATUS_SUCCESS, s') \<Longrightarrow> active d s'"
    and start_busy: "active d s \<Longrightarrow> fst (start d (Some desc) s) \<noteq> QDF_STATUS_SUCCESS"
    and start_refused: "start d (Some desc) s = (st, s') \<Longrightarrow> st \<noteq> QDF_STATUS_SUCCESS \<Longrightarrow> s' = s"
begin

lemma start_twice:
  assumes "start d (Some desc) s = (QDF_STATUS_SUCCESS, s1)" and "start d (Some desc') s1 = (st, s2)"
  shows "st \<noteq> QDF_STATUS_SUCCESS" and "s2 = s1"
  using start_busy [OF start_ok [OF assms(1)], of desc'] start_refused [OF assms(2)] assms(2) by auto

end

interpretation driver_node:
  sync_node "\<lambda>d desc. dsc_driver_trans_start e (Some d) desc" "\<lambda>d. dsc_trans_active (DriverNode d)" for e
  by unfold_locales
    (auto simp: dsc_driver_trans_start_def dsc_driver_trans_start_nolock_def dsc_driver_can_trans_def
      dsc_trans_active_or_queued_def dsc_trans_start_def dsc_trans_active_def Let_def split: if_splits)

interpretation psoc_node:
  sync_node "\<lambda>p desc. dsc_psoc_trans_start e (Some p) desc" "\<lambda>p. dsc_trans_active (PsocNode p)" for e
  by unfold_locales
    (auto simp: dsc_psoc_trans_start_def dsc_psoc_trans_start_nolock_def dsc_psoc_can_trans_def
      dsc_trans_active_or_queued_def dsc_trans_start_def dsc_trans_active_def Let_def split: if_splits)

interpretation vdev_node:
  sync_node "\<lambda>v desc. dsc_vdev_trans_start e (Some v) desc" "\<lambda>v. dsc_trans_active (VdevNode v)" for e
  by unfold_locales
    (auto simp: dsc_vdev_trans_start_def dsc_vdev_trans_start_nolock_def dsc_vdev_can_trans_def
      dsc_trans_active_or_queued_def dsc_trans_start_def dsc_trans_active_def Let_def split: if_splits)

end
