(* ===== verification/Osif_Driver.thy ===== *)
theory Osif_Driver
  imports Osif_State
begin

text \<open>
  The driver context, \<^verbatim>\<open>src/os_if/sync/src/osif_driver_sync.c\<close>.  The argument
  \<open>ret\<close> is \<^verbatim>\<open>qdf_status_to_os_return\<close>, which belongs to the QDF layer.  The
  single context has no address: a pointer to it is the unit index 0.
\<close>

definition osif_driver_sync_lookup :: "osif \<Rightarrow> nat option" where
  "osif_driver_sync_lookup s = (if \<not> drv_is_registered (driver_sync s) then None else Some 0)"

definition osif_driver_sync_get :: "osif \<Rightarrow> nat option \<times> osif" where
  "osif_driver_sync_get s =
     (if drv_in_use (driver_sync s) then (None, s)
      else (Some 0, s\<lparr>driver_sync := (driver_sync s)\<lparr>drv_in_use := True\<rparr>\<rparr>))"

definition osif_driver_sync_put :: "osif \<Rightarrow> osif" where
  "osif_driver_sync_put s =
     s\<lparr>driver_sync := \<lparr>drv_dsc_driver = None, drv_in_use = False, drv_is_registered = False\<rparr>\<rparr>"

definition osif_driver_sync_create ::
  "(QDF_STATUS \<Rightarrow> int) \<Rightarrow> bool \<Rightarrow> ptr option \<Rightarrow> osif \<Rightarrow> int \<times> nat option \<times> osif" where
  "osif_driver_sync_create ret out mem s0 =
     (let s = QDF_BUG out s0 in
      if \<not> out then (- EINVAL, None, s)
      else case osif_driver_sync_get s of
        (None, s1) \<Rightarrow> (- ENOMEM, None, s1)
      | (Some i, s1) \<Rightarrow>
          (let (status, dp, h) = dsc_driver_create True mem (osif_dsc s1);
               s2 = s1\<lparr>osif_dsc := h, driver_sync := (driver_sync s1)\<lparr>drv_dsc_driver := dp\<rparr>\<rparr>
           in if QDF_IS_STATUS_ERROR status then (ret status, None, osif_driver_sync_put s2)
              else (0, Some i, s2)))"

definition osif_driver_sync_destroy :: "bool \<Rightarrow> osif \<Rightarrow> osif" where
  "osif_driver_sync_destroy sync s0 =
     (let s = QDF_BUG sync s0 in
      if \<not> sync then s
      else osif_driver_sync_put
        (s\<lparr>osif_dsc := dsc_driver_destroy (Some (drv_dsc_driver (driver_sync s))) (osif_dsc s)\<rparr>))"

definition osif_driver_sync_create_and_trans ::
  "(QDF_STATUS \<Rightarrow> int) \<Rightarrow> dsc_env \<Rightarrow> ptr option \<Rightarrow> string option \<Rightarrow> osif \<Rightarrow> int \<times> nat option \<times> osif" where
  "osif_driver_sync_create_and_trans ret e mem desc s =
     (let (errno, sync, s1) = osif_driver_sync_create ret True mem s
      in if errno \<noteq> 0 then (errno, None, s1)
         else let (status, h) = dsc_driver_trans_start e (drv_dsc_driver (driver_sync s1)) desc (osif_dsc s1);
                  s2 = s1\<lparr>osif_dsc := h\<rparr>
              in if QDF_IS_STATUS_ERROR status
                 then (ret status, None, osif_driver_sync_destroy (sync \<noteq> None) s2)
                 else (0, sync, s2))"

definition osif_driver_sync_register :: "bool \<Rightarrow> osif \<Rightarrow> osif" where
  "osif_driver_sync_register sync s0 =
     (let s = QDF_BUG sync s0 in
      if \<not> sync then s else s\<lparr>driver_sync := (driver_sync s)\<lparr>drv_is_registered := True\<rparr>\<rparr>)"

definition osif_driver_sync_unregister :: "osif \<Rightarrow> nat option \<times> osif" where
  "osif_driver_sync_unregister s =
     (case osif_driver_sync_lookup s of
        None \<Rightarrow> (None, s)
      | Some i \<Rightarrow> (Some i, s\<lparr>driver_sync := (driver_sync s)\<lparr>drv_is_registered := False\<rparr>\<rparr>))"

definition osif_driver_sync_start_callback ::
  "(QDF_STATUS \<Rightarrow> int) \<Rightarrow> string option \<Rightarrow> (ptr option \<Rightarrow> string option \<Rightarrow> dsc \<Rightarrow> QDF_STATUS \<times> dsc) \<Rightarrow>
   osif \<Rightarrow> int \<times> nat option \<times> osif" where
  "osif_driver_sync_start_callback ret desc driver_start_cb s =
     (case osif_driver_sync_lookup s of
        None \<Rightarrow> (- EAGAIN, None, s)
      | Some i \<Rightarrow>
          (let (status, h) = driver_start_cb (drv_dsc_driver (driver_sync s)) desc (osif_dsc s);
               s1 = s\<lparr>osif_dsc := h\<rparr>
           in if QDF_IS_STATUS_ERROR status then (ret status, None, s1) else (0, Some i, s1)))"

definition osif_driver_sync_start_wait_callback ::
  "(QDF_STATUS \<Rightarrow> int) \<Rightarrow> string option \<Rightarrow> (ptr option \<Rightarrow> string option \<Rightarrow> dsc \<Rightarrow> dsc_start \<times> dsc) \<Rightarrow>
   osif \<Rightarrow> osif_wait \<times> osif" where
  "osif_driver_sync_start_wait_callback ret desc driver_start_cb s =
     (case osif_driver_sync_lookup s of
        None \<Rightarrow> (OsifReturned (- EAGAIN) None, s)
      | Some i \<Rightarrow>
          (case driver_start_cb (drv_dsc_driver (driver_sync s)) desc (osif_dsc s) of
             (Blocked t, h) \<Rightarrow> (OsifBlocked t i, s\<lparr>osif_dsc := h\<rparr>)
           | (Returned status, h) \<Rightarrow>
               (if QDF_IS_STATUS_ERROR status then OsifReturned (ret status) None
                else OsifReturned 0 (Some i), s\<lparr>osif_dsc := h\<rparr>)))"

definition osif_driver_sync_trans_start ::
  "(QDF_STATUS \<Rightarrow> int) \<Rightarrow> dsc_env \<Rightarrow> string option \<Rightarrow> osif \<Rightarrow> int \<times> nat option \<times> osif" where
  "osif_driver_sync_trans_start ret e desc s =
     osif_driver_sync_start_callback ret desc (dsc_driver_trans_start e) s"

definition osif_driver_sync_trans_start_wait ::
  "(QDF_STATUS \<Rightarrow> int) \<Rightarrow> dsc_env \<Rightarrow> ptr \<Rightarrow> string option \<Rightarrow> osif \<Rightarrow> osif_wait \<times> osif" where
  "osif_driver_sync_trans_start_wait ret e tran desc s =
     osif_driver_sync_start_wait_callback ret desc (dsc_driver_trans_start_wait e tran) s"

definition osif_driver_sync_trans_stop :: "dsc_env \<Rightarrow> osif \<Rightarrow> osif" where
  "osif_driver_sync_trans_stop e s =
     s\<lparr>osif_dsc := dsc_driver_trans_stop e (drv_dsc_driver (driver_sync s)) (osif_dsc s)\<rparr>"

definition osif_driver_sync_assert_trans_protected :: "osif \<Rightarrow> osif" where
  "osif_driver_sync_assert_trans_protected s0 =
     (let sync = osif_driver_sync_lookup s0; s = QDF_BUG (sync \<noteq> None) s0
      in case sync of
           None \<Rightarrow> s
         | Some _ \<Rightarrow> s\<lparr>osif_dsc := dsc_driver_assert_trans_protected (drv_dsc_driver (driver_sync s)) (osif_dsc s)\<rparr>)"

definition osif_driver_sync_op_start ::
  "(QDF_STATUS \<Rightarrow> int) \<Rightarrow> dsc_env \<Rightarrow> string option \<Rightarrow> osif \<Rightarrow> int \<times> nat option \<times> osif" where
  "osif_driver_sync_op_start ret e func s =
     osif_driver_sync_start_callback ret func (dsc_driver_op_start e) s"

definition osif_driver_sync_op_stop :: "dsc_env \<Rightarrow> string option \<Rightarrow> osif \<Rightarrow> osif" where
  "osif_driver_sync_op_stop e func s =
     s\<lparr>osif_dsc := dsc_driver_op_stop e (drv_dsc_driver (driver_sync s)) func (osif_dsc s)\<rparr>"

definition osif_driver_sync_wait_for_ops :: "osif \<Rightarrow> bool \<times> osif" where
  "osif_driver_sync_wait_for_ops s =
     (let (wait, h) = dsc_driver_wait_for_ops (drv_dsc_driver (driver_sync s)) (osif_dsc s)
      in (wait, s\<lparr>osif_dsc := h\<rparr>))"

text \<open>The psoc level creates its node under the driver that is registered.\<close>

definition osif_driver_sync_dsc_psoc_create :: "ptr option \<Rightarrow> osif \<Rightarrow> QDF_STATUS \<times> ptr option \<times> osif" where
  "osif_driver_sync_dsc_psoc_create mem s =
     (case osif_driver_sync_lookup s of
        None \<Rightarrow> (QDF_STATUS_E_INVAL, None, s)
      | Some _ \<Rightarrow>
          (let (status, out, h) = dsc_psoc_create (drv_dsc_driver (driver_sync s)) True mem (osif_dsc s)
           in (status, out, s\<lparr>osif_dsc := h\<rparr>)))"

end
