(* ===== verification/Osif_Psoc.thy ===== *)
theory Osif_Psoc
  imports Osif_Driver
begin

text \<open>
  The psoc contexts, \<^verbatim>\<open>src/os_if/sync/src/osif_psoc_sync.c\<close>: a static array that is
  looked up by \<^verbatim>\<open>struct device\<close>.  The two loops over the array are recursive
  functions on the list of contexts.
\<close>

section \<open>The table\<close>

fun osif_psoc_sync_lookup_from :: "nat \<Rightarrow> ptr option \<Rightarrow> osif_psoc_sync list \<Rightarrow> nat option" where
  "osif_psoc_sync_lookup_from i dev [] = None"
| "osif_psoc_sync_lookup_from i dev (x # xs) =
     (if \<not> ps_in_use x then osif_psoc_sync_lookup_from (Suc i) dev xs
      else if ps_dev x = dev then Some i
      else osif_psoc_sync_lookup_from (Suc i) dev xs)"

definition osif_psoc_sync_lookup :: "ptr option \<Rightarrow> osif_psoc_sync list \<Rightarrow> nat option" where
  "osif_psoc_sync_lookup dev arr = osif_psoc_sync_lookup_from 0 dev arr"

fun osif_psoc_sync_get_from :: "nat \<Rightarrow> osif_psoc_sync list \<Rightarrow> nat option \<times> osif_psoc_sync list" where
  "osif_psoc_sync_get_from i [] = (None, [])"
| "osif_psoc_sync_get_from i (x # xs) =
     (if \<not> ps_in_use x then (Some i, x\<lparr>ps_in_use := True\<rparr> # xs)
      else let (r, ys) = osif_psoc_sync_get_from (Suc i) xs in (r, x # ys))"

definition osif_psoc_sync_get :: "osif_psoc_sync list \<Rightarrow> nat option \<times> osif_psoc_sync list" where
  "osif_psoc_sync_get arr = osif_psoc_sync_get_from 0 arr"

definition osif_psoc_sync_zero :: osif_psoc_sync where
  "osif_psoc_sync_zero = \<lparr>ps_dev = None, ps_dsc_psoc = None, ps_in_use = False\<rparr>"

definition osif_psoc_sync_put :: "nat \<Rightarrow> osif \<Rightarrow> osif" where
  "osif_psoc_sync_put i s = s\<lparr>psoc_sync_arr := (psoc_sync_arr s)[i := osif_psoc_sync_zero]\<rparr>"

section \<open>Creation, destruction and registration\<close>

definition osif_psoc_sync_create ::
  "(QDF_STATUS \<Rightarrow> int) \<Rightarrow> bool \<Rightarrow> ptr option \<Rightarrow> osif \<Rightarrow> int \<times> nat option \<times> osif" where
  "osif_psoc_sync_create ret out mem s0 =
     (let s = QDF_BUG out s0 in
      if \<not> out then (- EINVAL, None, s)
      else case osif_psoc_sync_get (psoc_sync_arr s) of
        (None, _) \<Rightarrow> (- ENOMEM, None, s)
      | (Some i, arr) \<Rightarrow>
          (let (status, dp, s1) = osif_driver_sync_dsc_psoc_create mem (s\<lparr>psoc_sync_arr := arr\<rparr>);
               s2 = s1\<lparr>psoc_sync_arr := (psoc_sync_arr s1)[i := (psoc_sync_arr s1 ! i)\<lparr>ps_dsc_psoc := dp\<rparr>]\<rparr>
           in if QDF_IS_STATUS_ERROR status then (ret status, None, osif_psoc_sync_put i s2)
              else (0, Some i, s2)))"

definition osif_psoc_sync_destroy :: "nat option \<Rightarrow> osif \<Rightarrow> osif" where
  "osif_psoc_sync_destroy sync s0 =
     (let s = QDF_BUG (sync \<noteq> None) s0
      in case sync of
           None \<Rightarrow> s
         | Some i \<Rightarrow> osif_psoc_sync_put i
             (s\<lparr>osif_dsc := dsc_psoc_destroy (Some (ps_dsc_psoc (psoc_sync_arr s ! i))) (osif_dsc s)\<rparr>))"

definition osif_psoc_sync_create_and_trans ::
  "(QDF_STATUS \<Rightarrow> int) \<Rightarrow> dsc_env \<Rightarrow> ptr option \<Rightarrow> string option \<Rightarrow> osif \<Rightarrow> int \<times> nat option \<times> osif" where
  "osif_psoc_sync_create_and_trans ret e mem desc s =
     (case osif_psoc_sync_create ret True mem s of
        (errno, None, s1) \<Rightarrow> (errno, None, s1)
      | (errno, Some i, s1) \<Rightarrow>
          (if errno \<noteq> 0 then (errno, None, s1)
           else let (status, h) = dsc_psoc_trans_start e (ps_dsc_psoc (psoc_sync_arr s1 ! i)) desc (osif_dsc s1);
                    s2 = s1\<lparr>osif_dsc := h\<rparr>
                in if QDF_IS_STATUS_ERROR status then (ret status, None, osif_psoc_sync_destroy (Some i) s2)
                   else (0, Some i, s2)))"

definition osif_psoc_sync_register :: "ptr option \<Rightarrow> nat option \<Rightarrow> osif \<Rightarrow> osif" where
  "osif_psoc_sync_register dev sync s0 =
     (let s = QDF_BUG (sync \<noteq> None) (QDF_BUG (dev \<noteq> None) s0)
      in case sync of
           None \<Rightarrow> s
         | Some i \<Rightarrow> s\<lparr>psoc_sync_arr := (psoc_sync_arr s)[i := (psoc_sync_arr s ! i)\<lparr>ps_dev := dev\<rparr>]\<rparr>)"

definition osif_psoc_sync_unregister :: "ptr option \<Rightarrow> osif \<Rightarrow> nat option \<times> osif" where
  "osif_psoc_sync_unregister dev s0 =
     (let s = QDF_BUG (dev \<noteq> None) s0
      in if dev = None then (None, s)
         else case osif_psoc_sync_lookup dev (psoc_sync_arr s) of
                None \<Rightarrow> (None, s)
              | Some i \<Rightarrow> (Some i, s\<lparr>psoc_sync_arr := (psoc_sync_arr s)[i := (psoc_sync_arr s ! i)\<lparr>ps_dev := None\<rparr>]\<rparr>))"

section \<open>Transitions and operations\<close>

definition osif_psoc_sync_start_callback ::
  "(QDF_STATUS \<Rightarrow> int) \<Rightarrow> ptr option \<Rightarrow> string option \<Rightarrow>
   (ptr option \<Rightarrow> string option \<Rightarrow> dsc \<Rightarrow> QDF_STATUS \<times> dsc) \<Rightarrow> osif \<Rightarrow> int \<times> nat option \<times> osif" where
  "osif_psoc_sync_start_callback ret dev desc psoc_start_cb s =
     (case osif_psoc_sync_lookup dev (psoc_sync_arr s) of
        None \<Rightarrow> (- EAGAIN, None, s)
      | Some i \<Rightarrow>
          (let (status, h) = psoc_start_cb (ps_dsc_psoc (psoc_sync_arr s ! i)) desc (osif_dsc s);
               s1 = s\<lparr>osif_dsc := h\<rparr>
           in if QDF_IS_STATUS_ERROR status then (ret status, None, s1) else (0, Some i, s1)))"

definition osif_psoc_sync_start_wait_callback ::
  "(QDF_STATUS \<Rightarrow> int) \<Rightarrow> ptr option \<Rightarrow> string option \<Rightarrow>
   (ptr option \<Rightarrow> string option \<Rightarrow> dsc \<Rightarrow> dsc_start \<times> dsc) \<Rightarrow> osif \<Rightarrow> osif_wait \<times> osif" where
  "osif_psoc_sync_start_wait_callback ret dev desc psoc_start_cb s =
     (case osif_psoc_sync_lookup dev (psoc_sync_arr s) of
        None \<Rightarrow> (OsifReturned (- EAGAIN) None, s)
      | Some i \<Rightarrow>
          (case psoc_start_cb (ps_dsc_psoc (psoc_sync_arr s ! i)) desc (osif_dsc s) of
             (Blocked t, h) \<Rightarrow> (OsifBlocked t i, s\<lparr>osif_dsc := h\<rparr>)
           | (Returned status, h) \<Rightarrow>
               (if QDF_IS_STATUS_ERROR status then OsifReturned (ret status) None
                else OsifReturned 0 (Some i), s\<lparr>osif_dsc := h\<rparr>)))"

definition osif_psoc_sync_trans_start ::
  "(QDF_STATUS \<Rightarrow> int) \<Rightarrow> dsc_env \<Rightarrow> ptr option \<Rightarrow> string option \<Rightarrow> osif \<Rightarrow> int \<times> nat option \<times> osif" where
  "osif_psoc_sync_trans_start ret e dev desc s = osif_psoc_sync_start_callback ret dev desc (dsc_psoc_trans_start e) s"

definition osif_psoc_sync_trans_start_wait ::
  "(QDF_STATUS \<Rightarrow> int) \<Rightarrow> dsc_env \<Rightarrow> ptr \<Rightarrow> ptr option \<Rightarrow> string option \<Rightarrow> osif \<Rightarrow> osif_wait \<times> osif" where
  "osif_psoc_sync_trans_start_wait ret e tran dev desc s =
     osif_psoc_sync_start_wait_callback ret dev desc (dsc_psoc_trans_start_wait e tran) s"

text \<open>Resuming a transition only asserts that the caller is protected by one.\<close>

definition assert_trans_cb :: "ptr option \<Rightarrow> string option \<Rightarrow> dsc \<Rightarrow> QDF_STATUS \<times> dsc" where
  "assert_trans_cb dsc_psoc desc h = (QDF_STATUS_SUCCESS, dsc_psoc_assert_trans_protected dsc_psoc h)"

definition osif_psoc_sync_trans_resume ::
  "(QDF_STATUS \<Rightarrow> int) \<Rightarrow> ptr option \<Rightarrow> osif \<Rightarrow> int \<times> nat option \<times> osif" where
  "osif_psoc_sync_trans_resume ret dev s = osif_psoc_sync_start_callback ret dev None assert_trans_cb s"

definition osif_psoc_sync_trans_stop :: "dsc_env \<Rightarrow> nat \<Rightarrow> osif \<Rightarrow> osif" where
  "osif_psoc_sync_trans_stop e i s =
     s\<lparr>osif_dsc := dsc_psoc_trans_stop e (ps_dsc_psoc (psoc_sync_arr s ! i)) (osif_dsc s)\<rparr>"

definition osif_psoc_sync_assert_trans_protected :: "ptr option \<Rightarrow> osif \<Rightarrow> osif" where
  "osif_psoc_sync_assert_trans_protected dev s0 =
     (let sync = osif_psoc_sync_lookup dev (psoc_sync_arr s0); s = QDF_BUG (sync \<noteq> None) s0
      in case sync of
           None \<Rightarrow> s
         | Some i \<Rightarrow> s\<lparr>osif_dsc := dsc_psoc_assert_trans_protected (ps_dsc_psoc (psoc_sync_arr s ! i)) (osif_dsc s)\<rparr>)"

definition osif_psoc_sync_op_start ::
  "(QDF_STATUS \<Rightarrow> int) \<Rightarrow> dsc_env \<Rightarrow> ptr option \<Rightarrow> string option \<Rightarrow> osif \<Rightarrow> int \<times> nat option \<times> osif" where
  "osif_psoc_sync_op_start ret e dev func s = osif_psoc_sync_start_callback ret dev func (dsc_psoc_op_start e) s"

definition osif_psoc_sync_op_stop :: "dsc_env \<Rightarrow> nat \<Rightarrow> string option \<Rightarrow> osif \<Rightarrow> osif" where
  "osif_psoc_sync_op_stop e i func s =
     s\<lparr>osif_dsc := dsc_psoc_op_stop e (ps_dsc_psoc (psoc_sync_arr s ! i)) func (osif_dsc s)\<rparr>"

definition osif_psoc_sync_wait_for_ops :: "nat \<Rightarrow> osif \<Rightarrow> bool \<times> osif" where
  "osif_psoc_sync_wait_for_ops i s =
     (let (wait, h) = dsc_psoc_wait_for_ops (ps_dsc_psoc (psoc_sync_arr s ! i)) (osif_dsc s)
      in (wait, s\<lparr>osif_dsc := h\<rparr>))"

text \<open>The vdev level creates its node under the psoc that is registered for the device.\<close>

definition osif_psoc_sync_dsc_vdev_create ::
  "ptr option \<Rightarrow> ptr option \<Rightarrow> osif \<Rightarrow> QDF_STATUS \<times> ptr option \<times> osif" where
  "osif_psoc_sync_dsc_vdev_create dev mem s =
     (case osif_psoc_sync_lookup dev (psoc_sync_arr s) of
        None \<Rightarrow> (QDF_STATUS_E_INVAL, None, s)
      | Some i \<Rightarrow>
          (let (status, out, h) = dsc_vdev_create (ps_dsc_psoc (psoc_sync_arr s ! i)) True mem (osif_dsc s)
           in (status, out, s\<lparr>osif_dsc := h\<rparr>)))"

section \<open>The table interface\<close>

lemma psoc_lookup_find:
  "osif_psoc_sync_lookup_from n k xs = find_index_from (\<lambda>x. ps_in_use x \<and> ps_dev x = k) n xs"
  by (induction xs arbitrary: n) auto

lemma psoc_get_find:
  "osif_psoc_sync_get_from n xs =
     (case find_index_from (\<lambda>x. \<not> ps_in_use x) 0 xs of
        None \<Rightarrow> (None, xs)
      | Some i \<Rightarrow> (Some (n + i), xs[i := (xs ! i)\<lparr>ps_in_use := True\<rparr>]))"
  by (induction xs arbitrary: n) (auto simp: find_index_from_shift split: option.splits)

lemma psoc_get_eq:
  "osif_psoc_sync_get xs =
     (case find_index_from (\<lambda>x. \<not> ps_in_use x) 0 xs of
        None \<Rightarrow> (None, xs)
      | Some i \<Rightarrow> (Some i, xs[i := (xs ! i)\<lparr>ps_in_use := True\<rparr>]))"
  by (simp add: osif_psoc_sync_get_def psoc_get_find split: option.split)

interpretation psoc_table: slot_table ps_in_use ps_dev "\<lambda>k x. x\<lparr>ps_dev := k\<rparr>" osif_psoc_sync_zero osif_psoc_sync_lookup osif_psoc_sync_get
proof
  show "\<not> ps_in_use osif_psoc_sync_zero" by (simp add: osif_psoc_sync_zero_def)
  show "osif_psoc_sync_lookup k xs = Some i \<longleftrightarrow> i < length xs \<and> ps_in_use (xs ! i) \<and> ps_dev (xs ! i) = k \<and>
      (\<forall>j < i. \<not> (ps_in_use (xs ! j) \<and> ps_dev (xs ! j) = k))" for k xs i
    by (simp add: osif_psoc_sync_lookup_def psoc_lookup_find find_index_from_0_Some)
  show "osif_psoc_sync_get xs = (Some i, ys) \<Longrightarrow> i < length xs \<and> \<not> ps_in_use (xs ! i) \<and>
      (\<exists>y. ys = xs[i := y] \<and> ps_in_use y \<and> ps_dev y = ps_dev (xs ! i))" for xs i ys
    by (force simp: psoc_get_eq find_index_from_0_Some split: option.splits)
  show "osif_psoc_sync_get xs = (None, ys) \<Longrightarrow> ys = xs \<and> (\<forall>x \<in> set xs. ps_in_use x)" for xs ys
    by (auto simp: psoc_get_eq find_index_from_None split: option.splits)
qed simp_all

end
