(* ===== verification/Osif_Vdev.thy ===== *)
theory Osif_Vdev
  imports Osif_Psoc
begin

text \<open>
  The vdev contexts, \<^verbatim>\<open>src/os_if/sync/src/osif_vdev_sync.c\<close>: a static array that is
  looked up by \<^verbatim>\<open>struct net_device\<close>.  The cached command of a context without a
  node would be read through a null pointer; the model returns \<open>None\<close> there.
\<close>

section \<open>The table\<close>

fun osif_vdev_sync_lookup_from :: "nat \<Rightarrow> ptr option \<Rightarrow> osif_vdev_sync list \<Rightarrow> nat option" where
  "osif_vdev_sync_lookup_from i net_dev [] = None"
| "osif_vdev_sync_lookup_from i net_dev (x # xs) =
     (if \<not> vs_in_use x then osif_vdev_sync_lookup_from (Suc i) net_dev xs
      else if vs_net_dev x = net_dev then Some i
      else osif_vdev_sync_lookup_from (Suc i) net_dev xs)"

definition osif_vdev_sync_lookup :: "ptr option \<Rightarrow> osif_vdev_sync list \<Rightarrow> nat option" where
  "osif_vdev_sync_lookup net_dev arr = osif_vdev_sync_lookup_from 0 net_dev arr"

fun osif_vdev_sync_get_from :: "nat \<Rightarrow> osif_vdev_sync list \<Rightarrow> nat option \<times> osif_vdev_sync list" where
  "osif_vdev_sync_get_from i [] = (None, [])"
| "osif_vdev_sync_get_from i (x # xs) =
     (if \<not> vs_in_use x then (Some i, x\<lparr>vs_in_use := True\<rparr> # xs)
      else let (r, ys) = osif_vdev_sync_get_from (Suc i) xs in (r, x # ys))"

definition osif_vdev_sync_get :: "osif_vdev_sync list \<Rightarrow> nat option \<times> osif_vdev_sync list" where
  "osif_vdev_sync_get arr = osif_vdev_sync_get_from 0 arr"

definition osif_vdev_sync_zero :: osif_vdev_sync where
  "osif_vdev_sync_zero = \<lparr>vs_net_dev = None, vs_dsc_vdev = None, vs_in_use = False\<rparr>"

definition osif_vdev_sync_put :: "nat \<Rightarrow> osif \<Rightarrow> osif" where
  "osif_vdev_sync_put i s = s\<lparr>vdev_sync_arr := (vdev_sync_arr s)[i := osif_vdev_sync_zero]\<rparr>"

section \<open>Creation, destruction and registration\<close>

definition osif_vdev_sync_create ::
  "(QDF_STATUS \<Rightarrow> int) \<Rightarrow> ptr option \<Rightarrow> bool \<Rightarrow> ptr option \<Rightarrow> osif \<Rightarrow> int \<times> nat option \<times> osif" where
  "osif_vdev_sync_create ret dev out mem s0 =
     (let s = QDF_BUG (dev \<noteq> None) s0 in
      if dev = None then (- EINVAL, None, s)
      else let s' = QDF_BUG out s in
      if \<not> out then (- EINVAL, None, s')
      else case osif_vdev_sync_get (vdev_sync_arr s') of
        (None, _) \<Rightarrow> (- ENOMEM, None, s')
      | (Some i, arr) \<Rightarrow>
          (let (status, dp, s1) = osif_psoc_sync_dsc_vdev_create dev mem (s'\<lparr>vdev_sync_arr := arr\<rparr>);
               s2 = s1\<lparr>vdev_sync_arr := (vdev_sync_arr s1)[i := (vdev_sync_arr s1 ! i)\<lparr>vs_dsc_vdev := dp\<rparr>]\<rparr>
           in if QDF_IS_STATUS_ERROR status then (ret status, None, osif_vdev_sync_put i s2)
              else (0, Some i, s2)))"

definition osif_vdev_sync_destroy :: "nat option \<Rightarrow> osif \<Rightarrow> osif" where
  "osif_vdev_sync_destroy sync s0 =
     (let s = QDF_BUG (sync \<noteq> None) s0
      in case sync of
           None \<Rightarrow> s
         | Some i \<Rightarrow> osif_vdev_sync_put i
             (s\<lparr>osif_dsc := dsc_vdev_destroy (Some (vs_dsc_vdev (vdev_sync_arr s ! i))) (osif_dsc s)\<rparr>))"

definition osif_vdev_sync_create_and_trans ::
  "(QDF_STATUS \<Rightarrow> int) \<Rightarrow> dsc_env \<Rightarrow> ptr option \<Rightarrow> ptr option \<Rightarrow> string option \<Rightarrow> osif \<Rightarrow> int \<times> nat option \<times> osif" where
  "osif_vdev_sync_create_and_trans ret e dev mem desc s =
     (case osif_vdev_sync_create ret dev True mem s of
        (errno, None, s1) \<Rightarrow> (errno, None, s1)
      | (errno, Some i, s1) \<Rightarrow>
          (if errno \<noteq> 0 then (errno, None, s1)
           else let (status, h) = dsc_vdev_trans_start e (vs_dsc_vdev (vdev_sync_arr s1 ! i)) desc (osif_dsc s1);
                    s2 = s1\<lparr>osif_dsc := h\<rparr>
                in if QDF_IS_STATUS_ERROR status then (ret status, None, osif_vdev_sync_destroy (Some i) s2)
                   else (0, Some i, s2)))"

definition osif_vdev_sync_register :: "ptr option \<Rightarrow> nat option \<Rightarrow> osif \<Rightarrow> osif" where
  "osif_vdev_sync_register net_dev sync s0 =
     (let s = QDF_BUG (sync \<noteq> None) (QDF_BUG (net_dev \<noteq> None) s0)
      in case sync of
           None \<Rightarrow> s
         | Some i \<Rightarrow> s\<lparr>vdev_sync_arr := (vdev_sync_arr s)[i := (vdev_sync_arr s ! i)\<lparr>vs_net_dev := net_dev\<rparr>]\<rparr>)"

definition osif_vdev_sync_unregister :: "ptr option \<Rightarrow> osif \<Rightarrow> nat option \<times> osif" where
  "osif_vdev_sync_unregister net_dev s0 =
     (let s = QDF_BUG (net_dev \<noteq> None) s0
      in if net_dev = None then (None, s)
         else case osif_vdev_sync_lookup net_dev (vdev_sync_arr s) of
                None \<Rightarrow> (None, s)
              | Some i \<Rightarrow> (Some i, s\<lparr>vdev_sync_arr := (vdev_sync_arr s)[i := (vdev_sync_arr s ! i)\<lparr>vs_net_dev := None\<rparr>]\<rparr>))"

section \<open>Transitions and operations\<close>

text \<open>
  The callback variant stores the context through the out parameter before it
  calls the core, so the out parameter is also set when the call fails.
\<close>

definition osif_vdev_sync_start_callback ::
  "(QDF_STATUS \<Rightarrow> int) \<Rightarrow> ptr option \<Rightarrow> string option \<Rightarrow>
   (ptr option \<Rightarrow> string option \<Rightarrow> dsc \<Rightarrow> QDF_STATUS \<times> dsc) \<Rightarrow> osif \<Rightarrow> int \<times> nat option \<times> osif" where
  "osif_vdev_sync_start_callback ret net_dev desc vdev_start_cb s =
     (case osif_vdev_sync_lookup net_dev (vdev_sync_arr s) of
        None \<Rightarrow> (- EAGAIN, None, s)
      | Some i \<Rightarrow>
          (let (status, h) = vdev_start_cb (vs_dsc_vdev (vdev_sync_arr s ! i)) desc (osif_dsc s);
               s1 = s\<lparr>osif_dsc := h\<rparr>
           in if QDF_IS_STATUS_ERROR status then (ret status, Some i, s1) else (0, Some i, s1)))"

definition osif_vdev_sync_start_wait_callback ::
  "(QDF_STATUS \<Rightarrow> int) \<Rightarrow> ptr option \<Rightarrow> string option \<Rightarrow>
   (ptr option \<Rightarrow> string option \<Rightarrow> dsc \<Rightarrow> dsc_start \<times> dsc) \<Rightarrow> osif \<Rightarrow> osif_wait \<times> osif" where
  "osif_vdev_sync_start_wait_callback ret net_dev desc vdev_start_cb s =
     (case osif_vdev_sync_lookup net_dev (vdev_sync_arr s) of
        None \<Rightarrow> (OsifReturned (- EAGAIN) None, s)
      | Some i \<Rightarrow>
          (case vdev_start_cb (vs_dsc_vdev (vdev_sync_arr s ! i)) desc (osif_dsc s) of
             (Blocked t, h) \<Rightarrow> (OsifBlocked t i, s\<lparr>osif_dsc := h\<rparr>)
           | (Returned status, h) \<Rightarrow>
               (if QDF_IS_STATUS_ERROR status then OsifReturned (ret status) None
                else OsifReturned 0 (Some i), s\<lparr>osif_dsc := h\<rparr>)))"

definition osif_vdev_sync_trans_start ::
  "(QDF_STATUS \<Rightarrow> int) \<Rightarrow> dsc_env \<Rightarrow> ptr option \<Rightarrow> string option \<Rightarrow> osif \<Rightarrow> int \<times> nat option \<times> osif" where
  "osif_vdev_sync_trans_start ret e net_dev desc s = osif_vdev_sync_start_callback ret net_dev desc (dsc_vdev_trans_start e) s"

definition osif_vdev_sync_trans_start_wait ::
  "(QDF_STATUS \<Rightarrow> int) \<Rightarrow> dsc_env \<Rightarrow> ptr \<Rightarrow> ptr option \<Rightarrow> string option \<Rightarrow> osif \<Rightarrow> osif_wait \<times> osif" where
  "osif_vdev_sync_trans_start_wait ret e tran net_dev desc s =
     osif_vdev_sync_start_wait_callback ret net_dev desc (dsc_vdev_trans_start_wait e tran) s"

definition osif_vdev_sync_trans_stop :: "dsc_env \<Rightarrow> nat \<Rightarrow> osif \<Rightarrow> osif" where
  "osif_vdev_sync_trans_stop e i s =
     s\<lparr>osif_dsc := dsc_vdev_trans_stop e (vs_dsc_vdev (vdev_sync_arr s ! i)) (osif_dsc s)\<rparr>"

definition osif_vdev_sync_assert_trans_protected :: "ptr option \<Rightarrow> osif \<Rightarrow> osif" where
  "osif_vdev_sync_assert_trans_protected net_dev s0 =
     (let sync = osif_vdev_sync_lookup net_dev (vdev_sync_arr s0); s = QDF_BUG (sync \<noteq> None) s0
      in case sync of
           None \<Rightarrow> s
         | Some i \<Rightarrow> s\<lparr>osif_dsc := dsc_vdev_assert_trans_protected (vs_dsc_vdev (vdev_sync_arr s ! i)) (osif_dsc s)\<rparr>)"

definition osif_vdev_sync_op_start ::
  "(QDF_STATUS \<Rightarrow> int) \<Rightarrow> dsc_env \<Rightarrow> ptr option \<Rightarrow> string option \<Rightarrow> osif \<Rightarrow> int \<times> nat option \<times> osif" where
  "osif_vdev_sync_op_start ret e net_dev func s = osif_vdev_sync_start_callback ret net_dev func (dsc_vdev_op_start e) s"

definition osif_vdev_sync_op_stop :: "dsc_env \<Rightarrow> nat \<Rightarrow> string option \<Rightarrow> osif \<Rightarrow> osif" where
  "osif_vdev_sync_op_stop e i func s =
     s\<lparr>osif_dsc := dsc_vdev_op_stop e (vs_dsc_vdev (vdev_sync_arr s ! i)) func (osif_dsc s)\<rparr>"

definition osif_vdev_sync_wait_for_ops :: "nat \<Rightarrow> osif \<Rightarrow> bool \<times> osif" where
  "osif_vdev_sync_wait_for_ops i s =
     (let (wait, h) = dsc_vdev_wait_for_ops (vs_dsc_vdev (vdev_sync_arr s ! i)) (osif_dsc s)
      in (wait, s\<lparr>osif_dsc := h\<rparr>))"

definition osif_vdev_get_cached_cmd :: "nat \<Rightarrow> osif \<Rightarrow> u8 option" where
  "osif_vdev_get_cached_cmd i s =
     map_option (\<lambda>v. dsc_vdev_get_cached_cmd v (osif_dsc s)) (vs_dsc_vdev (vdev_sync_arr s ! i))"

definition osif_vdev_cache_command :: "nat \<Rightarrow> u8 \<Rightarrow> osif \<Rightarrow> osif option" where
  "osif_vdev_cache_command i cmd_id s =
     map_option (\<lambda>v. s\<lparr>osif_dsc := dsc_vdev_cache_command v cmd_id (osif_dsc s)\<rparr>)
       (vs_dsc_vdev (vdev_sync_arr s ! i))"

section \<open>The table interface\<close>

lemma vdev_lookup_find:
  "osif_vdev_sync_lookup_from n k xs = find_index_from (\<lambda>x. vs_in_use x \<and> vs_net_dev x = k) n xs"
  by (induction xs arbitrary: n) auto

lemma vdev_get_find:
  "osif_vdev_sync_get_from n xs =
     (case find_index_from (\<lambda>x. \<not> vs_in_use x) 0 xs of
        None \<Rightarrow> (None, xs)
      | Some i \<Rightarrow> (Some (n + i), xs[i := (xs ! i)\<lparr>vs_in_use := True\<rparr>]))"
  by (induction xs arbitrary: n) (auto simp: find_index_from_shift split: option.splits)

lemma vdev_get_eq:
  "osif_vdev_sync_get xs =
     (case find_index_from (\<lambda>x. \<not> vs_in_use x) 0 xs of
        None \<Rightarrow> (None, xs)
      | Some i \<Rightarrow> (Some i, xs[i := (xs ! i)\<lparr>vs_in_use := True\<rparr>]))"
  by (simp add: osif_vdev_sync_get_def vdev_get_find split: option.split)

interpretation vdev_table: slot_table vs_in_use vs_net_dev "\<lambda>k x. x\<lparr>vs_net_dev := k\<rparr>" osif_vdev_sync_zero osif_vdev_sync_lookup osif_vdev_sync_get
proof
  show "\<not> vs_in_use osif_vdev_sync_zero" by (simp add: osif_vdev_sync_zero_def)
  show "osif_vdev_sync_lookup k xs = Some i \<longleftrightarrow> i < length xs \<and> vs_in_use (xs ! i) \<and> vs_net_dev (xs ! i) = k \<and>
      (\<forall>j < i. \<not> (vs_in_use (xs ! j) \<and> vs_net_dev (xs ! j) = k))" for k xs i
    by (simp add: osif_vdev_sync_lookup_def vdev_lookup_find find_index_from_0_Some)
  show "osif_vdev_sync_get xs = (Some i, ys) \<Longrightarrow> i < length xs \<and> \<not> vs_in_use (xs ! i) \<and>
      (\<exists>y. ys = xs[i := y] \<and> vs_in_use y \<and> vs_net_dev y = vs_net_dev (xs ! i))" for xs i ys
    by (force simp: vdev_get_eq find_index_from_0_Some split: option.splits)
  show "osif_vdev_sync_get xs = (None, ys) \<Longrightarrow> ys = xs \<and> (\<forall>x \<in> set xs. vs_in_use x)" for xs ys
    by (auto simp: vdev_get_eq find_index_from_None split: option.splits)
qed simp_all

end
