(* ===== verification/Osif_Props.thy ===== *)
theory Osif_Props
  imports Osif_Vdev
begin

text \<open>
  What the OS interface synchronisation layer adds to the core: requests are
  addressed by kernel objects, a context that is not registered cannot be
  reached, and a creation that fails half way is undone.  \<open>ret\<close> stands for
  \<^verbatim>\<open>qdf_status_to_os_return\<close>; that it maps no error to 0 is a hypothesis where
  a theorem needs it.
\<close>

section \<open>Exclusion through the layer\<close>

lemma vdev_start_0:
  assumes "osif_vdev_sync_trans_start ret e nd (Some desc) s = (0, sync, s1)"
    and "\<And>st. st \<noteq> QDF_STATUS_SUCCESS \<Longrightarrow> ret st \<noteq> 0"
  obtains i v h where "osif_vdev_sync_lookup nd (vdev_sync_arr s) = Some i" and "sync = Some i"
    and "vs_dsc_vdev (vdev_sync_arr s ! i) = Some v"
    and "dsc_vdev_trans_start e (Some v) (Some desc) (osif_dsc s) = (QDF_STATUS_SUCCESS, h)"
    and "s1 = s\<lparr>osif_dsc := h\<rparr>"
proof -
  obtain i where i: "osif_vdev_sync_lookup nd (vdev_sync_arr s) = Some i"
    using assms(1) by (auto simp: osif_vdev_sync_trans_start_def osif_vdev_sync_start_callback_def
        errno_defs split: option.splits)
  obtain st h where c: "dsc_vdev_trans_start e (vs_dsc_vdev (vdev_sync_arr s ! i)) (Some desc) (osif_dsc s) = (st, h)"
    by fastforce
  have st: "st = QDF_STATUS_SUCCESS" "sync = Some i" "s1 = s\<lparr>osif_dsc := h\<rparr>"
    using assms i c by (auto simp: osif_vdev_sync_trans_start_def osif_vdev_sync_start_callback_def Let_def split: if_splits)
  then obtain v where "vs_dsc_vdev (vdev_sync_arr s ! i) = Some v"
    using c by (cases "vs_dsc_vdev (vdev_sync_arr s ! i)") (auto simp: dsc_vdev_trans_start_def)
  then show ?thesis using that i c st by simp
qed

text \<open>C6. A net device for which a transition has been started refuses a second transition and
  every operation until the transition is stopped, and the refused calls change nothing.\<close>

theorem osif_vdev_trans_exclusive:
  assumes start: "osif_vdev_sync_trans_start ret e nd (Some desc) s = (0, sync, s1)"
    and ret: "\<And>st. st \<noteq> QDF_STATUS_SUCCESS \<Longrightarrow> ret st \<noteq> 0"
  shows "fst (osif_vdev_sync_trans_start ret e' nd (Some desc') s1) \<noteq> 0 \<and>
     snd (snd (osif_vdev_sync_trans_start ret e' nd (Some desc') s1)) = s1 \<and>
     fst (osif_vdev_sync_op_start ret e' nd (Some func) s1) \<noteq> 0 \<and>
     snd (snd (osif_vdev_sync_op_start ret e' nd (Some func) s1)) = s1"
proof -
  obtain i v h where i: "osif_vdev_sync_lookup nd (vdev_sync_arr s) = Some i" and "sync = Some i"
    and v: "vs_dsc_vdev (vdev_sync_arr s ! i) = Some v"
    and c: "dsc_vdev_trans_start e (Some v) (Some desc) (osif_dsc s) = (QDF_STATUS_SUCCESS, h)"
    and s1: "s1 = s\<lparr>osif_dsc := h\<rparr>"
    by (rule vdev_start_0 [OF start ret])
  obtain st h' where c': "dsc_vdev_trans_start e' (Some v) (Some desc') h = (st, h')" by fastforce
  have tw: "st \<noteq> QDF_STATUS_SUCCESS" "h' = h"
    using vdev_node.start_busy [OF vdev_node.start_ok [OF c], of e' desc'] vdev_node.start_refused [OF c'] c' by auto
  have "dsc_trans_active (VdevNode v) h" by (rule vdev_node.start_ok [OF c])
  then have "dsc_vdev_can_trans e' v h \<noteq> QDF_STATUS_SUCCESS"
    by (auto simp: dsc_vdev_can_trans_def dsc_trans_active_or_queued_def)
  then have "dsc_vdev_op_start e' (Some v) (Some func) h = (dsc_vdev_can_trans e' v h, h)"
    by (simp add: dsc_vdev_op_start_def)
  then show ?thesis
    using ret tw i v c' s1 \<open>dsc_vdev_can_trans e' v h \<noteq> QDF_STATUS_SUCCESS\<close>
    by (simp add: osif_vdev_sync_trans_start_def osif_vdev_sync_op_start_def osif_vdev_sync_start_callback_def)
qed

section \<open>Registration\<close>

text \<open>Registration is what makes a context reachable: after it the net device finds this
  context and every other device finds what it found before; unregistering returns the context, after
  which a start for the device is refused without touching the core.\<close>

theorem osif_vdev_registration:
  assumes ok: "vdev_table.keys_ok (vdev_sync_arr s)" and i: "i < length (vdev_sync_arr s)"
    and used: "vs_in_use (vdev_sync_arr s ! i)" and free: "vs_net_dev (vdev_sync_arr s ! i) = None"
    and new: "osif_vdev_sync_lookup (Some nd) (vdev_sync_arr s) = None"
    and s1: "s1 = osif_vdev_sync_register (Some nd) (Some i) s"
    and s2: "osif_vdev_sync_unregister (Some nd) s1 = (sync, s2)"
  shows "osif_vdev_sync_lookup (Some nd) (vdev_sync_arr s1) = Some i \<and>
     (\<forall>k. k \<noteq> nd \<longrightarrow> osif_vdev_sync_lookup (Some k) (vdev_sync_arr s1) = osif_vdev_sync_lookup (Some k) (vdev_sync_arr s)) \<and>
     sync = Some i \<and>
     osif_vdev_sync_trans_start ret e (Some nd) desc s2 = (- EAGAIN, None, s2)"
proof -
  let ?xs = "vdev_sync_arr s"
  have arr: "vdev_sync_arr s1 = ?xs[i := (?xs ! i)\<lparr>vs_net_dev := Some nd\<rparr>]"
    by (simp add: s1 osif_vdev_sync_register_def)
  have at: "osif_vdev_sync_lookup (Some nd) (vdev_sync_arr s1) = Some i"
    unfolding arr by (rule vdev_table.register_lookup [OF i used new])
  have others: "osif_vdev_sync_lookup (Some k) (vdev_sync_arr s1) = osif_vdev_sync_lookup (Some k) ?xs" if "k \<noteq> nd" for k
    unfolding arr by (rule vdev_table.register_other [OF i free that])
  have ok1: "vdev_table.keys_ok (vdev_sync_arr s1)"
    unfolding arr by (rule vdev_table.register_keys_ok [OF ok new])
  have un: "sync = Some i"
    "vdev_sync_arr s2 = (vdev_sync_arr s1)[i := (vdev_sync_arr s1 ! i)\<lparr>vs_net_dev := None\<rparr>]"
    using s2 at by (auto simp: osif_vdev_sync_unregister_def)
  have "osif_vdev_sync_lookup (Some nd) (vdev_sync_arr s2) = None"
    unfolding un(2) by (rule vdev_table.unregister_lookup(1) [OF ok1 at])
  then show ?thesis
    using at others un(1) by (simp add: osif_vdev_sync_trans_start_def osif_vdev_sync_start_callback_def)
qed

section \<open>Creation\<close>

text \<open>Unused contexts of the array are zero, as the static initialiser and every put leave them.\<close>

definition vdev_arr_ok :: "osif_vdev_sync list \<Rightarrow> bool" where
  "vdev_arr_ok xs \<longleftrightarrow> (\<forall>x \<in> set xs. \<not> vs_in_use x \<longrightarrow> x = osif_vdev_sync_zero)"

lemma vdev_create_cases:
  assumes "osif_vdev_sync_create ret (Some dev) True mem s = (errno, sync, s1)"
    and ok: "vdev_arr_ok (vdev_sync_arr s)"
  shows "(\<forall>x \<in> set (vdev_sync_arr s). vs_in_use x) \<and> errno = - ENOMEM \<and> sync = None \<and> s1 = s \<or>
     (\<exists>i dp st h. i < length (vdev_sync_arr s) \<and> vdev_sync_arr s ! i = osif_vdev_sync_zero \<and>
        (st, dp, h) = (case osif_psoc_sync_lookup (Some dev) (psoc_sync_arr s) of
           None \<Rightarrow> (QDF_STATUS_E_INVAL, None, osif_dsc s)
         | Some j \<Rightarrow> dsc_vdev_create (ps_dsc_psoc (psoc_sync_arr s ! j)) True mem (osif_dsc s)) \<and>
        (if st = QDF_STATUS_SUCCESS
         then errno = 0 \<and> sync = Some i \<and> s1 = s\<lparr>osif_dsc := h, vdev_sync_arr := (vdev_sync_arr s)
           [i := \<lparr>vs_net_dev = None, vs_dsc_vdev = dp, vs_in_use = True\<rparr>]\<rparr>
         else errno = ret st \<and> sync = None \<and> s1 = s\<lparr>osif_dsc := h\<rparr>))"
proof (cases "osif_vdev_sync_get (vdev_sync_arr s)")
  case (Pair r arr)
  show ?thesis
  proof (cases r)
    case None
    then show ?thesis
      using assms(1) Pair vdev_table.get_None [of "vdev_sync_arr s" arr] by (simp add: osif_vdev_sync_create_def)
  next
    case (Some i)
    have f: "find_index_from (\<lambda>x. \<not> vs_in_use x) 0 (vdev_sync_arr s) = Some i"
      and arr: "arr = (vdev_sync_arr s)[i := (vdev_sync_arr s ! i)\<lparr>vs_in_use := True\<rparr>]"
      using Pair Some by (auto simp: vdev_get_eq split: option.splits)
    then have i: "i < length (vdev_sync_arr s)" "vdev_sync_arr s ! i = osif_vdev_sync_zero"
      using ok by (auto simp: find_index_from_0_Some vdev_arr_ok_def)
    obtain st dp h where c: "(case osif_psoc_sync_lookup (Some dev) (psoc_sync_arr s) of
           None \<Rightarrow> (QDF_STATUS_E_INVAL, None, osif_dsc s)
         | Some j \<Rightarrow> dsc_vdev_create (ps_dsc_psoc (psoc_sync_arr s ! j)) True mem (osif_dsc s)) = (st, dp, h)"
      by (metis prod_cases3)
    then have "osif_psoc_sync_dsc_vdev_create (Some dev) mem (s\<lparr>vdev_sync_arr := arr\<rparr>) =
        (st, dp, s\<lparr>vdev_sync_arr := arr, osif_dsc := h\<rparr>)"
      by (auto simp: osif_psoc_sync_dsc_vdev_create_def split: option.splits)
    then show ?thesis
      using assms(1) Pair Some i c arr
      by (intro disjI2 exI [of _ i] exI [of _ dp] exI [of _ st] exI [of _ h])
        (auto simp: osif_vdev_sync_create_def osif_vdev_sync_put_def osif_vdev_sync_zero_def list_update_same_conv
          split: if_splits)
  qed
qed

text \<open>A vdev node that was created and is destroyed again leaves no trace in the tree.\<close>

lemma vdev_create_destroy:
  assumes c: "dsc_vdev_create (Some p) True (Some v) h = (st, dp, h1)"
    and fresh: "v \<notin> set (psoc_vdevs (psocs h p))"
    and h2: "h2 = dsc_vdev_destroy (Some (Some v)) h1"
  shows "psocs h2 = psocs h" and "drivers h2 = drivers h" and "trans_store h2 = trans_store h"
    and "dsc_panic h2 = dsc_panic h" and "n \<noteq> VdevNode v \<Longrightarrow> trans_of h2 n = trans_of h n \<and> ops_of h2 n = ops_of h n"
proof -
  have h1: "trans_queue (trans_of h1 (VdevNode v)) = []" "vdev_psoc (vdevs h1 v) = p"
    "psocs h1 = (psocs h)(p := (psocs h p)\<lparr>psoc_vdevs := psoc_vdevs (psocs h p) @ [v]\<rparr>)"
    "drivers h1 = drivers h" "trans_store h1 = trans_store h" "dsc_panic h1 = dsc_panic h"
    "ops_count (ops_of h1 (VdevNode v)) = 0"
    "n \<noteq> VdevNode v \<Longrightarrow> trans_of h1 n = trans_of h n \<and> ops_of h1 n = ops_of h n" for n
    using c by (auto simp: dsc_vdev_create_def dsc_trans_init_def dsc_ops_init_def)
  have fl: "dsc_trans_flush (VdevNode v) h1 = h1"
    by (simp add: dsc_trans_flush.simps [of _ h1] abort_cases h1)
  show "psocs h2 = psocs h"
    using fresh by (simp add: h2 dsc_vdev_destroy_def fl h1 dsc_ops_deinit_def dsc_trans_deinit_def
        remove1_append fun_upd_idem)
  show "drivers h2 = drivers h" "trans_store h2 = trans_store h" "dsc_panic h2 = dsc_panic h"
    "n \<noteq> VdevNode v \<Longrightarrow> trans_of h2 n = trans_of h n \<and> ops_of h2 n = ops_of h n"
    by (simp_all add: h2 dsc_vdev_destroy_def fl h1 dsc_ops_deinit_def dsc_trans_deinit_def)
qed

text \<open>The memory that the allocator returns is not the node of a vdev of a known psoc.\<close>

definition vdev_unlinked :: "ptr \<Rightarrow> osif \<Rightarrow> bool" where
  "vdev_unlinked v s \<longleftrightarrow> (\<forall>x \<in> set (psoc_sync_arr s).
     case ps_dsc_psoc x of None \<Rightarrow> True | Some p \<Rightarrow> v \<notin> set (psoc_vdevs (psocs (osif_dsc s) p)))"

lemma create_and_trans_undone:
  assumes c: "osif_vdev_sync_create_and_trans ret e (Some dev) mem (Some desc) s = (errno, sync, s1)"
    and err: "errno \<noteq> 0" and ok: "vdev_arr_ok (vdev_sync_arr s)"
    and ret: "\<And>st. st \<noteq> QDF_STATUS_SUCCESS \<Longrightarrow> ret st \<noteq> 0"
    and fresh: "\<And>v. mem = Some v \<Longrightarrow> vdev_unlinked v s"
  shows "sync = None \<and> vdev_sync_arr s1 = vdev_sync_arr s \<and> psoc_sync_arr s1 = psoc_sync_arr s \<and>
     driver_sync s1 = driver_sync s \<and> drivers (osif_dsc s1) = drivers (osif_dsc s) \<and>
     psocs (osif_dsc s1) = psocs (osif_dsc s) \<and> trans_store (osif_dsc s1) = trans_store (osif_dsc s) \<and>
     (\<forall>n. (\<forall>v. mem = Some v \<longrightarrow> n \<noteq> VdevNode v) \<longrightarrow> trans_of (osif_dsc s1) n = trans_of (osif_dsc s) n \<and>
        ops_of (osif_dsc s1) n = ops_of (osif_dsc s) n)"
proof -
  obtain en sy s0 where cr: "osif_vdev_sync_create ret (Some dev) True mem s = (en, sy, s0)"
    by (metis prod_cases3)
  consider (full) "en = - ENOMEM" "sy = None" "s0 = s"
    | (made) i dp st h where "i < length (vdev_sync_arr s)" "vdev_sync_arr s ! i = osif_vdev_sync_zero"
        "(st, dp, h) = (case osif_psoc_sync_lookup (Some dev) (psoc_sync_arr s) of
           None \<Rightarrow> (QDF_STATUS_E_INVAL, None, osif_dsc s)
         | Some j \<Rightarrow> dsc_vdev_create (ps_dsc_psoc (psoc_sync_arr s ! j)) True mem (osif_dsc s))"
        "if st = QDF_STATUS_SUCCESS
         then en = 0 \<and> sy = Some i \<and> s0 = s\<lparr>osif_dsc := h, vdev_sync_arr := (vdev_sync_arr s)
           [i := \<lparr>vs_net_dev = None, vs_dsc_vdev = dp, vs_in_use = True\<rparr>]\<rparr>
         else en = ret st \<and> sy = None \<and> s0 = s\<lparr>osif_dsc := h\<rparr>"
    using vdev_create_cases [OF cr ok] by blast
  then show ?thesis
  proof cases
    case full
    then show ?thesis using c cr by (simp add: osif_vdev_sync_create_and_trans_def)
  next
    case made
    show ?thesis
    proof (cases "st = QDF_STATUS_SUCCESS")
      case False
      then have "drivers h = drivers (osif_dsc s)" "psocs h = psocs (osif_dsc s)" "trans_of h = trans_of (osif_dsc s)"
        "ops_of h = ops_of (osif_dsc s)" "trans_store h = trans_store (osif_dsc s)"
        using made(3) by (auto simp: dsc_vdev_create_def Let_def split: option.splits)
      then show ?thesis using c cr made(4) False by (auto simp: osif_vdev_sync_create_and_trans_def)
    next
      case True
      then obtain j p v where j: "osif_psoc_sync_lookup (Some dev) (psoc_sync_arr s) = Some j"
          "ps_dsc_psoc (psoc_sync_arr s ! j) = Some p"
        and p: "dsc_vdev_create (Some p) True (Some v) (osif_dsc s) = (st, dp, h)" and dp: "dp = Some v" and mem: "mem = Some v"
        using made(3) by (auto simp: dsc_vdev_create_def Let_def split: option.splits)
      have fresh': "v \<notin> set (psoc_vdevs (psocs (osif_dsc s) p))"
        using fresh [OF mem] j by (auto simp: vdev_unlinked_def psoc_table.lookup_Some_iff psoc_table.has_key_def
            dest!: bspec [of _ _ "psoc_sync_arr s ! j"])
      obtain st' h' where t: "dsc_vdev_trans_start e (Some v) (Some desc) h = (st', h')" by fastforce
      have s0: "en = 0" "sy = Some i" "s0 = s\<lparr>osif_dsc := h, vdev_sync_arr := (vdev_sync_arr s)
           [i := \<lparr>vs_net_dev = None, vs_dsc_vdev = dp, vs_in_use = True\<rparr>]\<rparr>"
        using made(4) True by simp_all
      have f: "st' \<noteq> QDF_STATUS_SUCCESS" using c cr s0 t dp made(1) err
        by (auto simp: osif_vdev_sync_create_and_trans_def)
      then have "h' = h" using vdev_node.start_refused [OF t] by blast
      then have "sync = None" "s1 = s\<lparr>osif_dsc := dsc_vdev_destroy (Some (Some v)) h\<rparr>"
        using c cr s0 t dp f made(1,2)
        by (auto simp: osif_vdev_sync_create_and_trans_def osif_vdev_sync_destroy_def osif_vdev_sync_put_def
            list_update_same_conv)
      then show ?thesis using vdev_create_destroy [OF p fresh' refl] mem by simp
    qed
  qed
qed

lemma create_and_trans_made:
  assumes c: "osif_vdev_sync_create_and_trans ret e (Some dev) mem (Some desc) s = (0, sync, s1)"
    and ok: "vdev_arr_ok (vdev_sync_arr s)" and ret: "\<And>st. st \<noteq> QDF_STATUS_SUCCESS \<Longrightarrow> ret st \<noteq> 0"
  shows "\<exists>i v. mem = Some v \<and> sync = Some i \<and> i < length (vdev_sync_arr s) \<and> vdev_sync_arr s ! i = osif_vdev_sync_zero \<and>
     vdev_sync_arr s1 = (vdev_sync_arr s)[i := \<lparr>vs_net_dev = None, vs_dsc_vdev = Some v, vs_in_use = True\<rparr>] \<and>
     psoc_sync_arr s1 = psoc_sync_arr s \<and> driver_sync s1 = driver_sync s \<and>
     dsc_trans_active (VdevNode v) (osif_dsc s1) \<and>
     (\<forall>k. osif_vdev_sync_lookup (Some k) (vdev_sync_arr s1) \<noteq> Some i)"
proof -
  obtain en sy s0 where cr: "osif_vdev_sync_create ret (Some dev) True mem s = (en, sy, s0)"
    by (metis prod_cases3)
  have en: "en = 0" using c cr by (auto simp: osif_vdev_sync_create_and_trans_def split: option.splits if_splits)
  then obtain i dp st h where i: "i < length (vdev_sync_arr s)" "sy = Some i" "st = QDF_STATUS_SUCCESS"
      "vdev_sync_arr s ! i = osif_vdev_sync_zero"
    and cd: "(st, dp, h) = (case osif_psoc_sync_lookup (Some dev) (psoc_sync_arr s) of
           None \<Rightarrow> (QDF_STATUS_E_INVAL, None, osif_dsc s)
         | Some j \<Rightarrow> dsc_vdev_create (ps_dsc_psoc (psoc_sync_arr s ! j)) True mem (osif_dsc s))"
    and s0: "s0 = s\<lparr>osif_dsc := h, vdev_sync_arr := (vdev_sync_arr s)
           [i := \<lparr>vs_net_dev = None, vs_dsc_vdev = dp, vs_in_use = True\<rparr>]\<rparr>"
    using vdev_create_cases [OF cr ok] ret by (auto simp: errno_defs split: if_splits)
  obtain v where dp: "dp = Some v" "mem = Some v"
    using cd i(3) by (auto simp: dsc_vdev_create_def Let_def split: option.splits)
  obtain st' h' where t: "dsc_vdev_trans_start e (Some v) (Some desc) h = (st', h')" by fastforce
  have st': "st' = QDF_STATUS_SUCCESS" and s1: "sync = Some i" "s1 = s0\<lparr>osif_dsc := h'\<rparr>"
    using c cr en i(1,2) s0 dp t ret
    by (auto simp: osif_vdev_sync_create_and_trans_def Let_def split: if_splits)
  have "dsc_trans_active (VdevNode v) h'" using vdev_node.start_ok [OF t [unfolded st']] .
  then show ?thesis
    using i(1,4) s0 s1 dp by (auto simp: vdev_table.lookup_Some_iff vdev_table.has_key_def)
qed

text \<open>C7. Creating a vdev context together with its first transition is all or nothing.  If the call
  succeeds, a free place of the array holds a context with the new node, which is in transition and which
  no net device finds before it is registered, and the other contexts are as before; if any step fails,
  the allocation included, the contexts, the links of the tree and the state of every other node are as
  before the call.\<close>

theorem osif_vdev_create_and_trans_rollback:
  assumes c: "osif_vdev_sync_create_and_trans ret e (Some dev) mem (Some desc) s = (errno, sync, s1)"
    and ok: "vdev_arr_ok (vdev_sync_arr s)" and ret: "\<And>st. st \<noteq> QDF_STATUS_SUCCESS \<Longrightarrow> ret st \<noteq> 0"
    and fresh: "\<And>v. mem = Some v \<Longrightarrow> vdev_unlinked v s"
  shows "if errno = 0
    then \<exists>i v. mem = Some v \<and> sync = Some i \<and> i < length (vdev_sync_arr s) \<and> \<not> vs_in_use (vdev_sync_arr s ! i) \<and>
      vdev_sync_arr s1 = (vdev_sync_arr s)[i := \<lparr>vs_net_dev = None, vs_dsc_vdev = Some v, vs_in_use = True\<rparr>] \<and>
      psoc_sync_arr s1 = psoc_sync_arr s \<and> driver_sync s1 = driver_sync s \<and> dsc_trans_active (VdevNode v) (osif_dsc s1) \<and>
      (\<forall>k. osif_vdev_sync_lookup (Some k) (vdev_sync_arr s1) \<noteq> Some i)
    else sync = None \<and> vdev_sync_arr s1 = vdev_sync_arr s \<and> psoc_sync_arr s1 = psoc_sync_arr s \<and>
      driver_sync s1 = driver_sync s \<and> drivers (osif_dsc s1) = drivers (osif_dsc s) \<and>
      psocs (osif_dsc s1) = psocs (osif_dsc s) \<and> trans_store (osif_dsc s1) = trans_store (osif_dsc s) \<and>
      (\<forall>n. (\<forall>v. mem = Some v \<longrightarrow> n \<noteq> VdevNode v) \<longrightarrow> trans_of (osif_dsc s1) n = trans_of (osif_dsc s) n \<and>
         ops_of (osif_dsc s1) n = ops_of (osif_dsc s) n)"
proof (cases "errno = 0")
  case True
  then show ?thesis
    using create_and_trans_made [OF c [unfolded True] ok ret] by (auto simp: osif_vdev_sync_zero_def)
next
  case False
  then show ?thesis using create_and_trans_undone [OF c False ok ret fresh] by simp
qed

text \<open>A context that was created with its first transition belongs to the caller alone: its node
  is in transition, and no net device finds the context before it is registered.\<close>

theorem osif_vdev_create_and_trans_private:
  assumes c: "osif_vdev_sync_create_and_trans ret e (Some dev) (Some v) (Some desc) s = (0, sync, s1)"
    and ok: "vdev_arr_ok (vdev_sync_arr s)" and ret: "\<And>st. st \<noteq> QDF_STATUS_SUCCESS \<Longrightarrow> ret st \<noteq> 0"
  shows "\<exists>i. sync = Some i \<and> vs_dsc_vdev (vdev_sync_arr s1 ! i) = Some v \<and>
     dsc_trans_active (VdevNode v) (osif_dsc s1) \<and>
     (\<forall>k. osif_vdev_sync_lookup (Some k) (vdev_sync_arr s1) \<noteq> Some i)"
  using create_and_trans_made [OF c ok ret] by auto

text \<open>The header says that the out parameter of a start is populated on success; for vdevs the
  code also stores the context when the core refuses the request.\<close>

theorem osif_vdev_start_sets_out_on_error:
  assumes i: "osif_vdev_sync_lookup nd (vdev_sync_arr s) = Some i" and v: "vs_dsc_vdev (vdev_sync_arr s ! i) = Some v"
    and busy: "dsc_trans_active (VdevNode v) (osif_dsc s)"
    and ret: "\<And>st. st \<noteq> QDF_STATUS_SUCCESS \<Longrightarrow> ret st \<noteq> 0"
  shows "fst (osif_vdev_sync_trans_start ret e nd (Some desc) s) \<noteq> 0 \<and>
     fst (snd (osif_vdev_sync_trans_start ret e nd (Some desc) s)) = Some i"
proof -
  obtain st h where c: "dsc_vdev_trans_start e (Some v) (Some desc) (osif_dsc s) = (st, h)" by fastforce
  then have "st \<noteq> QDF_STATUS_SUCCESS" using vdev_node.start_busy [OF busy, of e desc] by simp
  then show ?thesis
    using i v c ret by (simp add: osif_vdev_sync_trans_start_def osif_vdev_sync_start_callback_def)
qed

section \<open>The properties on a concrete layer\<close>

text \<open>
  A layer with one driver, one psoc registered for device 10, and room for two
  vdevs; the first vdev context is registered for net device 20.
\<close>

definition os_ret :: "QDF_STATUS \<Rightarrow> int" where
  "os_ret st = (if st = QDF_STATUS_SUCCESS then 0 else if st = QDF_STATUS_E_AGAIN then - EAGAIN else - EINVAL)"

lemma os_ret_error: "st \<noteq> QDF_STATUS_SUCCESS \<Longrightarrow> os_ret st \<noteq> 0"
  by (simp add: os_ret_def errno_defs)

definition layer_env :: dsc_env where
  "layer_env = \<lparr>wlan_dsc_debug = False, op_malloc = True, op_timer_init = QDF_STATUS_SUCCESS,
     trans_timer_init = (\<lambda>_. QDF_STATUS_SUCCESS), tran_timer_init = QDF_STATUS_SUCCESS,
     qdf_is_recovering = False, qdf_is_driver_unloading = False\<rparr>"

definition layer_zero :: osif where
  "layer_zero = \<lparr>driver_sync = \<lparr>drv_dsc_driver = None, drv_in_use = False, drv_is_registered = False\<rparr>,
     psoc_sync_arr = [osif_psoc_sync_zero], vdev_sync_arr = [osif_vdev_sync_zero, osif_vdev_sync_zero],
     osif_dsc = \<lparr>drivers = (\<lambda>_. \<lparr>driver_psocs = []\<rparr>), psocs = (\<lambda>_. \<lparr>psoc_driver = 0, psoc_vdevs = []\<rparr>),
       vdevs = (\<lambda>_. \<lparr>vdev_psoc = 0, nb_cmd_during_ssr = 0\<rparr>),
       trans_of = (\<lambda>_. \<lparr>active_desc = None, trans_queue = []\<rparr>),
       ops_of = (\<lambda>_. \<lparr>ops_list = [], ops_count = 0, ops_event = False\<rparr>),
       trans_store = (\<lambda>_. \<lparr>tran_abort = False, tran_desc = [], tran_event = False\<rparr>), dsc_panic = False\<rparr>,
     osif_bug = False\<rparr>"

definition layer_psoc :: osif where
  "layer_psoc = osif_psoc_sync_register (Some 10) (Some 0)
     (snd (snd (osif_psoc_sync_create os_ret True (Some 2)
       (osif_driver_sync_register True (snd (snd (osif_driver_sync_create os_ret True (Some 1) layer_zero)))))))"

definition layer_made :: osif where
  "layer_made = snd (snd (osif_vdev_sync_create os_ret (Some 10) True (Some 3) layer_psoc))"

definition layer_vdev :: osif where
  "layer_vdev = osif_vdev_sync_register (Some 20) (Some 0) layer_made"

definition layer_busy :: osif where
  "layer_busy = snd (snd (osif_vdev_sync_trans_start os_ret layer_env (Some 20) (Some ''down'') layer_vdev))"

lemma layer_results:
  "fst (osif_vdev_sync_trans_start os_ret layer_env (Some 20) (Some ''down'') layer_vdev) = 0"
  "osif_vdev_sync_lookup (Some 20) (vdev_sync_arr layer_busy) = Some 0"
  "vs_dsc_vdev (vdev_sync_arr layer_busy ! 0) = Some 3"
  "dsc_trans_active (VdevNode 3) (osif_dsc layer_busy)"
  by code_simp+

theorem osif_vdev_trans_exclusive_witness:
  "fst (osif_vdev_sync_trans_start os_ret layer_env (Some 20) (Some ''up'') layer_busy) \<noteq> 0 \<and>
   snd (snd (osif_vdev_sync_trans_start os_ret layer_env (Some 20) (Some ''up'') layer_busy)) = layer_busy \<and>
   fst (osif_vdev_sync_op_start os_ret layer_env (Some 20) (Some ''ioctl'') layer_busy) \<noteq> 0 \<and>
   snd (snd (osif_vdev_sync_op_start os_ret layer_env (Some 20) (Some ''ioctl'') layer_busy)) = layer_busy"
  by (rule osif_vdev_trans_exclusive [of os_ret layer_env "Some 20" "''down''" layer_vdev
        "fst (snd (osif_vdev_sync_trans_start os_ret layer_env (Some 20) (Some ''down'') layer_vdev))"])
    (simp_all add: layer_busy_def layer_results(1) os_ret_error prod_eq_iff)

theorem osif_vdev_registration_witness:
  "osif_vdev_sync_lookup (Some 20) (vdev_sync_arr layer_vdev) = Some 0 \<and>
   osif_vdev_sync_trans_start os_ret layer_env (Some 20) (Some ''down'') (snd (osif_vdev_sync_unregister (Some 20) layer_vdev))
     = (- EAGAIN, None, snd (osif_vdev_sync_unregister (Some 20) layer_vdev))"
proof -
  have arr: "vdev_sync_arr layer_made = [\<lparr>vs_net_dev = None, vs_dsc_vdev = Some 3, vs_in_use = True\<rparr>, osif_vdev_sync_zero]"
    by code_simp
  have "vdev_table.keys_ok (vdev_sync_arr layer_made)"
    by (auto simp: vdev_table.keys_ok_def vdev_table.has_key_def arr osif_vdev_sync_zero_def nth_Cons' split: if_splits)
  moreover have "osif_vdev_sync_lookup (Some 20) (vdev_sync_arr layer_made) = None" by code_simp
  ultimately show ?thesis
    using osif_vdev_registration [of layer_made 0 20 layer_vdev
        "fst (osif_vdev_sync_unregister (Some 20) layer_vdev)" "snd (osif_vdev_sync_unregister (Some 20) layer_vdev)"
        os_ret layer_env "Some ''down''"]
    by (simp add: layer_vdev_def arr)
qed

definition layer_reset :: osif where
  "layer_reset = snd (snd (osif_psoc_sync_trans_start os_ret layer_env (Some 10) (Some ''reset'') layer_vdev))"

theorem osif_vdev_create_and_trans_rollback_witness:
  "vdev_sync_arr (snd (snd (osif_vdev_sync_create_and_trans os_ret layer_env (Some 10) (Some 5) (Some ''up'') layer_reset)))
     = vdev_sync_arr layer_reset"
proof -
  have "fst (osif_vdev_sync_create_and_trans os_ret layer_env (Some 10) (Some 5) (Some ''up'') layer_reset) \<noteq> 0"
    "vdev_arr_ok (vdev_sync_arr layer_reset)" "vdev_unlinked 5 layer_reset"
    by code_simp+
  then show ?thesis
    using osif_vdev_create_and_trans_rollback [of os_ret layer_env 10 "Some 5" "''up''" layer_reset
        "fst (osif_vdev_sync_create_and_trans os_ret layer_env (Some 10) (Some 5) (Some ''up'') layer_reset)"
        "fst (snd (osif_vdev_sync_create_and_trans os_ret layer_env (Some 10) (Some 5) (Some ''up'') layer_reset))"
        "snd (snd (osif_vdev_sync_create_and_trans os_ret layer_env (Some 10) (Some 5) (Some ''up'') layer_reset))"]
    by (simp add: os_ret_error)
qed

theorem osif_vdev_create_and_trans_private_witness:
  "\<exists>i s1. osif_vdev_sync_create_and_trans os_ret layer_env (Some 10) (Some 5) (Some ''up'') layer_vdev = (0, Some i, s1) \<and>
     dsc_trans_active (VdevNode 5) (osif_dsc s1) \<and> (\<forall>k. osif_vdev_sync_lookup (Some k) (vdev_sync_arr s1) \<noteq> Some i)"
proof -
  let ?r = "osif_vdev_sync_create_and_trans os_ret layer_env (Some 10) (Some 5) (Some ''up'') layer_vdev"
  have "fst ?r = 0" "vdev_arr_ok (vdev_sync_arr layer_vdev)" by code_simp+
  moreover from this(1) have "?r = (0, fst (snd ?r), snd (snd ?r))" by (simp add: prod_eq_iff)
  ultimately show ?thesis
    using osif_vdev_create_and_trans_private [of os_ret layer_env 10 5 "''up''" layer_vdev "fst (snd ?r)" "snd (snd ?r)"]
      os_ret_error by metis
qed

theorem osif_vdev_start_sets_out_on_error_witness:
  "fst (osif_vdev_sync_trans_start os_ret layer_env (Some 20) (Some ''up'') layer_busy) \<noteq> 0 \<and>
   fst (snd (osif_vdev_sync_trans_start os_ret layer_env (Some 20) (Some ''up'') layer_busy)) = Some 0"
  by (rule osif_vdev_start_sets_out_on_error [OF layer_results(2-4) os_ret_error])

end
