(* ===== verification/Dph_Hash.thy ===== *)
theory Dph_Hash
  imports Qdf_Prelude
begin

text \<open>
  The station table of a PE session, \<^verbatim>\<open>src/core/mac/src/dph/dph_hash_table.c\<close>: an
  array of nodes indexed by association id, threaded by hash chains through the
  \<^verbatim>\<open>next\<close> pointers of the nodes.  A pointer to a node is its index in the array.
  Of \<^verbatim>\<open>struct sDphHashNode\<close> the model keeps the fields that these functions
  read or write one by one; the others are only cleared together.  A null
  \<^verbatim>\<open>pHashTable\<close> is the empty list.  The loops over a chain are
  \<open>partial_function\<close>s, so that a chain with a cycle is a call that does not
  return; the invariant \<open>dph_wf\<close> excludes it.
\<close>

type_synonym mac_addr = "u8 list"

record dph_node =
  assocId :: u16
  staAddr :: mac_addr
  dph_valid :: bool
  dph_added :: bool
  is_disassoc_deauth_in_progress :: bool
  sta_deletion_in_progress :: bool
  dph_next :: "nat option"

record dph_hash_table =
  pHashTable :: "nat option list"
  pDphNodeArray :: "dph_node list"
  dph_size :: u16

section \<open>Operations\<close>

definition dph_compare_mac_addr :: "mac_addr \<Rightarrow> mac_addr \<Rightarrow> bool" where
  "dph_compare_mac_addr a b \<longleftrightarrow>
     a ! 0 = b ! 0 \<and> a ! 1 = b ! 1 \<and> a ! 2 = b ! 2 \<and> a ! 3 = b ! 3 \<and> a ! 4 = b ! 4 \<and> a ! 5 = b ! 5"

definition upd_node :: "nat \<Rightarrow> (dph_node \<Rightarrow> dph_node) \<Rightarrow> dph_hash_table \<Rightarrow> dph_hash_table" where
  "upd_node i f t = t\<lparr>pDphNodeArray := (pDphNodeArray t)[i := f (pDphNodeArray t ! i)]\<rparr>"

definition upd_head :: "nat \<Rightarrow> nat option \<Rightarrow> dph_hash_table \<Rightarrow> dph_hash_table" where
  "upd_head b p t = t\<lparr>pHashTable := (pHashTable t)[b := p]\<rparr>"

definition dph_hash_table_init :: "dph_hash_table \<Rightarrow> dph_hash_table" where
  "dph_hash_table_init t =
     (let t1 = fold (\<lambda>i. upd_head i None) [0..<unat (dph_size t)] t
      in fold (\<lambda>i. upd_node i (\<lambda>n. n\<lparr>dph_valid := False, dph_added := False, assocId := of_nat i\<rparr>))
           [0..<unat (dph_size t1)] t1)"

definition hash_function :: "mac_addr \<Rightarrow> u16 \<Rightarrow> u16" where
  "hash_function addr numSta = foldl (\<lambda>sum i. sum + ucast (addr ! i)) 0 [0..<6] mod numSta"

partial_function (option) dph_walk :: "mac_addr \<Rightarrow> dph_node list \<Rightarrow> nat option \<Rightarrow> nat option option" where
  "dph_walk addr ns p =
     (if p = None then Some None
      else if dph_compare_mac_addr addr (staAddr (ns ! the p)) then Some p
      else dph_walk addr ns (dph_next (ns ! the p)))"

text \<open>The result is the node, if any, and the association id stored through \<^verbatim>\<open>pAssocId\<close>.\<close>

definition dph_lookup_hash_entry ::
  "mac_addr \<Rightarrow> dph_hash_table \<Rightarrow> (nat option \<times> u16 option) option" where
  "dph_lookup_hash_entry addr t =
     (let index = unat (hash_function addr (dph_size t))
      in if pHashTable t = [] then Some (None, None)
         else case dph_walk addr (pDphNodeArray t) (pHashTable t ! index) of
                None \<Rightarrow> None
              | Some None \<Rightarrow> Some (None, None)
              | Some (Some i) \<Rightarrow> Some (Some i, Some (assocId (pDphNodeArray t ! i))))"

definition dph_get_hash_entry :: "u16 \<Rightarrow> dph_hash_table \<Rightarrow> nat option" where
  "dph_get_hash_entry peerIdx t =
     (if peerIdx < dph_size t
      then (if dph_added (pDphNodeArray t ! unat peerIdx) then Some (unat peerIdx) else None)
      else None)"

text \<open>\<^verbatim>\<open>get_node\<close> takes the association id as an 8-bit integer.\<close>

definition get_node :: "u8 \<Rightarrow> nat" where
  "get_node aid = unat aid"

definition dph_init_sta_state :: "mac_addr \<Rightarrow> u16 \<Rightarrow> dph_hash_table \<Rightarrow> nat option \<times> dph_hash_table" where
  "dph_init_sta_state addr aid t =
     (if aid \<ge> dph_size t then (None, t)
      else let sta = get_node (ucast aid)
           in (Some sta, upd_node sta (\<lambda>n. \<lparr>assocId = aid, staAddr = addr, dph_valid = True, dph_added = True,
                 is_disassoc_deauth_in_progress = False, sta_deletion_in_progress = False,
                 dph_next = dph_next n\<rparr>) t))"

text \<open>
  The search of \<^verbatim>\<open>dph_add_hash_entry\<close>: \<open>Inl\<close> is the return on a node that points
  to itself, \<open>Inr\<close> the node at which the loop breaks, if any.
\<close>

partial_function (option) dph_add_walk ::
  "mac_addr \<Rightarrow> u16 \<Rightarrow> dph_node list \<Rightarrow> nat option \<Rightarrow> (unit + nat option) option" where
  "dph_add_walk addr aid ns p =
     (if p = None then Some (Inr None)
      else if dph_next (ns ! the p) = p then Some (Inl ())
      else if dph_compare_mac_addr addr (staAddr (ns ! the p)) \<or> assocId (ns ! the p) = aid
      then Some (Inr p)
      else dph_add_walk addr aid ns (dph_next (ns ! the p)))"

definition dph_add_hash_entry ::
  "mac_addr \<Rightarrow> u16 \<Rightarrow> dph_hash_table \<Rightarrow> (nat option \<times> dph_hash_table) option" where
  "dph_add_hash_entry addr aid t =
     (let index = unat (hash_function addr (dph_size t))
      in if aid \<ge> dph_size t then Some (None, t)
         else if dph_added (pDphNodeArray t ! unat aid) then Some (None, t)
         else case dph_add_walk addr aid (pDphNodeArray t) (pHashTable t ! index) of
                None \<Rightarrow> None
              | Some (Inl _) \<Rightarrow> Some (None, t)
              | Some (Inr (Some _)) \<Rightarrow> Some (None, t)
              | Some (Inr None) \<Rightarrow>
                  (case dph_init_sta_state addr aid t of
                     (None, t1) \<Rightarrow> Some (None, t1)
                   | (Some _, t1) \<Rightarrow>
                       (let t2 = upd_node (unat aid) (\<lambda>n. n\<lparr>dph_next := pHashTable t1 ! index\<rparr>) t1;
                            t3 = upd_head index (Some (unat aid)) t2
                        in Some (pHashTable t3 ! index, t3))))"

text \<open>The search of \<^verbatim>\<open>dph_delete_hash_entry\<close> also returns the node before the one it stops at.\<close>

partial_function (option) dph_delete_walk ::
  "mac_addr \<Rightarrow> dph_node list \<Rightarrow> nat option \<Rightarrow> nat option \<Rightarrow> (unit + nat option \<times> nat option) option" where
  "dph_delete_walk addr ns prev p =
     (if p = None then Some (Inr (prev, None))
      else if dph_compare_mac_addr addr (staAddr (ns ! the p)) then Some (Inr (prev, p))
      else if prev = p then Some (Inl ())
      else dph_delete_walk addr ns p (dph_next (ns ! the p)))"

definition dph_delete_hash_entry ::
  "mac_addr \<Rightarrow> u16 \<Rightarrow> dph_hash_table \<Rightarrow> (QDF_STATUS \<times> dph_hash_table) option" where
  "dph_delete_hash_entry addr aid t =
     (let index = unat (hash_function addr (dph_size t))
      in if aid \<ge> dph_size t then Some (QDF_STATUS_E_FAILURE, t)
         else if \<not> dph_added (pDphNodeArray t ! unat aid) then Some (QDF_STATUS_E_FAILURE, t)
         else case dph_delete_walk addr (pDphNodeArray t) None (pHashTable t ! index) of
                None \<Rightarrow> None
              | Some (Inl _) \<Rightarrow> Some (QDF_STATUS_E_FAILURE, t)
              | Some (Inr (prev, None)) \<Rightarrow> Some (QDF_STATUS_E_FAILURE, t)
              | Some (Inr (prev, Some i)) \<Rightarrow>
                  (let t1 = upd_node i (\<lambda>n. n\<lparr>dph_valid := False, staAddr := replicate 6 0\<rparr>) t;
                       nxt = dph_next (pDphNodeArray t1 ! i);
                       t2 = (case prev of
                               None \<Rightarrow> upd_head index nxt t1
                             | Some k \<Rightarrow> upd_node k (\<lambda>n. n\<lparr>dph_next := nxt\<rparr>) t1);
                       t3 = upd_node i (\<lambda>n. n\<lparr>dph_added := False, is_disassoc_deauth_in_progress := False,
                              sta_deletion_in_progress := False, dph_next := None\<rparr>) t2
                   in Some (QDF_STATUS_SUCCESS, t3)))"

declare dph_walk.simps [code] dph_add_walk.simps [code] dph_delete_walk.simps [code]

end
