(* ===== verification/Dph_Map.thy ===== *)
theory Dph_Map
  imports Dph_Hash
begin

text \<open>
  The station table implements a finite map from MAC addresses to nodes: the
  invariant of the hash chains, its preservation by the operations, and the
  map interface that the table provides.
\<close>

section \<open>Hash chains\<close>

fun linked :: "dph_node list \<Rightarrow> nat option \<Rightarrow> nat list \<Rightarrow> bool" where
  "linked ns p [] \<longleftrightarrow> p = None"
| "linked ns p (i # is) \<longleftrightarrow> p = Some i \<and> i < length ns \<and> linked ns (dph_next (ns ! i)) is"

lemma linked_cong:
  "length ns' = length ns \<Longrightarrow> \<forall>i \<in> set is. dph_next (ns' ! i) = dph_next (ns ! i) \<Longrightarrow>
     linked ns' p is = linked ns p is"
  by (induction "is" arbitrary: p) auto

lemma linked_None [simp]: "linked ns None is \<longleftrightarrow> is = []"
  by (cases "is") auto

lemma linked_Some: "linked ns (Some i) is \<longleftrightarrow> (\<exists>js. is = i # js \<and> i < length ns \<and> linked ns (dph_next (ns ! i)) js)"
  by (cases "is") auto

lemma walk_linked:
  "linked ns p is \<Longrightarrow>
     dph_walk addr ns p = Some (find (\<lambda>i. dph_compare_mac_addr addr (staAddr (ns ! i))) is)"
  by (induction "is" arbitrary: p) (simp_all add: dph_walk.simps [of _ _ None] dph_walk.simps [of _ _ "Some _"])

lemma add_walk_linked:
  "linked ns p is \<Longrightarrow> distinct is \<Longrightarrow>
     dph_add_walk addr aid ns p =
       Some (Inr (find (\<lambda>i. dph_compare_mac_addr addr (staAddr (ns ! i)) \<or> assocId (ns ! i) = aid) is))"
proof (induction "is" arbitrary: p)
  case Nil
  then show ?case by (simp add: dph_add_walk.simps)
next
  case (Cons i "is")
  have "dph_next (ns ! i) \<noteq> Some i"
    using Cons.prems by (cases "is") auto
  with Cons show ?case by (simp add: dph_add_walk.simps [of _ _ _ "Some _"])
qed

text \<open>The node before the one at which the deletion stops.\<close>

fun before :: "nat option \<Rightarrow> nat list \<Rightarrow> (nat \<Rightarrow> bool) \<Rightarrow> nat option" where
  "before prev [] P = prev"
| "before prev (i # is) P = (if P i then prev else before (Some i) is P)"

lemma delete_walk_linked:
  "linked ns p is \<Longrightarrow> distinct is \<Longrightarrow> (\<And>i. prev = Some i \<Longrightarrow> i \<notin> set is) \<Longrightarrow>
     dph_delete_walk addr ns prev p =
       Some (Inr (before prev is (\<lambda>i. dph_compare_mac_addr addr (staAddr (ns ! i))),
                  find (\<lambda>i. dph_compare_mac_addr addr (staAddr (ns ! i))) is))"
proof (induction "is" arbitrary: prev p)
  case Nil
  then show ?case by (simp add: dph_delete_walk.simps)
next
  case (Cons i "is")
  have "prev \<noteq> Some i" using Cons.prems(3) by auto
  moreover have "dph_delete_walk addr ns (Some i) (dph_next (ns ! i)) =
      Some (Inr (before (Some i) is (\<lambda>i. dph_compare_mac_addr addr (staAddr (ns ! i))),
                 find (\<lambda>i. dph_compare_mac_addr addr (staAddr (ns ! i))) is))"
    by (rule Cons.IH) (use Cons.prems in auto)
  ultimately show ?case using Cons.prems by (simp add: dph_delete_walk.simps [of _ _ _ "Some _"])
qed

section \<open>The invariant\<close>

definition bucket_of :: "dph_hash_table \<Rightarrow> mac_addr \<Rightarrow> nat" where
  "bucket_of t addr = unat (hash_function addr (dph_size t))"

definition dph_wf :: "dph_hash_table \<Rightarrow> bool" where
  "dph_wf t \<longleftrightarrow>
     0 < unat (dph_size t) \<and> unat (dph_size t) \<le> 256 \<and>
     length (pHashTable t) = unat (dph_size t) \<and> length (pDphNodeArray t) = unat (dph_size t) \<and>
     (\<forall>b < unat (dph_size t). \<exists>is. linked (pDphNodeArray t) (pHashTable t ! b) is \<and> distinct is \<and>
        set is = {i. i < unat (dph_size t) \<and> dph_added (pDphNodeArray t ! i) \<and>
                     bucket_of t (staAddr (pDphNodeArray t ! i)) = b}) \<and>
     (\<forall>i < unat (dph_size t). dph_added (pDphNodeArray t ! i) \<longrightarrow>
        assocId (pDphNodeArray t ! i) = of_nat i \<and> dph_valid (pDphNodeArray t ! i) \<and>
        length (staAddr (pDphNodeArray t ! i)) = 6) \<and>
     (\<forall>i < unat (dph_size t). \<forall>j < unat (dph_size t).
        dph_added (pDphNodeArray t ! i) \<longrightarrow> dph_added (pDphNodeArray t ! j) \<longrightarrow>
        staAddr (pDphNodeArray t ! i) = staAddr (pDphNodeArray t ! j) \<longrightarrow> i = j)"

text \<open>The map that a table represents.\<close>

definition dph_map :: "dph_hash_table \<Rightarrow> mac_addr \<Rightarrow> nat option" where
  "dph_map t addr =
     find (\<lambda>i. dph_added (pDphNodeArray t ! i) \<and> staAddr (pDphNodeArray t ! i) = addr) [0..<unat (dph_size t)]"

lemma compare_mac_eq:
  assumes "length a = 6" and "length b = 6"
  shows "dph_compare_mac_addr a b \<longleftrightarrow> a = b"
proof -
  have "(\<forall>i < 6. a ! i = b ! i) \<longleftrightarrow> dph_compare_mac_addr a b"
    by (simp add: dph_compare_mac_addr_def eval_nat_numeral All_less_Suc conj_ac)
  then show ?thesis using assms by (metis nth_equalityI)
qed

lemma bucket_lt: "0 < unat (dph_size t) \<Longrightarrow> bucket_of t addr < unat (dph_size t)"
  unfolding bucket_of_def hash_function_def by (simp only: unat_mod_distrib mod_less_divisor)

lemma bucket_cong: "dph_size t' = dph_size t \<Longrightarrow> bucket_of t' = bucket_of t"
  by (simp add: bucket_of_def fun_eq_iff)

lemma dph_wf_chain:
  assumes "dph_wf t" and "b < unat (dph_size t)"
  obtains "is" where "linked (pDphNodeArray t) (pHashTable t ! b) is" and "distinct is"
    and "set is = {i. i < unat (dph_size t) \<and> dph_added (pDphNodeArray t ! i) \<and>
                     bucket_of t (staAddr (pDphNodeArray t ! i)) = b}"
  using assms unfolding dph_wf_def by blast

lemma dph_wfD:
  assumes "dph_wf t"
  shows "0 < unat (dph_size t)" and "unat (dph_size t) \<le> 256"
    and "length (pHashTable t) = unat (dph_size t)" and "length (pDphNodeArray t) = unat (dph_size t)"
    and "i < unat (dph_size t) \<Longrightarrow> dph_added (pDphNodeArray t ! i) \<Longrightarrow>
      assocId (pDphNodeArray t ! i) = of_nat i \<and> dph_valid (pDphNodeArray t ! i) \<and>
      length (staAddr (pDphNodeArray t ! i)) = 6"
    and "i < unat (dph_size t) \<Longrightarrow> j < unat (dph_size t) \<Longrightarrow> dph_added (pDphNodeArray t ! i) \<Longrightarrow>
      dph_added (pDphNodeArray t ! j) \<Longrightarrow> staAddr (pDphNodeArray t ! i) = staAddr (pDphNodeArray t ! j) \<Longrightarrow> i = j"
  using assms unfolding dph_wf_def by auto

lemma dph_map_Some:
  assumes "dph_wf t"
  shows "dph_map t addr = Some i \<longleftrightarrow>
     i < unat (dph_size t) \<and> dph_added (pDphNodeArray t ! i) \<and> staAddr (pDphNodeArray t ! i) = addr"
proof
  show "dph_map t addr = Some i \<Longrightarrow>
      i < unat (dph_size t) \<and> dph_added (pDphNodeArray t ! i) \<and> staAddr (pDphNodeArray t ! i) = addr"
    by (auto simp: dph_map_def find_Some_iff)
next
  assume i: "i < unat (dph_size t) \<and> dph_added (pDphNodeArray t ! i) \<and> staAddr (pDphNodeArray t ! i) = addr"
  then have "dph_map t addr \<noteq> None" by (auto simp: dph_map_def find_None_iff)
  then obtain j where j: "dph_map t addr = Some j" by blast
  then have "j < unat (dph_size t)" "dph_added (pDphNodeArray t ! j)" "staAddr (pDphNodeArray t ! j) = addr"
    by (auto simp: dph_map_def find_Some_iff)
  then show "dph_map t addr = Some i" using i j dph_wfD(6) [OF assms, of i j] by auto
qed

text \<open>The search of a chain finds the node that the map gives.\<close>

lemma find_chain:
  assumes wf: "dph_wf t" and len: "length addr = 6"
    and "set is = {i. i < unat (dph_size t) \<and> dph_added (pDphNodeArray t ! i) \<and>
                     bucket_of t (staAddr (pDphNodeArray t ! i)) = bucket_of t addr}"
  shows "find (\<lambda>i. dph_compare_mac_addr addr (staAddr (pDphNodeArray t ! i))) is = dph_map t addr"
proof -
  have eq: "dph_compare_mac_addr addr (staAddr (pDphNodeArray t ! i)) \<longleftrightarrow> dph_map t addr = Some i"
    if "i \<in> set is" for i
    using that assms(3) len dph_wfD(5) [OF wf, of i] by (auto simp: dph_map_Some [OF wf] compare_mac_eq)
  have ins: "i \<in> set is" if "dph_map t addr = Some i" for i
    using that assms(3) by (simp add: dph_map_Some [OF wf])
  have "find (\<lambda>i. dph_compare_mac_addr addr (staAddr (pDphNodeArray t ! i))) is =
      find (\<lambda>i. dph_map t addr = Some i) is"
    using eq by (intro find_cong) auto
  also have "\<dots> = dph_map t addr"
  proof (cases "dph_map t addr")
    case None
    then show ?thesis by (simp add: find_None_iff)
  next
    case (Some i)
    then have "find (\<lambda>i. dph_map t addr = Some i) is \<noteq> None" using ins by (auto simp: find_None_iff)
    then show ?thesis using Some by (auto simp: find_Some_iff)
  qed
  finally show ?thesis .
qed

section \<open>Lookup\<close>

lemma lookup_map:
  assumes wf: "dph_wf t" and len: "length addr = 6"
  shows "dph_lookup_hash_entry addr t = Some (dph_map t addr, map_option of_nat (dph_map t addr))"
proof -
  obtain "is" where l: "linked (pDphNodeArray t) (pHashTable t ! bucket_of t addr) is" and "distinct is"
    and s: "set is = {i. i < unat (dph_size t) \<and> dph_added (pDphNodeArray t ! i) \<and>
                     bucket_of t (staAddr (pDphNodeArray t ! i)) = bucket_of t addr}"
    by (rule dph_wf_chain [OF wf bucket_lt [OF dph_wfD(1) [OF wf]]])
  have "pHashTable t \<noteq> []" using dph_wfD(1,3) [OF wf] by auto
  moreover have "assocId (pDphNodeArray t ! i) = of_nat i" if "dph_map t addr = Some i" for i
    using that dph_wfD(5) [OF wf, of i] by (simp add: dph_map_Some [OF wf])
  moreover have "dph_walk addr (pDphNodeArray t) (pHashTable t ! unat (hash_function addr (dph_size t))) =
      Some (dph_map t addr)"
    using walk_linked [OF l] find_chain [OF wf len s] by (simp only: bucket_of_def)
  ultimately show ?thesis
    unfolding dph_lookup_hash_entry_def Let_def by (cases "dph_map t addr") simp_all
qed

section \<open>Insertion\<close>

lemma unat_less: "(a :: 'a::len word) < b \<longleftrightarrow> unat a < unat b"
  by (rule word_less_nat_alt)

lemma get_node_small: "unat aid < 256 \<Longrightarrow> get_node (ucast (aid :: u16)) = unat aid"
  by (simp add: get_node_def unsigned_ucast_eq take_bit_eq_mod)

text \<open>The table after an insertion that succeeds.\<close>

definition inserted :: "mac_addr \<Rightarrow> nat \<Rightarrow> dph_hash_table \<Rightarrow> dph_hash_table" where
  "inserted addr i t = t\<lparr>
     pDphNodeArray := (pDphNodeArray t)[i := \<lparr>assocId = of_nat i, staAddr = addr, dph_valid = True,
       dph_added = True, is_disassoc_deauth_in_progress = False, sta_deletion_in_progress = False,
       dph_next = pHashTable t ! bucket_of t addr\<rparr>],
     pHashTable := (pHashTable t)[bucket_of t addr := Some i]\<rparr>"

lemma inserted_wf:
  assumes wf: "dph_wf t" and len: "length addr = 6" and i: "i < unat (dph_size t)"
    and free: "\<not> dph_added (pDphNodeArray t ! i)" and new: "dph_map t addr = None"
  shows "dph_wf (inserted addr i t)" and "dph_map (inserted addr i t) = (dph_map t)(addr \<mapsto> i)"
proof -
  let ?t = "inserted addr i t" and ?b = "bucket_of t addr"
  note wd = dph_wfD [OF wf]
  have sz: "dph_size ?t = dph_size t" and bk: "bucket_of ?t = bucket_of t"
    by (simp_all add: inserted_def bucket_of_def fun_eq_iff)
  have nd: "dph_added (pDphNodeArray ?t ! j) \<longleftrightarrow> j = i \<or> dph_added (pDphNodeArray t ! j)"
    "staAddr (pDphNodeArray ?t ! j) = (if j = i then addr else staAddr (pDphNodeArray t ! j))"
    if "j < unat (dph_size t)" for j
    using i wd(4) by (auto simp: inserted_def nth_list_update)
  have absent: "staAddr (pDphNodeArray t ! j) \<noteq> addr" if "j < unat (dph_size t)" "dph_added (pDphNodeArray t ! j)" for j
    using new dph_map_Some [OF wf, of addr j] that by auto
  have chain: "\<exists>is. linked (pDphNodeArray ?t) (pHashTable ?t ! c) is \<and> distinct is \<and>
      set is = {j. j < unat (dph_size ?t) \<and> dph_added (pDphNodeArray ?t ! j) \<and>
                   bucket_of ?t (staAddr (pDphNodeArray ?t ! j)) = c}" if c: "c < unat (dph_size ?t)" for c
  proof -
    have c': "c < unat (dph_size t)" using c sz by simp
    obtain "is" where l: "linked (pDphNodeArray t) (pHashTable t ! c) is" and d: "distinct is"
      and s: "set is = {j. j < unat (dph_size t) \<and> dph_added (pDphNodeArray t ! j) \<and>
                     bucket_of t (staAddr (pDphNodeArray t ! j)) = c}"
      by (rule dph_wf_chain [OF wf c'])
    have out: "i \<notin> set is" using s free by simp
    have "\<forall>j \<in> set is. dph_next (pDphNodeArray ?t ! j) = dph_next (pDphNodeArray t ! j)"
    proof
      fix j assume "j \<in> set is"
      then have "j \<noteq> i" using out by auto
      then show "dph_next (pDphNodeArray ?t ! j) = dph_next (pDphNodeArray t ! j)" by (simp add: inserted_def)
    qed
    then have l': "linked (pDphNodeArray ?t) (pHashTable t ! c) is"
      using l linked_cong [of "pDphNodeArray ?t" "pDphNodeArray t" "is" "pHashTable t ! c"]
      by (simp add: inserted_def)
    have set': "{j. j < unat (dph_size ?t) \<and> dph_added (pDphNodeArray ?t ! j) \<and>
        bucket_of ?t (staAddr (pDphNodeArray ?t ! j)) = c} = (if c = ?b then insert i (set is) else set is)"
      unfolding sz bk s using nd i free by auto
    show ?thesis
    proof (cases "c = ?b")
      case True
      have "linked (pDphNodeArray ?t) (pHashTable ?t ! c) (i # is)"
        using l' True i c' wd(3,4) by (simp add: inserted_def)
      then show ?thesis using d out set' True by (intro exI [of _ "i # is"]) auto
    next
      case False
      then have "pHashTable ?t ! c = pHashTable t ! c" by (simp add: inserted_def)
      then show ?thesis using l' d set' False by (intro exI [of _ "is"]) auto
    qed
  qed
  have attr: "assocId (pDphNodeArray ?t ! j) = of_nat j \<and> dph_valid (pDphNodeArray ?t ! j) \<and>
      length (staAddr (pDphNodeArray ?t ! j)) = 6"
    if "j < unat (dph_size t)" "dph_added (pDphNodeArray ?t ! j)" for j
    using that wd(5) [of j] len i wd(4) by (cases "j = i") (simp_all add: inserted_def)
  show wf': "dph_wf ?t"
    unfolding dph_wf_def
  proof (intro conjI allI impI)
    show "j = k" if "j < unat (dph_size ?t)" "k < unat (dph_size ?t)" "dph_added (pDphNodeArray ?t ! j)"
      "dph_added (pDphNodeArray ?t ! k)" "staAddr (pDphNodeArray ?t ! j) = staAddr (pDphNodeArray ?t ! k)" for j k
      using that nd absent wd(6) [of j k] by (auto simp: sz split: if_splits)
  qed (use wd(1-4) chain attr sz in \<open>auto simp: inserted_def\<close>)
  show "dph_map ?t = (dph_map t)(addr \<mapsto> i)"
  proof
    fix a
    have "dph_map ?t a = Some j \<longleftrightarrow> ((dph_map t)(addr \<mapsto> i)) a = Some j" for j
    proof (cases "j < unat (dph_size t)")
      case True
      then show ?thesis
        using nd [OF True] i absent [OF True] free
        by (auto simp: dph_map_Some [OF wf'] dph_map_Some [OF wf] sz)
    next
      case False
      then show ?thesis using i by (auto simp: dph_map_Some [OF wf'] dph_map_Some [OF wf] sz)
    qed
    then show "dph_map ?t a = ((dph_map t)(addr \<mapsto> i)) a" by (metis option.exhaust)
  qed
qed

lemma add_map:
  assumes wf: "dph_wf t" and len: "length addr = 6"
  shows "dph_add_hash_entry addr aid t =
     (if aid < dph_size t \<and> \<not> dph_added (pDphNodeArray t ! unat aid) \<and> dph_map t addr = None
      then Some (Some (unat aid), inserted addr (unat aid) t) else Some (None, t))"
proof (cases "aid < dph_size t \<and> \<not> dph_added (pDphNodeArray t ! unat aid)")
  case False
  then show ?thesis by (auto simp: dph_add_hash_entry_def Let_def not_less)
next
  case True
  note wd = dph_wfD [OF wf]
  have i: "unat aid < unat (dph_size t)" "unat aid < 256" "\<not> dph_size t \<le> aid"
    using True wd(2) by (simp_all add: unat_less not_le)
  obtain "is" where l: "linked (pDphNodeArray t) (pHashTable t ! bucket_of t addr) is" and d: "distinct is"
    and s: "set is = {j. j < unat (dph_size t) \<and> dph_added (pDphNodeArray t ! j) \<and>
                   bucket_of t (staAddr (pDphNodeArray t ! j)) = bucket_of t addr}"
    by (rule dph_wf_chain [OF wf bucket_lt [OF wd(1)]])
  have ne: "assocId (pDphNodeArray t ! j) \<noteq> aid" if "j \<in> set is" for j
  proof
    assume "assocId (pDphNodeArray t ! j) = aid"
    then have "aid = of_nat j" using that s wd(5) [of j] by auto
    moreover have "j < 2 ^ 16" using that s wd(2) by auto
    ultimately have "unat aid = j" by (simp add: unat_of_nat)
    then show False using True that s by auto
  qed
  have "find (\<lambda>j. dph_compare_mac_addr addr (staAddr (pDphNodeArray t ! j)) \<or> assocId (pDphNodeArray t ! j) = aid) is
      = dph_map t addr"
    using find_chain [OF wf len s] ne by (simp cong: find_cong)
  then have w: "dph_add_walk addr aid (pDphNodeArray t) (pHashTable t ! unat (hash_function addr (dph_size t))) =
      Some (Inr (dph_map t addr))"
    using add_walk_linked [OF l d, of addr aid] by (simp only: bucket_of_def)
  have init: "dph_init_sta_state addr aid t = (Some (unat aid), upd_node (unat aid) (\<lambda>n. \<lparr>assocId = aid,
      staAddr = addr, dph_valid = True, dph_added = True, is_disassoc_deauth_in_progress = False,
      sta_deletion_in_progress = False, dph_next = dph_next n\<rparr>) t)"
    unfolding dph_init_sta_state_def if_not_P [OF i(3)] Let_def get_node_small [OF i(2)] ..
  let ?t1 = "snd (dph_init_sta_state addr aid t)"
  have t': "upd_head (bucket_of t addr) (Some (unat aid))
       (upd_node (unat aid) (\<lambda>n. n\<lparr>dph_next := pHashTable ?t1 ! bucket_of t addr\<rparr>) ?t1) = inserted addr (unat aid) t"
    using i(1) wd(4) by (simp add: init upd_head_def upd_node_def inserted_def)
  have "pHashTable (inserted addr (unat aid) t) ! bucket_of t addr = Some (unat aid)"
    using bucket_lt [OF wd(1)] wd(3) by (simp add: inserted_def)
  moreover have "(case dph_init_sta_state addr aid t of (None, t1) \<Rightarrow> Some (None, t1)
      | (Some _, t1) \<Rightarrow> let t2 = upd_node (unat aid) (\<lambda>n. n\<lparr>dph_next := pHashTable t1 ! bucket_of t addr\<rparr>) t1;
          t3 = upd_head (bucket_of t addr) (Some (unat aid)) t2 in Some (pHashTable t3 ! bucket_of t addr, t3)) =
      Some (pHashTable (inserted addr (unat aid) t) ! bucket_of t addr, inserted addr (unat aid) t)"
    unfolding t' [symmetric] by (simp add: init Let_def)
  ultimately show ?thesis
    using True w i(3) unfolding dph_add_hash_entry_def Let_def bucket_of_def [symmetric]
    by (cases "dph_map t addr") simp_all
qed

section \<open>Deletion\<close>

text \<open>Taking a node out of a chain by redirecting the pointer before it.\<close>

lemma linked_unlink:
  assumes "linked ns p (xs @ i # ys)" and "length ns' = length ns"
    and "xs = [] \<Longrightarrow> q = dph_next (ns ! i)" and "xs \<noteq> [] \<Longrightarrow> q = p \<and> dph_next (ns' ! last xs) = dph_next (ns ! i)"
    and "\<And>j. j \<in> set ys \<union> set (butlast xs) \<Longrightarrow> dph_next (ns' ! j) = dph_next (ns ! j)"
  shows "linked ns' q (xs @ ys)"
  using assms
proof (induction xs arbitrary: p q)
  case Nil
  then show ?case using linked_cong [of ns' ns ys] by simp
next
  case (Cons x xs)
  show ?case
  proof (cases "xs = []")
    case True
    then show ?thesis using Cons.prems linked_cong [of ns' ns ys] by simp
  next
    case False
    then have "linked ns' (dph_next (ns ! x)) (xs @ ys)"
      by (intro Cons.IH [of "dph_next (ns ! x)"]) (use Cons.prems in auto)
    then show ?thesis using Cons.prems False by simp
  qed
qed

lemma before_split:
  assumes "\<not> (\<exists>j \<in> set xs. P j)" and "P i"
  shows "before prev (xs @ i # ys) P = (if xs = [] then prev else Some (last xs))"
  using assms by (induction xs arbitrary: prev) auto

text \<open>The table after a deletion that succeeds, for the chain \<open>xs @ i # ys\<close> of the node \<open>i\<close>.\<close>

definition unlinked :: "nat list \<Rightarrow> nat \<Rightarrow> nat \<Rightarrow> dph_hash_table \<Rightarrow> dph_hash_table" where
  "unlinked xs i b t =
     (let nxt = dph_next (pDphNodeArray t ! i);
          t1 = upd_node i (\<lambda>n. n\<lparr>dph_valid := False, staAddr := replicate 6 0\<rparr>) t;
          t2 = (if xs = [] then upd_head b nxt t1 else upd_node (last xs) (\<lambda>n. n\<lparr>dph_next := nxt\<rparr>) t1)
      in upd_node i (\<lambda>n. n\<lparr>dph_added := False, is_disassoc_deauth_in_progress := False,
           sta_deletion_in_progress := False, dph_next := None\<rparr>) t2)"

lemma unlinked_sel:
  assumes "i < length (pDphNodeArray t)" and "i \<notin> set xs"
  shows "dph_size (unlinked xs i b t) = dph_size t"
    and "length (pDphNodeArray (unlinked xs i b t)) = length (pDphNodeArray t)"
    and "pHashTable (unlinked xs i b t) =
      (if xs = [] then (pHashTable t)[b := dph_next (pDphNodeArray t ! i)] else pHashTable t)"
    and "\<not> dph_added (pDphNodeArray (unlinked xs i b t) ! i)"
    and "j \<noteq> i \<Longrightarrow> dph_next (pDphNodeArray (unlinked xs i b t) ! j) =
      (if xs \<noteq> [] \<and> j = last xs \<and> j < length (pDphNodeArray t) then dph_next (pDphNodeArray t ! i)
       else dph_next (pDphNodeArray t ! j))"
    and "j \<noteq> i \<Longrightarrow> dph_added (pDphNodeArray (unlinked xs i b t) ! j) = dph_added (pDphNodeArray t ! j) \<and>
      staAddr (pDphNodeArray (unlinked xs i b t) ! j) = staAddr (pDphNodeArray t ! j) \<and>
      assocId (pDphNodeArray (unlinked xs i b t) ! j) = assocId (pDphNodeArray t ! j) \<and>
      dph_valid (pDphNodeArray (unlinked xs i b t) ! j) = dph_valid (pDphNodeArray t ! j)"
  using assms by (auto simp: unlinked_def upd_node_def upd_head_def Let_def nth_list_update_if)

lemma unlinked_wf:
  assumes wf: "dph_wf t" and m: "dph_map t addr = Some i"
    and l: "linked (pDphNodeArray t) (pHashTable t ! bucket_of t addr) (xs @ i # ys)" and d: "distinct (xs @ i # ys)"
    and s: "set (xs @ i # ys) = {j. j < unat (dph_size t) \<and> dph_added (pDphNodeArray t ! j) \<and>
                   bucket_of t (staAddr (pDphNodeArray t ! j)) = bucket_of t addr}"
  shows "dph_wf (unlinked xs i (bucket_of t addr) t)"
    and "dph_map (unlinked xs i (bucket_of t addr) t) = (dph_map t)(addr := None)"
proof -
  let ?t = "unlinked xs i (bucket_of t addr) t" and ?b = "bucket_of t addr"
  note wd = dph_wfD [OF wf]
  have i: "i < unat (dph_size t)" "dph_added (pDphNodeArray t ! i)" "staAddr (pDphNodeArray t ! i) = addr"
    using m by (simp_all add: dph_map_Some [OF wf])
  have sel: "i < length (pDphNodeArray t)" "i \<notin> set xs" using i wd(4) d by auto
  note u = unlinked_sel [OF sel, where b = ?b]
  have bk: "bucket_of ?t = bucket_of t" by (rule bucket_cong [OF u(1)])
  have add: "dph_added (pDphNodeArray ?t ! j) \<longleftrightarrow> j \<noteq> i \<and> dph_added (pDphNodeArray t ! j)" for j
    using u(4) u(6) [of j] by (cases "j = i") auto
  have chain: "\<exists>is. linked (pDphNodeArray ?t) (pHashTable ?t ! c) is \<and> distinct is \<and>
      set is = {j. j < unat (dph_size ?t) \<and> dph_added (pDphNodeArray ?t ! j) \<and>
                   bucket_of ?t (staAddr (pDphNodeArray ?t ! j)) = c}" if c: "c < unat (dph_size ?t)" for c
  proof (cases "c = ?b")
    case True
    have "linked (pDphNodeArray ?t) (pHashTable ?t ! c) (xs @ ys)"
    proof (rule linked_unlink [OF l u(2)])
      show "xs = [] \<Longrightarrow> pHashTable ?t ! c = dph_next (pDphNodeArray t ! i)"
        using u(3) True c wd(3) u(1) by simp
      have "last xs < length (pDphNodeArray t)" if "xs \<noteq> []"
        using s wd(4) last_in_set [OF that] by auto
      moreover have "last xs \<noteq> i" if "xs \<noteq> []" using last_in_set [OF that] sel(2) by metis
      ultimately show "xs \<noteq> [] \<Longrightarrow> pHashTable ?t ! c = pHashTable t ! ?b \<and>
          dph_next (pDphNodeArray ?t ! last xs) = dph_next (pDphNodeArray t ! i)"
        using u(3) u(5) [of "last xs"] True by simp
      show "dph_next (pDphNodeArray ?t ! j) = dph_next (pDphNodeArray t ! j)" if "j \<in> set ys \<union> set (butlast xs)" for j
      proof -
        have "j \<noteq> i" using that d in_set_butlastD by fastforce
        moreover have "\<not> (xs \<noteq> [] \<and> j = last xs)"
          using that d last_in_set [of xs] last_notin_butlast [of xs] by (metis Un_iff disjoint_iff distinct_append
              distinct.simps(2) list.set_intros(2))
        ultimately show ?thesis using u(5) [of j] by auto
      qed
    qed
    moreover have "set (xs @ ys) = {j. j < unat (dph_size ?t) \<and> dph_added (pDphNodeArray ?t ! j) \<and>
        bucket_of ?t (staAddr (pDphNodeArray ?t ! j)) = c}"
    proof -
      have "set (xs @ ys) = set (xs @ i # ys) - {i}" using d by auto
      also have "\<dots> = {j. j < unat (dph_size ?t) \<and> dph_added (pDphNodeArray ?t ! j) \<and>
          bucket_of ?t (staAddr (pDphNodeArray ?t ! j)) = c}"
      proof -
        have "(j < unat (dph_size t) \<and> dph_added (pDphNodeArray t ! j) \<and> bucket_of t (staAddr (pDphNodeArray t ! j)) = ?b \<and> j \<noteq> i) =
          (j < unat (dph_size t) \<and> dph_added (pDphNodeArray ?t ! j) \<and> bucket_of t (staAddr (pDphNodeArray ?t ! j)) = ?b)" for j
          using add [of j] u(6) [of j] by (cases "j = i") simp_all
        then show ?thesis unfolding s u(1) bk True by auto
      qed
      finally show ?thesis .
    qed
    ultimately show ?thesis using d by (intro exI [of _ "xs @ ys"]) auto
  next
    case False
    have c': "c < unat (dph_size t)" using c u(1) by simp
    obtain "is" where l': "linked (pDphNodeArray t) (pHashTable t ! c) is" and d': "distinct is"
      and s': "set is = {j. j < unat (dph_size t) \<and> dph_added (pDphNodeArray t ! j) \<and>
                     bucket_of t (staAddr (pDphNodeArray t ! j)) = c}"
      by (rule dph_wf_chain [OF wf c'])
    have disj: "j \<notin> set (xs @ i # ys)" if "j \<in> set is" for j using that s s' False by auto
    have "linked (pDphNodeArray ?t) (pHashTable t ! c) is"
      using l' linked_cong [of "pDphNodeArray ?t" "pDphNodeArray t" "is"] u(2) u(5) disj
      by (metis Un_iff last_in_set list.set_intros(1) set_append)
    moreover have "pHashTable ?t ! c = pHashTable t ! c" using u(3) False by simp
    moreover have "set is = {j. j < unat (dph_size ?t) \<and> dph_added (pDphNodeArray ?t ! j) \<and>
        bucket_of ?t (staAddr (pDphNodeArray ?t ! j)) = c}"
      unfolding s' u(1) bk
    proof (rule Collect_cong)
      fix j show "(j < unat (dph_size t) \<and> dph_added (pDphNodeArray t ! j) \<and> bucket_of t (staAddr (pDphNodeArray t ! j)) = c) =
          (j < unat (dph_size t) \<and> dph_added (pDphNodeArray ?t ! j) \<and> bucket_of t (staAddr (pDphNodeArray ?t ! j)) = c)"
        using add [of j] u(6) [of j] i(3) False by (cases "j = i") simp_all
    qed
    ultimately show ?thesis using d' by auto
  qed
  show wf': "dph_wf ?t"
    unfolding dph_wf_def
  proof (intro conjI allI impI)
    show "j = k" if "j < unat (dph_size ?t)" "k < unat (dph_size ?t)" "dph_added (pDphNodeArray ?t ! j)"
      "dph_added (pDphNodeArray ?t ! k)" "staAddr (pDphNodeArray ?t ! j) = staAddr (pDphNodeArray ?t ! k)" for j k
      using that add u(1,6) wd(6) [of j k] by metis
    fix j assume j: "j < unat (dph_size ?t)" "dph_added (pDphNodeArray ?t ! j)"
    then have "j \<noteq> i" "dph_added (pDphNodeArray t ! j)" "j < unat (dph_size t)" using add u(1) by auto
    then show "assocId (pDphNodeArray ?t ! j) = of_nat j" "dph_valid (pDphNodeArray ?t ! j)"
      "length (staAddr (pDphNodeArray ?t ! j)) = 6"
      using u(6) [of j] wd(5) [of j] by auto
  qed (use wd(1-4) u chain in auto)
  show "dph_map ?t = (dph_map t)(addr := None)"
  proof
    fix a
    have "dph_map ?t a = Some j \<longleftrightarrow> ((dph_map t)(addr := None)) a = Some j" for j
      using add [of j] u(1) u(6) [of j] i wd(6) [of i j]
      by (auto simp: dph_map_Some [OF wf'] dph_map_Some [OF wf])
    then show "dph_map ?t a = ((dph_map t)(addr := None)) a" by (metis option.exhaust)
  qed
qed

lemma delete_map:
  assumes wf: "dph_wf t" and len: "length addr = 6"
  shows "\<exists>st t'. dph_delete_hash_entry addr aid t = Some (st, t') \<and> dph_wf t' \<and>
     (if aid < dph_size t \<and> dph_added (pDphNodeArray t ! unat aid) \<and> dph_map t addr \<noteq> None
      then st = QDF_STATUS_SUCCESS \<and> dph_map t' = (dph_map t)(addr := None)
      else st = QDF_STATUS_E_FAILURE \<and> t' = t)"
proof (cases "aid < dph_size t \<and> dph_added (pDphNodeArray t ! unat aid)")
  case False
  then show ?thesis using wf by (auto simp: dph_delete_hash_entry_def Let_def not_less)
next
  case True
  note wd = dph_wfD [OF wf]
  obtain "is" where l: "linked (pDphNodeArray t) (pHashTable t ! bucket_of t addr) is" and d: "distinct is"
    and s: "set is = {j. j < unat (dph_size t) \<and> dph_added (pDphNodeArray t ! j) \<and>
                   bucket_of t (staAddr (pDphNodeArray t ! j)) = bucket_of t addr}"
    by (rule dph_wf_chain [OF wf bucket_lt [OF wd(1)]])
  let ?P = "\<lambda>i. dph_compare_mac_addr addr (staAddr (pDphNodeArray t ! i))"
  have w: "dph_delete_walk addr (pDphNodeArray t) None (pHashTable t ! bucket_of t addr) =
      Some (Inr (before None is ?P, dph_map t addr))"
    using delete_walk_linked [OF l d, of None addr] find_chain [OF wf len s] by simp
  show ?thesis
  proof (cases "dph_map t addr")
    case None
    then show ?thesis using True wf w by (simp add: dph_delete_hash_entry_def Let_def not_le bucket_of_def)
  next
    case (Some i)
    then have "find ?P is = Some i" using find_chain [OF wf len s] by simp
    then obtain k where k: "k < length is" "is ! k = i" "?P i" "\<forall>j < k. \<not> ?P (is ! j)"
      by (auto simp: find_Some_iff)
    define xs ys where "xs = take k is" and "ys = drop (Suc k) is"
    then have sp: "is = xs @ i # ys" using id_take_nth_drop [OF k(1)] k(2) by simp
    have "\<not> (\<exists>j \<in> set xs. ?P j)" using k by (auto simp: xs_def in_set_conv_nth)
    then have b: "before None is ?P = (if xs = [] then None else Some (last xs))"
      unfolding sp using k(3) by (rule before_split)
    have i: "i < length (pDphNodeArray t)" using Some wd(4) by (simp add: dph_map_Some [OF wf])
    have "dph_delete_hash_entry addr aid t =
        (case Inr (before None is ?P, dph_map t addr) of
           Inr (prev, Some i) \<Rightarrow> Some (QDF_STATUS_SUCCESS, unlinked xs i (bucket_of t addr) t) | _ \<Rightarrow> None)"
      unfolding dph_delete_hash_entry_def Let_def bucket_of_def [symmetric] w
      using True i by (simp add: not_le Some b unlinked_def upd_node_def Let_def)
    then have "dph_delete_hash_entry addr aid t = Some (QDF_STATUS_SUCCESS, unlinked xs i (bucket_of t addr) t)"
      using Some by simp
    then show ?thesis
      using unlinked_wf [OF wf Some l [unfolded sp] d [unfolded sp] s [unfolded sp]] True Some by simp
  qed
qed

section \<open>Initialisation\<close>

lemma fold_upd_head:
  "n \<le> length (pHashTable t) \<Longrightarrow> fold (\<lambda>i. upd_head i None) [0..<n] t =
     t\<lparr>pHashTable := replicate n None @ drop n (pHashTable t)\<rparr>"
proof (induction n)
  case (Suc n)
  then have "drop n (pHashTable t) = (pHashTable t ! n) # drop (Suc n) (pHashTable t)"
    by (simp add: Cons_nth_drop_Suc)
  with Suc show ?case by (simp add: upd_head_def list_update_append replicate_append_same [symmetric])
qed simp

lemma fold_upd_node:
  assumes "n \<le> length (pDphNodeArray t)"
  shows "dph_size (fold (\<lambda>i. upd_node i (f i)) [0..<n] t) = dph_size t"
    and "pHashTable (fold (\<lambda>i. upd_node i (f i)) [0..<n] t) = pHashTable t"
    and "length (pDphNodeArray (fold (\<lambda>i. upd_node i (f i)) [0..<n] t)) = length (pDphNodeArray t)"
    and "j < n \<Longrightarrow> pDphNodeArray (fold (\<lambda>i. upd_node i (f i)) [0..<n] t) ! j = f j (pDphNodeArray t ! j)"
    and "n \<le> j \<Longrightarrow> pDphNodeArray (fold (\<lambda>i. upd_node i (f i)) [0..<n] t) ! j = pDphNodeArray t ! j"
  using assms by (induction n arbitrary: j) (auto simp: upd_node_def nth_list_update_if less_Suc_eq)

lemma init_wf:
  assumes "0 < unat (dph_size t)" and "unat (dph_size t) \<le> 256"
    and "length (pHashTable t) = unat (dph_size t)" and "length (pDphNodeArray t) = unat (dph_size t)"
  shows "dph_wf (dph_hash_table_init t)" and "dph_map (dph_hash_table_init t) = Map.empty"
proof -
  let ?t1 = "t\<lparr>pHashTable := replicate (unat (dph_size t)) None\<rparr>"
  have init: "dph_hash_table_init t = fold (\<lambda>i. upd_node i (\<lambda>n. n\<lparr>dph_valid := False, dph_added := False, assocId := of_nat i\<rparr>))
      [0..<unat (dph_size t)] ?t1"
    using assms fold_upd_head [of "unat (dph_size t)" t] by (simp add: dph_hash_table_init_def Let_def)
  note sel = fold_upd_node [where n = "unat (dph_size t)" and t = ?t1 and
      f = "\<lambda>i n. n\<lparr>dph_valid := False, dph_added := False, assocId := of_nat i\<rparr>"]
  have t: "dph_size (dph_hash_table_init t) = dph_size t"
    "pHashTable (dph_hash_table_init t) = replicate (unat (dph_size t)) None"
    "length (pDphNodeArray (dph_hash_table_init t)) = unat (dph_size t)"
    "\<And>j. j < unat (dph_size t) \<Longrightarrow> \<not> dph_added (pDphNodeArray (dph_hash_table_init t) ! j)"
    unfolding init using sel assms(4) by simp_all
  show "dph_wf (dph_hash_table_init t)"
    unfolding dph_wf_def using assms t by (auto intro: exI [of _ "[]"])
  show "dph_map (dph_hash_table_init t) = Map.empty"
    using t by (auto simp: fun_eq_iff dph_map_def find_None_iff)
qed

section \<open>The map interface\<close>

text \<open>
  What the users of the table rely on: a lookup answers from the map that the
  table represents, an insertion that succeeds adds one binding, a deletion that
  succeeds removes one, and a call that fails changes nothing.
\<close>

locale station_map =
  fixes inv :: "'t \<Rightarrow> bool" and rep :: "'t \<Rightarrow> 'k \<Rightarrow> nat option" and ok :: "'k \<Rightarrow> bool"
    and lookup :: "'k \<Rightarrow> 't \<Rightarrow> nat option"
    and add :: "'k \<Rightarrow> nat \<Rightarrow> 't \<Rightarrow> bool \<times> 't" and del :: "'k \<Rightarrow> nat \<Rightarrow> 't \<Rightarrow> bool \<times> 't"
  assumes lookup_rep: "inv t \<Longrightarrow> ok k \<Longrightarrow> lookup k t = rep t k"
    and add_ok: "inv t \<Longrightarrow> ok k \<Longrightarrow> add k i t = (True, t') \<Longrightarrow> inv t' \<and> rep t' = (rep t)(k \<mapsto> i)"
    and add_fail: "inv t \<Longrightarrow> ok k \<Longrightarrow> add k i t = (False, t') \<Longrightarrow> t' = t"
    and del_ok: "inv t \<Longrightarrow> ok k \<Longrightarrow> del k i t = (True, t') \<Longrightarrow> inv t' \<and> rep t' = (rep t)(k := None)"
    and del_fail: "inv t \<Longrightarrow> ok k \<Longrightarrow> del k i t = (False, t') \<Longrightarrow> t' = t"
begin

lemma lookup_after_add:
  assumes "inv t" and "ok k" and "ok k'" and "add k i t = (True, t')"
  shows "lookup k' t' = (if k' = k then Some i else lookup k' t)"
  using assms add_ok [OF assms(1,2,4)] by (simp add: lookup_rep)

lemma lookup_after_delete:
  assumes "inv t" and "ok k" and "ok k'" and "del k i t = (True, t')"
  shows "lookup k' t' = (if k' = k then None else lookup k' t)"
  using assms del_ok [OF assms(1,2,4)] by (simp add: lookup_rep)

lemma add_delete:
  assumes "inv t" and "ok k" and "rep t k = None" and "add k i t = (True, t1)" and "del k j t1 = (True, t2)"
  shows "inv t2 \<and> rep t2 = rep t"
  using add_ok [OF assms(1,2,4)] del_ok [OF _ assms(2,5)] assms(3) by (simp add: fun_upd_idem)

end

text \<open>The operations of the table as the users see them, on a table that satisfies the invariant.\<close>

definition dph_find :: "mac_addr \<Rightarrow> dph_hash_table \<Rightarrow> nat option" where
  "dph_find addr t = (case dph_lookup_hash_entry addr t of None \<Rightarrow> None | Some (p, _) \<Rightarrow> p)"

definition dph_add :: "mac_addr \<Rightarrow> nat \<Rightarrow> dph_hash_table \<Rightarrow> bool \<times> dph_hash_table" where
  "dph_add addr i t = (if i \<ge> 2 ^ 16 then (False, t)
     else case dph_add_hash_entry addr (of_nat i) t of None \<Rightarrow> (False, t) | Some (p, t') \<Rightarrow> (p \<noteq> None, t'))"

definition dph_del :: "mac_addr \<Rightarrow> nat \<Rightarrow> dph_hash_table \<Rightarrow> bool \<times> dph_hash_table" where
  "dph_del addr i t = (case dph_delete_hash_entry addr (of_nat i) t of
     None \<Rightarrow> (False, t) | Some (st, t') \<Rightarrow> (st = QDF_STATUS_SUCCESS, t'))"

interpretation dph_station: station_map dph_wf dph_map "\<lambda>addr. length addr = 6" dph_find dph_add dph_del
proof
  fix t t' addr i
  assume wf: "dph_wf t" and len: "length (addr :: mac_addr) = 6"
  show "dph_find addr t = dph_map t addr"
    by (simp add: dph_find_def lookup_map [OF wf len])
  have i: "unat (of_nat i :: u16) = i" if "i < 2 ^ 16" using that by (simp add: unat_of_nat)
  show "dph_add addr i t = (True, t') \<Longrightarrow> dph_wf t' \<and> dph_map t' = (dph_map t)(addr \<mapsto> i)"
    using inserted_wf [OF wf len] i
    by (auto simp: dph_add_def add_map [OF wf len] unat_less split: if_splits)
  show "dph_add addr i t = (False, t') \<Longrightarrow> t' = t"
    by (auto simp: dph_add_def add_map [OF wf len] split: if_splits)
  show "dph_del addr i t = (True, t') \<Longrightarrow> dph_wf t' \<and> dph_map t' = (dph_map t)(addr := None)"
    "dph_del addr i t = (False, t') \<Longrightarrow> t' = t"
    using delete_map [OF wf len, of "of_nat i"] by (auto simp: dph_del_def split: if_splits)
qed

end
