(* ===== verification/Lim_Aid.thy ===== *)
theory Lim_Aid
  imports Qdf_Prelude "HOL-Library.Monad_Syntax"
begin

text \<open>
  The pool of peer indices of a PE session, \<^verbatim>\<open>src/core/mac/src/pe/lim/lim_aid_mgmt.c\<close>:
  a free list threaded through an array of bytes, from which association ids are
  taken at the head and to which they are returned at the tail.  An access
  outside the array is \<open>None\<close>.  The number of stations of all sessions and the
  configured limit are read from other parts of the driver and are arguments.
\<close>

record pe_pool =
  gpLimPeerIdxpool :: "u8 list"
  freePeerIdxHead :: u8
  freePeerIdxTail :: u8
  gLimNumOfCurrentSTAs :: u16

section \<open>Operations\<close>

definition pool_read :: "pe_pool \<Rightarrow> u8 \<Rightarrow> u8 option" where
  "pool_read s i = (if unat i < length (gpLimPeerIdxpool s) then Some (gpLimPeerIdxpool s ! unat i) else None)"

definition pool_write :: "pe_pool \<Rightarrow> u8 \<Rightarrow> u8 \<Rightarrow> pe_pool option" where
  "pool_write s i v =
     (if unat i < length (gpLimPeerIdxpool s)
      then Some (s\<lparr>gpLimPeerIdxpool := (gpLimPeerIdxpool s)[unat i := v]\<rparr>) else None)"

lemma unat_plus1: "(i :: u8) < m \<Longrightarrow> unat (i + 1) = unat i + 1"
  using unsigned_less [of m, where 'a = nat] by (simp add: unat_word_ariths word_less_nat_alt)

text \<open>The loop that links the indices from \<open>i\<close> up to the last one; it returns the value of \<open>i\<close> at its end.\<close>

function lim_link_idxpool :: "u8 \<Rightarrow> u8 \<Rightarrow> pe_pool \<Rightarrow> (u8 \<times> pe_pool) option" where
  "lim_link_idxpool i maxAssocSta s =
     (if i < maxAssocSta
      then pool_write s i (i + 1) \<bind> (\<lambda>s1. lim_link_idxpool (i + 1) maxAssocSta s1)
      else Some (i, s))"
  by pat_completeness auto
termination
proof (relation "measure (\<lambda>(i, m, s). unat m - unat i)", simp, clarsimp)
  fix i m :: u8 assume "i < m"
  then have "unat (i + 1) = unat i + 1" by (rule unat_plus1)
  with \<open>i < m\<close> show "unat m - unat (i + 1) < unat m - unat i" by (simp add: word_less_nat_alt)
qed

declare lim_link_idxpool.simps [simp del]

definition lim_init_peer_idxpool :: "bool \<Rightarrow> u8 \<Rightarrow> pe_pool \<Rightarrow> pe_pool option" where
  "lim_init_peer_idxpool sta_role_tdls maxAssocSta s =
     pool_write s 0 0 \<bind> (\<lambda>s1.
     let head = (if sta_role_tdls then 2 else 1);
         s2 = s1\<lparr>freePeerIdxHead := head\<rparr>
     in lim_link_idxpool head maxAssocSta s2 \<bind> (\<lambda>(i, s3).
        pool_write s3 i 0 \<bind> (\<lambda>s4. Some (s4\<lparr>freePeerIdxTail := i\<rparr>))))"

definition lim_assign_peer_idx :: "u32 \<Rightarrow> u32 \<Rightarrow> pe_pool \<Rightarrow> (u16 \<times> pe_pool) option" where
  "lim_assign_peer_idx current_stas assoc_sta_limit s =
     (if current_stas \<ge> assoc_sta_limit then Some (0, s)
      else if freePeerIdxHead s \<noteq> 0
      then pool_read s (freePeerIdxHead s) \<bind> (\<lambda>next.
           let peerId = ucast (freePeerIdxHead s);
               s1 = s\<lparr>freePeerIdxHead := next\<rparr>;
               s2 = (if freePeerIdxHead s1 = 0 then s1\<lparr>freePeerIdxTail := 0\<rparr> else s1);
               s3 = s2\<lparr>gLimNumOfCurrentSTAs := gLimNumOfCurrentSTAs s2 + 1\<rparr>
           in Some (peerId, s3))
      else Some (0, s))"

definition lim_release_peer_idx :: "u16 \<Rightarrow> pe_pool \<Rightarrow> pe_pool option" where
  "lim_release_peer_idx peerIdx s =
     (let s1 = s\<lparr>gLimNumOfCurrentSTAs := gLimNumOfCurrentSTAs s - 1\<rparr>
      in (if freePeerIdxTail s1 \<noteq> 0
          then pool_write s1 (freePeerIdxTail s1) (ucast peerIdx) \<bind> (\<lambda>s2.
               Some (s2\<lparr>freePeerIdxTail := ucast peerIdx\<rparr>))
          else Some (s1\<lparr>freePeerIdxTail := ucast peerIdx, freePeerIdxHead := ucast peerIdx\<rparr>)) \<bind> (\<lambda>s3.
         pool_write s3 (ucast peerIdx) 0))"

section \<open>The free list as a queue\<close>

fun chain :: "u8 list \<Rightarrow> u8 \<Rightarrow> u8 list \<Rightarrow> bool" where
  "chain pool p [] \<longleftrightarrow> p = 0"
| "chain pool p (x # xs) \<longleftrightarrow> p = x \<and> x \<noteq> 0 \<and> unat x < length pool \<and> chain pool (pool ! unat x) xs"

text \<open>The queue of free indices that a pool represents.\<close>

definition pool_rep :: "pe_pool \<Rightarrow> u8 list \<Rightarrow> bool" where
  "pool_rep s q \<longleftrightarrow> chain (gpLimPeerIdxpool s) (freePeerIdxHead s) q \<and> distinct q \<and>
     freePeerIdxTail s = (if q = [] then 0 else last q)"

lemma chain_cong:
  "length pool' = length pool \<Longrightarrow> \<forall>x \<in> set q. pool' ! unat x = pool ! unat x \<Longrightarrow> chain pool' p q = chain pool p q"
  by (induction q arbitrary: p) auto

lemma chain_nonzero: "chain pool p q \<Longrightarrow> x \<in> set q \<Longrightarrow> x \<noteq> 0 \<and> unat x < length pool"
  by (induction q arbitrary: p) auto

lemma chain_append_one:
  assumes "chain pool p q" and "distinct q" and "x \<notin> set q" and "x \<noteq> 0" and "unat x < length pool"
    and "pool' = (if q = [] then pool else pool[unat (last q) := x])[unat x := 0]"
  shows "chain pool' (if q = [] then x else p) (q @ [x])"
  using assms
proof (induction q arbitrary: p)
  case Nil
  then show ?case by simp
next
  case (Cons y q)
  have ne: "unat x \<noteq> unat y" using Cons.prems(3) by (auto simp: word_unat_eq_iff [symmetric])
  show ?case
  proof (cases "q = []")
    case True
    then show ?thesis using Cons.prems ne by simp
  next
    case False
    then have "chain pool' (pool ! unat y) (q @ [x])"
      using Cons.IH [of "pool ! unat y"] Cons.prems by simp
    moreover have "last q \<noteq> y" using Cons.prems(2) False last_in_set [of q] by auto
    then have "unat (last q) \<noteq> unat y" by (simp add: word_unat_eq_iff)
    ultimately show ?thesis using Cons.prems False ne by simp
  qed
qed

lemma assign_rep:
  assumes "pool_rep s q"
  shows "lim_assign_peer_idx n lim s =
     (case q of
        [] \<Rightarrow> Some (0, s)
      | x # xs \<Rightarrow> if n \<ge> lim then Some (0, s)
                  else Some (ucast x, s\<lparr>freePeerIdxHead := (if xs = [] then 0 else hd xs),
                    freePeerIdxTail := (if xs = [] then 0 else freePeerIdxTail s),
                    gLimNumOfCurrentSTAs := gLimNumOfCurrentSTAs s + 1\<rparr>))"
proof (cases q)
  case Nil
  then show ?thesis using assms by (simp add: pool_rep_def lim_assign_peer_idx_def)
next
  case (Cons x xs)
  then have h: "freePeerIdxHead s = x" "x \<noteq> 0" "unat x < length (gpLimPeerIdxpool s)"
    "chain (gpLimPeerIdxpool s) (gpLimPeerIdxpool s ! unat x) xs"
    using assms by (simp_all add: pool_rep_def)
  then have "gpLimPeerIdxpool s ! unat x = (if xs = [] then 0 else hd xs)" "xs \<noteq> [] \<Longrightarrow> hd xs \<noteq> 0"
    by (cases xs; simp)+
  then show ?thesis
    using h Cons by (cases s) (simp add: lim_assign_peer_idx_def pool_read_def Let_def)
qed

lemma assign_rep_Cons:
  assumes "pool_rep s (x # xs)" and "n < lim"
  shows "\<exists>s'. lim_assign_peer_idx n lim s = Some (ucast x, s') \<and> pool_rep s' xs"
  using assms assign_rep [OF assms(1), of n lim] by (cases xs) (auto simp: pool_rep_def)

lemma ucast_roundtrip: "ucast (ucast (x :: u8) :: u16) = x"
  by (rule bit_word_eqI) (simp add: bit_ucast_iff)

lemma release_rep:
  assumes rep: "pool_rep s q" and x: "x \<notin> set q" "x \<noteq> 0" "unat x < length (gpLimPeerIdxpool s)"
  shows "\<exists>s'. lim_release_peer_idx (ucast x) s = Some s' \<and> pool_rep s' (q @ [x]) \<and>
     length (gpLimPeerIdxpool s') = length (gpLimPeerIdxpool s)"
proof -
  have uu: "ucast (ucast x :: u16) = x" by (rule ucast_roundtrip)
  let ?pool = "gpLimPeerIdxpool s"
  define pool' where "pool' = (if q = [] then ?pool else ?pool[unat (last q) := x])[unat x := 0]"
  have c: "chain ?pool (freePeerIdxHead s) q" "distinct q" "freePeerIdxTail s = (if q = [] then 0 else last q)"
    using rep by (simp_all add: pool_rep_def)
  have "chain pool' (if q = [] then x else freePeerIdxHead s) (q @ [x])"
    using chain_append_one [OF c(1,2) x pool'_def] .
  moreover have "lim_release_peer_idx (ucast x) s = Some (s\<lparr>gpLimPeerIdxpool := pool', freePeerIdxTail := x,
      freePeerIdxHead := (if q = [] then x else freePeerIdxHead s),
      gLimNumOfCurrentSTAs := gLimNumOfCurrentSTAs s - 1\<rparr>)"
    using c x chain_nonzero [OF c(1), of "last q"]
    by (cases "q = []"; cases s) (simp_all add: lim_release_peer_idx_def pool_write_def Let_def uu pool'_def)
  ultimately show ?thesis using c x by (auto simp: pool_rep_def pool'_def)
qed

section \<open>Initialisation\<close>

text \<open>The size of the array that the session allocates for the pool.\<close>

definition lim_get_peer_idxpool_size :: "u16 \<Rightarrow> bool \<Rightarrow> u8" where
  "lim_get_peer_idxpool_size num_sta infra_tdls = ucast (if infra_tdls then num_sta + 2 else num_sta + 1)"

text \<open>The array after the loop: from \<open>i\<close> up to \<open>m\<close> every byte holds the next index.\<close>

definition linked_pool :: "nat \<Rightarrow> nat \<Rightarrow> u8 list \<Rightarrow> u8 list" where
  "linked_pool i m pool = map (\<lambda>j. if i \<le> j \<and> j < m then of_nat (Suc j) else pool ! j) [0..<length pool]"

lemma linked_pool_step:
  "i < m \<Longrightarrow> i < length pool \<Longrightarrow> linked_pool (Suc i) m (pool[i := of_nat (Suc i)]) = linked_pool i m pool"
  by (auto simp: linked_pool_def nth_list_update_if)

lemma link_idxpool:
  "i \<le> m \<Longrightarrow> unat m < length (gpLimPeerIdxpool s) \<Longrightarrow>
     lim_link_idxpool i m s = Some (m, s\<lparr>gpLimPeerIdxpool := linked_pool (unat i) (unat m) (gpLimPeerIdxpool s)\<rparr>)"
proof (induction i m s rule: lim_link_idxpool.induct)
  case (1 i m s)
  show ?case
  proof (cases "i < m")
    case False
    then have "i = m" using 1 by simp
    moreover have "linked_pool (unat m) (unat m) (gpLimPeerIdxpool s) = gpLimPeerIdxpool s"
      by (rule nth_equalityI) (auto simp: linked_pool_def)
    ultimately show ?thesis by (simp add: lim_link_idxpool.simps [of m m])
  next
    case True
    then have u: "unat (i + 1) = unat i + 1" by (rule unat_plus1)
    let ?s = "s\<lparr>gpLimPeerIdxpool := (gpLimPeerIdxpool s)[unat i := i + 1]\<rparr>"
    have i: "unat i < unat m" using True by (simp add: word_less_nat_alt)
    have w: "pool_write s i (i + 1) = Some ?s"
      using 1(3) i by (simp add: pool_write_def)
    have eq: "i + 1 = of_nat (Suc (unat i))" by simp
    have "lim_link_idxpool (i + 1) m ?s =
        Some (m, ?s\<lparr>gpLimPeerIdxpool := linked_pool (unat (i + 1)) (unat m) (gpLimPeerIdxpool ?s)\<rparr>)"
      by (rule 1(1) [OF True w]) (use 1(3) u i in \<open>simp_all add: word_le_nat_alt\<close>)
    also have "\<dots> = Some (m, s\<lparr>gpLimPeerIdxpool := linked_pool (unat i) (unat m) (gpLimPeerIdxpool s)\<rparr>)"
      using linked_pool_step [OF i, of "gpLimPeerIdxpool s"] 1(3) i u by (simp add: add.commute)
    finally show ?thesis using True w by (simp add: lim_link_idxpool.simps [of i m s])
  qed
qed

lemma chain_upt:
  "0 < a \<Longrightarrow> a \<le> b \<Longrightarrow> b < 256 \<Longrightarrow> b < length pool \<Longrightarrow>
     \<forall>j. a \<le> j \<and> j < b \<longrightarrow> pool ! j = of_nat (Suc j) \<Longrightarrow> pool ! b = 0 \<Longrightarrow>
     chain pool (of_nat a) (map of_nat [a..<Suc b])"
proof (induction "b - a" arbitrary: a)
  case 0
  then have "a = b" by simp
  then show ?case using 0 by (simp add: unat_of_nat word_unat_eq_iff)
next
  case (Suc k)
  then have ab: "a < b" by simp
  then have "[a..<Suc b] = a # [Suc a..<Suc b]" by (simp add: upt_conv_Cons)
  moreover have "chain pool (of_nat (Suc a)) (map of_nat [Suc a..<Suc b])"
    by (rule Suc.hyps) (use Suc.prems Suc.hyps(2) ab in auto)
  moreover have u: "unat (of_nat a :: u8) = a" using Suc.prems by (simp add: unat_of_nat)
  moreover have "(of_nat a :: u8) \<noteq> 0" using u Suc.prems(1) by auto
  ultimately show ?case using Suc.prems ab by simp
qed

definition pool_start :: "bool \<Rightarrow> nat" where
  "pool_start sta = (if sta then 2 else 1)"

text \<open>The indices that the pool of a session holds: from the first peer index up to the last one.\<close>

definition pool_ids :: "bool \<Rightarrow> u8 \<Rightarrow> u8 list" where
  "pool_ids sta m = map of_nat [pool_start sta..<Suc (max (pool_start sta) (unat m))]"

lemma pool_size:
  assumes "unat (m :: u8) \<le> 253"
  shows "unat (lim_get_peer_idxpool_size (ucast m) sta) = unat m + pool_start sta"
proof -
  have "unat (ucast m + 2 :: u16) = unat m + 2" "unat (ucast m + 1 :: u16) = unat m + 1"
    using assms by (simp_all add: unat_word_ariths unsigned_ucast_eq take_bit_eq_mod)
  then show ?thesis
    using assms by (simp add: lim_get_peer_idxpool_size_def pool_start_def unsigned_ucast_eq take_bit_eq_mod)
qed

lemma init_rep:
  assumes m: "1 \<le> unat m" "unat m \<le> 253"
    and len: "length (gpLimPeerIdxpool s) = unat (lim_get_peer_idxpool_size (ucast m) sta)"
  shows "\<exists>s'. lim_init_peer_idxpool sta m s = Some s' \<and> pool_rep s' (pool_ids sta m) \<and>
     length (gpLimPeerIdxpool s') = length (gpLimPeerIdxpool s) \<and>
     gLimNumOfCurrentSTAs s' = gLimNumOfCurrentSTAs s"
proof -
  let ?a = "pool_start sta" and ?pool = "(gpLimPeerIdxpool s)[0 := 0]"
  let ?b = "max ?a (unat m)"
  define head :: u8 where "head = (if sta then 2 else 1)"
  have h: "unat head = ?a" "0 < ?a" "?a \<le> 2" "of_nat ?a = head" by (auto simp: head_def pool_start_def)
  have L: "length (gpLimPeerIdxpool s) = unat m + ?a" using len pool_size [OF m(2)] by simp
  have ub: "unat (of_nat ?b :: u8) = ?b" using m h by (simp add: unat_of_nat)
  let ?s2 = "s\<lparr>gpLimPeerIdxpool := ?pool, freePeerIdxHead := head\<rparr>"
  have link: "lim_link_idxpool head m ?s2 =
      Some (of_nat ?b, ?s2\<lparr>gpLimPeerIdxpool := linked_pool ?a ?b ?pool\<rparr>)"
  proof (cases "head \<le> m")
    case True
    then have "?b = unat m" using h by (simp add: word_le_nat_alt)
    then show ?thesis using link_idxpool [OF True, of ?s2] L h by simp
  next
    case False
    then have "?b = ?a" using h by (simp add: word_le_nat_alt)
    moreover have "linked_pool ?a ?a ?pool = ?pool"
      by (rule nth_equalityI) (auto simp: linked_pool_def)
    moreover have "\<not> head < m" using False by simp
    ultimately show ?thesis using h(4) by (simp add: lim_link_idxpool.simps [of head m])
  qed
  let ?p = "(linked_pool ?a ?b ?pool)[?b := 0]"
  have bl: "?b < length ?pool" using L m h by auto
  have w: "lim_init_peer_idxpool sta m s = Some (?s2\<lparr>gpLimPeerIdxpool := ?p, freePeerIdxTail := of_nat ?b\<rparr>)"
    using link bl L h(2) by (simp add: lim_init_peer_idxpool_def pool_write_def head_def [symmetric] ub linked_pool_def Let_def)
  have "chain ?p (of_nat ?a) (map of_nat [?a..<Suc ?b])"
    by (rule chain_upt) (use h m bl in \<open>auto simp: linked_pool_def nth_list_update_if\<close>)
  moreover have "distinct (map of_nat [?a..<Suc ?b] :: u8 list)"
    using m h by (auto simp: distinct_map inj_on_def word_unat_eq_iff unat_of_nat)
  ultimately have "pool_rep (?s2\<lparr>gpLimPeerIdxpool := ?p, freePeerIdxTail := of_nat ?b\<rparr>) (pool_ids sta m)"
    by (simp add: pool_rep_def pool_ids_def h(4))
  then show ?thesis using w by (simp add: linked_pool_def)
qed

section \<open>A pool of indices\<close>

text \<open>
  The contract of an index pool: an index that is handed out leaves the free
  indices, an index that is returned joins them, and a request finds an index
  whenever one is free.
\<close>

locale index_pool =
  fixes rep :: "'s \<Rightarrow> 'i list \<Rightarrow> bool" and bound :: "'s \<Rightarrow> 'i set"
    and assign :: "'s \<Rightarrow> ('i option \<times> 's) option" and release :: "'i \<Rightarrow> 's \<Rightarrow> 's option"
  assumes assign_Cons: "rep s (x # q) \<Longrightarrow> \<exists>s'. assign s = Some (Some x, s') \<and> rep s' q \<and> bound s' = bound s"
    and assign_Nil: "rep s [] \<Longrightarrow> assign s = Some (None, s)"
    and release_rep: "rep s q \<Longrightarrow> x \<notin> set q \<Longrightarrow> x \<in> bound s \<Longrightarrow>
      \<exists>s'. release x s = Some s' \<and> rep s' (q @ [x]) \<and> bound s' = bound s"
begin

definition owns :: "'s \<Rightarrow> 'i list \<Rightarrow> 'i set \<Rightarrow> bool" where
  "owns s held ids \<longleftrightarrow> (\<exists>q. rep s q \<and> distinct q \<and> distinct held \<and> set q \<inter> set held = {} \<and>
     set q \<union> set held = ids \<and> ids \<subseteq> bound s)"

lemma assign_owns:
  assumes "owns s held ids"
  shows "\<exists>r s'. assign s = Some (r, s') \<and>
     (case r of None \<Rightarrow> owns s' held ids \<and> set held = ids | Some x \<Rightarrow> owns s' (x # held) ids \<and> x \<notin> set held)"
proof -
  obtain q where q: "rep s q" "distinct q" "distinct held" "set q \<inter> set held = {}" "set q \<union> set held = ids" "ids \<subseteq> bound s"
    using assms by (auto simp: owns_def)
  show ?thesis
  proof (cases q)
    case Nil
    then show ?thesis using q assms assign_Nil by auto
  next
    case (Cons x xs)
    then obtain s' where "assign s = Some (Some x, s')" "rep s' xs" "bound s' = bound s"
      using assign_Cons q(1) by blast
    moreover from this have "owns s' (x # held) ids"
      using q Cons unfolding owns_def by (intro exI [of _ xs]) auto
    ultimately show ?thesis using q Cons by auto
  qed
qed

lemma release_owns:
  assumes "owns s held ids" and "x \<in> set held"
  shows "\<exists>s'. release x s = Some s' \<and> owns s' (remove1 x held) ids"
proof -
  obtain q where q: "rep s q" "distinct q" "distinct held" "set q \<inter> set held = {}" "set q \<union> set held = ids" "ids \<subseteq> bound s"
    using assms(1) by (auto simp: owns_def)
  then obtain s' where "release x s = Some s'" "rep s' (q @ [x])" "bound s' = bound s"
    using release_rep [of s q x] assms(2) by blast
  moreover from this have "owns s' (remove1 x held) ids"
    using q assms(2) unfolding owns_def by (intro exI [of _ "q @ [x]"]) auto
  ultimately show ?thesis by blast
qed

end

definition aid_bound :: "pe_pool \<Rightarrow> u8 set" where
  "aid_bound s = {x. x \<noteq> 0 \<and> unat x < length (gpLimPeerIdxpool s)}"

text \<open>A request below the association limit, with its result read as an optional index.\<close>

definition aid_assign :: "pe_pool \<Rightarrow> (u8 option \<times> pe_pool) option" where
  "aid_assign s = map_option (\<lambda>(i, s'). (if i = 0 then None else Some (ucast i), s')) (lim_assign_peer_idx 0 1 s)"

interpretation aid_pool: index_pool pool_rep aid_bound aid_assign "\<lambda>x. lim_release_peer_idx (ucast x)"
proof
  fix s q x
  have nz: "(ucast (x :: u8) :: u16) = 0 \<longleftrightarrow> x = 0" for x
    by (metis ucast_roundtrip ucast_0)
  show "\<exists>s'. aid_assign s = Some (Some x, s') \<and> pool_rep s' q \<and> aid_bound s' = aid_bound s"
    if "pool_rep s (x # q)"
  proof -
    have "x \<noteq> 0" using that chain_nonzero by (auto simp: pool_rep_def)
    then show ?thesis
      using assign_rep [OF that, of 0 1] that nz ucast_roundtrip
      by (cases q) (auto simp: aid_assign_def pool_rep_def aid_bound_def)
  qed
  show "aid_assign s = Some (None, s)" if "pool_rep s []"
    using assign_rep [OF that, of 0 1] by (simp add: aid_assign_def)
  show "\<exists>s'. lim_release_peer_idx (ucast x) s = Some s' \<and> pool_rep s' (q @ [x]) \<and> aid_bound s' = aid_bound s"
    if "pool_rep s q" "x \<notin> set q" "x \<in> aid_bound s"
    using release_rep [OF that(1,2)] that(3) by (auto simp: aid_bound_def)
qed

end
