(* ===== verification/Sta_Props.thy ===== *)
theory Sta_Props
  imports Dph_Map Lim_Aid
begin

text \<open>
  Properties of the station table and of the pool of association ids, alone and
  together, with an example table and an example pool.
\<close>

section \<open>The station table\<close>

text \<open>C8. On a table that satisfies its invariant, an insertion returns; it succeeds exactly when the
  id is in range and free and the address is new, and then it adds this one binding; otherwise
  it returns no node and changes nothing.  The invariant is kept in both cases.\<close>

theorem dph_add_refines_map:
  assumes wf: "dph_wf t" and len: "length addr = 6"
  shows "\<exists>p t'. dph_add_hash_entry addr aid t = Some (p, t') \<and> dph_wf t' \<and>
     (if aid < dph_size t \<and> dph_get_hash_entry aid t = None \<and> dph_map t addr = None
      then p = Some (unat aid) \<and> dph_map t' = (dph_map t)(addr \<mapsto> unat aid) \<and> dph_get_hash_entry aid t' = p
      else p = None \<and> t' = t)"
proof (cases "aid < dph_size t \<and> \<not> dph_added (pDphNodeArray t ! unat aid) \<and> dph_map t addr = None")
  case True
  then have i: "unat aid < unat (dph_size t)" by (simp add: unat_less)
  note ins = inserted_wf [OF wf len i]
  have "dph_get_hash_entry aid (inserted addr (unat aid) t) = Some (unat aid)"
    using True i dph_wfD(4) [OF wf] by (simp add: dph_get_hash_entry_def inserted_def)
  then show ?thesis using True ins by (simp add: add_map [OF wf len] dph_get_hash_entry_def)
next
  case False
  then show ?thesis using wf by (auto simp: add_map [OF wf len] dph_get_hash_entry_def)
qed

text \<open>A lookup returns, with the node that the map gives for the address and its association id.\<close>

theorem dph_lookup_refines_map:
  assumes "dph_wf t" and "length addr = 6"
  shows "dph_lookup_hash_entry addr t = Some (dph_map t addr, map_option of_nat (dph_map t addr))"
  by (rule lookup_map [OF assms])

text \<open>C9. A deletion returns; it succeeds exactly when the id is in use and the address is present,
  and then it removes the binding of the address, whichever id was passed; otherwise it fails and
  changes nothing.\<close>

theorem dph_delete_refines_map:
  assumes wf: "dph_wf t" and len: "length addr = 6"
  shows "\<exists>st t'. dph_delete_hash_entry addr aid t = Some (st, t') \<and> dph_wf t' \<and>
     (if dph_get_hash_entry aid t \<noteq> None \<and> dph_map t addr \<noteq> None
      then st = QDF_STATUS_SUCCESS \<and> dph_map t' = (dph_map t)(addr := None)
      else st = QDF_STATUS_E_FAILURE \<and> t' = t)"
proof -
  have "dph_get_hash_entry aid t \<noteq> None \<longleftrightarrow> aid < dph_size t \<and> dph_added (pDphNodeArray t ! unat aid)"
    by (auto simp: dph_get_hash_entry_def)
  then show ?thesis using delete_map [OF wf len, of aid] by auto
qed

text \<open>Initialisation of a table of 1 to 256 nodes establishes the invariant with no station.\<close>

theorem dph_init_empty:
  assumes "0 < unat (dph_size t)" and "unat (dph_size t) \<le> 256"
    and "length (pHashTable t) = unat (dph_size t)" and "length (pDphNodeArray t) = unat (dph_size t)"
  shows "dph_wf (dph_hash_table_init t) \<and> dph_map (dph_hash_table_init t) = Map.empty"
  using init_wf [OF assms] by blast

text \<open>The station state is initialised through an 8-bit id: for ids from 256 on, an insertion
  reports the new node but marks another one, and the node it reports is not found afterwards.\<close>

theorem dph_add_truncates_id:
  assumes add: "dph_add_hash_entry addr aid t = Some (Some p, t')" and aid: "256 \<le> unat aid"
  shows "dph_get_hash_entry aid t' = None"
proof -
  let ?b = "unat (hash_function addr (dph_size t))"
  have c: "\<not> dph_size t \<le> aid" "\<not> dph_added (pDphNodeArray t ! unat aid)"
    using add by (auto simp: dph_add_hash_entry_def Let_def split: if_splits)
  have ne: "get_node (ucast aid) \<noteq> unat aid"
    using unsigned_less [of "ucast aid :: u8", where 'a = nat] aid by (simp add: get_node_def)
  obtain t1 where i: "dph_init_sta_state addr aid t = (Some (get_node (ucast aid)), t1)"
    "dph_added (pDphNodeArray t1 ! unat aid) = dph_added (pDphNodeArray t ! unat aid)"
    using c(1) ne by (simp add: dph_init_sta_state_def Let_def upd_node_def)
  have "t' = upd_head ?b (Some (unat aid)) (upd_node (unat aid) (\<lambda>n. n\<lparr>dph_next := pHashTable t1 ! ?b\<rparr>) t1)"
    using add c i(1) unfolding dph_add_hash_entry_def Let_def
    by (auto split: option.splits sum.splits)
  then have "dph_added (pDphNodeArray t' ! unat aid) = dph_added (pDphNodeArray t1 ! unat aid)"
    by (simp add: upd_head_def upd_node_def nth_list_update_if)
  then show ?thesis using i(2) c(2) by (simp add: dph_get_hash_entry_def)
qed

section \<open>The pool of association ids\<close>

text \<open>
  Runs of a pool: after its initialisation, ids are requested under any station
  count and limit, and ids that are held are returned.
\<close>

inductive aid_run :: "bool \<Rightarrow> u8 \<Rightarrow> pe_pool \<Rightarrow> u8 list \<Rightarrow> bool" for sta m where
  run_init: "length (gpLimPeerIdxpool s0) = unat (lim_get_peer_idxpool_size (ucast m) sta) \<Longrightarrow>
     lim_init_peer_idxpool sta m s0 = Some s \<Longrightarrow> aid_run sta m s []"
| run_assign: "aid_run sta m s held \<Longrightarrow> lim_assign_peer_idx n lim s = Some (x, s') \<Longrightarrow>
     aid_run sta m s' (if x = 0 then held else ucast x # held)"
| run_release: "aid_run sta m s held \<Longrightarrow> x \<in> set held \<Longrightarrow> lim_release_peer_idx (ucast x) s = Some s' \<Longrightarrow>
     aid_run sta m s' (remove1 x held)"

lemma assign_cases:
  assumes own: "aid_pool.owns s held ids" and a: "lim_assign_peer_idx n lim s = Some (x, s')"
  shows "x = 0 \<and> s' = s \<and> (lim \<le> n \<or> set held = ids) \<or>
     x \<noteq> 0 \<and> n < lim \<and> x = ucast (ucast x :: u8) \<and> ucast x \<notin> set held \<and> aid_pool.owns s' (ucast x # held) ids"
proof -
  obtain q where q: "pool_rep s q" "set q \<inter> set held = {}" "set q \<union> set held = ids"
    using own by (auto simp: aid_pool.owns_def)
  show ?thesis
  proof (cases "lim \<le> n \<or> q = []")
    case True
    then show ?thesis
      using a q assign_rep [OF q(1), of n lim] by (auto simp: lim_assign_peer_idx_def split: list.splits if_splits)
  next
    case False
    then obtain y ys where y: "q = y # ys" by (cases q) auto
    have y0: "y \<noteq> 0" using q(1) y chain_nonzero by (auto simp: pool_rep_def)
    have same: "lim_assign_peer_idx n lim s = lim_assign_peer_idx 0 1 s"
      using False assign_rep [OF q(1), of n lim] assign_rep [OF q(1), of 0 1] y by simp
    have x: "x = ucast y" using a assign_rep [OF q(1), of n lim] y False by auto
    have x0: "x \<noteq> 0" using x y0 by (metis ucast_roundtrip ucast_0)
    have "aid_assign s = Some (Some y, s')" using a same x x0 ucast_roundtrip by (simp add: aid_assign_def)
    then have "aid_pool.owns s' (y # held) ids \<and> y \<notin> set held" using aid_pool.assign_owns [OF own] by auto
    then show ?thesis using x x0 False ucast_roundtrip by auto
  qed
qed

lemma aid_run_owns:
  assumes "aid_run sta m s held" and "1 \<le> unat m" and "unat m \<le> 253"
  shows "aid_pool.owns s held (set (pool_ids sta m))"
  using assms
proof (induction rule: aid_run.induct)
  case (run_init s0 s)
  obtain s' where "lim_init_peer_idxpool sta m s0 = Some s'" and r: "pool_rep s' (pool_ids sta m)"
    using init_rep [OF run_init(3,4,1)] by blast
  then have "pool_rep s (pool_ids sta m)" using run_init(2) by simp
  moreover from this have "set (pool_ids sta m) \<subseteq> aid_bound s" "distinct (pool_ids sta m)"
    using chain_nonzero by (auto simp: pool_rep_def aid_bound_def)
  ultimately show ?case unfolding aid_pool.owns_def by (intro exI [of _ "pool_ids sta m"]) auto
next
  case (run_assign s held n lim x s')
  then show ?case using assign_cases [of s held "set (pool_ids sta m)" n lim x s'] by auto
next
  case (run_release s held x s')
  then show ?case using aid_pool.release_owns [of s held "set (pool_ids sta m)" x] by auto
qed

text \<open>C10. In every run of a pool of 1 to 253 stations, a request returns; it gives 0 exactly when the
  limit is reached or every id of the pool is held, and otherwise an id of the pool that nobody
  holds; and every id that is held can be returned.\<close>

theorem aid_pool_sound:
  assumes run: "aid_run sta m s held" and m: "1 \<le> unat m" "unat m \<le> 253"
  shows "\<exists>x s'. lim_assign_peer_idx n lim s = Some (x, s') \<and>
     (x = 0 \<longleftrightarrow> lim \<le> n \<or> set held = set (pool_ids sta m)) \<and>
     (x \<noteq> 0 \<longrightarrow> ucast x \<in> set (pool_ids sta m) - set held) \<and>
     distinct held \<and> (\<forall>y \<in> set held. \<exists>s''. lim_release_peer_idx (ucast y) s = Some s'')"
proof -
  note own = aid_run_owns [OF run m]
  then obtain q where q: "pool_rep s q" "distinct held" by (auto simp: aid_pool.owns_def)
  obtain x s' where a: "lim_assign_peer_idx n lim s = Some (x, s')"
    using assign_rep [OF q(1), of n lim] by (cases q) (auto split: if_splits)
  have "x \<noteq> 0 \<Longrightarrow> ucast x \<in> set (pool_ids sta m) - set held \<and> \<not> lim \<le> n"
    using assign_cases [OF own a] by (auto simp: aid_pool.owns_def)
  moreover have "x = 0 \<Longrightarrow> lim \<le> n \<or> set held = set (pool_ids sta m)" using assign_cases [OF own a] by auto
  moreover have "\<exists>s''. lim_release_peer_idx (ucast y) s = Some s''" if "y \<in> set held" for y
    using aid_pool.release_owns [OF own that] by blast
  ultimately show ?thesis using a q(2) by (intro exI [of _ x] exI [of _ s']) auto
qed

section \<open>Pool and table together\<close>

lemma unat_ucast_u16: "unat (ucast (y :: u8) :: u16) = unat y"
  using unsigned_less [of y, where 'a = nat] by (simp add: unsigned_ucast_eq take_bit_nat_eq_self)

text \<open>If the occupied nodes of an access point's table are the ids that the pool has handed out,
  then the id of the next station is free in the table: an insertion of a new address under it
  succeeds, and the correspondence is kept.\<close>

theorem assigned_id_is_free:
  assumes run: "aid_run False m s held" and m: "1 \<le> unat m" "unat m \<le> 253"
    and wf: "dph_wf t" and size: "unat (dph_size t) = unat m + 1"
    and occ: "{i. i < unat (dph_size t) \<and> dph_added (pDphNodeArray t ! i)} = unat ` set held"
    and a: "lim_assign_peer_idx n lim s = Some (x, s')" and x: "x \<noteq> 0"
    and len: "length addr = 6" and new: "dph_map t addr = None"
  shows "\<exists>t'. dph_add_hash_entry addr x t = Some (Some (unat x), t') \<and> dph_wf t' \<and>
     {i. i < unat (dph_size t') \<and> dph_added (pDphNodeArray t' ! i)} = unat ` set (ucast x # held)"
proof -
  have c: "x = ucast (ucast x :: u8)" "ucast x \<notin> set held" "ucast x \<in> set (pool_ids False m)"
    using assign_cases [OF aid_run_owns [OF run m] a] x by (auto simp: aid_pool.owns_def)
  have ux: "unat x = unat (ucast x :: u8)"
    using arg_cong [OF c(1), of unat] unat_ucast_u16 [of "ucast x"] by simp
  have "unat (ucast x :: u8) \<le> unat m"
    using c(3) m by (auto simp: pool_ids_def pool_start_def unat_of_nat)
  then have lt: "unat x < unat (dph_size t)" using size ux by simp
  have "unat x \<notin> unat ` set held" using c(2) unfolding ux by (auto simp: word_unat_eq_iff [symmetric])
  then have free: "\<not> dph_added (pDphNodeArray t ! unat x)" using occ lt by auto
  have add: "dph_add_hash_entry addr x t = Some (Some (unat x), inserted addr (unat x) t)"
    using lt free new by (simp add: add_map [OF wf len] unat_less)
  have "{i. i < unat (dph_size (inserted addr (unat x) t)) \<and> dph_added (pDphNodeArray (inserted addr (unat x) t) ! i)} =
      insert (unat x) {i. i < unat (dph_size t) \<and> dph_added (pDphNodeArray t ! i)}"
    using lt dph_wfD(4) [OF wf] by (auto simp: inserted_def nth_list_update_if)
  then show ?thesis using add inserted_wf(1) [OF wf len lt free new] occ ux by simp
qed

section \<open>Examples\<close>

definition free_node :: dph_node where
  "free_node = \<lparr>assocId = 0, staAddr = replicate 6 0, dph_valid = False, dph_added = False,
     is_disassoc_deauth_in_progress = False, sta_deletion_in_progress = False, dph_next = None\<rparr>"

definition new_table :: "nat \<Rightarrow> dph_hash_table" where
  "new_table n = \<lparr>pHashTable = replicate n None, pDphNodeArray = replicate n free_node, dph_size = of_nat n\<rparr>"

definition sta_a :: mac_addr where "sta_a = [2, 0, 0, 0, 0, 1]"
definition sta_b :: mac_addr where "sta_b = [2, 0, 0, 0, 0, 4]"

text \<open>A table of three nodes, in which both addresses share a bucket, with the first station added.\<close>

definition table_a :: dph_hash_table where
  "table_a = snd (the (dph_add_hash_entry sta_a 1 (dph_hash_table_init (new_table 3))))"

lemma new_table_wf: "dph_wf (dph_hash_table_init (new_table 3)) \<and> dph_map (dph_hash_table_init (new_table 3)) = Map.empty"
  by (rule conjI; rule init_wf) (simp_all add: new_table_def)

lemma table_a_wf: "dph_wf table_a"
proof -
  have "length sta_a = 6" by (simp add: sta_a_def)
  from add_map [OF conjunct1 [OF new_table_wf] this, of 1] show ?thesis
    using inserted_wf(1) [OF conjunct1 [OF new_table_wf] \<open>length sta_a = 6\<close>, of 1] new_table_wf
    by (cases "(1 :: u16) < dph_size (dph_hash_table_init (new_table 3)) \<and>
        \<not> dph_added (pDphNodeArray (dph_hash_table_init (new_table 3)) ! unat (1 :: u16))")
      (auto simp: table_a_def unat_less)
qed

lemma table_a_facts:
  "dph_map table_a sta_a = Some 1" "dph_map table_a sta_b = None" "dph_get_hash_entry 1 table_a = Some 1"
  "dph_get_hash_entry 2 table_a = None" "dph_size table_a = 3"
  by code_simp+

theorem dph_add_refines_map_witness:
  "\<exists>t'. dph_add_hash_entry sta_b 2 table_a = Some (Some 2, t') \<and> dph_map t' = (dph_map table_a)(sta_b \<mapsto> 2)"
  using dph_add_refines_map [OF table_a_wf, of sta_b 2] table_a_facts by (auto simp: sta_b_def)

theorem dph_lookup_refines_map_witness: "dph_lookup_hash_entry sta_a table_a = Some (Some 1, Some 1)"
  using dph_lookup_refines_map [OF table_a_wf, of sta_a] table_a_facts by (simp add: sta_a_def)

theorem dph_delete_refines_map_witness:
  "\<exists>t'. dph_delete_hash_entry sta_a 1 table_a = Some (QDF_STATUS_SUCCESS, t') \<and> dph_map t' = (dph_map table_a)(sta_a := None)"
  using dph_delete_refines_map [OF table_a_wf, of sta_a 1] table_a_facts by (auto simp: sta_a_def)

theorem dph_init_empty_witness: "dph_map (dph_hash_table_init (new_table 3)) = Map.empty"
  using dph_init_empty [of "new_table 3"] by (simp add: new_table_def)

definition table_large :: dph_hash_table where
  "table_large = snd (the (dph_add_hash_entry sta_a 256 (new_table 300)))"

theorem dph_add_truncates_id_witness: "dph_get_hash_entry 256 table_large = None"
proof -
  have "fst (the (dph_add_hash_entry sta_a 256 (new_table 300))) = Some 256"
    "dph_add_hash_entry sta_a 256 (new_table 300) \<noteq> None"
    by code_simp+
  then have "dph_add_hash_entry sta_a 256 (new_table 300) = Some (Some 256, table_large)"
    by (auto simp: table_large_def)
  then show ?thesis by (rule dph_add_truncates_id) simp
qed

definition new_pool :: "nat \<Rightarrow> pe_pool" where
  "new_pool n = \<lparr>gpLimPeerIdxpool = replicate n 0, freePeerIdxHead = 0, freePeerIdxTail = 0, gLimNumOfCurrentSTAs = 0\<rparr>"

definition pool_2 :: pe_pool where
  "pool_2 = the (lim_init_peer_idxpool False 2 (new_pool 3))"

definition pool_2a :: pe_pool where
  "pool_2a = snd (the (lim_assign_peer_idx 0 8 pool_2))"

lemma pool_2a_run: "aid_run False 2 pool_2a [1]"
proof -
  have "length (gpLimPeerIdxpool (new_pool 3)) = unat (lim_get_peer_idxpool_size (ucast (2 :: u8)) False)"
    "lim_init_peer_idxpool False 2 (new_pool 3) \<noteq> None" "fst (the (lim_assign_peer_idx 0 8 pool_2)) = 1"
    "lim_assign_peer_idx 0 8 pool_2 \<noteq> None"
    by code_simp+
  note f = this
  have "lim_init_peer_idxpool False 2 (new_pool 3) = Some pool_2" using f(2) by (auto simp: pool_2_def)
  from aid_run.run_init [OF f(1) this] have r: "aid_run False 2 pool_2 []" .
  have "lim_assign_peer_idx 0 8 pool_2 = Some (1, pool_2a)" using f(3,4) by (auto simp: pool_2a_def)
  from aid_run.run_assign [OF r this] show ?thesis by simp
qed

theorem aid_pool_sound_witness:
  "\<exists>x s'. lim_assign_peer_idx 1 8 pool_2a = Some (x, s') \<and> x \<noteq> 0 \<and> ucast x \<noteq> (1 :: u8)"
proof -
  have "set [1 :: u8] \<noteq> set (pool_ids False 2)" "\<not> (8 :: u32) \<le> 1" by code_simp+
  then show ?thesis using aid_pool_sound [OF pool_2a_run, of 1 8] by fastforce
qed

theorem assigned_id_is_free_witness:
  "\<exists>x t'. dph_add_hash_entry sta_b x table_a = Some (Some (unat x), t') \<and> dph_wf t'"
proof -
  have f: "fst (the (lim_assign_peer_idx 1 8 pool_2a)) \<noteq> 0" "lim_assign_peer_idx 1 8 pool_2a \<noteq> None"
    by code_simp+
  have "{i. i < unat (dph_size table_a) \<and> dph_added (pDphNodeArray table_a ! i)} =
      set (filter (\<lambda>i. dph_added (pDphNodeArray table_a ! i)) [0..<3])"
    by (auto simp: table_a_facts)
  also have "filter (\<lambda>i. dph_added (pDphNodeArray table_a ! i)) [0..<3] = [1]" by code_simp
  finally have "{i. i < unat (dph_size table_a) \<and> dph_added (pDphNodeArray table_a ! i)} = unat ` set [1 :: u8]"
    by simp
  moreover obtain x s' where "lim_assign_peer_idx 1 8 pool_2a = Some (x, s')" "x \<noteq> 0"
    using f(1,2) by auto
  ultimately show ?thesis
    using assigned_id_is_free [OF pool_2a_run _ _ table_a_wf, of 1 8 x s' sta_b] table_a_facts
    by (auto simp: sta_b_def)
qed

end
