(* ===== verification/Blm_Entry.thy ===== *)
theory Blm_Entry
  imports Qdf_Prelude
begin

text \<open>
  The entries of the blacklist manager, \<^verbatim>\<open>src/components/blacklist_mgr\<close>: the structures of
  \<^verbatim>\<open>wlan_blm_public_struct.h\<close>, \<^verbatim>\<open>wlan_blm_core.h\<close> and \<^verbatim>\<open>wlan_blm_main.h\<close>, the macros
  that read the type bits, and the functions of \<^verbatim>\<open>wlan_blm_core.c\<close> that read or write one
  entry.  The two unions of \<^verbatim>\<open>struct blm_reject_ap\<close> are their bit-fields, one boolean
  per bit; the only use of a union as an integer is the test for zero,
  \<open>reject_ap_type_zero\<close>.  \<^verbatim>\<open>qdf_time_t\<close> is 64 bits wide, and every subtraction of
  times wraps as it does in C.  Each reading of the system clock is an argument of its own.
\<close>

section \<open>Data\<close>

type_synonym qdf_mac_addr = "u8 list"
type_synonym qdf_time_t = u64

definition MAX_BAD_AP_LIST_SIZE :: nat where "MAX_BAD_AP_LIST_SIZE = 28"
definition PDEV_MAX_NUM_BSSID_DISALLOW_LIST :: u8 where "PDEV_MAX_NUM_BSSID_DISALLOW_LIST = 28"
definition MAX_BL_TIME :: u32 where "MAX_BL_TIME = 255000"
definition RSSI_TIMEOUT_VALUE :: u64 where "RSSI_TIMEOUT_VALUE = 60"

definition SECONDS_TO_MS :: "qdf_time_t \<Rightarrow> qdf_time_t" where
  "SECONDS_TO_MS t = t * 1000"

definition MINUTES_TO_MS :: "qdf_time_t \<Rightarrow> qdf_time_t" where
  "MINUTES_TO_MS t = SECONDS_TO_MS t * 60"

datatype blm_reject_ap_source = ADDED_BY_NONE | ADDED_BY_DRIVER | ADDED_BY_TARGET

datatype blm_reject_ap_type =
    USERSPACE_AVOID_TYPE
  | USERSPACE_BLACKLIST_TYPE
  | DRIVER_AVOID_TYPE
  | DRIVER_BLACKLIST_TYPE
  | DRIVER_RSSI_REJECT_TYPE
  | DRIVER_MONITOR_TYPE
  | REJECT_REASON_UNKNOWN

datatype blm_reject_ap_reason =
    REASON_UNKNOWN
  | REASON_NUD_FAILURE
  | REASON_STA_KICKOUT
  | REASON_ROAM_HO_FAILURE
  | REASON_ASSOC_REJECT_POOR_RSSI
  | REASON_ASSOC_REJECT_OCE
  | REASON_USERSPACE_BL
  | REASON_USERSPACE_AVOID_LIST
  | REASON_BTM_DISASSOC_IMMINENT
  | REASON_BTM_BSS_TERMINATION
  | REASON_BTM_MBO_RETRY
  | REASON_REASSOC_RSSI_REJECT
  | REASON_REASSOC_NO_MORE_STAS

datatype blm_connection_state = BLM_AP_CONNECTED | BLM_AP_DISCONNECTED

text \<open>What the connection manager does with a scan candidate.\<close>

datatype cm_blacklist_action = CM_BLM_NO_ACTION | CM_BLM_REMOVE | CM_BLM_FORCE_REMOVE | CM_BLM_AVOID

text \<open>
  The value \<open>ADDED_BY_NONE\<close> is the content of a zeroed field of the enumeration
  \<^verbatim>\<open>blm_reject_ap_source\<close>, whose named values start at one.
\<close>

record blm_rssi_disallow_params =
  retry_delay :: u32
  expected_rssi :: u8
  received_time :: qdf_time_t
  original_timeout :: u32
  rssi_source :: blm_reject_ap_source

record blm_reject_ap_timestamp =
  userspace_avoid_timestamp :: qdf_time_t
  driver_avoid_timestamp :: qdf_time_t
  userspace_blacklist_timestamp :: qdf_time_t
  driver_blacklist_timestamp :: qdf_time_t
  rssi_reject_timestamp :: qdf_time_t
  driver_monitor_timestamp :: qdf_time_t

record blm_reject_ap =
  bssid :: qdf_mac_addr
  rssi_reject_params :: blm_rssi_disallow_params
  bad_bssid_counter :: u8
  ap_timestamp :: blm_reject_ap_timestamp
  userspace_blacklist :: bool
  driver_blacklist :: bool
  userspace_avoidlist :: bool
  driver_avoidlist :: bool
  rssi_reject_list :: bool
  driver_monitorlist :: bool
  nud_fail :: bool
  sta_kickout :: bool
  ho_fail :: bool
  poor_rssi :: bool
  oce_assoc_reject :: bool
  blacklist_userspace :: bool
  avoid_userspace :: bool
  btm_disassoc_imminent :: bool
  btm_bss_termination :: bool
  btm_mbo_retry :: bool
  reassoc_rssi_reject :: bool
  no_more_stas :: bool
  source :: blm_reject_ap_source
  connect_timestamp :: qdf_time_t

record blm_config =
  avoid_list_exipry_time :: qdf_time_t
  black_list_exipry_time :: qdf_time_t
  bad_bssid_counter_reset_time :: qdf_time_t
  bad_bssid_counter_thresh :: u8
  delta_rssi :: u32

record reject_ap_info =
  info_bssid :: qdf_mac_addr
  info_rssi_reject_params :: blm_rssi_disallow_params
  info_reject_ap_type :: blm_reject_ap_type
  info_reject_reason :: blm_reject_ap_reason
  info_source :: blm_reject_ap_source

record reject_ap_config_params =
  cfg_bssid :: qdf_mac_addr
  cfg_reject_ap_type :: blm_reject_ap_type
  cfg_reject_duration :: u32
  cfg_expected_rssi :: u32
  cfg_reject_reason :: blm_reject_ap_reason
  cfg_source :: blm_reject_ap_source
  cfg_received_time :: qdf_time_t
  cfg_original_timeout :: u32

text \<open>The two fields of a scan entry, a structure outside the repository, that the code reads;
  the signal strength is any integer.\<close>

record scan_cache_entry =
  scan_bssid :: qdf_mac_addr
  rssi_raw :: int

text \<open>Memory of \<^verbatim>\<open>qdf_mem_malloc\<close> is zeroed.\<close>

definition zero_mac :: qdf_mac_addr where "zero_mac = replicate 6 0"

definition zero_rssi_params :: blm_rssi_disallow_params where
  "zero_rssi_params = \<lparr>retry_delay = 0, expected_rssi = 0, received_time = 0, original_timeout = 0,
     rssi_source = ADDED_BY_NONE\<rparr>"

definition zero_reject_ap :: blm_reject_ap where
  "zero_reject_ap = \<lparr>bssid = zero_mac, rssi_reject_params = zero_rssi_params, bad_bssid_counter = 0,
     ap_timestamp = \<lparr>userspace_avoid_timestamp = 0, driver_avoid_timestamp = 0,
       userspace_blacklist_timestamp = 0, driver_blacklist_timestamp = 0,
       rssi_reject_timestamp = 0, driver_monitor_timestamp = 0\<rparr>,
     userspace_blacklist = False, driver_blacklist = False, userspace_avoidlist = False,
     driver_avoidlist = False, rssi_reject_list = False, driver_monitorlist = False,
     nud_fail = False, sta_kickout = False, ho_fail = False, poor_rssi = False,
     oce_assoc_reject = False, blacklist_userspace = False, avoid_userspace = False,
     btm_disassoc_imminent = False, btm_bss_termination = False, btm_mbo_retry = False,
     reassoc_rssi_reject = False, no_more_stas = False,
     source = ADDED_BY_NONE, connect_timestamp = 0\<rparr>"

definition zero_config_params :: reject_ap_config_params where
  "zero_config_params = \<lparr>cfg_bssid = zero_mac, cfg_reject_ap_type = USERSPACE_AVOID_TYPE,
     cfg_reject_duration = 0, cfg_expected_rssi = 0, cfg_reject_reason = REASON_UNKNOWN,
     cfg_source = ADDED_BY_NONE, cfg_received_time = 0, cfg_original_timeout = 0\<rparr>"

section \<open>The type bits\<close>

definition reject_ap_type_zero :: "blm_reject_ap \<Rightarrow> bool" where
  "reject_ap_type_zero e \<longleftrightarrow> \<not> userspace_blacklist e \<and> \<not> driver_blacklist e \<and>
     \<not> userspace_avoidlist e \<and> \<not> driver_avoidlist e \<and> \<not> rssi_reject_list e \<and> \<not> driver_monitorlist e"

definition BLM_IS_AP_IN_BLACKLIST :: "blm_reject_ap \<Rightarrow> bool" where
  "BLM_IS_AP_IN_BLACKLIST e \<longleftrightarrow> userspace_blacklist e \<or> driver_blacklist e \<or> rssi_reject_list e"

definition BLM_IS_AP_IN_AVOIDLIST :: "blm_reject_ap \<Rightarrow> bool" where
  "BLM_IS_AP_IN_AVOIDLIST e \<longleftrightarrow> userspace_avoidlist e \<or> driver_avoidlist e"

definition IS_AP_IN_USERSPACE_BLACKLIST_ONLY :: "blm_reject_ap \<Rightarrow> bool" where
  "IS_AP_IN_USERSPACE_BLACKLIST_ONLY e \<longleftrightarrow> userspace_blacklist e \<and>
     \<not> (BLM_IS_AP_IN_AVOIDLIST e \<or> driver_monitorlist e \<or> rssi_reject_list e \<or> driver_blacklist e)"

definition IS_AP_IN_MONITOR_LIST_ONLY :: "blm_reject_ap \<Rightarrow> bool" where
  "IS_AP_IN_MONITOR_LIST_ONLY e \<longleftrightarrow> driver_monitorlist e \<and>
     \<not> (BLM_IS_AP_IN_AVOIDLIST e \<or> BLM_IS_AP_IN_BLACKLIST e)"

definition IS_AP_IN_DRIVER_BLACKLIST_ONLY :: "blm_reject_ap \<Rightarrow> bool" where
  "IS_AP_IN_DRIVER_BLACKLIST_ONLY e \<longleftrightarrow> driver_blacklist e \<and>
     \<not> (BLM_IS_AP_IN_AVOIDLIST e \<or> driver_monitorlist e \<or> rssi_reject_list e \<or> userspace_blacklist e)"

definition IS_AP_IN_RSSI_REJECT_LIST_ONLY :: "blm_reject_ap \<Rightarrow> bool" where
  "IS_AP_IN_RSSI_REJECT_LIST_ONLY e \<longleftrightarrow> rssi_reject_list e \<and>
     \<not> (BLM_IS_AP_IN_AVOIDLIST e \<or> driver_monitorlist e \<or> driver_blacklist e \<or> userspace_blacklist e)"

definition IS_AP_IN_USERSPACE_AVOID_LIST_ONLY :: "blm_reject_ap \<Rightarrow> bool" where
  "IS_AP_IN_USERSPACE_AVOID_LIST_ONLY e \<longleftrightarrow> userspace_avoidlist e \<and>
     \<not> (driver_avoidlist e \<or> driver_monitorlist e \<or> BLM_IS_AP_IN_BLACKLIST e)"

definition IS_AP_IN_DRIVER_AVOID_LIST_ONLY :: "blm_reject_ap \<Rightarrow> bool" where
  "IS_AP_IN_DRIVER_AVOID_LIST_ONLY e \<longleftrightarrow> driver_avoidlist e \<and>
     \<not> (userspace_avoidlist e \<or> driver_monitorlist e \<or> BLM_IS_AP_IN_BLACKLIST e)"

lemmas [blm_defs] =
  reject_ap_type_zero_def BLM_IS_AP_IN_BLACKLIST_def BLM_IS_AP_IN_AVOIDLIST_def
  IS_AP_IN_USERSPACE_BLACKLIST_ONLY_def IS_AP_IN_MONITOR_LIST_ONLY_def
  IS_AP_IN_DRIVER_BLACKLIST_ONLY_def IS_AP_IN_RSSI_REJECT_LIST_ONLY_def
  IS_AP_IN_USERSPACE_AVOID_LIST_ONLY_def IS_AP_IN_DRIVER_AVOID_LIST_ONLY_def

definition blm_is_bssid_present_only_in_list_type :: "blm_reject_ap_type \<Rightarrow> blm_reject_ap \<Rightarrow> bool" where
  "blm_is_bssid_present_only_in_list_type list_type e =
     (case list_type of
        USERSPACE_AVOID_TYPE \<Rightarrow> IS_AP_IN_USERSPACE_AVOID_LIST_ONLY e
      | USERSPACE_BLACKLIST_TYPE \<Rightarrow> IS_AP_IN_USERSPACE_BLACKLIST_ONLY e
      | DRIVER_AVOID_TYPE \<Rightarrow> IS_AP_IN_DRIVER_AVOID_LIST_ONLY e
      | DRIVER_BLACKLIST_TYPE \<Rightarrow> IS_AP_IN_DRIVER_BLACKLIST_ONLY e
      | DRIVER_RSSI_REJECT_TYPE \<Rightarrow> IS_AP_IN_RSSI_REJECT_LIST_ONLY e
      | DRIVER_MONITOR_TYPE \<Rightarrow> IS_AP_IN_MONITOR_LIST_ONLY e
      | REJECT_REASON_UNKNOWN \<Rightarrow> False)"

definition blm_is_bssid_of_type :: "blm_reject_ap_type \<Rightarrow> blm_reject_ap \<Rightarrow> bool" where
  "blm_is_bssid_of_type ty e =
     (case ty of
        USERSPACE_AVOID_TYPE \<Rightarrow> userspace_avoidlist e
      | USERSPACE_BLACKLIST_TYPE \<Rightarrow> userspace_blacklist e
      | DRIVER_AVOID_TYPE \<Rightarrow> driver_avoidlist e
      | DRIVER_BLACKLIST_TYPE \<Rightarrow> driver_blacklist e
      | DRIVER_RSSI_REJECT_TYPE \<Rightarrow> rssi_reject_list e
      | DRIVER_MONITOR_TYPE \<Rightarrow> driver_monitorlist e
      | REJECT_REASON_UNKNOWN \<Rightarrow> False)"

definition blm_get_reject_ap_type :: "blm_reject_ap \<Rightarrow> blm_reject_ap_type" where
  "blm_get_reject_ap_type e =
     (if userspace_avoidlist e then USERSPACE_AVOID_TYPE
      else if userspace_blacklist e then USERSPACE_BLACKLIST_TYPE
      else if driver_avoidlist e then DRIVER_AVOID_TYPE
      else if driver_blacklist e then DRIVER_BLACKLIST_TYPE
      else if rssi_reject_list e then DRIVER_RSSI_REJECT_TYPE
      else if driver_monitorlist e then DRIVER_MONITOR_TYPE
      else REJECT_REASON_UNKNOWN)"

section \<open>Expiry\<close>

definition blm_update_ap_info ::
  "qdf_time_t \<Rightarrow> blm_config \<Rightarrow> scan_cache_entry option \<Rightarrow> blm_reject_ap \<Rightarrow> blm_reject_ap" where
  "blm_update_ap_info cur_timestamp cfg scan_entry e0 =
     (let e1 =
        (if userspace_avoidlist e0 \<and>
            cur_timestamp - userspace_avoid_timestamp (ap_timestamp e0)
              \<ge> MINUTES_TO_MS (avoid_list_exipry_time cfg)
         then e0\<lparr>userspace_avoidlist := False, avoid_userspace := False, driver_monitorlist := True,
                ap_timestamp := (ap_timestamp e0)\<lparr>driver_monitor_timestamp := cur_timestamp\<rparr>\<rparr>
         else e0);
      e2 =
        (if driver_avoidlist e1 \<and>
            cur_timestamp - driver_avoid_timestamp (ap_timestamp e1)
              \<ge> MINUTES_TO_MS (avoid_list_exipry_time cfg)
         then e1\<lparr>driver_avoidlist := False, nud_fail := False, sta_kickout := False, ho_fail := False,
                driver_monitorlist := True,
                ap_timestamp := (ap_timestamp e1)\<lparr>driver_monitor_timestamp := cur_timestamp\<rparr>\<rparr>
         else e1);
      e3 =
        (if driver_blacklist e2 \<and>
            cur_timestamp - driver_blacklist_timestamp (ap_timestamp e2)
              \<ge> MINUTES_TO_MS (black_list_exipry_time cfg)
         then e2\<lparr>driver_blacklist := False, driver_monitorlist := True,
                nud_fail := False, sta_kickout := False, ho_fail := False,
                ap_timestamp := (ap_timestamp e2)\<lparr>driver_monitor_timestamp := cur_timestamp\<rparr>\<rparr>
         else e2);
      entry_age = cur_timestamp - rssi_reject_timestamp (ap_timestamp e3);
      rp = rssi_reject_params e3
      in if rssi_reject_list e3 \<and>
            (retry_delay rp \<noteq> 0 \<and> entry_age \<ge> ucast (retry_delay rp) \<or>
             (case scan_entry of None \<Rightarrow> False | Some s \<Rightarrow> rssi_raw s \<ge> sint (expected_rssi rp)))
         then e3\<lparr>poor_rssi := False, oce_assoc_reject := False, btm_bss_termination := False,
                btm_disassoc_imminent := False, btm_mbo_retry := False, no_more_stas := False,
                reassoc_rssi_reject := False, rssi_reject_list := False\<rparr>
         else e3)"

text \<open>
  \<^verbatim>\<open>blm_prune_old_entries_and_get_action\<close>: the entry that stays in the list, if
  any, and the action.
\<close>

definition blm_prune_old_entries_and_get_action ::
  "qdf_time_t \<Rightarrow> blm_config \<Rightarrow> scan_cache_entry \<Rightarrow> blm_reject_ap \<Rightarrow> blm_reject_ap option \<times> cm_blacklist_action" where
  "blm_prune_old_entries_and_get_action now cfg scan_entry e0 =
     (let e = blm_update_ap_info now cfg (Some scan_entry) e0
      in if reject_ap_type_zero e then (None, CM_BLM_NO_ACTION)
         else (Some e,
           if rssi_reject_list e \<and> \<not> userspace_blacklist e \<and> \<not> driver_blacklist e \<and>
              original_timeout (rssi_reject_params e) > MAX_BL_TIME
           then (if BLM_IS_AP_IN_AVOIDLIST e then CM_BLM_AVOID else CM_BLM_NO_ACTION)
           else if BLM_IS_AP_IN_BLACKLIST e
           then (if userspace_blacklist e \<or> rssi_reject_list e then CM_BLM_FORCE_REMOVE else CM_BLM_REMOVE)
           else if BLM_IS_AP_IN_AVOIDLIST e then CM_BLM_AVOID
           else CM_BLM_NO_ACTION))"

section \<open>Recording a rejection\<close>

definition blm_update_avoidlist_reject_reason :: "blm_reject_ap_reason \<Rightarrow> blm_reject_ap \<Rightarrow> blm_reject_ap" where
  "blm_update_avoidlist_reject_reason reason e0 =
     (let e = e0\<lparr>nud_fail := False, sta_kickout := False, ho_fail := False\<rparr>
      in case reason of
           REASON_NUD_FAILURE \<Rightarrow> e\<lparr>nud_fail := True\<rparr>
         | REASON_STA_KICKOUT \<Rightarrow> e\<lparr>sta_kickout := True\<rparr>
         | REASON_ROAM_HO_FAILURE \<Rightarrow> e\<lparr>ho_fail := True\<rparr>
         | _ \<Rightarrow> e)"

text \<open>The clock is read at the beginning, \<open>cur_timestamp\<close>, and again at the end, \<open>now2\<close>.\<close>

definition blm_handle_avoid_list ::
  "qdf_time_t \<Rightarrow> qdf_time_t \<Rightarrow> blm_config \<Rightarrow> reject_ap_info \<Rightarrow> blm_reject_ap \<Rightarrow> blm_reject_ap" where
  "blm_handle_avoid_list cur_timestamp now2 cfg ap_info e0 =
     (let ty = info_reject_ap_type ap_info
      in if ty \<noteq> USERSPACE_AVOID_TYPE \<and> ty \<noteq> DRIVER_AVOID_TYPE then e0
         else
           let e1 =
             (if ty = USERSPACE_AVOID_TYPE
              then e0\<lparr>userspace_avoidlist := True, avoid_userspace := True,
                     ap_timestamp := (ap_timestamp e0)\<lparr>userspace_avoid_timestamp := cur_timestamp\<rparr>\<rparr>
              else (blm_update_avoidlist_reject_reason (info_reject_reason ap_info)
                     (e0\<lparr>driver_avoidlist := True\<rparr>))
                     \<lparr>ap_timestamp := (ap_timestamp e0)\<lparr>driver_avoid_timestamp := cur_timestamp\<rparr>\<rparr>);
           e2 = e1\<lparr>source := info_source ap_info, bssid := info_bssid ap_info,
                   driver_monitorlist := False, bad_bssid_counter := bad_bssid_counter e1 + 1\<rparr>
           in if bad_bssid_counter e2 \<ge> bad_bssid_counter_thresh cfg
              then let e3 = (if ty = USERSPACE_AVOID_TYPE then e2\<lparr>userspace_avoidlist := False\<rparr>
                             else e2\<lparr>driver_avoidlist := False\<rparr>)
                   in e3\<lparr>driver_blacklist := True,
                        ap_timestamp := (ap_timestamp e3)\<lparr>driver_blacklist_timestamp := cur_timestamp\<rparr>\<rparr>
              else e2\<lparr>connect_timestamp := now2\<rparr>)"

definition blm_handle_blacklist :: "qdf_time_t \<Rightarrow> reject_ap_info \<Rightarrow> blm_reject_ap \<Rightarrow> blm_reject_ap" where
  "blm_handle_blacklist now ap_info e =
     e\<lparr>bssid := info_bssid ap_info, userspace_blacklist := True,
       ap_timestamp := (ap_timestamp e)\<lparr>userspace_blacklist_timestamp := now\<rparr>,
       source := ADDED_BY_DRIVER, blacklist_userspace := True\<rparr>"

definition blm_update_rssi_reject_reason :: "blm_reject_ap_reason \<Rightarrow> blm_reject_ap \<Rightarrow> blm_reject_ap" where
  "blm_update_rssi_reject_reason reason e0 =
     (let e = e0\<lparr>poor_rssi := False, oce_assoc_reject := False, btm_bss_termination := False,
                btm_disassoc_imminent := False, btm_mbo_retry := False, no_more_stas := False,
                reassoc_rssi_reject := False\<rparr>
      in case reason of
           REASON_ASSOC_REJECT_POOR_RSSI \<Rightarrow> e\<lparr>poor_rssi := True\<rparr>
         | REASON_ASSOC_REJECT_OCE \<Rightarrow> e\<lparr>oce_assoc_reject := True\<rparr>
         | REASON_BTM_DISASSOC_IMMINENT \<Rightarrow> e\<lparr>btm_disassoc_imminent := True\<rparr>
         | REASON_BTM_BSS_TERMINATION \<Rightarrow> e\<lparr>btm_bss_termination := True\<rparr>
         | REASON_BTM_MBO_RETRY \<Rightarrow> e\<lparr>btm_mbo_retry := True\<rparr>
         | REASON_REASSOC_RSSI_REJECT \<Rightarrow> e\<lparr>reassoc_rssi_reject := True\<rparr>
         | REASON_REASSOC_NO_MORE_STAS \<Rightarrow> e\<lparr>no_more_stas := True\<rparr>
         | _ \<Rightarrow> e)"

definition blm_handle_rssi_reject_list :: "qdf_time_t \<Rightarrow> reject_ap_info \<Rightarrow> blm_reject_ap \<Rightarrow> blm_reject_ap" where
  "blm_handle_rssi_reject_list now ap_info e0 =
     (let e1 =
        (if rssi_reject_list e0 then e0
         else e0\<lparr>rssi_reject_params := (rssi_reject_params e0)\<lparr>rssi_source := info_source ap_info\<rparr>,
                bssid := info_bssid ap_info, rssi_reject_list := True\<rparr>)
      in blm_update_rssi_reject_reason (info_reject_reason ap_info)
           (e1\<lparr>ap_timestamp := (ap_timestamp e1)\<lparr>rssi_reject_timestamp := now\<rparr>,
               rssi_reject_params := info_rssi_reject_params ap_info\<rparr>))"

definition blm_modify_entry ::
  "qdf_time_t \<Rightarrow> qdf_time_t \<Rightarrow> blm_config \<Rightarrow> reject_ap_info \<Rightarrow> blm_reject_ap \<Rightarrow> blm_reject_ap" where
  "blm_modify_entry now now2 cfg ap_info e =
     (case info_reject_ap_type ap_info of
        USERSPACE_AVOID_TYPE \<Rightarrow> blm_handle_avoid_list now now2 cfg ap_info e
      | DRIVER_AVOID_TYPE \<Rightarrow> blm_handle_avoid_list now now2 cfg ap_info e
      | USERSPACE_BLACKLIST_TYPE \<Rightarrow> blm_handle_blacklist now ap_info e
      | DRIVER_RSSI_REJECT_TYPE \<Rightarrow> blm_handle_rssi_reject_list now ap_info e
      | _ \<Rightarrow> e)"

section \<open>Reporting an entry\<close>

text \<open>
  The time left, or the age, of an entry.  For an RSSI rejection the difference is
  stored in an \<^verbatim>\<open>int32_t\<close>.
\<close>

definition blm_get_delta_of_bssid ::
  "qdf_time_t \<Rightarrow> blm_reject_ap_type \<Rightarrow> blm_config \<Rightarrow> blm_reject_ap \<Rightarrow> qdf_time_t" where
  "blm_get_delta_of_bssid cur_timestamp list_type cfg e =
     (let ts = ap_timestamp e
      in case list_type of
           USERSPACE_AVOID_TYPE \<Rightarrow>
             MINUTES_TO_MS (avoid_list_exipry_time cfg) - (cur_timestamp - userspace_avoid_timestamp ts)
         | USERSPACE_BLACKLIST_TYPE \<Rightarrow> cur_timestamp - userspace_blacklist_timestamp ts
         | DRIVER_AVOID_TYPE \<Rightarrow>
             MINUTES_TO_MS (avoid_list_exipry_time cfg) - (cur_timestamp - driver_avoid_timestamp ts)
         | DRIVER_BLACKLIST_TYPE \<Rightarrow>
             MINUTES_TO_MS (black_list_exipry_time cfg) - (cur_timestamp - driver_blacklist_timestamp ts)
         | DRIVER_RSSI_REJECT_TYPE \<Rightarrow>
             let disallowed_time :: 32 word =
               (if retry_delay (rssi_reject_params e) \<noteq> 0
                then ucast (ucast (retry_delay (rssi_reject_params e)) - (cur_timestamp - rssi_reject_timestamp ts))
                else ucast (MINUTES_TO_MS RSSI_TIMEOUT_VALUE - (cur_timestamp - rssi_reject_timestamp ts)))
             in if sint disallowed_time < 0 then 0 else ucast disallowed_time
         | DRIVER_MONITOR_TYPE \<Rightarrow> cur_timestamp - driver_monitor_timestamp ts
         | REJECT_REASON_UNKNOWN \<Rightarrow> 0)"

definition blm_is_oldest_entry :: "blm_reject_ap_type \<Rightarrow> qdf_time_t \<Rightarrow> qdf_time_t \<Rightarrow> bool" where
  "blm_is_oldest_entry list_type cur_node_delta oldest_node_delta =
     (case list_type of
        DRIVER_RSSI_REJECT_TYPE \<Rightarrow> oldest_node_delta = 0 \<or> cur_node_delta < oldest_node_delta
      | USERSPACE_AVOID_TYPE \<Rightarrow> oldest_node_delta = 0 \<or> cur_node_delta < oldest_node_delta
      | DRIVER_AVOID_TYPE \<Rightarrow> oldest_node_delta = 0 \<or> cur_node_delta < oldest_node_delta
      | DRIVER_BLACKLIST_TYPE \<Rightarrow> oldest_node_delta = 0 \<or> cur_node_delta < oldest_node_delta
      | USERSPACE_BLACKLIST_TYPE \<Rightarrow> cur_node_delta > oldest_node_delta
      | DRIVER_MONITOR_TYPE \<Rightarrow> cur_node_delta > oldest_node_delta
      | REJECT_REASON_UNKNOWN \<Rightarrow> False)"

definition blm_get_rssi_reject_reason :: "blm_reject_ap \<Rightarrow> blm_reject_ap_reason" where
  "blm_get_rssi_reject_reason e =
     (if poor_rssi e then REASON_ASSOC_REJECT_POOR_RSSI
      else if oce_assoc_reject e then REASON_ASSOC_REJECT_OCE
      else if btm_bss_termination e then REASON_BTM_BSS_TERMINATION
      else if btm_disassoc_imminent e then REASON_BTM_DISASSOC_IMMINENT
      else if btm_mbo_retry e then REASON_BTM_MBO_RETRY
      else if no_more_stas e then REASON_REASSOC_NO_MORE_STAS
      else if reassoc_rssi_reject e then REASON_REASSOC_RSSI_REJECT
      else REASON_UNKNOWN)"

definition blm_fill_rssi_reject_params ::
  "blm_reject_ap \<Rightarrow> blm_reject_ap_type \<Rightarrow> reject_ap_config_params \<Rightarrow> reject_ap_config_params" where
  "blm_fill_rssi_reject_params e ty p =
     (if ty \<noteq> DRIVER_RSSI_REJECT_TYPE then p
      else p\<lparr>cfg_source := rssi_source (rssi_reject_params e),
             cfg_original_timeout := original_timeout (rssi_reject_params e),
             cfg_received_time := received_time (rssi_reject_params e),
             cfg_reject_reason := blm_get_rssi_reject_reason e\<rparr>)"

end
