(* ===== verification/Blm_List.thy ===== *)
theory Blm_List
  imports Blm_Entry
begin

text \<open>
  The reject list of the blacklist manager and the operations of \<^verbatim>\<open>wlan_blm_core.c\<close>,
  \<^verbatim>\<open>wlan_blm_main.c\<close>, \<^verbatim>\<open>wlan_blm_ucfg_api.c\<close>, \<^verbatim>\<open>wlan_blm_tgt_api.c\<close> and
  \<^verbatim>\<open>target_if_blm.c\<close> on it, for one pdev of a psoc and a build with
  \<^verbatim>\<open>WLAN_FEATURE_ROAM_OFFLOAD\<close>.  The list is a HOL list of entries; a walk with
  \<^verbatim>\<open>qdf_list_peek_next\<close> that removes the current node is a recursion over it.  What
  lies outside the repository is in the record \<open>blm_env\<close>: the outcome of the
  lock, of the allocations and of the hand-over to the firmware, the address predicates of
  QDF, and the value of every reading of the clock (for a walk, as a function of the position
  in the list).  \<open>fw_log\<close> records the messages handed to the firmware, the latest last.
\<close>

section \<open>State and environment\<close>

record reject_ap_params =
  num_of_reject_bssid :: u8
  bssid_list :: "reject_ap_config_params list"

record blm_pdev_priv_obj =
  reject_ap_list :: "blm_reject_ap list"
  blm_tx_registered :: bool

record blm_psoc_priv_obj =
  blm_pdev_id :: u8
  is_suspended :: bool
  blm_cfg :: blm_config

record blm_state =
  pdev_obj :: "blm_pdev_priv_obj option"
  psoc_obj :: "blm_psoc_priv_obj option"
  wlan_pdev_id :: u8
  fw_log :: "reject_ap_params list"

record blm_env =
  env_lock :: QDF_STATUS
  env_nested_lock :: QDF_STATUS
  env_entry_mem :: bool
  env_list_mem :: bool
  env_wmi :: "QDF_STATUS option"
  qdf_is_macaddr_zero :: "qdf_mac_addr \<Rightarrow> bool"
  qdf_is_macaddr_group :: "qdf_mac_addr \<Rightarrow> bool"
  env_walk :: "nat \<Rightarrow> qdf_time_t"
  env_evict :: "nat \<Rightarrow> nat \<Rightarrow> qdf_time_t"
  env_modify :: "nat \<Rightarrow> qdf_time_t"
  env_send :: "nat \<Rightarrow> nat \<Rightarrow> qdf_time_t"

definition set_list :: "blm_reject_ap list \<Rightarrow> blm_state \<Rightarrow> blm_state" where
  "set_list es st = st\<lparr>pdev_obj := map_option (reject_ap_list_update (\<lambda>_. es)) (pdev_obj st)\<rparr>"

text \<open>The clock after \<open>n\<close> readings.\<close>

definition later :: "nat \<Rightarrow> (nat \<Rightarrow> 'a) \<Rightarrow> nat \<Rightarrow> 'a" where
  "later n clk = (\<lambda>i. clk (i + n))"

section \<open>Making room\<close>

fun oldest_scan ::
  "(nat \<Rightarrow> qdf_time_t) \<Rightarrow> blm_config \<Rightarrow> blm_reject_ap_type \<Rightarrow> nat \<Rightarrow> blm_reject_ap list \<Rightarrow>
     nat option \<times> qdf_time_t \<Rightarrow> nat option \<times> qdf_time_t" where
  "oldest_scan clk cfg ty i [] acc = acc"
| "oldest_scan clk cfg ty i (e # es) acc =
     oldest_scan clk cfg ty (Suc i) es
       (if blm_is_bssid_present_only_in_list_type ty e
        then let cur_node_delta = blm_get_delta_of_bssid (clk i) ty cfg e
             in if blm_is_oldest_entry ty cur_node_delta (snd acc) then (Some i, cur_node_delta) else acc
        else acc)"

definition blm_try_delete_bssid_in_list ::
  "(nat \<Rightarrow> qdf_time_t) \<Rightarrow> blm_config \<Rightarrow> blm_reject_ap_type \<Rightarrow> blm_reject_ap list \<Rightarrow>
     QDF_STATUS \<times> blm_reject_ap list" where
  "blm_try_delete_bssid_in_list clk cfg ty es =
     (case fst (oldest_scan clk cfg ty 0 es (None, 0)) of
        Some i \<Rightarrow> (QDF_STATUS_SUCCESS, take i es @ drop (Suc i) es)
      | None \<Rightarrow> (QDF_STATUS_E_FAILURE, es))"

fun try_delete_types ::
  "(nat \<Rightarrow> nat \<Rightarrow> qdf_time_t) \<Rightarrow> blm_config \<Rightarrow> blm_reject_ap_type list \<Rightarrow> blm_reject_ap list \<Rightarrow>
     QDF_STATUS \<times> blm_reject_ap list" where
  "try_delete_types clk cfg [] es = (QDF_STATUS_E_FAILURE, es)"
| "try_delete_types clk cfg (ty # tys) es =
     (case blm_try_delete_bssid_in_list (clk 0) cfg ty es of
        (status, es') \<Rightarrow>
          if QDF_IS_STATUS_SUCCESS status then (QDF_STATUS_SUCCESS, es')
          else try_delete_types (later 1 clk) cfg tys es')"

definition removal_order :: "blm_reject_ap_type list" where
  "removal_order = [DRIVER_MONITOR_TYPE, DRIVER_AVOID_TYPE, USERSPACE_AVOID_TYPE,
     DRIVER_RSSI_REJECT_TYPE, DRIVER_BLACKLIST_TYPE, USERSPACE_BLACKLIST_TYPE]"

definition blm_remove_lowest_delta_entry ::
  "(nat \<Rightarrow> nat \<Rightarrow> qdf_time_t) \<Rightarrow> blm_config \<Rightarrow> blm_reject_ap list \<Rightarrow> QDF_STATUS \<times> blm_reject_ap list" where
  "blm_remove_lowest_delta_entry clk cfg es = try_delete_types clk cfg removal_order es"

section \<open>Reporting to the firmware\<close>

text \<open>
  One pass over the list: the list that is left, the array and the number of entries
  filled.  An iteration reads the clock at most twice.
\<close>

fun blm_fill_reject_list ::
  "(nat \<Rightarrow> qdf_time_t) \<Rightarrow> blm_config \<Rightarrow> blm_reject_ap_type \<Rightarrow> u8 \<Rightarrow> blm_reject_ap list \<Rightarrow>
     reject_ap_config_params list \<Rightarrow> u8 \<Rightarrow> blm_reject_ap list \<times> reject_ap_config_params list \<times> u8" where
  "blm_fill_reject_list clk cfg ty mx [] rl num = ([], rl, num)"
| "blm_fill_reject_list clk cfg ty mx (e0 # es) rl num =
     (if num = mx then (e0 # es, rl, num)
      else let e = blm_update_ap_info (clk 0) cfg None e0
           in if reject_ap_type_zero e then blm_fill_reject_list (later 2 clk) cfg ty mx es rl num
              else let (rl1, num1) =
                     (if blm_is_bssid_of_type ty e
                      then (let p = (rl ! unat num)\<lparr>
                                  cfg_expected_rssi := scast (expected_rssi (rssi_reject_params e)),
                                  cfg_reject_duration := ucast (blm_get_delta_of_bssid (clk 1) ty cfg e)\<rparr>;
                                q = (blm_fill_rssi_reject_params e ty p)\<lparr>cfg_reject_ap_type := ty,
                                      cfg_bssid := bssid e\<rparr>
                            in (rl[unat num := q], num + 1))
                      else (rl, num));
                    (es', rl', num') = blm_fill_reject_list (later 2 clk) cfg ty mx es rl1 num1
                   in (e # es', rl', num'))"

fun fill_passes ::
  "(nat \<Rightarrow> nat \<Rightarrow> qdf_time_t) \<Rightarrow> blm_config \<Rightarrow> blm_reject_ap_type list \<Rightarrow>
     blm_reject_ap list \<times> reject_ap_config_params list \<times> u8 \<Rightarrow>
     blm_reject_ap list \<times> reject_ap_config_params list \<times> u8" where
  "fill_passes clk cfg [] acc = acc"
| "fill_passes clk cfg (ty # tys) (es, rl, num) =
     fill_passes (later 1 clk) cfg tys
       (blm_fill_reject_list (clk 0) cfg ty PDEV_MAX_NUM_BSSID_DISALLOW_LIST es rl num)"

definition fill_order :: "blm_reject_ap_type list" where
  "fill_order = [USERSPACE_BLACKLIST_TYPE, DRIVER_BLACKLIST_TYPE, DRIVER_RSSI_REJECT_TYPE,
     USERSPACE_AVOID_TYPE, DRIVER_AVOID_TYPE]"

definition target_if_blm_send_reject_ap_list ::
  "blm_env \<Rightarrow> reject_ap_params \<Rightarrow> blm_state \<Rightarrow> QDF_STATUS \<times> blm_state" where
  "target_if_blm_send_reject_ap_list env p st =
     (case env_wmi env of
        None \<Rightarrow> (QDF_STATUS_E_INVAL, st)
      | Some status \<Rightarrow> (status, st\<lparr>fw_log := fw_log st @ [p]\<rparr>))"

definition tgt_blm_send_reject_list_to_fw ::
  "blm_env \<Rightarrow> reject_ap_params \<Rightarrow> blm_state \<Rightarrow> QDF_STATUS \<times> blm_state" where
  "tgt_blm_send_reject_list_to_fw env p st =
     (case pdev_obj st of
        None \<Rightarrow> (QDF_STATUS_E_FAILURE, st)
      | Some ctx \<Rightarrow> if blm_tx_registered ctx then target_if_blm_send_reject_ap_list env p st
                    else (QDF_STATUS_E_FAILURE, st))"

definition ucfg_blm_psoc_get_suspended :: "blm_state \<Rightarrow> QDF_STATUS \<times> bool" where
  "ucfg_blm_psoc_get_suspended st =
     (case psoc_obj st of
        None \<Rightarrow> (QDF_STATUS_E_FAILURE, True)
      | Some ps \<Rightarrow> (QDF_STATUS_SUCCESS, is_suspended ps))"

definition blm_store_pdevid_in_blm_psocpriv :: "blm_state \<Rightarrow> blm_state" where
  "blm_store_pdevid_in_blm_psocpriv st =
     (case psoc_obj st of
        None \<Rightarrow> st
      | Some ps \<Rightarrow> st\<lparr>psoc_obj := Some (ps\<lparr>blm_pdev_id := wlan_pdev_id st\<rparr>)\<rparr>)"

text \<open>The list and the configuration passed by the callers are those of the pdev and the psoc.\<close>

definition blm_send_reject_ap_list_to_fw :: "blm_env \<Rightarrow> blm_config \<Rightarrow> blm_state \<Rightarrow> blm_state" where
  "blm_send_reject_ap_list_to_fw env cfg st =
     (if snd (ucfg_blm_psoc_get_suspended st) then blm_store_pdevid_in_blm_psocpriv st
      else if \<not> env_list_mem env then st
      else case pdev_obj st of
             None \<Rightarrow> st
           | Some ctx \<Rightarrow>
               let (es, rl, num) = fill_passes (env_send env) cfg fill_order
                     (reject_ap_list ctx,
                      replicate (unat PDEV_MAX_NUM_BSSID_DISALLOW_LIST) zero_config_params, 0)
               in snd (tgt_blm_send_reject_list_to_fw env
                         \<lparr>num_of_reject_bssid = num, bssid_list = rl\<rparr> (set_list es st)))"

text \<open>\<open>pdev_found\<close>: whether the object manager knows the stored pdev id.\<close>

definition blm_update_reject_ap_list_to_fw :: "bool \<Rightarrow> blm_env \<Rightarrow> blm_state \<Rightarrow> blm_state" where
  "blm_update_reject_ap_list_to_fw pdev_found env st =
     (case psoc_obj st of
        None \<Rightarrow> st
      | Some ps \<Rightarrow>
          if \<not> pdev_found then st
          else if pdev_obj st = None then st
          else if QDF_IS_STATUS_ERROR (env_lock env) then st
          else blm_send_reject_ap_list_to_fw env (blm_cfg ps) st)"

section \<open>Queries of the connection manager\<close>

fun action_walk ::
  "qdf_time_t \<Rightarrow> blm_config \<Rightarrow> scan_cache_entry \<Rightarrow> blm_reject_ap list \<Rightarrow> blm_reject_ap list \<times> cm_blacklist_action" where
  "action_walk now cfg s [] = ([], CM_BLM_NO_ACTION)"
| "action_walk now cfg s (e # es) =
     (if bssid e = scan_bssid s
      then (case blm_prune_old_entries_and_get_action now cfg s e of
              (None, a) \<Rightarrow> (es, a)
            | (Some e', a) \<Rightarrow> (e' # es, a))
      else let (es', a) = action_walk now cfg s es in (e # es', a))"

definition blm_action_on_bssid :: "blm_env \<Rightarrow> scan_cache_entry \<Rightarrow> blm_state \<Rightarrow> cm_blacklist_action \<times> blm_state" where
  "blm_action_on_bssid env s st =
     (case (pdev_obj st, psoc_obj st) of
        (Some ctx, Some ps) \<Rightarrow>
          if QDF_IS_STATUS_ERROR (env_lock env) then (CM_BLM_NO_ACTION, st)
          else let (es, a) = action_walk (env_walk env 0) (blm_cfg ps) s (reject_ap_list ctx)
               in (a, set_list es st)
      | _ \<Rightarrow> (CM_BLM_NO_ACTION, st))"

definition blm_get_bssid_reject_list ::
  "blm_env \<Rightarrow> u8 \<Rightarrow> blm_reject_ap_type \<Rightarrow> reject_ap_config_params list \<Rightarrow> blm_state \<Rightarrow>
     u8 \<times> reject_ap_config_params list \<times> blm_state" where
  "blm_get_bssid_reject_list env mx ty rl st =
     (case (pdev_obj st, psoc_obj st) of
        (Some ctx, Some ps) \<Rightarrow>
          if QDF_IS_STATUS_ERROR (env_lock env) then (0, rl, st)
          else let (es, rl', num) = blm_fill_reject_list (env_walk env) (blm_cfg ps) ty mx (reject_ap_list ctx) rl 0
               in (num, rl', set_list es st)
      | _ \<Rightarrow> (0, rl, st))"

definition blm_get_rssi_blacklist_threshold :: "blm_state \<Rightarrow> u32" where
  "blm_get_rssi_blacklist_threshold st =
     (case (pdev_obj st, psoc_obj st) of (Some ctx, Some ps) \<Rightarrow> delta_rssi (blm_cfg ps) | _ \<Rightarrow> 0)"

section \<open>Adding an access point\<close>

text \<open>The list after the walk, and whether the access point was in it.\<close>

fun add_walk ::
  "(nat \<Rightarrow> qdf_time_t) \<Rightarrow> (nat \<Rightarrow> qdf_time_t) \<Rightarrow> blm_config \<Rightarrow> reject_ap_info \<Rightarrow> blm_reject_ap list \<Rightarrow>
     blm_reject_ap list \<times> bool" where
  "add_walk clk mclk cfg info [] = ([], False)"
| "add_walk clk mclk cfg info (e0 # es) =
     (let e = blm_update_ap_info (clk 0) cfg None e0
      in if reject_ap_type_zero e then add_walk (later 1 clk) mclk cfg info es
         else if bssid e = info_bssid info then (blm_modify_entry (mclk 0) (mclk 1) cfg info e # es, True)
         else let (es', found) = add_walk (later 1 clk) mclk cfg info es in (e # es', found))"

definition blm_insert_new :: "blm_env \<Rightarrow> blm_config \<Rightarrow> reject_ap_info \<Rightarrow> blm_reject_ap list \<Rightarrow> blm_state \<Rightarrow> QDF_STATUS \<times> blm_state" where
  "blm_insert_new env cfg info es st =
     (if \<not> env_entry_mem env then (QDF_STATUS_E_FAILURE, set_list es st)
      else (QDF_STATUS_SUCCESS,
            blm_send_reject_ap_list_to_fw env cfg
              (set_list (es @ [blm_modify_entry (env_modify env 0) (env_modify env 1) cfg info zero_reject_ap]) st)))"

definition blm_add_bssid_to_reject_list ::
  "blm_env \<Rightarrow> reject_ap_info \<Rightarrow> blm_state \<Rightarrow> QDF_STATUS \<times> blm_state" where
  "blm_add_bssid_to_reject_list env info st =
     (case (pdev_obj st, psoc_obj st) of
        (Some ctx, Some ps) \<Rightarrow>
          if qdf_is_macaddr_zero env (info_bssid info) \<or> qdf_is_macaddr_group env (info_bssid info)
          then (QDF_STATUS_E_INVAL, st)
          else if QDF_IS_STATUS_ERROR (env_lock env) then (env_lock env, st)
          else
            let cfg = blm_cfg ps;
                (es, found) = add_walk (env_walk env) (env_modify env) cfg info (reject_ap_list ctx)
            in if found then (QDF_STATUS_SUCCESS, blm_send_reject_ap_list_to_fw env cfg (set_list es st))
               else if length es = MAX_BAD_AP_LIST_SIZE
               then (case blm_remove_lowest_delta_entry (env_evict env) cfg es of
                       (status, es') \<Rightarrow>
                         if QDF_IS_STATUS_ERROR status then (status, set_list es' st)
                         else blm_insert_new env cfg info es' st)
               else blm_insert_new env cfg info es st
      | _ \<Rightarrow> (QDF_STATUS_E_INVAL, st))"

section \<open>The blacklist of user space\<close>

fun clear_userspace_walk :: "blm_reject_ap list \<Rightarrow> blm_reject_ap list" where
  "clear_userspace_walk [] = []"
| "clear_userspace_walk (e # es) =
     (if IS_AP_IN_USERSPACE_BLACKLIST_ONLY e then clear_userspace_walk es
      else if userspace_blacklist e
      then e\<lparr>userspace_blacklist := False, blacklist_userspace := False\<rparr> # clear_userspace_walk es
      else e # clear_userspace_walk es)"

definition blm_clear_userspace_blacklist_info :: "QDF_STATUS \<Rightarrow> blm_state \<Rightarrow> QDF_STATUS \<times> blm_state" where
  "blm_clear_userspace_blacklist_info lock st =
     (case pdev_obj st of
        None \<Rightarrow> (QDF_STATUS_E_INVAL, st)
      | Some ctx \<Rightarrow>
          if QDF_IS_STATUS_ERROR lock then (QDF_STATUS_E_RESOURCES, st)
          else (QDF_STATUS_SUCCESS, set_list (clear_userspace_walk (reject_ap_list ctx)) st))"

text \<open>
  The loop of \<^verbatim>\<open>blm_add_userspace_black_list\<close>; the RSSI parameters of the request are
  not initialised by the code, \<open>stack\<close> is what they contain.
\<close>

definition userspace_request :: "blm_rssi_disallow_params \<Rightarrow> qdf_mac_addr \<Rightarrow> reject_ap_info" where
  "userspace_request stack b =
     \<lparr>info_bssid = b, info_rssi_reject_params = stack,
      info_reject_ap_type = USERSPACE_BLACKLIST_TYPE,
      info_reject_reason = REASON_USERSPACE_BL, info_source = ADDED_BY_DRIVER\<rparr>"

fun add_userspace_loop ::
  "(nat \<Rightarrow> blm_env) \<Rightarrow> blm_rssi_disallow_params \<Rightarrow> qdf_mac_addr list \<Rightarrow> blm_state \<Rightarrow> QDF_STATUS \<times> blm_state" where
  "add_userspace_loop envs stack [] st = (QDF_STATUS_SUCCESS, st)"
| "add_userspace_loop envs stack (b # bs) st =
     (case blm_add_bssid_to_reject_list (envs 0) (userspace_request stack b) st of
        (status, st') \<Rightarrow>
          if QDF_IS_STATUS_ERROR status then (QDF_STATUS_E_FAILURE, st')
          else add_userspace_loop (later 1 envs) stack bs st')"

definition blm_add_userspace_black_list ::
  "QDF_STATUS \<Rightarrow> blm_env \<Rightarrow> (nat \<Rightarrow> blm_env) \<Rightarrow> blm_rssi_disallow_params \<Rightarrow> qdf_mac_addr list option \<Rightarrow> u8 \<Rightarrow>
     blm_state \<Rightarrow> QDF_STATUS \<times> blm_state" where
  "blm_add_userspace_black_list clear_lock env envs stack bssid_black_list num_of_bssid st =
     (case (pdev_obj st, psoc_obj st) of
        (Some ctx, Some ps) \<Rightarrow>
          let st1 = snd (blm_clear_userspace_blacklist_info clear_lock st)
          in if QDF_IS_STATUS_ERROR (env_lock env) then (env_lock env, st1)
             else let st2 = blm_send_reject_ap_list_to_fw env (blm_cfg ps) st1
                  in (case bssid_black_list of
                        None \<Rightarrow> (QDF_STATUS_SUCCESS, st2)
                      | Some bs \<Rightarrow>
                          if num_of_bssid = 0 then (QDF_STATUS_SUCCESS, st2)
                          else add_userspace_loop envs stack (take (unat num_of_bssid) bs) st2)
      | _ \<Rightarrow> (QDF_STATUS_E_INVAL, st))"

section \<open>Connection events\<close>

definition blm_disconnect_entry ::
  "qdf_time_t \<Rightarrow> qdf_time_t \<Rightarrow> blm_config \<Rightarrow> blm_reject_ap \<Rightarrow> blm_reject_ap \<times> bool" where
  "blm_disconnect_entry now now2 cfg e0 =
     (let e = blm_update_ap_info now cfg None e0;
          max_entry_time =
            (if driver_blacklist e then driver_blacklist_timestamp (ap_timestamp e)
             else if driver_avoidlist e
             then max (driver_avoid_timestamp (ap_timestamp e)) (connect_timestamp e)
             else connect_timestamp e);
          connection_age = now2 - max_entry_time
      in if connection_age > SECONDS_TO_MS (bad_bssid_counter_reset_time cfg)
         then let e' = e\<lparr>driver_avoidlist := False, driver_blacklist := False,
                         driver_monitorlist := False, userspace_avoidlist := False\<rparr>
              in (e', reject_ap_type_zero e')
         else (e, False))"

definition blm_update_bssid_connect_params ::
  "blm_env \<Rightarrow> qdf_mac_addr \<Rightarrow> blm_connection_state \<Rightarrow> blm_state \<Rightarrow> blm_state" where
  "blm_update_bssid_connect_params env b con_state st =
     (case (pdev_obj st, psoc_obj st) of
        (Some ctx, Some ps) \<Rightarrow>
          if QDF_IS_STATUS_ERROR (env_lock env) then st
          else let es = reject_ap_list ctx
               in (case find_index_from (\<lambda>e. bssid e = b) 0 es of
                     None \<Rightarrow> st
                   | Some i \<Rightarrow>
                       (case con_state of
                          BLM_AP_CONNECTED \<Rightarrow>
                            set_list (es[i := (es ! i)\<lparr>connect_timestamp := env_walk env 0\<rparr>]) st
                        | BLM_AP_DISCONNECTED \<Rightarrow>
                            let (e, gone) = blm_disconnect_entry (env_walk env 0) (env_walk env 1) (blm_cfg ps) (es ! i)
                            in if gone
                               then blm_send_reject_ap_list_to_fw env (blm_cfg ps)
                                      (set_list (take i es @ drop (Suc i) es) st)
                               else set_list (es[i := e]) st))
      | _ \<Rightarrow> st)"

section \<open>Life cycle\<close>

definition blm_flush_reject_ap_list :: "QDF_STATUS \<Rightarrow> blm_state \<Rightarrow> blm_state" where
  "blm_flush_reject_ap_list lock st = (if QDF_IS_STATUS_ERROR lock then st else set_list [] st)"

text \<open>\<^verbatim>\<open>blm_flush_reject_ap_list\<close> takes the lock a second time.\<close>

definition ucfg_blm_wifi_off :: "blm_env \<Rightarrow> blm_state \<Rightarrow> blm_state" where
  "ucfg_blm_wifi_off env st =
     (case (pdev_obj st, psoc_obj st) of
        (Some ctx, Some ps) \<Rightarrow>
          if QDF_IS_STATUS_ERROR (env_lock env) then st
          else blm_send_reject_ap_list_to_fw env (blm_cfg ps)
                 (blm_flush_reject_ap_list (env_nested_lock env) st)
      | _ \<Rightarrow> st)"

definition ucfg_blm_psoc_set_suspended :: "bool \<Rightarrow> blm_state \<Rightarrow> QDF_STATUS \<times> blm_state" where
  "ucfg_blm_psoc_set_suspended b st =
     (case psoc_obj st of
        None \<Rightarrow> (QDF_STATUS_E_FAILURE, st)
      | Some ps \<Rightarrow> (QDF_STATUS_SUCCESS, st\<lparr>psoc_obj := Some (ps\<lparr>is_suspended := b\<rparr>)\<rparr>))"

definition ucfg_blm_suspend_handler :: "blm_state \<Rightarrow> QDF_STATUS \<times> blm_state" where
  "ucfg_blm_suspend_handler st = (QDF_STATUS_SUCCESS, snd (ucfg_blm_psoc_set_suspended True st))"

definition ucfg_blm_resume_handler :: "bool \<Rightarrow> blm_env \<Rightarrow> blm_state \<Rightarrow> QDF_STATUS \<times> blm_state" where
  "ucfg_blm_resume_handler pdev_found env st =
     (QDF_STATUS_SUCCESS,
      blm_update_reject_ap_list_to_fw pdev_found env (snd (ucfg_blm_psoc_set_suspended False st)))"

text \<open>
  The notifications of the object manager; \<open>mem\<close>, \<open>mutex\<close> and
  \<open>attach\<close> are the outcomes of the allocation, of the creation of the lock and of
  the attachment to the object.  An object that could not be attached is freed.
\<close>

definition blm_pdev_object_created_notification ::
  "bool \<Rightarrow> QDF_STATUS \<Rightarrow> QDF_STATUS \<Rightarrow> blm_state \<Rightarrow> QDF_STATUS \<times> blm_state" where
  "blm_pdev_object_created_notification mem mutex attach st =
     (if \<not> mem then (QDF_STATUS_E_FAILURE, st)
      else if QDF_IS_STATUS_ERROR mutex then (mutex, st)
      else if QDF_IS_STATUS_ERROR attach then (attach, st)
      else (attach, st\<lparr>pdev_obj := Some \<lparr>reject_ap_list = [], blm_tx_registered = True\<rparr>\<rparr>))"

definition blm_pdev_object_destroyed_notification :: "QDF_STATUS \<Rightarrow> blm_state \<Rightarrow> QDF_STATUS \<times> blm_state" where
  "blm_pdev_object_destroyed_notification lock st =
     (case pdev_obj st of
        None \<Rightarrow> (QDF_STATUS_E_FAILURE, st)
      | Some ctx \<Rightarrow> (QDF_STATUS_SUCCESS, (blm_flush_reject_ap_list lock st)\<lparr>pdev_obj := None\<rparr>))"

definition zero_config :: blm_config where
  "zero_config = \<lparr>avoid_list_exipry_time = 0, black_list_exipry_time = 0,
     bad_bssid_counter_reset_time = 0, bad_bssid_counter_thresh = 0, delta_rssi = 0\<rparr>"

definition blm_psoc_object_created_notification :: "bool \<Rightarrow> QDF_STATUS \<Rightarrow> blm_state \<Rightarrow> QDF_STATUS \<times> blm_state" where
  "blm_psoc_object_created_notification mem attach st =
     (if \<not> mem then (QDF_STATUS_E_FAILURE, st)
      else if QDF_IS_STATUS_ERROR attach then (attach, st)
      else (attach, st\<lparr>psoc_obj := Some \<lparr>blm_pdev_id = 0, is_suspended = False, blm_cfg = zero_config\<rparr>\<rparr>))"

definition blm_psoc_object_destroyed_notification :: "blm_state \<Rightarrow> QDF_STATUS \<times> blm_state" where
  "blm_psoc_object_destroyed_notification st =
     (case psoc_obj st of
        None \<Rightarrow> (QDF_STATUS_E_FAILURE, st)
      | Some ps \<Rightarrow> (QDF_STATUS_SUCCESS, st\<lparr>psoc_obj := None\<rparr>))"

text \<open>The values of the five INI items, as \<^verbatim>\<open>cfg_get\<close> returns them.\<close>

definition blm_init_cfg :: "u32 \<Rightarrow> u32 \<Rightarrow> u32 \<Rightarrow> u32 \<Rightarrow> u32 \<Rightarrow> blm_config" where
  "blm_init_cfg avoid_exp black_exp reset thresh delta =
     \<lparr>avoid_list_exipry_time = ucast avoid_exp, black_list_exipry_time = ucast black_exp,
      bad_bssid_counter_reset_time = ucast reset, bad_bssid_counter_thresh = ucast thresh,
      delta_rssi = delta\<rparr>"

definition blm_cfg_psoc_open :: "u32 \<Rightarrow> u32 \<Rightarrow> u32 \<Rightarrow> u32 \<Rightarrow> u32 \<Rightarrow> blm_state \<Rightarrow> QDF_STATUS \<times> blm_state" where
  "blm_cfg_psoc_open avoid_exp black_exp reset thresh delta st =
     (case psoc_obj st of
        None \<Rightarrow> (QDF_STATUS_E_FAILURE, st)
      | Some ps \<Rightarrow>
          (QDF_STATUS_SUCCESS,
           st\<lparr>psoc_obj := Some (ps\<lparr>blm_cfg := blm_init_cfg avoid_exp black_exp reset thresh delta\<rparr>)\<rparr>))"

end
