(* ===== verification/Blm_Inv.thy ===== *)
theory Blm_Inv
  imports Blm_List "HOL-Library.Sublist"
begin

text \<open>
  Lemmas on the operations of the blacklist manager: what expiry does to each bit
  of an entry, the contract \<open>shrinking\<close> shared by all walks that only remove or
  update entries, the correctness of the search for the entry to evict, and the
  invariant of the reject list.
\<close>

section \<open>One entry\<close>

lemmas upd_simps = blm_update_ap_info_def Let_def

lemma update_keeps [simp]:
  "bssid (blm_update_ap_info now cfg s e) = bssid e"
  "userspace_blacklist (blm_update_ap_info now cfg s e) = userspace_blacklist e"
  "bad_bssid_counter (blm_update_ap_info now cfg s e) = bad_bssid_counter e"
  "rssi_reject_params (blm_update_ap_info now cfg s e) = rssi_reject_params e"
  "connect_timestamp (blm_update_ap_info now cfg s e) = connect_timestamp e"
  by (simp_all add: upd_simps)

lemma update_keeps_timestamps [simp]:
  "userspace_avoid_timestamp (ap_timestamp (blm_update_ap_info now cfg s e)) = userspace_avoid_timestamp (ap_timestamp e)"
  "driver_avoid_timestamp (ap_timestamp (blm_update_ap_info now cfg s e)) = driver_avoid_timestamp (ap_timestamp e)"
  "userspace_blacklist_timestamp (ap_timestamp (blm_update_ap_info now cfg s e)) = userspace_blacklist_timestamp (ap_timestamp e)"
  "driver_blacklist_timestamp (ap_timestamp (blm_update_ap_info now cfg s e)) = driver_blacklist_timestamp (ap_timestamp e)"
  "rssi_reject_timestamp (ap_timestamp (blm_update_ap_info now cfg s e)) = rssi_reject_timestamp (ap_timestamp e)"
  by (simp_all add: upd_simps)

text \<open>When the four timed lists let go of an entry.\<close>

definition avoid_expired :: "qdf_time_t \<Rightarrow> blm_config \<Rightarrow> qdf_time_t \<Rightarrow> bool" where
  "avoid_expired now cfg t \<longleftrightarrow> MINUTES_TO_MS (avoid_list_exipry_time cfg) \<le> now - t"

definition black_expired :: "qdf_time_t \<Rightarrow> blm_config \<Rightarrow> qdf_time_t \<Rightarrow> bool" where
  "black_expired now cfg t \<longleftrightarrow> MINUTES_TO_MS (black_list_exipry_time cfg) \<le> now - t"

definition rssi_released :: "qdf_time_t \<Rightarrow> scan_cache_entry option \<Rightarrow> blm_reject_ap \<Rightarrow> bool" where
  "rssi_released now s e \<longleftrightarrow>
     retry_delay (rssi_reject_params e) \<noteq> 0 \<and>
       ucast (retry_delay (rssi_reject_params e)) \<le> now - rssi_reject_timestamp (ap_timestamp e) \<or>
     (\<exists>x. s = Some x \<and> sint (expected_rssi (rssi_reject_params e)) \<le> rssi_raw x)"

lemma update_bits:
  "userspace_avoidlist (blm_update_ap_info now cfg s e) \<longleftrightarrow>
     userspace_avoidlist e \<and> \<not> avoid_expired now cfg (userspace_avoid_timestamp (ap_timestamp e))"
  "driver_avoidlist (blm_update_ap_info now cfg s e) \<longleftrightarrow>
     driver_avoidlist e \<and> \<not> avoid_expired now cfg (driver_avoid_timestamp (ap_timestamp e))"
  "driver_blacklist (blm_update_ap_info now cfg s e) \<longleftrightarrow>
     driver_blacklist e \<and> \<not> black_expired now cfg (driver_blacklist_timestamp (ap_timestamp e))"
  "rssi_reject_list (blm_update_ap_info now cfg s e) \<longleftrightarrow> rssi_reject_list e \<and> \<not> rssi_released now s e"
  "driver_monitorlist (blm_update_ap_info now cfg s e) \<longleftrightarrow>
     driver_monitorlist e \<or>
     userspace_avoidlist e \<and> avoid_expired now cfg (userspace_avoid_timestamp (ap_timestamp e)) \<or>
     driver_avoidlist e \<and> avoid_expired now cfg (driver_avoid_timestamp (ap_timestamp e)) \<or>
     driver_blacklist e \<and> black_expired now cfg (driver_blacklist_timestamp (ap_timestamp e))"
  by (auto simp: upd_simps avoid_expired_def black_expired_def rssi_released_def split: option.splits)

text \<open>An entry survives unless its only reason was an RSSI rejection that is over.\<close>

lemma update_zero_iff:
  "reject_ap_type_zero (blm_update_ap_info now cfg s e) \<longleftrightarrow>
     reject_ap_type_zero e \<or>
     (\<not> userspace_blacklist e \<and> \<not> driver_blacklist e \<and> \<not> BLM_IS_AP_IN_AVOIDLIST e \<and>
      \<not> driver_monitorlist e \<and> rssi_released now s e)"
  by (auto simp: blm_defs update_bits)

definition valid_type :: "blm_reject_ap_type \<Rightarrow> bool" where
  "valid_type ty \<longleftrightarrow> ty \<in> {USERSPACE_AVOID_TYPE, DRIVER_AVOID_TYPE, USERSPACE_BLACKLIST_TYPE, DRIVER_RSSI_REJECT_TYPE}"

text \<open>The reason bits do not touch the rest of an entry.\<close>

lemma avoid_reason_keeps [simp]:
  "bssid (blm_update_avoidlist_reject_reason r e) = bssid e"
  "rssi_reject_params (blm_update_avoidlist_reject_reason r e) = rssi_reject_params e"
  "bad_bssid_counter (blm_update_avoidlist_reject_reason r e) = bad_bssid_counter e"
  "ap_timestamp (blm_update_avoidlist_reject_reason r e) = ap_timestamp e"
  "userspace_blacklist (blm_update_avoidlist_reject_reason r e) = userspace_blacklist e"
  "driver_blacklist (blm_update_avoidlist_reject_reason r e) = driver_blacklist e"
  "userspace_avoidlist (blm_update_avoidlist_reject_reason r e) = userspace_avoidlist e"
  "driver_avoidlist (blm_update_avoidlist_reject_reason r e) = driver_avoidlist e"
  "rssi_reject_list (blm_update_avoidlist_reject_reason r e) = rssi_reject_list e"
  "driver_monitorlist (blm_update_avoidlist_reject_reason r e) = driver_monitorlist e"
  "connect_timestamp (blm_update_avoidlist_reject_reason r e) = connect_timestamp e"
  by (cases r; simp add: blm_update_avoidlist_reject_reason_def Let_def)+

lemma rssi_reason_keeps [simp]:
  "bssid (blm_update_rssi_reject_reason r e) = bssid e"
  "rssi_reject_params (blm_update_rssi_reject_reason r e) = rssi_reject_params e"
  "bad_bssid_counter (blm_update_rssi_reject_reason r e) = bad_bssid_counter e"
  "ap_timestamp (blm_update_rssi_reject_reason r e) = ap_timestamp e"
  "userspace_blacklist (blm_update_rssi_reject_reason r e) = userspace_blacklist e"
  "driver_blacklist (blm_update_rssi_reject_reason r e) = driver_blacklist e"
  "userspace_avoidlist (blm_update_rssi_reject_reason r e) = userspace_avoidlist e"
  "driver_avoidlist (blm_update_rssi_reject_reason r e) = driver_avoidlist e"
  "rssi_reject_list (blm_update_rssi_reject_reason r e) = rssi_reject_list e"
  "driver_monitorlist (blm_update_rssi_reject_reason r e) = driver_monitorlist e"
  "connect_timestamp (blm_update_rssi_reject_reason r e) = connect_timestamp e"
  by (cases r; simp add: blm_update_rssi_reject_reason_def Let_def)+

lemmas modify_simps =
  blm_modify_entry_def blm_handle_avoid_list_def blm_handle_blacklist_def
  blm_handle_rssi_reject_list_def Let_def

lemma modify_bssid:
  "bssid e = info_bssid info \<Longrightarrow> bssid (blm_modify_entry t t2 cfg info e) = bssid e"
  by (simp add: modify_simps split: blm_reject_ap_type.split)

lemma modify_new_bssid:
  "bssid (blm_modify_entry t t2 cfg info zero_reject_ap) =
     (if valid_type (info_reject_ap_type info) then info_bssid info else zero_mac)"
  by (simp add: modify_simps valid_type_def zero_reject_ap_def split: blm_reject_ap_type.split)

text \<open>What each kind of request does to the bits.\<close>

abbreviation threshold_reached :: "blm_config \<Rightarrow> blm_reject_ap \<Rightarrow> bool" where
  "threshold_reached cfg e \<equiv> bad_bssid_counter_thresh cfg \<le> bad_bssid_counter e + 1"

lemma modify_driver_avoid:
  assumes "info_reject_ap_type info = DRIVER_AVOID_TYPE"
  shows "driver_avoidlist (blm_modify_entry t t2 cfg info e) \<longleftrightarrow> \<not> threshold_reached cfg e"
    and "driver_blacklist (blm_modify_entry t t2 cfg info e) \<longleftrightarrow> threshold_reached cfg e \<or> driver_blacklist e"
    and "\<not> driver_monitorlist (blm_modify_entry t t2 cfg info e)"
    and "bad_bssid_counter (blm_modify_entry t t2 cfg info e) = bad_bssid_counter e + 1"
    and "driver_avoid_timestamp (ap_timestamp (blm_modify_entry t t2 cfg info e)) = t"
    and "driver_blacklist_timestamp (ap_timestamp (blm_modify_entry t t2 cfg info e)) =
           (if threshold_reached cfg e then t else driver_blacklist_timestamp (ap_timestamp e))"
    and "userspace_avoidlist (blm_modify_entry t t2 cfg info e) = userspace_avoidlist e"
    and "rssi_reject_list (blm_modify_entry t t2 cfg info e) = rssi_reject_list e"
    and "rssi_reject_params (blm_modify_entry t t2 cfg info e) = rssi_reject_params e"
  using assms by (simp_all add: modify_simps)

lemma modify_userspace_avoid:
  assumes "info_reject_ap_type info = USERSPACE_AVOID_TYPE"
  shows "userspace_avoidlist (blm_modify_entry t t2 cfg info e) \<longleftrightarrow> \<not> threshold_reached cfg e"
    and "driver_blacklist (blm_modify_entry t t2 cfg info e) \<longleftrightarrow> threshold_reached cfg e \<or> driver_blacklist e"
  using assms by (simp_all add: modify_simps)

lemma modify_rssi_reject:
  assumes "info_reject_ap_type info = DRIVER_RSSI_REJECT_TYPE"
  shows "rssi_reject_list (blm_modify_entry t t2 cfg info e)"
    and "rssi_reject_params (blm_modify_entry t t2 cfg info e) = info_rssi_reject_params info"
    and "rssi_reject_timestamp (ap_timestamp (blm_modify_entry t t2 cfg info e)) = t"
    and "driver_avoidlist (blm_modify_entry t t2 cfg info e) = driver_avoidlist e"
    and "driver_blacklist (blm_modify_entry t t2 cfg info e) = driver_blacklist e"
    and "userspace_avoidlist (blm_modify_entry t t2 cfg info e) = userspace_avoidlist e"
  using assms by (simp_all add: modify_simps)

lemma modify_userspace_blacklist:
  "userspace_blacklist (blm_modify_entry t t2 cfg info e) \<longleftrightarrow>
     userspace_blacklist e \<or> info_reject_ap_type info = USERSPACE_BLACKLIST_TYPE"
  by (simp add: modify_simps split: blm_reject_ap_type.split)

lemma modify_not_zero:
  assumes "valid_type (info_reject_ap_type info)"
  shows "\<not> reject_ap_type_zero (blm_modify_entry t t2 cfg info e)"
  using assms modify_driver_avoid(1,2) [of info t t2 cfg e] modify_userspace_avoid [of info t t2 cfg e]
    modify_rssi_reject(1) [of info t t2 cfg e] modify_userspace_blacklist [of t t2 cfg info e]
  unfolding valid_type_def reject_ap_type_zero_def by blast

section \<open>Walks that only remove or update entries\<close>

lemma subseq_distinct: "subseq xs ys \<Longrightarrow> distinct ys \<Longrightarrow> distinct xs"
  by (auto simp: subseq_conv_nths intro: distinct_nthsI)

lemma subseq_set: "subseq xs ys \<Longrightarrow> set xs \<subseteq> set ys"
  by (auto dest: list_emb_set)

definition blm_list_ok :: "blm_reject_ap list \<Rightarrow> bool" where
  "blm_list_ok es \<longleftrightarrow> distinct (map bssid es) \<and> length es \<le> MAX_BAD_AP_LIST_SIZE"

text \<open>
  The contract: the addresses that are left are among the addresses that were there, in
  the same order.
\<close>

locale shrinking =
  fixes walk :: "'c \<Rightarrow> blm_reject_ap list \<Rightarrow> blm_reject_ap list"
  assumes bssids_left: "subseq (map bssid (walk c es)) (map bssid es)"
begin

lemma length_le: "length (walk c es) \<le> length es"
  using list_emb_length [OF bssids_left [of c es]] by simp

lemma bssid_subset: "bssid ` set (walk c es) \<subseteq> bssid ` set es"
  using subseq_set [OF bssids_left [of c es]] by simp

lemma walk_ok: "blm_list_ok es \<Longrightarrow> blm_list_ok (walk c es)"
  using subseq_distinct [OF bssids_left [of c es]] length_le [of c es] by (auto simp: blm_list_ok_def)

end

lemma fill_bssids: "subseq (map bssid (fst (blm_fill_reject_list clk cfg ty mx es rl num))) (map bssid es)"
proof (induction clk cfg ty mx es rl num rule: blm_fill_reject_list.induct)
  case (2 clk cfg ty mx e0 es rl num)
  then show ?case
    by (auto simp: Let_def split: prod.split if_splits)
qed simp

interpretation fill: shrinking "\<lambda>(clk, cfg, ty, mx, rl, num) es. fst (blm_fill_reject_list clk cfg ty mx es rl num)"
  by unfold_locales (auto simp: fill_bssids split: prod.split)

lemma fill_passes_bssids: "subseq (map bssid (fst (fill_passes clk cfg tys (es, rl, num)))) (map bssid es)"
proof (induction tys arbitrary: clk es rl num)
  case (Cons ty tys)
  obtain es' rl' num' where f: "blm_fill_reject_list (clk 0) cfg ty PDEV_MAX_NUM_BSSID_DISALLOW_LIST es rl num = (es', rl', num')"
    by (metis surj_pair)
  have "subseq (map bssid es') (map bssid es)"
    using fill_bssids [of "clk 0" cfg ty PDEV_MAX_NUM_BSSID_DISALLOW_LIST es rl num] f by simp
  then show ?case using Cons.IH [of "later 1 clk" es' rl' num'] f subseq_order.order_trans by auto
qed simp

interpretation send: shrinking "\<lambda>(clk, cfg, tys, rl, num) es. fst (fill_passes clk cfg tys (es, rl, num))"
  by unfold_locales (auto simp: fill_passes_bssids split: prod.split)

lemma delete_nth_subseq: "subseq (take i xs @ drop (Suc i) xs) xs"
proof (cases "i < length xs")
  case True
  then have "xs = take i xs @ xs ! i # drop (Suc i) xs" by (rule id_take_nth_drop)
  then show ?thesis by (metis subseq_append' subseq_order.order_refl list_emb_Cons)
qed simp

lemma try_delete_bssids:
  "subseq (map bssid (snd (blm_try_delete_bssid_in_list clk cfg ty es))) (map bssid es)"
  by (auto simp: blm_try_delete_bssid_in_list_def delete_nth_subseq simp flip: take_map drop_map split: option.split)

lemma try_delete_types_bssids:
  "subseq (map bssid (snd (try_delete_types clk cfg tys es))) (map bssid es)"
proof (induction tys arbitrary: clk es)
  case (Cons ty tys)
  obtain status es' where d: "blm_try_delete_bssid_in_list (clk 0) cfg ty es = (status, es')" by fastforce
  have "subseq (map bssid es') (map bssid es)"
    using try_delete_bssids [of "clk 0" cfg ty es] d by simp
  then show ?case using Cons.IH [of "later 1 clk" es'] d subseq_order.order_trans by auto
qed simp

interpretation evict: shrinking "\<lambda>(clk, cfg) es. snd (blm_remove_lowest_delta_entry clk cfg es)"
  by unfold_locales (auto simp: blm_remove_lowest_delta_entry_def try_delete_types_bssids)

lemma action_bssids: "subseq (map bssid (fst (action_walk now cfg s es))) (map bssid es)"
  by (induction es)
    (auto simp: blm_prune_old_entries_and_get_action_def Let_def split: prod.split)

interpretation query: shrinking "\<lambda>(now, cfg, s) es. fst (action_walk now cfg s es)"
  by unfold_locales (auto simp: action_bssids)

lemma clear_bssids: "subseq (map bssid (clear_userspace_walk es)) (map bssid es)"
  by (induction es) auto

interpretation clear: shrinking "\<lambda>(_::unit) es. clear_userspace_walk es"
  by unfold_locales (rule clear_bssids)

lemma add_walk_bssids: "subseq (map bssid (fst (add_walk clk mclk cfg info es))) (map bssid es)"
proof (induction es arbitrary: clk)
  case (Cons e es)
  show ?case using Cons.IH [of "later 1 clk"]
    by (auto simp: Let_def modify_bssid split: prod.split)
qed simp

interpretation add: shrinking "\<lambda>(clk, mclk, cfg, info) es. fst (add_walk clk mclk cfg info es)"
  by unfold_locales (auto simp: add_walk_bssids)

section \<open>Choosing the entry to evict\<close>

text \<open>The search, on the deltas of the eligible entries alone.\<close>

fun pick :: "(qdf_time_t \<Rightarrow> qdf_time_t \<Rightarrow> bool) \<Rightarrow> nat \<Rightarrow> qdf_time_t option list \<Rightarrow>
    nat option \<times> qdf_time_t \<Rightarrow> nat option \<times> qdf_time_t" where
  "pick better i [] acc = acc"
| "pick better i (d # ds) acc =
     pick better (Suc i) ds
       (case d of None \<Rightarrow> acc | Some x \<Rightarrow> if better x (snd acc) then (Some i, x) else acc)"

definition deltas :: "(nat \<Rightarrow> qdf_time_t) \<Rightarrow> blm_config \<Rightarrow> blm_reject_ap_type \<Rightarrow> nat \<Rightarrow> blm_reject_ap list \<Rightarrow> qdf_time_t option list" where
  "deltas clk cfg ty i es =
     map (\<lambda>(j, e). if blm_is_bssid_present_only_in_list_type ty e
                  then Some (blm_get_delta_of_bssid (clk j) ty cfg e) else None) (enumerate i es)"

lemma deltas_simps [simp]:
  "length (deltas clk cfg ty i es) = length es"
  "k < length es \<Longrightarrow> deltas clk cfg ty i es ! k =
     (if blm_is_bssid_present_only_in_list_type ty (es ! k)
      then Some (blm_get_delta_of_bssid (clk (i + k)) ty cfg (es ! k)) else None)"
  by (simp_all add: deltas_def nth_enumerate_eq)

lemma oldest_scan_pick:
  "oldest_scan clk cfg ty i es acc = pick (blm_is_oldest_entry ty) i (deltas clk cfg ty i es) acc"
  by (induction es arbitrary: i acc) (simp_all add: deltas_def Let_def)

lemma pick_index:
  "pick better i ds acc = (Some k, x) \<Longrightarrow> acc = (Some k, x) \<or> i \<le> k \<and> k < i + length ds \<and> ds ! (k - i) = Some x"
proof (induction ds arbitrary: i acc)
  case (Cons d ds)
  from Cons.prems have "(case d of None \<Rightarrow> acc | Some x \<Rightarrow> if better x (snd acc) then (Some i, x) else acc) = (Some k, x)
      \<or> Suc i \<le> k \<and> k < Suc i + length ds \<and> ds ! (k - Suc i) = Some x"
    by (intro Cons.IH) simp
  then show ?case by (auto simp: nth_Cons' split: option.splits if_splits)
qed simp

text \<open>
  A strict order on the non-zero deltas in which every delta is better than the value 0
  that stands for ``no entry found yet''.
\<close>

locale delta_order =
  fixes better :: "qdf_time_t \<Rightarrow> qdf_time_t \<Rightarrow> bool"
  assumes first: "x \<noteq> 0 \<Longrightarrow> better x 0"
    and irrefl: "x \<noteq> 0 \<Longrightarrow> \<not> better x x"
    and trans: "x \<noteq> 0 \<Longrightarrow> y \<noteq> 0 \<Longrightarrow> z \<noteq> 0 \<Longrightarrow> better x y \<Longrightarrow> better y z \<Longrightarrow> better x z"
begin

lemma not_better: "x \<noteq> 0 \<Longrightarrow> y \<noteq> 0 \<Longrightarrow> x = y \<or> better x y \<Longrightarrow> \<not> better y x"
  using irrefl trans by blast

lemma pick_from:
  assumes "x0 \<noteq> 0" "\<And>y. Some y \<in> set ds \<Longrightarrow> y \<noteq> 0"
  shows "\<exists>k x. pick better i ds (Some k0, x0) = (Some k, x) \<and> x \<noteq> 0 \<and> (x = x0 \<or> better x x0) \<and>
    (\<forall>y. Some y \<in> set ds \<longrightarrow> \<not> better y x)"
  using assms
proof (induction ds arbitrary: i k0 x0)
  case (Cons d ds)
  let ?acc = "case d of None \<Rightarrow> (Some k0, x0) | Some y \<Rightarrow> if better y x0 then (Some i, y) else (Some k0, x0)"
  have "\<exists>k1 x1. ?acc = (Some k1, x1)" by (auto split: option.split)
  then obtain k1 x1 where acc: "?acc = (Some k1, x1)" by blast
  have x1: "x1 \<noteq> 0" "x1 = x0 \<or> better x1 x0" "\<forall>y. d = Some y \<longrightarrow> \<not> better y x1"
    using acc Cons.prems irrefl by (auto split: option.splits if_splits)
  obtain k x where r: "pick better (Suc i) ds (Some k1, x1) = (Some k, x)" "x \<noteq> 0"
      "x = x1 \<or> better x x1" "\<forall>y. Some y \<in> set ds \<longrightarrow> \<not> better y x"
    using Cons.IH [OF x1(1), of "Suc i" k1] Cons.prems(2) by auto
  have "\<not> better y x" if "d = Some y" for y
    using that r x1 Cons.prems(2) [of y] trans [of y x x1] by auto
  moreover have "x = x0 \<or> better x x0" using r x1 Cons.prems(1) trans by blast
  moreover have "pick better i (d # ds) (Some k0, x0) = (Some k, x)" using r(1) acc by (auto split: option.splits)
  ultimately show ?case using r(2,4) by (metis set_ConsD)
qed simp

theorem pick_best:
  assumes "\<And>y. Some y \<in> set ds \<Longrightarrow> y \<noteq> 0" "Some y0 \<in> set ds"
  shows "\<exists>k x. pick better i ds (None, 0) = (Some k, x) \<and> (\<forall>y. Some y \<in> set ds \<longrightarrow> \<not> better y x)"
  using assms
proof (induction ds arbitrary: i)
  case (Cons d ds)
  show ?case
  proof (cases d)
    case None
    then show ?thesis using Cons by auto
  next
    case (Some y)
    then have y: "y \<noteq> 0" using Cons.prems(1) by simp
    obtain k x where "pick better (Suc i) ds (Some i, y) = (Some k, x)" "x \<noteq> 0" "x = y \<or> better x y"
        "\<forall>z. Some z \<in> set ds \<longrightarrow> \<not> better z x"
      using pick_from [OF y, of ds "Suc i" i] Cons.prems(1) by auto
    then show ?thesis using Some y first not_better by auto
  qed
qed simp

end

interpretation monitor_order: delta_order "blm_is_oldest_entry DRIVER_MONITOR_TYPE"
  by unfold_locales (auto simp: blm_is_oldest_entry_def word_gt_0)
interpretation userspace_blacklist_order: delta_order "blm_is_oldest_entry USERSPACE_BLACKLIST_TYPE"
  by unfold_locales (auto simp: blm_is_oldest_entry_def word_gt_0)
interpretation driver_avoid_order: delta_order "blm_is_oldest_entry DRIVER_AVOID_TYPE"
  by unfold_locales (auto simp: blm_is_oldest_entry_def)
interpretation userspace_avoid_order: delta_order "blm_is_oldest_entry USERSPACE_AVOID_TYPE"
  by unfold_locales (auto simp: blm_is_oldest_entry_def)
interpretation rssi_order: delta_order "blm_is_oldest_entry DRIVER_RSSI_REJECT_TYPE"
  by unfold_locales (auto simp: blm_is_oldest_entry_def)
interpretation driver_blacklist_order: delta_order "blm_is_oldest_entry DRIVER_BLACKLIST_TYPE"
  by unfold_locales (auto simp: blm_is_oldest_entry_def)

lemma scan_index:
  assumes "fst (oldest_scan clk cfg ty 0 es (None, 0)) = Some k"
  shows "k < length es \<and> blm_is_bssid_present_only_in_list_type ty (es ! k)"
proof -
  obtain x where "pick (blm_is_oldest_entry ty) 0 (deltas clk cfg ty 0 es) (None, 0) = (Some k, x)"
    using assms by (metis oldest_scan_pick prod.collapse)
  from pick_index [OF this] show ?thesis by (auto split: if_splits)
qed

section \<open>The invariant of the list\<close>

definition blm_state_ok :: "blm_state \<Rightarrow> bool" where
  "blm_state_ok st \<longleftrightarrow> (case pdev_obj st of None \<Rightarrow> True | Some ctx \<Rightarrow> blm_list_ok (reject_ap_list ctx))"

lemma set_list_simps [simp]:
  "pdev_obj (set_list es st) = map_option (reject_ap_list_update (\<lambda>_. es)) (pdev_obj st)"
  "psoc_obj (set_list es st) = psoc_obj st"
  "wlan_pdev_id (set_list es st) = wlan_pdev_id st"
  "fw_log (set_list es st) = fw_log st"
  by (simp_all add: set_list_def)

lemma set_list_ok: "blm_list_ok es \<Longrightarrow> blm_state_ok (set_list es st)"
  by (simp add: blm_state_ok_def split: option.split)

lemma state_list_ok: "blm_state_ok st \<Longrightarrow> pdev_obj st = Some ctx \<Longrightarrow> blm_list_ok (reject_ap_list ctx)"
  by (simp add: blm_state_ok_def)

lemma tgt_send_simps [simp]:
  "pdev_obj (snd (tgt_blm_send_reject_list_to_fw env p st)) = pdev_obj st"
  "psoc_obj (snd (tgt_blm_send_reject_list_to_fw env p st)) = psoc_obj st"
  by (simp_all add: tgt_blm_send_reject_list_to_fw_def target_if_blm_send_reject_ap_list_def split: option.split)

text \<open>What a report to the firmware leaves of the list.\<close>

definition left_by_send :: "blm_env \<Rightarrow> blm_config \<Rightarrow> blm_state \<Rightarrow> blm_reject_ap list \<Rightarrow> blm_reject_ap list" where
  "left_by_send env cfg st es =
     (if snd (ucfg_blm_psoc_get_suspended st) \<or> \<not> env_list_mem env then es
      else fst (fill_passes (env_send env) cfg fill_order
                  (es, replicate (unat PDEV_MAX_NUM_BSSID_DISALLOW_LIST) zero_config_params, 0)))"

lemma send_pdev_obj:
  "pdev_obj (blm_send_reject_ap_list_to_fw env cfg st) =
     map_option (\<lambda>ctx. reject_ap_list_update (left_by_send env cfg st) ctx) (pdev_obj st)"
  by (cases "pdev_obj st")
    (auto simp: blm_send_reject_ap_list_to_fw_def left_by_send_def blm_store_pdevid_in_blm_psocpriv_def
      split: option.split prod.split)

interpretation report: shrinking "\<lambda>(env, cfg, st) es. left_by_send env cfg st es"
proof
  fix c :: "blm_env \<times> blm_config \<times> blm_state" and es
  show "subseq (map bssid ((case c of (env, cfg, st) \<Rightarrow> left_by_send env cfg st) es)) (map bssid es)"
    by (cases c) (simp add: left_by_send_def fill_passes_bssids)
qed

lemma send_ok: "blm_state_ok st \<Longrightarrow> blm_state_ok (blm_send_reject_ap_list_to_fw env cfg st)"
  using report.walk_ok [of _ "(env, cfg, st)"]
  by (auto simp: blm_state_ok_def send_pdev_obj split: option.splits)

lemma add_walk_absent:
  "\<not> snd (add_walk clk mclk cfg info es) \<Longrightarrow>
     info_bssid info \<notin> bssid ` set (fst (add_walk clk mclk cfg info es))"
proof (induction es arbitrary: clk)
  case (Cons e es)
  obtain es' f where "add_walk (later 1 clk) mclk cfg info es = (es', f)" by fastforce
  then show ?case using Cons.IH [of "later 1 clk"] Cons.prems by (auto simp: Let_def split: if_splits)
qed simp

lemma insert_new_ok:
  assumes es: "blm_list_ok es" "length es < MAX_BAD_AP_LIST_SIZE"
    and new: "info_bssid info \<notin> bssid ` set es" "valid_type (info_reject_ap_type info)"
  shows "blm_state_ok (snd (blm_insert_new env cfg info es st))"
proof -
  have "blm_list_ok (es @ [blm_modify_entry (env_modify env 0) (env_modify env 1) cfg info zero_reject_ap])"
    using es new by (auto simp: blm_list_ok_def modify_new_bssid)
  then show ?thesis using es by (simp add: blm_insert_new_def set_list_ok send_ok)
qed

lemma try_delete_types_length:
  "fst (try_delete_types clk cfg tys es) = QDF_STATUS_SUCCESS \<Longrightarrow> es \<noteq> [] \<Longrightarrow>
     length (snd (try_delete_types clk cfg tys es)) < length es"
proof (induction tys arbitrary: clk)
  case (Cons ty tys)
  then show ?case
    by (auto simp: blm_try_delete_bssid_in_list_def dest!: scan_index split: option.splits prod.splits if_splits)
qed simp

lemma evict_length:
  assumes "blm_remove_lowest_delta_entry clk cfg es = (QDF_STATUS_SUCCESS, es')" "es \<noteq> []"
  shows "length es' < length es"
  using try_delete_types_length [of clk cfg removal_order es] assms
  by (simp add: blm_remove_lowest_delta_entry_def)

lemma add_ok:
  assumes ok: "blm_state_ok st" and ty: "valid_type (info_reject_ap_type info)"
  shows "blm_state_ok (snd (blm_add_bssid_to_reject_list env info st))"
proof (cases "\<exists>ctx ps. pdev_obj st = Some ctx \<and> psoc_obj st = Some ps")
  case True
  then obtain ctx ps where st: "pdev_obj st = Some ctx" "psoc_obj st = Some ps" by blast
  obtain es found where w: "add_walk (env_walk env) (env_modify env) (blm_cfg ps) info (reject_ap_list ctx) = (es, found)"
    by fastforce
  have es: "blm_list_ok es"
    using add.walk_ok [of "reject_ap_list ctx" "(env_walk env, env_modify env, blm_cfg ps, info)"]
      state_list_ok [OF ok st(1)] w by simp
  have absent: "info_bssid info \<notin> bssid ` set es" if "\<not> found"
    using add_walk_absent [of "env_walk env" "env_modify env" "blm_cfg ps" info "reject_ap_list ctx"] w that by simp
  obtain status es' where r: "blm_remove_lowest_delta_entry (env_evict env) (blm_cfg ps) es = (status, es')" by fastforce
  have es': "blm_list_ok es'" "bssid ` set es' \<subseteq> bssid ` set es"
    using evict.walk_ok [OF es, of "(env_evict env, blm_cfg ps)"]
      evict.bssid_subset [of "(env_evict env, blm_cfg ps)" es] r by simp_all
  have full: "blm_state_ok (snd (blm_insert_new env (blm_cfg ps) info es' st))"
    if "\<not> found" "length es = MAX_BAD_AP_LIST_SIZE" "status = QDF_STATUS_SUCCESS"
  proof (rule insert_new_ok [OF es'(1) _ _ ty])
    have "es \<noteq> []" using that(2) by (auto simp: MAX_BAD_AP_LIST_SIZE_def)
    then show "length es' < MAX_BAD_AP_LIST_SIZE" using evict_length r that by metis
  qed (use absent [OF that(1)] es'(2) in blast)
  have room: "blm_state_ok (snd (blm_insert_new env (blm_cfg ps) info es st))"
    if "\<not> found" "length es \<noteq> MAX_BAD_AP_LIST_SIZE"
    using insert_new_ok [OF es _ absent ty] es that by (simp add: blm_list_ok_def)
  show ?thesis
    using ok full room r by (auto simp: blm_add_bssid_to_reject_list_def st w send_ok set_list_ok es es' Let_def)
qed (use ok in \<open>auto simp: blm_add_bssid_to_reject_list_def split: option.split\<close>)

end
