(* ===== verification/Blm_Calls.thy ===== *)
theory Blm_Calls
  imports Blm_Inv
begin

text \<open>
  The entry points of the blacklist manager as a sequence of calls, each with its own
  environment, and the preservation of the list invariant by every one of them.
\<close>

datatype blm_call =
    Call_pdev_created bool QDF_STATUS QDF_STATUS
  | Call_pdev_destroyed QDF_STATUS
  | Call_psoc_created bool QDF_STATUS
  | Call_psoc_destroyed
  | Call_psoc_open u32 u32 u32 u32 u32
  | Call_add blm_env reject_ap_info
  | Call_userspace_black_list QDF_STATUS blm_env "nat \<Rightarrow> blm_env" blm_rssi_disallow_params "qdf_mac_addr list option" u8
  | Call_action blm_env scan_cache_entry
  | Call_get_list blm_env u8 blm_reject_ap_type "reject_ap_config_params list"
  | Call_connect_params blm_env qdf_mac_addr blm_connection_state
  | Call_wifi_off blm_env
  | Call_suspend
  | Call_resume bool blm_env

fun blm_call_step :: "blm_call \<Rightarrow> blm_state \<Rightarrow> blm_state" where
  "blm_call_step (Call_pdev_created mem mutex attach) st = snd (blm_pdev_object_created_notification mem mutex attach st)"
| "blm_call_step (Call_pdev_destroyed lock) st = snd (blm_pdev_object_destroyed_notification lock st)"
| "blm_call_step (Call_psoc_created mem attach) st = snd (blm_psoc_object_created_notification mem attach st)"
| "blm_call_step Call_psoc_destroyed st = snd (blm_psoc_object_destroyed_notification st)"
| "blm_call_step (Call_psoc_open a b r t d) st = snd (blm_cfg_psoc_open a b r t d st)"
| "blm_call_step (Call_add env info) st = snd (blm_add_bssid_to_reject_list env info st)"
| "blm_call_step (Call_userspace_black_list lock env envs stack bs n) st =
     snd (blm_add_userspace_black_list lock env envs stack bs n st)"
| "blm_call_step (Call_action env s) st = snd (blm_action_on_bssid env s st)"
| "blm_call_step (Call_get_list env mx ty rl) st = snd (snd (blm_get_bssid_reject_list env mx ty rl st))"
| "blm_call_step (Call_connect_params env b c) st = blm_update_bssid_connect_params env b c st"
| "blm_call_step (Call_wifi_off env) st = ucfg_blm_wifi_off env st"
| "blm_call_step Call_suspend st = snd (ucfg_blm_suspend_handler st)"
| "blm_call_step (Call_resume found env) st = snd (ucfg_blm_resume_handler found env st)"

text \<open>The driver asks for one of four kinds of rejection.\<close>

fun valid_call :: "blm_call \<Rightarrow> bool" where
  "valid_call (Call_add env info) = valid_type (info_reject_ap_type info)"
| "valid_call _ = True"

definition blm_init :: "u8 \<Rightarrow> blm_state" where
  "blm_init i = \<lparr>pdev_obj = None, psoc_obj = None, wlan_pdev_id = i, fw_log = []\<rparr>"

section \<open>Preservation\<close>

lemma psoc_update_ok [simp]: "blm_state_ok (st\<lparr>psoc_obj := p\<rparr>) = blm_state_ok st"
  by (simp add: blm_state_ok_def)

lemma update_fw_ok: "blm_state_ok st \<Longrightarrow> blm_state_ok (blm_update_reject_ap_list_to_fw found env st)"
  by (simp add: blm_update_reject_ap_list_to_fw_def send_ok split: option.split)

lemma set_suspended_ok: "blm_state_ok st \<Longrightarrow> blm_state_ok (snd (ucfg_blm_psoc_set_suspended b st))"
  by (simp add: ucfg_blm_psoc_set_suspended_def split: option.split)

lemma action_ok: "blm_state_ok st \<Longrightarrow> blm_state_ok (snd (blm_action_on_bssid env s st))"
proof -
  assume ok: "blm_state_ok st"
  have "blm_list_ok (fst (action_walk now cfg s (reject_ap_list ctx)))" if "pdev_obj st = Some ctx" for ctx now cfg
    using query.walk_ok [of "reject_ap_list ctx" "(now, cfg, s)"] state_list_ok [OF ok that] by simp
  then show ?thesis using ok
    by (auto simp: blm_action_on_bssid_def intro!: set_list_ok split: option.split prod.split) (metis fst_conv)+
qed

lemma get_list_ok: "blm_state_ok st \<Longrightarrow> blm_state_ok (snd (snd (blm_get_bssid_reject_list env mx ty rl st)))"
proof -
  assume ok: "blm_state_ok st"
  have "blm_list_ok (fst (blm_fill_reject_list clk cfg ty mx (reject_ap_list ctx) rl num))"
    if "pdev_obj st = Some ctx" for ctx clk cfg num
    using fill.walk_ok [of "reject_ap_list ctx" "(clk, cfg, ty, mx, rl, num)"] state_list_ok [OF ok that] by simp
  then show ?thesis using ok
    by (auto simp: blm_get_bssid_reject_list_def intro!: set_list_ok split: option.split prod.split) (metis fst_conv)+
qed

lemma clear_ok: "blm_state_ok st \<Longrightarrow> blm_state_ok (snd (blm_clear_userspace_blacklist_info lock st))"
  by (auto simp: blm_clear_userspace_blacklist_info_def intro!: set_list_ok clear.walk_ok state_list_ok split: option.split)

lemma userspace_loop_ok: "blm_state_ok st \<Longrightarrow> blm_state_ok (snd (add_userspace_loop envs stack bs st))"
proof (induction bs arbitrary: envs st)
  case (Cons b bs)
  obtain status st' where a: "blm_add_bssid_to_reject_list (envs 0) (userspace_request stack b) st = (status, st')"
    by fastforce
  have "blm_state_ok st'"
    using add_ok [OF Cons.prems, of "userspace_request stack b" "envs 0"] a
    by (simp add: valid_type_def userspace_request_def)
  then show ?case using Cons.IH a by simp
qed simp

lemma userspace_list_ok:
  "blm_state_ok st \<Longrightarrow> blm_state_ok (snd (blm_add_userspace_black_list lock env envs stack bs n st))"
  by (auto simp: blm_add_userspace_black_list_def Let_def clear_ok send_ok userspace_loop_ok split: option.split)

lemma list_update_bssid:
  "i < length es \<Longrightarrow> bssid e = bssid (es ! i) \<Longrightarrow> map bssid (es[i := e]) = map bssid es"
  by (simp add: map_update) (metis list_update_id nth_map)

lemma list_update_ok: "blm_list_ok es \<Longrightarrow> i < length es \<Longrightarrow> bssid e = bssid (es ! i) \<Longrightarrow> blm_list_ok (es[i := e])"
  unfolding blm_list_ok_def list_update_bssid length_list_update by simp

lemma delete_ok: "blm_list_ok es \<Longrightarrow> blm_list_ok (take i es @ drop (Suc i) es)"
proof -
  assume ok: "blm_list_ok es"
  have "subseq (map bssid (take i es @ drop (Suc i) es)) (map bssid es)"
    using delete_nth_subseq [of i "map bssid es"] by (simp add: take_map drop_map)
  then show ?thesis using ok subseq_distinct list_emb_length
    by (metis blm_list_ok_def length_map order_trans)
qed

lemma disconnect_bssid: "bssid (fst (blm_disconnect_entry t t2 cfg e)) = bssid e"
  by (simp add: blm_disconnect_entry_def Let_def)

lemma connect_ok: "blm_state_ok st \<Longrightarrow> blm_state_ok (blm_update_bssid_connect_params env b c st)"
proof (cases "\<exists>ctx ps i. pdev_obj st = Some ctx \<and> psoc_obj st = Some ps \<and>
    find_index_from (\<lambda>e. bssid e = b) 0 (reject_ap_list ctx) = Some i")
  case True
  assume ok: "blm_state_ok st"
  from True obtain ctx ps i where st: "pdev_obj st = Some ctx" "psoc_obj st = Some ps"
    and i: "find_index_from (\<lambda>e. bssid e = b) 0 (reject_ap_list ctx) = Some i" by blast
  have es: "blm_list_ok (reject_ap_list ctx)" by (rule state_list_ok [OF ok st(1)])
  have "i < length (reject_ap_list ctx)" using i by (simp add: find_index_from_0_Some)
  then show ?thesis
    using es ok disconnect_bssid [of "env_walk env 0" "env_walk env 1" "blm_cfg ps" "reject_ap_list ctx ! i"]
    by (auto simp: blm_update_bssid_connect_params_def st i Let_def delete_ok
        intro!: set_list_ok send_ok list_update_ok split: blm_connection_state.split prod.split)
next
  case False
  assume "blm_state_ok st"
  with False show ?thesis
    by (auto simp: blm_update_bssid_connect_params_def Let_def split: option.split)
qed

lemma flush_ok: "blm_state_ok st \<Longrightarrow> blm_state_ok (blm_flush_reject_ap_list lock st)"
  by (simp add: blm_flush_reject_ap_list_def set_list_ok blm_list_ok_def)

lemma wifi_off_ok: "blm_state_ok st \<Longrightarrow> blm_state_ok (ucfg_blm_wifi_off env st)"
  by (simp add: ucfg_blm_wifi_off_def send_ok flush_ok split: option.split)

lemma call_step_ok:
  assumes "blm_state_ok st" "valid_call c"
  shows "blm_state_ok (blm_call_step c st)"
proof (cases c)
  case (Call_pdev_created m x a)
  then show ?thesis using assms
    by (simp add: blm_pdev_object_created_notification_def blm_state_ok_def blm_list_ok_def)
next
  case (Call_pdev_destroyed l)
  then show ?thesis using assms
    by (auto simp: blm_pdev_object_destroyed_notification_def blm_state_ok_def split: option.split)
next
  case (Call_add env info)
  then show ?thesis using assms by (simp add: add_ok)
qed (use assms in \<open>auto simp: blm_psoc_object_created_notification_def blm_psoc_object_destroyed_notification_def
      blm_cfg_psoc_open_def ucfg_blm_suspend_handler_def ucfg_blm_resume_handler_def userspace_list_ok action_ok
      get_list_ok connect_ok wifi_off_ok update_fw_ok set_suspended_ok split: option.split\<close>)

end
