(* ===== verification/Blm_Report.thy ===== *)
theory Blm_Report
  imports Blm_Calls
begin

text \<open>
  What \<^verbatim>\<open>blm_fill_reject_list\<close> writes: a specification of the reported entries that
  knows nothing of the array and its limit, and the proof that a pass, and the five passes
  of \<^verbatim>\<open>blm_send_reject_ap_list_to_fw\<close>, implement it.
\<close>

section \<open>Expiry at one instant\<close>

lemma update_fixed:
  assumes "userspace_avoidlist e \<Longrightarrow> \<not> avoid_expired now cfg (userspace_avoid_timestamp (ap_timestamp e))"
    and "driver_avoidlist e \<Longrightarrow> \<not> avoid_expired now cfg (driver_avoid_timestamp (ap_timestamp e))"
    and "driver_blacklist e \<Longrightarrow> \<not> black_expired now cfg (driver_blacklist_timestamp (ap_timestamp e))"
    and "rssi_reject_list e \<Longrightarrow> \<not> rssi_released now s e"
  shows "blm_update_ap_info now cfg s e = e"
proof -
  have ua: "\<not> (userspace_avoidlist e \<and> MINUTES_TO_MS (avoid_list_exipry_time cfg) \<le> now - userspace_avoid_timestamp (ap_timestamp e))"
    using assms(1) by (auto simp: avoid_expired_def)
  have da: "\<not> (driver_avoidlist e \<and> MINUTES_TO_MS (avoid_list_exipry_time cfg) \<le> now - driver_avoid_timestamp (ap_timestamp e))"
    using assms(2) by (auto simp: avoid_expired_def)
  have db: "\<not> (driver_blacklist e \<and> MINUTES_TO_MS (black_list_exipry_time cfg) \<le> now - driver_blacklist_timestamp (ap_timestamp e))"
    using assms(3) by (auto simp: black_expired_def)
  show ?thesis
    unfolding blm_update_ap_info_def Let_def if_not_P [OF ua] if_not_P [OF da] if_not_P [OF db]
    by (rule if_not_P) (use assms(4) in \<open>auto simp: rssi_released_def split: option.splits\<close>)
qed

lemma rssi_released_update [simp]:
  "rssi_released now s (blm_update_ap_info now' cfg s' e) = rssi_released now s e"
  by (simp add: rssi_released_def)

lemma update_idem: "blm_update_ap_info now cfg s (blm_update_ap_info now cfg s e) = blm_update_ap_info now cfg s e"
  by (rule update_fixed) (simp_all add: update_bits)

definition pruned :: "qdf_time_t \<Rightarrow> blm_config \<Rightarrow> blm_reject_ap list \<Rightarrow> blm_reject_ap list" where
  "pruned now cfg es = filter (\<lambda>e. \<not> reject_ap_type_zero e) (map (blm_update_ap_info now cfg None) es)"

lemma pruned_idem: "pruned now cfg (pruned now cfg es) = pruned now cfg es"
  by (induction es) (auto simp: pruned_def update_idem)

section \<open>One pass\<close>

type_synonym report_key = "qdf_mac_addr \<times> blm_reject_ap_type \<times> u32 \<times> u32"

definition key :: "reject_ap_config_params \<Rightarrow> report_key" where
  "key q = (cfg_bssid q, cfg_reject_ap_type q, cfg_reject_duration q, cfg_expected_rssi q)"

definition entry_key :: "qdf_time_t \<Rightarrow> blm_config \<Rightarrow> blm_reject_ap_type \<Rightarrow> blm_reject_ap \<Rightarrow> report_key" where
  "entry_key now cfg ty e =
     (bssid e, ty, ucast (blm_get_delta_of_bssid now ty cfg e), scast (expected_rssi (rssi_reject_params e)))"

fun reported :: "(nat \<Rightarrow> qdf_time_t) \<Rightarrow> blm_config \<Rightarrow> blm_reject_ap_type \<Rightarrow> blm_reject_ap list \<Rightarrow> report_key list" where
  "reported clk cfg ty [] = []"
| "reported clk cfg ty (e0 # es) =
     (let e = blm_update_ap_info (clk 0) cfg None e0
      in (if reject_ap_type_zero e \<or> \<not> blm_is_bssid_of_type ty e then []
          else [entry_key (clk 1) cfg ty e]) @ reported (later 2 clk) cfg ty es)"

lemma later_const [simp]: "later n (\<lambda>_. x) = (\<lambda>_. x)"
  by (simp add: later_def)

lemma reported_const:
  "reported (\<lambda>_. now) cfg ty es =
     map (entry_key now cfg ty) (filter (blm_is_bssid_of_type ty) (pruned now cfg es))"
  by (induction es) (auto simp: pruned_def Let_def)

lemma reported_keys:
  "x \<in> set (reported clk cfg ty es) \<Longrightarrow> fst x \<in> bssid ` set es \<and> fst (snd x) = ty"
proof (induction es arbitrary: clk)
  case (Cons e es)
  then show ?case using Cons.IH [of "later 2 clk"] by (auto simp: Let_def entry_key_def split: if_splits)
qed simp

definition fill_entry :: "qdf_time_t \<Rightarrow> blm_config \<Rightarrow> blm_reject_ap_type \<Rightarrow> blm_reject_ap \<Rightarrow>
    reject_ap_config_params \<Rightarrow> reject_ap_config_params" where
  "fill_entry now cfg ty e q =
     (blm_fill_rssi_reject_params e ty
        (q\<lparr>cfg_expected_rssi := scast (expected_rssi (rssi_reject_params e)),
           cfg_reject_duration := ucast (blm_get_delta_of_bssid now ty cfg e)\<rparr>))
        \<lparr>cfg_reject_ap_type := ty, cfg_bssid := bssid e\<rparr>"

lemma key_fill_entry: "key (fill_entry now cfg ty e q) = entry_key now cfg ty e"
  by (simp add: key_def fill_entry_def entry_key_def blm_fill_rssi_reject_params_def)

lemma fill_Cons:
  assumes "num \<noteq> mx" "\<not> reject_ap_type_zero (blm_update_ap_info (clk 0) cfg None e0)"
  shows "blm_fill_reject_list clk cfg ty mx (e0 # es) rl num =
    (let e = blm_update_ap_info (clk 0) cfg None e0;
         (es', r) = blm_fill_reject_list (later 2 clk) cfg ty mx es
           (if blm_is_bssid_of_type ty e then rl[unat num := fill_entry (clk 1) cfg ty e (rl ! unat num)] else rl)
           (if blm_is_bssid_of_type ty e then num + 1 else num)
     in (e # es', r))"
  using assms by (simp add: fill_entry_def Let_def split: prod.split)

text \<open>
  What the array and the counter are after a pass that started with \<open>num\<close> entries:
  the reported entries follow those already there, as many as fit.
\<close>

definition fill_post :: "u8 \<Rightarrow> reject_ap_config_params list \<Rightarrow> u8 \<Rightarrow> report_key list \<Rightarrow>
    reject_ap_config_params list \<times> u8 \<Rightarrow> bool" where
  "fill_post mx rl num R r = (case r of (rl', num') \<Rightarrow>
     length rl' = length rl \<and>
     unat num' = min (unat mx) (unat num + length R) \<and>
     map key (take (unat num') rl') = map key (take (unat num) rl) @ take (unat mx - unat num) R \<and>
     drop (unat num') rl' = drop (unat num') rl)"

lemma unat_Suc: "num < mx \<Longrightarrow> unat (num + 1) = Suc (unat num)" for num mx :: u8
  using unsigned_less [of mx, where ?'a = nat] by (simp add: unat_word_ariths word_less_nat_alt)

lemma fill_post_step:
  assumes lt: "num < mx" and len: "unat mx \<le> length rl" and k: "key q = x"
    and post: "fill_post mx (rl[unat num := q]) (num + 1) R r"
  shows "fill_post mx rl num (x # R) r"
proof -
  obtain rl' num' where r: "r = (rl', num')" by fastforce
  have n: "unat (num + 1) = Suc (unat num)" by (rule unat_Suc [OF lt])
  have m: "unat num < unat mx" using lt by (simp add: word_less_nat_alt)
  have t: "take (Suc (unat num)) (rl[unat num := q]) = take (unat num) rl @ [q]"
    using m len by (simp add: take_Suc_conv_app_nth)
  have "unat num < unat num'" using post m by (simp add: fill_post_def r n)
  then show ?thesis
    using post m k by (auto simp: fill_post_def r n t take_Cons')
qed

lemma fill_spec:
  assumes "num \<le> mx" "unat mx \<le> length rl"
  shows "fill_post mx rl num (reported clk cfg ty es) (snd (blm_fill_reject_list clk cfg ty mx es rl num))"
  using assms
proof (induction es arbitrary: clk rl num)
  case Nil
  then show ?case by (simp add: fill_post_def word_le_nat_alt)
next
  case (Cons e0 es)
  let ?e = "blm_update_ap_info (clk 0) cfg None e0"
  consider (full) "num = mx" | (gone) "num \<noteq> mx" "reject_ap_type_zero ?e"
    | (other) "num \<noteq> mx" "\<not> reject_ap_type_zero ?e" "\<not> blm_is_bssid_of_type ty ?e"
    | (hit) "num \<noteq> mx" "\<not> reject_ap_type_zero ?e" "blm_is_bssid_of_type ty ?e" by blast
  then show ?case
  proof cases
    case full
    then show ?thesis by (simp add: fill_post_def)
  next
    case gone
    then show ?thesis using Cons by simp
  next
    case other
    then show ?thesis using Cons by (simp add: fill_Cons Let_def split: prod.split) (metis snd_conv)
  next
    case hit
    have lt: "num < mx" using hit Cons.prems by simp
    let ?rl = "rl[unat num := fill_entry (clk 1) cfg ty ?e (rl ! unat num)]"
    have eq: "snd (blm_fill_reject_list clk cfg ty mx (e0 # es) rl num) =
        snd (blm_fill_reject_list (later 2 clk) cfg ty mx es ?rl (num + 1))"
      by (subst fill_Cons [where clk = clk, OF hit(1,2)]) (simp add: hit(3) Let_def split: prod.split)
    have "num + 1 \<le> mx" using lt by (simp add: inc_le)
    then have "fill_post mx ?rl (num + 1) (reported (later 2 clk) cfg ty es)
        (snd (blm_fill_reject_list (later 2 clk) cfg ty mx es ?rl (num + 1)))"
      using Cons.IH Cons.prems(2) by simp
    from fill_post_step [OF lt Cons.prems(2) key_fill_entry this] show ?thesis
      using hit eq by (simp add: Let_def)
  qed
qed

lemma fill_full: "blm_fill_reject_list clk cfg ty mx es rl mx = (es, rl, mx)"
  by (cases es) simp_all

lemma fill_list_const:
  assumes "blm_fill_reject_list (\<lambda>_. now) cfg ty mx es rl num = (es', rl', num')" "num' \<noteq> mx"
  shows "es' = pruned now cfg es"
  using assms
proof (induction es arbitrary: rl num es')
  case (Cons e es)
  then show ?case
    by (auto simp: pruned_def Let_def split: if_splits prod.splits)
qed (simp add: pruned_def)

section \<open>All passes\<close>

definition full_report :: "qdf_time_t \<Rightarrow> blm_config \<Rightarrow> blm_reject_ap_type list \<Rightarrow> blm_reject_ap list \<Rightarrow> report_key list" where
  "full_report now cfg tys es =
     concat (map (\<lambda>ty. map (entry_key now cfg ty) (filter (blm_is_bssid_of_type ty) (pruned now cfg es))) tys)"

lemma passes_full:
  "fill_passes clk cfg tys (es, rl, PDEV_MAX_NUM_BSSID_DISALLOW_LIST) = (es, rl, PDEV_MAX_NUM_BSSID_DISALLOW_LIST)"
  by (induction tys arbitrary: clk) (simp_all add: fill_full)

lemma fill_post_trans:
  assumes A: "fill_post mx rl num A (rl1, num1)" and n: "unat num1 = unat num + length A" "unat num1 \<le> unat mx"
    and B: "fill_post mx rl1 num1 B r"
  shows "fill_post mx rl num (A @ B) r"
proof -
  obtain rl2 num2 where r: "r = (rl2, num2)" by fastforce
  have n2: "unat num2 = min (unat mx) (unat num1 + length B)" using B by (simp add: fill_post_def r)
  then have le: "unat num1 \<le> unat num2" using n by simp
  have "drop (unat num2) rl1 = drop (unat num2) rl"
    using A le unfolding fill_post_def prod.case by (metis drop_drop le_add_diff_inverse2)
  moreover have "map key (take (unat num2) rl2) = map key (take (unat num) rl) @ take (unat mx - unat num) (A @ B)"
    using A B n unfolding fill_post_def r prod.case by auto
  ultimately show ?thesis
    using A B n n2 unfolding fill_post_def r prod.case by auto
qed

lemma passes_spec:
  assumes "num \<le> PDEV_MAX_NUM_BSSID_DISALLOW_LIST" "unat PDEV_MAX_NUM_BSSID_DISALLOW_LIST \<le> length rl"
  shows "fill_post PDEV_MAX_NUM_BSSID_DISALLOW_LIST rl num (full_report now cfg tys es)
    (snd (fill_passes (\<lambda>_ _. now) cfg tys (es, rl, num)))"
  using assms
proof (induction tys arbitrary: es rl num)
  case Nil
  then show ?case by (simp add: fill_post_def full_report_def word_le_nat_alt)
next
  case (Cons ty tys)
  let ?mx = PDEV_MAX_NUM_BSSID_DISALLOW_LIST
  obtain es1 rl1 num1 where f: "blm_fill_reject_list (\<lambda>_. now) cfg ty ?mx es rl num = (es1, rl1, num1)"
    by (metis surj_pair)
  let ?A = "reported (\<lambda>_. now) cfg ty es" and ?B = "full_report now cfg tys es"
  have post: "fill_post ?mx rl num ?A (rl1, num1)"
    using fill_spec [OF Cons.prems, of "\<lambda>_. now" cfg ty es] f by simp
  have AB: "full_report now cfg (ty # tys) es = ?A @ ?B"
    by (simp add: full_report_def reported_const)
  show ?case
  proof (cases "num1 = ?mx")
    case True
    then show ?thesis using post f passes_full [of "\<lambda>_ _. now"] by (auto simp: AB fill_post_def)
  next
    case False
    have "es1 = pruned now cfg es" by (rule fill_list_const [OF f False])
    then have B: "full_report now cfg tys es1 = ?B" by (simp add: full_report_def pruned_idem)
    have n1: "unat num1 \<le> unat ?mx" "unat num1 = unat num + length ?A"
      using post False by (auto simp: fill_post_def min_def word_unat_eq_iff split: if_splits)
    have "fill_post ?mx rl1 num1 ?B (snd (fill_passes (\<lambda>_ _. now) cfg tys (es1, rl1, num1)))"
      using Cons.IH [of num1 rl1 es1] n1 post Cons.prems(2) B
      by (simp add: word_le_nat_alt fill_post_def split: prod.splits)
    from fill_post_trans [OF post n1(2,1) this] show ?thesis using f AB by simp
  qed
qed

end
