(* ===== verification/Blm_Userspace.thy ===== *)
theory Blm_Userspace
  imports Blm_Report
begin

text \<open>
  The addresses blacklisted by user space.  Unlike the other lists this one never
  expires: the contract \<open>userspace_keeping\<close> extends \<open>shrinking\<close> and holds for
  all walks but eviction and the explicit clearing.
\<close>

definition ub_set :: "blm_reject_ap list \<Rightarrow> qdf_mac_addr set" where
  "ub_set es = bssid ` {e \<in> set es. userspace_blacklist e}"

lemma ub_set_simps [simp]:
  "ub_set [] = {}"
  "ub_set (e # es) = (if userspace_blacklist e then insert (bssid e) (ub_set es) else ub_set es)"
  "ub_set (es @ es') = ub_set es \<union> ub_set es'"
  by (auto simp: ub_set_def)

lemma ub_set_mono: "set es \<subseteq> set es' \<Longrightarrow> ub_set es \<subseteq> ub_set es'"
  by (auto simp: ub_set_def)

lemma zero_update_not_ub: "reject_ap_type_zero (blm_update_ap_info now cfg s e) \<Longrightarrow> \<not> userspace_blacklist e"
  by (auto simp: update_zero_iff reject_ap_type_zero_def)

locale userspace_keeping = shrinking +
  assumes ub_kept: "ub_set (walk c es) = ub_set es"
begin

lemma ub_entry_kept:
  assumes "e \<in> set es" "userspace_blacklist e"
  shows "\<exists>e' \<in> set (walk c es). bssid e' = bssid e \<and> userspace_blacklist e'"
proof -
  have "bssid e \<in> ub_set (walk c es)" unfolding ub_kept using assms by (simp add: ub_set_def)
  then show ?thesis by (auto simp: ub_set_def)
qed

end

lemma fill_ub: "ub_set (fst (blm_fill_reject_list clk cfg ty mx es rl num)) = ub_set es"
proof (induction clk cfg ty mx es rl num rule: blm_fill_reject_list.induct)
  case (2 clk cfg ty mx e0 es rl num)
  then show ?case
    by (auto simp: Let_def dest: zero_update_not_ub split: prod.split if_splits)
qed simp

interpretation fill_ub: userspace_keeping "\<lambda>(clk, cfg, ty, mx, rl, num) es. fst (blm_fill_reject_list clk cfg ty mx es rl num)"
  by unfold_locales (auto simp: fill_ub)

lemma fill_passes_ub: "ub_set (fst (fill_passes clk cfg tys (es, rl, num))) = ub_set es"
proof (induction tys arbitrary: clk es rl num)
  case (Cons ty tys)
  obtain es' rl' num' where f: "blm_fill_reject_list (clk 0) cfg ty PDEV_MAX_NUM_BSSID_DISALLOW_LIST es rl num = (es', rl', num')"
    by (metis surj_pair)
  then have "ub_set es' = ub_set es"
    using fill_ub [of "clk 0" cfg ty PDEV_MAX_NUM_BSSID_DISALLOW_LIST es rl num] by simp
  then show ?case using Cons.IH f by simp
qed simp

interpretation report_ub: userspace_keeping "\<lambda>(env, cfg, st) es. left_by_send env cfg st es"
proof
  fix c :: "blm_env \<times> blm_config \<times> blm_state" and es
  show "ub_set ((case c of (env, cfg, st) \<Rightarrow> left_by_send env cfg st) es) = ub_set es"
    by (cases c) (simp add: left_by_send_def fill_passes_ub)
qed

lemma action_ub_kept: "ub_set (fst (action_walk now cfg s es)) = ub_set es"
proof (induction es)
  case (Cons e es)
  obtain es' a where "action_walk now cfg s es = (es', a)" by fastforce
  then show ?case
    using Cons zero_update_not_ub [of now cfg "Some s" e]
    by (simp add: blm_prune_old_entries_and_get_action_def Let_def)
qed simp

interpretation query_ub: userspace_keeping "\<lambda>(now, cfg, s) es. fst (action_walk now cfg s es)"
  by unfold_locales (auto simp: action_ub_kept)

lemma add_walk_ub:
  "ub_set (fst (add_walk clk mclk cfg info es)) =
     ub_set es \<union> (if snd (add_walk clk mclk cfg info es) \<and> info_reject_ap_type info = USERSPACE_BLACKLIST_TYPE
                  then {info_bssid info} else {})"
proof (induction es arbitrary: clk)
  case (Cons e es)
  obtain es' f where w: "add_walk (later 1 clk) mclk cfg info es = (es', f)" by fastforce
  then show ?case using Cons.IH [of "later 1 clk"]
    by (auto simp: Let_def modify_bssid modify_userspace_blacklist dest: zero_update_not_ub)
qed simp

lemma delete_nth_ub: "ub_set (take i es @ drop (Suc i) es) \<subseteq> ub_set es"
  by (rule ub_set_mono) (auto dest: in_set_takeD in_set_dropD)

lemma try_delete_types_ub: "ub_set (snd (try_delete_types clk cfg tys es)) \<subseteq> ub_set es"
proof (induction tys arbitrary: clk es)
  case (Cons ty tys)
  obtain status es' where d: "blm_try_delete_bssid_in_list (clk 0) cfg ty es = (status, es')" by fastforce
  have "ub_set es' \<subseteq> ub_set es"
    using d delete_nth_ub by (force simp: blm_try_delete_bssid_in_list_def split: option.splits)
  then show ?case using Cons.IH [of "later 1 clk" es'] d by auto
qed simp

lemma clear_ub: "ub_set (clear_userspace_walk es) = {}"
  by (induction es) (auto simp: IS_AP_IN_USERSPACE_BLACKLIST_ONLY_def)

text \<open>A blacklisted address is always removed from the candidates.\<close>

lemma action_ub:
  "distinct (map bssid es) \<Longrightarrow> scan_bssid s \<in> ub_set es \<Longrightarrow> snd (action_walk now cfg s es) = CM_BLM_FORCE_REMOVE"
proof (induction es)
  case (Cons e es)
  show ?case
  proof (cases "bssid e = scan_bssid s")
    case True
    then have "scan_bssid s \<notin> ub_set es" using Cons.prems by (auto simp: ub_set_def)
    then have "userspace_blacklist e" using Cons.prems by (auto split: if_splits)
    then show ?thesis using True
      by (auto simp: blm_prune_old_entries_and_get_action_def Let_def BLM_IS_AP_IN_BLACKLIST_def
          dest: zero_update_not_ub)
  next
    case False
    then show ?thesis using Cons by (auto split: if_splits prod.splits)
  qed
qed simp

section \<open>Adding\<close>

definition ub_of :: "blm_state \<Rightarrow> qdf_mac_addr set" where
  "ub_of st = (case pdev_obj st of None \<Rightarrow> {} | Some ctx \<Rightarrow> ub_set (reject_ap_list ctx))"

definition entries :: "blm_state \<Rightarrow> nat" where
  "entries st = (case pdev_obj st of None \<Rightarrow> 0 | Some ctx \<Rightarrow> length (reject_ap_list ctx))"

lemma send_ub_of: "ub_of (blm_send_reject_ap_list_to_fw env cfg st) = ub_of st"
  using report_ub.ub_kept [of "(env, cfg, st)"] by (auto simp: ub_of_def send_pdev_obj split: option.split)

lemma send_entries: "entries (blm_send_reject_ap_list_to_fw env cfg st) \<le> entries st"
  using report.length_le [of "(env, cfg, st)"] by (auto simp: entries_def send_pdev_obj split: option.split)

lemma insert_new_ub:
  assumes "blm_insert_new env cfg info es st = (QDF_STATUS_SUCCESS, st')" "pdev_obj st = Some ctx"
    and "info_reject_ap_type info = USERSPACE_BLACKLIST_TYPE"
  shows "ub_of st' = insert (info_bssid info) (ub_set es) \<and> entries st' \<le> Suc (length es)"
proof -
  let ?new = "blm_modify_entry (env_modify env 0) (env_modify env 1) cfg info zero_reject_ap"
  have st': "st' = blm_send_reject_ap_list_to_fw env cfg (set_list (es @ [?new]) st)"
    using assms by (simp add: blm_insert_new_def split: if_splits)
  have "entries st' \<le> Suc (length es)"
    unfolding st' by (rule order_trans [OF send_entries]) (simp add: entries_def assms(2))
  moreover have "ub_of st' = ub_set (es @ [?new])"
    unfolding st' send_ub_of by (simp add: ub_of_def assms(2))
  ultimately show ?thesis
    using assms(3) by (simp add: modify_userspace_blacklist modify_new_bssid valid_type_def)
qed

lemma add_ub:
  assumes "blm_add_bssid_to_reject_list env info st = (QDF_STATUS_SUCCESS, st')"
    and ty: "info_reject_ap_type info = USERSPACE_BLACKLIST_TYPE"
  shows "info_bssid info \<in> ub_of st' \<and> ub_of st' \<subseteq> insert (info_bssid info) (ub_of st) \<and>
    (entries st < MAX_BAD_AP_LIST_SIZE \<longrightarrow>
       ub_of st' = insert (info_bssid info) (ub_of st) \<and> entries st' \<le> Suc (entries st))"
proof -
  obtain ctx ps where st: "pdev_obj st = Some ctx" "psoc_obj st = Some ps"
    using assms by (auto simp: blm_add_bssid_to_reject_list_def split: option.splits)
  obtain es found where w: "add_walk (env_walk env) (env_modify env) (blm_cfg ps) info (reject_ap_list ctx) = (es, found)"
    by fastforce
  have ub: "ub_set es = ub_of st \<union> (if found then {info_bssid info} else {})"
    using add_walk_ub [of "env_walk env" "env_modify env" "blm_cfg ps" info "reject_ap_list ctx"] w ty st
    by (simp add: ub_of_def)
  have len: "length es \<le> entries st"
    using add.length_le [of "(env_walk env, env_modify env, blm_cfg ps, info)" "reject_ap_list ctx"] w st
    by (simp add: entries_def)
  obtain status es' where r: "blm_remove_lowest_delta_entry (env_evict env) (blm_cfg ps) es = (status, es')" by fastforce
  have ub': "ub_set es' \<subseteq> ub_set es"
    using try_delete_types_ub [of "env_evict env" "blm_cfg ps" removal_order es] r
    by (simp add: blm_remove_lowest_delta_entry_def)
  consider (found) "found" "st' = blm_send_reject_ap_list_to_fw env (blm_cfg ps) (set_list es st)"
    | (full) "\<not> found" "length es = MAX_BAD_AP_LIST_SIZE" "blm_insert_new env (blm_cfg ps) info es' st = (QDF_STATUS_SUCCESS, st')"
    | (room) "\<not> found" "length es \<noteq> MAX_BAD_AP_LIST_SIZE" "blm_insert_new env (blm_cfg ps) info es st = (QDF_STATUS_SUCCESS, st')"
    using assms(1) by (auto simp: blm_add_bssid_to_reject_list_def st w r Let_def split: if_splits)
  then show ?thesis
  proof cases
    case found
    have "entries st' \<le> length es"
      unfolding found(2) by (rule order_trans [OF send_entries]) (simp add: entries_def st)
    moreover have "ub_of st' = ub_set es" unfolding found(2) send_ub_of by (simp add: ub_of_def st)
    ultimately show ?thesis using ub found(1) len by simp
  next
    case full
    then show ?thesis using insert_new_ub [OF full(3) st(1) ty] ub ub' len by auto
  next
    case room
    then show ?thesis using insert_new_ub [OF room(3) st(1) ty] ub len by auto
  qed
qed

lemma loop_ub:
  assumes "add_userspace_loop envs stack bs st = (QDF_STATUS_SUCCESS, st')"
  shows "ub_of st' \<subseteq> set bs \<union> ub_of st \<and>
    (entries st + length bs \<le> MAX_BAD_AP_LIST_SIZE \<longrightarrow> ub_of st' = set bs \<union> ub_of st)"
  using assms
proof (induction bs arbitrary: envs st)
  case (Cons b bs)
  obtain status st1 where a: "blm_add_bssid_to_reject_list (envs 0) (userspace_request stack b) st = (status, st1)"
    by fastforce
  then have s: "status = QDF_STATUS_SUCCESS" and l: "add_userspace_loop (later 1 envs) stack bs st1 = (QDF_STATUS_SUCCESS, st')"
    using Cons.prems by (auto split: if_splits)
  have "b \<in> ub_of st1 \<and> ub_of st1 \<subseteq> insert b (ub_of st) \<and>
      (entries st < MAX_BAD_AP_LIST_SIZE \<longrightarrow> ub_of st1 = insert b (ub_of st) \<and> entries st1 \<le> Suc (entries st))"
    using add_ub [OF a [unfolded s]] by (simp add: userspace_request_def)
  then show ?case using Cons.IH [OF l] by auto
qed simp

end
