(* ===== verification/Blm_Evict.thy ===== *)
theory Blm_Evict
  imports Blm_Userspace
begin

text \<open>
  Which entry gives way when the list is full, and what the other operations do and do not
  report to the firmware: the lemmas behind the properties of \<open>Blm_Props\<close>.
\<close>

section \<open>Eviction\<close>

lemma pick_Some_keeps: "fst acc \<noteq> None \<Longrightarrow> fst (pick better i ds acc) \<noteq> None"
  by (induction ds arbitrary: i acc) (auto split: option.split)

lemma pick_None:
  "fst (pick better i ds (None, d)) = None \<Longrightarrow> Some y \<in> set ds \<Longrightarrow> \<not> better y d"
proof (induction ds arbitrary: i)
  case (Cons x xs)
  then show ?case
    using pick_Some_keeps [of "(Some i, y)" better "Suc i" xs]
    by (auto split: option.splits if_splits) (metis fst_conv option.distinct(1) pick_Some_keeps)+
qed simp

lemma deltas_mem:
  "j < length es \<Longrightarrow> blm_is_bssid_present_only_in_list_type ty (es ! j) \<Longrightarrow>
     Some (blm_get_delta_of_bssid (clk j) ty cfg (es ! j)) \<in> set (deltas clk cfg ty 0 es)"
  by (auto simp: in_set_conv_nth intro!: exI [of _ j])

lemma deltas_memD:
  "Some y \<in> set (deltas clk cfg ty 0 es) \<Longrightarrow>
     \<exists>j < length es. blm_is_bssid_present_only_in_list_type ty (es ! j) \<and>
       y = blm_get_delta_of_bssid (clk j) ty cfg (es ! j)"
  by (auto simp: in_set_conv_nth split: if_splits)

text \<open>A class in which nothing was chosen has no entry, or only entries of age zero.\<close>

lemma try_delete_fails:
  assumes "fst (blm_try_delete_bssid_in_list clk cfg ty es) \<noteq> QDF_STATUS_SUCCESS" "j < length es"
    and "blm_is_bssid_present_only_in_list_type ty (es ! j)"
  shows "ty \<in> {DRIVER_MONITOR_TYPE, USERSPACE_BLACKLIST_TYPE} \<and> blm_get_delta_of_bssid (clk j) ty cfg (es ! j) = 0"
proof -
  have "fst (pick (blm_is_oldest_entry ty) 0 (deltas clk cfg ty 0 es) (None, 0)) = None"
    using assms(1) by (simp add: blm_try_delete_bssid_in_list_def oldest_scan_pick split: option.splits)
  from pick_None [OF this deltas_mem [OF assms(2,3)]]
  have "\<not> blm_is_oldest_entry ty (blm_get_delta_of_bssid (clk j) ty cfg (es ! j)) 0" .
  then show ?thesis
    using assms(3)
    by (auto simp: blm_is_oldest_entry_def blm_is_bssid_present_only_in_list_type_def word_gt_0
        split: blm_reject_ap_type.splits)
qed

lemma try_delete_succeeds:
  assumes "blm_try_delete_bssid_in_list clk cfg ty es = (QDF_STATUS_SUCCESS, es')"
  shows "\<exists>k < length es. blm_is_bssid_present_only_in_list_type ty (es ! k) \<and> es' = take k es @ drop (Suc k) es"
  using assms by (auto simp: blm_try_delete_bssid_in_list_def dest!: scan_index split: option.splits)

lemma try_delete_keeps:
  "blm_try_delete_bssid_in_list clk cfg ty es = (status, es') \<Longrightarrow> status \<noteq> QDF_STATUS_SUCCESS \<Longrightarrow> es' = es"
  by (auto simp: blm_try_delete_bssid_in_list_def split: option.splits)

lemma try_delete_types_spec:
  assumes "try_delete_types clk cfg tys es = (QDF_STATUS_SUCCESS, es')"
  shows "\<exists>n k. n < length tys \<and> k < length es \<and> blm_is_bssid_present_only_in_list_type (tys ! n) (es ! k) \<and>
    es' = take k es @ drop (Suc k) es \<and>
    (\<forall>m < n. \<forall>j < length es. blm_is_bssid_present_only_in_list_type (tys ! m) (es ! j) \<longrightarrow>
       tys ! m \<in> {DRIVER_MONITOR_TYPE, USERSPACE_BLACKLIST_TYPE} \<and>
       blm_get_delta_of_bssid (clk m j) (tys ! m) cfg (es ! j) = 0)"
  using assms
proof (induction tys arbitrary: clk)
  case (Cons ty tys)
  obtain status es1 where d: "blm_try_delete_bssid_in_list (clk 0) cfg ty es = (status, es1)" by fastforce
  show ?case
  proof (cases "status = QDF_STATUS_SUCCESS")
    case True
    then obtain k where "k < length es" "blm_is_bssid_present_only_in_list_type ty (es ! k)"
        "es' = take k es @ drop (Suc k) es"
      using try_delete_succeeds [of "clk 0" cfg ty es es1] d Cons.prems by auto
    then show ?thesis by (intro exI [of _ 0] exI [of _ k]) simp
  next
    case False
    then have "try_delete_types (later 1 clk) cfg tys es = (QDF_STATUS_SUCCESS, es')"
      using Cons.prems d try_delete_keeps [OF d False] by simp
    from Cons.IH [OF this] obtain n k where nk: "n < length tys" "k < length es"
        "blm_is_bssid_present_only_in_list_type (tys ! n) (es ! k)" "es' = take k es @ drop (Suc k) es"
      and rest: "\<And>m j. m < n \<Longrightarrow> j < length es \<Longrightarrow> blm_is_bssid_present_only_in_list_type (tys ! m) (es ! j) \<Longrightarrow>
        tys ! m \<in> {DRIVER_MONITOR_TYPE, USERSPACE_BLACKLIST_TYPE} \<and>
        blm_get_delta_of_bssid (clk (Suc m) j) (tys ! m) cfg (es ! j) = 0"
      by (auto simp: later_def)
    have "(ty # tys) ! m \<in> {DRIVER_MONITOR_TYPE, USERSPACE_BLACKLIST_TYPE} \<and>
        blm_get_delta_of_bssid (clk m j) ((ty # tys) ! m) cfg (es ! j) = 0"
      if "m < Suc n" "j < length es" "blm_is_bssid_present_only_in_list_type ((ty # tys) ! m) (es ! j)" for m j
      using that try_delete_fails [of "clk 0" cfg ty es j] d False rest [of "m - 1" j] by (cases m) auto
    then show ?thesis using nk by (intro exI [of _ "Suc n"] exI [of _ k]) auto
  qed
qed simp

text \<open>Among the entries of a class the search finds the best one.\<close>

lemma pick_best_type:
  assumes "ty \<noteq> REJECT_REASON_UNKNOWN" "\<And>y. Some y \<in> set ds \<Longrightarrow> y \<noteq> 0" "Some y0 \<in> set ds"
  shows "\<exists>k x. pick (blm_is_oldest_entry ty) i ds (None, 0) = (Some k, x) \<and>
    (\<forall>y. Some y \<in> set ds \<longrightarrow> \<not> blm_is_oldest_entry ty y x)"
proof (cases ty)
  case USERSPACE_AVOID_TYPE
  then show ?thesis using userspace_avoid_order.pick_best [OF assms(2,3)] by simp
next
  case USERSPACE_BLACKLIST_TYPE
  then show ?thesis using userspace_blacklist_order.pick_best [OF assms(2,3)] by simp
next
  case DRIVER_AVOID_TYPE
  then show ?thesis using driver_avoid_order.pick_best [OF assms(2,3)] by simp
next
  case DRIVER_BLACKLIST_TYPE
  then show ?thesis using driver_blacklist_order.pick_best [OF assms(2,3)] by simp
next
  case DRIVER_RSSI_REJECT_TYPE
  then show ?thesis using rssi_order.pick_best [OF assms(2,3)] by simp
next
  case DRIVER_MONITOR_TYPE
  then show ?thesis using monitor_order.pick_best [OF assms(2,3)] by simp
qed (use assms(1) in simp)

lemma try_delete_best:
  assumes nz: "\<And>j. j < length es \<Longrightarrow> blm_is_bssid_present_only_in_list_type ty (es ! j) \<Longrightarrow>
      blm_get_delta_of_bssid (clk j) ty cfg (es ! j) \<noteq> 0"
    and ex: "j0 < length es" "blm_is_bssid_present_only_in_list_type ty (es ! j0)"
  shows "\<exists>k < length es. blm_is_bssid_present_only_in_list_type ty (es ! k) \<and>
    blm_try_delete_bssid_in_list clk cfg ty es = (QDF_STATUS_SUCCESS, take k es @ drop (Suc k) es) \<and>
    (\<forall>j < length es. blm_is_bssid_present_only_in_list_type ty (es ! j) \<longrightarrow>
       \<not> blm_is_oldest_entry ty (blm_get_delta_of_bssid (clk j) ty cfg (es ! j))
           (blm_get_delta_of_bssid (clk k) ty cfg (es ! k)))"
proof -
  have ty: "ty \<noteq> REJECT_REASON_UNKNOWN"
    using ex(2) by (auto simp: blm_is_bssid_present_only_in_list_type_def)
  have nz': "y \<noteq> 0" if "Some y \<in> set (deltas clk cfg ty 0 es)" for y
  proof -
    from deltas_memD [OF that] obtain j where j: "j < length es"
      "blm_is_bssid_present_only_in_list_type ty (es ! j)" "y = blm_get_delta_of_bssid (clk j) ty cfg (es ! j)"
      by (elim exE conjE)
    show ?thesis unfolding j(3) by (rule nz [OF j(1,2)])
  qed
  obtain k x where k: "pick (blm_is_oldest_entry ty) 0 (deltas clk cfg ty 0 es) (None, 0) = (Some k, x)"
    and best: "\<And>y. Some y \<in> set (deltas clk cfg ty 0 es) \<Longrightarrow> \<not> blm_is_oldest_entry ty y x"
    using pick_best_type [OF ty nz' deltas_mem [OF ex]] by blast
  have ki: "k < length es" "blm_is_bssid_present_only_in_list_type ty (es ! k)"
      "x = blm_get_delta_of_bssid (clk k) ty cfg (es ! k)"
    using pick_index [OF k] by (auto split: if_splits)
  then show ?thesis
    using k best deltas_mem by (auto simp: blm_try_delete_bssid_in_list_def oldest_scan_pick)
qed

section \<open>What the firmware sees\<close>

abbreviation suspended :: "blm_state \<Rightarrow> bool" where
  "suspended st \<equiv> snd (ucfg_blm_psoc_get_suspended st)"

lemma suspended_def: "suspended st \<longleftrightarrow> (case psoc_obj st of None \<Rightarrow> True | Some ps \<Rightarrow> is_suspended ps)"
  by (simp add: ucfg_blm_psoc_get_suspended_def split: option.split)

text \<open>Nothing handed over, and still suspended.\<close>

definition quiet :: "blm_state \<Rightarrow> blm_state \<Rightarrow> bool" where
  "quiet st st' \<longleftrightarrow> fw_log st' = fw_log st \<and> suspended st'"

lemma quiet_refl [simp]: "quiet st st \<longleftrightarrow> suspended st"
  by (simp add: quiet_def)

lemma quiet_trans: "quiet st st1 \<Longrightarrow> quiet st1 st2 \<Longrightarrow> quiet st st2"
  by (simp add: quiet_def)

lemma quiet_set_list [simp]: "quiet st (set_list es st') \<longleftrightarrow> quiet st st'"
  by (simp add: quiet_def ucfg_blm_psoc_get_suspended_def)

lemma quiet_send: "quiet st st' \<Longrightarrow> quiet st (blm_send_reject_ap_list_to_fw env cfg st')"
  by (auto simp: quiet_def suspended_def blm_send_reject_ap_list_to_fw_def
      blm_store_pdevid_in_blm_psocpriv_def split: option.splits)

lemma quiet_insert: "quiet st st' \<Longrightarrow> quiet st (snd (blm_insert_new env cfg info es st'))"
  by (simp add: blm_insert_new_def quiet_send)

lemma quiet_add: "quiet st st' \<Longrightarrow> quiet st (snd (blm_add_bssid_to_reject_list env info st'))"
  by (auto simp: blm_add_bssid_to_reject_list_def Let_def quiet_send quiet_insert split: option.split prod.split)

lemma quiet_loop: "quiet st st' \<Longrightarrow> quiet st (snd (add_userspace_loop envs stack bs st'))"
proof (induction bs arbitrary: envs st')
  case (Cons b bs)
  obtain status st1 where a: "blm_add_bssid_to_reject_list (envs 0) (userspace_request stack b) st' = (status, st1)"
    by fastforce
  then have "quiet st st1" using quiet_add [OF Cons.prems, of "envs 0" "userspace_request stack b"] by simp
  then show ?case using Cons.IH a by simp
qed simp

lemma quiet_clear: "quiet st st' \<Longrightarrow> quiet st (snd (blm_clear_userspace_blacklist_info lock st'))"
  by (simp add: blm_clear_userspace_blacklist_info_def split: option.split)

lemma quiet_userspace: "quiet st st' \<Longrightarrow> quiet st (snd (blm_add_userspace_black_list lock env envs stack bs n st'))"
  by (simp add: blm_add_userspace_black_list_def Let_def quiet_send quiet_loop quiet_clear split: option.split)

lemma quiet_action: "quiet st st' \<Longrightarrow> quiet st (snd (blm_action_on_bssid env s st'))"
  by (simp add: blm_action_on_bssid_def split: option.split prod.split)

lemma quiet_get_list: "quiet st st' \<Longrightarrow> quiet st (snd (snd (blm_get_bssid_reject_list env mx ty rl st')))"
  by (simp add: blm_get_bssid_reject_list_def split: option.split prod.split)

lemma quiet_connect: "quiet st st' \<Longrightarrow> quiet st (blm_update_bssid_connect_params env b c st')"
  by (simp add: blm_update_bssid_connect_params_def Let_def quiet_send
      split: option.split prod.split blm_connection_state.split)

lemma quiet_wifi_off: "quiet st st' \<Longrightarrow> quiet st (ucfg_blm_wifi_off env st')"
  by (simp add: ucfg_blm_wifi_off_def blm_flush_reject_ap_list_def quiet_send split: option.split)

lemmas quiet_ops = quiet_add quiet_userspace quiet_action quiet_get_list quiet_connect quiet_wifi_off

text \<open>The calls that end a suspension.\<close>

fun wakes :: "blm_call \<Rightarrow> bool" where
  "wakes (Call_resume found env) = True"
| "wakes (Call_psoc_created mem attach) = True"
| "wakes _ = False"

lemma quiet_call:
  assumes "quiet st st'" "\<not> wakes c"
  shows "quiet st (blm_call_step c st')"
proof (cases c)
  case (Call_pdev_created m x a)
  then show ?thesis using assms
    by (simp add: blm_pdev_object_created_notification_def quiet_def ucfg_blm_psoc_get_suspended_def)
next
  case (Call_pdev_destroyed l)
  then show ?thesis using assms
    by (auto simp: blm_pdev_object_destroyed_notification_def blm_flush_reject_ap_list_def quiet_def
        suspended_def split: option.splits)
next
  case Call_psoc_destroyed
  then show ?thesis using assms
    by (simp add: blm_psoc_object_destroyed_notification_def quiet_def ucfg_blm_psoc_get_suspended_def split: option.split)
next
  case (Call_psoc_open a b r t d)
  then show ?thesis using assms
    by (auto simp: blm_cfg_psoc_open_def quiet_def suspended_def split: option.splits)
next
  case Call_suspend
  then show ?thesis using assms
    by (auto simp: ucfg_blm_suspend_handler_def ucfg_blm_psoc_set_suspended_def quiet_def suspended_def split: option.splits)
qed (use assms in \<open>simp_all add: quiet_ops\<close>)

section \<open>The psoc object\<close>

lemma send_keeps_psoc: "psoc_obj (blm_send_reject_ap_list_to_fw env cfg st) = None \<longleftrightarrow> psoc_obj st = None"
  by (auto simp: blm_send_reject_ap_list_to_fw_def blm_store_pdevid_in_blm_psocpriv_def
      split: option.splits prod.split)

lemma add_keeps_psoc:
  assumes "blm_add_bssid_to_reject_list env info st = (QDF_STATUS_SUCCESS, st')"
  shows "\<exists>ps. psoc_obj st' = Some ps"
proof -
  have "psoc_obj st \<noteq> None" using assms by (auto simp: blm_add_bssid_to_reject_list_def split: option.splits)
  then have "psoc_obj st' \<noteq> None"
    using assms send_keeps_psoc [of _ _ "set_list es st" for es]
    by (auto simp: blm_add_bssid_to_reject_list_def blm_insert_new_def Let_def
        split: option.splits prod.splits if_splits)
  then show ?thesis by simp
qed

section \<open>Calls that keep the blacklist of user space\<close>

text \<open>
  Only four kinds of calls can take an address off this list: a new list of user space, switching
  Wi-Fi off, destroying or creating the objects anew, and adding an access point to a full list.
\<close>

fun keeps_userspace :: "blm_call \<Rightarrow> blm_state \<Rightarrow> bool" where
  "keeps_userspace (Call_add env info) st \<longleftrightarrow> entries st < MAX_BAD_AP_LIST_SIZE"
| "keeps_userspace (Call_pdev_created _ _ _) st = False"
| "keeps_userspace (Call_pdev_destroyed _) st = False"
| "keeps_userspace (Call_psoc_created _ _) st = False"
| "keeps_userspace Call_psoc_destroyed st = False"
| "keeps_userspace (Call_userspace_black_list _ _ _ _ _ _) st = False"
| "keeps_userspace (Call_wifi_off _) st = False"
| "keeps_userspace _ st = True"

fun all_keep_userspace :: "blm_call list \<Rightarrow> blm_state \<Rightarrow> bool" where
  "all_keep_userspace [] st = True"
| "all_keep_userspace (c # cs) st \<longleftrightarrow> keeps_userspace c st \<and> all_keep_userspace cs (blm_call_step c st)"

lemma set_list_ub_of: "ub_of (set_list es st) = (if pdev_obj st = None then {} else ub_set es)"
  by (auto simp: ub_of_def split: option.split)

lemma disconnect_ub:
  "userspace_blacklist (fst (blm_disconnect_entry t t2 cfg e)) = userspace_blacklist e"
  "snd (blm_disconnect_entry t t2 cfg e) \<Longrightarrow> \<not> userspace_blacklist e"
  by (auto simp: blm_disconnect_entry_def Let_def reject_ap_type_zero_def split: if_splits)

lemma ub_set_update:
  "i < length es \<Longrightarrow> bssid e = bssid (es ! i) \<Longrightarrow> userspace_blacklist e = userspace_blacklist (es ! i) \<Longrightarrow>
   ub_set (es[i := e]) = ub_set es"
  by (induction es arbitrary: i) (auto split: nat.splits)

lemma ub_set_delete:
  "i < length es \<Longrightarrow> \<not> userspace_blacklist (es ! i) \<Longrightarrow> ub_set (take i es) \<union> ub_set (drop (Suc i) es) = ub_set es"
proof (induction es arbitrary: i)
  case (Cons e es)
  then show ?case by (cases i) auto
qed simp

lemma connect_ub_of: "ub_of (blm_update_bssid_connect_params env b c st) = ub_of st"
proof (cases "\<exists>ctx ps i. pdev_obj st = Some ctx \<and> psoc_obj st = Some ps \<and>
    find_index_from (\<lambda>e. bssid e = b) 0 (reject_ap_list ctx) = Some i")
  case True
  then obtain ctx ps i where st: "pdev_obj st = Some ctx" "psoc_obj st = Some ps"
    and i: "find_index_from (\<lambda>e. bssid e = b) 0 (reject_ap_list ctx) = Some i" by blast
  have i': "i < length (reject_ap_list ctx)" using i by (simp add: find_index_from_0_Some)
  have ub: "ub_of st = ub_set (reject_ap_list ctx)" by (simp add: ub_of_def st)
  show ?thesis
    using disconnect_ub [of "env_walk env 0" "env_walk env 1" "blm_cfg ps" "reject_ap_list ctx ! i"]
      disconnect_bssid [of "env_walk env 0" "env_walk env 1" "blm_cfg ps" "reject_ap_list ctx ! i"] i'
    by (auto simp: blm_update_bssid_connect_params_def st i Let_def ub set_list_ub_of send_ub_of ub_set_update
        ub_set_delete split: blm_connection_state.split prod.split)
qed (auto simp: blm_update_bssid_connect_params_def Let_def split: option.split)

lemma add_keeps_ub:
  assumes "entries st < MAX_BAD_AP_LIST_SIZE"
  shows "ub_of st \<subseteq> ub_of (snd (blm_add_bssid_to_reject_list env info st))"
proof (cases "\<exists>ctx ps. pdev_obj st = Some ctx \<and> psoc_obj st = Some ps")
  case True
  then obtain ctx ps where st: "pdev_obj st = Some ctx" "psoc_obj st = Some ps" by blast
  obtain es found where w: "add_walk (env_walk env) (env_modify env) (blm_cfg ps) info (reject_ap_list ctx) = (es, found)"
    by fastforce
  have "ub_of st \<subseteq> ub_set es"
    using add_walk_ub [of "env_walk env" "env_modify env" "blm_cfg ps" info "reject_ap_list ctx"] w st
    by (auto simp: ub_of_def)
  moreover have "length es < MAX_BAD_AP_LIST_SIZE"
    using add.length_le [of "(env_walk env, env_modify env, blm_cfg ps, info)" "reject_ap_list ctx"] w st assms
    by (simp add: entries_def)
  ultimately show ?thesis
    by (auto simp: blm_add_bssid_to_reject_list_def st w Let_def blm_insert_new_def send_ub_of set_list_ub_of)
qed (auto simp: blm_add_bssid_to_reject_list_def split: option.split)

lemma call_keeps_ub:
  assumes "keeps_userspace c st" "b \<in> ub_of st"
  shows "b \<in> ub_of (blm_call_step c st)"
proof (cases c)
  case (Call_add env info)
  then show ?thesis using assms add_keeps_ub [of st env info] by auto
next
  case (Call_action env s)
  have "ub_of (snd (blm_action_on_bssid env s st)) = ub_of st"
    by (auto simp: blm_action_on_bssid_def set_list_ub_of ub_of_def split: option.split prod.split)
      (metis action_ub_kept fst_conv)+
  then show ?thesis using Call_action assms by simp
next
  case (Call_get_list env mx ty rl)
  have "ub_of (snd (snd (blm_get_bssid_reject_list env mx ty rl st))) = ub_of st"
    by (auto simp: blm_get_bssid_reject_list_def set_list_ub_of ub_of_def split: option.split prod.split)
      (metis fill_ub fst_conv)+
  then show ?thesis using Call_get_list assms by simp
next
  case (Call_resume found env)
  have "ub_of (snd (ucfg_blm_psoc_set_suspended False st)) = ub_of st"
    by (auto simp: ucfg_blm_psoc_set_suspended_def ub_of_def split: option.split)
  then show ?thesis
    using Call_resume assms
    by (auto simp: ucfg_blm_resume_handler_def blm_update_reject_ap_list_to_fw_def send_ub_of split: option.split)
next
  case Call_suspend
  have "ub_of (snd (ucfg_blm_psoc_set_suspended True st)) = ub_of st"
    by (auto simp: ucfg_blm_psoc_set_suspended_def ub_of_def split: option.split)
  then show ?thesis using Call_suspend assms by (auto simp: ucfg_blm_suspend_handler_def)
next
  case (Call_psoc_open a b r t d)
  then show ?thesis using assms by (auto simp: blm_cfg_psoc_open_def ub_of_def split: option.splits)
qed (use assms in \<open>auto simp: connect_ub_of\<close>)

lemma call_keeps_psoc:
  assumes "keeps_userspace c st" "psoc_obj st \<noteq> None"
  shows "psoc_obj (blm_call_step c st) \<noteq> None"
  using assms
  by (cases c)
    (auto simp: blm_add_bssid_to_reject_list_def blm_insert_new_def blm_action_on_bssid_def
      blm_get_bssid_reject_list_def blm_update_bssid_connect_params_def ucfg_blm_resume_handler_def
      ucfg_blm_suspend_handler_def blm_update_reject_ap_list_to_fw_def ucfg_blm_psoc_set_suspended_def
      blm_cfg_psoc_open_def send_keeps_psoc Let_def simp del: not_None_eq
      split: option.splits prod.splits blm_connection_state.splits)

lemma calls_keep_ub:
  assumes "all_keep_userspace cs st" "list_all valid_call cs" "blm_state_ok st" "b \<in> ub_of st" "psoc_obj st \<noteq> None"
  shows "blm_state_ok (fold blm_call_step cs st) \<and> b \<in> ub_of (fold blm_call_step cs st) \<and>
    psoc_obj (fold blm_call_step cs st) \<noteq> None"
  using assms by (induction cs arbitrary: st) (simp_all add: call_step_ok call_keeps_ub call_keeps_psoc del: not_None_eq)

end
