(* ===== verification/Blm_Props.thy ===== *)
theory Blm_Props
  imports Blm_Evict
begin

text \<open>
  The properties of the blacklist manager.  The witnesses run the model on a small list with
  a clock that stands still.
\<close>

section \<open>Data for the witnesses\<close>

definition demo_env :: "qdf_time_t \<Rightarrow> blm_env" where
  "demo_env now = \<lparr>env_lock = QDF_STATUS_SUCCESS, env_nested_lock = QDF_STATUS_SUCCESS, env_entry_mem = True,
     env_list_mem = True, env_wmi = Some QDF_STATUS_SUCCESS,
     qdf_is_macaddr_zero = (\<lambda>b. b = zero_mac), qdf_is_macaddr_group = (\<lambda>b. bit (hd b) 0),
     env_walk = (\<lambda>_. now), env_evict = (\<lambda>_ _. now), env_modify = (\<lambda>_. now), env_send = (\<lambda>_ _. now)\<rparr>"

definition demo_cfg :: blm_config where
  "demo_cfg = blm_init_cfg 5 10 30 3 5"

definition demo_mac :: "u8 \<Rightarrow> qdf_mac_addr" where
  "demo_mac x = [2, 0, 0, 0, 0, x]"

definition demo_entry :: "u8 \<Rightarrow> blm_reject_ap" where
  "demo_entry x = zero_reject_ap\<lparr>bssid := demo_mac x\<rparr>"

definition demo_state :: "bool \<Rightarrow> blm_reject_ap list \<Rightarrow> blm_state" where
  "demo_state susp es = \<lparr>pdev_obj = Some \<lparr>reject_ap_list = es, blm_tx_registered = True\<rparr>,
     psoc_obj = Some \<lparr>blm_pdev_id = 0, is_suspended = susp, blm_cfg = demo_cfg\<rparr>, wlan_pdev_id = 0, fw_log = []\<rparr>"

definition demo_info :: "blm_reject_ap_type \<Rightarrow> u8 \<Rightarrow> reject_ap_info" where
  "demo_info ty x = \<lparr>info_bssid = demo_mac x, info_rssi_reject_params = zero_rssi_params,
     info_reject_ap_type = ty, info_reject_reason = REASON_NUD_FAILURE, info_source = ADDED_BY_DRIVER\<rparr>"

definition demo_scan :: "u8 \<Rightarrow> scan_cache_entry" where
  "demo_scan x = \<lparr>scan_bssid = demo_mac x, rssi_raw = -60\<rparr>"

lemma demo_state_simps:
  "pdev_obj (demo_state b es) = Some \<lparr>reject_ap_list = es, blm_tx_registered = True\<rparr>"
  "psoc_obj (demo_state b es) = Some \<lparr>blm_pdev_id = 0, is_suspended = b, blm_cfg = demo_cfg\<rparr>"
  by (simp_all add: demo_state_def)

section \<open>The list\<close>

text \<open>C11. In every sequence of calls of the blacklist manager's entry points, in any order, with
  any outcome of the locks, allocations and clock readings, the reject list holds at most one
  entry per access point and never more than the limit of 28 entries.\<close>
theorem blm_list_invariant:
  assumes "list_all valid_call cs"
    and "pdev_obj (fold blm_call_step cs (blm_init i)) = Some ctx"
  shows "distinct (map bssid (reject_ap_list ctx)) \<and> length (reject_ap_list ctx) \<le> MAX_BAD_AP_LIST_SIZE"
proof -
  have "blm_state_ok (fold blm_call_step cs (blm_init i))"
  proof (rule fold_invariant [of blm_state_ok])
    show "blm_state_ok (blm_init i)" by (simp add: blm_init_def blm_state_ok_def)
    show "blm_state_ok (blm_call_step c st)" if "c \<in> set cs" "blm_state_ok st" for c st
      using that assms(1) by (intro call_step_ok) (auto simp: list_all_iff)
  qed
  then show ?thesis using assms(2) by (auto simp: blm_list_ok_def dest: state_list_ok)
qed

text \<open>C12. Once an access point has been added to the blacklist of user space, every query removes it
  from the candidates by force, whatever the clock and its signal, also after any sequence of further
  calls, as long as none of them replaces that list, switches Wi-Fi off, destroys or creates the
  objects, or adds to a full list: this list does not expire.\<close>
theorem blm_userspace_blacklist_final:
  assumes "blm_state_ok st" and "info_reject_ap_type info = USERSPACE_BLACKLIST_TYPE"
    and "blm_add_bssid_to_reject_list env info st = (QDF_STATUS_SUCCESS, st')"
    and "list_all valid_call cs" and "all_keep_userspace cs st'"
    and "scan_bssid s = info_bssid info" and "env_lock env' = QDF_STATUS_SUCCESS"
  shows "fst (blm_action_on_bssid env' s (fold blm_call_step cs st')) = CM_BLM_FORCE_REMOVE"
proof -
  let ?st = "fold blm_call_step cs st'"
  have ub: "scan_bssid s \<in> ub_of st'" using add_ub [OF assms(3,2)] assms(6) by simp
  have "blm_state_ok st'"
    using add_ok [OF assms(1), of info env] assms(2,3) by (simp add: valid_type_def)
  moreover have "psoc_obj st' \<noteq> None" using assms(3) add_keeps_psoc by fastforce
  ultimately have ok: "blm_state_ok ?st" and ub': "scan_bssid s \<in> ub_of ?st" and "psoc_obj ?st \<noteq> None"
    using calls_keep_ub [OF assms(5,4) _ ub] by simp_all
  then obtain ps ctx where ps: "psoc_obj ?st = Some ps" and ctx: "pdev_obj ?st = Some ctx"
    by (auto simp: ub_of_def split: option.splits)
  have "distinct (map bssid (reject_ap_list ctx))"
    using state_list_ok [OF ok ctx] by (simp add: blm_list_ok_def)
  then show ?thesis
    using ub' ctx ps assms(7) action_ub [of "reject_ap_list ctx" s]
    by (simp add: blm_action_on_bssid_def ub_of_def split: prod.split) (metis snd_conv)
qed

section \<open>Escalation and expiry\<close>

text \<open>C13. Repeated failures escalate: after n driver reports about an access
  point (less than 256, each preceded by the expiry step of the walk) its counter is
  n; it is on the driver's blacklist exactly if n has reached the
  threshold, on the avoid list exactly if it has not, and never on the monitor list.  The report that
  reaches the threshold puts it on the blacklist.\<close>
theorem blm_escalation:
  fixes reports :: "(qdf_time_t \<times> qdf_time_t \<times> qdf_time_t \<times> reject_ap_info) list"
  assumes "\<forall>r \<in> set reports. case r of (t0, t, t2, info) \<Rightarrow> info_reject_ap_type info = DRIVER_AVOID_TYPE"
    and "reports \<noteq> []" and "length reports < 256"
    and "e = fold (\<lambda>(t0, t, t2, info) e. blm_modify_entry t t2 cfg info (blm_update_ap_info t0 cfg None e))
          reports zero_reject_ap"
  shows "unat (bad_bssid_counter e) = length reports \<and>
    (driver_blacklist e \<longleftrightarrow> unat (bad_bssid_counter_thresh cfg) \<le> length reports) \<and>
    (driver_avoidlist e \<longleftrightarrow> length reports < unat (bad_bssid_counter_thresh cfg)) \<and>
    \<not> driver_monitorlist e"
  using assms
proof (induction reports arbitrary: e rule: rev_induct)
  case (snoc r rs)
  obtain t0 t t2 info where r: "r = (t0, t, t2, info)" by (cases r)
  let ?f = "\<lambda>(t0, t, t2, info) e. blm_modify_entry t t2 cfg info (blm_update_ap_info t0 cfg None e)"
  let ?e0 = "fold ?f rs zero_reject_ap"
  have ty: "info_reject_ap_type info = DRIVER_AVOID_TYPE" using snoc.prems(1) r by simp
  have e: "e = blm_modify_entry t t2 cfg info (blm_update_ap_info t0 cfg None ?e0)"
    using snoc.prems(4) r by simp
  have IH: "unat (bad_bssid_counter ?e0) = length rs \<and>
      (driver_blacklist ?e0 \<longrightarrow> unat (bad_bssid_counter_thresh cfg) \<le> length rs)"
  proof (cases "rs = []")
    case False
    then show ?thesis using snoc.IH [OF _ False _ refl] snoc.prems(1,3) by simp
  qed (simp add: zero_reject_ap_def)
  have cnt: "unat (bad_bssid_counter ?e0 + 1) = Suc (length rs)"
    using IH snoc.prems(3) by (simp add: unat_word_ariths)
  have c: "unat (bad_bssid_counter e) = Suc (length rs)"
    using cnt modify_driver_avoid(4) [OF ty] by (simp add: e)
  have th: "threshold_reached cfg (blm_update_ap_info t0 cfg None ?e0) \<longleftrightarrow>
      unat (bad_bssid_counter_thresh cfg) \<le> Suc (length rs)"
    using cnt by (simp add: word_le_nat_alt)
  have "driver_avoidlist e \<longleftrightarrow> \<not> unat (bad_bssid_counter_thresh cfg) \<le> Suc (length rs)"
    unfolding e modify_driver_avoid(1) [OF ty] th ..
  moreover have "driver_blacklist e \<longleftrightarrow> unat (bad_bssid_counter_thresh cfg) \<le> Suc (length rs)"
    unfolding e modify_driver_avoid(2) [OF ty] th using IH by (auto simp: update_bits)
  ultimately show ?case using c modify_driver_avoid(3) [OF ty] e by auto
qed simp

text \<open>An access point that is only on the driver's blacklist is removed from the
  candidates as long as its blacklist time is not over; the first query after that moves it to the
  monitor list and allows it.\<close>
theorem blm_driver_blacklist_window:
  assumes "distinct (map bssid es)" and "e \<in> set es" and "IS_AP_IN_DRIVER_BLACKLIST_ONLY e"
    and "scan_bssid s = bssid e"
    and "expired \<longleftrightarrow> MINUTES_TO_MS (black_list_exipry_time cfg) \<le> now - driver_blacklist_timestamp (ap_timestamp e)"
    and "action_walk now cfg s es = (es', a)"
  shows "a = (if expired then CM_BLM_NO_ACTION else CM_BLM_REMOVE) \<and>
    (\<exists>e' \<in> set es'. bssid e' = bssid e \<and>
       (if expired then IS_AP_IN_MONITOR_LIST_ONLY e' else IS_AP_IN_DRIVER_BLACKLIST_ONLY e'))"
  using assms
proof (induction es arbitrary: es')
  case (Cons x es)
  show ?case
  proof (cases "bssid x = scan_bssid s")
    case True
    then have x: "x = e" using Cons.prems by (auto simp: image_iff)
    have "\<not> reject_ap_type_zero (blm_update_ap_info now cfg (Some s) e)"
      unfolding update_zero_iff using Cons.prems(3) by (auto simp: blm_defs)
    then show ?thesis
      using Cons.prems(3-6) True x
      by (auto simp: blm_prune_old_entries_and_get_action_def Let_def blm_defs update_bits black_expired_def)
  next
    case False
    obtain es1 where "action_walk now cfg s es = (es1, a)" "es' = x # es1"
      using Cons.prems(6) False by (auto split: prod.splits)
    then show ?thesis using Cons.IH Cons.prems False by auto
  qed
qed simp

section \<open>Making room\<close>


text \<open>Within one list, if no entry has a zero delta, the entry dropped is the one with the least
  time left, and for the monitor list and the blacklist of user space the oldest one.\<close>
theorem blm_evict_oldest:
  assumes "\<forall>j < length es. blm_is_bssid_present_only_in_list_type ty (es ! j) \<longrightarrow>
      blm_get_delta_of_bssid (clk j) ty cfg (es ! j) \<noteq> 0"
    and "j0 < length es" and "blm_is_bssid_present_only_in_list_type ty (es ! j0)"
  shows "\<exists>k < length es. blm_is_bssid_present_only_in_list_type ty (es ! k) \<and>
    blm_try_delete_bssid_in_list clk cfg ty es = (QDF_STATUS_SUCCESS, take k es @ drop (Suc k) es) \<and>
    (\<forall>j < length es. blm_is_bssid_present_only_in_list_type ty (es ! j) \<longrightarrow>
       (if ty \<in> {DRIVER_MONITOR_TYPE, USERSPACE_BLACKLIST_TYPE}
        then blm_get_delta_of_bssid (clk j) ty cfg (es ! j) \<le> blm_get_delta_of_bssid (clk k) ty cfg (es ! k)
        else blm_get_delta_of_bssid (clk k) ty cfg (es ! k) \<le> blm_get_delta_of_bssid (clk j) ty cfg (es ! j)))"
proof -
  have nz: "blm_get_delta_of_bssid (clk j) ty cfg (es ! j) \<noteq> 0"
    if "j < length es" "blm_is_bssid_present_only_in_list_type ty (es ! j)" for j
    using assms(1) that by blast
  have conv: "(if ty \<in> {DRIVER_MONITOR_TYPE, USERSPACE_BLACKLIST_TYPE} then y \<le> x else x \<le> y)"
    if "\<not> blm_is_oldest_entry ty y x" "ty \<noteq> REJECT_REASON_UNKNOWN" for x y
    using that by (cases ty) (auto simp: blm_is_oldest_entry_def)
  have "ty \<noteq> REJECT_REASON_UNKNOWN"
    using assms(3) by (auto simp: blm_is_bssid_present_only_in_list_type_def)
  then show ?thesis using try_delete_best [OF nz assms(2,3)] conv by meson
qed

section \<open>Reports\<close>

text \<open>C15. A request for the reject list of some type never writes past the limit given by the
  caller: the number returned is at most the limit, the array keeps its length and its tail, and what
  is filled in are entries of the list, marked with the type asked for.\<close>
theorem blm_get_list_bounds:
  assumes "pdev_obj st = Some ctx" and "unat mx \<le> length rl"
    and "blm_get_bssid_reject_list env mx ty rl st = (n, rl', st')"
  shows "n \<le> mx \<and> length rl' = length rl \<and> drop (unat n) rl' = drop (unat n) rl \<and>
    (\<forall>q. q \<in> set (take (unat n) rl') \<longrightarrow>
       cfg_reject_ap_type q = ty \<and> cfg_bssid q \<in> bssid ` set (reject_ap_list ctx))"
proof (cases "psoc_obj st \<noteq> None \<and> env_lock env = QDF_STATUS_SUCCESS")
  case False
  then show ?thesis using assms by (auto simp: blm_get_bssid_reject_list_def split: option.splits if_splits)
next
  case True
  then obtain ps where ps: "psoc_obj st = Some ps" by blast
  let ?R = "reported (env_walk env) (blm_cfg ps) ty (reject_ap_list ctx)"
  have r: "(rl', n) = snd (blm_fill_reject_list (env_walk env) (blm_cfg ps) ty mx (reject_ap_list ctx) rl 0)"
    using assms(1,3) True ps by (auto simp: blm_get_bssid_reject_list_def split: prod.splits)
  have post: "fill_post mx rl 0 ?R (rl', n)"
    unfolding r by (rule fill_spec) (use assms(2) in simp_all)
  have "x \<in> set ?R \<Longrightarrow> fst x \<in> bssid ` set (reject_ap_list ctx) \<and> fst (snd x) = ty" for x
    by (rule reported_keys)
  moreover have "key q \<in> set ?R" if "q \<in> set (take (unat n) rl')" for q
    using post that by (auto simp: fill_post_def dest!: arg_cong [of _ _ set] dest: in_set_takeD)
  ultimately have "q \<in> set (take (unat n) rl') \<Longrightarrow>
      cfg_reject_ap_type q = ty \<and> cfg_bssid q \<in> bssid ` set (reject_ap_list ctx)" for q
    by (metis fst_conv key_def snd_conv)
  then show ?thesis using post by (auto simp: fill_post_def word_le_nat_alt)
qed

text \<open>C16. The message to the firmware is the abstract report cut at 28 entries: the unexpired entries of
  the blacklist of user space, the blacklist of the driver, the signal strength rejections, the avoid
  list of user space and the avoid list of the driver, each in the order of the list, each entry with
  the time it has left and the signal strength it asks for.  The manager is not suspended, memory for
  the message is there, and the clock does not move while it is filled in.\<close>
theorem blm_report_refines:
  assumes "pdev_obj st = Some ctx" "blm_tx_registered ctx" "psoc_obj st = Some ps" "\<not> is_suspended ps"
    and "env_list_mem env" "env_wmi env = Some status" "env_send env = (\<lambda>_ _. now)"
  shows "\<exists>p. fw_log (blm_send_reject_ap_list_to_fw env cfg st) = fw_log st @ [p] \<and>
    length (bssid_list p) = 28 \<and> num_of_reject_bssid p \<le> 28 \<and>
    map key (take (unat (num_of_reject_bssid p)) (bssid_list p)) =
      take 28 (concat (map (\<lambda>ty. map (entry_key now cfg ty)
        (filter (blm_is_bssid_of_type ty) (pruned now cfg (reject_ap_list ctx))))
        [USERSPACE_BLACKLIST_TYPE, DRIVER_BLACKLIST_TYPE, DRIVER_RSSI_REJECT_TYPE, USERSPACE_AVOID_TYPE, DRIVER_AVOID_TYPE]))"
proof -
  let ?mx = "PDEV_MAX_NUM_BSSID_DISALLOW_LIST"
  let ?rl = "replicate (unat ?mx) zero_config_params"
  obtain es rl num where f: "fill_passes (\<lambda>_ _. now) cfg fill_order (reject_ap_list ctx, ?rl, 0) = (es, rl, num)"
    by (metis surj_pair)
  have post: "fill_post ?mx ?rl 0 (full_report now cfg fill_order (reject_ap_list ctx)) (rl, num)"
    using passes_spec [of 0 ?rl now cfg fill_order "reject_ap_list ctx"] f by simp
  have log: "fw_log (blm_send_reject_ap_list_to_fw env cfg st) =
      fw_log st @ [\<lparr>num_of_reject_bssid = num, bssid_list = rl\<rparr>]"
    using assms f
    by (simp add: blm_send_reject_ap_list_to_fw_def ucfg_blm_psoc_get_suspended_def
        tgt_blm_send_reject_list_to_fw_def target_if_blm_send_reject_ap_list_def)
  show ?thesis
    unfolding log
    by (rule exI [of _ "\<lparr>num_of_reject_bssid = num, bssid_list = rl\<rparr>"])
      (use post in \<open>auto simp: fill_post_def full_report_def fill_order_def PDEV_MAX_NUM_BSSID_DISALLOW_LIST_def word_le_nat_alt\<close>)
qed

text \<open>C17. While the manager is suspended no call hands anything to the firmware, in any
  sequence of calls that does not resume it or create the psoc object anew.\<close>
theorem blm_suspended_quiet:
  assumes "psoc_obj st = Some ps" "is_suspended ps" "list_all (\<lambda>c. \<not> wakes c) cs"
  shows "fw_log (fold blm_call_step cs st) = fw_log st"
proof -
  have "quiet st (fold blm_call_step cs st)"
  proof (rule fold_invariant [of "quiet st"])
    show "quiet st st" using assms by (simp add: ucfg_blm_psoc_get_suspended_def)
    show "quiet st (blm_call_step c st')" if "c \<in> set cs" "quiet st st'" for c st'
      using that assms(3) by (intro quiet_call) (auto simp: list_all_iff)
  qed
  then show ?thesis by (simp add: quiet_def)
qed

section \<open>User space, disconnection, shutdown\<close>

text \<open>A new blacklist of user space replaces the old one: after a successful call only the
  addresses given are blacklisted by user space, and all of them are if they fit in the list
  beside what is there.\<close>
theorem blm_userspace_list_replaced:
  assumes "blm_add_userspace_black_list QDF_STATUS_SUCCESS env envs stack (Some bs) n st = (QDF_STATUS_SUCCESS, st')"
  shows "ub_of st' \<subseteq> set (take (unat n) bs) \<and>
    (entries st + unat n \<le> MAX_BAD_AP_LIST_SIZE \<longrightarrow> ub_of st' = set (take (unat n) bs))"
proof -
  obtain ctx ps where st: "pdev_obj st = Some ctx" "psoc_obj st = Some ps"
    using assms by (auto simp: blm_add_userspace_black_list_def split: option.splits)
  let ?st1 = "snd (blm_clear_userspace_blacklist_info QDF_STATUS_SUCCESS st)"
  let ?st2 = "blm_send_reject_ap_list_to_fw env (blm_cfg ps) ?st1"
  have "ub_of ?st1 = {}" "entries ?st1 \<le> entries st"
    using clear.length_le [where es = "reject_ap_list ctx"]
    by (simp_all add: blm_clear_userspace_blacklist_info_def st ub_of_def entries_def clear_ub)
  then have st2: "ub_of ?st2 = {}" "entries ?st2 \<le> entries st"
    using send_ub_of send_entries order_trans by (simp, blast)
  have loop: "add_userspace_loop envs stack (take (unat n) bs) ?st2 = (QDF_STATUS_SUCCESS, st')"
    using assms st by (auto simp: blm_add_userspace_black_list_def Let_def split: if_splits)
  show ?thesis using loop_ub [OF loop] st2 by (auto simp: min_def split: if_splits)
qed

text \<open>A connection that outlived the reset time rehabilitates the access point: on
  disconnection it leaves the driver's lists and the avoid list of user space; only the blacklist of
  user space and an RSSI rejection that still holds keep the entry in the list.\<close>
theorem blm_disconnect_releases:
  assumes "connect_timestamp e = t0" "\<not> driver_avoidlist e" "\<not> driver_blacklist e"
    and "now2 - t0 > SECONDS_TO_MS (bad_bssid_counter_reset_time cfg)"
    and "blm_disconnect_entry now now2 cfg e = (e', gone)"
  shows "\<not> driver_avoidlist e' \<and> \<not> driver_blacklist e' \<and> \<not> driver_monitorlist e' \<and> \<not> userspace_avoidlist e' \<and>
    userspace_blacklist e' = userspace_blacklist e \<and>
    (gone \<longleftrightarrow> \<not> userspace_blacklist e \<and> (rssi_reject_list e \<longrightarrow> rssi_released now None e))"
  using assms by (auto simp: blm_disconnect_entry_def Let_def update_bits reject_ap_type_zero_def)

text \<open>Turning Wi-Fi off empties the reject list and tells the firmware so.\<close>
theorem blm_wifi_off_empties:
  assumes "pdev_obj st = Some ctx" "blm_tx_registered ctx" "psoc_obj st = Some ps" "\<not> is_suspended ps"
    and "env_lock env = QDF_STATUS_SUCCESS" "env_nested_lock env = QDF_STATUS_SUCCESS"
    and "env_list_mem env" "env_wmi env = Some status"
  shows "map_option reject_ap_list (pdev_obj (ucfg_blm_wifi_off env st)) = Some [] \<and>
    (\<exists>p. fw_log (ucfg_blm_wifi_off env st) = fw_log st @ [p] \<and> num_of_reject_bssid p = 0)"
proof -
  have "fill_passes clk cfg tys ([], rl, 0) = ([], rl, 0)" for clk cfg tys rl
    by (induction tys arbitrary: clk) simp_all
  then show ?thesis
    using assms
    by (simp add: ucfg_blm_wifi_off_def blm_flush_reject_ap_list_def blm_send_reject_ap_list_to_fw_def
        ucfg_blm_psoc_get_suspended_def tgt_blm_send_reject_list_to_fw_def target_if_blm_send_reject_ap_list_def)
qed

text \<open>A failed request adds nothing and tells the firmware nothing: the addresses that
  are left are among those that were there.\<close>
theorem blm_add_failure:
  assumes "blm_add_bssid_to_reject_list env info st = (status, st')" "status \<noteq> QDF_STATUS_SUCCESS"
    and "pdev_obj st = Some ctx"
  shows "fw_log st' = fw_log st \<and>
    (\<exists>ctx'. pdev_obj st' = Some ctx' \<and> bssid ` set (reject_ap_list ctx') \<subseteq> bssid ` set (reject_ap_list ctx))"
proof (cases "psoc_obj st")
  case None
  then show ?thesis using assms by (auto simp: blm_add_bssid_to_reject_list_def)
next
  case (Some ps)
  obtain es found where w: "add_walk (env_walk env) (env_modify env) (blm_cfg ps) info (reject_ap_list ctx) = (es, found)"
    by fastforce
  obtain st1 es' where r: "blm_remove_lowest_delta_entry (env_evict env) (blm_cfg ps) es = (st1, es')" by fastforce
  have "bssid ` set es \<subseteq> bssid ` set (reject_ap_list ctx)"
    using add.bssid_subset [of "(env_walk env, env_modify env, blm_cfg ps, info)" "reject_ap_list ctx"] w by simp
  moreover have "bssid ` set es' \<subseteq> bssid ` set es"
    using evict.bssid_subset [of "(env_evict env, blm_cfg ps)" es] r by simp
  ultimately have "bssid ` set es \<subseteq> bssid ` set (reject_ap_list ctx)" "bssid ` set es' \<subseteq> bssid ` set (reject_ap_list ctx)"
    by blast+
  moreover have "st' = st \<or> st' = set_list es st \<or> st' = set_list es' st"
    using assms Some
    by (auto simp: blm_add_bssid_to_reject_list_def blm_insert_new_def w r Let_def split: if_splits)
  ultimately show ?thesis using assms(3) by auto
qed

text \<open>The search for the RSSI rejection with the least time left takes a delta of zero for
  ``none found yet'': an entry whose time is over is passed over in favour of any later one.\<close>
theorem blm_rssi_eviction_misses_expired:
  assumes "IS_AP_IN_RSSI_REJECT_LIST_ONLY e1" "IS_AP_IN_RSSI_REJECT_LIST_ONLY e2"
    and "blm_get_delta_of_bssid (clk 0) DRIVER_RSSI_REJECT_TYPE cfg e1 = 0"
  shows "blm_try_delete_bssid_in_list clk cfg DRIVER_RSSI_REJECT_TYPE [e1, e2] = (QDF_STATUS_SUCCESS, [e1])"
  using assms
  by (simp add: blm_try_delete_bssid_in_list_def blm_is_bssid_present_only_in_list_type_def blm_is_oldest_entry_def Let_def)

section \<open>Witnesses\<close>

definition demo_calls :: "blm_call list" where
  "demo_calls = [Call_psoc_created True QDF_STATUS_SUCCESS, Call_psoc_open 5 10 30 3 5,
     Call_pdev_created True QDF_STATUS_SUCCESS QDF_STATUS_SUCCESS,
     Call_add (demo_env 1000) (demo_info DRIVER_AVOID_TYPE 1),
     Call_add (demo_env 2000) (demo_info USERSPACE_BLACKLIST_TYPE 4)]"

lemma demo_calls_run:
  "map_option (map bssid \<circ> reject_ap_list) (pdev_obj (fold blm_call_step demo_calls (blm_init 0))) =
     Some [demo_mac 1, demo_mac 4]"
  by code_simp

theorem blm_list_invariant_witness:
  "\<exists>ctx. pdev_obj (fold blm_call_step demo_calls (blm_init 0)) = Some ctx \<and>
     map bssid (reject_ap_list ctx) = [demo_mac 1, demo_mac 4] \<and>
     distinct (map bssid (reject_ap_list ctx)) \<and> length (reject_ap_list ctx) \<le> MAX_BAD_AP_LIST_SIZE"
proof -
  obtain ctx where ctx: "pdev_obj (fold blm_call_step demo_calls (blm_init 0)) = Some ctx"
      "map bssid (reject_ap_list ctx) = [demo_mac 1, demo_mac 4]"
    using demo_calls_run by auto
  have "list_all valid_call demo_calls"
    by (simp add: demo_calls_def demo_info_def valid_type_def)
  from blm_list_invariant [OF this ctx(1)] ctx show ?thesis by auto
qed

lemma demo_add: "fst (blm_add_bssid_to_reject_list (demo_env 1000) (demo_info USERSPACE_BLACKLIST_TYPE 4) (demo_state False [])) = QDF_STATUS_SUCCESS"
  by code_simp

definition after_calls :: "blm_call list" where
  "after_calls = [Call_add (demo_env 2000) (demo_info DRIVER_AVOID_TYPE 1), Call_action (demo_env 3000) (demo_scan 1)]"

theorem blm_userspace_blacklist_final_witness:
  "fst (blm_action_on_bssid (demo_env 99000000) (demo_scan 4) (fold blm_call_step after_calls
     (snd (blm_add_bssid_to_reject_list (demo_env 1000) (demo_info USERSPACE_BLACKLIST_TYPE 4) (demo_state False []))))) =
   CM_BLM_FORCE_REMOVE"
proof (rule blm_userspace_blacklist_final)
  show "blm_state_ok (demo_state False [])" by (simp add: demo_state_def blm_state_ok_def blm_list_ok_def)
  show "blm_add_bssid_to_reject_list (demo_env 1000) (demo_info USERSPACE_BLACKLIST_TYPE 4) (demo_state False []) =
     (QDF_STATUS_SUCCESS, snd (blm_add_bssid_to_reject_list (demo_env 1000) (demo_info USERSPACE_BLACKLIST_TYPE 4) (demo_state False [])))"
    using demo_add by (metis prod.collapse)
  show "all_keep_userspace after_calls
     (snd (blm_add_bssid_to_reject_list (demo_env 1000) (demo_info USERSPACE_BLACKLIST_TYPE 4) (demo_state False [])))"
    by code_simp
qed (simp_all add: demo_info_def demo_scan_def demo_env_def after_calls_def valid_type_def)

definition demo_reports :: "(qdf_time_t \<times> qdf_time_t \<times> qdf_time_t \<times> reject_ap_info) list" where
  "demo_reports = [(10, 10, 11, demo_info DRIVER_AVOID_TYPE 1), (20, 20, 21, demo_info DRIVER_AVOID_TYPE 1),
     (30, 30, 31, demo_info DRIVER_AVOID_TYPE 1)]"

theorem blm_escalation_witness:
  "\<exists>e. e = fold (\<lambda>(t0, t, t2, info) e. blm_modify_entry t t2 demo_cfg info (blm_update_ap_info t0 demo_cfg None e))
       demo_reports zero_reject_ap \<and>
     unat (bad_bssid_counter e) = 3 \<and> driver_blacklist e \<and> \<not> driver_avoidlist e"
proof -
  let ?e = "fold (\<lambda>(t0, t, t2, info) e. blm_modify_entry t t2 demo_cfg info (blm_update_ap_info t0 demo_cfg None e))
       demo_reports zero_reject_ap"
  have "unat (bad_bssid_counter_thresh demo_cfg) = 3" by (simp add: demo_cfg_def blm_init_cfg_def)
  then show ?thesis
    using blm_escalation [of demo_reports ?e demo_cfg]
    by (intro exI [of _ ?e]) (simp add: demo_reports_def demo_info_def)
qed

theorem blm_driver_blacklist_window_witness:
  "snd (action_walk 700000 demo_cfg (demo_scan 1) [(demo_entry 1)\<lparr>driver_blacklist := True\<rparr>]) = CM_BLM_NO_ACTION \<and>
   snd (action_walk 500000 demo_cfg (demo_scan 1) [(demo_entry 1)\<lparr>driver_blacklist := True\<rparr>]) = CM_BLM_REMOVE"
proof -
  let ?e = "(demo_entry 1)\<lparr>driver_blacklist := True\<rparr>"
  have e: "IS_AP_IN_DRIVER_BLACKLIST_ONLY ?e" "scan_bssid (demo_scan 1) = bssid ?e"
    by (simp_all add: demo_entry_def demo_scan_def zero_reject_ap_def blm_defs)
  have x: "True \<longleftrightarrow> MINUTES_TO_MS (black_list_exipry_time demo_cfg) \<le> 700000 - driver_blacklist_timestamp (ap_timestamp ?e)"
    "False \<longleftrightarrow> MINUTES_TO_MS (black_list_exipry_time demo_cfg) \<le> 500000 - driver_blacklist_timestamp (ap_timestamp ?e)"
    by code_simp+
  show ?thesis
    using blm_driver_blacklist_window [OF _ _ e x(1) prod.collapse [symmetric], of "[?e]"]
      blm_driver_blacklist_window [OF _ _ e x(2) prod.collapse [symmetric], of "[?e]"]
    by simp
qed

definition demo_full :: "blm_reject_ap list" where
  "demo_full = [(demo_entry 1)\<lparr>userspace_blacklist := True\<rparr>, (demo_entry 2)\<lparr>driver_avoidlist := True\<rparr>,
     (demo_entry 3)\<lparr>driver_avoidlist := True, ap_timestamp := (ap_timestamp zero_reject_ap)\<lparr>driver_avoid_timestamp := 500\<rparr>\<rparr>]"



theorem blm_evict_oldest_witness:
  "\<exists>k. k < length demo_full \<and> blm_is_bssid_present_only_in_list_type DRIVER_AVOID_TYPE (demo_full ! k) \<and>
     blm_try_delete_bssid_in_list (\<lambda>_. 1000) demo_cfg DRIVER_AVOID_TYPE demo_full =
       (QDF_STATUS_SUCCESS, take k demo_full @ drop (Suc k) demo_full)"
proof -
  have all: "list_all (\<lambda>e. blm_is_bssid_present_only_in_list_type DRIVER_AVOID_TYPE e \<longrightarrow>
      blm_get_delta_of_bssid 1000 DRIVER_AVOID_TYPE demo_cfg e \<noteq> 0) demo_full"
    and one: "1 < length demo_full" "blm_is_bssid_present_only_in_list_type DRIVER_AVOID_TYPE (demo_full ! 1)"
    by code_simp+
  have "\<forall>j < length demo_full. blm_is_bssid_present_only_in_list_type DRIVER_AVOID_TYPE (demo_full ! j) \<longrightarrow>
      blm_get_delta_of_bssid 1000 DRIVER_AVOID_TYPE demo_cfg (demo_full ! j) \<noteq> 0"
    using all by (simp add: list_all_length)
  from blm_evict_oldest [OF this one] show ?thesis by blast
qed

definition demo_list :: "blm_reject_ap list" where
  "demo_list = [(demo_entry 1)\<lparr>driver_avoidlist := True\<rparr>, (demo_entry 2)\<lparr>userspace_blacklist := True\<rparr>]"

lemma demo_get_list:
  "fst (blm_get_bssid_reject_list (demo_env 1000) 1 DRIVER_AVOID_TYPE (replicate 2 zero_config_params)
     (demo_state False demo_list)) = 1"
  by code_simp

theorem blm_get_list_bounds_witness:
  "\<exists>n rl' st'. blm_get_bssid_reject_list (demo_env 1000) 1 DRIVER_AVOID_TYPE (replicate 2 zero_config_params)
       (demo_state False demo_list) = (n, rl', st') \<and> n = 1 \<and> length rl' = 2 \<and>
     drop (unat n) rl' = [zero_config_params]"
proof -
  let ?c = "blm_get_bssid_reject_list (demo_env 1000) 1 DRIVER_AVOID_TYPE (replicate 2 zero_config_params)
       (demo_state False demo_list)"
  obtain n rl' st' where c: "?c = (n, rl', st')" by (metis surj_pair)
  have ctx: "pdev_obj (demo_state False demo_list) = Some \<lparr>reject_ap_list = demo_list, blm_tx_registered = True\<rparr>"
    by (simp add: demo_state_def)
  have "n = 1" using demo_get_list c by simp
  moreover have "length rl' = 2 \<and> drop (unat n) rl' = drop (unat n) (replicate 2 zero_config_params)"
    using blm_get_list_bounds [OF ctx _ c] by simp
  ultimately show ?thesis using c by (simp add: numeral_2_eq_2)
qed

lemma demo_ctx: "reject_ap_list \<lparr>reject_ap_list = es, blm_tx_registered = b\<rparr> = es"
  by simp

theorem blm_report_refines_witness:
  "\<exists>p. fw_log (blm_send_reject_ap_list_to_fw (demo_env 1000) demo_cfg (demo_state False demo_list)) = [p] \<and>
     map key (take (unat (num_of_reject_bssid p)) (bssid_list p)) =
       [(demo_mac 2, USERSPACE_BLACKLIST_TYPE, 1000, 0), (demo_mac 1, DRIVER_AVOID_TYPE, 299000, 0)]"
proof -
  have "take 28 (concat (map (\<lambda>ty. map (entry_key 1000 demo_cfg ty)
        (filter (blm_is_bssid_of_type ty) (pruned 1000 demo_cfg demo_list)))
        [USERSPACE_BLACKLIST_TYPE, DRIVER_BLACKLIST_TYPE, DRIVER_RSSI_REJECT_TYPE, USERSPACE_AVOID_TYPE, DRIVER_AVOID_TYPE])) =
      [(demo_mac 2, USERSPACE_BLACKLIST_TYPE, 1000, 0), (demo_mac 1, DRIVER_AVOID_TYPE, 299000, 0)]"
    by code_simp
  moreover have "\<exists>p. fw_log (blm_send_reject_ap_list_to_fw (demo_env 1000) demo_cfg (demo_state False demo_list)) =
      fw_log (demo_state False demo_list) @ [p] \<and>
    length (bssid_list p) = 28 \<and> num_of_reject_bssid p \<le> 28 \<and>
    map key (take (unat (num_of_reject_bssid p)) (bssid_list p)) =
      take 28 (concat (map (\<lambda>ty. map (entry_key 1000 demo_cfg ty)
        (filter (blm_is_bssid_of_type ty) (pruned 1000 demo_cfg demo_list)))
        [USERSPACE_BLACKLIST_TYPE, DRIVER_BLACKLIST_TYPE, DRIVER_RSSI_REJECT_TYPE, USERSPACE_AVOID_TYPE, DRIVER_AVOID_TYPE]))"
    by (rule blm_report_refines [OF demo_state_simps(1) _ demo_state_simps(2), where now = 1000, unfolded demo_ctx])
      (simp_all add: demo_env_def)
  ultimately show ?thesis by (auto simp: demo_state_def)
qed

theorem blm_suspended_quiet_witness:
  "fw_log (fold blm_call_step [Call_add (demo_env 1000) (demo_info DRIVER_AVOID_TYPE 1), Call_wifi_off (demo_env 2000)]
     (demo_state True demo_list)) = []"
proof -
  let ?cs = "[Call_add (demo_env 1000) (demo_info DRIVER_AVOID_TYPE 1), Call_wifi_off (demo_env 2000)]"
  have p: "psoc_obj (demo_state True demo_list) = Some \<lparr>blm_pdev_id = 0, is_suspended = True, blm_cfg = demo_cfg\<rparr>"
    by (simp add: demo_state_def)
  have "fw_log (fold blm_call_step ?cs (demo_state True demo_list)) = fw_log (demo_state True demo_list)"
    by (rule blm_suspended_quiet [OF p]) simp_all
  then show ?thesis by (simp add: demo_state_def)
qed

lemma demo_replace:
  "fst (blm_add_userspace_black_list QDF_STATUS_SUCCESS (demo_env 1000) (\<lambda>_. demo_env 1000) zero_rssi_params
     (Some [demo_mac 5, demo_mac 6]) 2 (demo_state False demo_list)) = QDF_STATUS_SUCCESS"
  by code_simp

theorem blm_userspace_list_replaced_witness:
  "ub_of (snd (blm_add_userspace_black_list QDF_STATUS_SUCCESS (demo_env 1000) (\<lambda>_. demo_env 1000) zero_rssi_params
     (Some [demo_mac 5, demo_mac 6]) 2 (demo_state False demo_list))) = {demo_mac 5, demo_mac 6}"
proof -
  let ?c = "blm_add_userspace_black_list QDF_STATUS_SUCCESS (demo_env 1000) (\<lambda>_. demo_env 1000) zero_rssi_params
     (Some [demo_mac 5, demo_mac 6]) 2 (demo_state False demo_list)"
  have c: "?c = (QDF_STATUS_SUCCESS, snd ?c)" using demo_replace by (cases ?c) simp
  have "entries (demo_state False demo_list) + unat (2 :: u8) \<le> MAX_BAD_AP_LIST_SIZE"
    by (simp add: entries_def demo_state_def demo_list_def MAX_BAD_AP_LIST_SIZE_def)
  then show ?thesis using blm_userspace_list_replaced [OF c] by simp
qed

theorem blm_disconnect_releases_witness:
  "snd (blm_disconnect_entry 40000 40000 demo_cfg ((demo_entry 1)\<lparr>driver_monitorlist := True\<rparr>))"
proof -
  let ?e = "(demo_entry 1)\<lparr>driver_monitorlist := True\<rparr>"
  have age: "SECONDS_TO_MS (bad_bssid_counter_reset_time demo_cfg) < (40000 :: u64) - 0" by code_simp
  have "connect_timestamp ?e = 0" "\<not> driver_avoidlist ?e" "\<not> driver_blacklist ?e"
    by (simp_all add: demo_entry_def zero_reject_ap_def)
  from blm_disconnect_releases [OF this age prod.collapse [symmetric]] show ?thesis
    by (simp add: demo_entry_def zero_reject_ap_def)
qed

theorem blm_wifi_off_empties_witness:
  "map_option reject_ap_list (pdev_obj (ucfg_blm_wifi_off (demo_env 1000) (demo_state False demo_list))) = Some [] \<and>
   (\<exists>p. fw_log (ucfg_blm_wifi_off (demo_env 1000) (demo_state False demo_list)) =
      fw_log (demo_state False demo_list) @ [p] \<and> num_of_reject_bssid p = 0)"
  by (rule blm_wifi_off_empties [OF demo_state_simps(1) _ demo_state_simps(2)]) (simp_all add: demo_env_def)

theorem blm_add_failure_witness:
  "fw_log (snd (blm_add_bssid_to_reject_list ((demo_env 1000)\<lparr>env_entry_mem := False\<rparr>)
     (demo_info DRIVER_AVOID_TYPE 7) (demo_state False demo_list))) = []"
proof -
  let ?c = "blm_add_bssid_to_reject_list ((demo_env 1000)\<lparr>env_entry_mem := False\<rparr>)
     (demo_info DRIVER_AVOID_TYPE 7) (demo_state False demo_list)"
  have f: "fst ?c \<noteq> QDF_STATUS_SUCCESS" by code_simp
  have "pdev_obj (demo_state False demo_list) = Some \<lparr>reject_ap_list = demo_list, blm_tx_registered = True\<rparr>"
    by (simp add: demo_state_def)
  from blm_add_failure [OF prod.collapse [symmetric] f this] show ?thesis by (simp add: demo_state_def)
qed

theorem blm_rssi_eviction_misses_expired_witness:
  "blm_try_delete_bssid_in_list (\<lambda>_. 4000000) demo_cfg DRIVER_RSSI_REJECT_TYPE
     [(demo_entry 1)\<lparr>rssi_reject_list := True\<rparr>,
      (demo_entry 2)\<lparr>rssi_reject_list := True, rssi_reject_params := zero_rssi_params\<lparr>retry_delay := 9000000\<rparr>\<rparr>] =
   (QDF_STATUS_SUCCESS, [(demo_entry 1)\<lparr>rssi_reject_list := True\<rparr>])"
proof (rule blm_rssi_eviction_misses_expired)
  show "blm_get_delta_of_bssid 4000000 DRIVER_RSSI_REJECT_TYPE demo_cfg ((demo_entry 1)\<lparr>rssi_reject_list := True\<rparr>) = 0"
    by code_simp
qed (simp_all add: demo_entry_def zero_reject_ap_def blm_defs)

end
