(* ===== verification/Oui_Parse.thy ===== *)
theory Oui_Parse
  imports Qdf_Prelude
begin

text \<open>
  The action OUI component, \<^verbatim>\<open>src/components/action_oui\<close>: the parser of
  \<^verbatim>\<open>wlan_action_oui_parse.c\<close> that turns the INI strings into extensions, the store of
  extensions, and the life cycle of \<^verbatim>\<open>wlan_action_oui_main.c\<close>.  The string functions of
  QDF and of the kernel (\<^verbatim>\<open>qdf_str_trim\<close>, \<^verbatim>\<open>qdf_str_left_trim\<close>,
  \<^verbatim>\<open>qdf_hex_str_to_binary\<close>, \<^verbatim>\<open>kstrtou8\<close> with base 16) are the fields of the
  record \<open>oui_lib\<close>; \<^verbatim>\<open>strsep\<close> with a blank as delimiter is written out.  A conversion
  that would write past the end of the array it fills is the result \<open>Overrun\<close>.  The
  loop over the tokens is a \<open>partial_function\<close>, since its end depends on the trimming
  function.
\<close>

unbundle bit_operations_syntax

section \<open>Constants and data\<close>

definition ACTION_OUI_MAX_EXTENSIONS :: nat where "ACTION_OUI_MAX_EXTENSIONS = 10"
definition ACTION_OUI_MAX_OUI_LENGTH :: nat where "ACTION_OUI_MAX_OUI_LENGTH = 5"
definition ACTION_OUI_MAX_DATA_LENGTH :: nat where "ACTION_OUI_MAX_DATA_LENGTH = 20"
definition ACTION_OUI_MAX_DATA_MASK_LENGTH :: nat where "ACTION_OUI_MAX_DATA_MASK_LENGTH = 3"
definition ACTION_OUI_MAC_MASK_LENGTH :: nat where "ACTION_OUI_MAC_MASK_LENGTH = 1"
definition ACTION_OUI_MAX_CAPABILITY_LENGTH :: nat where "ACTION_OUI_MAX_CAPABILITY_LENGTH = 1"
definition ACTION_OUI_MAXIMUM_ID :: nat where "ACTION_OUI_MAXIMUM_ID = 11"
definition QDF_MAC_ADDR_SIZE :: nat where "QDF_MAC_ADDR_SIZE = 6"

definition ACTION_OUI_INFO_OUI :: u32 where "ACTION_OUI_INFO_OUI = 1"
definition ACTION_OUI_INFO_MAC_ADDRESS :: u32 where "ACTION_OUI_INFO_MAC_ADDRESS = 2"
definition ACTION_OUI_INFO_AP_CAPABILITY_NSS :: u32 where "ACTION_OUI_INFO_AP_CAPABILITY_NSS = 4"
definition ACTION_OUI_INFO_AP_CAPABILITY_HT :: u32 where "ACTION_OUI_INFO_AP_CAPABILITY_HT = 8"
definition ACTION_OUI_INFO_AP_CAPABILITY_VHT :: u32 where "ACTION_OUI_INFO_AP_CAPABILITY_VHT = 16"
definition ACTION_OUI_INFO_AP_CAPABILITY_BAND :: u32 where "ACTION_OUI_INFO_AP_CAPABILITY_BAND = 32"
definition ACTION_OUI_INFO_MASK :: u32 where "ACTION_OUI_INFO_MASK = 0x3F"

definition ACTION_OUI_CAPABILITY_NSS_MASK :: u8 where "ACTION_OUI_CAPABILITY_NSS_MASK = 0x0f"
definition ACTION_OUI_CAPABILITY_HT_ENABLE_MASK :: u8 where "ACTION_OUI_CAPABILITY_HT_ENABLE_MASK = 0x10"
definition ACTION_OUI_CAPABILITY_VHT_ENABLE_MASK :: u8 where "ACTION_OUI_CAPABILITY_VHT_ENABLE_MASK = 0x20"
definition ACTION_OUI_CAPABILITY_BAND_MASK :: u8 where "ACTION_OUI_CAPABILITY_BAND_MASK = 0xC0"
definition ACTION_OUI_CAPABILITY_2G_BAND_MASK :: u8 where "ACTION_OUI_CAPABILITY_2G_BAND_MASK = 0x40"
definition ACTION_CAPABILITY_5G_BAND_MASK :: u8 where "ACTION_CAPABILITY_5G_BAND_MASK = 0x80"

lemmas oui_sizes =
  ACTION_OUI_MAX_EXTENSIONS_def ACTION_OUI_MAX_OUI_LENGTH_def ACTION_OUI_MAX_DATA_LENGTH_def
  ACTION_OUI_MAX_DATA_MASK_LENGTH_def ACTION_OUI_MAC_MASK_LENGTH_def
  ACTION_OUI_MAX_CAPABILITY_LENGTH_def QDF_MAC_ADDR_SIZE_def

lemmas oui_info_bits =
  ACTION_OUI_INFO_OUI_def ACTION_OUI_INFO_MAC_ADDRESS_def ACTION_OUI_INFO_AP_CAPABILITY_NSS_def
  ACTION_OUI_INFO_AP_CAPABILITY_HT_def ACTION_OUI_INFO_AP_CAPABILITY_VHT_def
  ACTION_OUI_INFO_AP_CAPABILITY_BAND_def ACTION_OUI_INFO_MASK_def

datatype action_oui_token_type =
    ACTION_OUI_TOKEN
  | ACTION_OUI_DATA_LENGTH_TOKEN
  | ACTION_OUI_DATA_TOKEN
  | ACTION_OUI_DATA_MASK_TOKEN
  | ACTION_OUI_INFO_MASK_TOKEN
  | ACTION_OUI_MAC_ADDR_TOKEN
  | ACTION_OUI_MAC_MASK_TOKEN
  | ACTION_OUI_CAPABILITY_TOKEN
  | ACTION_OUI_END_TOKEN

record action_oui_extension =
  info_mask :: u32
  oui_length :: u32
  data_length :: u32
  data_mask_length :: u32
  mac_addr_length :: u32
  mac_mask_length :: u32
  capability_length :: u32
  ext_oui :: "u8 list"
  ext_data :: "u8 list"
  ext_data_mask :: "u8 list"
  ext_mac_addr :: "u8 list"
  ext_mac_mask :: "u8 list"
  ext_capability :: "u8 list"

definition zero_extension :: action_oui_extension where
  "zero_extension = \<lparr>info_mask = 0, oui_length = 0, data_length = 0, data_mask_length = 0,
     mac_addr_length = 0, mac_mask_length = 0, capability_length = 0,
     ext_oui = replicate 5 0, ext_data = replicate 20 0, ext_data_mask = replicate 3 0,
     ext_mac_addr = replicate 6 0, ext_mac_mask = [0], ext_capability = [0]\<rparr>"

record action_oui_priv =
  oui_id :: nat
  extension_list :: "action_oui_extension list"

record action_oui_psoc_priv =
  total_extensions :: u32
  oui_priv :: "action_oui_priv option list"

record oui_lib =
  qdf_str_trim :: "string \<Rightarrow> string"
  qdf_str_left_trim :: "string \<Rightarrow> string"
  qdf_hex_str_to_binary :: "string \<Rightarrow> nat \<Rightarrow> u8 list option"
  kstrtou8_16 :: "string \<Rightarrow> u8 option"

datatype 'a conv = Conv 'a | Rejected | Overrun

section \<open>Conversion of a token\<close>

text \<open>The array after the conversion; \<open>arr\<close> is what it held before.\<close>

definition action_oui_string_to_hex :: "oui_lib \<Rightarrow> string \<Rightarrow> u8 list \<Rightarrow> nat list \<Rightarrow> u8 list conv" where
  "action_oui_string_to_hex lib token arr possible_lengths =
     (let token_len = length token
      in if token_len = 0 \<or> odd token_len then Rejected
         else if token_len \<notin> set possible_lengths then Rejected
         else let hex_str_len = token_len div 2
              in (case qdf_hex_str_to_binary lib token hex_str_len of
                    None \<Rightarrow> Rejected
                  | Some bs \<Rightarrow> if hex_str_len \<le> length arr then Conv (bs @ drop hex_str_len arr) else Overrun))"

definition conv_bind :: "'a conv \<Rightarrow> ('a \<Rightarrow> 'b conv) \<Rightarrow> 'b conv" where
  "conv_bind c f = (case c of Conv x \<Rightarrow> f x | Rejected \<Rightarrow> Rejected | Overrun \<Rightarrow> Overrun)"

type_synonym converter = "oui_lib \<Rightarrow> string \<Rightarrow> action_oui_extension \<Rightarrow> (action_oui_extension \<times> action_oui_token_type) conv"

definition validate_and_convert_oui :: converter where
  "validate_and_convert_oui lib token ext =
     conv_bind (action_oui_string_to_hex lib token (ext_oui ext) [6, 10]) (\<lambda>bs.
       Conv (ext\<lparr>ext_oui := bs, oui_length := of_nat (length token div 2)\<rparr>, ACTION_OUI_DATA_LENGTH_TOKEN))"

definition validate_and_convert_data_length :: converter where
  "validate_and_convert_data_length lib token ext =
     (if length token \<noteq> 1 \<and> length token \<noteq> 2 then Rejected
      else case kstrtou8_16 lib token of
             None \<Rightarrow> Rejected
           | Some len \<Rightarrow>
               if unat len > ACTION_OUI_MAX_DATA_LENGTH then Rejected
               else Conv (ext\<lparr>data_length := ucast len\<rparr>,
                      if len = 0 then ACTION_OUI_INFO_MASK_TOKEN else ACTION_OUI_DATA_TOKEN))"

definition validate_and_convert_data :: converter where
  "validate_and_convert_data lib token ext =
     conv_bind (action_oui_string_to_hex lib token (ext_data ext) [unat (2 * data_length ext)]) (\<lambda>bs.
       Conv (ext\<lparr>ext_data := bs\<rparr>, ACTION_OUI_DATA_MASK_TOKEN))"

definition validate_and_convert_data_mask :: converter where
  "validate_and_convert_data_mask lib token ext =
     (let data_mask_len = (if data_length ext mod 8 = 0 then data_length ext div 8 else data_length ext div 8 + 1)
      in if unat data_mask_len > ACTION_OUI_MAX_DATA_MASK_LENGTH then Rejected
         else conv_bind (action_oui_string_to_hex lib token (ext_data_mask ext) [unat (2 * data_mask_len)]) (\<lambda>bs.
           Conv (ext\<lparr>ext_data_mask := bs, data_mask_length := data_mask_len\<rparr>, ACTION_OUI_INFO_MASK_TOKEN)))"

definition validate_and_convert_info_mask :: converter where
  "validate_and_convert_info_mask lib token ext0 =
     (if length token \<noteq> 2 then Rejected
      else case kstrtou8_16 lib token of
             None \<Rightarrow> Rejected
           | Some hex_value \<Rightarrow>
               let mask :: u32 = ucast hex_value;
                   ext = ext0\<lparr>info_mask := mask\<rparr>
               in if mask = 0 \<or> mask AND NOT ACTION_OUI_INFO_OUI = 0 then Conv (ext, ACTION_OUI_END_TOKEN)
                  else if mask AND NOT ACTION_OUI_INFO_MASK \<noteq> 0 then Rejected
                  else let ext1 = (if mask AND ACTION_OUI_INFO_OUI = 0
                                   then ext\<lparr>oui_length := 0, data_length := 0, data_mask_length := 0\<rparr> else ext)
                       in Conv (ext1, if mask AND ACTION_OUI_INFO_MAC_ADDRESS \<noteq> 0 then ACTION_OUI_MAC_ADDR_TOKEN
                                      else ACTION_OUI_CAPABILITY_TOKEN))"

definition validate_and_convert_mac_addr :: converter where
  "validate_and_convert_mac_addr lib token ext =
     conv_bind (action_oui_string_to_hex lib token (ext_mac_addr ext) [2 * QDF_MAC_ADDR_SIZE]) (\<lambda>bs.
       Conv (ext\<lparr>ext_mac_addr := bs, mac_addr_length := of_nat QDF_MAC_ADDR_SIZE\<rparr>, ACTION_OUI_MAC_MASK_TOKEN))"

definition validate_and_convert_mac_mask :: converter where
  "validate_and_convert_mac_mask lib token ext =
     conv_bind (action_oui_string_to_hex lib token (ext_mac_mask ext) [2]) (\<lambda>bs.
       if length token div 2 > ACTION_OUI_MAC_MASK_LENGTH then Rejected
       else Conv (ext\<lparr>ext_mac_mask := bs, mac_mask_length := of_nat (length token div 2)\<rparr>,
              if info_mask ext AND ACTION_OUI_INFO_AP_CAPABILITY_NSS \<noteq> 0 \<or>
                 info_mask ext AND ACTION_OUI_INFO_AP_CAPABILITY_HT \<noteq> 0 \<or>
                 info_mask ext AND ACTION_OUI_INFO_AP_CAPABILITY_VHT \<noteq> 0 \<or>
                 info_mask ext AND ACTION_OUI_INFO_AP_CAPABILITY_BAND \<noteq> 0
              then ACTION_OUI_CAPABILITY_TOKEN else ACTION_OUI_END_TOKEN))"

definition validate_and_convert_capability :: converter where
  "validate_and_convert_capability lib token ext =
     conv_bind (action_oui_string_to_hex lib token (ext_capability ext) [2]) (\<lambda>bs.
       if length token div 2 > ACTION_OUI_MAX_CAPABILITY_LENGTH then Rejected
       else let caps_0 = bs ! 0
            in if info_mask ext AND ACTION_OUI_INFO_AP_CAPABILITY_NSS \<noteq> 0 \<and>
                  caps_0 AND ACTION_OUI_CAPABILITY_NSS_MASK = 0 then Rejected
               else if info_mask ext AND ACTION_OUI_INFO_AP_CAPABILITY_BAND \<noteq> 0 \<and>
                  caps_0 AND ACTION_OUI_CAPABILITY_BAND_MASK = 0 then Rejected
               else Conv (ext\<lparr>ext_capability := bs, capability_length := of_nat (length token div 2)\<rparr>,
                      ACTION_OUI_END_TOKEN))"

text \<open>The \<^verbatim>\<open>switch\<close> of the loop.\<close>

definition convert :: "action_oui_token_type \<Rightarrow> converter" where
  "convert action_token lib token ext =
     (case action_token of
        ACTION_OUI_TOKEN \<Rightarrow> validate_and_convert_oui lib token ext
      | ACTION_OUI_DATA_LENGTH_TOKEN \<Rightarrow> validate_and_convert_data_length lib token ext
      | ACTION_OUI_DATA_TOKEN \<Rightarrow> validate_and_convert_data lib token ext
      | ACTION_OUI_DATA_MASK_TOKEN \<Rightarrow> validate_and_convert_data_mask lib token ext
      | ACTION_OUI_INFO_MASK_TOKEN \<Rightarrow> validate_and_convert_info_mask lib token ext
      | ACTION_OUI_MAC_ADDR_TOKEN \<Rightarrow> validate_and_convert_mac_addr lib token ext
      | ACTION_OUI_MAC_MASK_TOKEN \<Rightarrow> validate_and_convert_mac_mask lib token ext
      | ACTION_OUI_CAPABILITY_TOKEN \<Rightarrow> validate_and_convert_capability lib token ext
      | ACTION_OUI_END_TOKEN \<Rightarrow> Rejected)"

section \<open>The parser\<close>

text \<open>\<open>mem\<close> is the outcome of the allocation.\<close>

definition action_oui_extension_store ::
  "bool \<Rightarrow> nat \<Rightarrow> action_oui_extension \<Rightarrow> action_oui_psoc_priv \<Rightarrow> QDF_STATUS \<times> action_oui_psoc_priv" where
  "action_oui_extension_store mem action_id ext psoc_priv =
     (case oui_priv psoc_priv ! action_id of
        None \<Rightarrow> (QDF_STATUS_E_INVAL, psoc_priv)
      | Some p \<Rightarrow>
          if length (extension_list p) = ACTION_OUI_MAX_EXTENSIONS then (QDF_STATUS_E_FAILURE, psoc_priv)
          else if \<not> mem then (QDF_STATUS_E_NOMEM, psoc_priv)
          else (QDF_STATUS_SUCCESS,
                psoc_priv\<lparr>oui_priv := (oui_priv psoc_priv)[action_id :=
                              Some (p\<lparr>extension_list := extension_list p @ [ext]\<rparr>)],
                          total_extensions := total_extensions psoc_priv + 1\<rparr>))"

text \<open>\<^verbatim>\<open>strsep(&s, " ")\<close>: the token and what is left of the string.\<close>

definition strsep :: "string \<Rightarrow> string \<times> string option" where
  "strsep s = (takeWhile (\<lambda>c. c \<noteq> CHR '' '') s,
     case dropWhile (\<lambda>c. c \<noteq> CHR '' '') s of [] \<Rightarrow> None | c # s' \<Rightarrow> Some s')"

record parse_state =
  ps_priv :: action_oui_psoc_priv
  ps_ext :: action_oui_extension
  ps_token :: action_oui_token_type
  ps_valid :: bool
  ps_exceed :: bool
  ps_index :: nat
  ps_str :: "string option"
  ps_overrun :: bool

text \<open>One iteration of the loop, and whether there is another one.\<close>

definition parse_step :: "oui_lib \<Rightarrow> (nat \<Rightarrow> bool) \<Rightarrow> nat \<Rightarrow> string \<Rightarrow> parse_state \<Rightarrow> parse_state \<times> bool" where
  "parse_step lib mem action_id str1 s =
     (let str2 = qdf_str_left_trim lib str1
      in if str2 = [] then (s\<lparr>ps_valid := False\<rparr>, False)
         else
           let (token, rest) = strsep str2;
               s1 = s\<lparr>ps_str := rest\<rparr>
           in (case convert (ps_token s) lib token (ps_ext s) of
                 Overrun \<Rightarrow> (s1\<lparr>ps_overrun := True\<rparr>, False)
               | Rejected \<Rightarrow> (s1\<lparr>ps_valid := False\<rparr>, False)
               | Conv (ext, tok) \<Rightarrow>
                   let s2 = s1\<lparr>ps_ext := ext, ps_token := tok\<rparr>
                   in if tok \<noteq> ACTION_OUI_END_TOKEN then (s2, True)
                      else
                        let (status, priv) = action_oui_extension_store (mem (ps_index s)) action_id ext (ps_priv s);
                            s3 = s2\<lparr>ps_priv := priv\<rparr>
                        in if \<not> QDF_IS_STATUS_SUCCESS status then (s3\<lparr>ps_valid := False\<rparr>, False)
                           else
                             let s4 = s3\<lparr>ps_index := ps_index s + 1\<rparr>
                             in if ps_index s4 = ACTION_OUI_MAX_EXTENSIONS
                                then (s4\<lparr>ps_exceed := (rest \<noteq> None)\<rparr>, False)
                                else (s4\<lparr>ps_token := ACTION_OUI_TOKEN, ps_ext := zero_extension\<rparr>, True)))"

partial_function (option) parse_loop ::
  "oui_lib \<Rightarrow> (nat \<Rightarrow> bool) \<Rightarrow> nat \<Rightarrow> parse_state \<Rightarrow> parse_state option" where
  "parse_loop lib mem action_id s =
     (case ps_str s of
        None \<Rightarrow> Some s
      | Some str1 \<Rightarrow>
          let r = parse_step lib mem action_id str1 s
          in if snd r then parse_loop lib mem action_id (fst r) else Some (fst r))"

declare parse_loop.simps [code]

definition parse_start :: "oui_lib \<Rightarrow> string \<Rightarrow> action_oui_psoc_priv \<Rightarrow> parse_state" where
  "parse_start lib oui_string psoc_priv =
     \<lparr>ps_priv = psoc_priv, ps_ext = zero_extension, ps_token = ACTION_OUI_TOKEN, ps_valid = True,
      ps_exceed = False, ps_index = 0, ps_str = Some (qdf_str_trim lib oui_string), ps_overrun = False\<rparr>"

text \<open>
  The status and the object, or \<open>Inl ()\<close> if an array was overrun; \<open>None\<close> if
  the loop does not end.
\<close>

definition action_oui_parse ::
  "oui_lib \<Rightarrow> (nat \<Rightarrow> bool) \<Rightarrow> string option \<Rightarrow> nat \<Rightarrow> action_oui_psoc_priv \<Rightarrow>
     (unit + QDF_STATUS \<times> action_oui_psoc_priv) option" where
  "action_oui_parse lib mem oui_string action_id psoc_priv =
     (case oui_string of
        None \<Rightarrow> Some (Inr (QDF_STATUS_E_INVAL, psoc_priv))
      | Some str \<Rightarrow>
          if oui_priv psoc_priv ! action_id = None then Some (Inr (QDF_STATUS_E_INVAL, psoc_priv))
          else case parse_loop lib mem action_id (parse_start lib str psoc_priv) of
                 None \<Rightarrow> None
               | Some s \<Rightarrow>
                   if ps_overrun s then Some (Inl ())
                   else if ps_exceed s then Some (Inr (QDF_STATUS_SUCCESS, ps_priv s))
                   else if ps_index s = 0 then Some (Inr (QDF_STATUS_E_INVAL, ps_priv s))
                   else Some (Inr (QDF_STATUS_SUCCESS, ps_priv s)))"

section \<open>Sending\<close>

record action_oui_request =
  req_action_id :: nat
  no_oui_extensions :: u32
  total_no_oui_extensions :: u32
  req_extension :: "action_oui_extension list"

text \<open>
  The status and the request handed to the target layer; \<open>send\<close> is the status of
  the registered call-back, if there is one.
\<close>

definition tgt_action_oui_send :: "QDF_STATUS option \<Rightarrow> action_oui_request \<Rightarrow> QDF_STATUS \<times> action_oui_request option" where
  "tgt_action_oui_send send req =
     (case send of None \<Rightarrow> (QDF_STATUS_E_FAILURE, None) | Some status \<Rightarrow> (status, Some req))"

definition action_oui_send ::
  "bool \<Rightarrow> QDF_STATUS option \<Rightarrow> nat \<Rightarrow> action_oui_psoc_priv \<Rightarrow> QDF_STATUS \<times> action_oui_request option" where
  "action_oui_send mem send action_id psoc_priv =
     (case oui_priv psoc_priv ! action_id of
        None \<Rightarrow> (QDF_STATUS_SUCCESS, None)
      | Some p \<Rightarrow>
          if extension_list p = [] then (QDF_STATUS_SUCCESS, None)
          else if \<not> mem then (QDF_STATUS_E_NOMEM, None)
          else tgt_action_oui_send send
                 \<lparr>req_action_id = oui_id p, no_oui_extensions = of_nat (length (extension_list p)),
                  total_no_oui_extensions = total_extensions psoc_priv, req_extension = extension_list p\<rparr>)"

section \<open>Life cycle\<close>

text \<open>
  \<open>mem i\<close> is the outcome of the i-th allocation.  The second component counts the
  allocated objects that nothing points to any more.
\<close>

fun allocate_from :: "(nat \<Rightarrow> bool) \<Rightarrow> nat \<Rightarrow> nat \<Rightarrow> action_oui_psoc_priv \<Rightarrow> nat \<times> action_oui_psoc_priv" where
  "allocate_from mem i 0 psoc_priv = (i, psoc_priv)"
| "allocate_from mem i (Suc n) psoc_priv =
     (if mem i
      then allocate_from mem (Suc i) n
             (psoc_priv\<lparr>oui_priv := (oui_priv psoc_priv)[i := Some \<lparr>oui_id = i, extension_list = []\<rparr>]\<rparr>)
      else (i, psoc_priv))"

definition action_oui_allocate ::
  "(nat \<Rightarrow> bool) \<Rightarrow> action_oui_psoc_priv \<Rightarrow> QDF_STATUS \<times> nat \<times> action_oui_psoc_priv" where
  "action_oui_allocate mem psoc_priv =
     (let (i, p) = allocate_from mem 0 ACTION_OUI_MAXIMUM_ID psoc_priv
      in if i = ACTION_OUI_MAXIMUM_ID then (QDF_STATUS_SUCCESS, 0, p)
         else (QDF_STATUS_E_NOMEM,
               length (filter (\<lambda>j. oui_priv p ! j \<noteq> None) [0..<i]),
               p\<lparr>oui_priv := fold (\<lambda>j l. l[j := None]) [0..<i] (oui_priv p)\<rparr>))"

definition action_oui_destroy :: "action_oui_psoc_priv \<Rightarrow> action_oui_psoc_priv" where
  "action_oui_destroy psoc_priv =
     psoc_priv\<lparr>total_extensions := 0,
       oui_priv := fold (\<lambda>i l. l[i := None]) [0..<ACTION_OUI_MAXIMUM_ID] (oui_priv psoc_priv)\<rparr>"

definition zero_psoc_priv :: action_oui_psoc_priv where
  "zero_psoc_priv = \<lparr>total_extensions = 0, oui_priv = replicate ACTION_OUI_MAXIMUM_ID None\<rparr>"

text \<open>The status, the object attached to the psoc, if any, and the number of lost allocations.\<close>

definition action_oui_psoc_create_notification ::
  "bool \<Rightarrow> QDF_STATUS \<Rightarrow> (nat \<Rightarrow> bool) \<Rightarrow> QDF_STATUS \<times> action_oui_psoc_priv option \<times> nat" where
  "action_oui_psoc_create_notification mem attach mems =
     (if \<not> mem then (QDF_STATUS_E_NOMEM, None, 0)
      else if \<not> QDF_IS_STATUS_SUCCESS attach then (QDF_STATUS_E_INVAL, None, 0)
      else case action_oui_allocate mems zero_psoc_priv of
             (status, lost, p) \<Rightarrow>
               if QDF_IS_STATUS_SUCCESS status then (status, Some p, lost) else (QDF_STATUS_E_INVAL, None, lost))"

definition action_oui_psoc_destroy_notification ::
  "QDF_STATUS \<Rightarrow> action_oui_psoc_priv option \<Rightarrow> QDF_STATUS \<times> action_oui_psoc_priv option" where
  "action_oui_psoc_destroy_notification detach p =
     (case p of None \<Rightarrow> (QDF_STATUS_E_FAILURE, None) | Some q \<Rightarrow> (detach, None))"

end
