(* ===== verification/Oui_Search.thy ===== *)
theory Oui_Search
  imports Oui_Parse
begin

text \<open>
  Matching an access point against the stored extensions, \<^verbatim>\<open>action_oui_search\<close> and its
  helpers in \<^verbatim>\<open>wlan_action_oui_parse.c\<close>, and the public functions of
  \<^verbatim>\<open>wlan_action_oui_ucfg_api.c\<close>.  A read outside an array, or a shift by an amount for
  which C leaves the result undefined, is the result \<open>None\<close>.  The search for a vendor
  element, \<^verbatim>\<open>wlan_get_vendor_ie_ptr_from_oui\<close>, is outside the repository: it is the
  parameter \<open>vie\<close>, which returns the bytes from the element on.
\<close>

record action_oui_search_attr =
  ie_data :: "u8 list option"
  ie_length :: u32
  attr_mac_addr :: "u8 list"
  nss :: u32
  ht_cap :: bool
  vht_cap :: bool
  enable_2g :: bool
  enable_5g :: bool

type_synonym vendor_ie = "u8 list \<Rightarrow> u32 \<Rightarrow> u8 list \<Rightarrow> u32 \<Rightarrow> u8 list option"

definition elem_at :: "'a list \<Rightarrow> nat \<Rightarrow> 'a option" where
  "elem_at xs i = (if i < length xs then Some (xs ! i) else None)"

lemma elem_at_simps [simp]:
  "i < length xs \<Longrightarrow> elem_at xs i = Some (xs ! i)"
  "\<not> i < length xs \<Longrightarrow> elem_at xs i = None"
  by (simp_all add: elem_at_def)

section \<open>Vendor data\<close>

text \<open>The comparison of one byte, made only if the mask selects it.\<close>

definition byte_differs :: "u8 \<Rightarrow> u8 \<Rightarrow> u8 option \<Rightarrow> u8 option \<Rightarrow> bool option" where
  "byte_differs m bit_mask x y =
     (if m AND bit_mask = 0 then Some False
      else case (x, y) of (Some a, Some b) \<Rightarrow> Some (a \<noteq> b) | _ \<Rightarrow> None)"

function data_loop :: "action_oui_extension \<Rightarrow> u8 list \<Rightarrow> nat \<Rightarrow> nat \<Rightarrow> nat \<Rightarrow> u8 \<Rightarrow> bool option" where
  "data_loop ext data data_len i j bit_mask =
     (if i < data_len \<and> j < unat (data_mask_length ext)
      then case elem_at (ext_data_mask ext) j of
             None \<Rightarrow> None
           | Some m \<Rightarrow>
               (case byte_differs m bit_mask (elem_at (ext_data ext) i) (elem_at data i) of
                  None \<Rightarrow> None
                | Some True \<Rightarrow> Some False
                | Some False \<Rightarrow>
                    if drop_bit 1 bit_mask = 0 then data_loop ext data data_len (Suc i) (Suc j) 0x80
                    else data_loop ext data data_len (Suc i) j (drop_bit 1 bit_mask))
      else Some True)"
  by pat_completeness auto
termination by (relation "measure (\<lambda>(ext, data, data_len, i, j, bit_mask). data_len - i)") auto

declare data_loop.simps [simp del]

definition check_for_vendor_oui_data :: "action_oui_extension \<Rightarrow> u8 list option \<Rightarrow> bool option" where
  "check_for_vendor_oui_data ext oui_ptr =
     (case oui_ptr of
        None \<Rightarrow> Some False
      | Some p \<Rightarrow>
          (case elem_at p 1 of
             None \<Rightarrow> None
           | Some elem_len \<Rightarrow>
               if (ucast elem_len :: u32) < oui_length ext then Some False
               else let data_len :: u8 = ucast ((ucast elem_len :: u32) - oui_length ext)
                    in if (ucast data_len :: u32) < data_length ext then Some False
                       else data_loop ext (drop (2 + unat (oui_length ext)) p) (unat data_len) 0 0 0x80))"

section \<open>Address and capabilities\<close>

fun mac_loop :: "u8 \<Rightarrow> u8 list \<Rightarrow> u8 list \<Rightarrow> nat \<Rightarrow> nat \<Rightarrow> u8 \<Rightarrow> bool option" where
  "mac_loop m a b 0 i bit_mask = Some True"
| "mac_loop m a b (Suc n) i bit_mask =
     (case byte_differs m bit_mask (elem_at a i) (elem_at b i) of
        None \<Rightarrow> None
      | Some True \<Rightarrow> Some False
      | Some False \<Rightarrow> mac_loop m a b n (Suc i) (drop_bit 1 bit_mask))"

definition check_for_vendor_ap_mac :: "action_oui_extension \<Rightarrow> action_oui_search_attr \<Rightarrow> bool option" where
  "check_for_vendor_ap_mac ext attr =
     (case elem_at (ext_mac_mask ext) 0 of
        None \<Rightarrow> None
      | Some m \<Rightarrow> mac_loop m (ext_mac_addr ext) (attr_mac_addr attr) QDF_MAC_ADDR_SIZE 0 0x80)"

text \<open>\<^verbatim>\<open>1 << (attr->nss - 1)\<close>, an \<^verbatim>\<open>int\<close> stored in a byte.\<close>

definition nss_shift :: "u32 \<Rightarrow> u8 option" where
  "nss_shift n = (if 1 \<le> n \<and> n \<le> 31 then Some (push_bit (unat n - 1) 1) else None)"

definition check_for_vendor_ap_capabilities ::
  "action_oui_extension \<Rightarrow> action_oui_search_attr \<Rightarrow> bool option" where
  "check_for_vendor_ap_capabilities ext attr =
     (case elem_at (ext_capability ext) 0 of
        None \<Rightarrow> None
      | Some cap \<Rightarrow>
          (let nss_ok =
             (if info_mask ext AND ACTION_OUI_INFO_AP_CAPABILITY_NSS \<noteq> 0
              then map_option (\<lambda>nss_mask. cap AND ACTION_OUI_CAPABILITY_NSS_MASK AND nss_mask \<noteq> 0) (nss_shift (nss attr))
              else Some True)
           in case nss_ok of
                None \<Rightarrow> None
              | Some False \<Rightarrow> Some False
              | Some True \<Rightarrow>
                  if info_mask ext AND ACTION_OUI_INFO_AP_CAPABILITY_HT \<noteq> 0 \<and>
                     (cap AND ACTION_OUI_CAPABILITY_HT_ENABLE_MASK \<noteq> 0) \<noteq> ht_cap attr then Some False
                  else if info_mask ext AND ACTION_OUI_INFO_AP_CAPABILITY_VHT \<noteq> 0 \<and>
                     (cap AND ACTION_OUI_CAPABILITY_VHT_ENABLE_MASK \<noteq> 0) \<noteq> vht_cap attr then Some False
                  else if info_mask ext AND ACTION_OUI_INFO_AP_CAPABILITY_BAND \<noteq> 0 \<and>
                     (enable_5g attr \<and> cap AND ACTION_CAPABILITY_5G_BAND_MASK = 0 \<or>
                      enable_2g attr \<and> cap AND ACTION_OUI_CAPABILITY_2G_BAND_MASK = 0) then Some False
                  else Some True))"

section \<open>Search\<close>

definition action_oui_get_oui_ptr ::
  "vendor_ie \<Rightarrow> action_oui_extension \<Rightarrow> action_oui_search_attr \<Rightarrow> u8 list option" where
  "action_oui_get_oui_ptr vie ext attr =
     (case ie_data attr of
        None \<Rightarrow> None
      | Some d \<Rightarrow> if ie_length attr = 0 then None else vie (ext_oui ext) (oui_length ext) d (ie_length attr))"

text \<open>The body of the loop: whether the extension matches.\<close>

definition search_one :: "vendor_ie \<Rightarrow> action_oui_search_attr \<Rightarrow> action_oui_extension \<Rightarrow> bool option" where
  "search_one vie attr ext =
     (let wildcard_oui = (info_mask ext AND ACTION_OUI_INFO_OUI = 0);
          oui_ptr = action_oui_get_oui_ptr vie ext attr;
          data_ok = (if data_length ext \<noteq> 0 \<and> \<not> wildcard_oui then check_for_vendor_oui_data ext oui_ptr else Some True);
          mac_ok = (if info_mask ext AND ACTION_OUI_INFO_MAC_ADDRESS \<noteq> 0 then check_for_vendor_ap_mac ext attr else Some True)
      in if oui_ptr = None \<and> \<not> wildcard_oui then Some False
         else case data_ok of
                None \<Rightarrow> None
              | Some False \<Rightarrow> Some False
              | Some True \<Rightarrow>
                  (case mac_ok of
                     None \<Rightarrow> None
                   | Some False \<Rightarrow> Some False
                   | Some True \<Rightarrow> check_for_vendor_ap_capabilities ext attr))"

fun search_loop :: "vendor_ie \<Rightarrow> action_oui_search_attr \<Rightarrow> action_oui_extension list \<Rightarrow> bool option" where
  "search_loop vie attr [] = Some False"
| "search_loop vie attr (ext # exts) =
     (case search_one vie attr ext of
        None \<Rightarrow> None
      | Some True \<Rightarrow> Some True
      | Some False \<Rightarrow> search_loop vie attr exts)"

definition action_oui_search ::
  "vendor_ie \<Rightarrow> action_oui_search_attr \<Rightarrow> nat \<Rightarrow> action_oui_psoc_priv \<Rightarrow> bool option" where
  "action_oui_search vie attr action_id psoc_priv =
     (case oui_priv psoc_priv ! action_id of
        None \<Rightarrow> Some False
      | Some p \<Rightarrow> search_loop vie attr (extension_list p))"

section \<open>Public functions\<close>

definition ACTION_OUI_MAX_STR_LEN :: nat where "ACTION_OUI_MAX_STR_LEN = 840"
definition ACTION_OUI_HOST_ONLY :: nat where "ACTION_OUI_HOST_ONLY = 10"

definition ucfg_action_oui_parse ::
  "oui_lib \<Rightarrow> bool \<Rightarrow> (nat \<Rightarrow> bool) \<Rightarrow> string \<Rightarrow> nat \<Rightarrow> action_oui_psoc_priv option \<Rightarrow>
     (unit + QDF_STATUS \<times> action_oui_psoc_priv option) option" where
  "ucfg_action_oui_parse lib str_mem mem in_str action_id psoc_priv =
     (if action_id \<ge> ACTION_OUI_MAXIMUM_ID then Some (Inr (QDF_STATUS_E_INVAL, psoc_priv))
      else case psoc_priv of
             None \<Rightarrow> Some (Inr (QDF_STATUS_E_INVAL, None))
           | Some p \<Rightarrow>
               if length in_str = 0 \<or> length in_str > ACTION_OUI_MAX_STR_LEN - 1
               then Some (Inr (QDF_STATUS_E_INVAL, psoc_priv))
               else if \<not> str_mem then Some (Inr (QDF_STATUS_E_NOMEM, psoc_priv))
               else map_option (map_sum id (map_prod id Some)) (action_oui_parse lib mem (Some in_str) action_id p))"

text \<open>The status of the last call and the requests that were handed over.\<close>

definition ucfg_action_oui_send ::
  "(nat \<Rightarrow> bool) \<Rightarrow> (nat \<Rightarrow> QDF_STATUS option) \<Rightarrow> action_oui_psoc_priv option \<Rightarrow>
     QDF_STATUS \<times> action_oui_request list" where
  "ucfg_action_oui_send mem send psoc_priv =
     (case psoc_priv of
        None \<Rightarrow> (QDF_STATUS_E_INVAL, [])
      | Some p \<Rightarrow>
          foldl (\<lambda>(status, reqs) i.
            if i \<ge> ACTION_OUI_HOST_ONLY then (status, reqs)
            else case action_oui_send (mem i) (send i) i p of
                   (st, None) \<Rightarrow> (st, reqs)
                 | (st, Some r) \<Rightarrow> (st, reqs @ [r]))
          (QDF_STATUS_E_INVAL, []) [0..<ACTION_OUI_MAXIMUM_ID])"

definition ucfg_action_oui_search ::
  "vendor_ie \<Rightarrow> action_oui_search_attr option \<Rightarrow> nat \<Rightarrow> action_oui_psoc_priv option \<Rightarrow> bool option" where
  "ucfg_action_oui_search vie attr action_id psoc_priv =
     (case attr of
        None \<Rightarrow> Some False
      | Some a \<Rightarrow>
          if action_id \<ge> ACTION_OUI_MAXIMUM_ID then Some False
          else case psoc_priv of None \<Rightarrow> Some False | Some p \<Rightarrow> action_oui_search vie a action_id p)"

end
