(* ===== verification/Oui_Inv.thy ===== *)
theory Oui_Inv
  imports Oui_Search
begin

text \<open>
  The parser of the action OUI strings: what is known of the extension under construction at
  each expected token, the contract \<open>token_stage\<close> that each conversion function keeps,
  and the total correctness of the loop.
\<close>

section \<open>What the parser needs of the string functions\<close>

definition lib_ok :: "oui_lib \<Rightarrow> bool" where
  "lib_ok lib \<longleftrightarrow> (\<forall>s. length (qdf_str_left_trim lib s) \<le> length s) \<and>
     (\<forall>s n bs. qdf_hex_str_to_binary lib s n = Some bs \<longrightarrow> length bs = n)"

section \<open>Stages of an extension\<close>

definition arrays_ok :: "action_oui_extension \<Rightarrow> bool" where
  "arrays_ok e \<longleftrightarrow> length (ext_oui e) = ACTION_OUI_MAX_OUI_LENGTH \<and>
     length (ext_data e) = ACTION_OUI_MAX_DATA_LENGTH \<and>
     length (ext_data_mask e) = ACTION_OUI_MAX_DATA_MASK_LENGTH \<and>
     length (ext_mac_addr e) = QDF_MAC_ADDR_SIZE \<and>
     length (ext_mac_mask e) = ACTION_OUI_MAC_MASK_LENGTH \<and>
     length (ext_capability e) = ACTION_OUI_MAX_CAPABILITY_LENGTH"

definition data_ok :: "action_oui_extension \<Rightarrow> bool" where
  "data_ok e \<longleftrightarrow> unat (data_length e) \<le> ACTION_OUI_MAX_DATA_LENGTH \<and>
     unat (data_mask_length e) = (unat (data_length e) + 7) div 8"

definition has :: "u32 \<Rightarrow> u32 \<Rightarrow> bool" where
  "has m b \<longleftrightarrow> m AND b \<noteq> 0"

definition mac_ok :: "action_oui_extension \<Rightarrow> bool" where
  "mac_ok e \<longleftrightarrow> (if has (info_mask e) ACTION_OUI_INFO_MAC_ADDRESS
     then mac_addr_length e = 6 \<and> mac_mask_length e = 1 else mac_addr_length e = 0 \<and> mac_mask_length e = 0)"

definition wants_capability :: "action_oui_extension \<Rightarrow> bool" where
  "wants_capability e \<longleftrightarrow> has (info_mask e) ACTION_OUI_INFO_AP_CAPABILITY_NSS \<or>
     has (info_mask e) ACTION_OUI_INFO_AP_CAPABILITY_HT \<or> has (info_mask e) ACTION_OUI_INFO_AP_CAPABILITY_VHT \<or>
     has (info_mask e) ACTION_OUI_INFO_AP_CAPABILITY_BAND"

definition capability_ok :: "action_oui_extension \<Rightarrow> bool" where
  "capability_ok e \<longleftrightarrow> (wants_capability e \<longrightarrow> capability_length e = 1) \<and>
     (has (info_mask e) ACTION_OUI_INFO_AP_CAPABILITY_NSS \<longrightarrow>
        ext_capability e ! 0 AND ACTION_OUI_CAPABILITY_NSS_MASK \<noteq> 0) \<and>
     (has (info_mask e) ACTION_OUI_INFO_AP_CAPABILITY_BAND \<longrightarrow>
        ext_capability e ! 0 AND ACTION_OUI_CAPABILITY_BAND_MASK \<noteq> 0)"

text \<open>A complete extension.\<close>

definition ext_ok :: "action_oui_extension \<Rightarrow> bool" where
  "ext_ok e \<longleftrightarrow> arrays_ok e \<and> oui_length e \<in> {0, 3, 5} \<and> data_ok e \<and> mac_ok e \<and> capability_ok e"

fun ext_stage :: "action_oui_token_type \<Rightarrow> action_oui_extension \<Rightarrow> bool" where
  "ext_stage ACTION_OUI_TOKEN e = (arrays_ok e \<and> data_length e = 0 \<and> data_mask_length e = 0 \<and>
     mac_addr_length e = 0 \<and> mac_mask_length e = 0)"
| "ext_stage ACTION_OUI_DATA_LENGTH_TOKEN e = (arrays_ok e \<and> oui_length e \<in> {3, 5} \<and> data_mask_length e = 0 \<and>
     mac_addr_length e = 0 \<and> mac_mask_length e = 0)"
| "ext_stage ACTION_OUI_DATA_TOKEN e = (arrays_ok e \<and> oui_length e \<in> {3, 5} \<and>
     unat (data_length e) \<le> ACTION_OUI_MAX_DATA_LENGTH \<and> mac_addr_length e = 0 \<and> mac_mask_length e = 0)"
| "ext_stage ACTION_OUI_DATA_MASK_TOKEN e = (arrays_ok e \<and> oui_length e \<in> {3, 5} \<and>
     unat (data_length e) \<le> ACTION_OUI_MAX_DATA_LENGTH \<and> mac_addr_length e = 0 \<and> mac_mask_length e = 0)"
| "ext_stage ACTION_OUI_INFO_MASK_TOKEN e = (arrays_ok e \<and> oui_length e \<in> {3, 5} \<and> data_ok e \<and>
     mac_addr_length e = 0 \<and> mac_mask_length e = 0)"
| "ext_stage ACTION_OUI_MAC_ADDR_TOKEN e = (arrays_ok e \<and> oui_length e \<in> {0, 3, 5} \<and> data_ok e \<and>
     has (info_mask e) ACTION_OUI_INFO_MAC_ADDRESS)"
| "ext_stage ACTION_OUI_MAC_MASK_TOKEN e = (arrays_ok e \<and> oui_length e \<in> {0, 3, 5} \<and> data_ok e \<and>
     has (info_mask e) ACTION_OUI_INFO_MAC_ADDRESS \<and> mac_addr_length e = 6)"
| "ext_stage ACTION_OUI_CAPABILITY_TOKEN e = (arrays_ok e \<and> oui_length e \<in> {0, 3, 5} \<and> data_ok e \<and> mac_ok e)"
| "ext_stage ACTION_OUI_END_TOKEN e = ext_ok e"

lemmas stage_defs = arrays_ok_def data_ok_def mac_ok_def oui_sizes

lemma zero_stage: "ext_stage ACTION_OUI_TOKEN zero_extension"
  by (simp add: zero_extension_def arrays_ok_def oui_sizes)

section \<open>Conversions\<close>

lemma hex_safe:
  "\<forall>l \<in> set lens. l div 2 \<le> length arr \<Longrightarrow> action_oui_string_to_hex lib token arr lens \<noteq> Overrun"
  by (auto simp: action_oui_string_to_hex_def Let_def split: option.split)

lemma hex_Conv:
  assumes "lib_ok lib" "action_oui_string_to_hex lib token arr lens = Conv bs"
  shows "length bs = length arr \<and> length token \<in> set lens \<and> length token \<noteq> 0"
  using assms by (auto simp: action_oui_string_to_hex_def Let_def lib_ok_def split: if_splits option.splits)

lemma conv_bind_simps:
  "conv_bind c f = Overrun \<longleftrightarrow> c = Overrun \<or> (\<exists>x. c = Conv x \<and> f x = Overrun)"
  "conv_bind c f = Conv y \<longleftrightarrow> (\<exists>x. c = Conv x \<and> f x = Conv y)"
  by (auto simp: conv_bind_def split: conv.split)

text \<open>The contract of a conversion function: it never writes outside the extension, and what it
  accepts is an extension in the stage of the next token.\<close>

locale token_stage =
  fixes conv :: converter and tok :: action_oui_token_type
  assumes no_overrun: "lib_ok lib \<Longrightarrow> ext_stage tok e \<Longrightarrow> conv lib token e \<noteq> Overrun"
    and next_stage: "lib_ok lib \<Longrightarrow> ext_stage tok e \<Longrightarrow> conv lib token e = Conv (e', t) \<Longrightarrow> ext_stage t e'"
begin

lemma outcome:
  assumes "lib_ok lib" "ext_stage tok e"
  shows "conv lib token e = Rejected \<or> (\<exists>e' t. conv lib token e = Conv (e', t) \<and> ext_stage t e')"
proof (cases "conv lib token e")
  case (Conv x)
  obtain e' t where x: "x = (e', t)" by (cases x)
  then show ?thesis using next_stage [OF assms Conv [unfolded x]] Conv by blast
qed (use no_overrun [OF assms] in simp_all)

end

interpretation oui_stage: token_stage validate_and_convert_oui ACTION_OUI_TOKEN
proof
  fix lib token e e' t
  assume lib: "lib_ok lib" and e: "ext_stage ACTION_OUI_TOKEN e"
  have "action_oui_string_to_hex lib token (ext_oui e) [6, 10] \<noteq> Overrun"
    by (rule hex_safe) (use e in \<open>simp add: stage_defs\<close>)
  then show "validate_and_convert_oui lib token e \<noteq> Overrun"
    by (simp add: validate_and_convert_oui_def conv_bind_simps)
  assume "validate_and_convert_oui lib token e = Conv (e', t)"
  then show "ext_stage t e'"
    using e by (auto simp: validate_and_convert_oui_def conv_bind_simps stage_defs dest!: hex_Conv [OF lib])
qed

lemma unat_ucast_u8 [simp]: "unat (ucast (x :: u8) :: u32) = unat x"
  using unsigned_less [of x, where ?'a = nat] by (simp add: unsigned_ucast_eq take_bit_nat_eq_self)

interpretation data_length_stage: token_stage validate_and_convert_data_length ACTION_OUI_DATA_LENGTH_TOKEN
  by unfold_locales
    (auto simp: validate_and_convert_data_length_def stage_defs
      split: if_splits option.splits)

interpretation data_stage: token_stage validate_and_convert_data ACTION_OUI_DATA_TOKEN
proof
  fix lib token e e' t
  assume lib: "lib_ok lib" and e: "ext_stage ACTION_OUI_DATA_TOKEN e"
  have "unat (2 * data_length e) = 2 * unat (data_length e)"
    using e by (simp add: stage_defs unat_word_ariths)
  then have "action_oui_string_to_hex lib token (ext_data e) [unat (2 * data_length e)] \<noteq> Overrun"
    by (intro hex_safe) (use e in \<open>simp add: stage_defs\<close>)
  then show "validate_and_convert_data lib token e \<noteq> Overrun"
    by (simp add: validate_and_convert_data_def conv_bind_simps)
  assume "validate_and_convert_data lib token e = Conv (e', t)"
  then show "ext_stage t e'"
    using e by (auto simp: validate_and_convert_data_def conv_bind_simps stage_defs dest!: hex_Conv [OF lib])
qed

text \<open>The length of the mask, in whole bytes.\<close>

lemma mask_length:
  assumes "unat (d :: u32) \<le> 20"
  shows "unat (if d mod 8 = 0 then d div 8 else d div 8 + 1) = (unat d + 7) div 8"
proof -
  have m: "d mod 8 = 0 \<longleftrightarrow> unat d mod 8 = 0"
    by (simp add: word_unat_eq_iff unat_mod)
  have "unat (d div 8 + 1) = unat d div 8 + 1"
    using assms by (simp add: unat_word_ariths unat_div)
  then show ?thesis using m by (auto simp: unat_div) presburger+
qed

interpretation data_mask_stage: token_stage validate_and_convert_data_mask ACTION_OUI_DATA_MASK_TOKEN
proof
  fix lib token and e e' :: action_oui_extension and t
  let ?n = "if data_length e mod 8 = 0 then data_length e div 8 else data_length e div 8 + 1"
  assume lib: "lib_ok lib" and e: "ext_stage ACTION_OUI_DATA_MASK_TOKEN e"
  have n: "unat ?n = (unat (data_length e) + 7) div 8"
    using e by (intro mask_length) (simp add: stage_defs)
  have "unat (data_length e) \<le> 20" using e by (simp add: stage_defs)
  then have n3: "unat ?n \<le> 3" unfolding n by presburger
  then have "unat (2 * ?n) div 2 \<le> 3" by (simp only: unat_word_ariths) simp
  then have "action_oui_string_to_hex lib token (ext_data_mask e) [unat (2 * ?n)] \<noteq> Overrun"
    by (intro hex_safe) (use e in \<open>simp add: arrays_ok_def oui_sizes\<close>)
  then show "validate_and_convert_data_mask lib token e \<noteq> Overrun"
    unfolding validate_and_convert_data_mask_def Let_def by (simp add: conv_bind_simps)
  assume "validate_and_convert_data_mask lib token e = Conv (e', t)"
  then obtain bs where "e' = e\<lparr>ext_data_mask := bs, data_mask_length := ?n\<rparr>" "t = ACTION_OUI_INFO_MASK_TOKEN"
      "length bs = length (ext_data_mask e)"
    by (auto simp: validate_and_convert_data_mask_def Let_def conv_bind_simps dest!: hex_Conv [OF lib] split: if_splits)
  then show "ext_stage t e'" using e n by (simp add: arrays_ok_def data_ok_def)
qed

lemma info_only_oui:
  assumes "m AND NOT ACTION_OUI_INFO_OUI = 0"
  shows "\<not> has m ACTION_OUI_INFO_MAC_ADDRESS \<and> \<not> has m ACTION_OUI_INFO_AP_CAPABILITY_NSS \<and>
    \<not> has m ACTION_OUI_INFO_AP_CAPABILITY_HT \<and> \<not> has m ACTION_OUI_INFO_AP_CAPABILITY_VHT \<and>
    \<not> has m ACTION_OUI_INFO_AP_CAPABILITY_BAND"
proof -
  have "\<not> has m b" if "NOT ACTION_OUI_INFO_OUI AND b = b" for b
    using assms that unfolding has_def by (metis and.assoc and_zero_eq bit.conj_zero_left)
  then show ?thesis by (simp add: oui_info_bits)
qed

interpretation info_mask_stage: token_stage validate_and_convert_info_mask ACTION_OUI_INFO_MASK_TOKEN
proof
  fix lib token and e e' :: action_oui_extension and t
  assume e: "ext_stage ACTION_OUI_INFO_MASK_TOKEN e"
  show "validate_and_convert_info_mask lib token e \<noteq> Overrun"
    by (simp add: validate_and_convert_info_mask_def Let_def split: option.split)
  assume c: "validate_and_convert_info_mask lib token e = Conv (e', t)"
  then obtain v where v: "kstrtou8_16 lib token = Some v" and len: "length token = 2"
    by (auto simp: validate_and_convert_info_mask_def split: if_splits option.splits)
  let ?m = "ucast v :: u32"
  have c': "(if ?m = 0 \<or> ?m AND NOT ACTION_OUI_INFO_OUI = 0 then Conv (e\<lparr>info_mask := ?m\<rparr>, ACTION_OUI_END_TOKEN)
      else if ?m AND NOT ACTION_OUI_INFO_MASK \<noteq> 0 then Rejected
      else Conv (if ?m AND ACTION_OUI_INFO_OUI = 0
          then e\<lparr>info_mask := ?m, oui_length := 0, data_length := 0, data_mask_length := 0\<rparr> else e\<lparr>info_mask := ?m\<rparr>,
        if has ?m ACTION_OUI_INFO_MAC_ADDRESS then ACTION_OUI_MAC_ADDR_TOKEN else ACTION_OUI_CAPABILITY_TOKEN)) = Conv (e', t)"
    using c by (simp only: validate_and_convert_info_mask_def Let_def has_def v len option.case simp_thms if_False)
  show "ext_stage t e'"
  proof (cases "?m = 0 \<or> ?m AND NOT ACTION_OUI_INFO_OUI = 0")
    case True
    then have "?m AND NOT ACTION_OUI_INFO_OUI = 0" by auto
    from info_only_oui [OF this] show ?thesis
      using c' True e by (auto simp: ext_ok_def arrays_ok_def data_ok_def mac_ok_def capability_ok_def wants_capability_def)
  next
    case False
    have "e' = (if ?m AND ACTION_OUI_INFO_OUI = 0
          then e\<lparr>info_mask := ?m, oui_length := 0, data_length := 0, data_mask_length := 0\<rparr> else e\<lparr>info_mask := ?m\<rparr>)"
      and "t = (if has ?m ACTION_OUI_INFO_MAC_ADDRESS then ACTION_OUI_MAC_ADDR_TOKEN else ACTION_OUI_CAPABILITY_TOKEN)"
      using c' False by (auto split: if_splits)
    then show ?thesis using e by (auto simp: arrays_ok_def data_ok_def mac_ok_def)
  qed
qed

interpretation mac_addr_stage: token_stage validate_and_convert_mac_addr ACTION_OUI_MAC_ADDR_TOKEN
proof
  fix lib token and e e' :: action_oui_extension and t
  assume lib: "lib_ok lib" and e: "ext_stage ACTION_OUI_MAC_ADDR_TOKEN e"
  have "action_oui_string_to_hex lib token (ext_mac_addr e) [2 * QDF_MAC_ADDR_SIZE] \<noteq> Overrun"
    by (rule hex_safe) (use e in \<open>simp add: stage_defs\<close>)
  then show "validate_and_convert_mac_addr lib token e \<noteq> Overrun"
    by (simp add: validate_and_convert_mac_addr_def conv_bind_simps)
  assume "validate_and_convert_mac_addr lib token e = Conv (e', t)"
  then show "ext_stage t e'"
    using e by (auto simp: validate_and_convert_mac_addr_def conv_bind_simps arrays_ok_def data_ok_def
        QDF_MAC_ADDR_SIZE_def dest!: hex_Conv [OF lib])
qed

interpretation mac_mask_stage: token_stage validate_and_convert_mac_mask ACTION_OUI_MAC_MASK_TOKEN
proof
  fix lib token and e e' :: action_oui_extension and t
  assume lib: "lib_ok lib" and e: "ext_stage ACTION_OUI_MAC_MASK_TOKEN e"
  have "action_oui_string_to_hex lib token (ext_mac_mask e) [2] \<noteq> Overrun"
    by (rule hex_safe) (use e in \<open>simp add: stage_defs\<close>)
  then show "validate_and_convert_mac_mask lib token e \<noteq> Overrun"
    by (auto simp: validate_and_convert_mac_mask_def conv_bind_simps split: if_splits)
  assume c: "validate_and_convert_mac_mask lib token e = Conv (e', t)"
  then obtain bs where h: "action_oui_string_to_hex lib token (ext_mac_mask e) [2] = Conv bs"
    by (auto simp: validate_and_convert_mac_mask_def conv_bind_simps)
  have len: "length bs = length (ext_mac_mask e)" "length token = 2" using hex_Conv [OF lib h] by auto
  then have bs: "e' = e\<lparr>ext_mac_mask := bs, mac_mask_length := 1\<rparr>" "length bs = length (ext_mac_mask e)"
    and t: "t = (if wants_capability e then ACTION_OUI_CAPABILITY_TOKEN else ACTION_OUI_END_TOKEN)"
    using c by (simp_all add: validate_and_convert_mac_mask_def h conv_bind_def wants_capability_def has_def
        ACTION_OUI_MAC_MASK_LENGTH_def)
  show "ext_stage t e'"
    using e bs t by (auto simp: ext_ok_def arrays_ok_def data_ok_def mac_ok_def capability_ok_def wants_capability_def)
qed

interpretation capability_stage: token_stage validate_and_convert_capability ACTION_OUI_CAPABILITY_TOKEN
proof
  fix lib token and e e' :: action_oui_extension and t
  assume lib: "lib_ok lib" and e: "ext_stage ACTION_OUI_CAPABILITY_TOKEN e"
  have "action_oui_string_to_hex lib token (ext_capability e) [2] \<noteq> Overrun"
    by (rule hex_safe) (use e in \<open>simp add: stage_defs\<close>)
  then show "validate_and_convert_capability lib token e \<noteq> Overrun"
    by (auto simp: validate_and_convert_capability_def conv_bind_simps Let_def split: if_splits)
  assume c: "validate_and_convert_capability lib token e = Conv (e', t)"
  then obtain bs where h: "action_oui_string_to_hex lib token (ext_capability e) [2] = Conv bs"
    by (auto simp: validate_and_convert_capability_def conv_bind_simps)
  have len: "length bs = length (ext_capability e)" "length token = 2" using hex_Conv [OF lib h] by auto
  have bs: "e' = e\<lparr>ext_capability := bs, capability_length := 1\<rparr>" "t = ACTION_OUI_END_TOKEN"
    and caps: "has (info_mask e) ACTION_OUI_INFO_AP_CAPABILITY_NSS \<longrightarrow> bs ! 0 AND ACTION_OUI_CAPABILITY_NSS_MASK \<noteq> 0"
      "has (info_mask e) ACTION_OUI_INFO_AP_CAPABILITY_BAND \<longrightarrow> bs ! 0 AND ACTION_OUI_CAPABILITY_BAND_MASK \<noteq> 0"
    using c len(2) by (auto simp: validate_and_convert_capability_def h conv_bind_def has_def Let_def
        ACTION_OUI_MAX_CAPABILITY_LENGTH_def split: if_splits)
  show "ext_stage t e'"
    using e len bs caps by (simp add: ext_ok_def arrays_ok_def data_ok_def mac_ok_def capability_ok_def wants_capability_def)
qed

lemmas stage_outcomes =
  oui_stage.outcome data_length_stage.outcome data_stage.outcome data_mask_stage.outcome
  info_mask_stage.outcome mac_addr_stage.outcome mac_mask_stage.outcome capability_stage.outcome

lemma convert_outcome:
  assumes "lib_ok lib" "ext_stage tok e"
  shows "convert tok lib token e = Rejected \<or> (\<exists>e' t. convert tok lib token e = Conv (e', t) \<and> ext_stage t e')"
  using stage_outcomes [OF assms(1)] assms(2) by (cases tok) (auto simp: convert_def)

section \<open>The loop\<close>

text \<open>The object after extensions have been added to the list of one action.\<close>

definition add_exts :: "action_oui_psoc_priv \<Rightarrow> nat \<Rightarrow> action_oui_extension list \<Rightarrow> action_oui_psoc_priv" where
  "add_exts p i exts =
     p\<lparr>oui_priv := (oui_priv p)[i := map_option (\<lambda>q. q\<lparr>extension_list := extension_list q @ exts\<rparr>) (oui_priv p ! i)],
       total_extensions := total_extensions p + of_nat (length exts)\<rparr>"

lemma add_exts_Nil [simp]: "add_exts p i [] = p"
proof -
  have "map_option (\<lambda>q. q\<lparr>extension_list := extension_list q @ []\<rparr>) (oui_priv p ! i) = oui_priv p ! i"
    by (cases "oui_priv p ! i") simp_all
  then show ?thesis by (simp add: add_exts_def)
qed

lemma add_exts_snoc:
  "i < length (oui_priv p) \<Longrightarrow> add_exts (add_exts p i exts) i [e] = add_exts p i (exts @ [e])"
  by (cases "oui_priv p ! i") (simp_all add: add_exts_def)

lemma add_exts_nth:
  "i < length (oui_priv p) \<Longrightarrow> oui_priv p ! i = Some q \<Longrightarrow>
     oui_priv (add_exts p i exts) ! i = Some (q\<lparr>extension_list := extension_list q @ exts\<rparr>)"
  by (simp add: add_exts_def)

lemma store_cases:
  assumes "i < length (oui_priv p)" "oui_priv p ! i = Some q"
  shows "action_oui_extension_store mem i e p =
    (if length (extension_list q) = ACTION_OUI_MAX_EXTENSIONS then (QDF_STATUS_E_FAILURE, p)
     else if \<not> mem then (QDF_STATUS_E_NOMEM, p) else (QDF_STATUS_SUCCESS, add_exts p i [e]))"
  using assms by (simp add: action_oui_extension_store_def add_exts_def)

lemma strsep_shorter: "strsep s = (token, Some rest) \<Longrightarrow> length rest < length s"
proof -
  assume "strsep s = (token, Some rest)"
  then obtain c where "dropWhile (\<lambda>c. c \<noteq> CHR '' '') s = c # rest"
    by (auto simp: strsep_def split: list.splits)
  then show ?thesis using length_dropWhile_le [of "\<lambda>c. c \<noteq> CHR '' ''" s] by simp
qed

text \<open>What holds before every iteration, relative to the object \<open>p\<close> at the start.\<close>

definition parse_inv :: "action_oui_psoc_priv \<Rightarrow> nat \<Rightarrow> action_oui_priv \<Rightarrow> action_oui_extension list \<Rightarrow> parse_state \<Rightarrow> bool" where
  "parse_inv p i q exts s \<longleftrightarrow> ps_priv s = add_exts p i exts \<and> ps_index s = length exts \<and>
     length (extension_list q) + length exts \<le> ACTION_OUI_MAX_EXTENSIONS \<and> list_all ext_ok exts \<and>
     \<not> ps_overrun s \<and> (ps_exceed s \<longrightarrow> exts \<noteq> [])"

lemma parse_step_inv:
  assumes lib: "lib_ok lib" and i: "i < length (oui_priv p)" "oui_priv p ! i = Some q"
    and inv: "parse_inv p i q exts s" and stage: "ext_stage (ps_token s) (ps_ext s)"
    and step: "parse_step lib mem i str1 s = (s', again)"
  shows "\<exists>exts'. parse_inv p i q exts' s' \<and>
    (again \<longrightarrow> ext_stage (ps_token s') (ps_ext s') \<and> (\<forall>r. ps_str s' = Some r \<longrightarrow> length r < length str1))"
proof (cases "qdf_str_left_trim lib str1 = []")
  case True
  then show ?thesis using inv step by (auto simp: parse_step_def parse_inv_def)
next
  case False
  obtain token rest where sep: "strsep (qdf_str_left_trim lib str1) = (token, rest)" by fastforce
  have shorter: "length r < length str1" if "rest = Some r" for r
    using strsep_shorter [of "qdf_str_left_trim lib str1" token r] sep that lib
    by (simp add: lib_ok_def) (metis order_less_le_trans)
  consider (rej) "convert (ps_token s) lib token (ps_ext s) = Rejected"
    | (conv) e t where "convert (ps_token s) lib token (ps_ext s) = Conv (e, t)" "ext_stage t e"
    using convert_outcome [OF lib stage, of token] by blast
  then show ?thesis
  proof cases
    case rej
    then show ?thesis using inv step sep False by (auto simp: parse_step_def parse_inv_def Let_def)
  next
    case conv
    show ?thesis
    proof (cases "t = ACTION_OUI_END_TOKEN")
      case False
      then show ?thesis
        using inv step sep \<open>qdf_str_left_trim lib str1 \<noteq> []\<close> conv shorter
        by (auto simp: parse_step_def parse_inv_def Let_def)
    next
      case True
      then have e: "ext_ok e" using conv by simp
      have len: "length (oui_priv (add_exts p i exts)) = length (oui_priv p)" by (simp add: add_exts_def)
      note st = store_cases [of i "add_exts p i exts" _ "mem (length exts)" e,
          unfolded len add_exts_snoc [OF i(1)], OF i(1) add_exts_nth [OF i]]
      show ?thesis
      proof (cases "length (extension_list q) + length exts = ACTION_OUI_MAX_EXTENSIONS \<or> \<not> mem (length exts)")
        case full: True
        then show ?thesis
          using inv step sep False conv True st
          by (intro exI [of _ exts]) (auto simp: parse_step_def parse_inv_def Let_def split: if_splits)
      next
        case room: False
        then show ?thesis
          using inv step sep False conv True e shorter st zero_stage [simplified]
          by (intro exI [of _ "exts @ [e]"]) (auto simp: parse_step_def parse_inv_def Let_def split: if_splits)
      qed
    qed
  qed
qed

lemma parse_loop_total:
  assumes lib: "lib_ok lib" and i: "i < length (oui_priv p)" "oui_priv p ! i = Some q"
    and inv: "parse_inv p i q exts s" and stage: "ext_stage (ps_token s) (ps_ext s)"
  shows "\<exists>s' exts'. parse_loop lib mem i s = Some s' \<and> parse_inv p i q exts' s'"
  using inv stage
proof (induction "case ps_str s of None \<Rightarrow> 0 | Some r \<Rightarrow> Suc (length r)" arbitrary: s exts rule: less_induct)
  case less
  show ?case
  proof (cases "ps_str s")
    case None
    then show ?thesis using less.prems by (auto simp: parse_loop.simps [of lib mem i s])
  next
    case (Some str1)
    obtain s' again where step: "parse_step lib mem i str1 s = (s', again)" by fastforce
    obtain exts' where inv': "parse_inv p i q exts' s'"
      and again: "again \<Longrightarrow> ext_stage (ps_token s') (ps_ext s')"
        "\<And>r. again \<Longrightarrow> ps_str s' = Some r \<Longrightarrow> length r < length str1"
      using parse_step_inv [OF lib i less.prems step] by blast
    show ?thesis
    proof (cases again)
      case True
      have "(case ps_str s' of None \<Rightarrow> 0 | Some r \<Rightarrow> Suc (length r)) < (case ps_str s of None \<Rightarrow> 0 | Some r \<Rightarrow> Suc (length r))"
        using again(2) [OF True] Some by (simp split: option.split)
      from less.hyps [OF this inv' again(1) [OF True]] show ?thesis
        using Some step True by (simp add: parse_loop.simps [of lib mem i s])
    next
      case False
      then show ?thesis using Some step inv' by (auto simp: parse_loop.simps [of lib mem i s])
    qed
  qed
qed

section \<open>The invariant of the object\<close>

definition stored_exts :: "action_oui_priv option \<Rightarrow> action_oui_extension list" where
  "stored_exts o1 = (case o1 of None \<Rightarrow> [] | Some q \<Rightarrow> extension_list q)"

definition oui_inv :: "action_oui_psoc_priv \<Rightarrow> bool" where
  "oui_inv p \<longleftrightarrow> length (oui_priv p) = ACTION_OUI_MAXIMUM_ID \<and>
     total_extensions p = of_nat (sum_list (map (length \<circ> stored_exts) (oui_priv p))) \<and>
     (\<forall>o1 \<in> set (oui_priv p). length (stored_exts o1) \<le> ACTION_OUI_MAX_EXTENSIONS \<and> list_all ext_ok (stored_exts o1))"

lemma add_exts_inv:
  assumes inv: "oui_inv p" and i: "i < ACTION_OUI_MAXIMUM_ID" "oui_priv p ! i = Some q"
    and new: "length (extension_list q) + length exts \<le> ACTION_OUI_MAX_EXTENSIONS" "list_all ext_ok exts"
  shows "oui_inv (add_exts p i exts)"
proof -
  let ?f = "length \<circ> stored_exts"
  let ?o = "Some (q\<lparr>extension_list := extension_list q @ exts\<rparr>)"
  have len: "i < length (oui_priv p)" using inv i by (simp add: oui_inv_def)
  have "sum_list (map ?f ((oui_priv p)[i := ?o])) = sum_list (map ?f (oui_priv p)) + length exts"
  proof -
    have f: "?f ?o = ?f (oui_priv p ! i) + length exts" using i by (simp add: stored_exts_def)
    have "sum_list (map ?f (oui_priv p)) = sum_list (map ?f (take i (oui_priv p))) + ?f (oui_priv p ! i) +
        sum_list (map ?f (drop (Suc i) (oui_priv p)))"
      by (subst id_take_nth_drop [OF len]) simp
    moreover have "sum_list (map ?f ((oui_priv p)[i := ?o])) = sum_list (map ?f (take i (oui_priv p))) + ?f ?o +
        sum_list (map ?f (drop (Suc i) (oui_priv p)))"
      by (simp add: upd_conv_take_nth_drop [OF len])
    ultimately show ?thesis using f by simp
  qed
  moreover have "length (stored_exts o1) \<le> ACTION_OUI_MAX_EXTENSIONS \<and> list_all ext_ok (stored_exts o1)"
    if "o1 \<in> set ((oui_priv p)[i := ?o])" for o1
  proof -
    have "list_all ext_ok (extension_list q)"
      using inv i nth_mem [OF len] by (auto simp: oui_inv_def stored_exts_def)
    then show ?thesis
      using set_update_subset_insert [of "oui_priv p" i ?o] that inv new by (auto simp: oui_inv_def stored_exts_def)
  qed
  ultimately show ?thesis using inv i by (simp add: oui_inv_def add_exts_def)
qed

end
