(* ===== verification/Oui_Match.thy ===== *)
theory Oui_Match
  imports Oui_Inv
begin

text \<open>
  When an access point matches an extension: a declarative definition, and the proof that the
  loops over the bit masks compute it.
\<close>

section \<open>Bit masks\<close>

lemma and_power_bit: "(m :: u8) AND 2 ^ n \<noteq> 0 \<longleftrightarrow> bit m n"
  by (simp add: and_exp_eq_0_iff_not_bit)

lemma below_7: "n < 7 \<Longrightarrow> n \<in> {0, 1, 2, 3, 4, 5, 6 :: nat}"
  by auto

lemma drop_bit_power:
  assumes "n < 7"
  shows "drop_bit 1 (2 ^ (7 - n) :: u8) = 2 ^ (7 - Suc n)" "(2 ^ (7 - Suc n) :: u8) \<noteq> 0"
  using below_7 [OF assms] by auto

definition selected :: "u8 list \<Rightarrow> nat \<Rightarrow> bool" where
  "selected masks k \<longleftrightarrow> bit (masks ! (k div 8)) (7 - k mod 8)"

lemma byte_differs_simp:
  "byte_differs m (2 ^ n) x y =
     (if bit m n then (case (x, y) of (Some a, Some b) \<Rightarrow> Some (a \<noteq> b) | _ \<Rightarrow> None) else Some False)"
  by (simp add: byte_differs_def and_exp_eq_0_iff_not_bit)

section \<open>Vendor data\<close>

lemma step_index: "(if (k :: nat) mod 8 = 7 then Suc (k div 8) else k div 8) = Suc k div 8"
  by (simp add: div_Suc) presburger

text \<open>One iteration, with the loop variables as functions of the index.\<close>

lemma next_mask:
  "(if drop_bit 1 (2 ^ (7 - i mod 8) :: u8) = 0 then data_loop ext data data_len (Suc i) (Suc (i div 8)) 0x80
    else data_loop ext data data_len (Suc i) (i div 8) (drop_bit 1 (2 ^ (7 - i mod 8)))) =
   data_loop ext data data_len (Suc i) (Suc i div 8) (2 ^ (7 - Suc i mod 8))"
proof (cases "i mod 8 = 7")
  case True
  then have "Suc i div 8 = Suc (i div 8)" "Suc i mod 8 = 0" by presburger+
  then show ?thesis using True by simp
next
  case False
  then have m: "i mod 8 < 7" using mod_less_divisor [of 8 i] by linarith
  have "Suc i div 8 = i div 8" "Suc i mod 8 = Suc (i mod 8)" using False by presburger+
  then show ?thesis using drop_bit_power [OF m] by simp
qed

lemma data_loop_step:
  assumes "i < data_len" "i div 8 < unat (data_mask_length ext)" "unat (data_mask_length ext) \<le> length (ext_data_mask ext)"
  shows "data_loop ext data data_len i (i div 8) (2 ^ (7 - i mod 8)) =
    (if selected (ext_data_mask ext) i \<and> (length (ext_data ext) \<le> i \<or> length data \<le> i) then None
     else if selected (ext_data_mask ext) i \<and> ext_data ext ! i \<noteq> data ! i then Some False
     else data_loop ext data data_len (Suc i) (Suc i div 8) (2 ^ (7 - Suc i mod 8)))"
proof -
  have m: "i div 8 < length (ext_data_mask ext)" using assms by simp
  show ?thesis
    unfolding next_mask [symmetric]
    by (subst data_loop.simps)
      (simp add: assms m byte_differs_simp selected_def elem_at_def not_le split: bool.split)
qed

lemma data_loop_spec:
  assumes masks: "unat (data_mask_length ext) \<le> length (ext_data_mask ext)"
    and reads: "\<And>k. i \<le> k \<Longrightarrow> k < data_len \<Longrightarrow> k div 8 < unat (data_mask_length ext) \<Longrightarrow>
        selected (ext_data_mask ext) k \<Longrightarrow> k < length (ext_data ext) \<and> k < length data"
  shows "data_loop ext data data_len i (i div 8) (2 ^ (7 - i mod 8)) =
    Some (\<forall>k. i \<le> k \<and> k < data_len \<and> k div 8 < unat (data_mask_length ext) \<and>
       selected (ext_data_mask ext) k \<longrightarrow> ext_data ext ! k = data ! k)"
  using reads
proof (induction "data_len - i" arbitrary: i)
  case 0
  then show ?case by (subst data_loop.simps) auto
next
  case (Suc d)
  let ?n = "unat (data_mask_length ext)"
  let ?rest = "\<lambda>i. \<forall>k. i \<le> k \<and> k < data_len \<and> k div 8 < ?n \<and> selected (ext_data_mask ext) k \<longrightarrow> ext_data ext ! k = data ! k"
  have i: "i < data_len" using Suc.hyps(2) by simp
  show ?case
  proof (cases "i div 8 < ?n")
    case False
    then have "\<not> k div 8 < ?n" if "i \<le> k" for k using div_le_mono [OF that, of 8] by simp
    then show ?thesis using False by (subst data_loop.simps) auto
  next
    case True
    have IH: "data_loop ext data data_len (Suc i) (Suc i div 8) (2 ^ (7 - Suc i mod 8)) = Some (?rest (Suc i))"
      using Suc.hyps Suc.prems by (intro Suc.hyps(1)) auto
    have split: "?rest i \<longleftrightarrow> (selected (ext_data_mask ext) i \<longrightarrow> ext_data ext ! i = data ! i) \<and> ?rest (Suc i)"
      using i True by (metis Suc_leD Suc_leI le_neq_implies_less order_refl)
    have sel: "\<not> (selected (ext_data_mask ext) i \<and> (length (ext_data ext) \<le> i \<or> length data \<le> i))"
      using Suc.prems [of i] i True by auto
    show ?thesis
      unfolding split data_loop_step [OF i True masks] IH using sel by (simp only: if_False) simp
  qed
qed

text \<open>If the mask selects a byte beyond the extension's buffer and the bytes before it agree, the
  loop reads it.\<close>

lemma data_loop_overread:
  assumes masks: "unat (data_mask_length ext) \<le> length (ext_data_mask ext)"
    and k: "i \<le> k" "k < data_len" "k div 8 < unat (data_mask_length ext)" "selected (ext_data_mask ext) k"
      "length (ext_data ext) \<le> k"
    and agree: "\<And>j. j < k \<Longrightarrow> selected (ext_data_mask ext) j \<Longrightarrow>
        j < length (ext_data ext) \<and> j < length data \<and> ext_data ext ! j = data ! j"
  shows "data_loop ext data data_len i (i div 8) (2 ^ (7 - i mod 8)) = None"
  using k(1)
proof (induction "k - i" arbitrary: i)
  case 0
  then have "i = k" by simp
  then show ?case using k data_loop_step [OF k(2,3) masks] by simp
next
  case (Suc d)
  then have i: "i < data_len" "i < k" using k by auto
  have d: "i div 8 < unat (data_mask_length ext)" using k(3) div_le_mono [of i k 8] i(2) by linarith
  show ?case
    using data_loop_step [OF i(1) d masks, of data] agree [OF i(2)] Suc.hyps(1) [of "Suc i"] Suc.hyps(2) i(2)
    by (auto simp del: One_nat_def)
qed

section \<open>Address\<close>

lemma mac_loop_spec:
  assumes "i + n \<le> length a" "i + n \<le> length b" "i + n \<le> 8"
  shows "mac_loop m a b n i (2 ^ (7 - i)) = Some (\<forall>k. i \<le> k \<and> k < i + n \<and> bit m (7 - k) \<longrightarrow> a ! k = b ! k)"
  using assms
proof (induction n arbitrary: i)
  case (Suc n)
  have rest: "mac_loop m a b n (Suc i) (drop_bit 1 (2 ^ (7 - i))) =
      Some (\<forall>k. Suc i \<le> k \<and> k < Suc i + n \<and> bit m (7 - k) \<longrightarrow> a ! k = b ! k)"
  proof (cases "n = 0")
    case False
    then show ?thesis using Suc.IH [of "Suc i"] Suc.prems drop_bit_power(1) [of i] by simp
  qed auto
  have split: "(\<forall>k. i \<le> k \<and> k < i + Suc n \<and> bit m (7 - k) \<longrightarrow> a ! k = b ! k) \<longleftrightarrow>
      (bit m (7 - i) \<longrightarrow> a ! i = b ! i) \<and> (\<forall>k. Suc i \<le> k \<and> k < Suc i + n \<and> bit m (7 - k) \<longrightarrow> a ! k = b ! k)"
    by (metis Suc_leD Suc_leI add_Suc_right add_Suc le_add1 le_imp_less_Suc le_neq_implies_less order_refl)
  show ?case
  proof (cases "bit m (7 - i) \<and> a ! i \<noteq> b ! i")
    case True
    then show ?thesis unfolding split using Suc.prems by (simp add: byte_differs_simp)
  next
    case False
    then have "byte_differs m (2 ^ (7 - i)) (elem_at a i) (elem_at b i) = Some False"
      using Suc.prems by (auto simp: byte_differs_simp)
    then show ?thesis unfolding split using False rest by (simp only: mac_loop.simps option.case bool.case simp_thms) blast
  qed
qed auto

section \<open>Matching\<close>

text \<open>The bytes of a vendor element that follow its OUI agree with the extension where the mask says so.\<close>

definition data_matches :: "action_oui_extension \<Rightarrow> u8 list \<Rightarrow> bool" where
  "data_matches ext p \<longleftrightarrow> unat (oui_length ext) + unat (data_length ext) \<le> unat (p ! 1) \<and>
     (\<forall>k. k < unat (p ! 1) - unat (oui_length ext) \<and> k div 8 < unat (data_mask_length ext) \<and>
        selected (ext_data_mask ext) k \<longrightarrow> ext_data ext ! k = p ! (2 + unat (oui_length ext) + k))"

definition mac_matches :: "action_oui_extension \<Rightarrow> u8 list \<Rightarrow> bool" where
  "mac_matches ext mac \<longleftrightarrow> (\<forall>k. k < 6 \<and> bit (ext_mac_mask ext ! 0) (7 - k) \<longrightarrow> ext_mac_addr ext ! k = mac ! k)"

definition capability_matches :: "action_oui_extension \<Rightarrow> action_oui_search_attr \<Rightarrow> bool" where
  "capability_matches ext attr \<longleftrightarrow>
     (let cap = ext_capability ext ! 0; m = info_mask ext
      in (has m ACTION_OUI_INFO_AP_CAPABILITY_NSS \<longrightarrow> unat (nss attr) \<le> 4 \<and> bit cap (unat (nss attr) - 1)) \<and>
         (has m ACTION_OUI_INFO_AP_CAPABILITY_HT \<longrightarrow> bit cap 4 = ht_cap attr) \<and>
         (has m ACTION_OUI_INFO_AP_CAPABILITY_VHT \<longrightarrow> bit cap 5 = vht_cap attr) \<and>
         (has m ACTION_OUI_INFO_AP_CAPABILITY_BAND \<longrightarrow>
            (enable_5g attr \<longrightarrow> bit cap 7) \<and> (enable_2g attr \<longrightarrow> bit cap 6)))"

definition ext_matches :: "vendor_ie \<Rightarrow> action_oui_search_attr \<Rightarrow> action_oui_extension \<Rightarrow> bool" where
  "ext_matches vie attr ext \<longleftrightarrow>
     (has (info_mask ext) ACTION_OUI_INFO_OUI \<longrightarrow>
        (\<exists>p. action_oui_get_oui_ptr vie ext attr = Some p \<and> (data_length ext \<noteq> 0 \<longrightarrow> data_matches ext p))) \<and>
     (has (info_mask ext) ACTION_OUI_INFO_MAC_ADDRESS \<longrightarrow> mac_matches ext (attr_mac_addr attr)) \<and>
     capability_matches ext attr"

text \<open>What the search relies on: the element is complete, the address has six bytes, the number of
  streams is one that can be shifted by, and no mask bit lies beyond the data buffer.\<close>

definition vie_ok :: "vendor_ie \<Rightarrow> bool" where
  "vie_ok vie \<longleftrightarrow> (\<forall>oui n d l p. vie oui n d l = Some p \<longrightarrow> 2 \<le> length p \<and> 2 + unat (p ! 1) \<le> length p)"

definition attr_ok :: "action_oui_search_attr \<Rightarrow> bool" where
  "attr_ok attr \<longleftrightarrow> length (attr_mac_addr attr) = 6 \<and> 1 \<le> nss attr \<and> nss attr \<le> 31"

definition mask_within :: "action_oui_extension \<Rightarrow> bool" where
  "mask_within ext \<longleftrightarrow> (\<forall>k. ACTION_OUI_MAX_DATA_LENGTH \<le> k \<and> k div 8 < unat (data_mask_length ext) \<longrightarrow>
     \<not> selected (ext_data_mask ext) k)"

text \<open>The length of the vendor data, computed in 32 bits and cut to a byte.\<close>

lemma data_len_exact:
  fixes p :: "u8 list" and ext :: action_oui_extension
  shows "(ucast (p ! 1) :: u32) < oui_length ext \<longleftrightarrow> unat (p ! 1) < unat (oui_length ext)"
    and "unat (oui_length ext) \<le> unat (p ! 1) \<Longrightarrow>
      unat (ucast ((ucast (p ! 1) :: u32) - oui_length ext) :: u8) = unat (p ! 1) - unat (oui_length ext)"
    and "unat (oui_length ext) \<le> unat (p ! 1) \<Longrightarrow>
      (ucast (ucast ((ucast (p ! 1) :: u32) - oui_length ext) :: u8) :: u32) < data_length ext \<longleftrightarrow>
      unat (p ! 1) - unat (oui_length ext) < unat (data_length ext)"
proof -
  show "(ucast (p ! 1) :: u32) < oui_length ext \<longleftrightarrow> unat (p ! 1) < unat (oui_length ext)"
    by (simp add: word_less_nat_alt)
  assume le: "unat (oui_length ext) \<le> unat (p ! 1)"
  have sub: "unat ((ucast (p ! 1) :: u32) - oui_length ext) = unat (p ! 1) - unat (oui_length ext)"
    using le by (subst unat_sub) (simp_all add: word_le_nat_alt)
  have "unat (p ! 1) - unat (oui_length ext) < 2 ^ LENGTH(8)"
    using unsigned_less [of "p ! 1", where ?'a = nat] by simp
  then show d: "unat (ucast ((ucast (p ! 1) :: u32) - oui_length ext) :: u8) = unat (p ! 1) - unat (oui_length ext)"
    by (simp only: unsigned_ucast_eq sub take_bit_nat_eq_self)
  show "(ucast (ucast ((ucast (p ! 1) :: u32) - oui_length ext) :: u8) :: u32) < data_length ext \<longleftrightarrow>
      unat (p ! 1) - unat (oui_length ext) < unat (data_length ext)"
    using d by (simp add: word_less_nat_alt)
qed

lemma check_data_spec:
  assumes e: "ext_ok ext" "mask_within ext" and p: "2 \<le> length p" "2 + unat (p ! 1) \<le> length p"
  shows "check_for_vendor_oui_data ext (Some p) = Some (data_matches ext p)"
proof -
  let ?o = "unat (oui_length ext)" and ?l = "unat (p ! 1)"
  show ?thesis
  proof (cases "?l < ?o")
    case True
    then show ?thesis using p data_len_exact(1) [where p = p and ext = ext] by (simp add: check_for_vendor_oui_data_def data_matches_def)
  next
    case False
    have masks: "unat (data_mask_length ext) \<le> length (ext_data_mask ext)"
      using e(1) by (auto simp: ext_ok_def arrays_ok_def data_ok_def oui_sizes)
    have reads: "k < length (ext_data ext) \<and> k < length (drop (2 + ?o) p)"
      if "0 \<le> k" "k < ?l - ?o" "k div 8 < unat (data_mask_length ext)" "selected (ext_data_mask ext) k" for k
    proof -
      have "k < ACTION_OUI_MAX_DATA_LENGTH" using e(2) that by (auto simp: mask_within_def not_le [symmetric])
      then have "k < length (ext_data ext)" using e(1) by (simp add: ext_ok_def arrays_ok_def)
      moreover have "k < length (drop (2 + ?o) p)" using that(2) p(2) by simp
      ultimately show ?thesis ..
    qed
    have "data_loop ext (drop (2 + ?o) p) (?l - ?o) 0 0 0x80 =
        Some (\<forall>k. k < ?l - ?o \<and> k div 8 < unat (data_mask_length ext) \<and>
          selected (ext_data_mask ext) k \<longrightarrow> ext_data ext ! k = p ! (2 + ?o + k))"
      using data_loop_spec [where i = 0 and data_len = "?l - ?o" and data = "drop (2 + ?o) p", OF masks reads] p False
      by (simp add: add.commute)
    then show ?thesis
      using p False data_len_exact [where p = p and ext = ext] by (auto simp: check_for_vendor_oui_data_def Let_def data_matches_def)
  qed
qed

lemma check_mac_spec:
  assumes "ext_ok ext" "length (attr_mac_addr attr) = 6"
  shows "check_for_vendor_ap_mac ext attr = Some (mac_matches ext (attr_mac_addr attr))"
proof -
  have len: "length (ext_mac_mask ext) = 1" "length (ext_mac_addr ext) = 6"
    using assms(1) by (simp_all add: ext_ok_def arrays_ok_def oui_sizes)
  show ?thesis
    using mac_loop_spec [where i = 0 and n = 6 and m = "ext_mac_mask ext ! 0" and a = "ext_mac_addr ext"
        and b = "attr_mac_addr attr"] len assms(2)
    by (simp add: check_for_vendor_ap_mac_def QDF_MAC_ADDR_SIZE_def mac_matches_def)
qed

lemma capability_bits:
  "(c :: u8) AND ACTION_OUI_CAPABILITY_HT_ENABLE_MASK = 0 \<longleftrightarrow> \<not> bit c 4"
  "c AND ACTION_OUI_CAPABILITY_VHT_ENABLE_MASK = 0 \<longleftrightarrow> \<not> bit c 5"
  "c AND ACTION_OUI_CAPABILITY_2G_BAND_MASK = 0 \<longleftrightarrow> \<not> bit c 6"
  "c AND ACTION_CAPABILITY_5G_BAND_MASK = 0 \<longleftrightarrow> \<not> bit c 7"
  using and_power_bit [of c 4] and_power_bit [of c 5] and_power_bit [of c 6] and_power_bit [of c 7]
  by (auto simp: ACTION_OUI_CAPABILITY_HT_ENABLE_MASK_def ACTION_OUI_CAPABILITY_VHT_ENABLE_MASK_def
      ACTION_OUI_CAPABILITY_2G_BAND_MASK_def ACTION_CAPABILITY_5G_BAND_MASK_def)

lemma nss_bit:
  assumes "1 \<le> n" "n \<le> 31"
  shows "\<exists>s. nss_shift n = Some s \<and>
    ((c :: u8) AND ACTION_OUI_CAPABILITY_NSS_MASK AND s \<noteq> 0 \<longleftrightarrow> unat n \<le> 4 \<and> bit c (unat n - 1))"
proof -
  let ?k = "unat n - 1"
  have s: "nss_shift n = Some (2 ^ ?k)" using assms by (simp add: nss_shift_def push_bit_eq_mult)
  have k: "1 \<le> unat n" using assms(1) by (simp add: word_le_nat_alt)
  have "(0x0f :: u8) = mask 4" by (simp add: mask_eq_exp_minus_1)
  then have "c AND ACTION_OUI_CAPABILITY_NSS_MASK AND 2 ^ ?k \<noteq> 0 \<longleftrightarrow> bit (c AND mask 4) ?k"
    unfolding ACTION_OUI_CAPABILITY_NSS_MASK_def and_power_bit [symmetric] by (simp add: and.assoc)
  also have "\<dots> \<longleftrightarrow> unat n \<le> 4 \<and> bit c ?k" using k by (auto simp: bit_and_iff bit_mask_iff)
  finally show ?thesis using s by blast
qed

lemma check_capabilities_spec:
  assumes "ext_ok ext" "attr_ok attr"
  shows "check_for_vendor_ap_capabilities ext attr = Some (capability_matches ext attr)"
proof -
  let ?c = "ext_capability ext ! 0"
  have len: "length (ext_capability ext) = 1"
    using assms(1) by (simp add: ext_ok_def arrays_ok_def oui_sizes)
  obtain s where s: "nss_shift (nss attr) = Some s"
    "?c AND ACTION_OUI_CAPABILITY_NSS_MASK AND s = 0 \<longleftrightarrow> \<not> (unat (nss attr) \<le> 4 \<and> bit ?c (unat (nss attr) - 1))"
    using nss_bit [of "nss attr" ?c] assms(2) by (auto simp: attr_ok_def)
  show ?thesis
    by (auto simp: check_for_vendor_ap_capabilities_def capability_matches_def len s capability_bits
        has_def Let_def split: bool.split)
qed

section \<open>The search\<close>

lemma search_one_spec:
  assumes e: "ext_ok ext" "mask_within ext" and a: "attr_ok attr" and v: "vie_ok vie"
  shows "search_one vie attr ext = Some (ext_matches vie attr ext)"
proof -
  have mac: "check_for_vendor_ap_mac ext attr = Some (mac_matches ext (attr_mac_addr attr))"
    using check_mac_spec [OF e(1)] a by (simp add: attr_ok_def)
  show ?thesis
  proof (cases "action_oui_get_oui_ptr vie ext attr")
    case None
    then show ?thesis
      by (simp add: search_one_def ext_matches_def has_def mac check_capabilities_spec [OF e(1) a] Let_def
          split: bool.split)
  next
    case (Some p)
    then have "2 \<le> length p" "2 + unat (p ! 1) \<le> length p"
      using v by (auto simp: action_oui_get_oui_ptr_def vie_ok_def split: option.splits if_splits)
    from check_data_spec [OF e this] show ?thesis
      using Some by (simp add: search_one_def ext_matches_def has_def mac check_capabilities_spec [OF e(1) a] Let_def
          split: bool.split)
  qed
qed

lemma search_loop_spec:
  assumes "list_all ext_ok exts" "list_all mask_within exts" "attr_ok attr" "vie_ok vie"
  shows "search_loop vie attr exts = Some (list_ex (ext_matches vie attr) exts)"
  using assms by (induction exts) (simp_all add: search_one_spec split: bool.split)

end
