(* ===== verification/Oui_Props.thy ===== *)
theory Oui_Props
  imports Oui_Match
begin

text \<open>
  The properties of the action OUI component.  The witnesses use string functions that follow
  the documentation of QDF and of the kernel, and an element search that looks at the first
  element only.
\<close>

section \<open>Data for the witnesses\<close>

definition hex_digit :: "char \<Rightarrow> u8 option" where
  "hex_digit c =
     (let n = of_char c :: nat
      in if 48 \<le> n \<and> n \<le> 57 then Some (of_nat (n - 48))
         else if 97 \<le> n \<and> n \<le> 102 then Some (of_nat (n - 87))
         else if 65 \<le> n \<and> n \<le> 70 then Some (of_nat (n - 55)) else None)"

fun hex_bytes :: "string \<Rightarrow> u8 list option" where
  "hex_bytes (c # d # s) =
     (case (hex_digit c, hex_digit d, hex_bytes s) of
        (Some x, Some y, Some bs) \<Rightarrow> Some ((16 * x + y) # bs)
      | _ \<Rightarrow> None)"
| "hex_bytes s = Some []"

definition demo_lib :: oui_lib where
  "demo_lib = \<lparr>qdf_str_trim = dropWhile (\<lambda>c. c = CHR '' ''), qdf_str_left_trim = dropWhile (\<lambda>c. c = CHR '' ''),
     qdf_hex_str_to_binary = (\<lambda>s n. case hex_bytes s of Some bs \<Rightarrow> if length bs = n then Some bs else None | None \<Rightarrow> None),
     kstrtou8_16 = (\<lambda>s. case hex_bytes (if length s = 1 then CHR ''0'' # s else s) of Some [b] \<Rightarrow> Some b | _ \<Rightarrow> None)\<rparr>"

lemma demo_lib_ok: "lib_ok demo_lib"
  by (auto simp: lib_ok_def demo_lib_def length_dropWhile_le split: option.splits if_splits)

definition demo_oui :: action_oui_psoc_priv where
  "demo_oui = snd (snd (action_oui_allocate (\<lambda>_. True) zero_psoc_priv))"

lemma demo_oui_priv: "oui_priv demo_oui = map (\<lambda>i. Some \<lparr>oui_id = i, extension_list = []\<rparr>) [0..<11]" "total_extensions demo_oui = 0"
  by code_simp+

lemma demo_oui_inv: "oui_inv demo_oui"
  by (simp add: oui_inv_def demo_oui_priv stored_exts_def o_def ACTION_OUI_MAXIMUM_ID_def sum_list_0 list_all_iff)

section \<open>Parsing\<close>

text \<open>C18. The parser ends on every string, never writes past an array of the extension it builds,
  and reports success exactly if it stored something; what it adds to the list of the action
  are complete extensions, the limit of ten per action is kept, and the total counter stays
  the number of stored extensions.\<close>
theorem oui_parse_total:
  assumes "lib_ok lib" "oui_inv p" "action_id < ACTION_OUI_MAXIMUM_ID" "oui_priv p ! action_id = Some q"
  shows "\<exists>exts. action_oui_parse lib mem (Some str) action_id p =
      Some (Inr (if exts = [] then QDF_STATUS_E_INVAL else QDF_STATUS_SUCCESS, add_exts p action_id exts)) \<and>
    list_all ext_ok exts \<and> oui_inv (add_exts p action_id exts)"
proof -
  let ?s = "parse_start lib str p"
  have len: "action_id < length (oui_priv p)" using assms by (simp add: oui_inv_def)
  have "length (extension_list q) \<le> ACTION_OUI_MAX_EXTENSIONS"
    using assms(2,4) nth_mem [OF len] by (auto simp: oui_inv_def stored_exts_def)
  then have "parse_inv p action_id q [] ?s" by (simp add: parse_inv_def parse_start_def)
  moreover have "ext_stage (ps_token ?s) (ps_ext ?s)" using zero_stage by (simp add: parse_start_def)
  ultimately obtain s exts where s: "parse_loop lib mem action_id ?s = Some s" "parse_inv p action_id q exts s"
    using parse_loop_total [OF assms(1) len assms(4)] by blast
  have "oui_inv (add_exts p action_id exts)"
    using add_exts_inv [OF assms(2-4)] s(2) by (simp add: parse_inv_def)
  then show ?thesis
    using s assms(4) by (intro exI [of _ exts]) (auto simp: action_oui_parse_def parse_inv_def)
qed

theorem oui_parse_total_witness:
  "\<exists>exts. action_oui_parse demo_lib (\<lambda>_. True) (Some ''00104c 02 aabb c0 01'') 3 demo_oui =
      Some (Inr (if exts = [] then QDF_STATUS_E_INVAL else QDF_STATUS_SUCCESS, add_exts demo_oui 3 exts)) \<and>
    list_all ext_ok exts \<and> oui_inv (add_exts demo_oui 3 exts)"
  by (rule oui_parse_total [OF demo_lib_ok demo_oui_inv])
    (simp_all add: demo_oui_priv ACTION_OUI_MAXIMUM_ID_def)

section \<open>Searching\<close>

definition demo_ext :: action_oui_extension where
  "demo_ext = zero_extension\<lparr>info_mask := 3, oui_length := 3, data_length := 17, data_mask_length := 3,
     mac_addr_length := 6, mac_mask_length := 1, ext_oui := [0, 16, 76, 0, 0],
     ext_data := [1, 2] @ replicate 18 0, ext_data_mask := [0xC0, 0, 0], ext_mac_addr := [2, 0, 0, 0, 0, 1], ext_mac_mask := [0xFC]\<rparr>"

definition demo_ie :: "u8 list" where
  "demo_ie = [221, 25, 0, 16, 76, 1, 2] @ replicate 20 7"

definition demo_vie :: vendor_ie where
  "demo_vie oui n d l =
     (if 2 \<le> length d \<and> 2 + unat (d ! 1) \<le> length d \<and> take (unat n) (drop 2 d) = take (unat n) oui then Some d else None)"

definition demo_attr :: action_oui_search_attr where
  "demo_attr = \<lparr>ie_data = Some demo_ie, ie_length = 27, attr_mac_addr = [2, 0, 0, 0, 0, 1], nss = 1,
     ht_cap = True, vht_cap = False, enable_2g = True, enable_5g = False\<rparr>"

text \<open>C19. The search of an action's list, with its loops over bit masks that move to the next
  mask byte and its chain of early exits, finds an extension exactly if one of the list
  matches the access point in the declarative sense: its vendor element is present and agrees
  with the data bytes that the mask selects, the address agrees in the selected bytes, and the
  requested capabilities fit.  For stored extensions whose mask selects no byte beyond the
  data buffer, and complete elements, no array is read outside its bounds.\<close>
theorem oui_search_spec:
  assumes "oui_inv p" "action_id < ACTION_OUI_MAXIMUM_ID" "oui_priv p ! action_id = Some q"
    and "list_all mask_within (extension_list q)" "attr_ok attr" "vie_ok vie"
  shows "ucfg_action_oui_search vie (Some attr) action_id (Some p) =
    Some (\<exists>ext \<in> set (extension_list q). ext_matches vie attr ext)"
proof -
  have "Some q \<in> set (oui_priv p)" using assms(1-3) nth_mem [of action_id "oui_priv p"] by (simp add: oui_inv_def)
  then have "list_all ext_ok (extension_list q)"
    using assms(1) by (auto simp: oui_inv_def stored_exts_def)
  then show ?thesis
    using assms(2-6) by (simp add: ucfg_action_oui_search_def action_oui_search_def search_loop_spec list_ex_iff)
qed

definition demo_stored :: action_oui_psoc_priv where
  "demo_stored = add_exts demo_oui 3 [demo_ext]"

lemma demo_ext_ok: "ext_ok demo_ext"
  by code_simp

lemma demo_stored_inv: "oui_inv demo_stored"
  unfolding demo_stored_def
  by (rule add_exts_inv [where q = "\<lparr>oui_id = 3, extension_list = []\<rparr>", OF demo_oui_inv])
    (simp_all add: demo_oui_priv ACTION_OUI_MAXIMUM_ID_def oui_sizes demo_ext_ok)

lemma demo_mask_within: "mask_within demo_ext"
proof -
  have "\<not> selected [0xC0, 0, 0] k" if "20 \<le> k" "k div 8 < 3" for k
  proof -
    have "k div 8 = 2" using that by linarith
    then show ?thesis by (simp add: selected_def)
  qed
  then show ?thesis by (simp add: mask_within_def demo_ext_def oui_sizes)
qed

theorem oui_search_spec_witness:
  "ucfg_action_oui_search demo_vie (Some demo_attr) 3 (Some demo_stored) =
     Some (\<exists>ext \<in> set [demo_ext]. ext_matches demo_vie demo_attr ext)"
proof -
  have "vie_ok demo_vie" by (simp add: vie_ok_def demo_vie_def)
  moreover have "attr_ok demo_attr" by code_simp
  moreover have "oui_priv demo_stored ! 3 = Some \<lparr>oui_id = 3, extension_list = [demo_ext]\<rparr>"
    by (simp add: demo_stored_def add_exts_def demo_oui_priv)
  ultimately show ?thesis
    using oui_search_spec [OF demo_stored_inv, of 3] demo_mask_within by (simp add: ACTION_OUI_MAXIMUM_ID_def)
qed

text \<open>The parser accepts a mask of three bytes for data of 17 to 20 bytes, and the search runs
  over all bits of the mask as long as the element is long enough: if a bit beyond the data
  buffer of 20 bytes is set and the bytes before it agree, the search reads outside the buffer.\<close>
theorem oui_data_overread:
  assumes "ext_ok ext" "2 \<le> length p" "2 + unat (p ! 1) \<le> length p"
    and "ACTION_OUI_MAX_DATA_LENGTH \<le> k" "unat (oui_length ext) + k < unat (p ! 1)"
    and "k div 8 < unat (data_mask_length ext)" "selected (ext_data_mask ext) k"
    and "\<forall>j < k. selected (ext_data_mask ext) j \<longrightarrow>
      j < ACTION_OUI_MAX_DATA_LENGTH \<and> ext_data ext ! j = p ! (2 + unat (oui_length ext) + j)"
  shows "check_for_vendor_oui_data ext (Some p) = None"
proof -
  let ?o = "unat (oui_length ext)" and ?l = "unat (p ! 1)"
  have sizes: "length (ext_data ext) = ACTION_OUI_MAX_DATA_LENGTH" "unat (data_mask_length ext) \<le> length (ext_data_mask ext)"
    "unat (data_length ext) \<le> ACTION_OUI_MAX_DATA_LENGTH"
    using assms(1) by (auto simp: ext_ok_def arrays_ok_def data_ok_def oui_sizes)
  have "data_loop ext (drop (2 + ?o) p) (?l - ?o) 0 (0 div 8) (2 ^ (7 - 0 mod 8)) = None"
    using assms(2-8) sizes by (intro data_loop_overread [where k = k]) auto
  then show ?thesis
    using data_len_exact [where p = p and ext = ext] assms(2-5) sizes(3) by (simp add: check_for_vendor_oui_data_def Let_def)
qed

definition bad_ext :: action_oui_extension where
  "bad_ext = zero_extension\<lparr>info_mask := 1, oui_length := 3, data_length := 17, data_mask_length := 3,
     ext_oui := [0, 16, 76, 0, 0], ext_data := [1, 2] @ replicate 18 0, ext_data_mask := [0xC0, 0, 8]\<rparr>"

lemma bad_ext_parsed:
  "action_oui_parse demo_lib (\<lambda>_. True) (Some ''00104c 11 0102000000000000000000000000000000 c00008 01'') 3 demo_oui =
     Some (Inr (QDF_STATUS_SUCCESS, add_exts demo_oui 3 [bad_ext]))"
  by code_simp

theorem oui_data_overread_witness:
  "check_for_vendor_oui_data bad_ext (Some demo_ie) = None"
proof (rule oui_data_overread [where k = 20])
  show "ext_ok bad_ext" by code_simp
  show "2 \<le> length demo_ie" "2 + unat (demo_ie ! 1) \<le> length demo_ie" "ACTION_OUI_MAX_DATA_LENGTH \<le> 20"
    "unat (oui_length bad_ext) + 20 < unat (demo_ie ! 1)" "20 div 8 < unat (data_mask_length bad_ext)"
    "selected (ext_data_mask bad_ext) 20" by code_simp+
  have "\<forall>j < 20 :: nat. selected [0xC0, 0, 8] j \<longrightarrow>
      j < ACTION_OUI_MAX_DATA_LENGTH \<and> ext_data bad_ext ! j = demo_ie ! (2 + unat (oui_length bad_ext) + j)"
    by code_simp
  then show "\<forall>j < 20. selected (ext_data_mask bad_ext) j \<longrightarrow>
      j < ACTION_OUI_MAX_DATA_LENGTH \<and> ext_data bad_ext ! j = demo_ie ! (2 + unat (oui_length bad_ext) + j)"
    by (simp add: bad_ext_def)
qed

section \<open>Life cycle\<close>

abbreviation fresh_priv :: "nat \<Rightarrow> action_oui_priv option" where
  "fresh_priv i \<equiv> Some \<lparr>oui_id = i, extension_list = []\<rparr>"

lemma allocate_from_spec:
  assumes "i + n = length (oui_priv p)"
  shows "allocate_from mem i n p =
    (let k = length (takeWhile mem [i..<i + n])
     in (i + k, p\<lparr>oui_priv := take i (oui_priv p) @ map fresh_priv [i..<i + k] @ drop (i + k) (oui_priv p)\<rparr>))"
  using assms
proof (induction n arbitrary: i p)
  case (Suc n)
  show ?case
  proof (cases "mem i")
    case True
    let ?p = "p\<lparr>oui_priv := (oui_priv p)[i := fresh_priv i]\<rparr>"
    have i: "i < length (oui_priv p)" using Suc.prems by simp
    have "allocate_from mem i (Suc n) p = allocate_from mem (Suc i) n ?p" using True by simp
    also have "\<dots> = (let k = length (takeWhile mem [Suc i..<Suc i + n])
       in (Suc i + k, ?p\<lparr>oui_priv := take (Suc i) (oui_priv ?p) @ map fresh_priv [Suc i..<Suc i + k] @ drop (Suc i + k) (oui_priv ?p)\<rparr>))"
      using Suc.prems by (intro Suc.IH) simp
    finally show ?thesis
      using True i by (simp add: upt_rec [of i] take_Suc_conv_app_nth Let_def)
  next
    case False
    then show ?thesis by (simp add: upt_rec [of i])
  qed
qed (simp add: Let_def)

text \<open>If every allocation succeeds, the object attached to the psoc has an empty list for every
  action and satisfies the invariant, and no allocation is lost.  If one fails, the creation
  fails and the objects allocated before it are lost: the error path forgets the pointers
  without freeing them.\<close>
theorem oui_create_leak:
  "action_oui_psoc_create_notification True QDF_STATUS_SUCCESS mems =
     (if list_all mems [0..<ACTION_OUI_MAXIMUM_ID]
      then (QDF_STATUS_SUCCESS, Some \<lparr>total_extensions = 0, oui_priv = map fresh_priv [0..<ACTION_OUI_MAXIMUM_ID]\<rparr>, 0)
      else (QDF_STATUS_E_INVAL, None, length (takeWhile mems [0..<ACTION_OUI_MAXIMUM_ID]))) \<and>
   oui_inv \<lparr>total_extensions = 0, oui_priv = map fresh_priv [0..<ACTION_OUI_MAXIMUM_ID]\<rparr>"
proof
  let ?N = ACTION_OUI_MAXIMUM_ID
  define k where "k = length (takeWhile mems [0..<?N])"
  have le: "k \<le> ?N" using length_takeWhile_le [of mems "[0..<?N]"] by (simp add: k_def)
  have all: "k = ?N \<longleftrightarrow> list_all mems [0..<?N]"
  proof
    assume "k = ?N"
    then have "takeWhile mems [0..<?N] = [0..<?N]"
      unfolding k_def by (metis takeWhile_eq_take take_all_iff length_upt diff_zero order_refl)
    then show "list_all mems [0..<?N]" by (metis set_takeWhileD list_all_iff)
  next
    assume "list_all mems [0..<?N]"
    then have "takeWhile mems [0..<?N] = [0..<?N]" unfolding takeWhile_eq_all_conv by (simp add: list_all_iff)
    then show "k = ?N" by (simp only: k_def length_upt diff_zero)
  qed
  have alloc: "allocate_from mems 0 ?N zero_psoc_priv =
      (k, zero_psoc_priv\<lparr>oui_priv := map fresh_priv [0..<k] @ replicate (?N - k) None\<rparr>)"
    using allocate_from_spec [of 0 ?N zero_psoc_priv mems] by (simp add: zero_psoc_priv_def k_def [symmetric] Let_def)
  have zero: "zero_psoc_priv\<lparr>oui_priv := X\<rparr> = \<lparr>total_extensions = 0, oui_priv = X\<rparr>" for X
    by (simp add: zero_psoc_priv_def)
  have "filter (\<lambda>j. (map fresh_priv [0..<k] @ replicate (?N - k) None) ! j \<noteq> None) [0..<k] = [0..<k]"
    by (simp add: filter_id_conv nth_append)
  then show "action_oui_psoc_create_notification True QDF_STATUS_SUCCESS mems =
     (if list_all mems [0..<?N]
      then (QDF_STATUS_SUCCESS, Some \<lparr>total_extensions = 0, oui_priv = map fresh_priv [0..<?N]\<rparr>, 0)
      else (QDF_STATUS_E_INVAL, None, length (takeWhile mems [0..<?N])))"
    unfolding k_def [symmetric] all [symmetric]
    by (simp add: action_oui_psoc_create_notification_def action_oui_allocate_def alloc zero)
  show "oui_inv \<lparr>total_extensions = 0, oui_priv = map fresh_priv [0..<?N]\<rparr>"
    by (simp add: oui_inv_def stored_exts_def o_def sum_list_0)
qed

end
