(* ===== verification/Rx_Data.thy ===== *)
theory Rx_Data
  imports Qdf_Prelude
begin

text \<open>
  The receive path of the low-latency data path, \<^verbatim>\<open>src/core/dp/txrx\<close>: frames, the reorder
  arrays of a peer, and the check of packet numbers of \<^verbatim>\<open>ol_rx_pn.c\<close>.  A frame is a network
  buffer together with what the descriptor accessors of HTT read for it and the fields of its
  802.11 header that the code looks at.  A slot of a reorder array is the chain of buffers that
  starts at \<^verbatim>\<open>head\<close> and the position of \<^verbatim>\<open>tail\<close> in it; a null \<^verbatim>\<open>head\<close> is
  the empty chain.  The host is little-endian.  What leaves the model (delivered, freed and
  defragmented frames, reported errors) is recorded in \<open>rx_log\<close>, the latest last.
\<close>

unbundle bit_operations_syntax

section \<open>Constants\<close>

definition OL_TXRX_NUM_EXT_TIDS :: nat where "OL_TXRX_NUM_EXT_TIDS = 19"
definition OL_RX_MCAST_TID :: nat where "OL_RX_MCAST_TID = 18"
definition IEEE80211_SEQ_MAX :: u32 where "IEEE80211_SEQ_MAX = 4096"
definition INVALID_REORDER_INDEX :: u16 where "INVALID_REORDER_INDEX = 0xFFFF"
definition IEEE80211_SEQ_FRAG_MASK :: u16 where "IEEE80211_SEQ_FRAG_MASK = 0x000f"
definition IEEE80211_SEQ_SEQ_SHIFT :: nat where "IEEE80211_SEQ_SEQ_SHIFT = 4"

section \<open>Frames\<close>

record htt_rx_pn =
  pn128_0 :: u64
  pn128_1 :: u64

record rx_frame =
  f_id :: nat
  f_seq_num :: u16
  f_tid :: u16
  f_retry :: bool
  f_reorder_idx :: nat
  f_completes_mpdu :: bool
  f_mcast :: bool
  f_encrypted :: bool
  f_is_frag :: bool
  f_pn :: htt_rx_pn
  i_seq :: u16
  i_more_frag :: bool
  i_addr1 :: "u8 list"
  i_addr2 :: "u8 list"

record rx_elem =
  elem_chain :: "rx_frame list"
  elem_tail :: nat

definition null_elem :: rx_elem where
  "null_elem = \<lparr>elem_chain = [], elem_tail = 0\<rparr>"

text \<open>The buffers from \<^verbatim>\<open>head\<close> to \<^verbatim>\<open>tail\<close>.\<close>

definition upto_tail :: "rx_elem \<Rightarrow> rx_frame list" where
  "upto_tail e = take (Suc (elem_tail e)) (elem_chain e)"

section \<open>Peers\<close>

datatype htt_sec_type =
    htt_sec_type_none | htt_sec_type_wep40 | htt_sec_type_wep104 | htt_sec_type_wep128
  | htt_sec_type_tkip | htt_sec_type_tkip_nomic | htt_sec_type_aes_ccmp | htt_sec_type_aes_ccmp_256
  | htt_sec_type_aes_gcmp | htt_sec_type_aes_gcmp_256 | htt_sec_type_wapi

datatype wlan_op_mode = wlan_op_mode_ap | wlan_op_mode_sta | wlan_op_mode_ibss | wlan_op_mode_ocb

text \<open>What \<^verbatim>\<open>peer->rx_opt_proc\<close> points to.\<close>

datatype rx_opt = Rx_pn_check | Rx_pn_check_only | Rx_fwd_check | Rx_deliver | Rx_discard

record ol_rx_reorder =
  win_sz :: u8
  win_sz_mask :: u8
  num_mpdus :: u8
  reorder_array :: "rx_elem list option"
  reorder_base :: rx_elem
  defrag_timeout_ms :: u32
  reorder_tid :: nat

record ol_txrx_peer =
  tids_rx_reorder :: "nat \<Rightarrow> ol_rx_reorder"
  tids_last_pn :: "nat \<Rightarrow> htt_rx_pn"
  tids_last_pn_valid :: "nat \<Rightarrow> bool"
  tids_rekey_flag :: "nat \<Rightarrow> bool"
  tids_next_rel_idx :: "nat \<Rightarrow> u16"
  tids_last_seq :: "nat \<Rightarrow> u16"
  tids_mcast_last_seq :: "nat \<Rightarrow> u16"
  sec_ucast :: htt_sec_type
  sec_mcast :: htt_sec_type
  rx_opt_proc :: rx_opt
  fw_pn_check :: bool
  peer_opmode :: wlan_op_mode

datatype rx_event =
    Deliver nat nat "rx_frame list"
  | Forward nat nat "rx_frame list"
  | Freed "rx_frame list"
  | Defrag nat nat "rx_frame list"
  | PnError nat nat rx_frame

text \<open>
  \<open>waitlist\<close> is the list of peer and TID pairs that wait for fragments.
  \<open>rx_undefined\<close> is set where the code would read outside an array or insert an element
  into a list that it is already a member of.
\<close>

record rx_state =
  peers :: "nat \<Rightarrow> ol_txrx_peer"
  waitlist :: "(nat \<times> nat) list"
  dup_check :: bool
  defrag_timeout_check :: bool
  defrag_timeout :: u32
  rx_log :: "rx_event list"
  rx_undefined :: bool

definition upd_peer :: "nat \<Rightarrow> (ol_txrx_peer \<Rightarrow> ol_txrx_peer) \<Rightarrow> rx_state \<Rightarrow> rx_state" where
  "upd_peer p f s = s\<lparr>peers := (peers s)(p := f (peers s p))\<rparr>"

definition emit :: "rx_event \<Rightarrow> rx_state \<Rightarrow> rx_state" where
  "emit ev s = s\<lparr>rx_log := rx_log s @ [ev]\<rparr>"

definition reorder_of :: "rx_state \<Rightarrow> nat \<Rightarrow> nat \<Rightarrow> ol_rx_reorder" where
  "reorder_of s p tid = tids_rx_reorder (peers s p) tid"

definition upd_reorder :: "nat \<Rightarrow> nat \<Rightarrow> (ol_rx_reorder \<Rightarrow> ol_rx_reorder) \<Rightarrow> rx_state \<Rightarrow> rx_state" where
  "upd_reorder p tid f =
     upd_peer p (\<lambda>x. x\<lparr>tids_rx_reorder := (tids_rx_reorder x)(tid := f (tids_rx_reorder x tid))\<rparr>)"

text \<open>The array that \<^verbatim>\<open>rx_reorder->array\<close> points to.\<close>

definition array_of :: "ol_rx_reorder \<Rightarrow> rx_elem list" where
  "array_of r = (case reorder_array r of None \<Rightarrow> [reorder_base r] | Some a \<Rightarrow> a)"

definition set_array :: "rx_elem list \<Rightarrow> ol_rx_reorder \<Rightarrow> ol_rx_reorder" where
  "set_array a r =
     (case reorder_array r of
        None \<Rightarrow> r\<lparr>reorder_base := hd a\<rparr>
      | Some _ \<Rightarrow> r\<lparr>reorder_array := Some a\<rparr>)"

definition slots :: "rx_state \<Rightarrow> nat \<Rightarrow> nat \<Rightarrow> rx_elem list" where
  "slots s p tid = array_of (reorder_of s p tid)"

definition set_slots :: "nat \<Rightarrow> nat \<Rightarrow> rx_elem list \<Rightarrow> rx_state \<Rightarrow> rx_state" where
  "set_slots p tid a = upd_reorder p tid (set_array a)"

definition mask_of :: "rx_state \<Rightarrow> nat \<Rightarrow> nat \<Rightarrow> nat" where
  "mask_of s p tid = unat (win_sz_mask (reorder_of s p tid))"

section \<open>Packet numbers\<close>

type_synonym pn_cmp = "htt_rx_pn \<Rightarrow> htt_rx_pn \<Rightarrow> bool \<Rightarrow> wlan_op_mode \<Rightarrow> bool \<Rightarrow> bool"

definition pn24 :: "htt_rx_pn \<Rightarrow> u32" where
  "pn24 pn = ucast (pn128_0 pn)"

definition ol_rx_pn_cmp24 :: pn_cmp where
  "ol_rx_pn_cmp24 new_pn old_pn is_unicast opmode strict_chk =
     (if strict_chk then (pn24 new_pn AND 0xffffff) - (pn24 old_pn AND 0xffffff) \<noteq> 1
      else pn24 new_pn AND 0xffffff \<le> pn24 old_pn AND 0xffffff)"

definition ol_rx_pn_cmp48 :: pn_cmp where
  "ol_rx_pn_cmp48 new_pn old_pn is_unicast opmode strict_chk =
     (if strict_chk then (pn128_0 new_pn AND 0xffffffffffff) - (pn128_0 old_pn AND 0xffffffffffff) \<noteq> 1
      else pn128_0 new_pn AND 0xffffffffffff \<le> pn128_0 old_pn AND 0xffffffffffff)"

definition ol_rx_pn_wapi_cmp :: pn_cmp where
  "ol_rx_pn_wapi_cmp new_pn old_pn is_unicast opmode strict_chk =
     (let pn_is_replay =
        (if pn128_1 new_pn = pn128_1 old_pn then pn128_0 new_pn \<le> pn128_0 old_pn
         else pn128_1 new_pn < pn128_1 old_pn)
      in if is_unicast
         then if opmode = wlan_op_mode_ap then pn_is_replay \<or> pn128_0 new_pn AND 1 \<noteq> 0
              else pn_is_replay \<or> pn128_0 new_pn AND 1 \<noteq> 1
         else pn_is_replay)"

text \<open>\<^verbatim>\<open>pdev->rx_pn\<close>: the length of the packet number and the comparison; \<open>None\<close> is length 0.\<close>

definition rx_pn :: "htt_sec_type \<Rightarrow> (nat \<times> pn_cmp) option" where
  "rx_pn sec =
     (case sec of
        htt_sec_type_none \<Rightarrow> None
      | htt_sec_type_wep40 \<Rightarrow> Some (24, ol_rx_pn_cmp24)
      | htt_sec_type_wep104 \<Rightarrow> Some (24, ol_rx_pn_cmp24)
      | htt_sec_type_wep128 \<Rightarrow> Some (24, ol_rx_pn_cmp24)
      | htt_sec_type_wapi \<Rightarrow> Some (128, ol_rx_pn_wapi_cmp)
      | _ \<Rightarrow> Some (48, ol_rx_pn_cmp48))"

text \<open>The first MPDU of a list of buffers, and the rest.\<close>

definition ol_rx_mpdu_list_next :: "rx_frame list \<Rightarrow> rx_frame list \<times> rx_frame list" where
  "ol_rx_mpdu_list_next fs =
     (let n = length (takeWhile (\<lambda>f. \<not> f_completes_mpdu f) fs) in (take (Suc n) fs, drop (Suc n) fs))"

lemma mpdu_list_shorter [simp]: "length (snd (ol_rx_mpdu_list_next (f # fs))) < Suc (length fs)"
  by (simp add: ol_rx_mpdu_list_next_def Let_def)

text \<open>The body of the loop for one MPDU: whether it is added to the list of good frames.\<close>

definition pn_step :: "nat \<Rightarrow> nat \<Rightarrow> bool \<Rightarrow> pn_cmp \<Rightarrow> bool \<Rightarrow> rx_frame list \<Rightarrow> rx_state \<Rightarrow> bool \<times> rx_state" where
  "pn_step p tid is_ucast cmp strict_chk mpdu s =
     (let peer = peers s p;
          new_pn = f_pn (hd mpdu)
      in if \<not> f_encrypted (hd mpdu) then (True, s)
         else
           let pn_is_replay = (tids_last_pn_valid peer tid \<and>
                 cmp new_pn (tids_last_pn peer tid) is_ucast (peer_opmode peer) strict_chk);
               s1 = upd_peer p (\<lambda>x. x\<lparr>tids_last_pn_valid := (tids_last_pn_valid x)(tid := True)\<rparr>) s
           in if pn_is_replay then (False, emit (Freed mpdu) (emit (PnError p tid (hd mpdu)) s1))
              else if (if is_ucast then sec_ucast peer else sec_mcast peer) = htt_sec_type_wapi \<and>
                      tids_rekey_flag peer tid \<and> is_ucast
              then (True, upd_peer p (\<lambda>x. x\<lparr>tids_rekey_flag := (tids_rekey_flag x)(tid := False)\<rparr>) s1)
              else (True, upd_peer p (\<lambda>x. x\<lparr>tids_last_pn := (tids_last_pn x)(tid := new_pn)\<rparr>) s1))"

text \<open>The loop: the buffers that pass, and the state after it.\<close>

function pn_loop ::
  "nat \<Rightarrow> nat \<Rightarrow> bool \<Rightarrow> pn_cmp \<Rightarrow> bool \<Rightarrow> rx_frame list \<Rightarrow> rx_state \<Rightarrow> rx_frame list \<times> rx_state" where
  "pn_loop p tid is_ucast cmp strict_chk [] s = ([], s)"
| "pn_loop p tid is_ucast cmp strict_chk (f # fs) s =
     (let mpdu = fst (ol_rx_mpdu_list_next (f # fs));
          (good, s1) = pn_step p tid is_ucast cmp strict_chk mpdu s;
          (out, s2) = pn_loop p tid is_ucast cmp strict_chk (snd (ol_rx_mpdu_list_next (f # fs))) s1
      in ((if good then mpdu @ out else out), s2))"
  by pat_completeness auto
termination
  by (relation "measure (\<lambda>(p, tid, is_ucast, cmp, strict_chk, fs, s). length fs)")
    simp_all

definition ol_rx_pn_check_base :: "nat \<Rightarrow> nat \<Rightarrow> rx_frame list \<Rightarrow> bool \<Rightarrow> rx_state \<Rightarrow> rx_frame list \<times> rx_state" where
  "ol_rx_pn_check_base p tid msdu_list strict_chk s =
     (let peer = peers s p
      in if fw_pn_check peer \<or> peer_opmode peer = wlan_op_mode_ibss then (msdu_list, s)
         else
           let is_ucast = (\<not> f_mcast (hd msdu_list))
           in case rx_pn (if is_ucast then sec_ucast peer else sec_mcast peer) of
                None \<Rightarrow> (msdu_list, s)
              | Some (pn_len, cmp) \<Rightarrow> pn_loop p tid is_ucast cmp strict_chk msdu_list s)"

definition ol_rx_pn_check :: "nat \<Rightarrow> nat \<Rightarrow> rx_frame list \<Rightarrow> rx_state \<Rightarrow> rx_state" where
  "ol_rx_pn_check p tid msdu_list s =
     (case ol_rx_pn_check_base p tid msdu_list False s of (l, s') \<Rightarrow> emit (Forward p tid l) s')"

definition ol_rx_pn_check_only :: "nat \<Rightarrow> nat \<Rightarrow> rx_frame list \<Rightarrow> rx_state \<Rightarrow> rx_state" where
  "ol_rx_pn_check_only p tid msdu_list s =
     (case ol_rx_pn_check_base p tid msdu_list False s of (l, s') \<Rightarrow> emit (Deliver p tid l) s')"

text \<open>The call through \<^verbatim>\<open>peer->rx_opt_proc\<close>, with a list that is not empty.\<close>

definition call_rx_opt_proc :: "nat \<Rightarrow> nat \<Rightarrow> rx_frame list \<Rightarrow> rx_state \<Rightarrow> rx_state" where
  "call_rx_opt_proc p tid msdu_list s =
     (case rx_opt_proc (peers s p) of
        Rx_pn_check \<Rightarrow> ol_rx_pn_check p tid msdu_list s
      | Rx_pn_check_only \<Rightarrow> ol_rx_pn_check_only p tid msdu_list s
      | Rx_fwd_check \<Rightarrow> emit (Forward p tid msdu_list) s
      | Rx_deliver \<Rightarrow> emit (Deliver p tid msdu_list) s
      | Rx_discard \<Rightarrow> emit (Freed msdu_list) s)"

text \<open>New keys.\<close>

definition ol_rx_sec_ind_handler :: "nat \<Rightarrow> htt_sec_type \<Rightarrow> bool \<Rightarrow> htt_rx_pn \<Rightarrow> rx_state \<Rightarrow> rx_state" where
  "ol_rx_sec_ind_handler p sec_type is_unicast rx_pn_init s =
     (let s1 = upd_peer p (\<lambda>x. if is_unicast then x\<lparr>sec_ucast := sec_type\<rparr> else x\<lparr>sec_mcast := sec_type\<rparr>) s
      in if sec_type \<noteq> htt_sec_type_wapi
         then upd_peer p (\<lambda>x. x\<lparr>tids_last_pn_valid := (\<lambda>_. False)\<rparr>) s1
         else if \<not> is_unicast \<or> tids_last_pn_valid (peers s1 p) 0
         then upd_peer p (\<lambda>x. x\<lparr>tids_last_pn_valid := (\<lambda>_. True), tids_last_pn := (\<lambda>_. rx_pn_init),
                tids_rekey_flag := (if is_unicast then (\<lambda>_. True) else tids_rekey_flag x)\<rparr>) s1
         else s1)"

end
