(* ===== verification/Rx_Reorder.thy ===== *)
theory Rx_Reorder
  imports Rx_Data
begin

text \<open>
  Block-ack reordering and the collection of fragments: \<^verbatim>\<open>ol_rx_reorder.c\<close>, the functions of
  \<^verbatim>\<open>ol_rx_defrag.c\<close> that store fragments and keep the list of TIDs that wait for them, and
  \<^verbatim>\<open>process_reorder\<close> and the indication handler of \<^verbatim>\<open>ol_rx.c\<close>, for a build without
  \<^verbatim>\<open>QCA_SUPPORT_OL_RX_REORDER_TIMEOUT\<close>, the traces and \<^verbatim>\<open>HTT_RX_RESTORE\<close>.  The loops
  over a window are \<open>partial_function\<close>s, since they end only if the end index is met.
  Handing a complete list of fragments to \<^verbatim>\<open>ol_rx_defrag\<close> is an event.  A message of the
  firmware is a record with what the HTT accessors return for it.
\<close>

section \<open>Fragments that wait\<close>

text \<open>\<^verbatim>\<open>tqe_next\<close> of an element is null if it is the last of the list, or not in it.\<close>

definition tqe_next_null :: "'a \<Rightarrow> 'a list \<Rightarrow> bool" where
  "tqe_next_null x xs \<longleftrightarrow> x \<notin> set xs \<or> x = last xs"

definition ol_rx_defrag_waitlist_add :: "nat \<Rightarrow> nat \<Rightarrow> rx_state \<Rightarrow> rx_state" where
  "ol_rx_defrag_waitlist_add p tid s =
     (if (p, tid) \<in> set (waitlist s) then s\<lparr>rx_undefined := True\<rparr>
      else s\<lparr>waitlist := waitlist s @ [(p, tid)]\<rparr>)"

definition ol_rx_defrag_waitlist_remove :: "nat \<Rightarrow> nat \<Rightarrow> rx_state \<Rightarrow> rx_state" where
  "ol_rx_defrag_waitlist_remove p tid s =
     (if \<not> tqe_next_null (p, tid) (waitlist s) then s\<lparr>waitlist := remove1 (p, tid) (waitlist s)\<rparr> else s)"

definition ol_rx_reorder_flush_frag :: "nat \<Rightarrow> nat \<Rightarrow> nat \<Rightarrow> rx_state \<Rightarrow> rx_state" where
  "ol_rx_reorder_flush_frag p tid seq_num s =
     (let seq = seq_num AND mask_of s p tid;
          e = slots s p tid ! seq
      in if elem_chain e \<noteq> []
         then set_slots p tid ((slots s p tid)[seq := null_elem]) (emit (Freed (elem_chain e)) s)
         else s)"

section \<open>Collecting fragments\<close>

definition fragno :: "rx_frame \<Rightarrow> nat" where
  "fragno f = unat (i_seq f AND IEEE80211_SEQ_FRAG_MASK)"

definition rxseq :: "rx_frame \<Rightarrow> u16" where
  "rxseq f = drop_bit IEEE80211_SEQ_SEQ_SHIFT (i_seq f)"

text \<open>The position at which the \<^verbatim>\<open>do\<close> loop over the chain stops.\<close>

fun frag_position :: "nat \<Rightarrow> rx_frame list \<Rightarrow> nat" where
  "frag_position n [] = 0"
| "frag_position n (c # cs) = (if n > fragno c then Suc (frag_position n cs) else 0)"

text \<open>The check that the buffers after the head are numbered 1, 2, ...\<close>

fun frags_consecutive :: "nat \<Rightarrow> rx_frame list \<Rightarrow> bool" where
  "frags_consecutive count [] = True"
| "frags_consecutive count (c # cs) = (fragno c = Suc count \<and> frags_consecutive (Suc count) cs)"

text \<open>The slot, whether all fragments are present, and the fragment if it is a duplicate that is freed.\<close>

definition ol_rx_fraglist_insert :: "rx_elem \<Rightarrow> rx_frame \<Rightarrow> rx_elem \<times> bool \<times> rx_frame option" where
  "ol_rx_fraglist_insert e frag =
     (let cs = elem_chain e; t = elem_tail e
      in if cs = [] then (\<lparr>elem_chain = [frag], elem_tail = 0\<rparr>, False, None)
         else
           let pos = frag_position (fragno frag) cs;
               all_present = (\<lambda>e'. \<not> i_more_frag (elem_chain e' ! elem_tail e') \<and>
                 frags_consecutive 0 (tl (elem_chain e')))
           in if fragno frag > fragno (cs ! t)
              then let e' = \<lparr>elem_chain = take (Suc t) cs @ [frag], elem_tail = Suc t\<rparr> in (e', all_present e', None)
              else if fragno frag = fragno (cs ! pos) then (e, False, Some frag)
              else let e' = \<lparr>elem_chain = take (Suc pos) cs @ frag # drop (Suc pos) cs,
                             elem_tail = (if pos < t then Suc t else t)\<rparr>
                   in (e', all_present e', None))"

definition ol_rx_reorder_store_frag :: "u32 \<Rightarrow> nat \<Rightarrow> nat \<Rightarrow> nat \<Rightarrow> rx_frame \<Rightarrow> rx_state \<Rightarrow> rx_state" where
  "ol_rx_reorder_store_frag now_ms p tid seq_num frag s =
     (let seq = seq_num AND mask_of s p tid;
          e = slots s p tid ! seq
      in if f_mcast frag then emit (Freed [frag]) s
         else if sec_ucast (peers s p) \<noteq> htt_sec_type_none \<and> \<not> f_encrypted frag then emit (Freed [frag]) s
         else if \<not> i_more_frag frag \<and> fragno frag = 0 \<and> elem_chain e = []
         then set_slots p tid ((slots s p tid)[seq := null_elem]) (emit (Defrag p tid [frag]) s)
         else
           let mismatch = (elem_chain e \<noteq> [] \<and>
                 (rxseq frag \<noteq> rxseq (hd (elem_chain e)) \<or> i_addr1 frag \<noteq> i_addr1 (hd (elem_chain e)) \<or>
                  i_addr2 frag \<noteq> i_addr2 (hd (elem_chain e))));
               s1 = (if mismatch then emit (Freed (elem_chain e)) s else s);
               (e2, all_frag_present, dup) = ol_rx_fraglist_insert (if mismatch then null_elem else e) frag;
               s2 = (case dup of None \<Rightarrow> s1 | Some f \<Rightarrow> emit (Freed [f]) s1);
               s3 = set_slots p tid ((slots s2 p tid)[seq := e2]) s2;
               s4 = (if defrag_timeout_check s3 then ol_rx_defrag_waitlist_remove p tid s3 else s3)
           in if all_frag_present
              then upd_peer p (\<lambda>x. x\<lparr>tids_last_seq := (tids_last_seq x)(tid := of_nat seq_num)\<rparr>)
                     (upd_reorder p tid (\<lambda>r. r\<lparr>defrag_timeout_ms := 0\<rparr>)
                        (set_slots p tid ((slots s4 p tid)[seq := null_elem]) (emit (Defrag p tid (elem_chain e2)) s4)))
              else if defrag_timeout_check s4
              then ol_rx_defrag_waitlist_add p tid
                     (upd_reorder p tid (\<lambda>r. r\<lparr>defrag_timeout_ms := now_ms + defrag_timeout s4\<rparr>) s4)
              else s4)"

text \<open>The walk of \<^verbatim>\<open>TAILQ_FOREACH_SAFE\<close> over the elements that were in the list.\<close>

fun waitlist_flush_walk :: "u32 \<Rightarrow> (nat \<times> nat) list \<Rightarrow> rx_state \<Rightarrow> rx_state" where
  "waitlist_flush_walk now_ms [] s = s"
| "waitlist_flush_walk now_ms ((p, tid) # xs) s =
     (if defrag_timeout_ms (reorder_of s p tid) > now_ms then s
      else if tid \<ge> OL_TXRX_NUM_EXT_TIDS then waitlist_flush_walk now_ms xs s
      else waitlist_flush_walk now_ms xs (ol_rx_reorder_flush_frag p tid 0 (ol_rx_defrag_waitlist_remove p tid s)))"

definition ol_rx_defrag_waitlist_flush :: "u32 \<Rightarrow> rx_state \<Rightarrow> rx_state" where
  "ol_rx_defrag_waitlist_flush now_ms s = waitlist_flush_walk now_ms (waitlist s) s"

section \<open>The reorder array\<close>

definition ol_rx_reorder_init :: "nat \<Rightarrow> ol_rx_reorder \<Rightarrow> ol_rx_reorder" where
  "ol_rx_reorder_init tid r =
     r\<lparr>win_sz := 1, win_sz_mask := 0, reorder_array := None, reorder_base := null_elem,
       reorder_tid := tid, defrag_timeout_ms := 0\<rparr>"

text \<open>True if the frame may pass; \<^verbatim>\<open>unsigned int\<close> arithmetic.\<close>

definition ol_rx_reorder_seq_num_check :: "u16 \<Rightarrow> u32 \<Rightarrow> bool" where
  "ol_rx_reorder_seq_num_check last_seq seq_num =
     (if ucast last_seq = IEEE80211_SEQ_MAX then True
      else let seq_num_delta = (seq_num - 1 - ucast last_seq) AND (IEEE80211_SEQ_MAX - 1)
           in \<not> seq_num_delta > drop_bit 1 IEEE80211_SEQ_MAX)"

definition ol_rx_seq_num_check :: "nat \<Rightarrow> nat \<Rightarrow> rx_frame \<Rightarrow> rx_state \<Rightarrow> bool \<times> rx_state" where
  "ol_rx_seq_num_check p tid desc s =
     (if tid = OL_RX_MCAST_TID
      then let pkt_tid = unat (f_tid desc)
           in if pkt_tid \<ge> OL_TXRX_NUM_EXT_TIDS then (True, s)
              else if f_retry desc \<and> f_seq_num desc = tids_mcast_last_seq (peers s p) pkt_tid then (False, s)
              else (True, upd_peer p (\<lambda>x. x\<lparr>tids_mcast_last_seq := (tids_mcast_last_seq x)(pkt_tid := f_seq_num desc)\<rparr>) s)
      else (ol_rx_reorder_seq_num_check (tids_last_seq (peers s p) tid) (ucast (f_seq_num desc)), s))"

definition OL_RX_SEQ_NUM_CHECK :: "nat \<Rightarrow> nat \<Rightarrow> rx_frame \<Rightarrow> rx_state \<Rightarrow> bool \<times> rx_state" where
  "OL_RX_SEQ_NUM_CHECK p tid desc s =
     (if dup_check s \<and> mask_of s p tid = 0 then ol_rx_seq_num_check p tid desc s else (True, s))"

text \<open>\<open>msdus\<close> is the list from \<^verbatim>\<open>head_msdu\<close> to \<^verbatim>\<open>tail_msdu\<close>.\<close>

definition ol_rx_reorder_store :: "nat \<Rightarrow> nat \<Rightarrow> nat \<Rightarrow> rx_frame list \<Rightarrow> rx_state \<Rightarrow> rx_state" where
  "ol_rx_reorder_store p tid idx0 msdus s =
     (let idx = idx0 AND mask_of s p tid;
          e = slots s p tid ! idx;
          chain = (if elem_chain e \<noteq> [] then upto_tail e @ msdus else msdus)
      in set_slots p tid ((slots s p tid)[idx := \<lparr>elem_chain = chain, elem_tail = length chain - 1\<rparr>]) s)"

text \<open>
  The loop of \<^verbatim>\<open>ol_rx_reorder_release\<close>: \<open>out\<close> is the list that starts at \<^verbatim>\<open>head_msdu\<close>
  and ends at \<^verbatim>\<open>tail_msdu\<close>; nothing is appended to it while \<^verbatim>\<open>head_msdu\<close> is null.
\<close>

partial_function (option) release_loop ::
  "nat \<Rightarrow> nat \<Rightarrow> nat \<Rightarrow> rx_frame list \<Rightarrow> rx_elem list \<Rightarrow> (rx_frame list \<times> rx_elem list) option" where
  "release_loop msk idx idx_end out arr =
     (if idx = idx_end then Some (out, arr)
      else release_loop msk ((idx + 1) AND msk) idx_end
             (if elem_chain (arr ! idx) \<noteq> [] \<and> out \<noteq> [] then out @ upto_tail (arr ! idx) else out)
             (arr[idx := null_elem]))"

definition set_last_seq :: "nat \<Rightarrow> nat \<Rightarrow> rx_frame list \<Rightarrow> rx_state \<Rightarrow> rx_state" where
  "set_last_seq p tid out = upd_peer p (\<lambda>x. x\<lparr>tids_last_seq := (tids_last_seq x)(tid := f_seq_num (hd out))\<rparr>)"

definition ol_rx_reorder_release :: "nat \<Rightarrow> nat \<Rightarrow> nat \<Rightarrow> nat \<Rightarrow> rx_state \<Rightarrow> rx_state option" where
  "ol_rx_reorder_release p tid idx_start0 idx_end0 s =
     (let s1 = upd_peer p (\<lambda>x. x\<lparr>tids_next_rel_idx := (tids_next_rel_idx x)(tid := of_nat idx_end0)\<rparr>) s;
          msk = mask_of s p tid;
          idx_start = idx_start0 AND msk;
          idx_end = idx_end0 AND msk;
          arr = slots s1 p tid;
          head = (if elem_chain (arr ! idx_start) = [] then [] else upto_tail (arr ! idx_start))
      in case release_loop msk ((idx_start + 1) AND msk) idx_end head (arr[idx_start := null_elem]) of
           None \<Rightarrow> None
         | Some (out, arr') \<Rightarrow>
             let s2 = set_slots p tid arr' s1
             in Some (if out \<noteq> [] then call_rx_opt_proc p tid out (set_last_seq p tid out s2) else s2))"

partial_function (option) flush_loop ::
  "nat \<Rightarrow> nat \<Rightarrow> nat \<Rightarrow> rx_frame list \<Rightarrow> rx_elem list \<Rightarrow> (rx_frame list \<times> rx_elem list) option" where
  "flush_loop msk idx_start idx_end out arr =
     (let e = arr ! idx_start;
          next = (idx_start + 1) AND msk;
          out' = (if elem_chain e \<noteq> [] then out @ upto_tail e else out);
          arr' = (if elem_chain e \<noteq> [] then arr[idx_start := null_elem] else arr)
      in if next \<noteq> idx_end then flush_loop msk next idx_end out' arr' else Some (out', arr'))"

datatype htt_rx_flush_action = htt_rx_flush_release | htt_rx_flush_discard

definition ol_rx_reorder_flush ::
  "nat \<Rightarrow> nat \<Rightarrow> nat \<Rightarrow> nat \<Rightarrow> htt_rx_flush_action \<Rightarrow> rx_state \<Rightarrow> rx_state option" where
  "ol_rx_reorder_flush p tid idx_start0 idx_end0 action s =
     (let msk = mask_of s p tid;
          idx_end1 = (if idx_end0 = 0xffff then idx_start0 else idx_end0);
          s1 = upd_peer p (\<lambda>x. x\<lparr>tids_next_rel_idx := (tids_next_rel_idx x)
                 (tid := if idx_end0 = 0xffff then 0 else of_nat idx_end0)\<rparr>) s
      in case flush_loop msk (idx_start0 AND msk) (idx_end1 AND msk) [] (slots s1 p tid) of
           None \<Rightarrow> None
         | Some (out, arr') \<Rightarrow>
             let s2 = ol_rx_defrag_waitlist_remove p tid (set_slots p tid arr' s1)
             in Some (if out = [] then s2
                      else if action = htt_rx_flush_release
                      then call_rx_opt_proc p tid out (set_last_seq p tid out s2)
                      else emit (Freed out) (set_last_seq p tid out s2)))"

fun cleanup_tids :: "nat \<Rightarrow> nat list \<Rightarrow> rx_state \<Rightarrow> rx_state option" where
  "cleanup_tids p [] s = Some s"
| "cleanup_tids p (tid # tids) s =
     (case ol_rx_reorder_flush p tid 0 0 htt_rx_flush_discard s of
        None \<Rightarrow> None
      | Some s' \<Rightarrow> cleanup_tids p tids s')"

definition ol_rx_reorder_peer_cleanup :: "nat \<Rightarrow> rx_state \<Rightarrow> rx_state option" where
  "ol_rx_reorder_peer_cleanup p = cleanup_tids p [0..<OL_TXRX_NUM_EXT_TIDS]"

section \<open>Messages of the firmware\<close>

definition g_log2ceil :: "nat list" where
  "g_log2ceil = [1, 1, 2, 4, 4, 8, 8, 8, 8] @ replicate 8 16 @ replicate 16 32 @ replicate 32 64"

text \<open>\<open>mem\<close> is the outcome of the allocation, which returns cleared memory.\<close>

definition ol_rx_addba_handler :: "bool \<Rightarrow> nat option \<Rightarrow> nat \<Rightarrow> u8 \<Rightarrow> bool \<Rightarrow> rx_state \<Rightarrow> rx_state" where
  "ol_rx_addba_handler mem peer tid wsz failed s =
     (if tid \<ge> OL_TXRX_NUM_EXT_TIDS then s
      else case peer of
             None \<Rightarrow> s
           | Some p \<Rightarrow>
               if failed then s
               else
                 let s1 = upd_peer p (\<lambda>x. x\<lparr>tids_last_seq := (tids_last_seq x)(tid := ucast IEEE80211_SEQ_MAX)\<rparr>) s
                 in if unat wsz \<ge> length g_log2ceil then s1\<lparr>rx_undefined := True\<rparr>
                    else if \<not> mem then s1
                    else
                      let round_pwr2_win_sz = g_log2ceil ! unat wsz
                      in upd_peer p (\<lambda>x. x\<lparr>tids_next_rel_idx := (tids_next_rel_idx x)(tid := 0)\<rparr>)
                           (upd_reorder p tid (\<lambda>r. r\<lparr>reorder_array := Some (replicate round_pwr2_win_sz null_elem),
                              win_sz := wsz, win_sz_mask := of_nat (round_pwr2_win_sz - 1), num_mpdus := 0\<rparr>) s1))"

definition ol_rx_delba_handler :: "nat option \<Rightarrow> nat \<Rightarrow> rx_state \<Rightarrow> rx_state" where
  "ol_rx_delba_handler peer tid s =
     (if tid \<ge> OL_TXRX_NUM_EXT_TIDS then s
      else case peer of
             None \<Rightarrow> s
           | Some p \<Rightarrow>
               upd_reorder p tid (ol_rx_reorder_init tid)
                 (upd_peer p (\<lambda>x. x\<lparr>tids_next_rel_idx := (tids_next_rel_idx x)(tid := INVALID_REORDER_INDEX)\<rparr>) s))"

definition ol_rx_flush_handler ::
  "nat option \<Rightarrow> nat \<Rightarrow> nat \<Rightarrow> nat \<Rightarrow> htt_rx_flush_action \<Rightarrow> rx_state \<Rightarrow> rx_state option" where
  "ol_rx_flush_handler peer tid idx_start idx_end action s =
     (if tid \<ge> OL_TXRX_NUM_EXT_TIDS then Some s
      else case peer of
             None \<Rightarrow> Some s
           | Some p \<Rightarrow>
               let e = slots s p tid ! (idx_start AND mask_of s p tid)
               in if elem_chain e \<noteq> [] \<and> f_is_frag (hd (elem_chain e))
                  then Some (ol_rx_reorder_flush_frag p tid idx_start s)
                  else ol_rx_reorder_flush p tid idx_start idx_end action s)"

text \<open>The loop of \<^verbatim>\<open>ol_rx_pn_ind_handler\<close>: \<open>bad\<close> are the remaining elements of \<^verbatim>\<open>pn_ie\<close>.\<close>

partial_function (option) pn_ind_loop ::
  "nat \<Rightarrow> nat \<Rightarrow> nat \<Rightarrow> nat \<Rightarrow> nat \<Rightarrow> nat list \<Rightarrow> rx_frame list \<Rightarrow> rx_elem list \<Rightarrow> rx_event list \<Rightarrow>
     (rx_frame list \<times> rx_elem list \<times> rx_event list) option" where
  "pn_ind_loop p tid msk seq_num seq_num_end bad out arr evs =
     (let e = arr ! seq_num;
          failed = (elem_chain e \<noteq> [] \<and> bad \<noteq> [] \<and> seq_num = hd bad);
          bad' = (if failed then tl bad else bad);
          out' = (if elem_chain e \<noteq> [] \<and> \<not> failed then out @ upto_tail e else out);
          evs' = (if failed then evs @ [PnError p tid (hd (elem_chain e)), Freed (upto_tail e)] else evs);
          arr' = (if elem_chain e \<noteq> [] then arr[seq_num := null_elem] else arr);
          next = (seq_num + 1) AND msk
      in if next \<noteq> seq_num_end then pn_ind_loop p tid msk next seq_num_end bad' out' arr' evs'
         else Some (out', arr', evs'))"

definition ol_rx_pn_ind_handler :: "nat option \<Rightarrow> nat \<Rightarrow> nat \<Rightarrow> nat \<Rightarrow> nat list \<Rightarrow> rx_state \<Rightarrow> rx_state option" where
  "ol_rx_pn_ind_handler peer tid seq_num_start seq_num_end pn_ie s =
     (if tid \<ge> OL_TXRX_NUM_EXT_TIDS then Some s
      else case peer of
             None \<Rightarrow> Some s
           | Some p \<Rightarrow>
               let s1 = upd_peer p (\<lambda>x. x\<lparr>fw_pn_check := True\<rparr>) s;
                   msk = mask_of s p tid
               in case pn_ind_loop p tid msk (seq_num_start AND msk) (seq_num_end AND msk) pn_ie [] (slots s1 p tid) [] of
                    None \<Rightarrow> None
                  | Some (out, arr', evs) \<Rightarrow>
                      let s2 = fold emit evs (set_slots p tid arr' s1)
                      in Some (if out \<noteq> [] then call_rx_opt_proc p tid out s2 else s2))"

definition process_reorder :: "nat \<Rightarrow> nat \<Rightarrow> rx_frame list \<Rightarrow> rx_state \<Rightarrow> rx_state" where
  "process_reorder p tid msdus s =
     (let desc = hd msdus
      in case OL_RX_SEQ_NUM_CHECK p tid desc s of
           (False, s1) \<Rightarrow> emit (Freed msdus) s1
         | (True, s1) \<Rightarrow>
             let s2 = ol_rx_reorder_store p tid (f_reorder_idx desc) msdus s1
             in if mask_of s2 p tid = 0
                then upd_peer p (\<lambda>x. x\<lparr>tids_last_seq := (tids_last_seq x)(tid := f_seq_num desc)\<rparr>) s2
                else s2)"

text \<open>An MPDU of an indication, and whether its MSDUs are chained.\<close>

record rx_mpdu =
  mpdu_chained :: bool
  mpdu_msdus :: "rx_frame list"

text \<open>
  \<open>ind_ranges\<close> holds the status of each range, true for \<^verbatim>\<open>htt_rx_status_ok\<close>, and the
  MPDUs that \<^verbatim>\<open>htt_rx_amsdu_pop\<close> returns for it; \<open>ind_invalid_tid\<close> is
  \<^verbatim>\<open>tid == HTT_INVALID_TID\<close>.
\<close>

record rx_ind =
  ind_flush :: "(nat \<times> nat) option"
  ind_release :: "(nat \<times> nat) option"
  ind_ranges :: "(bool \<times> rx_mpdu list) list"
  ind_invalid_tid :: bool

definition rx_one_mpdu :: "nat option \<Rightarrow> nat \<Rightarrow> bool \<Rightarrow> rx_mpdu \<Rightarrow> rx_state \<Rightarrow> rx_state" where
  "rx_one_mpdu peer tid status m s =
     (case peer of
        Some p \<Rightarrow>
          if status then
            if mpdu_chained m then emit (Freed (mpdu_msdus m)) s
            else if tid \<ge> OL_TXRX_NUM_EXT_TIDS then s\<lparr>rx_undefined := True\<rparr>
            else process_reorder p tid (mpdu_msdus m) s
          else emit (Freed (mpdu_msdus m)) s
      | None \<Rightarrow> emit (Freed (mpdu_msdus m)) s)"

definition rx_range :: "nat option \<Rightarrow> nat \<Rightarrow> bool \<times> rx_mpdu list \<Rightarrow> rx_state \<Rightarrow> rx_state" where
  "rx_range peer tid r = fold (rx_one_mpdu peer tid (fst r)) (snd r)"

definition ol_rx_indication_handler :: "u32 \<Rightarrow> nat option \<Rightarrow> nat \<Rightarrow> rx_ind \<Rightarrow> rx_state \<Rightarrow> rx_state option" where
  "ol_rx_indication_handler now_ms peer tid ind s =
     (let flushed = (case (ind_flush ind, peer) of
            (Some (a, b), Some p) \<Rightarrow>
              if ind_invalid_tid ind then map_option Inr (ol_rx_reorder_peer_cleanup p s)
              else if tid \<ge> OL_TXRX_NUM_EXT_TIDS then Some (Inl s)
              else map_option Inr (ol_rx_reorder_flush p tid a b htt_rx_flush_release s)
          | _ \<Rightarrow> Some (Inr s))
      in case flushed of
           None \<Rightarrow> None
         | Some (Inl s') \<Rightarrow> Some s'
         | Some (Inr s1) \<Rightarrow>
             let s2 = fold (rx_range peer tid) (ind_ranges ind) s1;
                 released = (case (ind_release ind, peer) of
                   (Some (a, b), Some p) \<Rightarrow>
                     if tid \<ge> OL_TXRX_NUM_EXT_TIDS then Some (s2\<lparr>rx_undefined := True\<rparr>)
                     else ol_rx_reorder_release p tid a b s2
                 | _ \<Rightarrow> Some s2)
             in map_option (\<lambda>s3. if defrag_timeout_check s3 then ol_rx_defrag_waitlist_flush now_ms s3 else s3) released)"

text \<open>A new peer, and its removal.\<close>

definition ol_rx_peer_init :: "nat \<Rightarrow> rx_state \<Rightarrow> rx_state" where
  "ol_rx_peer_init p =
     upd_peer p (\<lambda>x. x\<lparr>tids_rx_reorder := (\<lambda>tid. ol_rx_reorder_init tid (tids_rx_reorder x tid)),
       tids_last_seq := (\<lambda>_. ucast IEEE80211_SEQ_MAX), tids_next_rel_idx := (\<lambda>_. INVALID_REORDER_INDEX),
       sec_ucast := htt_sec_type_none, sec_mcast := htt_sec_type_none, fw_pn_check := False\<rparr>)"

definition ol_rx_peer_cleanup :: "nat \<Rightarrow> rx_state \<Rightarrow> rx_state option" where
  "ol_rx_peer_cleanup p s = ol_rx_reorder_peer_cleanup p s"

declare release_loop.simps [code] flush_loop.simps [code] pn_ind_loop.simps [code]

end
