(* ===== verification/Rx_Inv.thy ===== *)
theory Rx_Inv
  imports Rx_Reorder "HOL-Library.Multiset"
begin

text \<open>
  Lemmas on the receive path: the cyclic walks over a reorder window, what they take out of the
  array, and the frames that are held and handed on.
\<close>

section \<open>Windows\<close>

text \<open>The array has a power of two of slots and the mask fits it.\<close>

definition reorder_ok :: "ol_rx_reorder \<Rightarrow> bool" where
  "reorder_ok r \<longleftrightarrow> (\<exists>k \<le> 6. unat (win_sz_mask r) = 2 ^ k - 1 \<and> length (array_of r) = 2 ^ k)"

definition rx_ok :: "rx_state \<Rightarrow> bool" where
  "rx_ok s \<longleftrightarrow> (\<forall>p tid. reorder_ok (reorder_of s p tid))"

lemma and_mask_mod: "(n :: nat) AND (2 ^ k - 1) = n mod 2 ^ k"
  using take_bit_eq_mask [of k n] by (simp add: take_bit_eq_mod mask_eq_exp_minus_1)

lemmas and_mask_mods = and_mask_mod and_mask_mod [unfolded One_nat_def]

lemma window_mod:
  assumes "reorder_ok (reorder_of s p tid)"
  shows "n AND mask_of s p tid = n mod length (slots s p tid)" "0 < length (slots s p tid)"
    "\<exists>k. length (slots s p tid) = 2 ^ k \<and> mask_of s p tid = 2 ^ k - 1"
  using assms by (auto simp: reorder_ok_def mask_of_def slots_def and_mask_mods)

text \<open>The indices of \<open>d\<close> slots from \<open>i\<close> on, in a ring of \<open>n\<close>.\<close>

definition ring :: "nat \<Rightarrow> nat \<Rightarrow> nat \<Rightarrow> nat list" where
  "ring n i d = map (\<lambda>j. (i + j) mod n) [0..<d]"

lemma ring_0 [simp]: "ring n i 0 = []"
  by (simp add: ring_def)

lemma ring_Suc: "ring n i (Suc d) = (i mod n) # ring n ((i + 1) mod n) d"
proof -
  have "map (\<lambda>j. (i + j) mod n) [Suc 0..<Suc d] = map (\<lambda>j. (i + Suc j) mod n) [0..<d]"
    by (simp add: map_Suc_upt [symmetric] comp_def del: upt_Suc)
  then show ?thesis by (simp add: ring_def upt_conv_Cons mod_add_left_eq del: upt_Suc)
qed

lemma ring_lt: "0 < n \<Longrightarrow> x \<in> set (ring n i d) \<Longrightarrow> x < n"
  by (auto simp: ring_def)

lemma ring_next_notin:
  assumes "i < n" "d < n"
  shows "i \<notin> set (ring n ((i + 1) mod n) d)"
proof
  assume "i \<in> set (ring n ((i + 1) mod n) d)"
  then obtain j where "j < d" "i = (i + 1 + j) mod n" by (auto simp: ring_def mod_add_left_eq)
  then show False using assms mod_add_self2
    by (cases "i + 1 + j < n") (auto simp: le_mod_geq)
qed

lemma ring_distinct: "i < n \<Longrightarrow> d \<le> n \<Longrightarrow> distinct (ring n i d)"
proof (induction d arbitrary: i)
  case (Suc d)
  then show ?case using ring_next_notin [of i n d] by (simp add: ring_Suc)
qed simp

lemma ring_all:
  assumes "i < n"
  shows "set (ring n i n) = {..<n}"
proof (rule card_subset_eq)
  show "set (ring n i n) \<subseteq> {..<n}" using ring_lt assms by auto
  have "length (ring n i n) = n" by (simp add: ring_def)
  then show "card (set (ring n i n)) = card {..<n}" using distinct_card [OF ring_distinct [OF assms]] by simp
qed simp

section \<open>Emptying slots\<close>

definition clear_slots :: "nat list \<Rightarrow> rx_elem list \<Rightarrow> rx_elem list" where
  "clear_slots = fold (\<lambda>i a. a[i := null_elem])"

definition clear_full_slots :: "nat list \<Rightarrow> rx_elem list \<Rightarrow> rx_elem list" where
  "clear_full_slots = fold (\<lambda>i a. if elem_chain (a ! i) \<noteq> [] then a[i := null_elem] else a)"

lemma clear_length [simp]:
  "length (clear_slots is a) = length a" "length (clear_full_slots is a) = length a"
  by (induction "is" arbitrary: a) (simp_all add: clear_slots_def clear_full_slots_def)

lemma upto_tail_Nil [simp]: "elem_chain e = [] \<Longrightarrow> upto_tail e = []"
  by (simp add: upto_tail_def)

lemma concat_update_other: "i \<notin> set is \<Longrightarrow> concat (map (\<lambda>j. f (a[i := x] ! j)) is) = concat (map (\<lambda>j. f (a ! j)) is)"
  by (induction "is") auto

text \<open>The number of steps from \<open>i\<close> to \<open>e\<close>.\<close>

definition steps_to :: "nat \<Rightarrow> nat \<Rightarrow> nat \<Rightarrow> nat" where
  "steps_to n i e = (if i \<le> e then e - i else n + e - i)"

lemma steps_to_Suc:
  assumes "i < n" "e < n" "i \<noteq> e"
  shows "steps_to n i e = Suc (steps_to n ((i + 1) mod n) e)" "steps_to n i e < n"
  using assms by (auto simp: steps_to_def mod_Suc)

lemma release_loop_spec:
  assumes "idx < 2 ^ k" "idx_end < 2 ^ k"
  shows "release_loop (2 ^ k - 1) idx idx_end out arr =
    (let is = ring (2 ^ k) idx (steps_to (2 ^ k) idx idx_end)
     in Some (if out = [] then [] else out @ concat (map (\<lambda>i. upto_tail (arr ! i)) is), clear_slots is arr))"
  using assms
proof (induction "steps_to (2 ^ k) idx idx_end" arbitrary: idx out arr)
  case 0
  then have "idx = idx_end" by (auto simp: steps_to_def split: if_splits)
  then show ?case by (subst release_loop.simps) (simp add: steps_to_def clear_slots_def)
next
  case (Suc d)
  then have ne: "idx \<noteq> idx_end" by (auto simp: steps_to_def)
  let ?n = "2 ^ k :: nat" and ?i = "(idx + 1) mod 2 ^ k"
  let ?out = "if elem_chain (arr ! idx) \<noteq> [] \<and> out \<noteq> [] then out @ upto_tail (arr ! idx) else out"
  have d: "d = steps_to ?n ?i idx_end" "Suc d < ?n"
    using steps_to_Suc [OF Suc.prems ne] Suc.hyps(2) by simp_all
  have "release_loop (?n - 1) idx idx_end out arr = release_loop (?n - 1) ?i idx_end ?out (arr[idx := null_elem])"
    using ne by (subst release_loop.simps) (simp only: and_mask_mods if_False)
  also have "\<dots> = (let is = ring ?n ?i d
     in Some (if ?out = [] then [] else ?out @ concat (map (\<lambda>i. upto_tail (arr[idx := null_elem] ! i)) is),
       clear_slots is (arr[idx := null_elem])))"
    unfolding d(1) using Suc.prems by (intro Suc.hyps(1)) (simp_all add: d(1))
  finally show ?case
    using ring_next_notin [of idx ?n d] Suc.prems d(2) Suc.hyps(2) [symmetric]
    by (auto simp: Let_def ring_Suc concat_update_other clear_slots_def)
qed

text \<open>The number of iterations of a \<^verbatim>\<open>do\<close> loop: the whole ring if start and end agree.\<close>

definition turn :: "nat \<Rightarrow> nat \<Rightarrow> nat \<Rightarrow> nat" where
  "turn n i e = Suc (steps_to n ((i + 1) mod n) e)"

lemma turn_le: "i < n \<Longrightarrow> e < n \<Longrightarrow> turn n i e \<le> n"
  using mod_less_divisor [of n "i + 1"] by (auto simp: turn_def steps_to_def mod_Suc)

lemma turn_whole: "i < n \<Longrightarrow> turn n i i = n"
  by (auto simp: turn_def steps_to_def mod_Suc)

lemma turn_Suc:
  "i < n \<Longrightarrow> e < n \<Longrightarrow> (i + 1) mod n \<noteq> e \<Longrightarrow> turn n i e = Suc (turn n ((i + 1) mod n) e)"
  using steps_to_Suc(1) [of "(i + 1) mod n" n e] by (simp add: turn_def)

lemma flush_loop_spec:
  assumes "i < 2 ^ k" "e < 2 ^ k"
  shows "flush_loop (2 ^ k - 1) i e out arr =
    (let is = ring (2 ^ k) i (turn (2 ^ k) i e)
     in Some (out @ concat (map (\<lambda>i. upto_tail (arr ! i)) is), clear_full_slots is arr))"
  using assms
proof (induction "turn (2 ^ k) i e" arbitrary: i out arr)
  case (Suc d)
  let ?n = "2 ^ k :: nat"
  let ?out = "out @ upto_tail (arr ! i)" and ?arr = "if elem_chain (arr ! i) \<noteq> [] then arr[i := null_elem] else arr"
  have step: "flush_loop (?n - 1) i e out arr =
      (if (i + 1) mod ?n \<noteq> e then flush_loop (?n - 1) ((i + 1) mod ?n) e ?out ?arr else Some (?out, ?arr))"
    by (subst flush_loop.simps) (simp add: and_mask_mods Let_def)
  show ?case
  proof (cases "(i + 1) mod ?n = e")
    case True
    then have "turn ?n i e = 1" by (simp add: turn_def steps_to_def)
    then show ?thesis using step True Suc.prems by (simp add: ring_Suc clear_full_slots_def)
  next
    case False
    have d: "d = turn ?n ((i + 1) mod ?n) e" using turn_Suc [OF Suc.prems False] Suc.hyps(2) by simp
    have "Suc d \<le> ?n" using turn_le [OF Suc.prems] Suc.hyps(2) by simp
    then have notin: "i \<notin> set (ring ?n ((i + 1) mod ?n) d)"
      using ring_next_notin [of i ?n d] Suc.prems by simp
    have "flush_loop (?n - 1) ((i + 1) mod ?n) e ?out ?arr =
      (let is = ring ?n ((i + 1) mod ?n) d
       in Some (?out @ concat (map (\<lambda>i. upto_tail (?arr ! i)) is), clear_full_slots is ?arr))"
      unfolding d using Suc.prems by (intro Suc.hyps(1)) (simp_all add: d)
    then show ?thesis
      using step False Suc.prems notin Suc.hyps(2) [symmetric]
      by (simp add: Let_def ring_Suc concat_update_other clear_full_slots_def)
  qed
qed (simp add: turn_def)

end
