(* ===== verification/Rx_Frames.thy ===== *)
theory Rx_Frames
  imports Rx_Inv
begin

text \<open>
  Where the frames are: held in the reorder arrays, or handed on through the log.  How the
  multiset of frames changes with the state.
\<close>

section \<open>Reading and writing the state\<close>

lemma reorder_of_set_slots [simp]:
  "reorder_of (set_slots p tid a s) q t = (if q = p \<and> t = tid then set_array a (reorder_of s p tid) else reorder_of s q t)"
  by (simp add: reorder_of_def set_slots_def upd_reorder_def upd_peer_def)

lemma set_array_simps [simp]:
  "win_sz_mask (set_array a r) = win_sz_mask r"
  "length a = length (array_of r) \<Longrightarrow> array_of (set_array a r) = a"
  by (auto simp: set_array_def array_of_def length_Suc_conv split: option.splits)

lemma slots_set_slots [simp]:
  "length a = length (slots s p tid) \<Longrightarrow> slots (set_slots p tid a s) p tid = a"
  "(q, t) \<noteq> (p, tid) \<Longrightarrow> slots (set_slots p tid a s) q t = slots s q t"
  by (auto simp: slots_def)

lemma reorder_of_upd_peer [simp]:
  "(\<And>x. tids_rx_reorder (f x) = tids_rx_reorder x) \<Longrightarrow> reorder_of (upd_peer p f s) = reorder_of s"
  by (simp add: fun_eq_iff reorder_of_def upd_peer_def)

lemma reorder_of_emit [simp]: "reorder_of (emit ev s) = reorder_of s"
  by (simp add: fun_eq_iff reorder_of_def emit_def)

lemma reorder_of_set_last_seq [simp]: "reorder_of (set_last_seq p tid out s) = reorder_of s"
  by (simp add: set_last_seq_def)

lemma reorder_of_waitlist_remove [simp]: "reorder_of (ol_rx_defrag_waitlist_remove p tid s) = reorder_of s"
  by (simp add: fun_eq_iff reorder_of_def ol_rx_defrag_waitlist_remove_def)

lemma rx_log_simps [simp]:
  "rx_log (upd_peer p f s) = rx_log s" "rx_log (set_slots p tid a s) = rx_log s"
  "rx_log (emit ev s) = rx_log s @ [ev]" "rx_log (set_last_seq p tid out s) = rx_log s"
  "rx_log (ol_rx_defrag_waitlist_remove p tid s) = rx_log s"
  by (simp_all add: upd_peer_def set_slots_def upd_reorder_def emit_def set_last_seq_def ol_rx_defrag_waitlist_remove_def)

section \<open>Counting frames\<close>

fun ev_frames :: "rx_event \<Rightarrow> rx_frame list" where
  "ev_frames (Deliver p tid fs) = fs"
| "ev_frames (Forward p tid fs) = fs"
| "ev_frames (Freed fs) = fs"
| "ev_frames (Defrag p tid fs) = fs"
| "ev_frames (PnError p tid f) = []"

definition logged :: "rx_state \<Rightarrow> rx_frame multiset" where
  "logged s = mset (concat (map ev_frames (rx_log s)))"

definition chains :: "rx_elem list \<Rightarrow> rx_frame multiset" where
  "chains a = mset (concat (map elem_chain a))"

text \<open>All frames of the peers and TIDs in \<open>D\<close>, and those handed on.\<close>

definition all_frames :: "(nat \<times> nat) set \<Rightarrow> rx_state \<Rightarrow> rx_frame multiset" where
  "all_frames D s = logged s + (\<Sum>x \<in> D. chains (slots s (fst x) (snd x)))"

lemma logged_emit [simp]: "logged (emit ev s) = logged s + mset (ev_frames ev)"
  by (simp add: logged_def)

lemma logged_frame [simp]:
  "logged (upd_peer p f s) = logged s" "logged (set_slots p tid a s) = logged s"
  "logged (set_last_seq p tid out s) = logged s" "logged (ol_rx_defrag_waitlist_remove p tid s) = logged s"
  by (simp_all add: logged_def)

lemma all_frames_cong: "logged s' = logged s + m \<Longrightarrow> reorder_of s' = reorder_of s \<Longrightarrow> all_frames D s' = all_frames D s + m"
  by (simp add: all_frames_def slots_def)

lemma all_frames_set_slots:
  assumes "finite D" "(p, tid) \<in> D" "length a = length (slots s p tid)"
  shows "all_frames D (set_slots p tid a s) + chains (slots s p tid) = all_frames D s + chains a"
proof -
  have "(\<Sum>x \<in> D. chains (slots (set_slots p tid a s) (fst x) (snd x))) =
      chains a + (\<Sum>x \<in> D - {(p, tid)}. chains (slots s (fst x) (snd x)))"
    using assms by (subst sum.remove [OF assms(1,2)]) (auto intro!: sum.cong)
  moreover have "(\<Sum>x \<in> D. chains (slots s (fst x) (snd x))) =
      chains (slots s p tid) + (\<Sum>x \<in> D - {(p, tid)}. chains (slots s (fst x) (snd x)))"
    by (subst sum.remove [OF assms(1,2)]) simp
  ultimately show ?thesis by (simp add: all_frames_def)
qed

lemma chains_update: "i < length a \<Longrightarrow> chains (a[i := e]) + mset (elem_chain (a ! i)) = chains a + mset (elem_chain e)"
proof (induction a arbitrary: i)
  case (Cons x a)
  then show ?case by (cases i) (auto simp: chains_def)
qed simp

lemma null_chain [simp]: "elem_chain null_elem = []"
  by (simp add: null_elem_def)

lemma chains_clear_both:
  assumes "distinct is" "set is \<subseteq> {..<length a}"
  shows "mset (concat (map (\<lambda>i. elem_chain (a ! i)) is)) + chains (clear_slots is a) = chains a \<and>
    mset (concat (map (\<lambda>i. elem_chain (a ! i)) is)) + chains (clear_full_slots is a) = chains a"
  using assms
proof (induction "is" arbitrary: a)
  case Nil
  then show ?case by (simp add: clear_slots_def clear_full_slots_def)
next
  case (Cons i "is")
  have i: "i < length a" "i \<notin> set is" "distinct is" "set is \<subseteq> {..<length (a[i := null_elem])}" using Cons.prems by auto
  let ?rest = "mset (concat (map (\<lambda>i. elem_chain (a ! i)) is))"
  have upd: "chains (a[i := null_elem]) + mset (elem_chain (a ! i)) = chains a"
    using chains_update [OF i(1), of null_elem] by simp
  have IH: "?rest + chains (clear_slots is (a[i := null_elem])) = chains (a[i := null_elem])"
    "?rest + chains (clear_full_slots is (a[i := null_elem])) = chains (a[i := null_elem])"
    using Cons.IH [OF i(3,4)] concat_update_other [OF i(2), of elem_chain a null_elem] by simp_all
  have IH': "?rest + chains (clear_full_slots is a) = chains a" using Cons.IH [of a] i by simp
  have "clear_slots (i # is) a = clear_slots is (a[i := null_elem])" by (simp add: clear_slots_def)
  moreover have "clear_full_slots (i # is) a =
      (if elem_chain (a ! i) \<noteq> [] then clear_full_slots is (a[i := null_elem]) else clear_full_slots is a)"
    by (simp add: clear_full_slots_def)
  ultimately show ?case using IH IH' upd by (auto simp: ac_simps)
qed

lemmas chains_clear = chains_clear_both [THEN conjunct1] chains_clear_both [THEN conjunct2]

section \<open>Well-formed slots\<close>

definition elem_ok :: "rx_elem \<Rightarrow> bool" where
  "elem_ok e \<longleftrightarrow> upto_tail e = elem_chain e"

definition rx_wf :: "rx_state \<Rightarrow> bool" where
  "rx_wf s \<longleftrightarrow> (\<forall>p tid. reorder_ok (reorder_of s p tid) \<and> list_all elem_ok (slots s p tid))"

lemma elem_ok_null [simp]: "elem_ok null_elem"
  by (simp add: elem_ok_def)

lemma list_all_update: "list_all P a \<Longrightarrow> P e \<Longrightarrow> list_all P (a[i := e])"
  using set_update_subset_insert [of a i e] by (auto simp: list_all_iff)

lemma clear_elem_ok: "list_all elem_ok a \<Longrightarrow> list_all elem_ok (clear_slots is a) \<and> list_all elem_ok (clear_full_slots is a)"
  by (induction "is" arbitrary: a) (auto simp: clear_slots_def clear_full_slots_def list_all_update)

lemma wf_set_slots:
  assumes "rx_wf s" "length a = length (slots s p tid)" "list_all elem_ok a"
  shows "rx_wf (set_slots p tid a s)"
  using assms by (auto simp: rx_wf_def slots_def reorder_ok_def)

lemma wf_cong: "reorder_of s' = reorder_of s \<Longrightarrow> rx_wf s' = rx_wf s"
  by (simp add: rx_wf_def slots_def)

lemma wf_D: "rx_wf s \<Longrightarrow> reorder_ok (reorder_of s p tid)" "rx_wf s \<Longrightarrow> list_all elem_ok (slots s p tid)"
  by (simp_all add: rx_wf_def)

lemma upto_tails: "list_all elem_ok a \<Longrightarrow> set is \<subseteq> {..<length a} \<Longrightarrow>
    concat (map (\<lambda>i. upto_tail (a ! i)) is) = concat (map (\<lambda>i. elem_chain (a ! i)) is)"
  by (induction "is") (auto simp: list_all_length elem_ok_def)

end
