(* ===== verification/Rx_Steps.thy ===== *)
theory Rx_Steps
  imports Rx_Frames
begin

text \<open>
  What the operations on the reorder array compute, the contract \<open>conserving\<close> that accounts
  for every frame they take, hand on or drop, and the step relation built from them.
\<close>

section \<open>Handing frames on\<close>

lemma mpdu_list_append: "fst (ol_rx_mpdu_list_next fs) @ snd (ol_rx_mpdu_list_next fs) = fs"
  by (simp add: ol_rx_mpdu_list_next_def Let_def)

lemma pn_step_frames:
  assumes "pn_step p tid u cmp strict mpdu s = (good, s1)"
  shows "reorder_of s1 = reorder_of s \<and> waitlist s1 = waitlist s \<and>
    logged s1 = logged s + (if good then {#} else mset mpdu)"
  using assms
  by (auto simp: pn_step_def Let_def upd_peer_def emit_def logged_def reorder_of_def fun_eq_iff split: if_splits)

lemma pn_loop_frames:
  "pn_loop p tid u cmp strict fs s = (out, s') \<Longrightarrow>
     reorder_of s' = reorder_of s \<and> waitlist s' = waitlist s \<and> logged s' + mset out = logged s + mset fs"
proof (induction p tid u cmp strict fs s arbitrary: out s' rule: pn_loop.induct)
  case (2 p tid u cmp strict f fs s)
  let ?mpdu = "fst (ol_rx_mpdu_list_next (f # fs))" and ?rest = "snd (ol_rx_mpdu_list_next (f # fs))"
  obtain good s1 where step: "pn_step p tid u cmp strict ?mpdu s = (good, s1)" by fastforce
  obtain out1 s2 where loop: "pn_loop p tid u cmp strict ?rest s1 = (out1, s2)" by fastforce
  have res: "out = (if good then ?mpdu @ out1 else out1)" "s' = s2"
    using "2.prems" by (auto simp: Let_def step loop split: if_splits)
  have "mset (f # fs) = mset ?mpdu + mset ?rest" using mpdu_list_append [of "f # fs"] by (metis mset_append)
  moreover have "reorder_of s2 = reorder_of s1 \<and> waitlist s2 = waitlist s1 \<and> logged s2 + mset out1 = logged s1 + mset ?rest"
    by (rule "2.IH" [OF refl step [symmetric] refl loop])
  ultimately show ?case using pn_step_frames [OF step] res by (auto simp: ac_simps)
qed simp

lemma pn_check_base_frames:
  assumes "ol_rx_pn_check_base p tid fs strict s = (out, s')"
  shows "reorder_of s' = reorder_of s \<and> waitlist s' = waitlist s \<and> logged s' + mset out = logged s + mset fs"
  using assms
  by (auto simp: ol_rx_pn_check_base_def Let_def split: if_splits option.splits dest!: pn_loop_frames)

lemma call_rx_opt_proc_frames:
  "reorder_of (call_rx_opt_proc p tid fs s) = reorder_of s \<and> waitlist (call_rx_opt_proc p tid fs s) = waitlist s \<and>
    logged (call_rx_opt_proc p tid fs s) = logged s + mset fs"
proof -
  obtain out s' where c: "ol_rx_pn_check_base p tid fs False s = (out, s')" by fastforce
  have "waitlist (emit ev t) = waitlist t" for ev t by (simp add: emit_def)
  then show ?thesis
    using pn_check_base_frames [OF c]
    by (simp add: call_rx_opt_proc_def ol_rx_pn_check_def ol_rx_pn_check_only_def c split: rx_opt.split)
qed

section \<open>The operations\<close>

text \<open>The slots from \<open>a\<close> to before \<open>b\<close>; a flush with equal ends means the whole ring.\<close>

definition release_window :: "nat \<Rightarrow> nat \<Rightarrow> nat \<Rightarrow> nat list" where
  "release_window n a b = (a mod n) # ring n ((a mod n + 1) mod n) (steps_to n ((a mod n + 1) mod n) (b mod n))"

definition flush_window :: "nat \<Rightarrow> nat \<Rightarrow> nat \<Rightarrow> nat list" where
  "flush_window n a b = ring n (a mod n) (turn n (a mod n) (b mod n))"

lemma windows_eq: "0 < n \<Longrightarrow> flush_window n a b = release_window n a b"
  by (simp add: flush_window_def release_window_def turn_def ring_Suc)

lemma window_distinct: "0 < n \<Longrightarrow> distinct (release_window n a b) \<and> set (release_window n a b) \<subseteq> {..<n}"
  using ring_distinct [OF mod_less_divisor turn_le [OF mod_less_divisor mod_less_divisor], of n a a b] ring_lt [of n]
  unfolding windows_eq [symmetric] flush_window_def by auto

lemma next_rel_frame [simp]:
  "slots (upd_peer p (\<lambda>x. x\<lparr>tids_next_rel_idx := g x\<rparr>) s) = slots s"
  by (simp add: fun_eq_iff slots_def)

lemma release_spec:
  assumes "rx_wf s"
  shows "ol_rx_reorder_release p tid a b s =
    (let arr = slots s p tid; is = release_window (length arr) a b;
         out = concat (map (\<lambda>i. elem_chain (arr ! i)) is);
         s2 = set_slots p tid (clear_slots is arr)
                (upd_peer p (\<lambda>x. x\<lparr>tids_next_rel_idx := (tids_next_rel_idx x)(tid := of_nat b)\<rparr>) s)
     in Some (if elem_chain (arr ! (a mod length arr)) = [] then s2
              else call_rx_opt_proc p tid out (set_last_seq p tid out s2)))"
proof -
  let ?arr = "slots s p tid" and ?n = "length (slots s p tid)"
  note ok = wf_D [OF assms, of p tid]
  obtain k where k: "?n = 2 ^ k" "mask_of s p tid = 2 ^ k - 1" using window_mod(3) [OF ok(1)] by blast
  have n: "0 < ?n" and msk: "m AND mask_of s p tid = m mod ?n" for m using window_mod [OF ok(1)] by auto
  let ?i = "a mod ?n"
  let ?j = "(?i + 1) mod ?n"
  let ?rest = "ring ?n ?j (steps_to ?n ?j (b mod ?n))"
  have win: "release_window ?n a b = ?i # ?rest" by (simp add: release_window_def)
  have notin: "?i \<notin> set ?rest" and dist: "distinct (?i # ?rest)" and sub: "set (?i # ?rest) \<subseteq> {..<?n}"
    using window_distinct [OF n, of a b] unfolding win by auto
  have head: "(if elem_chain (?arr ! ?i) = [] then [] else upto_tail (?arr ! ?i)) = elem_chain (?arr ! ?i)"
    using ok(2) n by (auto simp: list_all_length elem_ok_def)
  have loop: "release_loop (mask_of s p tid) ?j (b mod ?n) (elem_chain (?arr ! ?i)) (?arr[?i := null_elem]) =
      Some (if elem_chain (?arr ! ?i) = [] then []
        else concat (map (\<lambda>i. elem_chain (?arr ! i)) (?i # ?rest)), clear_slots (?i # ?rest) ?arr)"
  proof -
    have "concat (map (\<lambda>i. upto_tail (?arr[?i := null_elem] ! i)) ?rest) = concat (map (\<lambda>i. elem_chain (?arr ! i)) ?rest)"
      using concat_update_other [OF notin, of upto_tail] upto_tails [OF ok(2)] sub by auto
    moreover have "clear_slots ?rest (?arr[?i := null_elem]) = clear_slots (?i # ?rest) ?arr"
      by (simp add: clear_slots_def)
    ultimately show ?thesis
      using release_loop_spec [of ?j k "b mod ?n"] k n by (simp add: Let_def)
  qed
  show ?thesis
    unfolding ol_rx_reorder_release_def Let_def msk next_rel_frame head loop win by (auto split: if_splits)
qed

lemma flush_spec:
  assumes "rx_wf s"
  shows "ol_rx_reorder_flush p tid a b action s =
    (let arr = slots s p tid; is = flush_window (length arr) a (if b = 0xffff then a else b);
         out = concat (map (\<lambda>i. elem_chain (arr ! i)) is);
         s1 = upd_peer p (\<lambda>x. x\<lparr>tids_next_rel_idx := (tids_next_rel_idx x)(tid := if b = 0xffff then 0 else of_nat b)\<rparr>) s;
         s2 = ol_rx_defrag_waitlist_remove p tid (set_slots p tid (clear_full_slots is arr) s1)
     in Some (if out = [] then s2
              else if action = htt_rx_flush_release then call_rx_opt_proc p tid out (set_last_seq p tid out s2)
              else emit (Freed out) (set_last_seq p tid out s2)))"
proof -
  let ?arr = "slots s p tid" and ?n = "length (slots s p tid)" and ?b = "if b = 0xffff then a else b"
  note ok = wf_D [OF assms, of p tid]
  obtain k where k: "?n = 2 ^ k" "mask_of s p tid = 2 ^ k - 1" using window_mod(3) [OF ok(1)] by blast
  have n: "0 < ?n" and msk: "m AND mask_of s p tid = m mod ?n" for m using window_mod [OF ok(1)] by auto
  have sub: "set (flush_window ?n a ?b) \<subseteq> {..<?n}" using window_distinct [OF n] windows_eq [OF n] by auto
  have "flush_loop (mask_of s p tid) (a mod ?n) (?b mod ?n) [] ?arr =
      Some (concat (map (\<lambda>i. elem_chain (?arr ! i)) (flush_window ?n a ?b)), clear_full_slots (flush_window ?n a ?b) ?arr)"
    using flush_loop_spec [of "a mod ?n" k "?b mod ?n" "[]" ?arr] k n upto_tails [OF ok(2) sub]
    by (simp add: flush_window_def Let_def)
  then show ?thesis
    unfolding ol_rx_reorder_flush_def Let_def msk next_rel_frame by simp
qed

lemma pn_ind_loop_spec:
  assumes "i < 2 ^ k" "e < 2 ^ k" "list_all elem_ok arr" "length arr = 2 ^ k"
  shows "\<exists>out' evs'. pn_ind_loop p tid (2 ^ k - 1) i e bad out arr evs =
      Some (out', clear_full_slots (ring (2 ^ k) i (turn (2 ^ k) i e)) arr, evs') \<and>
    mset out' + mset (concat (map ev_frames evs')) = mset out + mset (concat (map ev_frames evs)) +
      mset (concat (map (\<lambda>i. elem_chain (arr ! i)) (ring (2 ^ k) i (turn (2 ^ k) i e))))"
  using assms
proof (induction "turn (2 ^ k) i e" arbitrary: i bad out arr evs)
  case (Suc d)
  let ?n = "2 ^ k :: nat" and ?e = "arr ! i"
  let ?failed = "elem_chain ?e \<noteq> [] \<and> bad \<noteq> [] \<and> i = hd bad"
  let ?bad = "if ?failed then tl bad else bad"
  let ?out = "if elem_chain ?e \<noteq> [] \<and> \<not> ?failed then out @ upto_tail ?e else out"
  let ?evs = "if ?failed then evs @ [PnError p tid (hd (elem_chain ?e)), Freed (upto_tail ?e)] else evs"
  let ?arr = "if elem_chain ?e \<noteq> [] then arr[i := null_elem] else arr"
  have step: "pn_ind_loop p tid (?n - 1) i e bad out arr evs =
      (if (i + 1) mod ?n \<noteq> e then pn_ind_loop p tid (?n - 1) ((i + 1) mod ?n) e ?bad ?out ?arr ?evs
       else Some (?out, ?arr, ?evs))"
    by (subst pn_ind_loop.simps) (simp only: and_mask_mods Let_def)
  have eq: "upto_tail ?e = elem_chain ?e" using Suc.prems by (auto simp: list_all_length elem_ok_def)
  have one: "mset ?out + mset (concat (map ev_frames ?evs)) =
      mset out + mset (concat (map ev_frames evs)) + mset (elem_chain ?e)"
    unfolding eq by auto
  show ?case
  proof (cases "(i + 1) mod ?n = e")
    case True
    then have "turn ?n i e = 1" by (simp add: turn_def steps_to_def)
    then show ?thesis using step True Suc.prems one by (auto simp: ring_Suc clear_full_slots_def)
  next
    case False
    have d: "d = turn ?n ((i + 1) mod ?n) e" using turn_Suc [OF Suc.prems(1,2) False] Suc.hyps(2) by simp
    have "Suc d \<le> ?n" using turn_le [OF Suc.prems(1,2)] Suc.hyps(2) by simp
    then have notin: "i \<notin> set (ring ?n ((i + 1) mod ?n) d)"
      using ring_next_notin [of i ?n d] Suc.prems by simp
    have win: "ring ?n i (turn ?n i e) = i # ring ?n ((i + 1) mod ?n) d"
      using Suc.hyps(2) [symmetric] Suc.prems by (simp add: ring_Suc)
    have "\<exists>out' evs'. pn_ind_loop p tid (?n - 1) ((i + 1) mod ?n) e ?bad ?out ?arr ?evs =
        Some (out', clear_full_slots (ring ?n ((i + 1) mod ?n) d) ?arr, evs') \<and>
      mset out' + mset (concat (map ev_frames evs')) = mset ?out + mset (concat (map ev_frames ?evs)) +
        mset (concat (map (\<lambda>i. elem_chain (?arr ! i)) (ring ?n ((i + 1) mod ?n) d)))"
      unfolding d using Suc.prems by (intro Suc.hyps(1)) (auto simp: d list_all_update)
    moreover have "concat (map (\<lambda>j. elem_chain (?arr ! j)) (ring ?n ((i + 1) mod ?n) d)) =
        concat (map (\<lambda>j. elem_chain (arr ! j)) (ring ?n ((i + 1) mod ?n) d))"
      using concat_update_other [OF notin, of elem_chain arr null_elem] by simp
    moreover have "clear_full_slots (ring ?n ((i + 1) mod ?n) d) ?arr = clear_full_slots (i # ring ?n ((i + 1) mod ?n) d) arr"
      by (simp add: clear_full_slots_def)
    ultimately show ?thesis unfolding step win using False one by auto
  qed
qed (simp add: turn_def)

lemma fold_emit: "reorder_of (fold emit evs s) = reorder_of s \<and> logged (fold emit evs s) = logged s + mset (concat (map ev_frames evs))"
  by (induction evs arbitrary: s) auto

section \<open>The contract\<close>

text \<open>
  An operation that returns in every well-formed state that satisfies its precondition, keeps
  the state well-formed, and puts the frames it takes into the arrays or the log, each once,
  except for those that it drops.
\<close>

locale conserving =
  fixes act :: "'a \<Rightarrow> rx_state \<Rightarrow> rx_state option" and pre :: "'a \<Rightarrow> rx_state \<Rightarrow> bool"
    and target :: "'a \<Rightarrow> (nat \<times> nat) set" and taken :: "'a \<Rightarrow> rx_frame list"
    and dropped :: "'a \<Rightarrow> rx_state \<Rightarrow> rx_frame multiset"
  assumes contract: "rx_wf s \<Longrightarrow> pre x s \<Longrightarrow>
    \<exists>s'. act x s = Some s' \<and> rx_wf s' \<and>
      (\<forall>D. finite D \<and> target x \<subseteq> D \<longrightarrow> all_frames D s' + dropped x s = all_frames D s + mset (taken x))"
begin

lemma outcome:
  assumes "rx_wf s" "pre x s" "act x s = Some s'"
  shows "rx_wf s'" "finite D \<Longrightarrow> target x \<subseteq> D \<Longrightarrow> all_frames D s' + dropped x s = all_frames D s + mset (taken x)"
  using contract [OF assms(1,2)] assms(3) by auto

end

lemma all_frames_move:
  assumes "finite D" "(p, tid) \<in> D" "length a = length (slots s p tid)"
    and "chains (slots s p tid) = m + chains a" "reorder_of s' = reorder_of (set_slots p tid a s)" "logged s' = logged s + m"
  shows "all_frames D s' = all_frames D s"
proof -
  have "all_frames D (set_slots p tid a s) + (m + chains a) = all_frames D s + chains a"
    using all_frames_set_slots [OF assms(1-3)] assms(4) by simp
  then have "all_frames D (set_slots p tid a s) + m = all_frames D s" by (simp add: add.assoc [symmetric])
  moreover have "all_frames D s' = all_frames D (set_slots p tid a s) + m" by (rule all_frames_cong) (use assms in simp_all)
  ultimately show ?thesis by simp
qed

text \<open>Taking the frames of some slots out of the array and handing them on.\<close>

lemma taken_out:
  assumes wf: "rx_wf s" and "distinct is" "set is \<subseteq> {..<length (slots s p tid)}"
    and a: "a = clear_slots is (slots s p tid) \<or> a = clear_full_slots is (slots s p tid)"
    and "reorder_of s' = reorder_of (set_slots p tid a s)"
    and "logged s' = logged s + mset (concat (map (\<lambda>i. elem_chain (slots s p tid ! i)) is))"
  shows "rx_wf s' \<and> (\<forall>D. finite D \<and> {(p, tid)} \<subseteq> D \<longrightarrow> all_frames D s' = all_frames D s)"
proof -
  have len: "length a = length (slots s p tid)" using a by auto
  have "list_all elem_ok a" using a clear_elem_ok [OF wf_D(2) [OF wf]] by auto
  then have "rx_wf s'" using wf_cong [OF assms(5)] wf_set_slots [OF wf len] by simp
  moreover have "all_frames D s' = all_frames D s" if "finite D" "(p, tid) \<in> D" for D
    using chains_clear [OF assms(2,3)] a by (intro all_frames_move [OF that len _ assms(5,6)]) auto
  ultimately show ?thesis by simp
qed

section \<open>The operations keep the contract\<close>

lemma flush_contract:
  assumes wf: "rx_wf s"
  shows "\<exists>s'. ol_rx_reorder_flush p tid a b action s = Some s' \<and> rx_wf s' \<and>
    (\<forall>D. finite D \<and> {(p, tid)} \<subseteq> D \<longrightarrow> all_frames D s' = all_frames D s)"
proof -
  let ?n = "length (slots s p tid)" and ?b = "if b = 0xffff then a else b"
  have n: "0 < ?n" using window_mod(2) [OF wf_D(1) [OF wf]] .
  have win: "distinct (flush_window ?n a ?b)" "set (flush_window ?n a ?b) \<subseteq> {..<?n}"
    using window_distinct [OF n, of a ?b] windows_eq [OF n] by auto
  obtain s' where s': "ol_rx_reorder_flush p tid a b action s = Some s'"
    "reorder_of s' = reorder_of (set_slots p tid (clear_full_slots (flush_window ?n a ?b) (slots s p tid)) s)"
    "logged s' = logged s + mset (concat (map (\<lambda>i. elem_chain (slots s p tid ! i)) (flush_window ?n a ?b)))"
    using flush_spec [OF wf, of p tid a b action]
    by (auto simp: Let_def call_rx_opt_proc_frames fun_eq_iff)
  then show ?thesis using taken_out [OF wf win disjI2 [OF refl] s'(2,3)] by blast
qed

text \<open>The frames that a release drops: those of the window, when its first slot is empty.\<close>

definition release_lost :: "nat \<Rightarrow> nat \<Rightarrow> rx_elem list \<Rightarrow> rx_frame multiset" where
  "release_lost a b arr =
     (if elem_chain (arr ! (a mod length arr)) \<noteq> [] then {#}
      else mset (concat (map (\<lambda>i. elem_chain (arr ! i)) (release_window (length arr) a b))))"

lemma release_contract:
  assumes wf: "rx_wf s"
  shows "\<exists>s'. ol_rx_reorder_release p tid a b s = Some s' \<and> rx_wf s' \<and>
    (\<forall>D. finite D \<and> {(p, tid)} \<subseteq> D \<longrightarrow> all_frames D s' + release_lost a b (slots s p tid) = all_frames D s)"
proof -
  let ?arr = "slots s p tid"
  let ?win = "release_window (length ?arr) a b" and ?first = "elem_chain (?arr ! (a mod length ?arr))"
  have n: "0 < length ?arr" using window_mod(2) [OF wf_D(1) [OF wf]] .
  have win: "distinct ?win" "set ?win \<subseteq> {..<length ?arr}" using window_distinct [OF n] by auto
  let ?out = "mset (concat (map (\<lambda>i. elem_chain (?arr ! i)) ?win))" and ?a = "clear_slots ?win ?arr"
  obtain s' where s': "ol_rx_reorder_release p tid a b s = Some s'" "reorder_of s' = reorder_of (set_slots p tid ?a s)"
    "logged s' = logged s + (if ?first = [] then {#} else ?out)"
    using release_spec [OF wf, of p tid a b] by (auto simp: Let_def call_rx_opt_proc_frames fun_eq_iff)
  have wf': "rx_wf s'"
    using wf_cong [OF s'(2)] wf_set_slots [OF wf] clear_elem_ok [OF wf_D(2) [OF wf]] by simp
  have "all_frames D s' + release_lost a b ?arr = all_frames D s" if D: "finite D" "(p, tid) \<in> D" for D
  proof -
    have "all_frames D (set_slots p tid ?a s) + chains ?arr = all_frames D s + chains ?a"
      using all_frames_set_slots [OF D, of ?a s] by simp
    then have "all_frames D (set_slots p tid ?a s) + (?out + chains ?a) = all_frames D s + chains ?a"
      using chains_clear(1) [OF win] by simp
    then have "all_frames D (set_slots p tid ?a s) + ?out = all_frames D s" by (simp add: add.assoc [symmetric])
    moreover have "all_frames D s' = all_frames D (set_slots p tid ?a s) + (if ?first = [] then {#} else ?out)"
      by (rule all_frames_cong) (use s' in simp_all)
    ultimately show ?thesis by (auto simp: release_lost_def)
  qed
  then show ?thesis using s'(1) wf' by blast
qed

lemma cleanup_contract:
  assumes "rx_wf s"
  shows "\<exists>s'. cleanup_tids p tids s = Some s' \<and> rx_wf s' \<and>
    (\<forall>D. finite D \<and> Pair p ` set tids \<subseteq> D \<longrightarrow> all_frames D s' = all_frames D s)"
  using assms
proof (induction tids arbitrary: s)
  case (Cons tid tids)
  obtain s1 where s1: "ol_rx_reorder_flush p tid 0 0 htt_rx_flush_discard s = Some s1" "rx_wf s1"
    "\<And>D. finite D \<Longrightarrow> (p, tid) \<in> D \<Longrightarrow> all_frames D s1 = all_frames D s"
    using flush_contract [OF Cons.prems, of p tid 0 0 htt_rx_flush_discard] by auto
  obtain s2 where "cleanup_tids p tids s1 = Some s2" "rx_wf s2"
    "\<And>D. finite D \<Longrightarrow> Pair p ` set tids \<subseteq> D \<Longrightarrow> all_frames D s2 = all_frames D s1"
    using Cons.IH [OF s1(2)] by blast
  then show ?case using s1 by (intro exI [of _ s2]) auto
qed simp

lemma pn_ind_contract:
  assumes wf: "rx_wf s"
  shows "\<exists>s'. ol_rx_pn_ind_handler peer tid a b pn_ie s = Some s' \<and> rx_wf s' \<and>
    (\<forall>D. finite D \<and> (case peer of None \<Rightarrow> {} | Some p \<Rightarrow> {(p, tid)}) \<subseteq> D \<longrightarrow> all_frames D s' = all_frames D s)"
proof (cases "tid \<ge> OL_TXRX_NUM_EXT_TIDS \<or> peer = None")
  case True
  then show ?thesis using wf by (auto simp: ol_rx_pn_ind_handler_def)
next
  case False
  then obtain p where p: "peer = Some p" "tid < OL_TXRX_NUM_EXT_TIDS" by auto
  let ?arr = "slots s p tid" and ?n = "length (slots s p tid)"
  note ok = wf_D [OF assms, of p tid]
  obtain k where k: "?n = 2 ^ k" "mask_of s p tid = 2 ^ k - 1" using window_mod(3) [OF ok(1)] by blast
  have n: "0 < ?n" and msk: "m AND mask_of s p tid = m mod ?n" for m using window_mod [OF ok(1)] by auto
  have win: "distinct (flush_window ?n a b)" "set (flush_window ?n a b) \<subseteq> {..<?n}"
    using window_distinct [OF n, of a b] windows_eq [OF n] by auto
  obtain out evs where loop: "pn_ind_loop p tid (mask_of s p tid) (a mod ?n) (b mod ?n) pn_ie [] ?arr [] =
      Some (out, clear_full_slots (flush_window ?n a b) ?arr, evs)"
    and frames: "mset out + mset (concat (map ev_frames evs)) = mset (concat (map (\<lambda>i. elem_chain (?arr ! i)) (flush_window ?n a b)))"
    using pn_ind_loop_spec [of "a mod ?n" k "b mod ?n" ?arr p tid pn_ie "[]" "[]"] ok(2) k n
    by (auto simp: flush_window_def)
  have sl: "slots (upd_peer p (\<lambda>x. x\<lparr>fw_pn_check := True\<rparr>) s) p tid = ?arr" by (simp add: slots_def)
  let ?a = "clear_full_slots (flush_window ?n a b) ?arr"
  define t where "t = fold emit evs (set_slots p tid ?a (upd_peer p (\<lambda>x. x\<lparr>fw_pn_check := True\<rparr>) s))"
  define s' where "s' = (if out \<noteq> [] then call_rx_opt_proc p tid out t else t)"
  have t: "reorder_of t = reorder_of (set_slots p tid ?a s)" "logged t = logged s + mset (concat (map ev_frames evs))"
    by (simp_all add: t_def fold_emit fun_eq_iff)
  have s': "ol_rx_pn_ind_handler peer tid a b pn_ie s = Some s'" "reorder_of s' = reorder_of (set_slots p tid ?a s)"
    "logged s' = logged s + mset (concat (map (\<lambda>i. elem_chain (?arr ! i)) (flush_window ?n a b)))"
    using p t frames [symmetric]
    by (simp_all add: ol_rx_pn_ind_handler_def Let_def msk sl loop s'_def t_def [symmetric] call_rx_opt_proc_frames ac_simps)
  then show ?thesis using taken_out [OF wf win disjI2 [OF refl] s'(2,3)] p by auto
qed

lemma seq_num_check_frame:
  assumes "OL_RX_SEQ_NUM_CHECK p tid desc s = (good, s1)"
  shows "reorder_of s1 = reorder_of s" "logged s1 = logged s" "waitlist s1 = waitlist s"
  using assms
  by (auto simp: OL_RX_SEQ_NUM_CHECK_def ol_rx_seq_num_check_def Let_def upd_peer_def logged_def reorder_of_def
      fun_eq_iff split: if_splits)

lemma store_contract:
  assumes wf: "rx_wf s"
  shows "rx_wf (ol_rx_reorder_store p tid idx msdus s)"
    and "finite D \<Longrightarrow> (p, tid) \<in> D \<Longrightarrow> all_frames D (ol_rx_reorder_store p tid idx msdus s) = all_frames D s + mset msdus"
proof -
  let ?arr = "slots s p tid" and ?i = "idx AND mask_of s p tid"
  note ok = wf_D [OF wf, of p tid]
  have i: "?i < length ?arr" using window_mod [OF ok(1)] by simp
  then have e: "upto_tail (?arr ! ?i) = elem_chain (?arr ! ?i)" using ok(2) by (auto simp: list_all_length elem_ok_def)
  let ?chain = "elem_chain (?arr ! ?i) @ msdus"
  let ?a = "?arr[?i := \<lparr>elem_chain = ?chain, elem_tail = length ?chain - 1\<rparr>]"
  have st: "ol_rx_reorder_store p tid idx msdus s = set_slots p tid ?a s"
    by (simp add: ol_rx_reorder_store_def Let_def e)
  have "elem_ok \<lparr>elem_chain = ?chain, elem_tail = length ?chain - 1\<rparr>" by (cases ?chain) (auto simp: elem_ok_def upto_tail_def)
  then show "rx_wf (ol_rx_reorder_store p tid idx msdus s)"
    unfolding st using wf ok(2) by (intro wf_set_slots) (auto simp: list_all_update)
  assume D: "finite D" "(p, tid) \<in> D"
  have "chains ?a + mset (elem_chain (?arr ! ?i)) = chains ?arr + mset ?chain" using chains_update [OF i] by simp
  then have "chains ?a = chains ?arr + mset msdus" by simp
  then have "all_frames D (set_slots p tid ?a s) + chains ?arr = all_frames D s + mset msdus + chains ?arr"
    using all_frames_set_slots [OF D, of ?a s] by (simp add: ac_simps)
  then show "all_frames D (ol_rx_reorder_store p tid idx msdus s) = all_frames D s + mset msdus" unfolding st by simp
qed

lemma process_reorder_contract:
  assumes wf: "rx_wf s"
  shows "rx_wf (process_reorder p tid msdus s)"
    and "finite D \<Longrightarrow> (p, tid) \<in> D \<Longrightarrow> all_frames D (process_reorder p tid msdus s) = all_frames D s + mset msdus"
proof -
  obtain good s1 where c: "OL_RX_SEQ_NUM_CHECK p tid (hd msdus) s = (good, s1)" by fastforce
  note fr = seq_num_check_frame [OF c]
  have wf1: "rx_wf s1" and t1: "all_frames D s1 = all_frames D s" for D
    using wf_cong [OF fr(1)] wf all_frames_cong [of s1 s "{#}" D] fr by auto
  let ?s2 = "ol_rx_reorder_store p tid (f_reorder_idx (hd msdus)) msdus s1"
  have "reorder_of (process_reorder p tid msdus s) = (if good then reorder_of ?s2 else reorder_of s1)"
    "logged (process_reorder p tid msdus s) = (if good then logged ?s2 else logged s1 + mset msdus)"
    by (auto simp: process_reorder_def c Let_def split: bool.split)
  note r = this
  show "rx_wf (process_reorder p tid msdus s)"
    using wf_cong [of "process_reorder p tid msdus s" "if good then ?s2 else s1"] r store_contract(1) [OF wf1] wf1
    by (auto split: if_splits)
  assume D: "finite D" "(p, tid) \<in> D"
  have "all_frames D (process_reorder p tid msdus s) = (if good then all_frames D ?s2 else all_frames D s1 + mset msdus)"
    using all_frames_cong [of "process_reorder p tid msdus s" ?s2 "{#}" D]
      all_frames_cong [of "process_reorder p tid msdus s" s1 "mset msdus" D] r by (auto split: if_splits)
  then show "all_frames D (process_reorder p tid msdus s) = all_frames D s + mset msdus"
    using store_contract(2) [OF wf1 D] t1 by simp
qed

text \<open>Setting up and tearing down a block-ack agreement drops what is in the old array.\<close>

definition empty_slots :: "rx_state \<Rightarrow> nat \<Rightarrow> nat \<Rightarrow> bool" where
  "empty_slots s p tid \<longleftrightarrow> list_all (\<lambda>e. elem_chain e = []) (slots s p tid)"

lemma empty_chains: "list_all (\<lambda>e. elem_chain e = []) a \<longleftrightarrow> chains a = {#}"
  by (induction a) (auto simp: chains_def)

lemma rounded_window:
  assumes "w < length g_log2ceil"
  shows "\<exists>k \<le> 6. g_log2ceil ! w = 2 ^ k"
proof -
  have "list_all (\<lambda>x. x \<in> set (map (\<lambda>k. 2 ^ k) [0..<7 :: nat])) g_log2ceil" by code_simp
  then have "g_log2ceil ! w \<in> set (map (\<lambda>k. 2 ^ k) [0..<7 :: nat])" using assms unfolding list_all_length by blast
  then obtain k where "k < 7" "g_log2ceil ! w = 2 ^ k" by auto
  then show ?thesis by (intro exI [of _ k]) simp
qed

definition addba_done :: "bool \<Rightarrow> nat \<Rightarrow> bool \<Rightarrow> bool" where
  "addba_done mem tid failed \<longleftrightarrow> tid < OL_TXRX_NUM_EXT_TIDS \<and> \<not> failed \<and> mem"

lemma replace_reorder:
  assumes wf: "rx_wf s" and D: "finite D" "(p, tid) \<in> D"
    and other: "\<And>q t. (q, t) \<noteq> (p, tid) \<Longrightarrow> reorder_of s' q t = reorder_of s q t" and log: "logged s' = logged s"
    and new: "reorder_ok (reorder_of s' p tid)" "list_all elem_ok (slots s' p tid)"
      "chains (slots s' p tid) + lost = chains (slots s p tid)"
  shows "rx_wf s' \<and> all_frames D s' + lost = all_frames D s"
proof
  show "rx_wf s'" unfolding rx_wf_def
  proof (intro allI)
    fix q t
    show "reorder_ok (reorder_of s' q t) \<and> list_all elem_ok (slots s' q t)"
      by (cases "(q, t) = (p, tid)") (use wf new other [of q t] in \<open>auto simp: rx_wf_def slots_def\<close>)
  qed
  have "(\<Sum>x \<in> D - {(p, tid)}. chains (slots s' (fst x) (snd x))) = (\<Sum>x \<in> D - {(p, tid)}. chains (slots s (fst x) (snd x)))"
  proof (rule sum.cong [OF refl])
    fix x assume "x \<in> D - {(p, tid)}"
    then have "(fst x, snd x) \<noteq> (p, tid)" by auto
    then show "chains (slots s' (fst x) (snd x)) = chains (slots s (fst x) (snd x))" by (simp add: slots_def other)
  qed
  then show "all_frames D s' + lost = all_frames D s"
    using new(3) log by (simp add: all_frames_def sum.remove [OF D] add.assoc)
qed

lemma null_chains [simp]: "chains (replicate n null_elem) = {#}" "chains [null_elem] = {#}"
  by (induction n) (simp_all add: chains_def)

lemma addba_contract:
  assumes "rx_wf s" "unat wsz \<le> 64" and D: "finite D" "(p, tid) \<in> D"
  shows "rx_wf (ol_rx_addba_handler mem (Some p) tid wsz failed s) \<and>
    all_frames D (ol_rx_addba_handler mem (Some p) tid wsz failed s) +
      (if addba_done mem tid failed then chains (slots s p tid) else {#}) = all_frames D s"
proof -
  let ?s' = "ol_rx_addba_handler mem (Some p) tid wsz failed s"
  have "unat wsz < length g_log2ceil" using assms(2) by (simp add: g_log2ceil_def)
  then obtain k where k: "k \<le> 6" "g_log2ceil ! unat wsz = 2 ^ k" using rounded_window by blast
  have "(2 :: nat) ^ k \<le> 2 ^ 6" using k(1) by (intro power_increasing) auto
  then have small: "(2 :: nat) ^ k - 1 < 256" by simp
  have "unat (of_nat m :: u8) = m" if "m < 256" for m using that by (simp add: unsigned_of_nat take_bit_nat_eq_self)
  note mask = this [OF small]
  let ?run = "addba_done mem tid failed"
  have at: "reorder_of ?s' p tid =
      (if ?run then (reorder_of s p tid)\<lparr>reorder_array := Some (replicate (2 ^ k) null_elem), win_sz := wsz,
           win_sz_mask := of_nat (2 ^ k - 1), num_mpdus := 0\<rparr> else reorder_of s p tid)"
    and log: "logged ?s' = logged s"
    and other: "\<And>q t. (q, t) \<noteq> (p, tid) \<Longrightarrow> reorder_of ?s' q t = reorder_of s q t"
    using \<open>unat wsz < length g_log2ceil\<close> k
    by (auto simp: ol_rx_addba_handler_def addba_done_def Let_def reorder_of_def upd_reorder_def upd_peer_def logged_def)
  have sl: "slots ?s' p tid = (if ?run then replicate (2 ^ k) null_elem else slots s p tid)"
    unfolding slots_def at by (simp add: array_of_def)
  show ?thesis
  proof (rule replace_reorder [OF assms(1) D other log])
    show "list_all elem_ok (slots ?s' p tid)"
      unfolding sl using wf_D(2) [OF assms(1)] by (auto simp: list_all_iff)
    show "chains (slots ?s' p tid) + (if ?run then chains (slots s p tid) else {#}) = chains (slots s p tid)"
      unfolding sl by simp
    show "reorder_ok (reorder_of ?s' p tid)"
      unfolding at using wf_D(1) [OF assms(1), of p tid] k(1) mask by (auto simp: reorder_ok_def array_of_def)
  qed
qed

lemma delba_contract:
  assumes "rx_wf s" and D: "finite D" "(p, tid) \<in> D"
  shows "rx_wf (ol_rx_delba_handler (Some p) tid s) \<and> all_frames D (ol_rx_delba_handler (Some p) tid s) +
      (if tid < OL_TXRX_NUM_EXT_TIDS then chains (slots s p tid) else {#}) = all_frames D s"
proof -
  let ?s' = "ol_rx_delba_handler (Some p) tid s" and ?run = "tid < OL_TXRX_NUM_EXT_TIDS"
  have at: "reorder_of ?s' p tid = (if ?run then ol_rx_reorder_init tid (reorder_of s p tid) else reorder_of s p tid)"
    and log: "logged ?s' = logged s"
    and other: "\<And>q t. (q, t) \<noteq> (p, tid) \<Longrightarrow> reorder_of ?s' q t = reorder_of s q t"
    by (auto simp: ol_rx_delba_handler_def reorder_of_def upd_reorder_def upd_peer_def logged_def)
  have sl: "slots ?s' p tid = (if ?run then [null_elem] else slots s p tid)"
    unfolding slots_def at by (simp add: array_of_def ol_rx_reorder_init_def)
  show ?thesis
  proof (rule replace_reorder [OF assms(1) D other log])
    show "list_all elem_ok (slots ?s' p tid)" unfolding sl using wf_D(2) [OF assms(1)] by auto
    show "chains (slots ?s' p tid) + (if ?run then chains (slots s p tid) else {#}) = chains (slots s p tid)"
      unfolding sl by simp
    show "reorder_ok (reorder_of ?s' p tid)"
      unfolding at using wf_D(1) [OF assms(1), of p tid] by (auto simp: reorder_ok_def array_of_def ol_rx_reorder_init_def)
  qed
qed

section \<open>Calls\<close>

datatype rx_call =
    Mpdu nat nat "rx_frame list"
  | Flush nat nat nat nat htt_rx_flush_action
  | Release nat nat nat nat
  | PnInd "nat option" nat nat nat "nat list"
  | Cleanup nat
  | Addba bool nat nat u8 bool
  | Delba nat nat

fun do_call :: "rx_call \<Rightarrow> rx_state \<Rightarrow> rx_state option" where
  "do_call (Mpdu p tid msdus) s = Some (process_reorder p tid msdus s)"
| "do_call (Flush p tid a b action) s = ol_rx_reorder_flush p tid a b action s"
| "do_call (Release p tid a b) s = ol_rx_reorder_release p tid a b s"
| "do_call (PnInd peer tid a b pn_ie) s = ol_rx_pn_ind_handler peer tid a b pn_ie s"
| "do_call (Cleanup p) s = ol_rx_peer_cleanup p s"
| "do_call (Addba mem p tid wsz failed) s = Some (ol_rx_addba_handler mem (Some p) tid wsz failed s)"
| "do_call (Delba p tid) s = Some (ol_rx_delba_handler (Some p) tid s)"

text \<open>The firmware announces windows of at most 64 MPDUs, which the code asserts.\<close>

fun call_pre :: "rx_call \<Rightarrow> rx_state \<Rightarrow> bool" where
  "call_pre (Addba mem p tid wsz failed) s = (unat wsz \<le> 64)"
| "call_pre _ s = True"

text \<open>The frames that a call drops: neither in an array nor handed on nor freed afterwards.\<close>

fun call_lost :: "rx_call \<Rightarrow> rx_state \<Rightarrow> rx_frame multiset" where
  "call_lost (Release p tid a b) s = release_lost a b (slots s p tid)"
| "call_lost (Addba mem p tid wsz failed) s = (if addba_done mem tid failed then chains (slots s p tid) else {#})"
| "call_lost (Delba p tid) s = (if tid < OL_TXRX_NUM_EXT_TIDS then chains (slots s p tid) else {#})"
| "call_lost _ s = {#}"

fun call_target :: "rx_call \<Rightarrow> (nat \<times> nat) set" where
  "call_target (Mpdu p tid msdus) = {(p, tid)}"
| "call_target (Flush p tid a b action) = {(p, tid)}"
| "call_target (Release p tid a b) = {(p, tid)}"
| "call_target (PnInd peer tid a b pn_ie) = (case peer of None \<Rightarrow> {} | Some p \<Rightarrow> {(p, tid)})"
| "call_target (Cleanup p) = Pair p ` set [0..<OL_TXRX_NUM_EXT_TIDS]"
| "call_target (Addba mem p tid wsz failed) = {(p, tid)}"
| "call_target (Delba p tid) = {(p, tid)}"

fun call_frames :: "rx_call \<Rightarrow> rx_frame list" where
  "call_frames (Mpdu p tid msdus) = msdus"
| "call_frames _ = []"

interpretation calls: conserving do_call call_pre call_target call_frames call_lost
proof
  fix s c
  assume wf: "rx_wf s" and pre: "call_pre c s"
  show "\<exists>s'. do_call c s = Some s' \<and> rx_wf s' \<and>
    (\<forall>D. finite D \<and> call_target c \<subseteq> D \<longrightarrow> all_frames D s' + call_lost c s = all_frames D s + mset (call_frames c))"
  proof (cases c)
    case (Addba mem p tid wsz failed)
    then show ?thesis
      using pre addba_contract [OF wf, of wsz _ p tid mem failed] addba_contract [OF wf, of wsz "{(p, tid)}" p tid mem failed] by simp
  next
    case (Delba p tid)
    then show ?thesis using delba_contract [OF wf, of _ p tid] delba_contract [OF wf, of "{(p, tid)}" p tid] by simp
  qed (use process_reorder_contract [OF wf] flush_contract [OF wf] release_contract [OF wf] pn_ind_contract [OF wf]
      cleanup_contract [OF wf, of _ "[0..<OL_TXRX_NUM_EXT_TIDS]"] in
      \<open>simp_all add: ol_rx_peer_cleanup_def ol_rx_reorder_peer_cleanup_def\<close>)
qed

text \<open>Runs of calls from \<open>A\<close>: the frames that came in, those that were dropped, and the state reached.\<close>

inductive rx_run :: "rx_call set \<Rightarrow> rx_state \<Rightarrow> rx_frame list \<Rightarrow> rx_frame multiset \<Rightarrow> rx_state \<Rightarrow> bool" for A where
  start: "rx_run A s [] {#} s"
| call: "rx_run A s fs ls s1 \<Longrightarrow> c \<in> A \<Longrightarrow> call_pre c s1 \<Longrightarrow> do_call c s1 = Some s2 \<Longrightarrow>
    rx_run A s (fs @ call_frames c) (ls + call_lost c s1) s2"

inductive_cases rx_run_snocE: "rx_run A s fs ls s'"

lemma run_wf: "rx_run A s fs ls s' \<Longrightarrow> rx_wf s \<Longrightarrow> rx_wf s'"
  by (induction rule: rx_run.induct) (blast intro: calls.outcome(1))+

end
