(* ===== verification/Rx_Pn.thy ===== *)
theory Rx_Pn
  imports Rx_Steps
begin

text \<open>
  Replay protection: the packet numbers of the encrypted MPDUs that reach the stack grow strictly,
  over every run of calls on any peers and TIDs.
\<close>

section \<open>Packet numbers of a list of buffers\<close>

abbreviation pn48 :: "htt_rx_pn \<Rightarrow> u64" where
  "pn48 pn \<equiv> pn128_0 pn AND 0xffffffffffff"

function mpdus :: "rx_frame list \<Rightarrow> rx_frame list list" where
  "mpdus [] = []"
| "mpdus (f # fs) = fst (ol_rx_mpdu_list_next (f # fs)) # mpdus (snd (ol_rx_mpdu_list_next (f # fs)))"
  by pat_completeness auto
termination by (relation "measure length") simp_all

definition enc_pns :: "rx_frame list \<Rightarrow> u64 list" where
  "enc_pns fs = map (\<lambda>m. pn48 (f_pn (hd m))) (filter (\<lambda>m. f_encrypted (hd m)) (mpdus fs))"

lemma mpdu_nonempty: "fs \<noteq> [] \<Longrightarrow> fst (ol_rx_mpdu_list_next fs) \<noteq> []"
  by (simp add: ol_rx_mpdu_list_next_def Let_def)

lemma mpdu_list_Nil [simp]: "ol_rx_mpdu_list_next [] = ([], [])"
  by (simp add: ol_rx_mpdu_list_next_def)

lemma mpdu_list_Cons:
  "ol_rx_mpdu_list_next (f # fs) =
     (if f_completes_mpdu f then ([f], fs) else (f # fst (ol_rx_mpdu_list_next fs), snd (ol_rx_mpdu_list_next fs)))"
  by (simp add: ol_rx_mpdu_list_next_def Let_def)

text \<open>The first MPDU is found again in front of another list.\<close>

lemma mpdu_list_again:
  "fs \<noteq> [] \<Longrightarrow> (snd (ol_rx_mpdu_list_next fs) = [] \<longrightarrow> out = []) \<Longrightarrow>
     ol_rx_mpdu_list_next (fst (ol_rx_mpdu_list_next fs) @ out) = (fst (ol_rx_mpdu_list_next fs), out)"
proof (induction fs)
  case (Cons f fs)
  then show ?case by (cases "fs = []") (auto simp: mpdu_list_Cons)
qed simp

lemma mpdus_append:
  assumes "fs \<noteq> []" and "snd (ol_rx_mpdu_list_next fs) = [] \<longrightarrow> out = []"
  shows "mpdus (fst (ol_rx_mpdu_list_next fs) @ out) = fst (ol_rx_mpdu_list_next fs) # mpdus out"
  using mpdu_list_again [OF assms] mpdu_nonempty [OF assms(1)]
  by (cases "fst (ol_rx_mpdu_list_next fs)") auto

lemma enc_pns_Nil [simp]: "enc_pns [] = []"
  by (simp add: enc_pns_def)

lemma enc_pns_append:
  assumes "fs \<noteq> []" and "snd (ol_rx_mpdu_list_next fs) = [] \<longrightarrow> out = []"
  shows "enc_pns (fst (ol_rx_mpdu_list_next fs) @ out) =
    (if f_encrypted (hd fs) then pn48 (f_pn (hd fs)) # enc_pns out else enc_pns out)"
proof -
  have "hd (fst (ol_rx_mpdu_list_next fs)) = hd fs" using assms(1) by (cases fs) (auto simp: mpdu_list_Cons)
  then show ?thesis by (simp add: enc_pns_def mpdus_append [OF assms])
qed

section \<open>The check\<close>

text \<open>A peer whose packet numbers the host checks with 48 bits.\<close>

definition pn_config :: "nat \<Rightarrow> rx_state \<Rightarrow> bool" where
  "pn_config p s \<longleftrightarrow> (let x = peers s p in
     (\<exists>n. rx_pn (sec_ucast x) = Some (n, ol_rx_pn_cmp48)) \<and> (\<exists>n. rx_pn (sec_mcast x) = Some (n, ol_rx_pn_cmp48)) \<and>
     sec_ucast x \<noteq> htt_sec_type_wapi \<and> sec_mcast x \<noteq> htt_sec_type_wapi \<and>
     \<not> fw_pn_check x \<and> peer_opmode x \<noteq> wlan_op_mode_ibss)"

text \<open>The last packet number of a TID, if there is one.\<close>

definition last_pn :: "nat \<Rightarrow> nat \<Rightarrow> rx_state \<Rightarrow> u64 option" where
  "last_pn p tid s = (if tids_last_pn_valid (peers s p) tid then Some (pn48 (tids_last_pn (peers s p) tid)) else None)"

definition after :: "u64 option \<Rightarrow> u64 list \<Rightarrow> bool" where
  "after l xs \<longleftrightarrow> sorted_wrt (<) xs \<and> (\<forall>y. l = Some y \<longrightarrow> (\<forall>x \<in> set xs. y < x))"

definition new_last :: "u64 option \<Rightarrow> u64 list \<Rightarrow> u64 option" where
  "new_last l xs = (if xs = [] then l else Some (last xs))"

lemma after_Nil [simp]: "after l []" "new_last l [] = l"
  by (simp_all add: after_def new_last_def)

lemma after_Cons: "after l (x # xs) \<longleftrightarrow> (\<forall>y. l = Some y \<longrightarrow> y < x) \<and> after (Some x) xs"
  by (auto simp: after_def)

lemma new_last_Cons: "new_last l (x # xs) = new_last (Some x) xs"
  by (simp add: new_last_def)

definition same_config :: "nat \<Rightarrow> rx_state \<Rightarrow> rx_state \<Rightarrow> bool" where
  "same_config p s s' \<longleftrightarrow> sec_ucast (peers s' p) = sec_ucast (peers s p) \<and> sec_mcast (peers s' p) = sec_mcast (peers s p) \<and>
     fw_pn_check (peers s' p) = fw_pn_check (peers s p) \<and> peer_opmode (peers s' p) = peer_opmode (peers s p) \<and>
     rx_opt_proc (peers s' p) = rx_opt_proc (peers s p)"

lemma same_config_refl [simp]: "same_config p s s"
  by (simp add: same_config_def)

lemma same_config_trans: "same_config p s t \<Longrightarrow> same_config p t u \<Longrightarrow> same_config p s u"
  by (simp add: same_config_def)

lemma pn_config_cong: "same_config p s s' \<Longrightarrow> pn_config p s' = pn_config p s"
  by (simp add: same_config_def pn_config_def Let_def)

lemma pn_step_48:
  assumes cfg: "pn_config p s" and step: "pn_step p tid u ol_rx_pn_cmp48 False mpdu s = (good, s')"
  shows "same_config q s s' \<and> (q \<noteq> p \<or> t \<noteq> tid \<longrightarrow> last_pn q t s' = last_pn q t s) \<and>
    (if good \<and> f_encrypted (hd mpdu)
     then (\<forall>y. last_pn p tid s = Some y \<longrightarrow> y < pn48 (f_pn (hd mpdu))) \<and> last_pn p tid s' = Some (pn48 (f_pn (hd mpdu)))
     else last_pn p tid s' = last_pn p tid s)"
proof -
  have "(if u then sec_ucast (peers s p) else sec_mcast (peers s p)) \<noteq> htt_sec_type_wapi"
    using cfg by (simp add: pn_config_def Let_def)
  then show ?thesis
    using step
    by (auto simp: pn_step_def Let_def ol_rx_pn_cmp48_def last_pn_def same_config_def upd_peer_def emit_def split: if_splits)
qed

lemma pn_loop_48:
  "pn_config p s \<Longrightarrow> cmp = ol_rx_pn_cmp48 \<Longrightarrow> \<not> strict \<Longrightarrow> pn_loop p tid u cmp strict fs s = (out, s') \<Longrightarrow>
     (\<forall>q. same_config q s s') \<and> (\<forall>q t. q \<noteq> p \<or> t \<noteq> tid \<longrightarrow> last_pn q t s' = last_pn q t s) \<and>
     after (last_pn p tid s) (enc_pns out) \<and> last_pn p tid s' = new_last (last_pn p tid s) (enc_pns out)"
proof (induction p tid u cmp strict fs s arbitrary: out s' rule: pn_loop.induct)
  case (1 p tid u cmp strict s)
  then show ?case by (simp add: after_def new_last_def)
next
  case (2 p tid u cmp strict f fs s)
  let ?mpdu = "fst (ol_rx_mpdu_list_next (f # fs))" and ?rest = "snd (ol_rx_mpdu_list_next (f # fs))"
  obtain good s1 where step: "pn_step p tid u cmp strict ?mpdu s = (good, s1)" by fastforce
  obtain out1 s2 where loop: "pn_loop p tid u cmp strict ?rest s1 = (out1, s2)" by fastforce
  have res: "out = (if good then ?mpdu @ out1 else out1)" "s' = s2"
    using "2.prems"(4) by (auto simp: Let_def step loop split: if_splits)
  have one: "same_config q s s1 \<and> (q \<noteq> p \<or> t \<noteq> tid \<longrightarrow> last_pn q t s1 = last_pn q t s) \<and>
    (if good \<and> f_encrypted (hd ?mpdu)
     then (\<forall>y. last_pn p tid s = Some y \<longrightarrow> y < pn48 (f_pn (hd ?mpdu))) \<and> last_pn p tid s1 = Some (pn48 (f_pn (hd ?mpdu)))
     else last_pn p tid s1 = last_pn p tid s)" for q t
    using pn_step_48 [OF "2.prems"(1), of tid u ?mpdu good s1 q t] step "2.prems"(2,3) by simp
  have cfg1: "pn_config p s1" using pn_config_cong one "2.prems"(1) by blast
  have IH: "(\<forall>q. same_config q s1 s2) \<and> (\<forall>q t. q \<noteq> p \<or> t \<noteq> tid \<longrightarrow> last_pn q t s2 = last_pn q t s1) \<and>
     after (last_pn p tid s1) (enc_pns out1) \<and> last_pn p tid s2 = new_last (last_pn p tid s1) (enc_pns out1)"
    by (rule "2.IH" [OF refl step [symmetric] refl cfg1 "2.prems"(2,3) loop])
  have "?rest = [] \<longrightarrow> out1 = []" using loop by auto
  then have pns: "enc_pns (?mpdu @ out1) = (if f_encrypted f then pn48 (f_pn f) # enc_pns out1 else enc_pns out1)"
    using enc_pns_append [of "f # fs" out1] by simp
  have hd: "hd ?mpdu = f" by (simp add: mpdu_list_Cons)
  show ?case
    using one IH pns unfolding res hd by (auto simp: after_Cons new_last_Cons intro: same_config_trans)
qed

section \<open>Runs\<close>

text \<open>The packet numbers of the encrypted MPDUs that were passed to the stack.\<close>

fun pns_of :: "nat \<Rightarrow> nat \<Rightarrow> rx_event \<Rightarrow> u64 list" where
  "pns_of p tid (Deliver q t fs) = (if q = p \<and> t = tid then enc_pns fs else [])"
| "pns_of p tid (Forward q t fs) = (if q = p \<and> t = tid then enc_pns fs else [])"
| "pns_of p tid _ = []"

definition delivered_pns :: "nat \<Rightarrow> nat \<Rightarrow> rx_state \<Rightarrow> u64 list" where
  "delivered_pns p tid s = concat (map (pns_of p tid) (rx_log s))"

text \<open>A change of the state that the check for one TID of a peer does not see.\<close>

definition quiet :: "nat \<Rightarrow> nat \<Rightarrow> rx_state \<Rightarrow> rx_state \<Rightarrow> bool" where
  "quiet p tid s s' \<longleftrightarrow> same_config p s s' \<and> last_pn p tid s' = last_pn p tid s \<and>
     delivered_pns p tid s' = delivered_pns p tid s"

lemma pn_quiet_refl [simp]: "quiet p tid s s"
  by (simp add: quiet_def)

lemma pn_quiet_trans: "quiet p tid s t \<Longrightarrow> quiet p tid t u \<Longrightarrow> quiet p tid s u"
  by (auto simp: quiet_def intro: same_config_trans)

lemma quiet_upd_peer:
  assumes "\<And>x. sec_ucast (f x) = sec_ucast x" "\<And>x. sec_mcast (f x) = sec_mcast x"
    "\<And>x. fw_pn_check (f x) = fw_pn_check x" "\<And>x. peer_opmode (f x) = peer_opmode x"
    "\<And>x. rx_opt_proc (f x) = rx_opt_proc x" "\<And>x. tids_last_pn (f x) = tids_last_pn x"
    "\<And>x. tids_last_pn_valid (f x) = tids_last_pn_valid x"
  shows "quiet p tid s (upd_peer q f s)"
  using assms by (simp add: quiet_def same_config_def last_pn_def delivered_pns_def upd_peer_def)

lemma quiet_set_slots: "quiet p tid s (set_slots q t a s)"
  unfolding set_slots_def upd_reorder_def by (rule quiet_upd_peer) simp_all

lemma quiet_set_last_seq: "quiet p tid s (set_last_seq q t out s)"
  unfolding set_last_seq_def by (rule quiet_upd_peer) simp_all

lemma quiet_emit: "pns_of p tid ev = [] \<Longrightarrow> quiet p tid s (emit ev s)"
  by (simp add: quiet_def same_config_def last_pn_def delivered_pns_def emit_def)

lemma quiet_waitlist: "quiet p tid s (ol_rx_defrag_waitlist_remove q t s)"
  by (simp add: quiet_def same_config_def last_pn_def delivered_pns_def ol_rx_defrag_waitlist_remove_def)

lemma pn_step_other:
  assumes "pn_step q t u cmp strict mpdu s = (good, s')"
  shows "same_config p s s' \<and> ((p, tid) \<noteq> (q, t) \<longrightarrow> last_pn p tid s' = last_pn p tid s) \<and>
    delivered_pns p tid s' = delivered_pns p tid s"
  using assms
  by (auto simp: pn_step_def Let_def last_pn_def same_config_def delivered_pns_def upd_peer_def emit_def split: if_splits)

lemma pn_loop_other:
  "pn_loop q t u cmp strict fs s = (out, s') \<Longrightarrow>
     same_config p s s' \<and> ((p, tid) \<noteq> (q, t) \<longrightarrow> last_pn p tid s' = last_pn p tid s) \<and>
     delivered_pns p tid s' = delivered_pns p tid s"
proof (induction q t u cmp strict fs s arbitrary: out s' rule: pn_loop.induct)
  case (2 q t u cmp strict f fs s)
  let ?mpdu = "fst (ol_rx_mpdu_list_next (f # fs))" and ?rest = "snd (ol_rx_mpdu_list_next (f # fs))"
  obtain good s1 where step: "pn_step q t u cmp strict ?mpdu s = (good, s1)" by fastforce
  obtain out1 s2 where loop: "pn_loop q t u cmp strict ?rest s1 = (out1, s2)" by fastforce
  have "s' = s2" using "2.prems" by (auto simp: Let_def step loop split: if_splits)
  then show ?case
    using "2.IH" [OF refl step [symmetric] refl loop] pn_step_other [OF step, of p tid] by (auto intro: same_config_trans)
qed simp

text \<open>The invariant: what was passed on is increasing and the last packet number is known.\<close>

definition pn_inv :: "u64 option \<Rightarrow> nat \<Rightarrow> nat \<Rightarrow> rx_state \<Rightarrow> bool" where
  "pn_inv l p tid s \<longleftrightarrow> pn_config p s \<and> rx_opt_proc (peers s p) \<in> {Rx_pn_check, Rx_pn_check_only, Rx_discard} \<and>
     after l (delivered_pns p tid s) \<and> last_pn p tid s = new_last l (delivered_pns p tid s)"

lemma pn_inv_quiet: "pn_inv l p tid s \<Longrightarrow> quiet p tid s s' \<Longrightarrow> pn_inv l p tid s'"
  using pn_config_cong [of p s s'] by (simp add: pn_inv_def quiet_def same_config_def)

lemma after_append: "after l (xs @ ys) \<longleftrightarrow> after l xs \<and> after (new_last l xs) ys"
  by (induction xs arbitrary: l) (auto simp: after_Cons new_last_Cons)

lemma new_last_append: "new_last l (xs @ ys) = new_last (new_last l xs) ys"
  by (simp add: new_last_def)

lemma delivered_emit [simp]: "delivered_pns p tid (emit ev s) = delivered_pns p tid s @ pns_of p tid ev"
  by (simp add: delivered_pns_def)

lemma check_base_inv:
  assumes inv: "pn_inv l p tid s" and c: "ol_rx_pn_check_base q t fs False s = (out, s')"
  shows "same_config p s s' \<and> delivered_pns p tid s' = delivered_pns p tid s \<and>
    (if (p, tid) = (q, t) then after (last_pn p tid s) (enc_pns out) \<and> last_pn p tid s' = new_last (last_pn p tid s) (enc_pns out)
     else last_pn p tid s' = last_pn p tid s)"
proof (cases "(p, tid) = (q, t)")
  case True
  have cfg: "pn_config p s" using inv by (simp add: pn_inv_def)
  obtain u where loop: "pn_loop p tid u ol_rx_pn_cmp48 False fs s = (out, s')"
    using c True cfg by (auto simp: ol_rx_pn_check_base_def pn_config_def Let_def split: if_splits)
  show ?thesis
    using pn_loop_48 [OF cfg refl _ loop] pn_loop_other [OF loop, of p tid] True by auto
next
  case False
  then show ?thesis
    using c pn_loop_other [of q t _ _ False fs s out s' p tid]
    by (auto simp: ol_rx_pn_check_base_def Let_def split: if_splits option.splits)
qed

lemma call_rx_opt_proc_inv:
  assumes inv: "pn_inv l p tid s"
  shows "pn_inv l p tid (call_rx_opt_proc q t fs s)"
proof -
  obtain out s1 where c: "ol_rx_pn_check_base q t fs False s = (out, s1)" by fastforce
  note b = check_base_inv [OF inv c]
  have emits: "pn_inv l p tid (emit ev s1)"
    if "pns_of p tid ev = (if (p, tid) = (q, t) then enc_pns out else [])" for ev
  proof -
    have "after (last_pn p tid s) (pns_of p tid ev)" "last_pn p tid (emit ev s1) = new_last (last_pn p tid s) (pns_of p tid ev)"
      using b that by (auto simp: last_pn_def emit_def split: if_splits)
    moreover have "same_config p s (emit ev s1)" using b by (simp add: same_config_def emit_def)
    moreover have "delivered_pns p tid (emit ev s1) = delivered_pns p tid s @ pns_of p tid ev" using b by simp
    ultimately show ?thesis
      using inv pn_config_cong [of p s "emit ev s1"]
      by (simp add: pn_inv_def after_append new_last_append) (simp add: same_config_def)
  qed
  have quiet: "pn_inv l p tid (emit ev s)" if "pns_of p tid ev = []" for ev
    using pn_inv_quiet [OF inv quiet_emit [OF that]] .
  have other: "q \<noteq> p" if "rx_opt_proc (peers s q) \<in> {Rx_fwd_check, Rx_deliver}"
    using inv that by (auto simp: pn_inv_def)
  show ?thesis
  proof (cases "rx_opt_proc (peers s q)")
    case Rx_pn_check
    then show ?thesis by (simp add: call_rx_opt_proc_def ol_rx_pn_check_def c emits)
  next
    case Rx_pn_check_only
    then show ?thesis by (simp add: call_rx_opt_proc_def ol_rx_pn_check_only_def c emits)
  next
    case Rx_fwd_check
    then have "pns_of p tid (Forward q t fs) = []" using other by simp
    then show ?thesis using quiet Rx_fwd_check by (simp add: call_rx_opt_proc_def)
  next
    case Rx_deliver
    then have "pns_of p tid (Deliver q t fs) = []" using other by simp
    then show ?thesis using quiet Rx_deliver by (simp add: call_rx_opt_proc_def)
  next
    case Rx_discard
    then show ?thesis using quiet [of "Freed fs"] by (simp add: call_rx_opt_proc_def)
  qed
qed

section \<open>Calls\<close>

lemma quiet_tids:
  "quiet p tid s (upd_peer q (\<lambda>x. x\<lparr>tids_last_seq := g x\<rparr>) s)"
  "quiet p tid s (upd_peer q (\<lambda>x. x\<lparr>tids_next_rel_idx := g x\<rparr>) s)"
  by (rule quiet_upd_peer; simp)+

lemma quiet_taken:
  "quiet p tid s (set_last_seq q t out (set_slots q t a (upd_peer q (\<lambda>x. x\<lparr>tids_next_rel_idx := g x\<rparr>) s)))"
  "quiet p tid s (set_slots q t a (upd_peer q (\<lambda>x. x\<lparr>tids_next_rel_idx := g x\<rparr>) s))"
  by (rule pn_quiet_trans [OF pn_quiet_trans [OF quiet_tids(2) quiet_set_slots] quiet_set_last_seq]
      pn_quiet_trans [OF quiet_tids(2) quiet_set_slots])+

lemma flush_inv:
  assumes "rx_wf s" "pn_inv l p tid s" "ol_rx_reorder_flush q t a b action s = Some s'"
  shows "pn_inv l p tid s'"
proof -
  define win where "win = flush_window (length (slots s q t)) a (if b = 0xffff then a else b)"
  define out where "out = concat (map (\<lambda>i. elem_chain (slots s q t ! i)) win)"
  define s1 where "s1 = ol_rx_defrag_waitlist_remove q t (set_slots q t (clear_full_slots win (slots s q t))
    (upd_peer q (\<lambda>x. x\<lparr>tids_next_rel_idx := (tids_next_rel_idx x)(t := if b = 0xffff then 0 else of_nat b)\<rparr>) s))"
  have s': "s' = (if out = [] then s1 else if action = htt_rx_flush_release
      then call_rx_opt_proc q t out (set_last_seq q t out s1) else emit (Freed out) (set_last_seq q t out s1))"
    using assms(3) unfolding flush_spec [OF assms(1)] Let_def win_def [symmetric] out_def [symmetric] s1_def [symmetric]
    by simp
  have "quiet p tid s s1" unfolding s1_def by (rule pn_quiet_trans [OF quiet_taken(2) quiet_waitlist])
  then have one: "pn_inv l p tid s1" by (rule pn_inv_quiet [OF assms(2)])
  then have two: "pn_inv l p tid (set_last_seq q t out s1)" by (rule pn_inv_quiet [OF _ quiet_set_last_seq])
  then have "pn_inv l p tid (emit (Freed out) (set_last_seq q t out s1))" by (rule pn_inv_quiet [OF _ quiet_emit]) simp
  then show ?thesis using one call_rx_opt_proc_inv [OF two] unfolding s' by simp
qed

lemma release_inv:
  assumes "rx_wf s" "pn_inv l p tid s" "ol_rx_reorder_release q t a b s = Some s'"
  shows "pn_inv l p tid s'"
proof -
  define arr where "arr = slots s q t"
  define out where "out = concat (map (\<lambda>i. elem_chain (arr ! i)) (release_window (length arr) a b))"
  define s1 where "s1 = set_slots q t (clear_slots (release_window (length arr) a b) arr)
    (upd_peer q (\<lambda>x. x\<lparr>tids_next_rel_idx := (tids_next_rel_idx x)(t := of_nat b)\<rparr>) s)"
  have s': "s' = (if elem_chain (arr ! (a mod length arr)) = [] then s1
      else call_rx_opt_proc q t out (set_last_seq q t out s1))"
    using assms(3) unfolding release_spec [OF assms(1)] Let_def arr_def [symmetric] out_def [symmetric] s1_def [symmetric]
    by simp
  have one: "pn_inv l p tid s1" unfolding s1_def by (rule pn_inv_quiet [OF assms(2) quiet_taken(2)])
  then have "pn_inv l p tid (set_last_seq q t out s1)" by (rule pn_inv_quiet [OF _ quiet_set_last_seq])
  then show ?thesis using one call_rx_opt_proc_inv unfolding s' by simp
qed

lemma cleanup_inv:
  "rx_wf s \<Longrightarrow> pn_inv l p tid s \<Longrightarrow> cleanup_tids q tids s = Some s' \<Longrightarrow> pn_inv l p tid s'"
proof (induction tids arbitrary: s)
  case (Cons t tids)
  obtain s1 where s1: "ol_rx_reorder_flush q t 0 0 htt_rx_flush_discard s = Some s1" "rx_wf s1"
    using flush_contract [OF Cons.prems(1)] by blast
  then show ?case using Cons flush_inv [OF Cons.prems(1,2) s1(1)] by simp
qed simp

lemma process_reorder_quiet: "quiet p tid s (process_reorder q t msdus s)"
proof -
  obtain good s1 where c: "OL_RX_SEQ_NUM_CHECK q t (hd msdus) s = (good, s1)" by fastforce
  have "quiet p tid s s1"
    using c by (auto simp: OL_RX_SEQ_NUM_CHECK_def ol_rx_seq_num_check_def Let_def intro!: quiet_upd_peer split: if_splits)
  moreover have st: "quiet p tid s1 (ol_rx_reorder_store q t i msdus s1)" for i
    by (simp add: ol_rx_reorder_store_def Let_def quiet_set_slots)
  moreover have "quiet p tid s1 (upd_peer q (\<lambda>x. x\<lparr>tids_last_seq := g x\<rparr>) (ol_rx_reorder_store q t i msdus s1))" for i g
    by (rule pn_quiet_trans [OF st quiet_tids(1)])
  moreover have "quiet p tid s1 (emit (Freed msdus) s1)" by (rule quiet_emit) simp
  ultimately have "quiet p tid s1 (process_reorder q t msdus s)"
    by (simp add: process_reorder_def c Let_def split: bool.split)
  then show ?thesis using \<open>quiet p tid s s1\<close> by (rule pn_quiet_trans [rotated])
qed

lemma quiet_upd_reorder: "quiet p tid s (upd_reorder q t f s)"
  unfolding upd_reorder_def by (rule quiet_upd_peer) simp_all

lemma quiet_undefined: "quiet p tid s (s\<lparr>rx_undefined := b\<rparr>)"
  by (simp add: quiet_def same_config_def last_pn_def delivered_pns_def)

lemma addba_quiet: "quiet p tid s (ol_rx_addba_handler mem peer t wsz failed s)"
  unfolding ol_rx_addba_handler_def Let_def
  by (cases peer)
    (simp_all add: quiet_tids pn_quiet_trans [OF quiet_tids(1) quiet_undefined]
      pn_quiet_trans [OF pn_quiet_trans [OF quiet_tids(1) quiet_upd_reorder] quiet_tids(2)])

lemma delba_quiet: "quiet p tid s (ol_rx_delba_handler peer t s)"
  unfolding ol_rx_delba_handler_def
  by (cases peer) (simp_all add: pn_quiet_trans [OF quiet_tids(2) quiet_upd_reorder])

text \<open>The calls after which the host still checks the packet numbers.\<close>

definition host_checked :: "rx_call set" where
  "host_checked = {c. \<forall>peer t a b pn_ie. c \<noteq> PnInd peer t a b pn_ie}"

lemma call_inv:
  assumes wf: "rx_wf s" and inv: "pn_inv l p tid s" and c: "c \<in> host_checked" "do_call c s = Some s'"
  shows "pn_inv l p tid s'"
proof (cases c)
  case (Mpdu q t msdus)
  then show ?thesis using c(2) pn_inv_quiet [OF inv process_reorder_quiet] by auto
next
  case (Flush q t a b action)
  then show ?thesis using c flush_inv [OF wf inv] by simp
next
  case (Release q t a b)
  then show ?thesis using c release_inv [OF wf inv] by simp
next
  case (Cleanup q)
  then show ?thesis
    using c cleanup_inv [OF wf inv] by (simp add: ol_rx_peer_cleanup_def ol_rx_reorder_peer_cleanup_def del: upt_Suc)
next
  case (Addba mem q t wsz failed)
  then show ?thesis using c(2) pn_inv_quiet [OF inv addba_quiet] by auto
next
  case (Delba q t)
  then show ?thesis using c(2) pn_inv_quiet [OF inv delba_quiet] by auto
qed (use c in \<open>simp add: host_checked_def\<close>)

lemma run_inv:
  assumes "rx_run host_checked s fs ls s'" "rx_wf s" "pn_inv l p tid s"
  shows "pn_inv l p tid s'"
  using assms
proof (induction rule: rx_run.induct)
  case (call s fs ls s1 c s2)
  then show ?case using call_inv run_wf by blast
qed

end
