(* ===== verification/Rx_Frag.thy ===== *)
theory Rx_Frag
  imports Rx_Pn
begin

text \<open>
  Collecting the fragments of a frame: what the insertion does when they arrive in order, and what
  it does when they do not.
\<close>

section \<open>In order\<close>

lemma frags_consecutive_iff: "frags_consecutive c fs \<longleftrightarrow> (\<forall>k < length fs. fragno (fs ! k) = Suc (c + k))"
proof (induction fs arbitrary: c)
  case (Cons f fs)
  show ?case by (simp add: Cons.IH All_less_Suc2)
qed simp

text \<open>The fragments of a frame, numbered from 0, all but the last announcing another one.\<close>

definition fragments_of_frame :: "rx_frame list \<Rightarrow> bool" where
  "fragments_of_frame fs \<longleftrightarrow> fs \<noteq> [] \<and>
     (\<forall>k < length fs. fragno (fs ! k) = k \<and> (i_more_frag (fs ! k) \<longleftrightarrow> Suc k < length fs) \<and>
        \<not> f_mcast (fs ! k) \<and> f_encrypted (fs ! k) \<and> rxseq (fs ! k) = rxseq (hd fs) \<and>
        i_addr1 (fs ! k) = i_addr1 (hd fs) \<and> i_addr2 (fs ! k) = i_addr2 (hd fs))"

definition frags_slot :: "nat \<Rightarrow> rx_frame list \<Rightarrow> rx_elem" where
  "frags_slot k fs = (if k = 0 then null_elem else \<lparr>elem_chain = take k fs, elem_tail = k - 1\<rparr>)"

lemma insert_in_order:
  assumes fs: "fragments_of_frame fs" "k < length fs" "2 \<le> length fs"
  shows "ol_rx_fraglist_insert (frags_slot k fs) (fs ! k) = (frags_slot (Suc k) fs, Suc k = length fs, None)"
proof (cases k)
  case 0
  then show ?thesis using fs by (auto simp: ol_rx_fraglist_insert_def frags_slot_def take_Suc_conv_app_nth)
next
  case (Suc j)
  have k: "fragno (fs ! k) = k" "fragno (fs ! j) = j" "i_more_frag (fs ! k) \<longleftrightarrow> Suc k < length fs"
    using fs Suc by (auto simp: fragments_of_frame_def)
  have chain: "elem_tail (frags_slot k fs) = j" "elem_chain (frags_slot k fs) \<noteq> []" "elem_chain (frags_slot k fs) ! j = fs ! j"
    "elem_chain (frags_slot (Suc k) fs) = take (Suc k) fs" "elem_tail (frags_slot (Suc k) fs) = k" "take (Suc k) fs ! k = fs ! k"
    using fs Suc by (auto simp: frags_slot_def)
  have e': "\<lparr>elem_chain = take (Suc j) (elem_chain (frags_slot k fs)) @ [fs ! k], elem_tail = Suc j\<rparr> = frags_slot (Suc k) fs"
    unfolding Suc [symmetric] frags_slot_def using Suc take_Suc_conv_app_nth [OF fs(2)] by simp
  have "frags_consecutive 0 (tl (take (Suc k) fs))"
    using fs by (auto simp: frags_consecutive_iff nth_tl fragments_of_frame_def)
  moreover have "j < k" using Suc by simp
  ultimately show ?thesis
    unfolding ol_rx_fraglist_insert_def Let_def chain(1) e' using fs(2) by (auto simp: chain k)
qed

text \<open>Storing one fragment after another in an empty slot.\<close>

definition frag_state :: "nat \<Rightarrow> nat \<Rightarrow> nat \<Rightarrow> rx_frame list \<Rightarrow> nat \<Rightarrow> rx_state \<Rightarrow> rx_state \<Rightarrow> bool" where
  "frag_state p tid seq fs k s t \<longleftrightarrow> slots t p tid = (slots s p tid)[seq := frags_slot k fs] \<and>
     rx_log t = rx_log s \<and> mask_of t p tid = mask_of s p tid \<and> \<not> defrag_timeout_check t"

lemma set_slots_frame [simp]:
  "defrag_timeout_check (set_slots p tid a s) = defrag_timeout_check s"
  "mask_of (set_slots p tid a s) p tid = mask_of s p tid"
  "defrag_timeout_check (emit ev s) = defrag_timeout_check s"
  "slots (emit ev s) = slots s"
  by (simp_all add: set_slots_def upd_reorder_def upd_peer_def mask_of_def reorder_of_def emit_def slots_def
      set_array_def fun_eq_iff split: option.split)

lemma store_in_order:
  assumes fs: "fragments_of_frame fs" "k < length fs"
    and st: "frag_state p tid (sn AND mask_of s p tid) fs k s t" and seq: "sn AND mask_of s p tid < length (slots s p tid)"
  shows "if Suc k < length fs
    then frag_state p tid (sn AND mask_of s p tid) fs (Suc k) s (ol_rx_reorder_store_frag now p tid sn (fs ! k) t)
    else rx_log (ol_rx_reorder_store_frag now p tid sn (fs ! k) t) = rx_log s @ [Defrag p tid fs] \<and>
      slots (ol_rx_reorder_store_frag now p tid sn (fs ! k) t) p tid = (slots s p tid)[sn AND mask_of s p tid := null_elem]"
proof -
  let ?seq = "sn AND mask_of s p tid"
  have e: "slots t p tid ! ?seq = frags_slot k fs" and len: "length (slots t p tid) = length (slots s p tid)"
    and msk: "mask_of t p tid = mask_of s p tid" and to: "\<not> defrag_timeout_check t"
    using st seq by (simp_all add: frag_state_def)
  have f: "\<not> f_mcast (fs ! k)" "f_encrypted (fs ! k)" "fragno (fs ! k) = k" "i_more_frag (fs ! k) \<longleftrightarrow> Suc k < length fs"
    "rxseq (fs ! k) = rxseq (hd fs)" "i_addr1 (fs ! k) = i_addr1 (hd fs)" "i_addr2 (fs ! k) = i_addr2 (hd fs)"
    using fs by (auto simp: fragments_of_frame_def)
  have hd: "elem_chain (frags_slot k fs) \<noteq> [] \<Longrightarrow> hd (elem_chain (frags_slot k fs)) = hd fs"
    by (auto simp: frags_slot_def split: if_splits)
  have emp: "elem_chain (frags_slot k fs) = [] \<longleftrightarrow> k = 0" using fs(2) by (auto simp: frags_slot_def)
  show ?thesis
  proof (cases "length fs = 1")
    case True
    then obtain g where g: "fs = [g]" "k = 0" using fs(2) by (auto simp: length_Suc_conv)
    then show ?thesis
      using st seq f e len msk emp by (simp add: ol_rx_reorder_store_frag_def Let_def frag_state_def)
  next
    case False
    then have two: "2 \<le> length fs" using fs(2) by linarith
    note ins = insert_in_order [OF fs two]
    have single: "\<not> (\<not> i_more_frag (fs ! k) \<and> fragno (fs ! k) = 0 \<and> elem_chain (frags_slot k fs) = [])"
      using f two by auto
    have chain: "elem_chain (frags_slot (Suc k) fs) = take (Suc k) fs" by (simp add: frags_slot_def)
    have whole: "elem_chain (frags_slot (length fs) fs) = fs" by (simp add: frags_slot_def)
    have match: "\<not> (elem_chain (frags_slot k fs) \<noteq> [] \<and>
        (rxseq (fs ! k) \<noteq> rxseq (hd (elem_chain (frags_slot k fs))) \<or>
         i_addr1 (fs ! k) \<noteq> i_addr1 (hd (elem_chain (frags_slot k fs))) \<or>
         i_addr2 (fs ! k) \<noteq> i_addr2 (hd (elem_chain (frags_slot k fs)))))"
      using f hd by auto
    define s3 where "s3 = set_slots p tid ((slots t p tid)[?seq := frags_slot (Suc k) fs]) t"
    define s4 where "s4 = set_slots p tid ((slots s3 p tid)[?seq := null_elem]) (emit (Defrag p tid (take (Suc k) fs)) s3)"
    have to3: "\<not> defrag_timeout_check s3" using to by (simp add: s3_def)
    have run: "ol_rx_reorder_store_frag now p tid sn (fs ! k) t =
      (if Suc k = length fs
       then upd_peer p (\<lambda>x. x\<lparr>tids_last_seq := (tids_last_seq x)(tid := of_nat sn)\<rparr>)
              (upd_reorder p tid (\<lambda>r. r\<lparr>defrag_timeout_ms := 0\<rparr>) s4)
       else s3)"
      unfolding ol_rx_reorder_store_frag_def Let_def msk e if_not_P [OF single] if_not_P [OF match] ins
      using f to fs(2) by (auto simp: s3_def s4_def chain whole)
    have s3: "slots s3 p tid = (slots s p tid)[?seq := frags_slot (Suc k) fs]" "rx_log s3 = rx_log s"
      "mask_of s3 p tid = mask_of s p tid"
      using st len by (simp_all add: s3_def frag_state_def)
    have s4: "slots s4 p tid = (slots s p tid)[?seq := null_elem]" "rx_log s4 = rx_log s @ [Defrag p tid (take (Suc k) fs)]"
      using s3 by (simp_all add: s4_def)
    have "slots (upd_reorder p tid (\<lambda>r. r\<lparr>defrag_timeout_ms := 0\<rparr>) u) p tid = slots u p tid" for u
      by (simp add: slots_def reorder_of_def upd_reorder_def upd_peer_def array_of_def split: option.split)
    then show ?thesis
      using fs(2) s3 s4 to3 unfolding run by (auto simp: frag_state_def slots_def upd_reorder_def)
  qed
qed

end
