(* ===== verification/Rx_Props.thy ===== *)
theory Rx_Props
  imports Rx_Frag
begin

text \<open>
  The properties of the receive path.  The witnesses run the model on small reorder arrays
  with frames that carry the packet numbers written down.
\<close>

section \<open>Data for the witnesses\<close>

definition rxd_frame :: "nat \<Rightarrow> u16 \<Rightarrow> u64 \<Rightarrow> rx_frame" where
  "rxd_frame i sq pn = \<lparr>f_id = i, f_seq_num = sq, f_tid = 0, f_retry = False, f_reorder_idx = unat sq,
     f_completes_mpdu = True, f_mcast = False, f_encrypted = True, f_is_frag = False,
     f_pn = \<lparr>pn128_0 = pn, pn128_1 = 0\<rparr>, i_seq = sq, i_more_frag = False, i_addr1 = [], i_addr2 = []\<rparr>"

definition rxd_frag :: "u16 \<Rightarrow> bool \<Rightarrow> rx_frame" where
  "rxd_frag n mf = (rxd_frame 0 n 0)\<lparr>f_is_frag := True, i_more_frag := mf\<rparr>"

definition rxd_slot :: "rx_frame list \<Rightarrow> rx_elem" where
  "rxd_slot fs = \<lparr>elem_chain = fs, elem_tail = length fs - 1\<rparr>"

text \<open>All TIDs of all peers have an array of four slots.\<close>

definition rxd_state :: "rx_opt \<Rightarrow> rx_elem list \<Rightarrow> rx_state" where
  "rxd_state opt a = \<lparr>peers = (\<lambda>_. \<lparr>tids_rx_reorder = (\<lambda>tid. \<lparr>win_sz = 4, win_sz_mask = 3, num_mpdus = 0,
       reorder_array = Some a, reorder_base = null_elem, defrag_timeout_ms = 0, reorder_tid = tid\<rparr>),
     tids_last_pn = (\<lambda>_. \<lparr>pn128_0 = 0, pn128_1 = 0\<rparr>), tids_last_pn_valid = (\<lambda>_. False), tids_rekey_flag = (\<lambda>_. False),
     tids_next_rel_idx = (\<lambda>_. 0), tids_last_seq = (\<lambda>_. 4096), tids_mcast_last_seq = (\<lambda>_. 0),
     sec_ucast = htt_sec_type_aes_ccmp, sec_mcast = htt_sec_type_aes_ccmp, rx_opt_proc = opt, fw_pn_check = False,
     peer_opmode = wlan_op_mode_sta\<rparr>),
   waitlist = [], dup_check = False, defrag_timeout_check = False, defrag_timeout = 5, rx_log = [], rx_undefined = False\<rparr>"

lemma rxd_slots [simp]: "slots (rxd_state opt a) p tid = a" "mask_of (rxd_state opt a) p tid = 3"
  "rx_log (rxd_state opt a) = []"
  by (simp_all add: slots_def reorder_of_def rxd_state_def array_of_def mask_of_def)

lemma rxd_wf:
  assumes "list_all elem_ok a" "length a = 4"
  shows "rx_wf (rxd_state opt a)"
proof -
  have "reorder_ok (reorder_of (rxd_state opt a) p tid)" for p tid
    unfolding reorder_ok_def using assms
    by (intro exI [of _ 2]) (simp add: reorder_of_def rxd_state_def array_of_def)
  then show ?thesis using assms by (simp add: rx_wf_def)
qed

lemma rxd_slot_ok [simp]: "elem_ok (rxd_slot fs)"
  by (cases fs) (simp_all add: elem_ok_def upto_tail_def rxd_slot_def)

text \<open>Runs of a list of calls.\<close>

fun run_calls :: "rx_call list \<Rightarrow> rx_state \<Rightarrow> rx_state option" where
  "run_calls [] s = Some s"
| "run_calls (c # cs) s =
     (if call_pre c s then case do_call c s of None \<Rightarrow> None | Some s' \<Rightarrow> run_calls cs s' else None)"

fun calls_lost :: "rx_call list \<Rightarrow> rx_state \<Rightarrow> rx_frame multiset" where
  "calls_lost [] s = {#}"
| "calls_lost (c # cs) s = call_lost c s + calls_lost cs (the (do_call c s))"

lemma run_calls_append:
  "run_calls cs s1 = Some s' \<Longrightarrow> rx_run A s fs ls s1 \<Longrightarrow> set cs \<subseteq> A \<Longrightarrow>
   rx_run A s (fs @ concat (map call_frames cs)) (ls + calls_lost cs s1) s'"
proof (induction cs arbitrary: fs ls s1)
  case (Cons c cs)
  then obtain s2 where s2: "call_pre c s1" "do_call c s1 = Some s2" "run_calls cs s2 = Some s'"
    by (auto split: if_splits option.splits)
  then have "rx_run A s (fs @ call_frames c) (ls + call_lost c s1) s2" using Cons.prems by (auto intro: rx_run.call)
  then show ?case using Cons.IH [OF s2(3)] Cons.prems s2 by (fastforce simp: add.assoc)
qed simp

lemma run_calls_run:
  "run_calls cs s = Some s' \<Longrightarrow> set cs \<subseteq> A \<Longrightarrow> rx_run A s (concat (map call_frames cs)) (calls_lost cs s) s'"
  using run_calls_append [OF _ rx_run.start] by fastforce

section \<open>Replay protection\<close>

text \<open>C20. For a peer whose keys have 48-bit packet numbers that the host checks, in every run of calls on
  any peers and TIDs between two installations of keys (stored MPDUs, releases, flushes, block-ack
  set-up and tear-down, removal of peers), the packet numbers of the encrypted MPDUs of a TID that are
  handed to the stack grow strictly, from above the last number accepted before the run.  Fragments,
  which do not pass through this check, are not among the calls.\<close>
theorem rx_replay_safe:
  assumes "rx_wf s" "pn_config p s" "rx_opt_proc (peers s p) \<in> {Rx_pn_check, Rx_pn_check_only, Rx_discard}"
    and "rx_log s = []" "rx_run host_checked s fs ls s'"
  shows "sorted_wrt (<) (delivered_pns p tid s') \<and>
    (\<forall>x \<in> set (delivered_pns p tid s'). \<forall>y. last_pn p tid s = Some y \<longrightarrow> y < x)"
proof -
  have "pn_inv (last_pn p tid s) p tid s" using assms by (simp add: pn_inv_def delivered_pns_def)
  then have "pn_inv (last_pn p tid s) p tid s'" by (rule run_inv [OF assms(5,1)])
  then show ?thesis by (auto simp: pn_inv_def after_def)
qed


definition rxd_array :: "rx_elem list" where
  "rxd_array = [rxd_slot [rxd_frame 0 0 5], rxd_slot [rxd_frame 1 1 6], rxd_slot [rxd_frame 2 2 6], null_elem]"

lemma rxd_array_simps [simp]:
  "length rxd_array = 4" "list_all elem_ok rxd_array"
  "elem_chain (rxd_array ! 0) = [rxd_frame 0 0 5]" "elem_chain (rxd_array ! 1) = [rxd_frame 1 1 6]"
  "elem_chain (rxd_array ! 2) = [rxd_frame 2 2 6]" "elem_chain (rxd_array ! 3) = []"
  "rx_wf (rxd_state opt rxd_array)"
  using rxd_wf [of rxd_array opt] by (simp_all add: rxd_array_def rxd_slot_def elem_ok_def upto_tail_def)

theorem rx_replay_safe_witness:
  "\<exists>ls s'. rx_run host_checked (rxd_state Rx_pn_check_only rxd_array) [] ls s' \<and>
     delivered_pns 0 0 s' = [5, 6] \<and> sorted_wrt (<) (delivered_pns 0 0 s')"
proof -
  let ?s = "rxd_state Rx_pn_check_only rxd_array" and ?c = "Release 0 0 0 3"
  have "map_option (delivered_pns 0 0) (do_call ?c ?s) = Some [5, 6]" by code_simp
  then obtain s' where s': "do_call ?c ?s = Some s'" "delivered_pns 0 0 s' = [5, 6]" by auto
  have "call_pre ?c ?s" by simp
  then have "run_calls [?c] ?s = Some s'" using s'(1) by simp
  then have r: "rx_run host_checked ?s [] (calls_lost [?c] ?s) s'"
    using run_calls_run [of "[?c]" ?s s' host_checked] by (simp add: host_checked_def)
  have "pn_config 0 ?s" by (simp add: pn_config_def rxd_state_def Let_def rx_pn_def)
  moreover have "rx_opt_proc (peers ?s 0) \<in> {Rx_pn_check, Rx_pn_check_only, Rx_discard}" by (simp add: rxd_state_def)
  ultimately have "sorted_wrt (<) (delivered_pns 0 0 s')" using rx_replay_safe [OF _ _ _ _ r, of 0 0] by simp
  then show ?thesis using r s'(2) by blast
qed

section \<open>Runs of calls\<close>

text \<open>C21. In every run of calls from a well-formed state, every reorder array keeps a power of
  two of slots that fits its mask and every slot a tail that is the end of its chain; and every
  call returns in the state reached: its loop over the window ends.  The only condition on the calls
  is that an agreement is for at most 64 MPDUs.\<close>
theorem rx_run_type:
  assumes "rx_wf s" "rx_run A s fs ls s'"
  shows "rx_wf s' \<and> (\<forall>c. call_pre c s' \<longrightarrow> (\<exists>s2. do_call c s' = Some s2))"
proof -
  have "rx_wf s'" using run_wf [OF assms(2,1)] .
  then show ?thesis using calls.contract by blast
qed

theorem rx_run_type_witness:
  "\<exists>s2. do_call (Release 0 0 1 0) (the (do_call (Mpdu 0 0 [rxd_frame 1 1 6]) (rxd_state Rx_deliver (replicate 4 null_elem)))) = Some s2"
proof -
  let ?s = "rxd_state Rx_deliver (replicate 4 null_elem)" and ?c = "Mpdu 0 0 [rxd_frame 1 1 6]"
  have "do_call ?c ?s = Some (the (do_call ?c ?s))" by simp
  then have "run_calls [?c] ?s = Some (the (do_call ?c ?s))" by simp
  then have "rx_run UNIV ?s (concat (map call_frames [?c])) (calls_lost [?c] ?s) (the (do_call ?c ?s))" by (rule run_calls_run) simp
  moreover have "rx_wf ?s" by (rule rxd_wf) (simp_all add: list_all_iff)
  moreover have "call_pre (Release 0 0 1 0) (the (do_call ?c ?s))" by code_simp
  ultimately show ?thesis using rx_run_type [of ?s UNIV] by blast
qed

lemma regroup: "x + l = y + f \<Longrightarrow> x + (g + l) = y + g + (f :: 'a multiset)"
proof -
  assume a: "x + l = y + f"
  have "x + (g + l) = x + l + g" by (simp add: ac_simps)
  then show ?thesis unfolding a by (simp add: ac_simps)
qed

text \<open>C22. Every frame is accounted for: over every run of calls on the peers and TIDs of a finite set, the
  frames held in the reorder arrays together with those that were handed to the stack or freed and those
  that a call dropped are exactly the frames that were there before and those that came in, each once.
  A call drops frames in two cases only: a release whose window starts with an empty slot drops the
  frames of the window, and setting up or tearing down an agreement drops what the old array held.\<close>
theorem rx_frames_conserved:
  assumes "rx_wf s" "finite D" "rx_run {c. call_target c \<subseteq> D} s fs ls s'"
  shows "all_frames D s' + ls = all_frames D s + mset fs \<and>
    (\<forall>c t. call_lost c t \<noteq> {#} \<longrightarrow>
       (\<exists>p tid a b. c = Release p tid a b \<and> elem_chain (slots t p tid ! (a mod length (slots t p tid))) = [] \<and>
          call_lost c t = mset (concat (map (\<lambda>i. elem_chain (slots t p tid ! i)) (release_window (length (slots t p tid)) a b)))) \<or>
       (\<exists>p tid. ((\<exists>mem w failed. c = Addba mem p tid w failed) \<or> c = Delba p tid) \<and> call_lost c t = chains (slots t p tid)))"
proof
  show "all_frames D s' + ls = all_frames D s + mset fs" using assms(3,1)
  proof (induction rule: rx_run.induct)
    case (call s fs ls s1 c s2)
    have "all_frames D s2 + call_lost c s1 = all_frames D s1 + mset (call_frames c)"
      using calls.outcome(2) [OF run_wf [OF call.hyps(1) call.prems] call.hyps(3,4) assms(2)] call.hyps(2) by simp
    then have "all_frames D s2 + (ls + call_lost c s1) = all_frames D s1 + ls + mset (call_frames c)" by (rule regroup)
    then show ?case using call.IH [OF call.prems] by (simp add: add.assoc)
  qed simp
  show "\<forall>c t. call_lost c t \<noteq> {#} \<longrightarrow>
       (\<exists>p tid a b. c = Release p tid a b \<and> elem_chain (slots t p tid ! (a mod length (slots t p tid))) = [] \<and>
          call_lost c t = mset (concat (map (\<lambda>i. elem_chain (slots t p tid ! i)) (release_window (length (slots t p tid)) a b)))) \<or>
       (\<exists>p tid. ((\<exists>mem w failed. c = Addba mem p tid w failed) \<or> c = Delba p tid) \<and> call_lost c t = chains (slots t p tid))"
  proof (intro allI impI)
    fix c t
    assume "call_lost c t \<noteq> {#}"
    then show "(\<exists>p tid a b. c = Release p tid a b \<and> elem_chain (slots t p tid ! (a mod length (slots t p tid))) = [] \<and>
          call_lost c t = mset (concat (map (\<lambda>i. elem_chain (slots t p tid ! i)) (release_window (length (slots t p tid)) a b)))) \<or>
       (\<exists>p tid. ((\<exists>mem w failed. c = Addba mem p tid w failed) \<or> c = Delba p tid) \<and> call_lost c t = chains (slots t p tid))"
      by (cases c) (auto simp: release_lost_def split: if_splits)
  qed
qed

lemma runs_exist: "rx_wf s \<Longrightarrow> list_all (\<lambda>c. \<forall>t. call_pre c t) cs \<Longrightarrow> \<exists>s'. run_calls cs s = Some s'"
proof (induction cs arbitrary: s)
  case (Cons c cs)
  then obtain t where "do_call c s = Some t" "rx_wf t" using calls.contract [of s c] by auto
  then show ?case using Cons by simp
qed simp

theorem rx_frames_conserved_witness:
  "\<exists>s'. run_calls [Release 0 0 3 1, Mpdu 0 0 [rxd_frame 1 1 6], Flush 0 0 0 0 htt_rx_flush_release]
      (rxd_state Rx_pn_check_only rxd_array) = Some s' \<and>
     all_frames {(0, 0)} s' + mset [rxd_frame 0 0 5] =
       mset [rxd_frame 0 0 5, rxd_frame 1 1 6, rxd_frame 1 1 6, rxd_frame 2 2 6]"
proof -
  let ?s = "rxd_state Rx_pn_check_only rxd_array"
    and ?cs = "[Release 0 0 3 1, Mpdu 0 0 [rxd_frame 1 1 6], Flush 0 0 0 0 htt_rx_flush_release]"
  have wf: "rx_wf ?s" by simp
  have "list_all (\<lambda>c. \<forall>t. call_pre c t) ?cs" unfolding list.pred_inject by (intro conjI allI TrueI) simp_all
  then obtain s' where s': "run_calls ?cs ?s = Some s'" using runs_exist [OF wf] by blast
  have "release_window 4 3 1 = [3, 0]" by code_simp
  then have "calls_lost ?cs ?s = mset [rxd_frame 0 0 5]" by (simp add: release_lost_def)
  then have r: "rx_run {c. call_target c \<subseteq> {(0, 0)}} ?s [rxd_frame 1 1 6] (mset [rxd_frame 0 0 5]) s'"
    using run_calls_run [OF s', of "{c. call_target c \<subseteq> {(0, 0)}}"] by simp
  have "all_frames {(0, 0)} ?s = mset [rxd_frame 0 0 5, rxd_frame 1 1 6, rxd_frame 2 2 6]"
    by (simp add: all_frames_def logged_def chains_def rxd_array_def rxd_slot_def)
  then show ?thesis using rx_frames_conserved [OF wf _ r] s' by simp
qed

section \<open>Releasing and removing\<close>

lemma clear_at: "i < length a \<Longrightarrow> clear_slots is a ! i = (if i \<in> set is then null_elem else a ! i)"
  by (induction "is" arbitrary: a) (auto simp: clear_slots_def)

lemma clear_full_at:
  "i < length a \<Longrightarrow> clear_full_slots is a ! i = (if i \<in> set is \<and> elem_chain (a ! i) \<noteq> [] then null_elem else a ! i)"
proof (induction "is" arbitrary: a)
  case (Cons j js)
  have "clear_full_slots (j # js) a = clear_full_slots js (if elem_chain (a ! j) \<noteq> [] then a[j := null_elem] else a)"
    by (simp add: clear_full_slots_def)
  then show ?case using Cons by (cases "i = j") auto
qed (simp add: clear_full_slots_def)

text \<open>A release whose window starts with a frame empties exactly the slots of the window, from
  the start index round the ring to before the end index, and hands their frames to the stack
  as one list in ring order.\<close>
theorem rx_release_in_order:
  assumes "rx_wf s" "rx_opt_proc (peers s p) = Rx_deliver"
    and "elem_chain (slots s p tid ! (a mod length (slots s p tid))) \<noteq> []"
  shows "\<exists>s'. ol_rx_reorder_release p tid a b s = Some s' \<and>
    rx_log s' = rx_log s @ [Deliver p tid (concat (map (\<lambda>i. elem_chain (slots s p tid ! i))
      (release_window (length (slots s p tid)) a b)))] \<and>
    (\<forall>i < length (slots s p tid). slots s' p tid ! i =
      (if i \<in> set (release_window (length (slots s p tid)) a b) then null_elem else slots s p tid ! i))"
proof -
  have slot: "slots (set_last_seq p tid out t) = slots t" for out t by (simp add: slots_def fun_eq_iff)
  have opt: "rx_opt_proc (peers (set_last_seq p tid out (set_slots p tid c (upd_peer p (\<lambda>x. x\<lparr>tids_next_rel_idx := g x\<rparr>) s))) p) =
      rx_opt_proc (peers s p)" for out c g
    by (simp add: set_last_seq_def set_slots_def upd_reorder_def upd_peer_def)
  show ?thesis
    using assms by (simp add: release_spec Let_def call_rx_opt_proc_def opt slot clear_at)
qed

theorem rx_release_in_order_witness:
  "\<exists>s'. ol_rx_reorder_release 0 0 1 3 (rxd_state Rx_deliver rxd_array) = Some s' \<and>
     rx_log s' = [Deliver 0 0 [rxd_frame 1 1 6, rxd_frame 2 2 6]]"
proof -
  have "rx_opt_proc (peers (rxd_state Rx_deliver rxd_array) 0) = Rx_deliver" by (simp add: rxd_state_def)
  moreover have "release_window 4 1 3 = [1, 2]" by code_simp
  ultimately show ?thesis
    using rx_release_in_order [of "rxd_state Rx_deliver rxd_array" 0 0 1 3] by (simp del: One_nat_def) blast
qed

text \<open>A release whose window starts with an empty slot loses frames: it clears every slot of the
  window without handing a frame to the stack or freeing one, whatever the other slots hold,
  because the list of released frames is only appended to and its head is never set.\<close>
theorem rx_release_loses_window:
  assumes "rx_wf s" "elem_chain (slots s p tid ! (a mod length (slots s p tid))) = []"
  shows "\<exists>s'. ol_rx_reorder_release p tid a b s = Some s' \<and> rx_log s' = rx_log s \<and>
    (\<forall>i \<in> set (release_window (length (slots s p tid)) a b). slots s' p tid ! i = null_elem)"
proof -
  have "0 < length (slots s p tid)" using window_mod(2) [OF wf_D(1) [OF assms(1)]] .
  then have "\<forall>i \<in> set (release_window (length (slots s p tid)) a b). i < length (slots s p tid)"
    using window_distinct [of "length (slots s p tid)" a b] by auto
  then show ?thesis using assms by (simp add: release_spec Let_def clear_at)
qed

theorem rx_release_loses_window_witness:
  "\<exists>s'. ol_rx_reorder_release 0 0 3 2 (rxd_state Rx_deliver rxd_array) = Some s' \<and> rx_log s' = [] \<and>
     slots s' 0 0 ! 0 = null_elem \<and> elem_chain (slots (rxd_state Rx_deliver rxd_array) 0 0 ! 0) = [rxd_frame 0 0 5]"
proof -
  have "release_window 4 3 2 = [3, 0, 1]" by code_simp
  then show ?thesis
    using rx_release_loses_window [of "rxd_state Rx_deliver rxd_array" 0 0 3 2] by (simp del: One_nat_def) blast
qed

text \<open>What a flush that discards does to the array and the log.\<close>

lemma flush_discard:
  assumes "rx_wf s"
  obtains s' fs where "ol_rx_reorder_flush p tid 0 0 htt_rx_flush_discard s = Some s'" "rx_wf s'" "empty_slots s' p tid"
    "\<And>q t. (q, t) \<noteq> (p, tid) \<Longrightarrow> slots s' q t = slots s q t"
    "rx_log s' = rx_log s @ (if fs = [] then [] else [Freed fs])" "mset fs = chains (slots s p tid)"
proof -
  let ?arr = "slots s p tid" and ?n = "length (slots s p tid)"
  let ?win = "flush_window ?n 0 0"
  let ?fs = "concat (map (\<lambda>i. elem_chain (?arr ! i)) ?win)"
  have n: "0 < ?n" using window_mod(2) [OF wf_D(1) [OF assms]] .
  then have all: "set ?win = {..<?n}" using ring_all by (simp add: flush_window_def turn_whole)
  obtain s' where run: "ol_rx_reorder_flush p tid 0 0 htt_rx_flush_discard s = Some s'" and wf: "rx_wf s'"
    using flush_contract [OF assms] by blast
  have "(if fs = [] then t else emit (Freed fs) (set_last_seq p tid fs t)) = s' \<longrightarrow>
      slots s' = slots t \<and> rx_log s' = rx_log t @ (if fs = [] then [] else [Freed fs])" for fs t
    by (auto simp: slots_def fun_eq_iff)
  then have s': "slots s' = slots (set_slots p tid (clear_full_slots ?win ?arr) s)"
    "rx_log s' = rx_log s @ (if ?fs = [] then [] else [Freed ?fs])"
    using run unfolding flush_spec [OF assms] Let_def by (auto simp: slots_def fun_eq_iff)
  have "mset ?fs + chains (clear_full_slots ?win ?arr) = chains ?arr"
    using chains_clear(2) [of ?win ?arr] window_distinct [OF n, of 0 0] unfolding windows_eq [OF n] by blast
  moreover have empty: "list_all (\<lambda>e. elem_chain e = []) (clear_full_slots ?win ?arr)"
    using all by (auto simp: list_all_length clear_full_at)
  ultimately have "mset ?fs = chains ?arr" by (simp add: empty_chains)
  then show thesis using that [OF run wf _ _ s'(2)] empty s'(1) by (auto simp: empty_slots_def)
qed

text \<open>C23. Removing a peer returns, frees every frame that any of its TIDs holds and nothing else,
  leaves the slots of all its TIDs empty, and does not touch the arrays of other peers.\<close>
theorem rx_cleanup_empties:
  assumes "rx_wf s"
  shows "\<exists>s' fss. ol_rx_peer_cleanup p s = Some s' \<and> (\<forall>tid < OL_TXRX_NUM_EXT_TIDS. empty_slots s' p tid) \<and>
    (\<forall>q tid. q \<noteq> p \<longrightarrow> slots s' q tid = slots s q tid) \<and> rx_log s' = rx_log s @ map Freed fss \<and>
    mset (concat fss) = (\<Sum>tid < OL_TXRX_NUM_EXT_TIDS. chains (slots s p tid))"
proof -
  have "distinct tids \<Longrightarrow> rx_wf s \<Longrightarrow> \<exists>s' fss. cleanup_tids p tids s = Some s' \<and> (\<forall>tid \<in> set tids. empty_slots s' p tid) \<and>
      (\<forall>q tid. q \<noteq> p \<or> tid \<notin> set tids \<longrightarrow> slots s' q tid = slots s q tid) \<and> rx_log s' = rx_log s @ map Freed fss \<and>
      mset (concat fss) = (\<Sum>tid \<in> set tids. chains (slots s p tid))" for tids s
  proof (induction tids arbitrary: s)
    case (Cons tid tids)
    obtain s1 fs where s1: "ol_rx_reorder_flush p tid 0 0 htt_rx_flush_discard s = Some s1" "rx_wf s1" "empty_slots s1 p tid"
      "\<And>q t. (q, t) \<noteq> (p, tid) \<Longrightarrow> slots s1 q t = slots s q t"
      "rx_log s1 = rx_log s @ (if fs = [] then [] else [Freed fs])" "mset fs = chains (slots s p tid)"
      using flush_discard [OF Cons.prems(2), of p tid] by metis
    obtain s' fss where s': "cleanup_tids p tids s1 = Some s'" "\<forall>t \<in> set tids. empty_slots s' p t"
      "\<forall>q t. q \<noteq> p \<or> t \<notin> set tids \<longrightarrow> slots s' q t = slots s1 q t" "rx_log s' = rx_log s1 @ map Freed fss"
      "mset (concat fss) = (\<Sum>t \<in> set tids. chains (slots s1 p t))"
      using Cons.IH [OF _ s1(2)] Cons.prems(1) by auto
    have "slots s1 p t = slots s p t" if "t \<in> set tids" for t
      using that Cons.prems(1) by (intro s1(4)) auto
    then have "(\<Sum>t \<in> set tids. chains (slots s1 p t)) = (\<Sum>t \<in> set tids. chains (slots s p t))"
      by (intro sum.cong) auto
    moreover have "empty_slots s' p tid" using s1(3) s'(3) Cons.prems(1) by (simp add: empty_slots_def)
    moreover have "cleanup_tids p (tid # tids) s = Some s'" using s1(1) s'(1) by simp
    moreover have "rx_log s' = rx_log s @ map Freed ((if fs = [] then [] else [fs]) @ fss)" using s1(5) s'(4) by simp
    moreover have "slots s' q t = slots s q t" if "q \<noteq> p \<or> t \<notin> set (tid # tids)" for q t
      using that s1(4) [of q t] s'(3) by auto
    moreover have "mset (concat ((if fs = [] then [] else [fs]) @ fss)) = mset fs + mset (concat fss)" by simp
    ultimately show ?case
      using s1(6) s'(2,5) Cons.prems(1)
      by (intro exI [of _ s'] exI [of _ "(if fs = [] then [] else [fs]) @ fss"] conjI) simp_all
  qed simp
  from this [of "[0..<OL_TXRX_NUM_EXT_TIDS]", OF distinct_upt assms] show ?thesis
    unfolding ol_rx_peer_cleanup_def ol_rx_reorder_peer_cleanup_def set_upt atLeast0LessThan lessThan_iff Ball_def
    by blast
qed

theorem rx_cleanup_empties_witness:
  "\<exists>s'. ol_rx_peer_cleanup 0 (rxd_state Rx_deliver rxd_array) = Some s' \<and> empty_slots s' 0 7"
proof -
  have "(7 :: nat) < OL_TXRX_NUM_EXT_TIDS" by (simp add: OL_TXRX_NUM_EXT_TIDS_def)
  then show ?thesis using rx_cleanup_empties [of "rxd_state Rx_deliver rxd_array" 0] by fastforce
qed

section \<open>Duplicates\<close>

lemma uint_ucast_16: "uint (ucast (y :: u16) :: u32) = uint y"
  using uint_lt2p [of y] by (simp add: unsigned_ucast_eq take_bit_int_eq_self)

lemma delta_mod:
  fixes x :: u32 and y :: u16
  shows "uint ((x - 1 - ucast y) AND (IEEE80211_SEQ_MAX - 1)) = (uint x - 1 - uint y) mod 4096"
proof -
  have "uint ((x - 1 - ucast y) AND mask 12) = uint (x - 1 - ucast y) mod 4096"
    unfolding take_bit_eq_mask [symmetric] by (simp add: unsigned_take_bit_eq take_bit_int_def)
  also have "uint (x - 1 - ucast y) mod 4096 = ((uint x - 1 - uint y) mod 2 ^ 32) mod 4096"
    by (simp add: uint_word_ariths mod_simps uint_ucast_16)
  also have "\<dots> = (uint x - 1 - uint y) mod 4096" by (rule mod_mod_cancel) simp
  finally show ?thesis by (simp add: IEEE80211_SEQ_MAX_def mask_eq_exp_minus_1)
qed

lemma pred_mod_le: "((d :: int) - 1) mod 4096 \<le> 2048 \<longleftrightarrow> d mod 4096 \<in> {1..2049}"
proof -
  have "(d - 1) mod 4096 = (d mod 4096 - 1) mod 4096" by (simp add: mod_diff_left_eq)
  moreover have "0 \<le> d mod 4096" "d mod 4096 < 4096" by simp_all
  ultimately show ?thesis by (cases "d mod 4096 = 0") (simp, simp, linarith)
qed

text \<open>C24. The check for duplicates of a TID without a block-ack agreement lets a frame pass if
  nothing was received before (the last number is 4096), and otherwise exactly if its sequence
  number is 1 to 2049 ahead of the last one, modulo 4096: the distance is taken over the
  wrap-around of the numbers, and one more than half the number space counts as ahead.\<close>
theorem rx_seq_check_spec:
  "ol_rx_reorder_seq_num_check last_seq seq_num \<longleftrightarrow>
     last_seq = 4096 \<or> (uint seq_num - uint last_seq) mod 4096 \<in> {1..2049}"
proof -
  let ?d = "uint seq_num - uint last_seq"
  have "(ucast last_seq = IEEE80211_SEQ_MAX) = (last_seq = 4096)"
    by (simp add: IEEE80211_SEQ_MAX_def word_uint_eq_iff uint_ucast_16)
  moreover have "(\<not> x > drop_bit 1 IEEE80211_SEQ_MAX) = (uint x \<le> 2048)" for x :: u32
    by (simp add: IEEE80211_SEQ_MAX_def word_less_alt not_less)
  moreover have "uint seq_num - 1 - uint last_seq = ?d - 1" by simp
  ultimately show ?thesis
    unfolding ol_rx_reorder_seq_num_check_def Let_def by (simp only: delta_mod pred_mod_le) simp
qed

section \<open>Fragments\<close>

text \<open>The fragments of a frame that arrive in order, in an empty slot of a TID whose wait list is
  not used, are handed to the defragmentation once, complete and in order, and the slot is empty
  again.\<close>
theorem rx_frag_in_order:
  assumes "rx_wf s" "fragments_of_frame fs" "\<not> defrag_timeout_check s"
    and "slots s p tid ! (sn AND mask_of s p tid) = null_elem"
  shows "rx_log (fold (ol_rx_reorder_store_frag now p tid sn) fs s) = rx_log s @ [Defrag p tid fs] \<and>
    slots (fold (ol_rx_reorder_store_frag now p tid sn) fs s) p tid = slots s p tid"
proof -
  let ?st = "ol_rx_reorder_store_frag now p tid sn" and ?seq = "sn AND mask_of s p tid"
  have seq: "?seq < length (slots s p tid)" using window_mod(1,2) [OF wf_D(1) [OF assms(1), of p tid]] by simp
  have same: "(slots s p tid)[?seq := null_elem] = slots s p tid" using list_update_id [of _ ?seq] assms(4) by metis
  have "k < length fs \<Longrightarrow> frag_state p tid ?seq fs k s (fold ?st (take k fs) s)" for k
  proof (induction k)
    case 0
    then show ?case using assms(3) same by (simp add: frag_state_def frags_slot_def)
  next
    case (Suc k)
    then show ?case
      using store_in_order [OF assms(2) _ Suc.IH seq] by (simp add: take_Suc_conv_app_nth)
  qed
  moreover obtain k where k: "length fs = Suc k" using assms(2) by (cases fs) (auto simp: fragments_of_frame_def)
  ultimately have "frag_state p tid ?seq fs k s (fold ?st (take k fs) s)" by simp
  then have "rx_log (?st (fs ! k) (fold ?st (take k fs) s)) = rx_log s @ [Defrag p tid fs] \<and>
      slots (?st (fs ! k) (fold ?st (take k fs) s)) p tid = (slots s p tid)[?seq := null_elem]"
    using store_in_order [OF assms(2) _ _ seq, of k] k by simp
  moreover have "fold ?st fs s = ?st (fs ! k) (fold ?st (take k fs) s)"
    using take_Suc_conv_app_nth [of k fs] k by (metis fold_append fold_simps(1,2) comp_apply lessI order_refl take_all)
  ultimately show ?thesis using same by simp
qed

theorem rx_frag_in_order_witness:
  "rx_log (fold (ol_rx_reorder_store_frag 0 0 0 0) [rxd_frag 0 True, rxd_frag 1 True, rxd_frag 2 False]
     (rxd_state Rx_deliver (replicate 4 null_elem))) = [Defrag 0 0 [rxd_frag 0 True, rxd_frag 1 True, rxd_frag 2 False]]"
proof -
  have "fragments_of_frame [rxd_frag 0 True, rxd_frag 1 True, rxd_frag 2 False]"
    by (simp add: fragments_of_frame_def All_less_Suc numeral_3_eq_3 rxd_frag_def rxd_frame_def fragno_def rxseq_def
        IEEE80211_SEQ_FRAG_MASK_def IEEE80211_SEQ_SEQ_SHIFT_def)
  moreover have "rx_wf (rxd_state Rx_deliver (replicate 4 null_elem))" by (rule rxd_wf) (simp_all add: list_all_iff)
  moreover have "\<not> defrag_timeout_check (rxd_state Rx_deliver (replicate 4 null_elem))" by (simp add: rxd_state_def)
  ultimately show ?thesis
    using rx_frag_in_order [of "rxd_state Rx_deliver (replicate 4 null_elem)"
        "[rxd_frag 0 True, rxd_frag 1 True, rxd_frag 2 False]" 0 0 0 0] by simp
qed

text \<open>The check that all fragments are present does not look at the first one: a slot that
  holds only a later, last fragment is reported complete as soon as fragment 1 arrives, which is
  inserted behind it, although fragment 0 and, if that is not fragment 2, others are missing or
  out of order.\<close>
theorem rx_frag_incomplete_accepted:
  assumes "2 \<le> fragno c" "\<not> i_more_frag c" "fragno f = 1"
  shows "ol_rx_fraglist_insert \<lparr>elem_chain = [c], elem_tail = 0\<rparr> f = (\<lparr>elem_chain = [c, f], elem_tail = 0\<rparr>, True, None)"
  using assms by (auto simp: ol_rx_fraglist_insert_def Let_def)

theorem rx_frag_incomplete_accepted_witness:
  "ol_rx_fraglist_insert \<lparr>elem_chain = [rxd_frag 5 False], elem_tail = 0\<rparr> (rxd_frag 1 True) =
     (\<lparr>elem_chain = [rxd_frag 5 False, rxd_frag 1 True], elem_tail = 0\<rparr>, True, None)"
  by (rule rx_frag_incomplete_accepted)
    (simp_all add: fragno_def rxd_frag_def rxd_frame_def IEEE80211_SEQ_FRAG_MASK_def)

lemma waitlist_frame:
  "waitlist (upd_peer p f s) = waitlist s" "waitlist (set_slots p tid a s) = waitlist s"
  "waitlist (set_last_seq p tid out s) = waitlist s" "waitlist (emit ev s) = waitlist s"
  by (simp_all add: upd_peer_def set_slots_def upd_reorder_def set_last_seq_def emit_def)

lemma flush_waitlist:
  assumes "rx_wf s" "ol_rx_reorder_flush p tid a b action s = Some s'"
  shows "waitlist s' = waitlist (ol_rx_defrag_waitlist_remove p tid s)"
proof -
  define win where "win = flush_window (length (slots s p tid)) a (if b = 0xffff then a else b)"
  define out where "out = concat (map (\<lambda>i. elem_chain (slots s p tid ! i)) win)"
  define c where "c = clear_full_slots win (slots s p tid)"
  define s1 where "s1 = upd_peer p (\<lambda>x. x\<lparr>tids_next_rel_idx := (tids_next_rel_idx x)(tid := if b = 0xffff then 0 else of_nat b)\<rparr>) s"
  have s': "s' = (let s2 = ol_rx_defrag_waitlist_remove p tid (set_slots p tid c s1)
      in if out = [] then s2 else if action = htt_rx_flush_release
         then call_rx_opt_proc p tid out (set_last_seq p tid out s2) else emit (Freed out) (set_last_seq p tid out s2))"
    using assms(2) unfolding flush_spec [OF assms(1)] Let_def win_def [symmetric] out_def [symmetric] c_def [symmetric]
      s1_def [symmetric] by simp
  have "waitlist s1 = waitlist s" by (simp add: s1_def waitlist_frame)
  then have "waitlist (set_slots p tid c s1) = waitlist s" by (simp add: waitlist_frame)
  then have "waitlist (ol_rx_defrag_waitlist_remove p tid (set_slots p tid c s1)) =
      waitlist (ol_rx_defrag_waitlist_remove p tid s)"
    by (simp add: ol_rx_defrag_waitlist_remove_def)
  then show ?thesis unfolding s' Let_def by (simp add: waitlist_frame call_rx_opt_proc_frames)
qed

lemma remove_keeps_last: "\<exists>ws'. waitlist (ol_rx_defrag_waitlist_remove p t (s\<lparr>waitlist := ws @ [x]\<rparr>)) = ws' @ [x]"
  by (auto simp: ol_rx_defrag_waitlist_remove_def tqe_next_null_def remove1_append)

lemma cleanup_keeps_last:
  "rx_wf s \<Longrightarrow> cleanup_tids p tids s = Some s' \<Longrightarrow> waitlist s = ws @ [x] \<Longrightarrow> \<exists>ws'. waitlist s' = ws' @ [x]"
proof (induction tids arbitrary: s ws)
  case (Cons t tids)
  obtain s1 where s1: "ol_rx_reorder_flush p t 0 0 htt_rx_flush_discard s = Some s1" "rx_wf s1"
    using flush_contract [OF Cons.prems(1)] by blast
  have "s\<lparr>waitlist := ws @ [x]\<rparr> = s" using Cons.prems(3) by (cases s) simp
  then obtain ws1 where "waitlist s1 = ws1 @ [x]"
    using remove_keeps_last [of p t ws x s] flush_waitlist [OF Cons.prems(1) s1(1)] by auto
  then show ?case using Cons.IH [OF s1(2)] Cons.prems(2) s1(1) by simp
qed simp

text \<open>The TID that was added to the wait list last can not be removed from it, because membership
  is judged by the forward pointer, which is null at the end of the list: after the removal of
  its peer the list still points into that peer.\<close>
theorem rx_waitlist_dangling:
  assumes "rx_wf s" "waitlist s = ws @ [(p, tid)]"
  shows "\<exists>s'. ol_rx_peer_cleanup p s = Some s' \<and> (p, tid) \<in> set (waitlist s')"
proof -
  obtain s' where s': "cleanup_tids p [0..<OL_TXRX_NUM_EXT_TIDS] s = Some s'" using cleanup_contract [OF assms(1)] by blast
  then have "(p, tid) \<in> set (waitlist s')" using cleanup_keeps_last [OF assms(1) s' assms(2)] by auto
  then show ?thesis using s' by (simp add: ol_rx_peer_cleanup_def ol_rx_reorder_peer_cleanup_def)
qed

theorem rx_waitlist_dangling_witness:
  "\<exists>s'. ol_rx_peer_cleanup 0 ((rxd_state Rx_deliver rxd_array)\<lparr>waitlist := [(0, 3)]\<rparr>) = Some s' \<and> (0, 3) \<in> set (waitlist s')"
proof (rule rx_waitlist_dangling)
  have "reorder_of (s\<lparr>waitlist := ws\<rparr>) = reorder_of s" for s ws by (simp add: reorder_of_def fun_eq_iff)
  then show "rx_wf ((rxd_state Rx_deliver rxd_array)\<lparr>waitlist := [(0, 3)]\<rparr>)" using wf_cong rxd_array_simps by blast
qed simp

end
