(* ===== verification/Pm_Conn.thy ===== *)
theory Pm_Conn
  imports Qdf_Prelude
begin

text \<open>
  The connection table of the policy manager, \<^verbatim>\<open>src/components/cmn_services/policy_mgr\<close>:
  the operations on \<^verbatim>\<open>pm_conc_connection_list\<close> of \<^verbatim>\<open>wlan_policy_mgr_core.c\<close> and
  \<^verbatim>\<open>wlan_policy_mgr_get_set_utils.c\<close>, for a build with 6 GHz support.  The table is a list; its
  length is \<^verbatim>\<open>MAX_NUMBER_OF_CONC_CONNECTIONS\<close>, which is 3, or 4 in a build with
  \<^verbatim>\<open>FEATURE_FOURTH_CONNECTION\<close>.  Every function runs under the recursive lock of the list or is
  called with it held, and is one step.  The context that the functions get from the object
  manager is the state, so there is no branch for a missing one.  Calls through the registered
  callbacks are events in \<open>pm_log\<close>, the latest last.
\<close>

unbundle bit_operations_syntax

section \<open>Data\<close>

datatype policy_mgr_con_mode =
    PM_STA_MODE | PM_SAP_MODE | PM_P2P_CLIENT_MODE | PM_P2P_GO_MODE | PM_NDI_MODE | PM_NAN_DISC_MODE
  | PM_MAX_NUM_OF_MODE

text \<open>The modes of the object manager that the policy manager distinguishes.\<close>

datatype QDF_OPMODE =
    QDF_STA_MODE | QDF_SAP_MODE | QDF_P2P_CLIENT_MODE | QDF_P2P_GO_MODE | QDF_MONITOR_MODE
  | QDF_NDI_MODE | QDF_NAN_DISC_MODE | QDF_OTHER_MODE nat

datatype hw_mode_bandwidth =
    HW_MODE_BW_NONE | HW_MODE_5_MHZ | HW_MODE_10_MHZ | HW_MODE_20_MHZ | HW_MODE_40_MHZ | HW_MODE_80_MHZ
  | HW_MODE_80_PLUS_80_MHZ | HW_MODE_160_MHZ | HW_MODE_320_MHZ | HW_MODE_MAX_BANDWIDTH

datatype policy_mgr_chain_mode = POLICY_MGR_ONE_ONE | POLICY_MGR_TWO_TWO

datatype phy_ch_width =
    CH_WIDTH_20MHZ | CH_WIDTH_40MHZ | CH_WIDTH_80MHZ | CH_WIDTH_160MHZ | CH_WIDTH_80P80MHZ | CH_WIDTH_5MHZ
  | CH_WIDTH_10MHZ | CH_WIDTH_INVALID

datatype wmi_vdev_type = WMI_VDEV_TYPE_AP | WMI_VDEV_TYPE_STA | WMI_VDEV_TYPE_NAN | WMI_VDEV_TYPE_NDI | Other_type
datatype wmi_vdev_subtype =
  Subtype_0 | WMI_UNIFIED_VDEV_SUBTYPE_P2P_GO | WMI_UNIFIED_VDEV_SUBTYPE_P2P_CLIENT | Other_subtype

record policy_mgr_conc_connection_info =
  c_mode :: policy_mgr_con_mode
  c_freq :: u32
  c_bw :: hw_mode_bandwidth
  c_mac :: u8
  c_chain_mask :: policy_mgr_chain_mode
  c_original_nss :: u32
  c_vdev_id :: u32
  c_in_use :: bool
  c_ch_flagext :: u16
  c_6ghz_flag :: u32

definition zero_conn :: policy_mgr_conc_connection_info where
  "zero_conn = \<lparr>c_mode = PM_STA_MODE, c_freq = 0, c_bw = HW_MODE_BW_NONE, c_mac = 0, c_chain_mask = POLICY_MGR_ONE_ONE,
     c_original_nss = 0, c_vdev_id = 0, c_in_use = False, c_ch_flagext = 0, c_6ghz_flag = 0\<rparr>"

record policy_mgr_vdev_entry_info =
  e_type :: wmi_vdev_type
  e_sub_type :: wmi_vdev_subtype
  e_mhz :: u32
  e_chan_width :: phy_ch_width
  e_mac_id :: u32
  e_ch_flagext :: u16

datatype tQDF_MCC_TO_SCC_SWITCH_MODE =
    QDF_MCC_TO_SCC_SWITCH_FORCE_WITHOUT_DISCONNECTION
  | QDF_MCC_TO_SCC_SWITCH_WITH_FAVORITE_CHANNEL
  | QDF_MCC_TO_SCC_SWITCH_FORCE_PREFERRED_WITHOUT_DISCONNECTION
  | QDF_MCC_TO_SCC_WITH_PREFERRED_BAND
  | Other_switch_mode

datatype dbs_support =
    ENABLE_DBS_CXN_AND_SCAN | DISABLE_DBS_CXN_AND_SCAN | DISABLE_DBS_CXN_AND_ENABLE_DBS_SCAN
  | DISABLE_DBS_CXN_AND_ENABLE_DBS_SCAN_WITH_ASYNC_SCAN_OFF | ENABLE_DBS_CXN_AND_ENABLE_SCAN_WITH_ASYNC_SCAN_OFF
  | ENABLE_DBS_CXN_AND_DISABLE_DBS_SCAN | ENABLE_DBS_CXN_AND_DISABLE_SIMULTANEOUS_SCAN

record policy_mgr_cfg =
  mcc_to_scc_switch :: tQDF_MCC_TO_SCC_SWITCH_MODE
  max_conc_cxns :: u8
  dual_mac_feature :: dbs_support
  sta_sap_scc_on_dfs_chnl :: u8
  sta_sap_scc_on_lte_coex_chnl :: u8
  go_force_scc :: u8

datatype pm_event =
    Mode_change
  | Cdp_update_mac_id u32 u8
  | Ipa_set_mcc_mode bool
  | Active_ndp_cnt u8 u8
  | Flow_pool_map u8
  | Flow_pool_unmap u8
  | Rso_stop u8
  | Rso_start u8
  | Pcl_computed policy_mgr_con_mode "policy_mgr_conc_connection_info list"
  | Set_pcl u8
  | Tdls_increment_session
  | Tdls_decrement_session
  | Disable_rx_ol bool
  | Set_rx_mode_rps bool

datatype pm_callback =
    Mode_change_cb | Cdp_update_mac_id_cb | Hdd_ipa_set_mcc_mode_cb | Wlan_hdd_indicate_active_ndp_cnt
  | Hdd_v2_flow_pool_map | Hdd_v2_flow_pool_unmap | Tdls_notify_increment_session | Tdls_notify_decrement_session
  | Hdd_disable_rx_ol_in_concurrency | Hdd_set_rx_mode_rps_cb | Wma_get_connection_info | Sme_get_nss_for_vdev
  | Hdd_get_ap_6ghz_capable

text \<open>\<open>pm_overrun\<close> records a write behind the end of the table.\<close>

record pm_state =
  conns :: "policy_mgr_conc_connection_info list"
  concurrency_mode :: u32
  no_of_open_sessions :: "nat \<Rightarrow> u8"
  no_of_active_sessions :: "nat \<Rightarrow> u8"
  do_sap_unsafe_ch_check :: bool
  dynamic_dfs_master_disabled :: bool
  cfg :: policy_mgr_cfg
  cur_fw_mode_dbs :: bool
  hw_mode_list :: "u32 list"
  sub_20_mhz_enabled :: bool
  pm_log :: "pm_event list"
  pm_overrun :: bool

datatype pm_service =
    Dual_band_simultaneous | No_interband_mcc | Dual_beacon_single_mac_scc | Dual_beacon_single_mac_mcc
  | Sta_plus_sta | Wapi_concurrency

text \<open>
  What lies outside: the numbers of the modes and how many there are, the registered callbacks, what
  WMA, NAN, SME and HDD answer, what \<^verbatim>\<open>policy_mgr_get_pcl\<close> computes for a mode and a table
  (\<open>None\<close> is an error), the firmware's services (\<open>None\<close> without a WMI handle), and the regulatory component.
\<close>

record pm_env =
  qdf_num :: "QDF_OPMODE \<Rightarrow> nat"
  QDF_MAX_NO_OF_MODE :: nat
  registered :: "pm_callback \<Rightarrow> bool"
  env_connection_info :: "u32 \<Rightarrow> policy_mgr_vdev_entry_info option"
  env_nan_connection_info :: "policy_mgr_vdev_entry_info option"
  env_nss :: "QDF_OPMODE \<Rightarrow> u8 \<times> u8"
  env_hdd_ap_6ghz :: "u32 \<Rightarrow> u32"
  env_pcl :: "policy_mgr_con_mode \<Rightarrow> policy_mgr_conc_connection_info list \<Rightarrow> u32 list option"
  env_services :: "(pm_service \<Rightarrow> bool) option"
  env_wapi_sta_active :: bool
  is_24ghz_ch_freq :: "u32 \<Rightarrow> bool"
  is_5ghz_ch_freq :: "u32 \<Rightarrow> bool"
  is_6ghz_chan_freq :: "u32 \<Rightarrow> bool"
  is_same_band_freqs :: "u32 \<Rightarrow> u32 \<Rightarrow> bool"
  is_bonded_state_dfs :: "u32 \<Rightarrow> phy_ch_width \<Rightarrow> bool"
  chan_dfs_flags :: u16

definition log_event :: "pm_event \<Rightarrow> pm_state \<Rightarrow> pm_state" where
  "log_event ev s = s\<lparr>pm_log := pm_log s @ [ev]\<rparr>"

text \<open>A call through a callback that is checked for null.\<close>

definition callback :: "pm_env \<Rightarrow> pm_callback \<Rightarrow> pm_event \<Rightarrow> pm_state \<Rightarrow> pm_state" where
  "callback env cb ev s = (if registered env cb then log_event ev s else s)"

definition add_active :: "nat \<Rightarrow> u8 \<Rightarrow> pm_state \<Rightarrow> pm_state" where
  "add_active m d s = s\<lparr>no_of_active_sessions := (no_of_active_sessions s)(m := no_of_active_sessions s m + d)\<rparr>"

section \<open>Modes\<close>

fun pm_num :: "policy_mgr_con_mode \<Rightarrow> nat" where
  "pm_num PM_STA_MODE = 0"
| "pm_num PM_SAP_MODE = 1"
| "pm_num PM_P2P_CLIENT_MODE = 2"
| "pm_num PM_P2P_GO_MODE = 3"
| "pm_num PM_NDI_MODE = 4"
| "pm_num PM_NAN_DISC_MODE = 5"
| "pm_num PM_MAX_NUM_OF_MODE = 6"

fun policy_mgr_convert_device_mode_to_qdf_type :: "QDF_OPMODE \<Rightarrow> policy_mgr_con_mode" where
  "policy_mgr_convert_device_mode_to_qdf_type QDF_STA_MODE = PM_STA_MODE"
| "policy_mgr_convert_device_mode_to_qdf_type QDF_P2P_CLIENT_MODE = PM_P2P_CLIENT_MODE"
| "policy_mgr_convert_device_mode_to_qdf_type QDF_P2P_GO_MODE = PM_P2P_GO_MODE"
| "policy_mgr_convert_device_mode_to_qdf_type QDF_SAP_MODE = PM_SAP_MODE"
| "policy_mgr_convert_device_mode_to_qdf_type QDF_NAN_DISC_MODE = PM_NAN_DISC_MODE"
| "policy_mgr_convert_device_mode_to_qdf_type QDF_NDI_MODE = PM_NDI_MODE"
| "policy_mgr_convert_device_mode_to_qdf_type _ = PM_MAX_NUM_OF_MODE"

text \<open>\<open>None\<close> is \<^verbatim>\<open>QDF_MAX_NO_OF_MODE\<close>.\<close>

fun policy_mgr_get_qdf_mode_from_pm :: "policy_mgr_con_mode \<Rightarrow> QDF_OPMODE option" where
  "policy_mgr_get_qdf_mode_from_pm PM_STA_MODE = Some QDF_STA_MODE"
| "policy_mgr_get_qdf_mode_from_pm PM_SAP_MODE = Some QDF_SAP_MODE"
| "policy_mgr_get_qdf_mode_from_pm PM_P2P_CLIENT_MODE = Some QDF_P2P_CLIENT_MODE"
| "policy_mgr_get_qdf_mode_from_pm PM_P2P_GO_MODE = Some QDF_P2P_GO_MODE"
| "policy_mgr_get_qdf_mode_from_pm PM_NAN_DISC_MODE = Some QDF_NAN_DISC_MODE"
| "policy_mgr_get_qdf_mode_from_pm PM_NDI_MODE = Some QDF_NDI_MODE"
| "policy_mgr_get_qdf_mode_from_pm PM_MAX_NUM_OF_MODE = None"

text \<open>The new mode and whether the old one has a counterpart.\<close>

fun policy_mgr_map_concurrency_mode :: "QDF_OPMODE \<Rightarrow> policy_mgr_con_mode \<times> bool" where
  "policy_mgr_map_concurrency_mode QDF_STA_MODE = (PM_STA_MODE, True)"
| "policy_mgr_map_concurrency_mode QDF_SAP_MODE = (PM_SAP_MODE, True)"
| "policy_mgr_map_concurrency_mode QDF_P2P_CLIENT_MODE = (PM_P2P_CLIENT_MODE, True)"
| "policy_mgr_map_concurrency_mode QDF_P2P_GO_MODE = (PM_P2P_GO_MODE, True)"
| "policy_mgr_map_concurrency_mode QDF_NAN_DISC_MODE = (PM_NAN_DISC_MODE, True)"
| "policy_mgr_map_concurrency_mode QDF_NDI_MODE = (PM_NDI_MODE, True)"
| "policy_mgr_map_concurrency_mode _ = (PM_MAX_NUM_OF_MODE, False)"

definition policy_mgr_get_mode :: "wmi_vdev_type \<Rightarrow> wmi_vdev_subtype \<Rightarrow> policy_mgr_con_mode" where
  "policy_mgr_get_mode ty subty =
     (case ty of
        WMI_VDEV_TYPE_AP \<Rightarrow>
          (case subty of Subtype_0 \<Rightarrow> PM_SAP_MODE | WMI_UNIFIED_VDEV_SUBTYPE_P2P_GO \<Rightarrow> PM_P2P_GO_MODE
           | _ \<Rightarrow> PM_MAX_NUM_OF_MODE)
      | WMI_VDEV_TYPE_STA \<Rightarrow>
          (case subty of Subtype_0 \<Rightarrow> PM_STA_MODE | WMI_UNIFIED_VDEV_SUBTYPE_P2P_CLIENT \<Rightarrow> PM_P2P_CLIENT_MODE
           | _ \<Rightarrow> PM_MAX_NUM_OF_MODE)
      | WMI_VDEV_TYPE_NAN \<Rightarrow> PM_NAN_DISC_MODE
      | WMI_VDEV_TYPE_NDI \<Rightarrow> PM_NDI_MODE
      | Other_type \<Rightarrow> PM_MAX_NUM_OF_MODE)"

fun policy_mgr_get_bw :: "phy_ch_width \<Rightarrow> hw_mode_bandwidth" where
  "policy_mgr_get_bw CH_WIDTH_20MHZ = HW_MODE_20_MHZ"
| "policy_mgr_get_bw CH_WIDTH_40MHZ = HW_MODE_40_MHZ"
| "policy_mgr_get_bw CH_WIDTH_80MHZ = HW_MODE_80_MHZ"
| "policy_mgr_get_bw CH_WIDTH_160MHZ = HW_MODE_160_MHZ"
| "policy_mgr_get_bw CH_WIDTH_80P80MHZ = HW_MODE_80_PLUS_80_MHZ"
| "policy_mgr_get_bw CH_WIDTH_5MHZ = HW_MODE_5_MHZ"
| "policy_mgr_get_bw CH_WIDTH_10MHZ = HW_MODE_10_MHZ"
| "policy_mgr_get_bw CH_WIDTH_INVALID = HW_MODE_BW_NONE"

fun policy_mgr_get_ch_width :: "hw_mode_bandwidth \<Rightarrow> phy_ch_width" where
  "policy_mgr_get_ch_width HW_MODE_20_MHZ = CH_WIDTH_20MHZ"
| "policy_mgr_get_ch_width HW_MODE_40_MHZ = CH_WIDTH_40MHZ"
| "policy_mgr_get_ch_width HW_MODE_80_MHZ = CH_WIDTH_80MHZ"
| "policy_mgr_get_ch_width HW_MODE_160_MHZ = CH_WIDTH_160MHZ"
| "policy_mgr_get_ch_width HW_MODE_80_PLUS_80_MHZ = CH_WIDTH_80P80MHZ"
| "policy_mgr_get_ch_width HW_MODE_5_MHZ = CH_WIDTH_5MHZ"
| "policy_mgr_get_ch_width HW_MODE_10_MHZ = CH_WIDTH_10MHZ"
| "policy_mgr_get_ch_width _ = CH_WIDTH_INVALID"

section \<open>Reading the table\<close>

definition PM_CONC_CONNECTION_LIST_VALID_INDEX :: "policy_mgr_conc_connection_info list \<Rightarrow> nat \<Rightarrow> bool" where
  "PM_CONC_CONNECTION_LIST_VALID_INDEX t i \<longleftrightarrow> i < length t \<and> c_in_use (t ! i)"

text \<open>The loop \<^verbatim>\<open>while (PM_CONC_CONNECTION_LIST_VALID_INDEX(conn_index))\<close> that looks for an entry.\<close>

function find_valid ::
  "(policy_mgr_conc_connection_info \<Rightarrow> bool) \<Rightarrow> policy_mgr_conc_connection_info list \<Rightarrow> nat \<Rightarrow> nat option" where
  "find_valid P t i =
     (if PM_CONC_CONNECTION_LIST_VALID_INDEX t i then if P (t ! i) then Some i else find_valid P t (Suc i) else None)"
  by pat_completeness auto
termination
  by (relation "measure (\<lambda>(P, t, i). length t - i)") (auto simp: PM_CONC_CONNECTION_LIST_VALID_INDEX_def)

declare find_valid.simps [simp del]

text \<open>The loops over all indices, for the first entry in use, and for all of them.\<close>

definition first_in_use ::
  "(policy_mgr_conc_connection_info \<Rightarrow> bool) \<Rightarrow> policy_mgr_conc_connection_info list \<Rightarrow> nat option" where
  "first_in_use P t = find (\<lambda>i. c_in_use (t ! i) \<and> P (t ! i)) [0..<length t]"

definition policy_mgr_get_connection_count :: "pm_state \<Rightarrow> nat" where
  "policy_mgr_get_connection_count s = length (filter c_in_use (conns s))"

text \<open>The array \<^verbatim>\<open>list\<close> that \<^verbatim>\<open>policy_mgr_mode_specific_connection_count\<close> fills in; the count is its length.\<close>

definition mode_specific_list :: "policy_mgr_con_mode \<Rightarrow> pm_state \<Rightarrow> nat list" where
  "mode_specific_list m s = filter (\<lambda>i. c_mode (conns s ! i) = m \<and> c_in_use (conns s ! i)) [0..<length (conns s)]"

definition policy_mgr_mode_specific_connection_count :: "policy_mgr_con_mode \<Rightarrow> pm_state \<Rightarrow> nat" where
  "policy_mgr_mode_specific_connection_count m s = length (mode_specific_list m s)"

text \<open>\<open>None\<close> is \<^verbatim>\<open>WLAN_INVALID_VDEV_ID\<close>.\<close>

definition policy_mgr_mode_specific_vdev_id :: "policy_mgr_con_mode \<Rightarrow> pm_state \<Rightarrow> u32 option" where
  "policy_mgr_mode_specific_vdev_id m s =
     map_option (\<lambda>i. c_vdev_id (conns s ! i)) (first_in_use (\<lambda>c. c_mode c = m) (conns s))"

definition policy_mgr_check_conn_with_mode_and_vdev_id :: "policy_mgr_con_mode \<Rightarrow> u32 \<Rightarrow> pm_state \<Rightarrow> QDF_STATUS" where
  "policy_mgr_check_conn_with_mode_and_vdev_id m v s =
     (if find_valid (\<lambda>c. c_mode c = m \<and> c_vdev_id c = v) (conns s) 0 \<noteq> None
      then QDF_STATUS_SUCCESS else QDF_STATUS_E_FAILURE)"

definition policy_mgr_get_mode_specific_conn_info :: "policy_mgr_con_mode \<Rightarrow> pm_state \<Rightarrow> (u32 \<times> u8) list" where
  "policy_mgr_get_mode_specific_conn_info m s =
     map (\<lambda>i. (c_freq (conns s ! i), ucast (c_vdev_id (conns s ! i)))) (mode_specific_list m s)"

text \<open>The index of a vdev, or the length of the table.\<close>

definition policy_mgr_get_connection_for_vdev_id :: "u32 \<Rightarrow> pm_state \<Rightarrow> nat" where
  "policy_mgr_get_connection_for_vdev_id v s =
     (case first_in_use (\<lambda>c. c_vdev_id c = v) (conns s) of None \<Rightarrow> length (conns s) | Some i \<Rightarrow> i)"

definition policy_mgr_current_concurrency_is_mcc :: "pm_state \<Rightarrow> bool" where
  "policy_mgr_current_concurrency_is_mcc s =
     (let n = policy_mgr_get_connection_count s; c = (\<lambda>i. conns s ! i)
      in if n = 2 then c_freq (c 0) \<noteq> c_freq (c 1) \<and> c_mac (c 0) = c_mac (c 1)
         else if n = 3
         then c_freq (c 0) \<noteq> c_freq (c 1) \<or> c_freq (c 0) \<noteq> c_freq (c 2) \<or> c_freq (c 1) \<noteq> c_freq (c 2)
         else False)"

end
