(* ===== verification/Pm_Ops.thy ===== *)
theory Pm_Ops
  imports Pm_Conn
begin

text \<open>
  The operations that change the connection table of the policy manager and its session counters:
  adding, deleting, storing away and restoring entries, and the handlers for a session that
  becomes active or inactive.
\<close>

section \<open>Adding an entry\<close>

text \<open>All fields but the 6 GHz flags, which the code does not assign.\<close>

definition copy_conn ::
  "policy_mgr_conc_connection_info \<Rightarrow> policy_mgr_conc_connection_info \<Rightarrow> policy_mgr_conc_connection_info" where
  "copy_conn new old = new\<lparr>c_6ghz_flag := c_6ghz_flag old\<rparr>"

definition policy_mgr_update_conc_list ::
  "pm_env \<Rightarrow> nat \<Rightarrow> policy_mgr_conc_connection_info \<Rightarrow> bool \<Rightarrow> pm_state \<Rightarrow> pm_state" where
  "policy_mgr_update_conc_list env conn_index new update_conn s =
     (if conn_index \<ge> length (conns s) then s
      else
        let s1 = s\<lparr>conns := (conns s)[conn_index := copy_conn new (conns s ! conn_index)]\<rparr>;
            s2 = (if update_conn then callback env Mode_change_cb Mode_change s1 else s1);
            s3 = callback env Cdp_update_mac_id_cb (Cdp_update_mac_id (c_vdev_id new) (c_mac new)) s2
        in if c_mode new = PM_STA_MODE \<or> c_mode new = PM_SAP_MODE
           then callback env Hdd_ipa_set_mcc_mode_cb (Ipa_set_mcc_mode (policy_mgr_current_concurrency_is_mcc s3)) s3
           else s3)"

definition policy_mgr_get_nss_for_vdev :: "pm_env \<Rightarrow> policy_mgr_con_mode \<Rightarrow> (u8 \<times> u8) option" where
  "policy_mgr_get_nss_for_vdev env mode =
     (case policy_mgr_get_qdf_mode_from_pm mode of
        None \<Rightarrow> None
      | Some dev_mode \<Rightarrow> if registered env Sme_get_nss_for_vdev then Some (env_nss env dev_mode) else None)"

text \<open>The entry for a vdev from what WMA or NAN answers.\<close>

definition new_conn :: "pm_env \<Rightarrow> u32 \<Rightarrow> policy_mgr_vdev_entry_info \<Rightarrow> policy_mgr_conc_connection_info" where
  "new_conn env vdev_id entry =
     (let mode = policy_mgr_get_mode (e_type entry) (e_sub_type entry);
          ch_freq = e_mhz entry;
          (chain_mask, nss) =
            (case policy_mgr_get_nss_for_vdev env mode of
               None \<Rightarrow> (POLICY_MGR_ONE_ONE, 0)
             | Some (nss_2g, nss_5g) \<Rightarrow>
                 (if is_24ghz_ch_freq env ch_freq \<and> nss_2g > 1 \<or> is_5ghz_ch_freq env ch_freq \<and> nss_5g > 1
                  then POLICY_MGR_TWO_TWO else POLICY_MGR_ONE_ONE,
                  if is_24ghz_ch_freq env ch_freq then ucast nss_2g else ucast nss_5g))
      in \<lparr>c_mode = mode, c_freq = ch_freq, c_bw = policy_mgr_get_bw (e_chan_width entry), c_mac = ucast (e_mac_id entry),
          c_chain_mask = chain_mask, c_original_nss = nss, c_vdev_id = vdev_id, c_in_use = True,
          c_ch_flagext = e_ch_flagext entry, c_6ghz_flag = 0\<rparr>)"

definition connection_info :: "pm_env \<Rightarrow> QDF_OPMODE \<Rightarrow> u32 \<Rightarrow> policy_mgr_vdev_entry_info option" where
  "connection_info env op_mode vdev_id =
     (if op_mode = QDF_NAN_DISC_MODE then env_nan_connection_info env
      else if registered env Wma_get_connection_info then env_connection_info env vdev_id
      else None)"

definition policy_mgr_incr_connection_count ::
  "pm_env \<Rightarrow> u32 \<Rightarrow> QDF_OPMODE \<Rightarrow> pm_state \<Rightarrow> QDF_STATUS \<times> pm_state" where
  "policy_mgr_incr_connection_count env vdev_id op_mode s =
     (let conn_index = policy_mgr_get_connection_count s
      in if unat (max_conc_cxns (cfg s)) < conn_index then (QDF_STATUS_E_FAILURE, s)
         else case connection_info env op_mode vdev_id of
                None \<Rightarrow> (QDF_STATUS_E_FAILURE, s)
              | Some entry \<Rightarrow>
                  let new = new_conn env vdev_id entry;
                      update_conn = (c_mode new \<noteq> PM_STA_MODE \<and> c_mode new \<noteq> PM_P2P_CLIENT_MODE)
                  in (QDF_STATUS_SUCCESS, policy_mgr_update_conc_list env conn_index new update_conn s))"

section \<open>Deleting an entry\<close>

text \<open>The loop that moves the entries after the deleted one forward; also the index it stops at.\<close>

function shift_conns ::
  "policy_mgr_conc_connection_info list \<Rightarrow> nat \<Rightarrow> nat \<Rightarrow> policy_mgr_conc_connection_info list \<times> nat" where
  "shift_conns t conn_index next_conn_index =
     (if PM_CONC_CONNECTION_LIST_VALID_INDEX t next_conn_index
      then shift_conns (t[conn_index := copy_conn (t ! next_conn_index) (t ! conn_index)])
             (Suc conn_index) (Suc next_conn_index)
      else (t, next_conn_index))"
  by pat_completeness auto
termination
  by (relation "measure (\<lambda>(t, i, j). length t - j)") (auto simp: PM_CONC_CONNECTION_LIST_VALID_INDEX_def)

declare shift_conns.simps [simp del]

definition policy_mgr_decr_connection_count :: "u32 \<Rightarrow> pm_state \<Rightarrow> QDF_STATUS \<times> pm_state" where
  "policy_mgr_decr_connection_count vdev_id s =
     (case find_valid (\<lambda>c. c_vdev_id c = vdev_id) (conns s) 0 of
        None \<Rightarrow> (QDF_STATUS_E_FAILURE, s)
      | Some conn_index \<Rightarrow>
          (case shift_conns (conns s) conn_index (Suc conn_index) of
             (t, next_conn_index) \<Rightarrow> (QDF_STATUS_SUCCESS, s\<lparr>conns := t[next_conn_index - 1 := zero_conn]\<rparr>)))"

section \<open>Storing entries away and restoring them\<close>

text \<open>The loop of \<^verbatim>\<open>policy_mgr_store_and_del_conn_info\<close>; \<open>info\<close> are the entries stored so far.\<close>

partial_function (option) store_and_del_loop ::
  "policy_mgr_con_mode \<Rightarrow> bool \<Rightarrow> nat \<Rightarrow> policy_mgr_conc_connection_info list \<Rightarrow> pm_state \<Rightarrow>
     (policy_mgr_conc_connection_info list \<times> pm_state) option" where
  "store_and_del_loop mode all_matching_cxn_to_del conn_index info s =
     (if PM_CONC_CONNECTION_LIST_VALID_INDEX (conns s) conn_index
      then if mode = c_mode (conns s ! conn_index)
           then
             let info1 = info @ [conns s ! conn_index];
                 s1 = snd (policy_mgr_decr_connection_count (c_vdev_id (last info1)) s);
                 s2 = add_active (pm_num (c_mode (hd info1))) (- 1) s1
             in if all_matching_cxn_to_del then store_and_del_loop mode all_matching_cxn_to_del conn_index info1 s2
                else Some (info1, s2)
           else store_and_del_loop mode all_matching_cxn_to_del (Suc conn_index) info s
      else Some (info, s))"

definition policy_mgr_store_and_del_conn_info ::
  "policy_mgr_con_mode \<Rightarrow> bool \<Rightarrow> pm_state \<Rightarrow> (policy_mgr_conc_connection_info list \<times> pm_state) option" where
  "policy_mgr_store_and_del_conn_info mode all_matching_cxn_to_del s =
     store_and_del_loop mode all_matching_cxn_to_del 0 [] s"

definition policy_mgr_store_and_del_conn_info_by_vdev_id ::
  "u32 \<Rightarrow> pm_state \<Rightarrow> policy_mgr_conc_connection_info list \<times> pm_state" where
  "policy_mgr_store_and_del_conn_info_by_vdev_id vdev_id s =
     (case first_in_use (\<lambda>c. c_vdev_id c = vdev_id) (conns s) of
        None \<Rightarrow> ([], s)
      | Some i \<Rightarrow>
          let info = conns s ! i
          in ([info], snd (policy_mgr_decr_connection_count (c_vdev_id info) (add_active (pm_num (c_mode info)) (- 1) s))))"

text \<open>The first loop of \<^verbatim>\<open>policy_mgr_store_and_del_conn_info_by_chan_and_mode\<close>.\<close>

definition valid_prefix :: "policy_mgr_conc_connection_info list \<Rightarrow> policy_mgr_conc_connection_info list" where
  "valid_prefix t = takeWhile c_in_use t"

definition policy_mgr_store_and_del_conn_info_by_chan_and_mode ::
  "u32 \<Rightarrow> policy_mgr_con_mode \<Rightarrow> pm_state \<Rightarrow> policy_mgr_conc_connection_info list \<times> pm_state" where
  "policy_mgr_store_and_del_conn_info_by_chan_and_mode ch_freq mode s =
     (let info = filter (\<lambda>c. c_freq c = ch_freq \<and> c_mode c = mode) (valid_prefix (conns s))
      in (info, fold (\<lambda>c s. add_active (pm_num (c_mode c)) (- 1) (snd (policy_mgr_decr_connection_count (c_vdev_id c) s)))
                  info s))"

text \<open>The copy at the end of the entries in use; what does not fit is an overrun.\<close>

definition copy_at :: "nat \<Rightarrow> 'a list \<Rightarrow> 'a list \<Rightarrow> 'a list" where
  "copy_at i xs t = take (length t) (take i t @ xs @ drop (i + length xs) t)"

definition policy_mgr_restore_deleted_conn_info ::
  "policy_mgr_conc_connection_info list \<Rightarrow> pm_state \<Rightarrow> pm_state" where
  "policy_mgr_restore_deleted_conn_info info s =
     (if length (conns s) \<le> length info \<or> info = [] then s
      else
        let conn_index = policy_mgr_get_connection_count s
        in if length (conns s) \<le> conn_index then s
           else add_active (pm_num (c_mode (hd info))) (of_nat (length info))
                  (s\<lparr>conns := copy_at conn_index info (conns s),
                     pm_overrun := (pm_overrun s \<or> conn_index + length info > length (conns s))\<rparr>))"

text \<open>The vdev and MAC numbers that the firmware reports.\<close>

definition update_vdev_mac :: "pm_env \<Rightarrow> u32 \<times> u32 \<Rightarrow> pm_state \<Rightarrow> pm_state" where
  "update_vdev_mac env m s =
     (case find_valid (\<lambda>c. c_vdev_id c = fst m) (conns s) 0 of
        None \<Rightarrow> s
      | Some i \<Rightarrow>
          callback env Cdp_update_mac_id_cb (Cdp_update_mac_id (fst m) (ucast (snd m)))
            (s\<lparr>conns := (conns s)[i := (conns s ! i)\<lparr>c_mac := ucast (snd m)\<rparr>]\<rparr>))"

definition policy_mgr_update_hw_mode_conn_info :: "pm_env \<Rightarrow> (u32 \<times> u32) list \<Rightarrow> pm_state \<Rightarrow> pm_state" where
  "policy_mgr_update_hw_mode_conn_info env vdev_mac_map = fold (update_vdev_mac env) vdev_mac_map"

section \<open>6 GHz flags of a SAP\<close>

definition CONN_6GHZ_FLAG_VALID :: u32 where "CONN_6GHZ_FLAG_VALID = 0x0001"
definition CONN_6GHZ_FLAG_NO_LEGACY_CLIENT :: u32 where "CONN_6GHZ_FLAG_NO_LEGACY_CLIENT = 0x0008"
definition CONN_6GHZ_CAPABLIE :: u32 where "CONN_6GHZ_CAPABLIE = 0x000f"

definition sap_index :: "u32 \<Rightarrow> pm_state \<Rightarrow> nat option" where
  "sap_index vdev_id s = first_in_use (\<lambda>c. c_mode c = PM_SAP_MODE \<and> c_vdev_id c = vdev_id) (conns s)"

definition upd_conn ::
  "nat \<Rightarrow> (policy_mgr_conc_connection_info \<Rightarrow> policy_mgr_conc_connection_info) \<Rightarrow> pm_state \<Rightarrow> pm_state" where
  "upd_conn i f s = s\<lparr>conns := (conns s)[i := f (conns s ! i)]\<rparr>"

definition policy_mgr_init_ap_6ghz_capable :: "u32 \<Rightarrow> u32 \<Rightarrow> pm_state \<Rightarrow> pm_state" where
  "policy_mgr_init_ap_6ghz_capable vdev_id ap_6ghz_capable s =
     (case sap_index vdev_id s of
        None \<Rightarrow> s
      | Some i \<Rightarrow> upd_conn i (\<lambda>c. c\<lparr>c_6ghz_flag := ap_6ghz_capable OR CONN_6GHZ_FLAG_VALID\<rparr>) s)"

definition policy_mgr_set_ap_6ghz_capable :: "u32 \<Rightarrow> bool \<Rightarrow> u32 \<Rightarrow> pm_state \<Rightarrow> pm_state" where
  "policy_mgr_set_ap_6ghz_capable vdev_id setp ap_6ghz_capable s =
     (case sap_index vdev_id s of
        None \<Rightarrow> s
      | Some i \<Rightarrow> upd_conn i (\<lambda>c. c\<lparr>c_6ghz_flag :=
          (if setp then c_6ghz_flag c OR ap_6ghz_capable else c_6ghz_flag c AND NOT ap_6ghz_capable)
            OR CONN_6GHZ_FLAG_VALID\<rparr>) s)"

text \<open>Whether 6 GHz is allowed, and the flags.\<close>

definition policy_mgr_get_ap_6ghz_capable :: "pm_env \<Rightarrow> u32 \<Rightarrow> pm_state \<Rightarrow> bool \<times> u32" where
  "policy_mgr_get_ap_6ghz_capable env vdev_id s =
     (let flag = (case sap_index vdev_id s of None \<Rightarrow> 0 | Some i \<Rightarrow> c_6ghz_flag (conns s ! i));
          flag1 = (if flag AND CONN_6GHZ_FLAG_VALID = 0 \<and> registered env Hdd_get_ap_6ghz_capable
                   then env_hdd_ap_6ghz env vdev_id OR CONN_6GHZ_FLAG_NO_LEGACY_CLIENT else flag)
      in (flag1 AND CONN_6GHZ_CAPABLIE = CONN_6GHZ_CAPABLIE, flag1))"

section \<open>Initialisation\<close>

text \<open>The table as \<^verbatim>\<open>policy_mgr_psoc_enable\<close> leaves it.\<close>

definition init_conc_list :: "pm_state \<Rightarrow> pm_state" where
  "init_conc_list s = s\<lparr>conns := replicate (length (conns s)) zero_conn\<rparr>"

end
