(* ===== verification/Pm_Session.thy ===== *)
theory Pm_Session
  imports Pm_Ops
begin

text \<open>
  The sessions of the policy manager: opening and closing an interface, and the handlers
  \<^verbatim>\<open>policy_mgr_incr_active_session\<close> and \<^verbatim>\<open>policy_mgr_decr_active_session\<close> that keep the
  session counters and the connection table.  Computing a preferred channel list
  (\<^verbatim>\<open>policy_mgr_get_pcl\<close>) only reads the table and is an event with the table it sees.
\<close>

section \<open>Dual band capability\<close>

definition POLICY_MGR_HW_MODE_DBS_MODE_GET :: "u32 \<Rightarrow> u32" where
  "POLICY_MGR_HW_MODE_DBS_MODE_GET hw_mode = drop_bit 7 (hw_mode AND push_bit 7 0x1)"

definition policy_mgr_is_dual_mac_disabled_in_ini :: "pm_state \<Rightarrow> bool" where
  "policy_mgr_is_dual_mac_disabled_in_ini s \<longleftrightarrow> dual_mac_feature (cfg s) \<in>
     {DISABLE_DBS_CXN_AND_SCAN, DISABLE_DBS_CXN_AND_ENABLE_DBS_SCAN,
      DISABLE_DBS_CXN_AND_ENABLE_DBS_SCAN_WITH_ASYNC_SCAN_OFF}"

definition policy_mgr_is_dbs_enable :: "pm_state \<Rightarrow> bool" where
  "policy_mgr_is_dbs_enable s \<longleftrightarrow> \<not> policy_mgr_is_dual_mac_disabled_in_ini s \<and> cur_fw_mode_dbs s"

text \<open>A service of the firmware, false without a WMI handle.\<close>

definition wmi_service :: "pm_env \<Rightarrow> pm_service \<Rightarrow> bool" where
  "wmi_service env sv = (case env_services env of None \<Rightarrow> False | Some f \<Rightarrow> f sv)"

definition policy_mgr_find_if_fw_supports_dbs :: "pm_env \<Rightarrow> bool" where
  "policy_mgr_find_if_fw_supports_dbs env = wmi_service env Dual_band_simultaneous"

definition policy_mgr_find_if_hwlist_has_dbs :: "pm_state \<Rightarrow> bool" where
  "policy_mgr_find_if_hwlist_has_dbs s = list_ex (\<lambda>p. POLICY_MGR_HW_MODE_DBS_MODE_GET p \<noteq> 0) (hw_mode_list s)"

definition policy_mgr_is_hw_dbs_capable :: "pm_env \<Rightarrow> pm_state \<Rightarrow> bool" where
  "policy_mgr_is_hw_dbs_capable env s \<longleftrightarrow>
     policy_mgr_is_dbs_enable s \<and> policy_mgr_find_if_fw_supports_dbs env \<and> policy_mgr_find_if_hwlist_has_dbs s"

definition PM_STA_SAP_ON_DFS_MASTER_MODE_DISABLED :: u8 where "PM_STA_SAP_ON_DFS_MASTER_MODE_DISABLED = 1"
definition PM_STA_SAP_ON_DFS_MASTER_MODE_FLEX :: u8 where "PM_STA_SAP_ON_DFS_MASTER_MODE_FLEX = 2"

text \<open>A station connection of another vdev.\<close>

definition other_sta :: "u32 \<Rightarrow> policy_mgr_conc_connection_info \<Rightarrow> bool" where
  "other_sta vdev_id c \<longleftrightarrow>
     c_vdev_id c \<noteq> vdev_id \<and> c_in_use c \<and> (c_mode c = PM_STA_MODE \<or> c_mode c = PM_P2P_CLIENT_MODE)"

definition policy_mgr_update_dfs_master_dynamic_enabled :: "pm_env \<Rightarrow> u32 \<Rightarrow> pm_state \<Rightarrow> bool \<times> pm_state" where
  "policy_mgr_update_dfs_master_dynamic_enabled env vdev_id s =
     (let scc = sta_sap_scc_on_dfs_chnl (cfg s);
          stas = filter (other_sta vdev_id) (conns s);
          sta_on_5g = list_ex (\<lambda>c. is_5ghz_ch_freq env (c_freq c)) stas;
          sta_on_2g = list_ex (\<lambda>c. \<not> is_5ghz_ch_freq env (c_freq c)) stas;
          enable =
            (if scc = 0 then True
             else if scc = PM_STA_SAP_ON_DFS_MASTER_MODE_DISABLED then False
             else if scc \<noteq> PM_STA_SAP_ON_DFS_MASTER_MODE_FLEX then True
             else if policy_mgr_is_hw_dbs_capable env s \<and> \<not> sta_on_5g then True
             else \<not> sta_on_5g \<and> \<not> sta_on_2g)
      in (enable, s\<lparr>dynamic_dfs_master_disabled := \<not> enable\<rparr>))"

section \<open>Opening and closing an interface\<close>

definition opens_session :: "QDF_OPMODE \<Rightarrow> bool" where
  "opens_session mode \<longleftrightarrow>
     mode \<in> {QDF_STA_MODE, QDF_P2P_CLIENT_MODE, QDF_P2P_GO_MODE, QDF_SAP_MODE, QDF_MONITOR_MODE}"

definition upd_open :: "nat \<Rightarrow> u8 \<Rightarrow> pm_state \<Rightarrow> pm_state" where
  "upd_open m n s = s\<lparr>no_of_open_sessions := (no_of_open_sessions s)(m := n)\<rparr>"

definition policy_mgr_set_concurrency_mode :: "pm_env \<Rightarrow> QDF_OPMODE \<Rightarrow> pm_state \<Rightarrow> pm_state" where
  "policy_mgr_set_concurrency_mode env mode s =
     (let m = qdf_num env mode
      in if opens_session mode
         then upd_open m (no_of_open_sessions s m + 1) (s\<lparr>concurrency_mode := concurrency_mode s OR push_bit m 1\<rparr>)
         else s)"

definition policy_mgr_clear_concurrency_mode :: "pm_env \<Rightarrow> QDF_OPMODE \<Rightarrow> pm_state \<Rightarrow> pm_state" where
  "policy_mgr_clear_concurrency_mode env mode s =
     (let m = qdf_num env mode
      in if opens_session mode
         then
           let s1 = upd_open m (no_of_open_sessions s m - 1) s
           in if no_of_open_sessions s1 m = 0
              then s1\<lparr>concurrency_mode := concurrency_mode s1 AND NOT (push_bit m 1)\<rparr> else s1
         else s)"

section \<open>Preferred channels of the existing connections\<close>

definition policy_mgr_pdev_get_pcl ::
  "pm_env \<Rightarrow> policy_mgr_con_mode \<Rightarrow> policy_mgr_conc_connection_info list \<Rightarrow> u32 list option" where
  "policy_mgr_pdev_get_pcl env mode t =
     (if mode \<in> {PM_STA_MODE, PM_P2P_CLIENT_MODE, PM_P2P_GO_MODE, PM_SAP_MODE} then env_pcl env mode t else None)"

definition policy_mgr_set_pcl_for_existing_combo ::
  "pm_env \<Rightarrow> policy_mgr_con_mode \<Rightarrow> u8 \<Rightarrow> pm_state \<Rightarrow> pm_state option" where
  "policy_mgr_set_pcl_for_existing_combo env mode vdev_id s =
     (if policy_mgr_get_qdf_mode_from_pm mode = None \<or> policy_mgr_mode_specific_connection_count mode s = 0 then Some s
      else case policy_mgr_store_and_del_conn_info mode False s of
             None \<Rightarrow> None
           | Some (info, s1) \<Rightarrow>
               let s2 = policy_mgr_restore_deleted_conn_info info (log_event (Pcl_computed mode (conns s1)) s1)
               in Some (if policy_mgr_pdev_get_pcl env mode (conns s1) \<noteq> None then log_event (Set_pcl vdev_id) s2 else s2))"

text \<open>The loop of \<^verbatim>\<open>policy_mgr_incr_active_session\<close> over the indices of the table.\<close>

fun pcl_for_stas :: "pm_env \<Rightarrow> nat list \<Rightarrow> pm_state \<Rightarrow> pm_state option" where
  "pcl_for_stas env [] s = Some s"
| "pcl_for_stas env (conn_idx # idxs) s =
     (if c_mode (conns s ! conn_idx) = PM_STA_MODE \<and> c_in_use (conns s ! conn_idx)
      then
        let vdev_id = ucast (c_vdev_id (conns s ! conn_idx))
        in case policy_mgr_set_pcl_for_existing_combo env PM_STA_MODE vdev_id (log_event (Rso_stop vdev_id) s) of
             None \<Rightarrow> None
           | Some s1 \<Rightarrow> pcl_for_stas env idxs (log_event (Rso_start vdev_id) s1)
      else pcl_for_stas env idxs s)"

section \<open>Active sessions\<close>

definition counts_active :: "QDF_OPMODE \<Rightarrow> bool" where
  "counts_active mode \<longleftrightarrow>
     mode \<in> {QDF_STA_MODE, QDF_P2P_CLIENT_MODE, QDF_P2P_GO_MODE, QDF_SAP_MODE, QDF_NAN_DISC_MODE, QDF_NDI_MODE}"

definition has_dfs_role :: "QDF_OPMODE \<Rightarrow> bool" where
  "has_dfs_role mode \<longleftrightarrow> mode \<in> {QDF_SAP_MODE, QDF_P2P_GO_MODE, QDF_STA_MODE, QDF_P2P_CLIENT_MODE}"

text \<open>The counter and the callbacks before the entry is added.\<close>

definition incr_active_head :: "pm_env \<Rightarrow> QDF_OPMODE \<Rightarrow> u8 \<Rightarrow> pm_state \<Rightarrow> pm_state" where
  "incr_active_head env mode session_id s =
     (let m = qdf_num env mode;
          s1 = (if counts_active mode then add_active m 1 s else s);
          s2 = (if mode = QDF_NDI_MODE
                then callback env Wlan_hdd_indicate_active_ndp_cnt (Active_ndp_cnt session_id (no_of_active_sessions s1 m)) s1
                else s1)
      in if mode \<noteq> QDF_NAN_DISC_MODE then callback env Hdd_v2_flow_pool_map (Flow_pool_map session_id) s2 else s2)"

text \<open>What follows the entry and the preferred channels.\<close>

definition incr_active_tail :: "pm_env \<Rightarrow> QDF_OPMODE \<Rightarrow> u8 \<Rightarrow> u32 \<Rightarrow> pm_state \<Rightarrow> pm_state" where
  "incr_active_tail env mode session_id conn_6ghz s =
     (let count = policy_mgr_mode_specific_connection_count;
          s1 = callback env Tdls_notify_increment_session Tdls_increment_session s;
          s2 = (if count PM_STA_MODE s1 > 1 \<or> count PM_SAP_MODE s1 > 0 \<or> count PM_P2P_CLIENT_MODE s1 > 0 \<or>
                   count PM_P2P_GO_MODE s1 > 0 \<or> count PM_NDI_MODE s1 > 0
                then callback env Hdd_disable_rx_ol_in_concurrency (Disable_rx_ol True) s1 else s1);
          s3 = (if count PM_SAP_MODE s2 = 1 then callback env Hdd_set_rx_mode_rps_cb (Set_rx_mode_rps True) s2 else s2);
          s4 = (if mode = QDF_SAP_MODE then policy_mgr_init_ap_6ghz_capable (ucast session_id) conn_6ghz s3 else s3)
      in if has_dfs_role mode
         then snd (policy_mgr_update_dfs_master_dynamic_enabled env (ucast session_id) s4) else s4)"

definition policy_mgr_incr_active_session :: "pm_env \<Rightarrow> QDF_OPMODE \<Rightarrow> u8 \<Rightarrow> pm_state \<Rightarrow> pm_state option" where
  "policy_mgr_incr_active_session env mode session_id s =
     (let s1 = incr_active_head env mode session_id s;
          conn_6ghz = (if mode = QDF_SAP_MODE then snd (policy_mgr_get_ap_6ghz_capable env (ucast session_id) s1) else 0);
          s2 = snd (policy_mgr_incr_connection_count env (ucast session_id) mode s1)
      in map_option (incr_active_tail env mode session_id conn_6ghz)
           (if policy_mgr_mode_specific_connection_count PM_STA_MODE s2 > 0 \<and> mode \<noteq> QDF_STA_MODE
            then pcl_for_stas env [0..<length (conns s2)] s2 else Some s2))"

text \<open>The counter and the callbacks before the entry is deleted, and what follows.\<close>

definition decr_active_head :: "pm_env \<Rightarrow> QDF_OPMODE \<Rightarrow> u8 \<Rightarrow> pm_state \<Rightarrow> pm_state" where
  "decr_active_head env mode session_id s =
     (let m = qdf_num env mode;
          s1 = (if counts_active mode \<and> no_of_active_sessions s m \<noteq> 0 then add_active m (- 1) s else s);
          s2 = (if mode \<noteq> QDF_NAN_DISC_MODE then callback env Hdd_v2_flow_pool_unmap (Flow_pool_unmap session_id) s1 else s1)
      in if mode = QDF_NDI_MODE
         then callback env Wlan_hdd_indicate_active_ndp_cnt (Active_ndp_cnt session_id (no_of_active_sessions s2 m)) s2
         else s2)"

definition decr_active_tail :: "pm_env \<Rightarrow> QDF_OPMODE \<Rightarrow> u8 \<Rightarrow> pm_state \<Rightarrow> pm_state" where
  "decr_active_tail env mode session_id s =
     (let count = policy_mgr_mode_specific_connection_count;
          s1 = callback env Tdls_notify_decrement_session Tdls_decrement_session s;
          s2 = (if policy_mgr_get_connection_count s1 = 0 \<or>
                   count PM_STA_MODE s1 = 1 \<and> count PM_SAP_MODE s1 = 0 \<and> count PM_P2P_CLIENT_MODE s1 = 0 \<and>
                   count PM_P2P_GO_MODE s1 = 0 \<and> count PM_NDI_MODE s1 = 0
                then callback env Hdd_disable_rx_ol_in_concurrency (Disable_rx_ol False) s1 else s1);
          s3 = (if count PM_SAP_MODE s2 = 0 then callback env Hdd_set_rx_mode_rps_cb (Set_rx_mode_rps False) s2 else s2);
          s4 = (if mode = QDF_STA_MODE \<or> mode = QDF_SAP_MODE
                then callback env Hdd_ipa_set_mcc_mode_cb (Ipa_set_mcc_mode (policy_mgr_current_concurrency_is_mcc s3)) s3
                else s3);
          s5 = (if mode = QDF_STA_MODE \<or> mode = QDF_P2P_CLIENT_MODE then s4\<lparr>do_sap_unsafe_ch_check := True\<rparr> else s4)
      in if has_dfs_role mode
         then snd (policy_mgr_update_dfs_master_dynamic_enabled env (ucast session_id) s5) else s5)"

definition policy_mgr_decr_active_session :: "pm_env \<Rightarrow> QDF_OPMODE \<Rightarrow> u8 \<Rightarrow> pm_state \<Rightarrow> QDF_STATUS \<times> pm_state" where
  "policy_mgr_decr_active_session env mode session_id s =
     (let status = policy_mgr_check_conn_with_mode_and_vdev_id (policy_mgr_convert_device_mode_to_qdf_type mode)
                     (ucast session_id) s
      in if \<not> QDF_IS_STATUS_SUCCESS status then (status, s)
         else (status, decr_active_tail env mode session_id
                         (snd (policy_mgr_decr_connection_count (ucast session_id) (decr_active_head env mode session_id s)))))"

definition policy_mgr_max_concurrent_connections_reached :: "pm_env \<Rightarrow> pm_state \<Rightarrow> bool" where
  "policy_mgr_max_concurrent_connections_reached env s \<longleftrightarrow>
     int (unat (sum_list (map (no_of_active_sessions s) [0..<QDF_MAX_NO_OF_MODE env]))) > int (unat (max_conc_cxns (cfg s))) - 1"

definition policy_mgr_clear_concurrent_session_count :: "pm_env \<Rightarrow> pm_state \<Rightarrow> pm_state" where
  "policy_mgr_clear_concurrent_session_count env s =
     s\<lparr>no_of_active_sessions := (\<lambda>m. if m < QDF_MAX_NO_OF_MODE env then 0 else no_of_active_sessions s m)\<rparr>"

end
