(* ===== verification/Pm_Allow.thy ===== *)
theory Pm_Allow
  imports Pm_Session
begin

text \<open>
  Which new connections the policy manager admits: \<^verbatim>\<open>policy_mgr_is_concurrency_allowed\<close> and
  the checks it is made of, and queries on the table.  Of the state of the bonded channel, which
  the regulatory component gives, the code only reads whether it is a DFS channel.
\<close>

section \<open>Parts of the decision\<close>

definition policy_mgr_is_interband_mcc_supported :: "pm_env \<Rightarrow> bool" where
  "policy_mgr_is_interband_mcc_supported env = (case env_services env of None \<Rightarrow> False | Some f \<Rightarrow> \<not> f No_interband_mcc)"

definition policy_mgr_dual_beacon_on_single_mac_scc_capable :: "pm_env \<Rightarrow> bool" where
  "policy_mgr_dual_beacon_on_single_mac_scc_capable env = wmi_service env Dual_beacon_single_mac_scc"

definition policy_mgr_dual_beacon_on_single_mac_mcc_capable :: "pm_env \<Rightarrow> bool" where
  "policy_mgr_dual_beacon_on_single_mac_mcc_capable env = wmi_service env Dual_beacon_single_mac_mcc"

definition policy_mgr_allow_multiple_sta_connections :: "pm_env \<Rightarrow> bool" where
  "policy_mgr_allow_multiple_sta_connections env = wmi_service env Sta_plus_sta"

definition policy_mgr_allow_wapi_concurrency :: "pm_env \<Rightarrow> pm_state \<Rightarrow> bool" where
  "policy_mgr_allow_wapi_concurrency env s =
     (case env_services env of
        None \<Rightarrow> False
      | Some f \<Rightarrow> \<not> (\<not> f Wapi_concurrency \<and> env_wapi_sta_active env \<and> policy_mgr_get_connection_count s > 0))"

definition policy_mgr_is_force_scc :: "pm_state \<Rightarrow> bool" where
  "policy_mgr_is_force_scc s \<longleftrightarrow> mcc_to_scc_switch (cfg s) \<in>
     {QDF_MCC_TO_SCC_SWITCH_FORCE_WITHOUT_DISCONNECTION, QDF_MCC_TO_SCC_SWITCH_WITH_FAVORITE_CHANNEL,
      QDF_MCC_TO_SCC_SWITCH_FORCE_PREFERRED_WITHOUT_DISCONNECTION, QDF_MCC_TO_SCC_WITH_PREFERRED_BAND}"

definition policy_mgr_is_sta_sap_scc_allowed_on_dfs_chan :: "pm_state \<Rightarrow> bool" where
  "policy_mgr_is_sta_sap_scc_allowed_on_dfs_chan s \<longleftrightarrow> policy_mgr_is_force_scc s \<and> sta_sap_scc_on_dfs_chnl (cfg s) \<noteq> 0"

definition policy_mgr_go_scc_enforced :: "pm_state \<Rightarrow> bool" where
  "policy_mgr_go_scc_enforced s \<longleftrightarrow>
     mcc_to_scc_switch (cfg s) = QDF_MCC_TO_SCC_SWITCH_FORCE_PREFERRED_WITHOUT_DISCONNECTION \<or>
     go_force_scc (cfg s) \<noteq> 0 \<and> policy_mgr_is_force_scc s"

definition on_dfs :: "pm_env \<Rightarrow> policy_mgr_conc_connection_info \<Rightarrow> bool" where
  "on_dfs env c \<longleftrightarrow> c_ch_flagext c AND chan_dfs_flags env \<noteq> 0"

definition policy_mgr_is_sap_p2pgo_on_dfs :: "pm_env \<Rightarrow> pm_state \<Rightarrow> bool" where
  "policy_mgr_is_sap_p2pgo_on_dfs env s \<longleftrightarrow>
     list_ex (\<lambda>i. on_dfs env (conns s ! i)) (mode_specific_list PM_SAP_MODE s) \<or>
     list_ex (\<lambda>i. on_dfs env (conns s ! i)) (mode_specific_list PM_P2P_GO_MODE s)"

definition policy_mgr_disallow_mcc :: "pm_env \<Rightarrow> u32 \<Rightarrow> pm_state \<Rightarrow> bool" where
  "policy_mgr_disallow_mcc env ch_freq s \<longleftrightarrow>
     find_valid (\<lambda>c. if \<not> policy_mgr_is_hw_dbs_capable env s then c_freq c \<noteq> ch_freq
                     else is_5ghz_ch_freq env (c_freq c) \<and> c_freq c \<noteq> ch_freq) (conns s) 0 \<noteq> None"

definition is_ap :: "policy_mgr_con_mode \<Rightarrow> bool" where
  "is_ap m \<longleftrightarrow> m = PM_SAP_MODE \<or> m = PM_P2P_GO_MODE"

definition policy_mgr_is_multi_ap_plus_sta_3vif_conc ::
  "policy_mgr_con_mode \<Rightarrow> policy_mgr_con_mode \<Rightarrow> policy_mgr_con_mode \<Rightarrow> bool" where
  "policy_mgr_is_multi_ap_plus_sta_3vif_conc mode1 mode2 mode3 \<longleftrightarrow>
     mode1 = PM_STA_MODE \<and> is_ap mode2 \<and> is_ap mode3 \<or> mode2 = PM_STA_MODE \<and> is_ap mode1 \<and> is_ap mode3 \<or>
     mode3 = PM_STA_MODE \<and> is_ap mode1 \<and> is_ap mode2"

definition nan_and_ndi :: "policy_mgr_con_mode \<Rightarrow> policy_mgr_con_mode \<Rightarrow> bool" where
  "nan_and_ndi a b \<longleftrightarrow> a = PM_NAN_DISC_MODE \<and> b = PM_NDI_MODE \<or> a = PM_NDI_MODE \<and> b = PM_NAN_DISC_MODE"

definition policy_mgr_allow_new_home_channel ::
  "pm_env \<Rightarrow> policy_mgr_con_mode \<Rightarrow> u32 \<Rightarrow> nat \<Rightarrow> bool \<Rightarrow> pm_state \<Rightarrow> bool" where
  "policy_mgr_allow_new_home_channel env mode ch_freq num_connections is_dfs_ch s =
     (let c0 = conns s ! 0; c1 = conns s ! 1;
          preferred = (mcc_to_scc_switch (cfg s) = QDF_MCC_TO_SCC_SWITCH_FORCE_PREFERRED_WITHOUT_DISCONNECTION);
          dbs = policy_mgr_is_hw_dbs_capable env s;
          interband = policy_mgr_is_interband_mcc_supported env
      in if num_connections = 2 then
           if preferred \<and> is_dfs_ch \<and> (on_dfs env c0 \<or> on_dfs env c1) then False
           else if (c_freq c0 \<noteq> c_freq c1 \<or> preferred) \<and> c_mac c0 = c_mac c1 then
             if nan_and_ndi (c_mode c0) (c_mode c1) then True
             else if \<not> dbs \<and> interband then \<not> (ch_freq \<noteq> c_freq c0 \<and> ch_freq \<noteq> c_freq c1)
             else \<not> (is_24ghz_ch_freq env ch_freq \<and> is_24ghz_ch_freq env (c_freq c0) \<and> is_24ghz_ch_freq env (c_freq c1) \<or>
                     is_5ghz_ch_freq env ch_freq \<and> is_5ghz_ch_freq env (c_freq c0) \<and> is_5ghz_ch_freq env (c_freq c1))
           else if c_mac c0 = c_mac c1 then
             if \<not> dbs \<and> interband then True
             else if nan_and_ndi (c_mode c0) (c_mode c1) then True
             else \<not> (is_same_band_freqs env ch_freq (c_freq c0) \<and>
                     policy_mgr_is_multi_ap_plus_sta_3vif_conc (c_mode c0) (c_mode c1) mode)
           else True
         else if num_connections = 1 \<and> preferred \<and> is_dfs_ch \<and> on_dfs env c0 then False
         else if num_connections = 1 \<and> \<not> dbs \<and> \<not> interband then
           if c_mode c0 \<noteq> PM_NAN_DISC_MODE \<and> mode \<noteq> PM_NAN_DISC_MODE then is_same_band_freqs env ch_freq (c_freq c0)
           else True
         else True)"

definition policy_mgr_is_5g_channel_allowed :: "pm_env \<Rightarrow> u32 \<Rightarrow> policy_mgr_con_mode \<Rightarrow> pm_state \<Rightarrow> bool" where
  "policy_mgr_is_5g_channel_allowed env ch_freq mode s =
     list_all (\<lambda>i. \<not> (on_dfs env (conns s ! i) \<and> is_5ghz_ch_freq env ch_freq \<and> ch_freq \<noteq> c_freq (conns s ! i)))
       (mode_specific_list mode s)"

definition policy_mgr_is_6ghz_conc_mode_supported :: "policy_mgr_con_mode \<Rightarrow> bool" where
  "policy_mgr_is_6ghz_conc_mode_supported mode \<longleftrightarrow>
     mode \<in> {PM_STA_MODE, PM_SAP_MODE, PM_P2P_CLIENT_MODE, PM_P2P_GO_MODE}"

definition policy_mgr_is_6g_channel_allowed :: "pm_env \<Rightarrow> policy_mgr_con_mode \<Rightarrow> u32 \<Rightarrow> pm_state \<Rightarrow> bool" where
  "policy_mgr_is_6g_channel_allowed env mode ch_freq s =
     (if \<not> is_6ghz_chan_freq env ch_freq then True
      else if \<not> policy_mgr_is_6ghz_conc_mode_supported mode then False
      else list_all (\<lambda>c. \<not> (c_in_use c \<and> is_ap (c_mode c) \<and> (on_dfs env c \<and> is_5ghz_ch_freq env (c_freq c)) \<and>
             ch_freq \<noteq> c_freq c)) (conns s))"

text \<open>The loop over the access points of the table; \<open>vdev_id\<close> is passed over.\<close>

fun sap_go_loop ::
  "pm_env \<Rightarrow> bool \<Rightarrow> u32 \<Rightarrow> u32 option \<Rightarrow> policy_mgr_conc_connection_info list \<Rightarrow> bool" where
  "sap_go_loop env dbs ch_freq vdev_id [] = True"
| "sap_go_loop env dbs ch_freq vdev_id (c # cs) =
     (if \<not> c_in_use c \<or> vdev_id = Some (c_vdev_id c) \<or> \<not> is_ap (c_mode c) then sap_go_loop env dbs ch_freq vdev_id cs
      else if policy_mgr_dual_beacon_on_single_mac_scc_capable env \<and> ch_freq = c_freq c then True
      else if \<not> dbs then False
      else if is_same_band_freqs env ch_freq (c_freq c) then False
      else sap_go_loop env dbs ch_freq vdev_id cs)"

text \<open>\<open>None\<close> as \<open>vdev_id\<close> is \<^verbatim>\<open>WLAN_INVALID_VDEV_ID\<close>.\<close>

definition policy_mgr_allow_sap_go_concurrency ::
  "pm_env \<Rightarrow> policy_mgr_con_mode \<Rightarrow> u32 \<Rightarrow> u32 option \<Rightarrow> pm_state \<Rightarrow> bool" where
  "policy_mgr_allow_sap_go_concurrency env mode ch_freq vdev_id s =
     (if \<not> is_ap mode then True
      else if policy_mgr_dual_beacon_on_single_mac_mcc_capable env then True
      else sap_go_loop env (policy_mgr_is_hw_dbs_capable env s) ch_freq vdev_id (conns s))"

section \<open>The decision\<close>

text \<open>The checks for a given channel.\<close>

definition channel_allowed :: "pm_env \<Rightarrow> policy_mgr_con_mode \<Rightarrow> u32 \<Rightarrow> hw_mode_bandwidth \<Rightarrow> nat \<Rightarrow> pm_state \<Rightarrow> bool" where
  "channel_allowed env mode ch_freq bw num_connections s =
     (let is_dfs_ch = is_bonded_state_dfs env ch_freq (policy_mgr_get_ch_width bw)
      in if \<not> policy_mgr_allow_new_home_channel env mode ch_freq num_connections is_dfs_ch s then False
         else if \<not> policy_mgr_is_5g_channel_allowed env ch_freq PM_P2P_GO_MODE s then False
         else if \<not> policy_mgr_is_5g_channel_allowed env ch_freq PM_SAP_MODE s then False
         else if \<not> policy_mgr_is_6g_channel_allowed env mode ch_freq s then False
         else if (\<not> policy_mgr_is_sta_sap_scc_allowed_on_dfs_chan s \<and> mode = PM_SAP_MODE \<or>
                  \<not> policy_mgr_go_scc_enforced s \<and> mode = PM_P2P_GO_MODE) \<and>
                 is_dfs_ch \<and> policy_mgr_disallow_mcc env ch_freq s then False
         else if \<not> policy_mgr_is_hw_dbs_capable env s \<and> num_connections \<noteq> 0 \<and> is_24ghz_ch_freq env ch_freq \<and>
                 policy_mgr_is_sap_p2pgo_on_dfs env s then False
         else True)"

definition policy_mgr_is_concurrency_allowed ::
  "pm_env \<Rightarrow> policy_mgr_con_mode \<Rightarrow> u32 \<Rightarrow> hw_mode_bandwidth \<Rightarrow> pm_state \<Rightarrow> bool" where
  "policy_mgr_is_concurrency_allowed env mode ch_freq bw s =
     (let num_connections = policy_mgr_get_connection_count s;
          stas = policy_mgr_mode_specific_connection_count PM_STA_MODE s
      in if num_connections \<noteq> 0 \<and> sub_20_mhz_enabled s then False
         else if policy_mgr_max_concurrent_connections_reached env s then False
         else if ch_freq \<noteq> 0 \<and> \<not> channel_allowed env mode ch_freq bw num_connections s then False
         else if mode = PM_STA_MODE \<and> stas \<noteq> 0 \<and> (stas \<ge> 2 \<or> \<not> policy_mgr_allow_multiple_sta_connections env) then False
         else if \<not> policy_mgr_allow_sap_go_concurrency env mode ch_freq None s then False
         else if ch_freq \<noteq> 0 \<and> mode = PM_P2P_GO_MODE \<and> num_connections \<noteq> 0 \<and>
                 list_ex (\<lambda>i. is_same_band_freqs env ch_freq (c_freq (conns s ! i))) (mode_specific_list PM_P2P_GO_MODE s)
         then False
         else policy_mgr_allow_wapi_concurrency env s)"

section \<open>Queries on the table\<close>

definition policy_mgr_get_chan_by_session_id :: "u32 \<Rightarrow> pm_state \<Rightarrow> u32 option" where
  "policy_mgr_get_chan_by_session_id vdev_id s =
     map_option (\<lambda>i. c_freq (conns s ! i)) (first_in_use (\<lambda>c. c_vdev_id c = vdev_id) (conns s))"

definition policy_mgr_get_mac_id_by_session_id :: "u32 \<Rightarrow> pm_state \<Rightarrow> u8 option" where
  "policy_mgr_get_mac_id_by_session_id vdev_id s =
     map_option (\<lambda>i. c_mac (conns s ! i)) (first_in_use (\<lambda>c. c_vdev_id c = vdev_id) (conns s))"

definition policy_mgr_is_scc_with_this_vdev_id :: "u32 \<Rightarrow> pm_state \<Rightarrow> bool" where
  "policy_mgr_is_scc_with_this_vdev_id vdev_id s =
     (case policy_mgr_get_chan_by_session_id vdev_id s of
        None \<Rightarrow> False
      | Some ch_freq \<Rightarrow> list_ex (\<lambda>c. c_vdev_id c \<noteq> vdev_id \<and> c_in_use c \<and> c_freq c = ch_freq) (conns s))"

definition policy_mgr_is_sta_sap_scc :: "u32 \<Rightarrow> pm_state \<Rightarrow> bool" where
  "policy_mgr_is_sta_sap_scc sap_freq s =
     (if policy_mgr_mode_specific_connection_count PM_STA_MODE s = 0 then False
      else first_in_use (\<lambda>c. (c_mode c = PM_STA_MODE \<or> c_mode c = PM_P2P_CLIENT_MODE) \<and> sap_freq = c_freq c)
             (conns s) \<noteq> None)"

definition policy_mgr_is_sta_gc_active_on_mac :: "u8 \<Rightarrow> pm_state \<Rightarrow> bool" where
  "policy_mgr_is_sta_gc_active_on_mac mac_id s \<longleftrightarrow>
     list_ex (\<lambda>i. mac_id = c_mac (conns s ! i)) (mode_specific_list PM_STA_MODE s) \<or>
     list_ex (\<lambda>i. mac_id = c_mac (conns s ! i)) (mode_specific_list PM_P2P_CLIENT_MODE s)"

definition policy_mgr_get_dfs_beaconing_session_id :: "pm_env \<Rightarrow> pm_state \<Rightarrow> u32 option" where
  "policy_mgr_get_dfs_beaconing_session_id env s =
     map_option (\<lambda>i. c_vdev_id (conns s ! i))
       (first_in_use (\<lambda>c. is_5ghz_ch_freq env (c_freq c) \<and> on_dfs env c \<and> is_ap (c_mode c)) (conns s))"

definition policy_mgr_is_multiple_active_sta_sessions :: "pm_state \<Rightarrow> bool" where
  "policy_mgr_is_multiple_active_sta_sessions s \<longleftrightarrow> policy_mgr_mode_specific_connection_count PM_STA_MODE s > 1"

definition policy_mgr_is_sta_active_connection_exists :: "pm_state \<Rightarrow> bool" where
  "policy_mgr_is_sta_active_connection_exists s \<longleftrightarrow> policy_mgr_mode_specific_connection_count PM_STA_MODE s \<noteq> 0"

definition policy_mgr_concurrent_open_sessions_running :: "pm_env \<Rightarrow> pm_state \<Rightarrow> bool" where
  "policy_mgr_concurrent_open_sessions_running env s \<longleftrightarrow>
     unat (sum_list (map (no_of_open_sessions s) [0..<QDF_MAX_NO_OF_MODE env])) > 1"

definition policy_mgr_concurrent_beaconing_sessions_running :: "pm_env \<Rightarrow> pm_state \<Rightarrow> bool" where
  "policy_mgr_concurrent_beaconing_sessions_running env s \<longleftrightarrow>
     unat (no_of_open_sessions s (qdf_num env QDF_SAP_MODE)) + unat (no_of_open_sessions s (qdf_num env QDF_P2P_GO_MODE)) > 1"

section \<open>Connections and channel switches\<close>

text \<open>The check of a fourth connection, in a build with one; \<open>pcl\<close> is the preferred channel list.\<close>

definition policy_mgr_is_concurrency_allowed_4_port ::
  "pm_env \<Rightarrow> policy_mgr_con_mode \<Rightarrow> u32 \<Rightarrow> u32 list \<Rightarrow> pm_state \<Rightarrow> bool" where
  "policy_mgr_is_concurrency_allowed_4_port env mode ch_freq pcl s =
     (if length (conns s) \<noteq> 4 then False
      else if ch_freq = 0 \<and> mode = PM_STA_MODE then True
      else if policy_mgr_mode_specific_connection_count PM_SAP_MODE s \<noteq> 0 \<or>
              policy_mgr_mode_specific_connection_count PM_P2P_GO_MODE s \<noteq> 0
      then if mcc_to_scc_switch (cfg s) \<noteq> QDF_MCC_TO_SCC_SWITCH_FORCE_WITHOUT_DISCONNECTION then False
           else if \<not> policy_mgr_is_dbs_enable s \<or> sta_sap_scc_on_dfs_chnl (cfg s) = 0 \<or>
                   sta_sap_scc_on_lte_coex_chnl (cfg s) = 0 then False
           else list_ex (\<lambda>f. ch_freq = f) pcl
      else True)"

definition policy_mgr_allow_concurrency ::
  "pm_env \<Rightarrow> policy_mgr_con_mode \<Rightarrow> u32 \<Rightarrow> hw_mode_bandwidth \<Rightarrow> pm_state \<Rightarrow> bool" where
  "policy_mgr_allow_concurrency env mode ch_freq bw s =
     (case env_pcl env mode (conns s) of
        None \<Rightarrow> False
      | Some pcl \<Rightarrow>
          let allowed = policy_mgr_is_concurrency_allowed env mode ch_freq bw s
          in if allowed \<and> policy_mgr_get_connection_count s = 3
             then policy_mgr_is_concurrency_allowed_4_port env mode ch_freq pcl s else allowed)"

datatype sap_csa_reason_code =
    CSA_REASON_UNKNOWN | CSA_REASON_STA_CONNECT_DFS_TO_NON_DFS | CSA_REASON_USER_INITIATED
  | CSA_REASON_PEER_ACTION_FRAME | CSA_REASON_PRE_CAC_SUCCESS | CSA_REASON_CONCURRENT_STA_CHANGED_CHANNEL
  | CSA_REASON_UNSAFE_CHANNEL | CSA_REASON_LTE_COEX | CSA_REASON_CONCURRENT_NAN_EVENT
  | CSA_REASON_BAND_RESTRICTED | CSA_REASON_DCS | CSA_REASON_CHAN_DISABLED | CSA_REASON_CHAN_PASSIVE

text \<open>Whether all connections of the mode on the old channel will switch.\<close>

definition switches_all :: "bool \<Rightarrow> sap_csa_reason_code \<Rightarrow> bool" where
  "switches_all forced reason \<longleftrightarrow> forced \<and> (reason = CSA_REASON_UNSAFE_CHANNEL \<or> reason = CSA_REASON_DCS)"

definition policy_mgr_allow_concurrency_csa ::
  "pm_env \<Rightarrow> policy_mgr_con_mode \<Rightarrow> u32 \<Rightarrow> u32 \<Rightarrow> bool \<Rightarrow> sap_csa_reason_code \<Rightarrow> pm_state \<Rightarrow> bool \<times> pm_state" where
  "policy_mgr_allow_concurrency_csa env mode ch_freq vdev_id forced reason s =
     (case policy_mgr_get_chan_by_session_id vdev_id s of
        None \<Rightarrow> (False, s)
      | Some old_ch_freq \<Rightarrow>
          let (info, s1) = (if switches_all forced reason
                            then policy_mgr_store_and_del_conn_info_by_chan_and_mode old_ch_freq mode s
                            else policy_mgr_store_and_del_conn_info_by_vdev_id vdev_id s);
              allow = policy_mgr_allow_concurrency env mode ch_freq HW_MODE_20_MHZ s1
          in (allow, if info \<noteq> [] then policy_mgr_restore_deleted_conn_info info s1 else s1))"

end
