(* ===== verification/Pm_Inv.thy ===== *)
theory Pm_Inv
  imports Pm_Allow "HOL-Library.Multiset"
begin

text \<open>
  The connection table as a list: the entries in use are its front, the operations append to it
  and delete from it.  The 6 GHz flags stay at their positions and are left out of the list.
\<close>

section \<open>The front of the table\<close>

definition strip :: "policy_mgr_conc_connection_info \<Rightarrow> policy_mgr_conc_connection_info" where
  "strip c = c\<lparr>c_6ghz_flag := 0\<rparr>"

lemma strip_simps [simp]:
  "c_mode (strip c) = c_mode c" "c_freq (strip c) = c_freq c" "c_vdev_id (strip c) = c_vdev_id c"
  "c_in_use (strip c) = c_in_use c" "c_mac (strip c) = c_mac c" "c_ch_flagext (strip c) = c_ch_flagext c"
  "strip (copy_conn a b) = strip a" "strip (strip c) = strip c"
  by (simp_all add: strip_def copy_conn_def)

lemma copy_conn_simps [simp]:
  "c_mode (copy_conn a b) = c_mode a" "c_freq (copy_conn a b) = c_freq a" "c_vdev_id (copy_conn a b) = c_vdev_id a"
  "c_in_use (copy_conn a b) = c_in_use a" "c_6ghz_flag (copy_conn a b) = c_6ghz_flag b"
  by (simp_all add: copy_conn_def)

lemma zero_conn_unused [simp]: "\<not> c_in_use zero_conn"
  by (simp add: zero_conn_def)

definition used :: "pm_state \<Rightarrow> policy_mgr_conc_connection_info list" where
  "used s = map strip (valid_prefix (conns s))"

text \<open>Nothing is in use behind the front.\<close>

definition compact :: "policy_mgr_conc_connection_info list \<Rightarrow> bool" where
  "compact t \<longleftrightarrow> filter c_in_use t = valid_prefix t"

definition vdevs :: "pm_state \<Rightarrow> u32 list" where
  "vdevs s = map c_vdev_id (used s)"

definition pm_ok :: "pm_state \<Rightarrow> bool" where
  "pm_ok s \<longleftrightarrow> compact (conns s) \<and> distinct (vdevs s)"

lemma compact_append: "list_all c_in_use xs \<Longrightarrow> compact (xs @ ys) \<longleftrightarrow> compact ys"
  by (induction xs) (auto simp: compact_def valid_prefix_def)

lemma valid_prefix_append:
  "list_all c_in_use xs \<Longrightarrow> valid_prefix (xs @ ys) = xs @ valid_prefix ys"
  by (induction xs) (auto simp: valid_prefix_def)

lemma valid_prefix_all: "list_all c_in_use (valid_prefix t)"
  by (auto simp: valid_prefix_def list_all_iff dest: set_takeWhileD)

lemma compact_rest: "compact ys \<Longrightarrow> valid_prefix ys = [] \<Longrightarrow> list_all (\<lambda>c. \<not> c_in_use c) ys"
  by (auto simp: compact_def filter_empty_conv list_all_iff)

lemma unused_compact: "list_all (\<lambda>c. \<not> c_in_use c) ys \<Longrightarrow> compact ys \<and> valid_prefix ys = []"
  by (induction ys) (auto simp: compact_def valid_prefix_def)

text \<open>The table splits into the entries in use and the others.\<close>

lemma split_table:
  assumes "compact t"
  obtains zs where "t = valid_prefix t @ zs" "list_all (\<lambda>c. \<not> c_in_use c) zs"
proof -
  have eq: "t = valid_prefix t @ dropWhile c_in_use t" by (simp add: valid_prefix_def)
  have "compact (valid_prefix t @ dropWhile c_in_use t)" using assms eq by simp
  then have "compact (dropWhile c_in_use t)" using compact_append [OF valid_prefix_all] by blast
  moreover have "valid_prefix (dropWhile c_in_use t) = []"
    by (induction t) (simp_all add: valid_prefix_def)
  ultimately show thesis using that [OF eq] compact_rest by blast
qed

section \<open>Loops\<close>

lemma valid_nth: "list_all c_in_use xs \<Longrightarrow> c_in_use y \<Longrightarrow> PM_CONC_CONNECTION_LIST_VALID_INDEX (xs @ y # zs) (length xs)"
  by (simp add: PM_CONC_CONNECTION_LIST_VALID_INDEX_def)

lemma find_valid_from:
  "list_all c_in_use (xs @ ys) \<Longrightarrow> list_all (\<lambda>c. \<not> P c) ys \<Longrightarrow>
     find_valid P (xs @ ys @ zs) (length xs) = find_valid P (xs @ ys @ zs) (length (xs @ ys))"
proof (induction ys arbitrary: xs)
  case (Cons y ys)
  have "find_valid P (xs @ (y # ys) @ zs) (length xs) = find_valid P ((xs @ [y]) @ ys @ zs) (length (xs @ [y]))"
    using Cons.prems by (subst find_valid.simps) (simp add: PM_CONC_CONNECTION_LIST_VALID_INDEX_def)
  then show ?case using Cons.IH [of "xs @ [y]"] Cons.prems by simp
qed simp

lemma find_valid_hit:
  assumes "list_all c_in_use xs" "c_in_use y" "list_all (\<lambda>c. \<not> P c) xs" "P y"
  shows "find_valid P (xs @ y # zs) 0 = Some (length xs)"
proof -
  have "find_valid P (xs @ y # zs) 0 = find_valid P (xs @ y # zs) (length xs)"
    using find_valid_from [of "[]" xs P "y # zs"] assms by simp
  also have "\<dots> = Some (length xs)"
    using assms by (subst find_valid.simps) (simp add: valid_nth)
  finally show ?thesis .
qed

lemma find_valid_miss:
  assumes "list_all (\<lambda>c. \<not> P c) (valid_prefix t)"
  shows "find_valid P t 0 = None"
proof -
  obtain zs where t: "t = valid_prefix t @ zs" "zs = [] \<or> \<not> c_in_use (hd zs)"
    using hd_dropWhile [of c_in_use t] by (metis takeWhile_dropWhile_id valid_prefix_def)
  have "find_valid P (valid_prefix t @ zs) 0 = find_valid P (valid_prefix t @ zs) (length (valid_prefix t))"
    using find_valid_from [of "[]" "valid_prefix t" P zs] valid_prefix_all assms by simp
  moreover have "find_valid P (valid_prefix t @ zs) (length (valid_prefix t)) = None"
    using t(2) by (subst find_valid.simps) (cases zs; simp add: PM_CONC_CONNECTION_LIST_VALID_INDEX_def)
  ultimately show ?thesis using t(1) by simp
qed

text \<open>The entries moved forward; each keeps the flags of its new place.\<close>

fun shifted :: "policy_mgr_conc_connection_info list \<Rightarrow> policy_mgr_conc_connection_info list" where
  "shifted (x # y # ys) = copy_conn y x # shifted (y # ys)"
| "shifted _ = []"

lemma shifted_simps [simp]: "map strip (shifted (x # ys)) = map strip ys" "length (shifted (x # ys)) = length ys"
  by (induction ys arbitrary: x) simp_all

lemma shifted_in_use: "list_all c_in_use ys \<Longrightarrow> list_all c_in_use (shifted (x # ys))"
  by (induction ys arbitrary: x) simp_all

lemma shift_conns_spec:
  assumes "list_all c_in_use ys" "zs = [] \<or> \<not> c_in_use (hd zs)"
  shows "\<exists>l. shift_conns (xs @ x # ys @ zs) (length xs) (Suc (length xs)) =
    (xs @ shifted (x # ys) @ l # zs, Suc (length xs + length ys))"
  using assms(1)
proof (induction ys arbitrary: xs x)
  case Nil
  then show ?case using assms(2)
    by (subst shift_conns.simps) (cases zs; simp add: PM_CONC_CONNECTION_LIST_VALID_INDEX_def nth_append)
next
  case (Cons y ys)
  have "shift_conns (xs @ x # (y # ys) @ zs) (length xs) (Suc (length xs)) =
      shift_conns ((xs @ [copy_conn y x]) @ y # ys @ zs) (length (xs @ [copy_conn y x])) (Suc (length (xs @ [copy_conn y x])))"
    using Cons.prems by (subst shift_conns.simps) (simp add: PM_CONC_CONNECTION_LIST_VALID_INDEX_def nth_append)
  then show ?case using Cons.IH [of "xs @ [copy_conn y x]" y] Cons.prems by simp
qed

section \<open>Deleting\<close>

text \<open>What deleting does to a table whose first entry with the vdev is \<open>y\<close>.\<close>

lemma decr_table:
  assumes t: "conns s = xs @ y # ys @ zs" and inuse: "list_all c_in_use (xs @ y # ys)" and zs: "list_all (\<lambda>c. \<not> c_in_use c) zs"
    and first: "list_all (\<lambda>c. c_vdev_id c \<noteq> c_vdev_id y) xs"
  shows "policy_mgr_decr_connection_count (c_vdev_id y) s =
    (QDF_STATUS_SUCCESS, s\<lparr>conns := xs @ shifted (y # ys) @ zero_conn # zs\<rparr>)"
proof -
  have "find_valid (\<lambda>c. c_vdev_id c = c_vdev_id y) (conns s) 0 = Some (length xs)"
    unfolding t using inuse first by (intro find_valid_hit) simp_all
  moreover obtain l where l: "shift_conns (conns s) (length xs) (Suc (length xs)) =
      (xs @ shifted (y # ys) @ l # zs, Suc (length xs + length ys))"
    using shift_conns_spec [of ys zs xs y] t inuse zs by (cases zs) auto
  moreover have "(xs @ shifted (y # ys) @ l # zs)[length xs + length ys := zero_conn] = xs @ shifted (y # ys) @ zero_conn # zs"
    using list_update_append [of "xs @ shifted (y # ys)" "l # zs" "length xs + length ys" zero_conn] by simp
  ultimately show ?thesis by (simp add: policy_mgr_decr_connection_count_def)
qed

lemma vdevs_conv: "vdevs s = map c_vdev_id (valid_prefix (conns s))"
  by (simp add: vdevs_def used_def comp_def)

lemma split_vdev:
  assumes ok: "pm_ok s" and v: "v \<in> set (vdevs s)"
  obtains xs y ys zs where "conns s = xs @ y # ys @ zs" "valid_prefix (conns s) = xs @ y # ys" "c_vdev_id y = v"
    "list_all c_in_use (xs @ y # ys)" "list_all (\<lambda>c. \<not> c_in_use c) zs" "v \<notin> c_vdev_id ` set (xs @ ys)"
proof -
  obtain zs where zs: "conns s = valid_prefix (conns s) @ zs" "list_all (\<lambda>c. \<not> c_in_use c) zs"
    using split_table ok by (auto simp: pm_ok_def)
  obtain y where "y \<in> set (valid_prefix (conns s))" "c_vdev_id y = v" using v by (auto simp: vdevs_conv)
  then obtain xs ys where p: "valid_prefix (conns s) = xs @ y # ys" by (meson split_list)
  have "distinct (map c_vdev_id (xs @ y # ys))" using ok by (simp add: pm_ok_def vdevs_conv p)
  then have "v \<notin> c_vdev_id ` set (xs @ ys)" using \<open>c_vdev_id y = v\<close> by auto
  then show thesis using that [of xs y ys zs] zs p \<open>c_vdev_id y = v\<close> valid_prefix_all [of "conns s"] by simp
qed

lemma filter_others: "v \<notin> f ` set xs \<Longrightarrow> filter (\<lambda>c. f c \<noteq> v) xs = xs"
  by (induction xs) auto

lemma decr_spec:
  assumes ok: "pm_ok s" and v: "v \<in> set (vdevs s)"
  obtains t where "policy_mgr_decr_connection_count v s = (QDF_STATUS_SUCCESS, s\<lparr>conns := t\<rparr>)"
    "used (s\<lparr>conns := t\<rparr>) = filter (\<lambda>c. c_vdev_id c \<noteq> v) (used s)" "compact t" "length t = length (conns s)"
proof -
  obtain xs y ys zs where sp: "conns s = xs @ y # ys @ zs" "valid_prefix (conns s) = xs @ y # ys" "c_vdev_id y = v"
    "list_all c_in_use (xs @ y # ys)" "list_all (\<lambda>c. \<not> c_in_use c) zs" "v \<notin> c_vdev_id ` set (xs @ ys)"
    by (rule split_vdev [OF ok v])
  let ?t = "(xs @ shifted (y # ys)) @ zero_conn # zs"
  have "list_all (\<lambda>c. c_vdev_id c \<noteq> c_vdev_id y) xs" using sp(3,6) by (induction xs) auto
  then have d: "policy_mgr_decr_connection_count v s = (QDF_STATUS_SUCCESS, s\<lparr>conns := ?t\<rparr>)"
    using decr_table [OF sp(1,4,5)] sp(3) by simp
  have all: "list_all c_in_use (xs @ shifted (y # ys))" using sp(4) shifted_in_use by simp
  have rest: "compact (zero_conn # zs)" "valid_prefix (zero_conn # zs) = []"
    using unused_compact [of "zero_conn # zs"] sp(5) by simp_all
  have "used (s\<lparr>conns := ?t\<rparr>) = map strip xs @ map strip ys"
    unfolding used_def using valid_prefix_append [OF all, of "zero_conn # zs"] rest by simp
  moreover have "filter (\<lambda>c. c_vdev_id c \<noteq> v) (used s) = map strip xs @ map strip ys"
    using sp(2,3,6) by (simp add: used_def filter_map comp_def filter_others image_Un)
  moreover have "compact ?t" using compact_append [OF all] rest by blast
  moreover have "length ?t = length (conns s)" using sp(1) by simp
  ultimately show thesis using that [OF d] by simp
qed

lemma decr_missing: "v \<notin> set (vdevs s) \<Longrightarrow> policy_mgr_decr_connection_count v s = (QDF_STATUS_E_FAILURE, s)"
  using find_valid_miss [of "\<lambda>c. c_vdev_id c = v" "conns s"]
  by (fastforce simp: policy_mgr_decr_connection_count_def vdevs_conv list_all_iff image_iff)

lemma decr_split:
  assumes ok: "pm_ok s" and u: "used s = us @ y # ws"
  obtains t where "policy_mgr_decr_connection_count (c_vdev_id y) s = (QDF_STATUS_SUCCESS, s\<lparr>conns := t\<rparr>)"
    "used (s\<lparr>conns := t\<rparr>) = us @ ws" "pm_ok (s\<lparr>conns := t\<rparr>)" "length t = length (conns s)"
proof -
  have v: "c_vdev_id y \<in> set (vdevs s)" by (simp add: vdevs_def u)
  have dist: "distinct (map c_vdev_id (us @ y # ws))" using ok by (simp add: pm_ok_def vdevs_def u)
  obtain t where t: "policy_mgr_decr_connection_count (c_vdev_id y) s = (QDF_STATUS_SUCCESS, s\<lparr>conns := t\<rparr>)"
    "used (s\<lparr>conns := t\<rparr>) = filter (\<lambda>c. c_vdev_id c \<noteq> c_vdev_id y) (used s)" "compact t" "length t = length (conns s)"
    by (rule decr_spec [OF ok v])
  have "filter (\<lambda>c. c_vdev_id c \<noteq> c_vdev_id y) (used s) = us @ ws"
    using dist unfolding u by (simp add: filter_others)
  then show thesis using that [OF t(1)] t(2-4) dist by (auto simp: pm_ok_def vdevs_def)
qed

section \<open>Counting\<close>

lemma filter_nth: "map (\<lambda>i. xs ! i) (filter (\<lambda>i. P (xs ! i)) [0..<length xs]) = filter P xs"
  by (simp add: filter_map [unfolded comp_def, of P "\<lambda>i. xs ! i", symmetric] map_nth)

lemma length_used: "compact (conns s) \<Longrightarrow> policy_mgr_get_connection_count s = length (used s)"
  by (simp add: policy_mgr_get_connection_count_def used_def compact_def)

lemma length_used_le: "length (used s) \<le> length (conns s)"
  by (simp add: used_def valid_prefix_def length_takeWhile_le)

lemma mode_specific_conns:
  "map (\<lambda>i. conns s ! i) (mode_specific_list m s) = filter (\<lambda>c. c_mode c = m \<and> c_in_use c) (conns s)"
  unfolding mode_specific_list_def by (rule filter_nth)

lemma mode_count:
  assumes "compact (conns s)"
  shows "policy_mgr_mode_specific_connection_count m s = length (filter (\<lambda>c. c_mode c = m) (used s))"
proof -
  have "policy_mgr_mode_specific_connection_count m s = length (filter (\<lambda>c. c_mode c = m \<and> c_in_use c) (conns s))"
    unfolding policy_mgr_mode_specific_connection_count_def mode_specific_conns [symmetric] by simp
  also have "filter (\<lambda>c. c_mode c = m \<and> c_in_use c) (conns s) = filter (\<lambda>c. c_mode c = m) (filter c_in_use (conns s))"
    by (simp add: conj_commute)
  finally show ?thesis using assms unfolding compact_def used_def by (simp add: filter_map comp_def del: filter_filter)
qed

section \<open>Restoring\<close>

lemma restore_spec:
  assumes ok: "pm_ok s" and info: "info \<noteq> []" "list_all c_in_use info" "length info < length (conns s)"
    and fits: "length (used s) + length info \<le> length (conns s)"
  obtains t where "policy_mgr_restore_deleted_conn_info info s =
      add_active (pm_num (c_mode (hd info))) (of_nat (length info)) (s\<lparr>conns := t\<rparr>)"
    "used (s\<lparr>conns := t\<rparr>) = used s @ map strip info" "compact t" "length t = length (conns s)"
proof -
  obtain zs where zs: "conns s = valid_prefix (conns s) @ zs" "list_all (\<lambda>c. \<not> c_in_use c) zs"
    using split_table ok by (auto simp: pm_ok_def)
  let ?n = "length (valid_prefix (conns s))"
  have n: "policy_mgr_get_connection_count s = ?n" using length_used ok by (simp add: pm_ok_def used_def)
  have n_less: "?n < length (conns s)" "?n + length info \<le> length (conns s)"
    using fits info(1) by (cases info; simp add: used_def)+
  let ?t = "valid_prefix (conns s) @ info @ drop (length info) zs"
  have len: "length ?t = length (conns s)" using n_less by (subst (2) zs(1)) (simp, subst (asm) (3) zs(1), simp)
  have take: "take ?n (conns s) = valid_prefix (conns s)" "drop (?n + length info) (conns s) = drop (length info) zs"
    by (subst (2) zs(1), simp)+
  have t: "copy_at ?n info (conns s) = ?t"
    unfolding copy_at_def take using len by (metis order_refl take_all)
  have all: "list_all c_in_use (valid_prefix (conns s) @ info)" using valid_prefix_all info(2) by simp
  have rest: "compact (drop (length info) zs)" "valid_prefix (drop (length info) zs) = []"
    using unused_compact [of "drop (length info) zs"] zs(2) by (auto simp: list_all_iff dest: in_set_dropD)
  have "policy_mgr_restore_deleted_conn_info info s =
      add_active (pm_num (c_mode (hd info))) (of_nat (length info)) (s\<lparr>conns := ?t\<rparr>)"
    using info n n_less t by (simp add: policy_mgr_restore_deleted_conn_info_def not_less)
  moreover have "used (s\<lparr>conns := ?t\<rparr>) = used s @ map strip info"
    using valid_prefix_append [OF all, of "drop (length info) zs"] rest by (simp add: used_def)
  moreover have "compact ?t" using compact_append [OF all] rest by simp
  ultimately show thesis using that len by blast
qed

end
