(* ===== verification/Pm_Store.thy ===== *)
theory Pm_Store
  imports Pm_Inv
begin

text \<open>
  Deleting several entries of the connection table, storing them away and putting them back.  The
  locale states what deleting by a key means for a table; the loops of the code are folds of it.
\<close>

section \<open>Deleting by key\<close>

lemma image_others: "K \<subseteq> f ` A \<Longrightarrow> k \<notin> K \<Longrightarrow> K \<subseteq> f ` {x \<in> A. f x \<noteq> k}"
  by blast

locale keyed_table =
  fixes ok :: "'s \<Rightarrow> bool"
    and entries :: "'s \<Rightarrow> 'e list"
    and key :: "'e \<Rightarrow> 'k"
    and del :: "'k \<Rightarrow> 's \<Rightarrow> 's"
  assumes keys_distinct: "ok s \<Longrightarrow> distinct (map key (entries s))"
    and entries_del: "ok s \<Longrightarrow> k \<in> key ` set (entries s) \<Longrightarrow> entries (del k s) = filter (\<lambda>e. key e \<noteq> k) (entries s)"
    and ok_del: "ok s \<Longrightarrow> k \<in> key ` set (entries s) \<Longrightarrow> ok (del k s)"
begin

lemma del_list:
  "ok s \<Longrightarrow> distinct ks \<Longrightarrow> set ks \<subseteq> key ` set (entries s) \<Longrightarrow>
     ok (fold del ks s) \<and> entries (fold del ks s) = filter (\<lambda>e. key e \<notin> set ks) (entries s)"
proof (induction ks arbitrary: s)
  case (Cons k ks)
  have e: "entries (del k s) = filter (\<lambda>e. key e \<noteq> k) (entries s)" and o: "ok (del k s)"
    using Cons.prems by (auto intro: entries_del ok_del)
  have "set ks \<subseteq> key ` set (entries (del k s))" using image_others [of "set ks" key "set (entries s)" k] Cons.prems by (simp add: e)
  then have "ok (fold del ks (del k s)) \<and>
      entries (fold del ks (del k s)) = filter (\<lambda>x. key x \<notin> set ks) (entries (del k s))"
    using Cons.IH [OF o] Cons.prems(2) by simp
  then show ?case by (simp add: e conj_commute cong: conj_cong)
qed simp

text \<open>Deleting the keys of the entries that satisfy a predicate leaves the others, in order.\<close>

lemma del_matching:
  assumes "ok s"
  shows "ok (fold del (map key (filter P (entries s))) s)"
    and "entries (fold del (map key (filter P (entries s))) s) = filter (\<lambda>e. \<not> P e) (entries s)"
proof -
  have inj: "inj_on key (set (entries s))" using keys_distinct [OF assms] by (simp add: distinct_map)
  have "distinct (map key (filter P (entries s)))" using keys_distinct [OF assms] by (rule distinct_map_filter)
  note d = del_list [OF assms this]
  have "filter (\<lambda>e. key e \<notin> set (map key (filter P (entries s)))) (entries s) = filter (\<lambda>e. \<not> P e) (entries s)"
    using inj by (intro filter_cong) (auto simp: inj_on_def)
  then show "ok (fold del (map key (filter P (entries s))) s)"
    and "entries (fold del (map key (filter P (entries s))) s) = filter (\<lambda>e. \<not> P e) (entries s)"
    using d by auto
qed

end

lemma used_simps [simp]:
  "used (add_active n d s) = used s" "conns (add_active n d s) = conns s" "used (log_event ev s) = used s"
  "conns (log_event ev s) = conns s" "used (callback env cb ev s) = used s" "conns (callback env cb ev s) = conns s"
  by (simp_all add: used_def add_active_def log_event_def callback_def)

lemma active_add_active:
  "no_of_active_sessions (add_active n d s) = (no_of_active_sessions s)(n := no_of_active_sessions s n + d)"
  by (simp add: add_active_def)

lemma pm_ok_cong: "conns s = conns s' \<Longrightarrow> pm_ok s = pm_ok s'"
  by (simp add: pm_ok_def vdevs_def used_def)

lemma pm_ok_simps [simp]:
  "pm_ok (add_active n d s) = pm_ok s" "pm_ok (log_event ev s) = pm_ok s" "pm_ok (callback env cb ev s) = pm_ok s"
  by (rule pm_ok_cong, simp)+

lemma add_active_simps:
  "add_active n d (add_active n e s) = add_active n (e + d) s"
  "(add_active n d s)\<lparr>conns := t\<rparr> = add_active n d (s\<lparr>conns := t\<rparr>)"
  "add_active n 0 s = s"
  by (simp_all add: add_active_def add.assoc)

text \<open>Deleting the entry of a vdev and lowering a counter.\<close>

definition del_conn :: "nat \<Rightarrow> u32 \<Rightarrow> pm_state \<Rightarrow> pm_state" where
  "del_conn n v s = add_active n (- 1) (snd (policy_mgr_decr_connection_count v s))"

lemma del_conn_spec:
  assumes ok: "pm_ok s" and v: "v \<in> c_vdev_id ` set (used s)"
  shows "used (del_conn n v s) = filter (\<lambda>c. c_vdev_id c \<noteq> v) (used s)" and "pm_ok (del_conn n v s)"
    and "\<exists>t. del_conn n v s = add_active n (- 1) (s\<lparr>conns := t\<rparr>) \<and> length t = length (conns s)"
proof -
  have "v \<in> set (vdevs s)" using v by (simp add: vdevs_def)
  then obtain t where t: "policy_mgr_decr_connection_count v s = (QDF_STATUS_SUCCESS, s\<lparr>conns := t\<rparr>)"
    "used (s\<lparr>conns := t\<rparr>) = filter (\<lambda>c. c_vdev_id c \<noteq> v) (used s)" "compact t" "length t = length (conns s)"
    using decr_spec [OF ok] by blast
  show "used (del_conn n v s) = filter (\<lambda>c. c_vdev_id c \<noteq> v) (used s)" using t by (simp add: del_conn_def)
  show "pm_ok (del_conn n v s)"
    using t ok by (simp add: del_conn_def pm_ok_def vdevs_def distinct_map_filter)
  show "\<exists>t. del_conn n v s = add_active n (- 1) (s\<lparr>conns := t\<rparr>) \<and> length t = length (conns s)"
    using t by (auto simp: del_conn_def)
qed

interpretation pmt: keyed_table pm_ok used c_vdev_id "del_conn n" for n
  by unfold_locales (simp add: pm_ok_def vdevs_def, rule del_conn_spec(1), assumption+, rule del_conn_spec(2), assumption+)

text \<open>Only the table and the counter change.\<close>

lemma del_conns_state:
  "pm_ok s \<Longrightarrow> distinct vs \<Longrightarrow> set vs \<subseteq> c_vdev_id ` set (used s) \<Longrightarrow>
     \<exists>t. fold (del_conn n) vs s = add_active n (- of_nat (length vs)) (s\<lparr>conns := t\<rparr>) \<and> length t = length (conns s)"
proof (induction vs arbitrary: s)
  case Nil
  have "fold (del_conn n) [] s = add_active n (- of_nat (length [])) (s\<lparr>conns := conns s\<rparr>)"
    by (simp add: add_active_simps)
  then show ?case by blast
next
  case (Cons v vs)
  have v: "v \<in> c_vdev_id ` set (used s)" using Cons.prems(3) by simp
  note d = del_conn_spec [OF Cons.prems(1) v, of n]
  obtain t where t: "del_conn n v s = add_active n (- 1) (s\<lparr>conns := t\<rparr>)" "length t = length (conns s)"
    using d(3) by blast
  have "set vs \<subseteq> c_vdev_id ` set (used (del_conn n v s))" 
    using image_others [of "set vs" c_vdev_id "set (used s)" v] Cons.prems(2,3) by (simp add: d(1))
  then obtain t' where t': "fold (del_conn n) vs (del_conn n v s) =
      add_active n (- of_nat (length vs)) ((del_conn n v s)\<lparr>conns := t'\<rparr>)" "length t' = length (conns (del_conn n v s))"
    using Cons.IH [OF d(2)] Cons.prems(2) by auto
  have "fold (del_conn n) (v # vs) s = add_active n (- of_nat (length (v # vs))) (s\<lparr>conns := t'\<rparr>)"
    using t'(1) by (simp add: t(1) add_active_simps)
  then show ?case using t'(2) t by auto
qed

lemma del_matching_state:
  assumes "pm_ok s"
  obtains t where
    "fold (del_conn n) (map c_vdev_id (filter P (used s))) s =
       add_active n (- of_nat (length (filter P (used s)))) (s\<lparr>conns := t\<rparr>)"
    "length t = length (conns s)" "used (s\<lparr>conns := t\<rparr>) = filter (\<lambda>c. \<not> P c) (used s)" "pm_ok (s\<lparr>conns := t\<rparr>)"
proof -
  have "distinct (map c_vdev_id (filter P (used s)))" using pmt.keys_distinct [OF assms] by (rule distinct_map_filter)
  then obtain t where t: "fold (del_conn n) (map c_vdev_id (filter P (used s))) s =
       add_active n (- of_nat (length (filter P (used s)))) (s\<lparr>conns := t\<rparr>)" "length t = length (conns s)"
    using del_conns_state [OF assms, of "map c_vdev_id (filter P (used s))" n] by auto
  moreover note pmt.del_matching [OF assms, of n P]
  ultimately show thesis using that [OF t] by (simp add: t)
qed

section \<open>Reading an entry\<close>

lemma valid_index:
  assumes "pm_ok s"
  shows "PM_CONC_CONNECTION_LIST_VALID_INDEX (conns s) i \<longleftrightarrow> i < length (used s)"
proof -
  obtain zs where zs: "conns s = valid_prefix (conns s) @ zs" "list_all (\<lambda>c. \<not> c_in_use c) zs"
    using split_table assms by (auto simp: pm_ok_def)
  have "PM_CONC_CONNECTION_LIST_VALID_INDEX (valid_prefix (conns s) @ zs) i \<longleftrightarrow> i < length (valid_prefix (conns s))"
    using zs(2) valid_prefix_all [of "conns s"]
    by (auto simp: PM_CONC_CONNECTION_LIST_VALID_INDEX_def nth_append list_all_length)
  then show ?thesis using zs(1) by (simp add: used_def)
qed

lemma used_nth: "i < length (used s) \<Longrightarrow> strip (conns s ! i) = used s ! i"
  by (simp add: used_def valid_prefix_def takeWhile_nth)

lemma used_nth_simps:
  assumes "used s = us @ y # ws"
  shows "strip (conns s ! length us) = y" "c_mode (conns s ! length us) = c_mode y"
    "c_vdev_id (conns s ! length us) = c_vdev_id y" "c_freq (conns s ! length us) = c_freq y"
proof -
  show y: "strip (conns s ! length us) = y" using used_nth [of "length us" s] assms by simp
  show "c_mode (conns s ! length us) = c_mode y" "c_vdev_id (conns s ! length us) = c_vdev_id y"
    "c_freq (conns s ! length us) = c_freq y" using y strip_simps by metis+
qed

section \<open>The loops that store entries away\<close>

lemma map_strip_eq:
  "map strip xs = ys \<Longrightarrow> map c_vdev_id xs = map c_vdev_id ys \<and> map c_mode xs = map c_mode ys"
  by auto

lemma store_loop_all:
  assumes "pm_ok s" "used s = us @ ws" "list_all (\<lambda>c. c_mode c = m) info"
  shows "\<exists>info'. store_and_del_loop m True (length us) info s =
      Some (info @ info', fold (del_conn (pm_num m)) (map c_vdev_id (filter (\<lambda>c. c_mode c = m) ws)) s) \<and>
    map strip info' = filter (\<lambda>c. c_mode c = m) ws"
  using assms
proof (induction ws arbitrary: us info s)
  case Nil
  then have "\<not> PM_CONC_CONNECTION_LIST_VALID_INDEX (conns s) (length us)" using valid_index by simp
  then show ?case by (subst store_and_del_loop.simps) simp
next
  case (Cons y ws)
  have valid: "PM_CONC_CONNECTION_LIST_VALID_INDEX (conns s) (length us)" using valid_index Cons.prems by simp
  note y = used_nth_simps [OF Cons.prems(2)]
  show ?case
  proof (cases "c_mode y = m")
    case False
    have "store_and_del_loop m True (length us) info s = store_and_del_loop m True (length (us @ [y])) info s"
      using valid False y by (subst store_and_del_loop.simps) simp
    then show ?thesis using Cons.IH [of s "us @ [y]" info] Cons.prems False by simp
  next
    case True
    let ?c = "conns s ! length us" and ?s = "del_conn (pm_num m) (c_vdev_id y) s"
    have hd: "c_mode (hd (info @ [?c])) = m" using Cons.prems(3) True y by (cases info) simp_all
    have step: "store_and_del_loop m True (length us) info s = store_and_del_loop m True (length us) (info @ [?c]) ?s"
      using valid True y hd by (subst store_and_del_loop.simps) (simp add: del_conn_def)
    have "c_vdev_id y \<in> c_vdev_id ` set (used s)" using Cons.prems(2) by simp
    note d = del_conn_spec(1,2) [OF Cons.prems(1) this, of "pm_num m"]
    have "distinct (map c_vdev_id (us @ y # ws))" using pmt.keys_distinct [OF Cons.prems(1)] Cons.prems(2) by simp
    then have u: "used ?s = us @ ws" unfolding d(1) Cons.prems(2) by (simp add: filter_others)
    have "list_all (\<lambda>c. c_mode c = m) (info @ [?c])" using Cons.prems(3) True y(2) by simp
    then obtain info' where i: "store_and_del_loop m True (length us) (info @ [?c]) ?s =
        Some ((info @ [?c]) @ info', fold (del_conn (pm_num m)) (map c_vdev_id (filter (\<lambda>c. c_mode c = m) ws)) ?s)"
      "map strip info' = filter (\<lambda>c. c_mode c = m) ws"
      using Cons.IH [OF d(2) u] by blast
    show ?thesis unfolding step i(1) using i(2) True y(1) by (intro exI [of _ "?c # info'"]) simp
  qed
qed

lemma store_loop_first:
  assumes "pm_ok s" "used s = us @ vs @ y # ws" "list_all (\<lambda>c. c_mode c \<noteq> m) vs" "c_mode y = m"
  shows "store_and_del_loop m False (length us) [] s =
    Some ([conns s ! length (us @ vs)], del_conn (pm_num m) (c_vdev_id y) s)"
  using assms(2,3)
proof (induction vs arbitrary: us)
  case Nil
  have u: "used s = us @ y # ws" using Nil by simp
  show ?case
    using valid_index [OF assms(1), of "length us"] used_nth_simps [OF u] u assms(4)
    by (subst store_and_del_loop.simps) (simp add: del_conn_def)
next
  case (Cons v vs)
  have u: "used s = us @ v # vs @ y # ws" using Cons.prems by simp
  have "store_and_del_loop m False (length us) [] s = store_and_del_loop m False (length (us @ [v])) [] s"
    using valid_index [OF assms(1), of "length us"] used_nth_simps [OF u] u Cons.prems(2)
    by (subst store_and_del_loop.simps) auto
  then show ?case using Cons.IH [of "us @ [v]"] Cons.prems by simp
qed

text \<open>Storing all entries of a mode.\<close>

lemma store_all_spec:
  assumes "pm_ok s"
  obtains info t where
    "policy_mgr_store_and_del_conn_info m True s =
       Some (info, add_active (pm_num m) (- of_nat (length info)) (s\<lparr>conns := t\<rparr>))"
    "map strip info = filter (\<lambda>c. c_mode c = m) (used s)" "used (s\<lparr>conns := t\<rparr>) = filter (\<lambda>c. c_mode c \<noteq> m) (used s)"
    "pm_ok (s\<lparr>conns := t\<rparr>)" "length t = length (conns s)"
proof -
  obtain info where i: "policy_mgr_store_and_del_conn_info m True s =
      Some (info, fold (del_conn (pm_num m)) (map c_vdev_id (filter (\<lambda>c. c_mode c = m) (used s))) s)"
    "map strip info = filter (\<lambda>c. c_mode c = m) (used s)"
    using store_loop_all [OF assms, of "[]" "used s" m "[]"] by (auto simp: policy_mgr_store_and_del_conn_info_def)
  have "length info = length (filter (\<lambda>c. c_mode c = m) (used s))" using i(2) by (metis length_map)
  then show thesis
    using del_matching_state [OF assms, of "pm_num m" "\<lambda>c. c_mode c = m"] i that by metis
qed

text \<open>Storing the first entry of a mode.\<close>

lemma store_first_spec:
  assumes ok: "pm_ok s" and u: "used s = us @ y # ws" and m: "list_all (\<lambda>c. c_mode c \<noteq> m) us" "c_mode y = m"
  obtains c t where "policy_mgr_store_and_del_conn_info m False s =
       Some ([c], add_active (pm_num m) (- 1) (s\<lparr>conns := t\<rparr>))" "strip c = y"
    "used (s\<lparr>conns := t\<rparr>) = us @ ws" "pm_ok (s\<lparr>conns := t\<rparr>)" "length t = length (conns s)"
proof -
  obtain t where t: "policy_mgr_decr_connection_count (c_vdev_id y) s = (QDF_STATUS_SUCCESS, s\<lparr>conns := t\<rparr>)"
    "used (s\<lparr>conns := t\<rparr>) = us @ ws" "pm_ok (s\<lparr>conns := t\<rparr>)" "length t = length (conns s)"
    by (rule decr_split [OF ok u])
  have "policy_mgr_store_and_del_conn_info m False s =
      Some ([conns s ! length us], add_active (pm_num m) (- 1) (s\<lparr>conns := t\<rparr>))"
    using store_loop_first [OF ok, of "[]" us y ws m] u m t(1)
    by (simp add: policy_mgr_store_and_del_conn_info_def del_conn_def)
  then show thesis using that used_nth_simps(1) [OF u] t by blast
qed

text \<open>Storing the entries on a channel.\<close>

lemma fold_counted:
  "list_all (\<lambda>c. c_mode c = m) info \<Longrightarrow>
     fold (\<lambda>c s. add_active (pm_num (c_mode c)) (- 1) (snd (policy_mgr_decr_connection_count (c_vdev_id c) s))) info s =
     fold (del_conn (pm_num m)) (map c_vdev_id info) s"
  by (induction info arbitrary: s) (simp_all add: del_conn_def)

lemma strip_prefix_filter:
  assumes "\<And>c. P (strip c) = P c"
  shows "map strip (filter P (valid_prefix (conns s))) = filter P (used s)"
  using assms by (simp add: used_def filter_map comp_def)

lemma store_chan_spec:
  assumes "pm_ok s"
  obtains info t where
    "policy_mgr_store_and_del_conn_info_by_chan_and_mode f m s =
       (info, add_active (pm_num m) (- of_nat (length info)) (s\<lparr>conns := t\<rparr>))"
    "map strip info = filter (\<lambda>c. c_freq c = f \<and> c_mode c = m) (used s)"
    "used (s\<lparr>conns := t\<rparr>) = filter (\<lambda>c. \<not> (c_freq c = f \<and> c_mode c = m)) (used s)"
    "pm_ok (s\<lparr>conns := t\<rparr>)" "length t = length (conns s)"
proof -
  let ?P = "\<lambda>c. c_freq c = f \<and> c_mode c = m"
  let ?info = "filter ?P (valid_prefix (conns s))"
  have i: "map strip ?info = filter ?P (used s)" by (rule strip_prefix_filter) simp
  have v: "map c_vdev_id ?info = map c_vdev_id (filter ?P (used s))" using map_strip_eq [OF i] by simp
  obtain t where t: "fold (del_conn (pm_num m)) (map c_vdev_id (filter ?P (used s))) s =
       add_active (pm_num m) (- of_nat (length (filter ?P (used s)))) (s\<lparr>conns := t\<rparr>)"
    "length t = length (conns s)" "used (s\<lparr>conns := t\<rparr>) = filter (\<lambda>c. \<not> ?P c) (used s)" "pm_ok (s\<lparr>conns := t\<rparr>)"
    by (rule del_matching_state [OF assms])
  have l: "length (filter ?P (used s)) = length ?info" unfolding i [symmetric] by (rule length_map)
  have c: "list_all (\<lambda>c. c_mode c = m) ?info" by (auto simp: list_all_iff)
  have "policy_mgr_store_and_del_conn_info_by_chan_and_mode f m s =
      (?info, add_active (pm_num m) (- of_nat (length ?info)) (s\<lparr>conns := t\<rparr>))"
    unfolding policy_mgr_store_and_del_conn_info_by_chan_and_mode_def Let_def fold_counted [OF c] v t(1) l ..
  then show thesis using that i t by blast
qed

text \<open>Putting entries back that were stored away, with their counter.\<close>

lemma restore_stored:
  assumes ok: "pm_ok (s\<lparr>conns := t\<rparr>)" and info: "map strip info = filter P (used s)"
    and rest: "used (s\<lparr>conns := t\<rparr>) = filter (\<lambda>c. \<not> P c) (used s)" and len: "length t = length (conns s)"
    and mode: "\<And>c. c \<in> set (used s) \<Longrightarrow> P c \<Longrightarrow> c_mode c = m" and few: "length info < length (conns s)"
  shows "\<exists>t'. policy_mgr_restore_deleted_conn_info info (add_active (pm_num m) (- of_nat (length info)) (s\<lparr>conns := t\<rparr>)) =
      s\<lparr>conns := t'\<rparr> \<and> used (s\<lparr>conns := t'\<rparr>) = filter (\<lambda>c. \<not> P c) (used s) @ filter P (used s) \<and> compact t' \<and> length t' = length (conns s)"
proof (cases "info = []")
  case True
  then show ?thesis
    using ok rest info len by (auto simp: policy_mgr_restore_deleted_conn_info_def add_active_simps pm_ok_def)
next
  case False
  let ?s = "add_active (pm_num m) (- of_nat (length info)) (s\<lparr>conns := t\<rparr>)"
  have "list_all c_in_use (used s)" using valid_prefix_all [of "conns s"] by (auto simp: used_def list_all_iff)
  then have "list_all c_in_use (map strip info)" unfolding info by (auto simp: list_all_iff)
  then have all: "list_all c_in_use info" by (simp add: list_all_iff)
  have "strip (hd info) \<in> set (filter P (used s))" unfolding info [symmetric] using False by simp
  then have "strip (hd info) \<in> set (used s)" "P (strip (hd info))" by simp_all
  from mode [OF this] have hd: "c_mode (hd info) = m" by simp
  have "length (filter P (used s)) + length (filter (\<lambda>c. \<not> P c) (used s)) = length (used s)"
    by (rule sum_length_filter_compl)
  moreover have "length info = length (filter P (used s))" using info by (metis length_map)
  ultimately have fits: "length (used ?s) + length info \<le> length (conns ?s)" using rest len length_used_le [of s] by simp
  obtain t' where t': "policy_mgr_restore_deleted_conn_info info ?s =
      add_active (pm_num (c_mode (hd info))) (of_nat (length info)) (?s\<lparr>conns := t'\<rparr>)"
    "used (?s\<lparr>conns := t'\<rparr>) = used ?s @ map strip info" "compact t'" "length t' = length (conns ?s)"
    by (rule restore_spec [OF _ False all _ fits]) (use ok few len in simp_all)
  have "policy_mgr_restore_deleted_conn_info info ?s = s\<lparr>conns := t'\<rparr>"
    unfolding t'(1) hd by (simp add: add_active_simps)
  moreover have "used (s\<lparr>conns := t'\<rparr>) = used ?s @ map strip info" using t'(2) by (simp add: used_def)
  ultimately show ?thesis using t'(3,4) rest info len by auto
qed

section \<open>Finding a vdev\<close>

lemma filter_key: "distinct (map f xs) \<Longrightarrow> y \<in> set xs \<Longrightarrow> filter (\<lambda>x. f x = f y) xs = [y]"
  by (induction xs) (auto simp: filter_empty_conv, metis image_eqI)

lemma first_in_use_less: "first_in_use P t = Some i \<Longrightarrow> i < length t \<and> c_in_use (t ! i) \<and> P (t ! i)"
  by (auto simp: first_in_use_def find_Some_iff)

lemma first_in_use_None: "first_in_use P t = None \<longleftrightarrow> (\<forall>c\<in>set t. c_in_use c \<longrightarrow> \<not> P c)"
  by (auto simp: first_in_use_def find_None_iff all_set_conv_all_nth)

lemma in_use_mem:
  assumes "pm_ok s" "c \<in> set (conns s)" "c_in_use c"
  shows "strip c \<in> set (used s)"
proof -
  have "filter c_in_use (conns s) = valid_prefix (conns s)" using assms(1) by (simp add: pm_ok_def compact_def)
  then have "set (valid_prefix (conns s)) = {c \<in> set (conns s). c_in_use c}" by (metis set_filter)
  then show ?thesis using assms(2,3) by (simp add: used_def)
qed

lemma first_vdev:
  assumes "pm_ok s" "c \<in> set (used s)"
  obtains i where "first_in_use (\<lambda>x. c_vdev_id x = c_vdev_id c) (conns s) = Some i" "strip (conns s ! i) = c"
proof (cases "first_in_use (\<lambda>x. c_vdev_id x = c_vdev_id c) (conns s)")
  case None
  obtain x where x: "x \<in> set (valid_prefix (conns s))" "c = strip x" using assms(2) by (auto simp: used_def)
  then have "x \<in> set (conns s)" "c_in_use x" by (auto simp: valid_prefix_def dest: set_takeWhileD)
  moreover have "c_vdev_id x = c_vdev_id c" using x(2) by simp
  ultimately show thesis using None unfolding first_in_use_None by blast
next
  case (Some i)
  note i = first_in_use_less [OF Some]
  have "strip (conns s ! i) \<in> set (used s)" using i in_use_mem [OF assms(1)] by simp
  then have "strip (conns s ! i) = c"
    using i assms(2) pmt.keys_distinct [OF assms(1)] by (simp add: distinct_map inj_on_def)
  then show thesis using that Some by blast
qed

lemma store_vdev_spec:
  assumes ok: "pm_ok s" and y: "y \<in> set (used s)"
  obtains c t where "policy_mgr_store_and_del_conn_info_by_vdev_id (c_vdev_id y) s =
      ([c], add_active (pm_num (c_mode y)) (- 1) (s\<lparr>conns := t\<rparr>))" "strip c = y"
    "used (s\<lparr>conns := t\<rparr>) = filter (\<lambda>c. c_vdev_id c \<noteq> c_vdev_id y) (used s)" "pm_ok (s\<lparr>conns := t\<rparr>)"
    "length t = length (conns s)"
proof -
  obtain i where i: "first_in_use (\<lambda>x. c_vdev_id x = c_vdev_id y) (conns s) = Some i" "strip (conns s ! i) = y"
    by (rule first_vdev [OF ok y])
  let ?s = "add_active (pm_num (c_mode y)) (- 1) s"
  have v: "c_vdev_id y \<in> set (vdevs ?s)" using y by (simp add: vdevs_def)
  obtain t where t: "policy_mgr_decr_connection_count (c_vdev_id y) ?s = (QDF_STATUS_SUCCESS, ?s\<lparr>conns := t\<rparr>)"
    "used (?s\<lparr>conns := t\<rparr>) = filter (\<lambda>c. c_vdev_id c \<noteq> c_vdev_id y) (used ?s)" "compact t" "length t = length (conns ?s)"
    by (rule decr_spec [of ?s, OF _ v]) (use ok in simp_all)
  have m: "c_mode (conns s ! i) = c_mode y" "c_vdev_id (conns s ! i) = c_vdev_id y" using i(2) strip_simps by metis+
  have "policy_mgr_store_and_del_conn_info_by_vdev_id (c_vdev_id y) s =
      ([conns s ! i], add_active (pm_num (c_mode y)) (- 1) (s\<lparr>conns := t\<rparr>))"
    using i(1) t(1) m by (simp add: policy_mgr_store_and_del_conn_info_by_vdev_id_def add_active_simps)
  moreover have "used (s\<lparr>conns := t\<rparr>) = filter (\<lambda>c. c_vdev_id c \<noteq> c_vdev_id y) (used s)" using t(2) by (simp add: add_active_simps)
  moreover have "pm_ok (s\<lparr>conns := t\<rparr>)"
    using calculation(2) t(3) ok by (simp add: pm_ok_def vdevs_def distinct_map_filter)
  ultimately show thesis using that i(2) t(4) by simp
qed

end
