(* ===== verification/Pm_Run.thy ===== *)
theory Pm_Run
  imports Pm_Store
begin

text \<open>
  Sessions that become active and inactive: what the handlers leave of the connection table and the
  counters, and the runs of the policy manager.
\<close>

section \<open>Steps that permute the table\<close>

definition same_conns :: "pm_state \<Rightarrow> pm_state \<Rightarrow> bool" where
  "same_conns s s' \<longleftrightarrow> pm_ok s' \<and> mset (used s') = mset (used s) \<and>
     (\<exists>t l. s' = s\<lparr>conns := t, pm_log := l\<rparr> \<and> length t = length (conns s))"

lemma log_event_state: "log_event ev s = s\<lparr>conns := conns s, pm_log := pm_log s @ [ev]\<rparr>"
  by (simp add: log_event_def)

lemma same_conns_log:
  assumes "pm_ok s"
  shows "same_conns s (log_event ev s)"
proof -
  have "\<exists>t l. log_event ev s = s\<lparr>conns := t, pm_log := l\<rparr> \<and> length t = length (conns s)"
    using log_event_state by blast
  then show ?thesis using assms by (simp add: same_conns_def)
qed

lemma same_conns_refl: "pm_ok s \<Longrightarrow> same_conns s s"
  unfolding same_conns_def by (auto intro!: exI [of _ "conns s"] exI [of _ "pm_log s"])

lemma same_conns_trans: "same_conns s s1 \<Longrightarrow> same_conns s1 s2 \<Longrightarrow> same_conns s s2"
  unfolding same_conns_def by (elim conjE exE) (simp, blast)

lemma same_connsD:
  assumes "same_conns s s'"
  shows "pm_ok s'" "mset (used s') = mset (used s)" "length (conns s') = length (conns s)"
    "no_of_active_sessions s' = no_of_active_sessions s" "cfg s' = cfg s" "pm_overrun s' = pm_overrun s"
  using assms by (auto simp: same_conns_def)

lemma callback_same: "pm_ok s \<Longrightarrow> same_conns s (callback env cb ev s)"
  by (simp add: callback_def same_conns_log same_conns_refl)

section \<open>Preferred channels of the existing connections\<close>

text \<open>The first entry of the mode goes to the end.\<close>

lemma set_pcl_first:
  assumes ok: "pm_ok s" and len: "2 \<le> length (conns s)" and u: "used s = us @ y # ws"
    and m: "list_all (\<lambda>c. c_mode c \<noteq> m) us" "c_mode y = m" "policy_mgr_get_qdf_mode_from_pm m \<noteq> None"
  obtains s' t where "policy_mgr_set_pcl_for_existing_combo env m v s = Some s'" "same_conns s s'"
    "used s' = us @ ws @ [y]" "map strip (valid_prefix t) = us @ ws"
    "pm_log s' = pm_log s @ Pcl_computed m t # (if policy_mgr_pdev_get_pcl env m t \<noteq> None then [Set_pcl v] else [])"
proof -
  obtain c t where t: "policy_mgr_store_and_del_conn_info m False s =
       Some ([c], add_active (pm_num m) (- 1) (s\<lparr>conns := t\<rparr>))" "strip c = y"
    "used (s\<lparr>conns := t\<rparr>) = us @ ws" "pm_ok (s\<lparr>conns := t\<rparr>)" "length t = length (conns s)"
    by (rule store_first_spec [OF ok u m(1,2)])
  let ?s1 = "log_event (Pcl_computed m t) (add_active (pm_num m) (- 1) (s\<lparr>conns := t\<rparr>))"
  have "y \<in> set (used s)" using u by simp
  then have "c_in_use y" using valid_prefix_all [of "conns s"] by (auto simp: used_def list_all_iff)
  then have "c_in_use c" using t(2) strip_simps(4) by metis
  moreover have "length (used ?s1) + 1 \<le> length (conns ?s1)"
    using length_used_le [of s] t(3,5) u by simp
  ultimately obtain t' where r: "policy_mgr_restore_deleted_conn_info [c] ?s1 =
      add_active (pm_num (c_mode c)) 1 (?s1\<lparr>conns := t'\<rparr>)"
    "used (?s1\<lparr>conns := t'\<rparr>) = used ?s1 @ [strip c]" "compact t'" "length t' = length (conns ?s1)"
    using restore_spec [of ?s1 "[c]"] t(4,5) len by auto
  have cm: "c_mode c = m" using t(2) m(2) strip_simps(1) by metis
  have cnt: "policy_mgr_mode_specific_connection_count m s \<noteq> 0"
    using mode_count ok u m(2) by (simp add: pm_ok_def)
  let ?s2 = "add_active (pm_num (c_mode c)) 1 (?s1\<lparr>conns := t'\<rparr>)"
  let ?s3 = "if policy_mgr_pdev_get_pcl env m t \<noteq> None then log_event (Set_pcl v) ?s2 else ?s2"
  obtain q where q: "policy_mgr_get_qdf_mode_from_pm m = Some q" using m(3) by blast
  have call: "policy_mgr_set_pcl_for_existing_combo env m v s = Some ?s3"
    using q cnt t(1) r(1) by (simp add: policy_mgr_set_pcl_for_existing_combo_def)
  have s2: "?s2 = s\<lparr>conns := t', pm_log := pm_log s @ [Pcl_computed m t]\<rparr>"
    using cm by (simp add: add_active_def log_event_def)
  have u2: "used ?s2 = us @ ws @ [y]" using r(2) t(2,3) by simp
  have "distinct (vdevs ?s2)" unfolding vdevs_def u2 using ok u by (auto simp: pm_ok_def vdevs_def)
  then have "pm_ok ?s2" using r(3) by (simp add: pm_ok_def)
  then have "same_conns s ?s2"
    unfolding same_conns_def using u u2 s2 r(4) t(5) by auto
  then have "same_conns s ?s3" using same_conns_trans same_conns_log [OF \<open>pm_ok ?s2\<close>] by auto
  moreover have "used ?s3 = us @ ws @ [y]" using u2 by simp
  moreover have "pm_log ?s3 = pm_log s @ Pcl_computed m t # (if policy_mgr_pdev_get_pcl env m t \<noteq> None then [Set_pcl v] else [])"
    unfolding s2 by (simp add: log_event_def)
  moreover have "map strip (valid_prefix t) = us @ ws" using t(3) by (simp add: used_def)
  ultimately show thesis using that call by blast
qed

lemma first_of_mode:
  assumes "\<exists>c\<in>set xs. c_mode c = m"
  obtains us y ws where "xs = us @ y # ws" "list_all (\<lambda>c. c_mode c \<noteq> m) us" "c_mode y = m"
  using split_list_first_prop [OF assms] that by (auto simp: list_all_iff)

lemma set_pcl_spec:
  assumes ok: "pm_ok s" and len: "2 \<le> length (conns s)"
  obtains s' where "policy_mgr_set_pcl_for_existing_combo env m v s = Some s'" "same_conns s s'"
proof (cases "policy_mgr_get_qdf_mode_from_pm m = None \<or> policy_mgr_mode_specific_connection_count m s = 0")
  case True
  then show thesis using that same_conns_refl [OF ok] by (simp add: policy_mgr_set_pcl_for_existing_combo_def)
next
  case False
  then have "\<exists>c\<in>set (used s). c_mode c = m" using mode_count ok by (auto simp: pm_ok_def filter_empty_conv)
  then show thesis using first_of_mode set_pcl_first [OF ok len] False that by metis
qed

lemma pcl_for_stas_spec:
  assumes "pm_ok s" "2 \<le> length (conns s)"
  obtains s' where "pcl_for_stas env idxs s = Some s'" "same_conns s s'"
proof -
  have "\<exists>s'. pcl_for_stas env idxs s = Some s' \<and> same_conns s s'" using assms
  proof (induction idxs arbitrary: s)
    case (Cons i idxs)
    let ?v = "ucast (c_vdev_id (conns s ! i)) :: u8"
    have l: "same_conns s (log_event (Rso_stop ?v) s)" using Cons.prems by (intro same_conns_log)
    obtain s1 where s1: "policy_mgr_set_pcl_for_existing_combo env PM_STA_MODE ?v (log_event (Rso_stop ?v) s) = Some s1"
      "same_conns (log_event (Rso_stop ?v) s) s1"
      by (rule set_pcl_spec [of "log_event (Rso_stop ?v) s"]) (use Cons.prems in simp_all)
    have "same_conns s1 (log_event (Rso_start ?v) s1)" using s1(2) same_connsD(1) by (intro same_conns_log)
    then have st: "same_conns s (log_event (Rso_start ?v) s1)" using l s1(2) same_conns_trans by blast
    show ?case
    proof (cases "c_mode (conns s ! i) = PM_STA_MODE \<and> c_in_use (conns s ! i)")
      case True
      have "\<exists>s'. pcl_for_stas env idxs (log_event (Rso_start ?v) s1) = Some s' \<and>
          same_conns (log_event (Rso_start ?v) s1) s'"
        using Cons.prems(2) same_connsD [OF st] by (intro Cons.IH) simp_all
      then show ?thesis using True s1(1) st same_conns_trans by (auto simp: Let_def)
    next
      case False
      then have "pcl_for_stas env (i # idxs) s = pcl_for_stas env idxs s" by auto
      then show ?thesis using Cons.IH [OF Cons.prems] by (simp only:)
    qed
  qed (simp add: same_conns_refl)
  then show thesis using that by blast
qed

text \<open>Two stations and the new connection, as the loop over the table finds them.\<close>

lemma sta_step:
  assumes u: "used s = us @ y # ws" and y: "c_mode y = PM_STA_MODE"
    and call: "policy_mgr_set_pcl_for_existing_combo env PM_STA_MODE (ucast (c_vdev_id y))
      (log_event (Rso_stop (ucast (c_vdev_id y))) s) = Some s1"
  shows "pcl_for_stas env (length us # idxs) s = pcl_for_stas env idxs (log_event (Rso_start (ucast (c_vdev_id y))) s1)"
proof -
  have "length us < length (valid_prefix (conns s))" using arg_cong [OF u, of length] by (simp add: used_def)
  then have "valid_prefix (conns s) ! length us \<in> set (valid_prefix (conns s))" by simp
  then have "c_in_use (conns s ! length us)"
    using valid_prefix_all [of "conns s"] takeWhile_nth [of "length us" c_in_use "conns s"] \<open>length us < _\<close>
    by (simp add: list_all_iff valid_prefix_def)
  then show ?thesis using used_nth_simps [OF u] y call by (simp add: Let_def)
qed

lemma other_step:
  assumes "used s = us @ y # ws" "c_mode y \<noteq> PM_STA_MODE"
  shows "pcl_for_stas env (length us # idxs) s = pcl_for_stas env idxs s"
  using used_nth_simps [OF assms(1)] assms(2) by simp

lemma unused_steps:
  "pm_ok s \<Longrightarrow> \<forall>i\<in>set idxs. length (used s) \<le> i \<and> i < length (conns s) \<Longrightarrow> pcl_for_stas env idxs s = Some s"
proof (induction idxs)
  case (Cons i idxs)
  have "\<not> c_in_use (conns s ! i)"
    using valid_index [OF Cons.prems(1), of i] Cons.prems(2) by (simp add: PM_CONC_CONNECTION_LIST_VALID_INDEX_def)
  then show ?case using Cons by simp
qed simp

end
