(* ===== verification/Pm_Steps.thy ===== *)
theory Pm_Steps
  imports Pm_Run
begin

text \<open>
  What the handlers of active sessions leave: parts that do not touch the connections, and the
  entry that is added or deleted.
\<close>

section \<open>Quiet parts\<close>

text \<open>The settings, the open sessions and the size of the table stay.\<close>

definition kept :: "pm_state \<Rightarrow> pm_state \<Rightarrow> bool" where
  "kept s s' \<longleftrightarrow> cfg s' = cfg s \<and> length (conns s') = length (conns s) \<and> pm_overrun s' = pm_overrun s \<and>
     no_of_open_sessions s' = no_of_open_sessions s \<and> concurrency_mode s' = concurrency_mode s"

definition quiet :: "pm_state \<Rightarrow> pm_state \<Rightarrow> bool" where
  "quiet s s' \<longleftrightarrow> pm_ok s' \<and> mset (used s') = mset (used s) \<and> no_of_active_sessions s' = no_of_active_sessions s \<and> kept s s'"

lemma quiet_self: "pm_ok s \<Longrightarrow> quiet s s"
  by (simp add: quiet_def kept_def)

lemma quiet_chain: "quiet s s1 \<Longrightarrow> quiet s1 s2 \<Longrightarrow> quiet s s2"
  by (simp add: quiet_def kept_def)

lemma quiet_ok: "quiet s s' \<Longrightarrow> pm_ok s'"
  by (simp add: quiet_def)

lemma quiet_same: "same_conns s s' \<Longrightarrow> quiet s s'"
  by (auto simp: same_conns_def quiet_def kept_def)

lemma quiet_callback: "quiet s s1 \<Longrightarrow> quiet s (callback env cb ev s1)"
  using quiet_chain quiet_same callback_same quiet_ok by blast

lemma quiet_if: "quiet s s1 \<Longrightarrow> quiet s s2 \<Longrightarrow> quiet s (if b then s1 else s2)"
  by simp

lemma quiet_unrelated:
  "quiet s s1 \<Longrightarrow> quiet s (s1\<lparr>dynamic_dfs_master_disabled := b\<rparr>)"
  "quiet s s1 \<Longrightarrow> quiet s (s1\<lparr>do_sap_unsafe_ch_check := b\<rparr>)"
  by (simp_all add: quiet_def kept_def pm_ok_def vdevs_def used_def)

lemma quiet_dfs: "quiet s s1 \<Longrightarrow> quiet s (snd (policy_mgr_update_dfs_master_dynamic_enabled env v s1))"
  by (simp add: policy_mgr_update_dfs_master_dynamic_enabled_def Let_def quiet_unrelated)

text \<open>Changes of an entry that its place in the list does not show.\<close>

lemma takeWhile_upd:
  "i < length t \<Longrightarrow> c_in_use c = c_in_use (t ! i) \<Longrightarrow> g c = g (t ! i) \<Longrightarrow>
     map g (valid_prefix (t[i := c])) = map g (valid_prefix t)"
proof (induction t arbitrary: i)
  case (Cons a t)
  then show ?case by (cases i) (auto simp: valid_prefix_def)
qed simp

lemma filter_upd:
  "i < length t \<Longrightarrow> c_in_use c = c_in_use (t ! i) \<Longrightarrow> compact t \<Longrightarrow> compact (t[i := c])"
proof (induction t arbitrary: i)
  case (Cons a t)
  then show ?case by (cases i) (auto simp: compact_def valid_prefix_def filter_empty_conv split: if_splits dest: set_update_subset_insert [THEN subsetD])
qed simp

lemma quiet_upd_conn:
  assumes "pm_ok s" "i < length (conns s)" "\<And>c. strip (f c) = strip c"
  shows "quiet s (upd_conn i f s)"
proof -
  have f: "c_in_use (f c) = c_in_use c" for c using assms(3) strip_simps(4) by metis
  have "used (upd_conn i f s) = used s"
    using takeWhile_upd [of i "conns s" "f (conns s ! i)" strip] assms f by (simp add: used_def upd_conn_def)
  moreover have "compact (conns (upd_conn i f s))"
    using filter_upd [of i "conns s" "f (conns s ! i)"] assms f by (simp add: upd_conn_def pm_ok_def)
  ultimately show ?thesis using assms(1) by (simp add: quiet_def kept_def pm_ok_def vdevs_def upd_conn_def)
qed

lemma quiet_init_6ghz: "quiet s s1 \<Longrightarrow> quiet s (policy_mgr_init_ap_6ghz_capable v g s1)"
proof -
  assume q: "quiet s s1"
  have "quiet s1 (policy_mgr_init_ap_6ghz_capable v g s1)"
    using quiet_ok [OF q]
    by (auto simp: policy_mgr_init_ap_6ghz_capable_def sap_index_def strip_def quiet_self
      dest!: first_in_use_less intro!: quiet_upd_conn split: option.split)
  then show ?thesis using q quiet_chain by blast
qed

lemmas quiet_intros = quiet_if quiet_callback quiet_unrelated quiet_dfs quiet_init_6ghz quiet_self

lemma incr_active_tail_quiet: "pm_ok s \<Longrightarrow> quiet s (incr_active_tail env mode v g s)"
  unfolding incr_active_tail_def Let_def by (intro quiet_intros)

lemma decr_active_tail_quiet: "pm_ok s \<Longrightarrow> quiet s (decr_active_tail env mode v s)"
  unfolding decr_active_tail_def Let_def by (intro quiet_intros)

lemma incr_active_head_quiet:
  assumes "pm_ok s"
  shows "quiet (if counts_active mode then add_active (qdf_num env mode) 1 s else s) (incr_active_head env mode v s)"
proof -
  define s0 where "s0 = (if counts_active mode then add_active (qdf_num env mode) 1 s else s)"
  have "pm_ok s0" using assms by (simp add: s0_def)
  then show ?thesis unfolding incr_active_head_def Let_def s0_def [symmetric] by (intro quiet_intros)
qed

lemma decr_active_head_quiet:
  assumes "pm_ok s"
  shows "quiet (if counts_active mode \<and> no_of_active_sessions s (qdf_num env mode) \<noteq> 0
      then add_active (qdf_num env mode) (- 1) s else s) (decr_active_head env mode v s)"
proof -
  define s0 where "s0 = (if counts_active mode \<and> no_of_active_sessions s (qdf_num env mode) \<noteq> 0
      then add_active (qdf_num env mode) (- 1) s else s)"
  have "pm_ok s0" using assms by (simp add: s0_def)
  then show ?thesis unfolding decr_active_head_def Let_def s0_def [symmetric] by (intro quiet_intros)
qed

section \<open>Adding\<close>

lemma new_conn_simps [simp]:
  "c_vdev_id (new_conn env v e) = v" "c_mode (new_conn env v e) = policy_mgr_get_mode (e_type e) (e_sub_type e)"
  "c_in_use (new_conn env v e)" "strip (new_conn env v e) = new_conn env v e" "c_freq (new_conn env v e) = e_mhz e"
  by (simp_all add: new_conn_def strip_def Let_def split: prod.split)

definition logged :: "pm_state \<Rightarrow> pm_state \<Rightarrow> bool" where
  "logged s s' \<longleftrightarrow> (\<exists>l. s' = s\<lparr>pm_log := l\<rparr>)"

lemma logged_intros:
  "logged s s" "logged s s1 \<Longrightarrow> logged s (callback env cb ev s1)"
  "logged s s1 \<Longrightarrow> logged s s2 \<Longrightarrow> logged s (if b then s1 else s2)"
  by (auto simp: logged_def callback_def log_event_def intro: exI [of _ "pm_log s"])

lemma update_conc_list_spec:
  assumes ok: "pm_ok s" and c: "c_in_use c" "c_vdev_id c \<notin> set (vdevs s)" and room: "length (used s) < length (conns s)"
  shows "used (policy_mgr_update_conc_list env (length (used s)) c u s) = used s @ [strip c]"
    and "pm_ok (policy_mgr_update_conc_list env (length (used s)) c u s)"
    and "kept s (policy_mgr_update_conc_list env (length (used s)) c u s)"
    and "no_of_active_sessions (policy_mgr_update_conc_list env (length (used s)) c u s) = no_of_active_sessions s"
proof -
  obtain zs where zs: "conns s = valid_prefix (conns s) @ zs" "list_all (\<lambda>c. \<not> c_in_use c) zs"
    using split_table ok by (auto simp: pm_ok_def)
  have n: "length (used s) = length (valid_prefix (conns s))" by (simp add: used_def)
  obtain z zs' where z: "zs = z # zs'" using room zs(1) n by (metis append_Nil2 less_irrefl neq_Nil_conv)
  let ?p = "valid_prefix (conns s) @ [copy_conn c z]"
  let ?s1 = "s\<lparr>conns := ?p @ zs'\<rparr>"
  have t: "(conns s)[length (used s) := copy_conn c (conns s ! length (used s))] = ?p @ zs'"
    unfolding n by (subst (1 3) zs(1)) (simp add: z)
  have all: "list_all c_in_use ?p" using valid_prefix_all c(1) by simp
  have rest: "compact zs'" "valid_prefix zs' = []" using unused_compact [of zs'] zs(2) z by simp_all
  have u: "used ?s1 = used s @ [strip c]" using valid_prefix_append [OF all, of zs'] rest by (simp add: used_def)
  have "compact (?p @ zs')" using compact_append [OF all] rest by blast
  then have ok1: "pm_ok ?s1" using ok c(2) unfolding pm_ok_def vdevs_def u by simp
  have "length (conns ?s1) = length (conns s)" using arg_cong [OF zs(1), of length] z by simp
  then have k: "kept s ?s1" by (simp add: kept_def)
  have "logged ?s1 (policy_mgr_update_conc_list env (length (used s)) c u s)"
    unfolding policy_mgr_update_conc_list_def Let_def t if_not_P [OF room [folded not_le]] by (intro logged_intros)
  then obtain l where l: "policy_mgr_update_conc_list env (length (used s)) c u s = ?s1\<lparr>pm_log := l\<rparr>"
    unfolding logged_def by blast
  show "used (policy_mgr_update_conc_list env (length (used s)) c u s) = used s @ [strip c]"
    "pm_ok (policy_mgr_update_conc_list env (length (used s)) c u s)"
    "kept s (policy_mgr_update_conc_list env (length (used s)) c u s)"
    "no_of_active_sessions (policy_mgr_update_conc_list env (length (used s)) c u s) = no_of_active_sessions s"
    using u ok1 k unfolding l by (simp_all add: used_def pm_ok_def vdevs_def kept_def)
qed

text \<open>The handler of a new session that finds room and a connection of WMA.\<close>

lemma incr_connection_spec:
  assumes ok: "pm_ok s" and max: "length (used s) \<le> unat (max_conc_cxns (cfg s))" and room: "length (used s) < length (conns s)"
    and e: "connection_info env mode v = Some e" and v: "v \<notin> set (vdevs s)"
  obtains s' where "policy_mgr_incr_connection_count env v mode s = (QDF_STATUS_SUCCESS, s')" "pm_ok s'" "kept s s'"
    "used s' = used s @ [new_conn env v e]" "no_of_active_sessions s' = no_of_active_sessions s"
proof -
  let ?c = "new_conn env v e"
  have n: "policy_mgr_get_connection_count s = length (used s)" using length_used ok by (simp add: pm_ok_def)
  let ?s' = "policy_mgr_update_conc_list env (length (used s)) ?c (c_mode ?c \<noteq> PM_STA_MODE \<and> c_mode ?c \<noteq> PM_P2P_CLIENT_MODE) s"
  have "policy_mgr_incr_connection_count env v mode s = (QDF_STATUS_SUCCESS, ?s')"
    using max e by (simp add: policy_mgr_incr_connection_count_def n)
  then show thesis using that update_conc_list_spec [OF ok, of ?c env] v room by simp
qed

definition count_up :: "pm_env \<Rightarrow> QDF_OPMODE \<Rightarrow> u8 \<Rightarrow> (nat \<Rightarrow> u8) \<Rightarrow> nat \<Rightarrow> u8" where
  "count_up env mode d a = (if counts_active mode then a(qdf_num env mode := a (qdf_num env mode) + d) else a)"

lemma incr_active_spec:
  assumes ok: "pm_ok s" and max: "length (used s) \<le> unat (max_conc_cxns (cfg s))" and room: "length (used s) < length (conns s)"
    and e: "connection_info env mode (ucast v) = Some e" and v: "ucast v \<notin> set (vdevs s)" and len: "2 \<le> length (conns s)"
  obtains s' where "policy_mgr_incr_active_session env mode v s = Some s'" "pm_ok s'" "kept s s'"
    "mset (used s') = add_mset (new_conn env (ucast v) e) (mset (used s))"
    "no_of_active_sessions s' = count_up env mode 1 (no_of_active_sessions s)"
proof -
  let ?s1 = "incr_active_head env mode v s"
  have q1: "quiet (if counts_active mode then add_active (qdf_num env mode) 1 s else s) ?s1"
    by (rule incr_active_head_quiet [OF ok])
  then have ok1: "pm_ok ?s1" and m1: "mset (used ?s1) = mset (used s)" and k1: "kept s ?s1"
    and a1: "no_of_active_sessions ?s1 = count_up env mode 1 (no_of_active_sessions s)"
    by (auto simp: quiet_def kept_def count_up_def add_active_def used_def split: if_splits)
  have v1: "ucast v \<notin> set (vdevs ?s1)" using v mset_eq_setD [OF m1] by (simp add: vdevs_def)
  have l1: "length (used ?s1) = length (used s)" using mset_eq_length [OF m1] .
  obtain s2 where s2: "policy_mgr_incr_connection_count env (ucast v) mode ?s1 = (QDF_STATUS_SUCCESS, s2)" "pm_ok s2" "kept ?s1 s2"
    "used s2 = used ?s1 @ [new_conn env (ucast v) e]" "no_of_active_sessions s2 = no_of_active_sessions ?s1"
    by (rule incr_connection_spec [OF ok1 _ _ e v1]) (use max room l1 k1 in \<open>simp_all add: kept_def\<close>)
  have "2 \<le> length (conns s2)" using s2(3) k1 len by (simp add: kept_def)
  then obtain s3 where s3: "pcl_for_stas env [0..<length (conns s2)] s2 = Some s3" "same_conns s2 s3"
    using pcl_for_stas_spec [OF s2(2)] by blast
  obtain s4 where s4: "(if policy_mgr_mode_specific_connection_count PM_STA_MODE s2 > 0 \<and> mode \<noteq> QDF_STA_MODE
      then pcl_for_stas env [0..<length (conns s2)] s2 else Some s2) = Some s4" "quiet s2 s4"
    using s3 quiet_same quiet_self [OF s2(2)] by (cases "policy_mgr_mode_specific_connection_count PM_STA_MODE s2 > 0 \<and> mode \<noteq> QDF_STA_MODE") auto
  define g where "g = (if mode = QDF_SAP_MODE then snd (policy_mgr_get_ap_6ghz_capable env (ucast v) ?s1) else 0)"
  let ?s' = "incr_active_tail env mode v g s4"
  have q: "quiet s2 ?s'" using incr_active_tail_quiet [OF quiet_ok [OF s4(2)]] s4(2) quiet_chain by blast
  have "policy_mgr_incr_active_session env mode v s = Some ?s'"
    unfolding policy_mgr_incr_active_session_def Let_def s2(1) snd_conv s4(1) g_def by simp
  moreover have "kept s ?s'" using q s2(3) k1 by (simp add: quiet_def kept_def)
  moreover have "mset (used ?s') = add_mset (new_conn env (ucast v) e) (mset (used s))"
    using q s2(4) m1 by (simp add: quiet_def)
  moreover have "no_of_active_sessions ?s' = count_up env mode 1 (no_of_active_sessions s)"
    using q s2(5) a1 by (simp add: quiet_def)
  ultimately show thesis using that quiet_ok [OF q] by blast
qed

section \<open>Deleting\<close>

lemma find_valid_iff:
  assumes "pm_ok s"
  shows "find_valid P (conns s) 0 \<noteq> None \<longleftrightarrow> (\<exists>c\<in>set (valid_prefix (conns s)). P c)"
proof
  assume "\<exists>c\<in>set (valid_prefix (conns s)). P c"
  then obtain xs y ys where p: "valid_prefix (conns s) = xs @ y # ys" "P y" "\<forall>x\<in>set xs. \<not> P x"
    using split_list_first_prop [of "valid_prefix (conns s)" P] by blast
  obtain zs where zs: "conns s = valid_prefix (conns s) @ zs"
    using split_table assms by (auto simp: pm_ok_def)
  have "list_all c_in_use (xs @ y # ys)" using valid_prefix_all p(1) by metis
  then have "find_valid P (xs @ y # ys @ zs) 0 = Some (length xs)"
    using p by (intro find_valid_hit) (auto simp: list_all_iff)
  moreover have "conns s = (xs @ y # ys) @ zs" using zs unfolding p(1) .
  ultimately show "find_valid P (conns s) 0 \<noteq> None" by simp
next
  assume "find_valid P (conns s) 0 \<noteq> None"
  then have "\<not> list_all (\<lambda>c. \<not> P c) (valid_prefix (conns s))" using find_valid_miss [of P "conns s"] by auto
  then show "\<exists>c\<in>set (valid_prefix (conns s)). P c" by (simp add: list_all_iff)
qed

lemma check_conn_iff:
  assumes "pm_ok s"
  shows "policy_mgr_check_conn_with_mode_and_vdev_id m v s = QDF_STATUS_SUCCESS \<longleftrightarrow>
    (\<exists>c\<in>set (used s). c_mode c = m \<and> c_vdev_id c = v)"
  using find_valid_iff [OF assms] by (simp add: policy_mgr_check_conn_with_mode_and_vdev_id_def used_def)

lemma decr_active_missing:
  assumes "pm_ok s" "\<not> (\<exists>c\<in>set (used s). c_mode c = policy_mgr_convert_device_mode_to_qdf_type mode \<and> c_vdev_id c = ucast v)"
  shows "policy_mgr_decr_active_session env mode v s = (QDF_STATUS_E_FAILURE, s)"
proof -
  have "policy_mgr_check_conn_with_mode_and_vdev_id (policy_mgr_convert_device_mode_to_qdf_type mode) (ucast v) s = QDF_STATUS_E_FAILURE"
    using check_conn_iff [OF assms(1)] assms(2)
    by (metis policy_mgr_check_conn_with_mode_and_vdev_id_def)
  then show ?thesis by (simp add: policy_mgr_decr_active_session_def)
qed

lemma decr_active_spec:
  assumes ok: "pm_ok s" and y: "y \<in> set (used s)" "c_mode y = policy_mgr_convert_device_mode_to_qdf_type mode" "c_vdev_id y = ucast v"
    and a: "counts_active mode \<Longrightarrow> no_of_active_sessions s (qdf_num env mode) \<noteq> 0"
  obtains s' where "policy_mgr_decr_active_session env mode v s = (QDF_STATUS_SUCCESS, s')" "pm_ok s'" "kept s s'"
    "mset (used s) = add_mset y (mset (used s'))"
    "no_of_active_sessions s' = count_up env mode (- 1) (no_of_active_sessions s)"
proof -
  let ?s1 = "decr_active_head env mode v s"
  have "quiet (if counts_active mode \<and> no_of_active_sessions s (qdf_num env mode) \<noteq> 0
      then add_active (qdf_num env mode) (- 1) s else s) ?s1"
    by (rule decr_active_head_quiet [OF ok])
  then have ok1: "pm_ok ?s1" and m1: "mset (used ?s1) = mset (used s)" and k1: "kept s ?s1"
    and a1: "no_of_active_sessions ?s1 = count_up env mode (- 1) (no_of_active_sessions s)"
    using a by (auto simp: quiet_def kept_def count_up_def add_active_def used_def split: if_splits)
  have "y \<in> set (used ?s1)" using y(1) mset_eq_setD [OF m1] by simp
  then obtain us ws where u: "used ?s1 = us @ y # ws" by (meson split_list)
  obtain t where t: "policy_mgr_decr_connection_count (c_vdev_id y) ?s1 = (QDF_STATUS_SUCCESS, ?s1\<lparr>conns := t\<rparr>)"
    "used (?s1\<lparr>conns := t\<rparr>) = us @ ws" "pm_ok (?s1\<lparr>conns := t\<rparr>)" "length t = length (conns ?s1)"
    by (rule decr_split [OF ok1 u])
  let ?s' = "decr_active_tail env mode v (?s1\<lparr>conns := t\<rparr>)"
  have q: "quiet (?s1\<lparr>conns := t\<rparr>) ?s'" by (rule decr_active_tail_quiet [OF t(3)])
  have "policy_mgr_check_conn_with_mode_and_vdev_id (policy_mgr_convert_device_mode_to_qdf_type mode) (ucast v) s = QDF_STATUS_SUCCESS"
    using check_conn_iff [OF ok] y by blast
  then have "policy_mgr_decr_active_session env mode v s = (QDF_STATUS_SUCCESS, ?s')"
    using t(1) y(3) by (simp add: policy_mgr_decr_active_session_def)
  moreover have "kept s ?s'" using q k1 t(4) by (simp add: quiet_def kept_def)
  moreover have "mset (used s) = add_mset y (mset (used ?s'))" using q m1 u t(2) by (simp add: quiet_def)
  moreover have "no_of_active_sessions ?s' = count_up env mode (- 1) (no_of_active_sessions s)"
    using q a1 by (simp add: quiet_def)
  ultimately show thesis using that quiet_ok [OF q] by blast
qed

end
