(* ===== verification/Pm_Reach.thy ===== *)
theory Pm_Reach
  imports Pm_Steps
begin

text \<open>
  The runs of the policy manager: interfaces are opened and closed, sessions that
  \<^verbatim>\<open>policy_mgr_is_concurrency_allowed\<close> admits become active, sessions become inactive, and the
  firmware reports its MAC numbers.  What is outside may answer differently at each step.
\<close>

section \<open>The counters and the table\<close>

definition counted :: "QDF_OPMODE set" where
  "counted = {QDF_STA_MODE, QDF_P2P_CLIENT_MODE, QDF_P2P_GO_MODE, QDF_SAP_MODE, QDF_NAN_DISC_MODE, QDF_NDI_MODE}"

lemma counts_active_iff: "counts_active m \<longleftrightarrow> m \<in> counted"
  by (simp add: counts_active_def counted_def)

text \<open>The modes have numbers of their own.\<close>

definition numbered :: "(QDF_OPMODE \<Rightarrow> nat) \<Rightarrow> nat \<Rightarrow> bool" where
  "numbered num mx \<longleftrightarrow> inj_on num counted \<and> (\<forall>m\<in>counted. num m < mx)"

abbreviation conv :: "QDF_OPMODE \<Rightarrow> policy_mgr_con_mode" where
  "conv \<equiv> policy_mgr_convert_device_mode_to_qdf_type"

lemma conv_inj: "m \<in> counted \<Longrightarrow> m' \<in> counted \<Longrightarrow> conv m = conv m' \<Longrightarrow> m = m'"
  by (auto simp: counted_def)

lemma conv_counted: "m \<in> counted \<Longrightarrow> conv m \<noteq> PM_MAX_NUM_OF_MODE"
  by (auto simp: counted_def)

text \<open>Each counter is the number of entries of its mode.\<close>

definition counters_ok :: "(QDF_OPMODE \<Rightarrow> nat) \<Rightarrow> nat \<Rightarrow> pm_state \<Rightarrow> bool" where
  "counters_ok num mx s \<longleftrightarrow>
     (\<forall>m\<in>counted. no_of_active_sessions s (num m) = of_nat (size (filter_mset (\<lambda>c. c_mode c = conv m) (mset (used s))))) \<and>
     (\<forall>i<mx. i \<notin> num ` counted \<longrightarrow> no_of_active_sessions s i = 0) \<and>
     (\<forall>c\<in>#mset (used s). c_mode c \<noteq> PM_MAX_NUM_OF_MODE)"

lemma size_by_mode:
  "\<forall>c\<in>set xs. c_mode c \<noteq> PM_MAX_NUM_OF_MODE \<Longrightarrow>
     (\<Sum>m\<in>counted. size (filter_mset (\<lambda>c. c_mode c = conv m) (mset xs))) = length xs"
proof (induction xs)
  case (Cons x xs)
  have "c_mode x \<noteq> PM_MAX_NUM_OF_MODE" using Cons.prems by simp
  then have "(\<Sum>m\<in>counted. if c_mode x = conv m then 1 else 0) = (1 :: nat)"
    by (cases "c_mode x") (simp_all add: counted_def)
  moreover have "(\<Sum>m\<in>counted. size (filter_mset (\<lambda>c. c_mode c = conv m) (mset (x # xs)))) =
      (\<Sum>m\<in>counted. (if c_mode x = conv m then 1 else 0) + size (filter_mset (\<lambda>c. c_mode c = conv m) (mset xs)))"
    by (intro sum.cong) auto
  ultimately show ?case using Cons by (simp add: sum.distrib)
qed simp

lemma sum_active:
  assumes "numbered num mx" "counters_ok num mx s"
  shows "sum_list (map (no_of_active_sessions s) [0..<mx]) = of_nat (length (used s))"
proof -
  let ?a = "no_of_active_sessions s"
  have "sum_list (map ?a [0..<mx]) = sum ?a {0..<mx}" by (simp add: interv_sum_list_conv_sum_set_nat)
  also have "\<dots> = sum ?a (num ` counted)"
    using assms by (intro sum.mono_neutral_right) (auto simp: numbered_def counters_ok_def)
  also have "\<dots> = (\<Sum>m\<in>counted. ?a (num m))" using assms(1) by (simp add: sum.reindex numbered_def)
  also have "\<dots> = of_nat (\<Sum>m\<in>counted. size (filter_mset (\<lambda>c. c_mode c = conv m) (mset (used s))))"
    using assms(2) by (simp add: counters_ok_def)
  also have "(\<Sum>m\<in>counted. size (filter_mset (\<lambda>c. c_mode c = conv m) (mset (used s)))) = length (used s)"
    using assms(2) by (intro size_by_mode) (simp add: counters_ok_def)
  finally show ?thesis .
qed

section \<open>Runs\<close>

inductive pm_step :: "(QDF_OPMODE \<Rightarrow> nat) \<Rightarrow> nat \<Rightarrow> pm_state \<Rightarrow> pm_state \<Rightarrow> bool" for num mx where
  pm_open: "qdf_num env = num \<Longrightarrow> pm_step num mx s (policy_mgr_set_concurrency_mode env mode s)"
| pm_close: "qdf_num env = num \<Longrightarrow> pm_step num mx s (policy_mgr_clear_concurrency_mode env mode s)"
| pm_connect:
    "qdf_num env0 = num \<Longrightarrow> QDF_MAX_NO_OF_MODE env0 = mx \<Longrightarrow> qdf_num env = num \<Longrightarrow> QDF_MAX_NO_OF_MODE env = mx \<Longrightarrow>
     policy_mgr_is_concurrency_allowed env0 (conv mode) ch_freq bw s \<Longrightarrow>
     counts_active mode \<Longrightarrow> ucast v \<notin> set (vdevs s) \<Longrightarrow>
     connection_info env mode (ucast v) = Some e \<Longrightarrow> policy_mgr_get_mode (e_type e) (e_sub_type e) = conv mode \<Longrightarrow>
     policy_mgr_incr_active_session env mode v s = Some s' \<Longrightarrow> pm_step num mx s s'"
| pm_disconnect: "qdf_num env = num \<Longrightarrow> counts_active mode \<Longrightarrow> pm_step num mx s (snd (policy_mgr_decr_active_session env mode v s))"
| pm_hw_mode: "pm_step num mx s (policy_mgr_update_hw_mode_conn_info env vdev_mac_map s)"

inductive_cases pm_stepE: "pm_step num mx s s'"

text \<open>The start: an empty table and cleared counters.\<close>

definition pm_start :: "pm_env \<Rightarrow> pm_state \<Rightarrow> pm_state" where
  "pm_start env s = policy_mgr_clear_concurrent_session_count env (init_conc_list s)"

definition pm_inv :: "(QDF_OPMODE \<Rightarrow> nat) \<Rightarrow> nat \<Rightarrow> pm_state \<Rightarrow> bool" where
  "pm_inv num mx s \<longleftrightarrow> pm_ok s \<and> counters_ok num mx s \<and> length (used s) \<le> unat (max_conc_cxns (cfg s)) \<and>
     policy_mgr_mode_specific_connection_count PM_STA_MODE s \<le> 2 \<and> \<not> pm_overrun s"

definition sized :: "pm_state \<Rightarrow> bool" where
  "sized s \<longleftrightarrow> length (conns s) \<in> {3, 4} \<and> unat (max_conc_cxns (cfg s)) \<le> length (conns s)"

lemma mode_count_mset:
  "pm_ok s \<Longrightarrow> policy_mgr_mode_specific_connection_count m s = size (filter_mset (\<lambda>c. c_mode c = m) (mset (used s)))"
  using mode_count by (simp add: pm_ok_def flip: mset_filter)

lemma counters_add:
  assumes "counters_ok num mx s" "numbered num mx" "mode \<in> counted" "c_mode c = conv mode" "qdf_num env = num"
    "mset (used s') = add_mset c (mset (used s))" "no_of_active_sessions s' = count_up env mode 1 (no_of_active_sessions s)"
  shows "counters_ok num mx s'"
proof -
  have "no_of_active_sessions s' (num m) = of_nat (size (filter_mset (\<lambda>c. c_mode c = conv m) (mset (used s'))))"
    if "m \<in> counted" for m
  proof (cases "m = mode")
    case True
    then show ?thesis using assms that by (simp add: counters_ok_def count_up_def counts_active_iff)
  next
    case False
    then have "num m \<noteq> num mode" "conv mode \<noteq> conv m"
      using assms(2,3) that conv_inj [of mode m] by (auto simp: numbered_def dest: inj_onD)
    then show ?thesis using assms that by (simp add: counters_ok_def count_up_def counts_active_iff)
  qed
  moreover have "\<forall>i<mx. i \<notin> num ` counted \<longrightarrow> no_of_active_sessions s' i = 0"
    using assms by (auto simp: counters_ok_def count_up_def)
  ultimately show ?thesis using assms(1,3,4,6) conv_counted by (simp add: counters_ok_def)
qed

lemma counters_del:
  assumes "counters_ok num mx s" "numbered num mx" "mode \<in> counted" "c_mode c = conv mode" "qdf_num env = num"
    "mset (used s) = add_mset c (mset (used s'))" "no_of_active_sessions s' = count_up env mode (- 1) (no_of_active_sessions s)"
  shows "counters_ok num mx s'"
proof -
  have "no_of_active_sessions s' (num m) = of_nat (size (filter_mset (\<lambda>c. c_mode c = conv m) (mset (used s'))))"
    if "m \<in> counted" for m
  proof (cases "m = mode")
    case True
    then show ?thesis using assms that by (simp add: counters_ok_def count_up_def counts_active_iff)
  next
    case False
    then have "num m \<noteq> num mode" "conv mode \<noteq> conv m"
      using assms(2,3) that conv_inj [of mode m] by (auto simp: numbered_def dest: inj_onD)
    then show ?thesis using assms that by (simp add: counters_ok_def count_up_def counts_active_iff)
  qed
  moreover have "\<forall>i<mx. i \<notin> num ` counted \<longrightarrow> no_of_active_sessions s' i = 0"
    using assms by (auto simp: counters_ok_def count_up_def)
  ultimately show ?thesis using assms(1,6) by (simp add: counters_ok_def)
qed

section \<open>Admission\<close>

lemma allowed_room:
  assumes "policy_mgr_is_concurrency_allowed env mode f bw s" "pm_inv num mx s" "numbered num mx" "sized s"
    "QDF_MAX_NO_OF_MODE env = mx"
  shows "length (used s) < unat (max_conc_cxns (cfg s))"
proof -
  have "length (used s) \<le> 4" using length_used_le [of s] assms(4) by (auto simp: sized_def)
  then have "unat (of_nat (length (used s)) :: u8) = length (used s)" by (simp add: unat_of_nat)
  moreover have "\<not> policy_mgr_max_concurrent_connections_reached env s"
    using assms(1) by (auto simp: policy_mgr_is_concurrency_allowed_def Let_def split: if_splits)
  moreover have "sum_list (map (no_of_active_sessions s) [0..<mx]) = of_nat (length (used s))"
    using sum_active assms(2,3) by (simp add: pm_inv_def)
  ultimately have "\<not> int (length (used s)) > int (unat (max_conc_cxns (cfg s))) - 1"
    unfolding policy_mgr_max_concurrent_connections_reached_def assms(5) by metis
  then show ?thesis by linarith
qed

lemma allowed_sta:
  "policy_mgr_is_concurrency_allowed env PM_STA_MODE f bw s \<Longrightarrow> policy_mgr_mode_specific_connection_count PM_STA_MODE s < 2"
  by (auto simp: policy_mgr_is_concurrency_allowed_def Let_def split: if_splits)

section \<open>Preservation\<close>

lemma connect_exists:
  assumes inv: "pm_inv num mx s" "numbered num mx" "sized s"
    and allowed: "policy_mgr_is_concurrency_allowed env0 m f bw s" "QDF_MAX_NO_OF_MODE env0 = mx"
    and e: "connection_info env mode (ucast v) = Some e" and v: "ucast v \<notin> set (vdevs s)"
  obtains s' where "policy_mgr_incr_active_session env mode v s = Some s'" "pm_ok s'" "kept s s'"
    "mset (used s') = add_mset (new_conn env (ucast v) e) (mset (used s))"
    "no_of_active_sessions s' = count_up env mode 1 (no_of_active_sessions s)"
    "length (used s') \<le> unat (max_conc_cxns (cfg s))"
proof -
  have room: "length (used s) < unat (max_conc_cxns (cfg s))" by (rule allowed_room [OF allowed(1) inv allowed(2)])
  moreover have "unat (max_conc_cxns (cfg s)) \<le> length (conns s)" "2 \<le> length (conns s)"
    using inv(3) by (auto simp: sized_def)
  ultimately obtain s' where s': "policy_mgr_incr_active_session env mode v s = Some s'" "pm_ok s'" "kept s s'"
    "mset (used s') = add_mset (new_conn env (ucast v) e) (mset (used s))"
    "no_of_active_sessions s' = count_up env mode 1 (no_of_active_sessions s)"
    using incr_active_spec [OF _ _ _ e v] inv(1) by (metis less_imp_le_nat less_le_trans pm_inv_def)
  have "length (used s') = Suc (length (used s))" using arg_cong [OF s'(4), of size] by simp
  then show thesis using that [OF s'] room by simp
qed

lemma pm_inv_connect:
  assumes "pm_inv num mx s" "numbered num mx" "sized s" "qdf_num env = num" "QDF_MAX_NO_OF_MODE env0 = mx"
    "policy_mgr_is_concurrency_allowed env0 (conv mode) f bw s" "counts_active mode" "ucast v \<notin> set (vdevs s)"
    "connection_info env mode (ucast v) = Some e" "policy_mgr_get_mode (e_type e) (e_sub_type e) = conv mode"
    "policy_mgr_incr_active_session env mode v s = Some s'"
  shows "pm_inv num mx s'" and "sized s'"
proof -
  let ?c = "new_conn env (ucast v) e"
  obtain s1 where s1: "policy_mgr_incr_active_session env mode v s = Some s1" "pm_ok s1" "kept s s1"
    "mset (used s1) = add_mset ?c (mset (used s))"
    "no_of_active_sessions s1 = count_up env mode 1 (no_of_active_sessions s)"
    "length (used s1) \<le> unat (max_conc_cxns (cfg s))"
    by (rule connect_exists [OF assms(1-3,6,5,9,8)])
  have eq: "s1 = s'" using s1(1) assms(11) by simp
  have c: "c_mode ?c = conv mode" using assms(10) by simp
  have cnt: "counters_ok num mx s'"
    using counters_add [OF _ assms(2) _ c assms(4) s1(4,5)] assms(1,7) by (simp add: pm_inv_def counts_active_iff eq)
  have "policy_mgr_mode_specific_connection_count PM_STA_MODE s' \<le> 2"
  proof (cases "conv mode = PM_STA_MODE")
    case True
    then have "policy_mgr_mode_specific_connection_count PM_STA_MODE s < 2" using allowed_sta assms(6) by simp
    then show ?thesis using mode_count_mset s1(2,4) assms(1) True c unfolding eq by (simp add: pm_inv_def)
  next
    case False
    then have "policy_mgr_mode_specific_connection_count PM_STA_MODE s1 = policy_mgr_mode_specific_connection_count PM_STA_MODE s"
      using mode_count_mset [OF s1(2)] mode_count_mset [of s] s1(4) c assms(1) by (simp add: pm_inv_def)
    then show ?thesis using assms(1) by (simp add: pm_inv_def eq)
  qed
  then show "pm_inv num mx s'" using s1(2,3,6) cnt assms(1) by (simp add: pm_inv_def kept_def eq)
  show "sized s'" using s1(3) assms(3) by (simp add: sized_def kept_def eq)
qed

lemma active_nonzero:
  assumes "counters_ok num mx s" "length (used s) \<le> 4" "mode \<in> counted" "y \<in> set (used s)" "c_mode y = conv mode"
  shows "no_of_active_sessions s (num mode) \<noteq> 0"
proof -
  let ?n = "size (filter_mset (\<lambda>c. c_mode c = conv mode) (mset (used s)))"
  have "?n \<le> length (used s)" by (metis size_filter_mset_lesseq size_mset)
  moreover have "?n \<noteq> 0" using assms(4,5) by (auto simp: size_eq_0_iff_empty filter_mset_eq_conv)
  ultimately have "0 < ?n \<and> ?n < 256" using assms(2) by linarith
  then have "\<not> 256 dvd ?n" by (metis nat_dvd_not_less)
  then have "of_nat ?n \<noteq> (0 :: u8)" by (simp add: word_of_nat_eq_0_iff)
  then show ?thesis using assms(1,3) by (simp add: counters_ok_def)
qed

lemma pm_inv_disconnect:
  assumes "pm_inv num mx s" "numbered num mx" "sized s" "qdf_num env = num" "counts_active mode"
    and s': "s' = snd (policy_mgr_decr_active_session env mode v s)"
  shows "pm_inv num mx s'" and "sized s'"
proof -
  have ok: "pm_ok s" using assms(1) by (simp add: pm_inv_def)
  have "pm_inv num mx s' \<and> sized s'"
  proof (cases "\<exists>c\<in>set (used s). c_mode c = conv mode \<and> c_vdev_id c = ucast v")
    case False
    then show ?thesis using decr_active_missing [OF ok] assms(1,3) s' by simp
  next
    case True
    then obtain y where y: "y \<in> set (used s)" "c_mode y = conv mode" "c_vdev_id y = ucast v" by blast
    have mode: "mode \<in> counted" using assms(5) by (simp add: counts_active_iff)
    have "length (used s) \<le> 4" using length_used_le [of s] assms(3) by (auto simp: sized_def)
    then have "no_of_active_sessions s (qdf_num env mode) \<noteq> 0"
      using active_nonzero [OF _ _ mode y(1,2), of num mx] assms(1,4) by (simp add: pm_inv_def)
    then obtain s1 where s1: "policy_mgr_decr_active_session env mode v s = (QDF_STATUS_SUCCESS, s1)" "pm_ok s1" "kept s s1"
      "mset (used s) = add_mset y (mset (used s1))"
      "no_of_active_sessions s1 = count_up env mode (- 1) (no_of_active_sessions s)"
      using decr_active_spec [OF ok y] by blast
    have eq: "s1 = s'" using s1(1) s' by simp
    have cnt: "counters_ok num mx s'"
      using counters_del [OF _ assms(2) mode y(2) assms(4) s1(4,5)] assms(1) by (simp add: pm_inv_def eq)
    have "length (used s) = Suc (length (used s1))" using arg_cong [OF s1(4), of size] by simp
    moreover have "policy_mgr_mode_specific_connection_count PM_STA_MODE s1 \<le> policy_mgr_mode_specific_connection_count PM_STA_MODE s"
      using mode_count_mset ok s1(2,4) by simp
    ultimately show ?thesis using s1(2,3) cnt assms(1,3) by (simp add: pm_inv_def sized_def kept_def eq)
  qed
  then show "pm_inv num mx s'" and "sized s'" by simp_all
qed

text \<open>Steps that keep the modes and the vdevs of the entries.\<close>

definition same_roles :: "pm_state \<Rightarrow> pm_state \<Rightarrow> bool" where
  "same_roles s s' \<longleftrightarrow> compact (conns s') \<and> map c_mode (used s') = map c_mode (used s) \<and> vdevs s' = vdevs s \<and>
     cfg s' = cfg s \<and> length (conns s') = length (conns s) \<and> pm_overrun s' = pm_overrun s \<and>
     no_of_active_sessions s' = no_of_active_sessions s"

lemma modes_size:
  "size (filter_mset (\<lambda>c. c_mode c = m) (mset xs)) = length (filter (\<lambda>x. x = m) (map c_mode xs))"
  by (induction xs) auto

lemma same_roles_inv:
  assumes r: "same_roles s s'" and inv: "pm_inv num mx s" "sized s"
  shows "pm_inv num mx s' \<and> sized s'"
proof -
  have modes: "c_mode ` set (used s') = c_mode ` set (used s)" "length (used s') = length (used s)"
    using r by (metis same_roles_def set_map) (metis same_roles_def r length_map)
  have size: "size (filter_mset (\<lambda>c. c_mode c = m) (mset (used s'))) = size (filter_mset (\<lambda>c. c_mode c = m) (mset (used s)))" for m
    using r unfolding modes_size by (simp add: same_roles_def)
  have ok: "pm_ok s'" using r inv by (simp add: same_roles_def pm_ok_def pm_inv_def)
  have "(\<forall>c\<in>set (used s'). c_mode c \<noteq> PM_MAX_NUM_OF_MODE) = (\<forall>c\<in>set (used s). c_mode c \<noteq> PM_MAX_NUM_OF_MODE)"
    using modes(1) by (metis (mono_tags) imageE imageI)
  then have "counters_ok num mx s'" using r inv size by (simp add: same_roles_def pm_inv_def counters_ok_def)
  moreover have "policy_mgr_mode_specific_connection_count PM_STA_MODE s' = policy_mgr_mode_specific_connection_count PM_STA_MODE s"
    using mode_count_mset [OF ok] mode_count_mset [of s] inv size by (simp add: pm_inv_def)
  ultimately show ?thesis using r inv ok modes(2) by (simp add: same_roles_def pm_inv_def sized_def)
qed

lemma find_valid_Some: "find_valid P t j = Some i \<Longrightarrow> i < length t \<and> c_in_use (t ! i) \<and> P (t ! i)"
proof (induction P t j rule: find_valid.induct)
  case (1 P t j)
  show ?case
    using 1 find_valid.simps [of P t j] by (auto simp: PM_CONC_CONNECTION_LIST_VALID_INDEX_def split: if_splits)
qed

lemma update_vdev_mac_roles:
  assumes "pm_ok s"
  shows "same_roles s (update_vdev_mac env m s)"
proof (cases "find_valid (\<lambda>c. c_vdev_id c = fst m) (conns s) 0")
  case None
  then show ?thesis using assms by (simp add: update_vdev_mac_def same_roles_def pm_ok_def)
next
  case (Some i)
  note i = find_valid_Some [OF Some]
  let ?c = "(conns s ! i)\<lparr>c_mac := ucast (snd m)\<rparr>"
  have same: "map (g \<circ> strip) (valid_prefix ((conns s)[i := ?c])) = map (g \<circ> strip) (valid_prefix (conns s))"
    if "g (strip ?c) = g (strip (conns s ! i))" for g :: "policy_mgr_conc_connection_info \<Rightarrow> 'x"
    using i that by (intro takeWhile_upd) simp_all
  have "compact ((conns s)[i := ?c])" using assms i by (intro filter_upd) (simp_all add: pm_ok_def)
  then show ?thesis
    using same [of c_mode] same [of c_vdev_id] Some
    by (simp add: update_vdev_mac_def same_roles_def vdevs_def used_def callback_def log_event_def)
qed

lemma step_inv:
  assumes "pm_step num mx s s'" "numbered num mx" "pm_inv num mx s" "sized s"
  shows "pm_inv num mx s' \<and> sized s'"
  using assms(1)
proof cases
  case (pm_open env mode)
  have "same_roles s s'" using assms(3) unfolding pm_open
    by (simp add: same_roles_def policy_mgr_set_concurrency_mode_def Let_def upd_open_def pm_inv_def pm_ok_def vdevs_def used_def)
  then show ?thesis using same_roles_inv assms by blast
next
  case (pm_close env mode)
  have "same_roles s s'" using assms(3) unfolding pm_close
    by (simp add: same_roles_def policy_mgr_clear_concurrency_mode_def Let_def upd_open_def pm_inv_def pm_ok_def vdevs_def used_def)
  then show ?thesis using same_roles_inv assms by blast
next
  case (pm_connect env0 env mode ch_freq bw v e)
  then show ?thesis using pm_inv_connect [OF assms(3,2,4)] by metis
next
  case (pm_disconnect env mode v)
  then show ?thesis using pm_inv_disconnect [OF assms(3,2,4)] by metis
next
  case (pm_hw_mode env ms)
  have "pm_inv num mx (fold (update_vdev_mac env) ms s) \<and> sized (fold (update_vdev_mac env) ms s)"
    using assms(3,4)
  proof (induction ms arbitrary: s)
    case (Cons m ms)
    have "pm_ok s" using Cons.prems(1) by (simp add: pm_inv_def)
    then have "pm_inv num mx (update_vdev_mac env m s) \<and> sized (update_vdev_mac env m s)"
      using same_roles_inv update_vdev_mac_roles Cons.prems by blast
    then show ?case using Cons.IH by simp
  qed simp
  then show ?thesis by (simp add: pm_hw_mode policy_mgr_update_hw_mode_conn_info_def)
qed

lemma start_inv:
  assumes "numbered (qdf_num env) (QDF_MAX_NO_OF_MODE env)" "\<not> pm_overrun s" "sized s"
  shows "pm_inv (qdf_num env) (QDF_MAX_NO_OF_MODE env) (pm_start env s) \<and> sized (pm_start env s)"
proof -
  have t: "list_all (\<lambda>c. \<not> c_in_use c) (replicate (length (conns s)) zero_conn)" by (simp add: list_all_iff)
  have u: "used (pm_start env s) = []" "compact (conns (pm_start env s))"
    using unused_compact [OF t]
    by (simp_all add: used_def pm_start_def policy_mgr_clear_concurrent_session_count_def init_conc_list_def)
  then have ok: "pm_ok (pm_start env s)" by (simp add: pm_ok_def vdevs_def)
  have "counters_ok (qdf_num env) (QDF_MAX_NO_OF_MODE env) (pm_start env s)"
    using assms(1) u by (simp add: counters_ok_def numbered_def pm_start_def policy_mgr_clear_concurrent_session_count_def)
  then show ?thesis
    using assms(2,3) ok u mode_count [OF u(2)]
    by (simp add: pm_inv_def sized_def pm_start_def policy_mgr_clear_concurrent_session_count_def init_conc_list_def)
qed

lemma reach_inv:
  assumes "(pm_step (qdf_num env) (QDF_MAX_NO_OF_MODE env))\<^sup>*\<^sup>* (pm_start env s) s'"
    "numbered (qdf_num env) (QDF_MAX_NO_OF_MODE env)" "\<not> pm_overrun s" "sized s"
  shows "pm_inv (qdf_num env) (QDF_MAX_NO_OF_MODE env) s' \<and> sized s'"
  using assms(1)
proof (induction rule: rtranclp_induct)
  case base
  show ?case by (rule start_inv [OF assms(2-4)])
next
  case (step y z)
  then show ?case using step_inv assms(2) by blast
qed

section \<open>The first connection\<close>

lemma empty_unused:
  assumes "pm_ok s" "used s = []"
  shows "list_all (\<lambda>c. \<not> c_in_use c) (conns s)"
  using assms compact_rest [of "conns s"] by (simp add: pm_ok_def used_def)

lemma empty_modes: "list_all (\<lambda>c. \<not> c_in_use c) (conns s) \<Longrightarrow> mode_specific_list m s = []"
  by (auto simp: mode_specific_list_def list_all_length filter_empty_conv)

lemma sap_go_unused: "list_all (\<lambda>c. \<not> c_in_use c) cs \<Longrightarrow> sap_go_loop env dbs f v cs"
  by (induction cs) simp_all

lemma first_allowed:
  assumes inv: "pm_inv num mx s" "numbered num mx" "QDF_MAX_NO_OF_MODE env = mx" and empty: "used s = []"
    and max: "0 < max_conc_cxns (cfg s)" and services: "env_services env \<noteq> None"
    and six: "is_6ghz_chan_freq env ch_freq \<Longrightarrow> policy_mgr_is_6ghz_conc_mode_supported mode"
  shows "policy_mgr_is_concurrency_allowed env mode ch_freq bw s"
proof -
  have ok: "pm_ok s" using inv(1) by (simp add: pm_inv_def)
  note unused = empty_unused [OF ok empty]
  note none = empty_modes [OF unused]
  have n: "policy_mgr_get_connection_count s = 0" using length_used ok empty by (simp add: pm_ok_def)
  have "sum_list (map (no_of_active_sessions s) [0..<mx]) = 0"
    using sum_active inv(1,2) empty by (simp add: pm_inv_def)
  moreover have "0 < uint (max_conc_cxns (cfg s))" using max by (simp add: word_less_def)
  ultimately have room: "\<not> policy_mgr_max_concurrent_connections_reached env s"
    by (simp add: policy_mgr_max_concurrent_connections_reached_def inv(3))
  have "\<not> PM_CONC_CONNECTION_LIST_VALID_INDEX (conns s) 0"
    using valid_index [OF ok] empty by simp
  then have "\<not> policy_mgr_disallow_mcc env ch_freq s"
    by (simp add: policy_mgr_disallow_mcc_def find_valid.simps [of _ "conns s" 0])
  moreover have "policy_mgr_is_6g_channel_allowed env mode ch_freq s"
    using six unused by (auto simp: policy_mgr_is_6g_channel_allowed_def list_all_iff)
  ultimately have ch: "channel_allowed env mode ch_freq bw 0 s"
    by (simp add: channel_allowed_def Let_def policy_mgr_allow_new_home_channel_def policy_mgr_is_5g_channel_allowed_def none)
  have ap: "policy_mgr_allow_sap_go_concurrency env mode ch_freq None s"
    using sap_go_unused [OF unused] by (simp add: policy_mgr_allow_sap_go_concurrency_def)
  have wapi: "policy_mgr_allow_wapi_concurrency env s"
    using services n by (auto simp: policy_mgr_allow_wapi_concurrency_def)
  show ?thesis
    using n room ch ap wapi
    by (simp add: policy_mgr_is_concurrency_allowed_def Let_def policy_mgr_mode_specific_connection_count_def none)
qed

end
