(* ===== verification/Pm_Props.thy ===== *)
theory Pm_Props
  imports Pm_Reach
begin

text \<open>The properties of the policy manager's connection table.\<close>

section \<open>Examples\<close>

text \<open>A host with numbers of modes as in the object manager, whose services are all there.\<close>

definition ex_num :: "QDF_OPMODE \<Rightarrow> nat" where
  "ex_num m = (case m of QDF_STA_MODE \<Rightarrow> 0 | QDF_SAP_MODE \<Rightarrow> 1 | QDF_P2P_CLIENT_MODE \<Rightarrow> 2 | QDF_P2P_GO_MODE \<Rightarrow> 3
     | QDF_MONITOR_MODE \<Rightarrow> 6 | QDF_NDI_MODE \<Rightarrow> 8 | QDF_NAN_DISC_MODE \<Rightarrow> 11 | QDF_OTHER_MODE n \<Rightarrow> 20 + n)"

definition ex_entry :: "wmi_vdev_type \<Rightarrow> wmi_vdev_subtype \<Rightarrow> u32 \<Rightarrow> policy_mgr_vdev_entry_info" where
  "ex_entry t st f = \<lparr>e_type = t, e_sub_type = st, e_mhz = f, e_chan_width = CH_WIDTH_20MHZ, e_mac_id = 0, e_ch_flagext = 0\<rparr>"

definition ex_env :: pm_env where
  "ex_env = \<lparr>qdf_num = ex_num, QDF_MAX_NO_OF_MODE = 12, registered = (\<lambda>_. True),
     env_connection_info = (\<lambda>v. Some (if v = 2 then ex_entry WMI_VDEV_TYPE_AP Subtype_0 2412
                                     else ex_entry WMI_VDEV_TYPE_STA Subtype_0 5180)),
     env_nan_connection_info = None, env_nss = (\<lambda>_. (2, 2)), env_hdd_ap_6ghz = (\<lambda>_. 0), env_pcl = (\<lambda>_ _. Some []),
     env_services = Some (\<lambda>_. True), env_wapi_sta_active = False, is_24ghz_ch_freq = (\<lambda>f. f < 3000),
     is_5ghz_ch_freq = (\<lambda>f. 5000 < f \<and> f < 5900), is_6ghz_chan_freq = (\<lambda>f. 5900 < f),
     is_same_band_freqs = (\<lambda>f g. (f < 3000) = (g < 3000)), is_bonded_state_dfs = (\<lambda>_ _. False), chan_dfs_flags = 1\<rparr>"

definition ex_state :: "u8 \<Rightarrow> policy_mgr_conc_connection_info list \<Rightarrow> pm_state" where
  "ex_state mx cs = \<lparr>conns = cs, concurrency_mode = 0, no_of_open_sessions = (\<lambda>_. 0),
     no_of_active_sessions = (\<lambda>i. of_nat (length (filter (\<lambda>c. pm_num (c_mode c) = i) (valid_prefix cs)))),
     do_sap_unsafe_ch_check = False, dynamic_dfs_master_disabled = False,
     cfg = \<lparr>mcc_to_scc_switch = Other_switch_mode, max_conc_cxns = mx, dual_mac_feature = ENABLE_DBS_CXN_AND_SCAN,
            sta_sap_scc_on_dfs_chnl = 0, sta_sap_scc_on_lte_coex_chnl = 0, go_force_scc = 0\<rparr>,
     cur_fw_mode_dbs = True, hw_mode_list = [], sub_20_mhz_enabled = False, pm_log = [], pm_overrun = False\<rparr>"

definition ex_conn :: "policy_mgr_con_mode \<Rightarrow> u32 \<Rightarrow> u32 \<Rightarrow> policy_mgr_conc_connection_info" where
  "ex_conn m v f = zero_conn\<lparr>c_mode := m, c_vdev_id := v, c_freq := f, c_in_use := True\<rparr>"

lemma numbered_ex: "numbered ex_num 12"
  by (auto simp: numbered_def counted_def ex_num_def inj_on_def)

lemma ex_env_simps [simp]: "qdf_num ex_env = ex_num" "QDF_MAX_NO_OF_MODE ex_env = 12"
  by (simp_all add: ex_env_def)

section \<open>Runs\<close>

text \<open>C25. The configured maximum is at most the size of the table, 3 or 4.  After any sequence of opened
  and closed interfaces, of sessions that the concurrency check admitted and that became active with a
  connection of WMA of their mode, of sessions that became inactive, and of reports of MAC numbers, the
  entries in use are the front of the table with distinct vdevs, there are not more of them than the
  configuration allows, at most two are stations, each session counter is the number of entries of its
  mode, and nothing was written behind the table.\<close>

theorem pm_run_safe:
  assumes "numbered (qdf_num env) (QDF_MAX_NO_OF_MODE env)" "\<not> pm_overrun s0" "sized s0"
    "(pm_step (qdf_num env) (QDF_MAX_NO_OF_MODE env))\<^sup>*\<^sup>* (pm_start env s0) s"
  shows "compact (conns s) \<and> distinct (vdevs s) \<and>
    policy_mgr_get_connection_count s \<le> unat (max_conc_cxns (cfg s)) \<and>
    policy_mgr_mode_specific_connection_count PM_STA_MODE s \<le> 2 \<and>
    (\<forall>m. counts_active m \<longrightarrow>
      unat (no_of_active_sessions s (qdf_num env m)) = policy_mgr_mode_specific_connection_count (conv m) s) \<and>
    \<not> pm_overrun s"
proof -
  have inv: "pm_inv (qdf_num env) (QDF_MAX_NO_OF_MODE env) s" and sz: "sized s"
    using reach_inv [OF assms(4,1-3)] by simp_all
  then have ok: "pm_ok s" by (simp add: pm_inv_def)
  have "unat (no_of_active_sessions s (qdf_num env m)) = policy_mgr_mode_specific_connection_count (conv m) s"
    if "counts_active m" for m
  proof -
    have "length (used s) \<le> 4" using length_used_le [of s] sz by (auto simp: sized_def)
    then have "policy_mgr_mode_specific_connection_count (conv m) s \<le> 4"
      using mode_count [of s "conv m"] length_filter_le [of "\<lambda>c. c_mode c = conv m" "used s"] ok
      by (simp add: pm_ok_def del: length_filter_le)
    then show ?thesis
      using inv that mode_count_mset [OF ok]
      by (simp add: pm_inv_def counters_ok_def counts_active_iff unat_of_nat)
  qed
  then show ?thesis using inv ok length_used by (simp add: pm_inv_def pm_ok_def)
qed

text \<open>The example: a station connects.\<close>

definition ex_s0 :: pm_state where "ex_s0 = ex_state 3 (replicate 3 zero_conn)"

lemma ex_start: "\<not> pm_overrun ex_s0" "sized ex_s0"
  by (simp_all add: ex_s0_def ex_state_def sized_def)

lemma ex_start_inv: "pm_inv ex_num 12 (pm_start ex_env ex_s0)" "sized (pm_start ex_env ex_s0)" "used (pm_start ex_env ex_s0) = []"
    "cfg (pm_start ex_env ex_s0) = cfg ex_s0" "numbered (qdf_num ex_env) (QDF_MAX_NO_OF_MODE ex_env)"
  using start_inv [of ex_env ex_s0] numbered_ex ex_start
  by (simp_all add: used_def valid_prefix_def pm_start_def policy_mgr_clear_concurrent_session_count_def init_conc_list_def
    ex_s0_def ex_state_def)

lemma ex_allowed: "policy_mgr_is_concurrency_allowed ex_env PM_STA_MODE 5180 HW_MODE_20_MHZ (pm_start ex_env ex_s0)"
  by (rule first_allowed [OF ex_start_inv(1) numbered_ex _ ex_start_inv(3)])
    (simp_all add: ex_start_inv, simp_all add: ex_s0_def ex_state_def ex_env_def)

lemma ex_connect:
  "connection_info ex_env QDF_STA_MODE (ucast (0 :: u8)) = Some (ex_entry WMI_VDEV_TYPE_STA Subtype_0 5180)"
  "policy_mgr_get_mode (e_type (ex_entry WMI_VDEV_TYPE_STA Subtype_0 5180)) (e_sub_type (ex_entry WMI_VDEV_TYPE_STA Subtype_0 5180)) =
     conv QDF_STA_MODE"
  "ucast (0 :: u8) \<notin> set (vdevs (pm_start ex_env ex_s0))"
  by (simp_all add: vdevs_def ex_start_inv, simp_all add: connection_info_def ex_env_def ex_entry_def policy_mgr_get_mode_def)

lemma ex_step:
  obtains s where "pm_step ex_num 12 (pm_start ex_env ex_s0) s" "length (used s) = 1"
proof -
  obtain s where s: "policy_mgr_incr_active_session ex_env QDF_STA_MODE 0 (pm_start ex_env ex_s0) = Some s"
    "mset (used s) = add_mset (new_conn ex_env (ucast (0 :: u8)) (ex_entry WMI_VDEV_TYPE_STA Subtype_0 5180)) (mset (used (pm_start ex_env ex_s0)))"
    by (rule connect_exists [OF ex_start_inv(1) numbered_ex ex_start_inv(2) ex_allowed _ ex_connect(1,3)]) simp_all
  have "pm_step ex_num 12 (pm_start ex_env ex_s0) s"
    by (rule pm_connect [of ex_env _ _ ex_env QDF_STA_MODE 5180 HW_MODE_20_MHZ])
      (use s(1) ex_allowed ex_connect in \<open>simp_all add: counts_active_def\<close>)
  moreover have "length (used s) = 1" using arg_cong [OF s(2), of size] by (simp add: ex_start_inv)
  ultimately show thesis using that by blast
qed

theorem pm_run_safe_witness:
  "\<exists>s. (pm_step ex_num 12)\<^sup>*\<^sup>* (pm_start ex_env ex_s0) s \<and> length (used s) = 1 \<and> compact (conns s) \<and>
     policy_mgr_get_connection_count s \<le> unat (max_conc_cxns (cfg s)) \<and> \<not> pm_overrun s"
proof -
  obtain s where s: "pm_step ex_num 12 (pm_start ex_env ex_s0) s" "length (used s) = 1" by (rule ex_step)
  then have "(pm_step ex_num 12)\<^sup>*\<^sup>* (pm_start ex_env ex_s0) s" by blast
  then show ?thesis using pm_run_safe [of ex_env ex_s0 s] numbered_ex ex_start s(2) by auto
qed

text \<open>C26. The configured maximum is at most the size of the table, 3 or 4.  In every state of a run, a
  session that the concurrency check admits, and for whose vdev, which is not in the table, WMA knows a
  connection of the same mode, is entered in the table; when it ends, the table holds the entries it
  held before, and the counters are the old ones.\<close>

theorem pm_connect_disconnect:
  assumes "numbered (qdf_num env) (QDF_MAX_NO_OF_MODE env)" "\<not> pm_overrun s0" "sized s0"
    "(pm_step (qdf_num env) (QDF_MAX_NO_OF_MODE env))\<^sup>*\<^sup>* (pm_start env s0) s"
    "policy_mgr_is_concurrency_allowed env (conv mode) ch_freq bw s" "counts_active mode" "ucast v \<notin> set (vdevs s)"
    "connection_info env mode (ucast v) = Some e" "policy_mgr_get_mode (e_type e) (e_sub_type e) = conv mode"
  shows "\<exists>s1 s2. policy_mgr_incr_active_session env mode v s = Some s1 \<and>
    mset (used s1) = add_mset (new_conn env (ucast v) e) (mset (used s)) \<and>
    policy_mgr_decr_active_session env mode v s1 = (QDF_STATUS_SUCCESS, s2) \<and>
    mset (used s2) = mset (used s) \<and> no_of_active_sessions s2 = no_of_active_sessions s"
proof -
  let ?c = "new_conn env (ucast v) e"
  have inv: "pm_inv (qdf_num env) (QDF_MAX_NO_OF_MODE env) s" "sized s" using reach_inv [OF assms(4,1-3)] by simp_all
  obtain s1 where s1: "policy_mgr_incr_active_session env mode v s = Some s1" "pm_ok s1" "kept s s1"
    "mset (used s1) = add_mset ?c (mset (used s))" "no_of_active_sessions s1 = count_up env mode 1 (no_of_active_sessions s)"
    by (rule connect_exists [OF inv(1) assms(1) inv(2) assms(5) refl assms(8,7)])
  have "pm_inv (qdf_num env) (QDF_MAX_NO_OF_MODE env) s1" "sized s1"
    using pm_inv_connect [OF inv(1) assms(1) inv(2) refl refl assms(5-9) s1(1)] by simp_all
  then have cnt: "counters_ok (qdf_num env) (QDF_MAX_NO_OF_MODE env) s1" and len: "length (used s1) \<le> 4"
    using length_used_le [of s1] by (auto simp: pm_inv_def sized_def)
  have y: "?c \<in> set (used s1)" "c_mode ?c = conv mode" "c_vdev_id ?c = ucast v"
    using mset_eq_setD [of "used s1" "?c # used s"] s1(4) assms(9) by simp_all
  have a: "no_of_active_sessions s1 (qdf_num env mode) \<noteq> 0"
    using active_nonzero [OF cnt len _ y(1,2)] assms(6) by (simp add: counts_active_iff)
  obtain s2 where s2: "policy_mgr_decr_active_session env mode v s1 = (QDF_STATUS_SUCCESS, s2)"
    "mset (used s1) = add_mset ?c (mset (used s2))"
    "no_of_active_sessions s2 = count_up env mode (- 1) (no_of_active_sessions s1)"
    using decr_active_spec [OF s1(2) y] a by blast
  have "no_of_active_sessions s2 = no_of_active_sessions s" using s1(5) s2(3) by (simp add: count_up_def)
  then show ?thesis using s1(1,4) s2(1,2) by auto
qed

theorem pm_connect_disconnect_witness:
  "\<exists>s1 s2. policy_mgr_incr_active_session ex_env QDF_STA_MODE 0 (pm_start ex_env ex_s0) = Some s1 \<and>
    policy_mgr_decr_active_session ex_env QDF_STA_MODE 0 s1 = (QDF_STATUS_SUCCESS, s2) \<and> used s2 = []"
  using pm_connect_disconnect [of ex_env ex_s0 "pm_start ex_env ex_s0" QDF_STA_MODE 5180 HW_MODE_20_MHZ 0]
    ex_start ex_start_inv ex_allowed ex_connect by (auto simp: counts_active_def)

text \<open>The first connection is admitted on every channel, or without one, if the configuration allows
  a connection, the firmware's services are known, and the mode can use the channel's band.\<close>

theorem pm_first_connection:
  assumes "numbered (qdf_num env) (QDF_MAX_NO_OF_MODE env)" "\<not> pm_overrun s0" "sized s0"
    "(pm_step (qdf_num env) (QDF_MAX_NO_OF_MODE env))\<^sup>*\<^sup>* (pm_start env s0) s"
    "policy_mgr_get_connection_count s = 0" "0 < max_conc_cxns (cfg s)" "env_services env \<noteq> None"
    "is_6ghz_chan_freq env ch_freq \<Longrightarrow> policy_mgr_is_6ghz_conc_mode_supported mode"
  shows "policy_mgr_is_concurrency_allowed env mode ch_freq bw s"
proof -
  have inv: "pm_inv (qdf_num env) (QDF_MAX_NO_OF_MODE env) s" using reach_inv [OF assms(4,1-3)] by simp
  then have "used s = []" using assms(5) length_used by (simp add: pm_inv_def pm_ok_def)
  then show ?thesis using first_allowed [OF inv assms(1) refl _ assms(6-8)] by blast
qed

theorem pm_first_connection_witness:
  "policy_mgr_is_concurrency_allowed ex_env PM_SAP_MODE 5955 HW_MODE_80_MHZ (pm_start ex_env ex_s0)"
proof (rule pm_first_connection [OF ex_start_inv(5) ex_start rtranclp.rtrancl_refl])
  show "policy_mgr_get_connection_count (pm_start ex_env ex_s0) = 0"
    using length_used ex_start_inv(1,3) by (simp add: pm_inv_def pm_ok_def)
qed (simp_all add: ex_start_inv, simp_all add: ex_s0_def ex_state_def ex_env_def policy_mgr_is_6ghz_conc_mode_supported_def)

section \<open>Radar channels\<close>

lemma mode_specific_mem:
  "c \<in> set (conns s) \<Longrightarrow> c_in_use c \<Longrightarrow> \<exists>i\<in>set (mode_specific_list (c_mode c) s). conns s ! i = c"
  by (auto simp: mode_specific_list_def in_set_conv_nth)

text \<open>C27. On a 5 GHz channel, a new connection is only admitted if each access point or group owner
  of the table that beacons on a radar channel is on the same channel; on a 6 GHz channel likewise, if
  that access point is on 5 GHz.  So no connection is admitted that would take it off its channel.\<close>

theorem pm_dfs_no_mcc:
  assumes "policy_mgr_is_concurrency_allowed env mode ch_freq bw s" "ch_freq \<noteq> 0"
    "c \<in> set (conns s)" "c_in_use c" "is_ap (c_mode c)" "on_dfs env c"
    "is_5ghz_ch_freq env ch_freq \<or> is_6ghz_chan_freq env ch_freq \<and> is_5ghz_ch_freq env (c_freq c)"
  shows "c_freq c = ch_freq"
proof -
  have ch: "channel_allowed env mode ch_freq bw (policy_mgr_get_connection_count s) s"
    using assms(1,2) by (auto simp: policy_mgr_is_concurrency_allowed_def Let_def split: if_splits)
  then have p: "policy_mgr_is_5g_channel_allowed env ch_freq PM_P2P_GO_MODE s"
      "policy_mgr_is_5g_channel_allowed env ch_freq PM_SAP_MODE s" "policy_mgr_is_6g_channel_allowed env mode ch_freq s"
    by (auto simp: channel_allowed_def Let_def split: if_splits)
  show ?thesis
  proof (cases "is_5ghz_ch_freq env ch_freq")
    case True
    have "policy_mgr_is_5g_channel_allowed env ch_freq (c_mode c) s" using p(1,2) assms(5) by (auto simp: is_ap_def)
    then show ?thesis
      using mode_specific_mem [OF assms(3,4)] True assms(6) by (auto simp: policy_mgr_is_5g_channel_allowed_def list_all_iff)
  next
    case False
    then show ?thesis
      using p(3) assms(3-7) by (auto simp: policy_mgr_is_6g_channel_allowed_def list_all_iff split: if_splits)
  qed
qed

definition ex_dfs :: pm_state where
  "ex_dfs = ex_state 3 [(ex_conn PM_SAP_MODE 1 5260)\<lparr>c_ch_flagext := 1\<rparr>, zero_conn, zero_conn]"

lemma ex_dfs_allowed: "policy_mgr_is_concurrency_allowed ex_env PM_STA_MODE 5260 HW_MODE_20_MHZ ex_dfs"
  by (simp add: ex_dfs_def ex_state_def ex_conn_def ex_env_def ex_num_def policy_mgr_is_concurrency_allowed_def Let_def
    policy_mgr_get_connection_count_def policy_mgr_mode_specific_connection_count_def mode_specific_list_def upt_rec
    policy_mgr_max_concurrent_connections_reached_def valid_prefix_def channel_allowed_def
    policy_mgr_allow_new_home_channel_def policy_mgr_is_5g_channel_allowed_def policy_mgr_is_6g_channel_allowed_def
    policy_mgr_is_hw_dbs_capable_def policy_mgr_is_dbs_enable_def policy_mgr_is_dual_mac_disabled_in_ini_def
    policy_mgr_find_if_hwlist_has_dbs_def policy_mgr_is_interband_mcc_supported_def policy_mgr_allow_sap_go_concurrency_def
    is_ap_def policy_mgr_allow_wapi_concurrency_def)

theorem pm_dfs_no_mcc_witness: "c_freq (conns ex_dfs ! 0) = 5260"
  by (rule pm_dfs_no_mcc [OF ex_dfs_allowed]) (simp_all add: ex_dfs_def ex_state_def ex_conn_def is_ap_def on_dfs_def ex_env_def)

section \<open>Storing away and restoring\<close>

text \<open>Storing away the connections of a mode returns and takes exactly them out of the table and
  their number off the counter; restoring them puts them behind the others and gives the old counters,
  as long as the stored ones are fewer than the places of the table.\<close>

theorem pm_store_restore:
  assumes "pm_ok s" "policy_mgr_mode_specific_connection_count m s < length (conns s)"
  shows "\<exists>info s1. policy_mgr_store_and_del_conn_info m True s = Some (info, s1) \<and>
    map strip info = filter (\<lambda>c. c_mode c = m) (used s) \<and> used s1 = filter (\<lambda>c. c_mode c \<noteq> m) (used s) \<and>
    no_of_active_sessions s1 (pm_num m) = no_of_active_sessions s (pm_num m) - of_nat (length info) \<and>
    used (policy_mgr_restore_deleted_conn_info info s1) =
      filter (\<lambda>c. c_mode c \<noteq> m) (used s) @ filter (\<lambda>c. c_mode c = m) (used s) \<and>
    no_of_active_sessions (policy_mgr_restore_deleted_conn_info info s1) = no_of_active_sessions s \<and>
    pm_overrun (policy_mgr_restore_deleted_conn_info info s1) = pm_overrun s"
proof -
  obtain info t where i: "policy_mgr_store_and_del_conn_info m True s =
       Some (info, add_active (pm_num m) (- of_nat (length info)) (s\<lparr>conns := t\<rparr>))"
    "map strip info = filter (\<lambda>c. c_mode c = m) (used s)" "used (s\<lparr>conns := t\<rparr>) = filter (\<lambda>c. c_mode c \<noteq> m) (used s)"
    "pm_ok (s\<lparr>conns := t\<rparr>)" "length t = length (conns s)"
    by (rule store_all_spec [OF assms(1)])
  have "length info = policy_mgr_mode_specific_connection_count m s"
    using i(2) mode_count [of s m] assms(1) by (metis length_map pm_ok_def)
  then obtain t' where "policy_mgr_restore_deleted_conn_info info (add_active (pm_num m) (- of_nat (length info)) (s\<lparr>conns := t\<rparr>)) =
      s\<lparr>conns := t'\<rparr>" "used (s\<lparr>conns := t'\<rparr>) = filter (\<lambda>c. c_mode c \<noteq> m) (used s) @ filter (\<lambda>c. c_mode c = m) (used s)"
    using restore_stored [OF i(4,2,3,5), of m] assms(2) by auto
  then show ?thesis using i(1-3) by (simp add: active_add_active)
qed

definition ex_three :: pm_state where
  "ex_three = ex_state 3 [ex_conn PM_STA_MODE 0 5180, ex_conn PM_STA_MODE 1 2412, ex_conn PM_SAP_MODE 2 2437]"

lemma ex_three_ok: "pm_ok ex_three"
  by (simp add: pm_ok_def compact_def vdevs_conv valid_prefix_def ex_three_def ex_state_def ex_conn_def)

lemma ex_three_used: "used ex_three = [ex_conn PM_STA_MODE 0 5180, ex_conn PM_STA_MODE 1 2412, ex_conn PM_SAP_MODE 2 2437]"
  by (simp add: used_def valid_prefix_def ex_three_def ex_state_def ex_conn_def strip_def zero_conn_def)

theorem pm_store_restore_witness:
  "\<exists>info s1. policy_mgr_store_and_del_conn_info PM_STA_MODE True ex_three = Some (info, s1) \<and>
    map c_vdev_id (used (policy_mgr_restore_deleted_conn_info info s1)) = [2, 0, 1]"
proof -
  have "policy_mgr_mode_specific_connection_count PM_STA_MODE ex_three < length (conns ex_three)"
    using mode_count [of ex_three PM_STA_MODE] ex_three_ok
    by (simp add: pm_ok_def ex_three_used ex_conn_def) (simp add: ex_three_def ex_state_def)
  then show ?thesis
    using pm_store_restore [OF ex_three_ok, of PM_STA_MODE] by (fastforce simp: ex_three_used ex_conn_def)
qed

text \<open>Deleting the connections of a mode on a channel removes exactly them from the list of
  connections and keeps the order of the others, whatever the mode, and takes their number off the
  counter: the table implements a list that is filtered.\<close>

theorem pm_chan_mode_del:
  assumes "pm_ok s"
  shows "case policy_mgr_store_and_del_conn_info_by_chan_and_mode f m s of (info, s1) \<Rightarrow>
    map strip info = filter (\<lambda>c. c_freq c = f \<and> c_mode c = m) (used s) \<and>
    used s1 = filter (\<lambda>c. \<not> (c_freq c = f \<and> c_mode c = m)) (used s) \<and> pm_ok s1 \<and>
    no_of_active_sessions s1 = (no_of_active_sessions s)(pm_num m := no_of_active_sessions s (pm_num m) - of_nat (length info))"
proof -
  obtain info t where i: "policy_mgr_store_and_del_conn_info_by_chan_and_mode f m s =
       (info, add_active (pm_num m) (- of_nat (length info)) (s\<lparr>conns := t\<rparr>))"
    "map strip info = filter (\<lambda>c. c_freq c = f \<and> c_mode c = m) (used s)"
    "used (s\<lparr>conns := t\<rparr>) = filter (\<lambda>c. \<not> (c_freq c = f \<and> c_mode c = m)) (used s)" "pm_ok (s\<lparr>conns := t\<rparr>)"
    by (rule store_chan_spec [OF assms])
  show ?thesis unfolding i(1) prod.case using i(2-4) by (simp add: active_add_active)
qed

theorem pm_chan_mode_del_witness:
  "used (snd (policy_mgr_store_and_del_conn_info_by_chan_and_mode 5180 PM_STA_MODE ex_three)) =
     [ex_conn PM_STA_MODE 1 2412, ex_conn PM_SAP_MODE 2 2437]"
  using pm_chan_mode_del [OF ex_three_ok, of 5180 PM_STA_MODE]
  by (simp add: ex_three_used split: prod.splits) (simp add: ex_conn_def)

text \<open>The connections that a channel switch takes out of the table for its check.\<close>

definition switching :: "policy_mgr_con_mode \<Rightarrow> bool \<Rightarrow> sap_csa_reason_code \<Rightarrow> policy_mgr_conc_connection_info \<Rightarrow> policy_mgr_conc_connection_info \<Rightarrow> bool" where
  "switching mode forced reason y c \<longleftrightarrow>
     (if switches_all forced reason then c_freq c = c_freq y \<and> c_mode c = mode else c_vdev_id c = c_vdev_id y)"

lemma switching_eq:
  "switches_all forced reason \<Longrightarrow> switching mode forced reason y = (\<lambda>c. c_freq c = c_freq y \<and> c_mode c = mode)"
  "\<not> switches_all forced reason \<Longrightarrow> switching mode forced reason y = (\<lambda>c. c_vdev_id c = c_vdev_id y)"
  by (simp_all add: switching_def fun_eq_iff)

lemma chan_of_vdev:
  assumes "pm_ok s" "y \<in> set (used s)"
  shows "policy_mgr_get_chan_by_session_id (c_vdev_id y) s = Some (c_freq y)"
proof -
  obtain i where "first_in_use (\<lambda>x. c_vdev_id x = c_vdev_id y) (conns s) = Some i" "strip (conns s ! i) = y"
    by (rule first_vdev [OF assms])
  moreover from this(2) have "c_freq (conns s ! i) = c_freq y" using strip_simps(2) by metis
  ultimately show ?thesis by (simp add: policy_mgr_get_chan_by_session_id_def)
qed

text \<open>C28. The check whether a connected access point may switch its channel decides as for a new
  connection on a table without the connections that switch, and puts them back: afterwards only the
  order of the table is another, and every counter is as before; provided that a connection is left
  when all those on the channel switch.\<close>

theorem pm_csa_restores:
  assumes ok: "pm_ok s" and y: "y \<in> set (used s)" and len: "2 \<le> length (conns s)"
    and few: "switches_all forced reason \<Longrightarrow> length (filter (switching mode forced reason y) (used s)) < length (conns s)"
  shows "\<exists>s1 t. policy_mgr_allow_concurrency_csa env mode ch_freq (c_vdev_id y) forced reason s =
      (policy_mgr_allow_concurrency env mode ch_freq HW_MODE_20_MHZ s1, s\<lparr>conns := t\<rparr>) \<and>
    used s1 = filter (\<lambda>c. \<not> switching mode forced reason y c) (used s) \<and>
    used (s\<lparr>conns := t\<rparr>) = used s1 @ filter (switching mode forced reason y) (used s) \<and> pm_ok (s\<lparr>conns := t\<rparr>)"
proof -
  let ?P = "switching mode forced reason y"
  let ?m = "if switches_all forced reason then mode else c_mode y"
  obtain info t where i: "(if switches_all forced reason
      then policy_mgr_store_and_del_conn_info_by_chan_and_mode (c_freq y) mode s
      else policy_mgr_store_and_del_conn_info_by_vdev_id (c_vdev_id y) s) =
      (info, add_active (pm_num ?m) (- of_nat (length info)) (s\<lparr>conns := t\<rparr>))"
    "map strip info = filter ?P (used s)" "used (s\<lparr>conns := t\<rparr>) = filter (\<lambda>c. \<not> ?P c) (used s)"
    "pm_ok (s\<lparr>conns := t\<rparr>)" "length t = length (conns s)" "length info < length (conns s)"
  proof (cases "switches_all forced reason")
    case True
    obtain info t where *: "policy_mgr_store_and_del_conn_info_by_chan_and_mode (c_freq y) mode s =
        (info, add_active (pm_num mode) (- of_nat (length info)) (s\<lparr>conns := t\<rparr>))"
      "map strip info = filter (\<lambda>c. c_freq c = c_freq y \<and> c_mode c = mode) (used s)"
      "used (s\<lparr>conns := t\<rparr>) = filter (\<lambda>c. \<not> (c_freq c = c_freq y \<and> c_mode c = mode)) (used s)"
      "pm_ok (s\<lparr>conns := t\<rparr>)" "length t = length (conns s)"
      by (rule store_chan_spec [OF ok])
    moreover have "length info < length (conns s)"
      using few [OF True] arg_cong [OF *(2), of length] by (simp add: switching_eq(1) [OF True])
    ultimately show ?thesis using that True by (simp add: switching_eq(1) [OF True])
  next
    case False
    obtain c t where "policy_mgr_store_and_del_conn_info_by_vdev_id (c_vdev_id y) s =
        ([c], add_active (pm_num (c_mode y)) (- 1) (s\<lparr>conns := t\<rparr>))" "strip c = y"
      "used (s\<lparr>conns := t\<rparr>) = filter (\<lambda>c. c_vdev_id c \<noteq> c_vdev_id y) (used s)" "pm_ok (s\<lparr>conns := t\<rparr>)"
      "length t = length (conns s)"
      by (rule store_vdev_spec [OF ok y])
    moreover have "filter (\<lambda>c. c_vdev_id c = c_vdev_id y) (used s) = [y]"
      using filter_key [OF pmt.keys_distinct [OF ok] y] .
    ultimately show ?thesis using that [of "[c]" t] False len by (simp add: switching_eq(2) [OF False])
  qed
  have mode: "c_mode c = ?m" if "c \<in> set (used s)" "?P c" for c
    using that y pmt.keys_distinct [OF ok] by (auto simp: switching_def distinct_map inj_on_def split: if_splits)
  let ?s1 = "add_active (pm_num ?m) (- of_nat (length info)) (s\<lparr>conns := t\<rparr>)"
  obtain t' where t': "policy_mgr_restore_deleted_conn_info info ?s1 = s\<lparr>conns := t'\<rparr>"
    "used (s\<lparr>conns := t'\<rparr>) = filter (\<lambda>c. \<not> ?P c) (used s) @ filter ?P (used s)" "compact t'"
    using restore_stored [OF i(4,2,3,5) mode i(6)] by blast
  have "mset (used (s\<lparr>conns := t'\<rparr>)) = mset (used s)"
    unfolding t'(2) mset_append by (metis add.commute multiset_partition mset_filter)
  then have "distinct (vdevs (s\<lparr>conns := t'\<rparr>))"
    using ok unfolding pm_ok_def vdevs_def by (metis mset_eq_imp_distinct_iff mset_map)
  then have "pm_ok (s\<lparr>conns := t'\<rparr>)" using t'(3) by (simp add: pm_ok_def)
  moreover have "policy_mgr_allow_concurrency_csa env mode ch_freq (c_vdev_id y) forced reason s =
      (policy_mgr_allow_concurrency env mode ch_freq HW_MODE_20_MHZ ?s1, policy_mgr_restore_deleted_conn_info info ?s1)"
    unfolding policy_mgr_allow_concurrency_csa_def chan_of_vdev [OF ok y] option.case i(1) Let_def prod.case
    by (simp add: policy_mgr_restore_deleted_conn_info_def)
  ultimately show ?thesis using t'(1,2) i(3) by (intro exI [of _ ?s1] exI [of _ t']) simp
qed

theorem pm_csa_restores_witness:
  "\<exists>t. snd (policy_mgr_allow_concurrency_csa ex_env PM_SAP_MODE 2462 2 True CSA_REASON_UNSAFE_CHANNEL ex_three) =
     ex_three\<lparr>conns := t\<rparr> \<and> map c_vdev_id (used (ex_three\<lparr>conns := t\<rparr>)) = [0, 1, 2]"
proof -
  let ?y = "ex_conn PM_SAP_MODE 2 2437"
  have "?y \<in> set (used ex_three)" "2 \<le> length (conns ex_three)" "c_vdev_id ?y = 2"
    "length (filter (switching PM_SAP_MODE True CSA_REASON_UNSAFE_CHANNEL ?y) (used ex_three)) < length (conns ex_three)"
    by (simp_all add: ex_three_used switching_def switches_all_def) (simp_all add: ex_three_def ex_state_def ex_conn_def)
  then show ?thesis
    using pm_csa_restores [OF ex_three_ok, of ?y True CSA_REASON_UNSAFE_CHANNEL PM_SAP_MODE ex_env 2462]
    by (fastforce simp: ex_three_used switching_def switches_all_def ex_conn_def)
qed

section \<open>Defects\<close>

text \<open>C29. When a session of another mode becomes active while two stations are connected, the loop
  that updates the preferred channels of the stations, and restarts roaming for each, updates the first
  one twice and the second one never: taking an entry out and putting it back moves it to the end of the
  table, over whose indices the loop runs.  The second list for the first station is computed without
  the second station and with the first one itself.\<close>

theorem pm_pcl_skips_second_sta:
  assumes ok: "pm_ok s" and used: "used s = [a, b, x]" and len: "length (conns s) \<in> {3, 4}"
    and modes: "c_mode a = PM_STA_MODE" "c_mode b = PM_STA_MODE" "c_mode x \<noteq> PM_STA_MODE"
    and pcl: "\<forall>t. policy_mgr_pdev_get_pcl env PM_STA_MODE t \<noteq> None"
  shows "\<exists>s' t1 t2. pcl_for_stas env [0..<length (conns s)] s = Some s' \<and>
    map strip (valid_prefix t1) = [b, x] \<and> map strip (valid_prefix t2) = [x, a] \<and>
    (let v = ucast (c_vdev_id a)
     in pm_log s' = pm_log s @ [Rso_stop v, Pcl_computed PM_STA_MODE t1, Set_pcl v, Rso_start v,
                                Rso_stop v, Pcl_computed PM_STA_MODE t2, Set_pcl v, Rso_start v])"
proof -
  let ?v = "ucast (c_vdev_id a) :: u8"
  have two: "2 \<le> length (conns s)" using len by auto
  have ok0: "pm_ok (log_event (Rso_stop ?v) s)" using ok by simp
  obtain s1 t1 where s1: "policy_mgr_set_pcl_for_existing_combo env PM_STA_MODE ?v (log_event (Rso_stop ?v) s) = Some s1"
    "same_conns (log_event (Rso_stop ?v) s) s1" "used s1 = [b, x, a]" "map strip (valid_prefix t1) = [b, x]"
    "pm_log s1 = pm_log (log_event (Rso_stop ?v) s) @ [Pcl_computed PM_STA_MODE t1, Set_pcl ?v]"
    by (rule set_pcl_first [OF ok0, of "[]" a "[b, x]" PM_STA_MODE env ?v]) (use used two modes pcl in simp_all)
  let ?s2 = "log_event (Rso_start ?v) s1"
  let ?s3 = "log_event (Rso_stop ?v) ?s2"
  have ok3: "pm_ok ?s3" "length (conns ?s3) = length (conns s)" using same_connsD(1,3) [OF s1(2)] by simp_all
  obtain s4 t2 where s4: "policy_mgr_set_pcl_for_existing_combo env PM_STA_MODE ?v ?s3 = Some s4"
    "same_conns ?s3 s4" "used s4 = [x, a, b]" "map strip (valid_prefix t2) = [x, a]"
    "pm_log s4 = pm_log ?s3 @ [Pcl_computed PM_STA_MODE t2, Set_pcl ?v]"
    by (rule set_pcl_first [OF ok3(1), of "[]" b "[x, a]" PM_STA_MODE env ?v]) (use s1(3) ok3(2) two modes pcl in simp_all)
  let ?s5 = "log_event (Rso_start ?v) s4"
  have idxs: "[0..<length (conns s)] = 0 # 1 # 2 # [3..<length (conns s)]" using len by (elim insertE emptyE) (simp_all add: upt_rec)
  have "pcl_for_stas env [0..<length (conns s)] s = pcl_for_stas env (1 # 2 # [3..<length (conns s)]) ?s2"
    unfolding idxs using sta_step [of s "[]" a "[b, x]" env s1] used modes(1) s1(1) by simp
  also have "\<dots> = pcl_for_stas env (2 # [3..<length (conns s)]) ?s2"
    using other_step [of ?s2 "[b]" x "[a]" env] s1(3) modes(3) by simp
  also have "\<dots> = pcl_for_stas env [3..<length (conns s)] ?s5"
    using sta_step [of ?s2 "[b, x]" a "[]" env s4] s1(3) modes(1) s4(1) by (simp add: eval_nat_numeral)
  also have "\<dots> = Some ?s5"
    using unused_steps [of ?s5 "[3..<length (conns s)]"] same_connsD(1,3) [OF s4(2)] ok3(2) s4(3) by simp
  finally have "pcl_for_stas env [0..<length (conns s)] s = Some ?s5" .
  moreover have "pm_log ?s5 = pm_log s @ [Rso_stop ?v, Pcl_computed PM_STA_MODE t1, Set_pcl ?v, Rso_start ?v,
      Rso_stop ?v, Pcl_computed PM_STA_MODE t2, Set_pcl ?v, Rso_start ?v]"
    by (simp add: log_event_def s4(5) s1(5))
  ultimately show ?thesis using s1(4) s4(4) unfolding Let_def by (intro exI [of _ ?s5] exI [of _ t1] exI [of _ t2]) simp
qed

theorem pm_pcl_skips_second_sta_witness:
  "\<exists>s'. pcl_for_stas ex_env [0..<length (conns ex_three)] ex_three = Some s' \<and> Rso_stop 1 \<notin> set (pm_log s')"
proof -
  have "\<exists>s' t1 t2. pcl_for_stas ex_env [0..<length (conns ex_three)] ex_three = Some s' \<and>
    map strip (valid_prefix t1) = [ex_conn PM_STA_MODE 1 2412, ex_conn PM_SAP_MODE 2 2437] \<and>
    map strip (valid_prefix t2) = [ex_conn PM_SAP_MODE 2 2437, ex_conn PM_STA_MODE 0 5180] \<and>
    (let v = ucast (c_vdev_id (ex_conn PM_STA_MODE 0 5180))
     in pm_log s' = pm_log ex_three @ [Rso_stop v, Pcl_computed PM_STA_MODE t1, Set_pcl v, Rso_start v,
                                Rso_stop v, Pcl_computed PM_STA_MODE t2, Set_pcl v, Rso_start v])"
    by (rule pm_pcl_skips_second_sta [OF ex_three_ok ex_three_used])
      (simp_all add: ex_conn_def ex_env_def policy_mgr_pdev_get_pcl_def, simp add: ex_three_def ex_state_def)
  then obtain s' t1 t2 where "pcl_for_stas ex_env [0..<length (conns ex_three)] ex_three = Some s'"
    "pm_log s' = pm_log ex_three @ [Rso_stop 0, Pcl_computed PM_STA_MODE t1, Set_pcl 0, Rso_start 0,
       Rso_stop 0, Pcl_computed PM_STA_MODE t2, Set_pcl 0, Rso_start 0]"
    by (auto simp: Let_def ex_conn_def)
  moreover have "pm_log ex_three = []" by (simp add: ex_three_def ex_state_def)
  ultimately show ?thesis by auto
qed

text \<open>What the handler of a new session does when the table is full and the configured maximum is
  above its size.\<close>

lemma incr_full_table:
  assumes "pm_ok s" "length (used s) = length (conns s)" "length (conns s) < unat (max_conc_cxns (cfg s))"
    "connection_info env mode v = Some e"
  shows "policy_mgr_incr_connection_count env v mode s = (QDF_STATUS_SUCCESS, s)"
proof -
  have "policy_mgr_get_connection_count s = length (conns s)" using length_used assms(1,2) by (simp add: pm_ok_def)
  then show ?thesis using assms(3,4) by (simp add: policy_mgr_incr_connection_count_def policy_mgr_update_conc_list_def)
qed

lemma incr_active_full_table:
  assumes ok: "pm_ok s" and full: "length (used s) = length (conns s)" "length (conns s) < unat (max_conc_cxns (cfg s))"
    and e: "connection_info env mode (ucast v) = Some e" and len: "2 \<le> length (conns s)"
  obtains s' where "policy_mgr_incr_active_session env mode v s = Some s'" "mset (used s') = mset (used s)"
    "no_of_active_sessions s' = count_up env mode 1 (no_of_active_sessions s)"
proof -
  let ?s1 = "incr_active_head env mode v s"
  have q1: "quiet (if counts_active mode then add_active (qdf_num env mode) 1 s else s) ?s1"
    by (rule incr_active_head_quiet [OF ok])
  then have ok1: "pm_ok ?s1" and m1: "mset (used ?s1) = mset (used s)" and k1: "kept s ?s1"
    and a1: "no_of_active_sessions ?s1 = count_up env mode 1 (no_of_active_sessions s)"
    by (auto simp: quiet_def kept_def count_up_def add_active_def used_def split: if_splits)
  have i: "policy_mgr_incr_connection_count env (ucast v) mode ?s1 = (QDF_STATUS_SUCCESS, ?s1)"
    by (rule incr_full_table [OF ok1 _ _ e]) (use full k1 mset_eq_length [OF m1] in \<open>simp_all add: kept_def\<close>)
  have "2 \<le> length (conns ?s1)" using k1 len by (simp add: kept_def)
  then obtain s3 where s3: "pcl_for_stas env [0..<length (conns ?s1)] ?s1 = Some s3" "same_conns ?s1 s3"
    using pcl_for_stas_spec [OF ok1] by blast
  obtain s4 where s4: "(if policy_mgr_mode_specific_connection_count PM_STA_MODE ?s1 > 0 \<and> mode \<noteq> QDF_STA_MODE
      then pcl_for_stas env [0..<length (conns ?s1)] ?s1 else Some ?s1) = Some s4" "quiet ?s1 s4"
    using s3 quiet_same quiet_self [OF ok1]
    by (cases "policy_mgr_mode_specific_connection_count PM_STA_MODE ?s1 > 0 \<and> mode \<noteq> QDF_STA_MODE") auto
  define g where "g = (if mode = QDF_SAP_MODE then snd (policy_mgr_get_ap_6ghz_capable env (ucast v) ?s1) else 0)"
  have q: "quiet ?s1 (incr_active_tail env mode v g s4)"
    using incr_active_tail_quiet [OF quiet_ok [OF s4(2)]] s4(2) quiet_chain by blast
  have "policy_mgr_incr_active_session env mode v s = Some (incr_active_tail env mode v g s4)"
    unfolding policy_mgr_incr_active_session_def Let_def i snd_conv s4(1) g_def by simp
  then show thesis using that q m1 a1 by (simp add: quiet_def)
qed

text \<open>C30. If the configured maximum is above the size of the table, as the default build allows (the
  configuration goes up to four, the table has three places without the fourth connection), and the
  table is full, then one more session is not refused for the number of sessions; the part of its
  handler that enters it reports success and enters it nowhere, and the handler counts it: the counter
  of its mode is one higher, and the table holds the entries it held.\<close>

theorem pm_full_table_lost:
  assumes "pm_ok s" "numbered (qdf_num env) (QDF_MAX_NO_OF_MODE env)"
    "counters_ok (qdf_num env) (QDF_MAX_NO_OF_MODE env) s" "length (used s) = length (conns s)" "2 \<le> length (conns s)"
    "length (conns s) < unat (max_conc_cxns (cfg s))" "counts_active mode" "connection_info env mode (ucast v) = Some e"
  shows "\<not> policy_mgr_max_concurrent_connections_reached env s \<and>
    policy_mgr_incr_connection_count env (ucast v) mode s = (QDF_STATUS_SUCCESS, s) \<and>
    (\<exists>s'. policy_mgr_incr_active_session env mode v s = Some s' \<and> mset (used s') = mset (used s) \<and>
       no_of_active_sessions s' (qdf_num env mode) = no_of_active_sessions s (qdf_num env mode) + 1)"
proof -
  have "length (conns s) < 256" using assms(6) unsigned_less [of "max_conc_cxns (cfg s)", where ?'a = nat] by simp
  then have "unat (of_nat (length (used s)) :: u8) = length (conns s)" using assms(4) by (simp add: unat_of_nat)
  moreover have "sum_list (map (no_of_active_sessions s) [0..<QDF_MAX_NO_OF_MODE env]) = of_nat (length (used s))"
    using sum_active assms(2,3) by blast
  ultimately have "\<not> policy_mgr_max_concurrent_connections_reached env s"
    unfolding policy_mgr_max_concurrent_connections_reached_def using assms(6) by (simp del: of_nat_unat)
  moreover obtain s' where "policy_mgr_incr_active_session env mode v s = Some s'" "mset (used s') = mset (used s)"
    "no_of_active_sessions s' = count_up env mode 1 (no_of_active_sessions s)"
    by (rule incr_active_full_table [OF assms(1,4,6,8,5)])
  ultimately show ?thesis using incr_full_table [OF assms(1,4,6,8)] assms(7) by (simp add: count_up_def)
qed

definition ex_full :: pm_state where "ex_full = ex_three\<lparr>cfg := (cfg ex_three)\<lparr>max_conc_cxns := 4\<rparr>\<rparr>"

theorem pm_full_table_lost_witness:
  "\<exists>s'. policy_mgr_incr_active_session ex_env QDF_STA_MODE 3 ex_full = Some s' \<and> mset (used s') = mset (used ex_full) \<and>
     no_of_active_sessions s' (ex_num QDF_STA_MODE) = no_of_active_sessions ex_full (ex_num QDF_STA_MODE) + 1"
proof -
  have c: "conns ex_full = conns ex_three" by (simp add: ex_full_def)
  have u: "used ex_full = used ex_three" by (simp add: used_def c)
  have ok: "pm_ok ex_full" using ex_three_ok pm_ok_cong [OF c] by simp
  have "counters_ok (qdf_num ex_env) (QDF_MAX_NO_OF_MODE ex_env) ex_full"
    unfolding counters_ok_def u ex_three_used
    by (auto simp: counted_def ex_num_def ex_full_def ex_three_def ex_state_def ex_conn_def valid_prefix_def)
  moreover have "connection_info ex_env QDF_STA_MODE (ucast (3 :: u8)) = Some (ex_entry WMI_VDEV_TYPE_STA Subtype_0 5180)"
    by (simp add: connection_info_def ex_env_def)
  ultimately show ?thesis
    using pm_full_table_lost [OF ok ex_start_inv(5), of QDF_STA_MODE 3] u ex_three_used c
    by (simp add: ex_full_def ex_three_def ex_state_def counts_active_def ex_env_def)
qed

text \<open>If the table is full of access points on one channel and one of them must leave it because it
  is unsafe, the check empties the table: all entries are taken out, and putting back as many entries as
  the table has places is refused.  The counter of the mode is left lowered.\<close>

theorem pm_csa_loses_table:
  assumes ok: "pm_ok s" and y: "y \<in> set (used s)" and full: "length (used s) = length (conns s)"
    and all: "\<forall>c\<in>set (used s). c_freq c = c_freq y \<and> c_mode c = mode" and reason: "switches_all forced reason"
  shows "used (snd (policy_mgr_allow_concurrency_csa env mode ch_freq (c_vdev_id y) forced reason s)) = [] \<and>
    no_of_active_sessions (snd (policy_mgr_allow_concurrency_csa env mode ch_freq (c_vdev_id y) forced reason s)) (pm_num mode) =
      no_of_active_sessions s (pm_num mode) - of_nat (length (conns s))"
proof -
  obtain info t where i: "policy_mgr_store_and_del_conn_info_by_chan_and_mode (c_freq y) mode s =
      (info, add_active (pm_num mode) (- of_nat (length info)) (s\<lparr>conns := t\<rparr>))"
    "map strip info = filter (\<lambda>c. c_freq c = c_freq y \<and> c_mode c = mode) (used s)"
    "used (s\<lparr>conns := t\<rparr>) = filter (\<lambda>c. \<not> (c_freq c = c_freq y \<and> c_mode c = mode)) (used s)"
    "length t = length (conns s)"
    by (rule store_chan_spec [OF ok])
  have "filter (\<lambda>c. c_freq c = c_freq y \<and> c_mode c = mode) (used s) = used s" using all by (intro filter_True) simp
  then have n: "length info = length (conns s)" using arg_cong [OF i(2), of length] full by simp
  have "used (s\<lparr>conns := t\<rparr>) = []" unfolding i(3) using all by (simp add: filter_empty_conv)
  moreover have "snd (policy_mgr_allow_concurrency_csa env mode ch_freq (c_vdev_id y) forced reason s) =
      add_active (pm_num mode) (- of_nat (length info)) (s\<lparr>conns := t\<rparr>)"
    unfolding policy_mgr_allow_concurrency_csa_def chan_of_vdev [OF ok y] option.case if_P [OF reason] i(1) Let_def prod.case
    using n i(4) full y by (auto simp: policy_mgr_restore_deleted_conn_info_def)
  ultimately show ?thesis using n by (simp add: active_add_active)
qed

definition ex_saps :: pm_state where
  "ex_saps = ex_state 3 [ex_conn PM_SAP_MODE 0 2437, ex_conn PM_SAP_MODE 1 2437, ex_conn PM_SAP_MODE 2 2437]"

theorem pm_csa_loses_table_witness:
  "used (snd (policy_mgr_allow_concurrency_csa ex_env PM_SAP_MODE 2462 0 True CSA_REASON_UNSAFE_CHANNEL ex_saps)) = []"
proof -
  have "pm_ok ex_saps"
    by (simp add: pm_ok_def compact_def vdevs_conv valid_prefix_def ex_saps_def ex_state_def ex_conn_def)
  moreover have u: "used ex_saps = [ex_conn PM_SAP_MODE 0 2437, ex_conn PM_SAP_MODE 1 2437, ex_conn PM_SAP_MODE 2 2437]"
    by (simp add: used_def valid_prefix_def ex_saps_def ex_state_def ex_conn_def strip_def zero_conn_def)
  moreover have "length (conns ex_saps) = 3" "c_vdev_id (ex_conn PM_SAP_MODE 0 2437) = 0"
    by (simp_all add: ex_saps_def ex_state_def ex_conn_def)
  moreover have "\<forall>c\<in>set (used ex_saps). c_freq c = c_freq (ex_conn PM_SAP_MODE 0 2437) \<and> c_mode c = PM_SAP_MODE"
    unfolding u by (simp add: ex_conn_def)
  moreover have "switches_all True CSA_REASON_UNSAFE_CHANNEL" by (simp add: switches_all_def)
  ultimately show ?thesis
    using pm_csa_loses_table [of ex_saps "ex_conn PM_SAP_MODE 0 2437" PM_SAP_MODE True CSA_REASON_UNSAFE_CHANNEL ex_env 2462]
    by (metis length_Cons list.set_intros(1) list.size(3) numeral_3_eq_3)
qed

end
