(* ===== verification/Fc_Pool.thy ===== *)
theory Fc_Pool
  imports Qdf_Prelude
begin

text \<open>
  The pools of transmit descriptors of \<^verbatim>\<open>src/core/dp/txrx/ol_txrx_flow_control.c\<close>, with the
  descriptor lists of \<^verbatim>\<open>ol_tx_desc.h\<close>, for a build with the second version of flow control and
  resizing of pools.  A pool is an object at an address; \<open>pools\<close> maps the address of a freed
  pool to \<open>None\<close>, and a function that uses a freed pool, or takes a descriptor from an empty
  list, sets \<open>fc_fault\<close>.  A descriptor is a number.  A free list is a list of descriptors, its head
  first.  A descriptor with a reference count other than 0 is in flight.  Every function
  works under the locks of the lists it changes and is one step.  The queue callback
  \<^verbatim>\<open>pause_cb\<close> is an event in \<open>fc_log\<close>, the latest last.
\<close>

section \<open>Data\<close>

datatype flow_pool_status =
  FLOW_POOL_ACTIVE_UNPAUSED | FLOW_POOL_ACTIVE_PAUSED | FLOW_POOL_NON_PRIO_PAUSED | FLOW_POOL_INVALID | FLOW_POOL_INACTIVE

datatype netif_action_type =
    WLAN_STOP_ALL_NETIF_QUEUE | WLAN_WAKE_ALL_NETIF_QUEUE | WLAN_STOP_NON_PRIORITY_QUEUE | WLAN_WAKE_NON_PRIORITY_QUEUE
  | WLAN_NETIF_PRIORITY_QUEUE_ON | WLAN_NETIF_PRIORITY_QUEUE_OFF

datatype netif_reason_type =
    WLAN_DATA_FLOW_CONTROL | WLAN_DATA_FLOW_CONTROL_PRIORITY | WLAN_FW_PAUSE | WLAN_PEER_UNAUTHORISED | WLAN_TX_ABORT
  | WLAN_VDEV_STOP | WLAN_THERMAL_MITIGATION | WLAN_REASON_TYPE_MAX

datatype htt_flow_type = FLOW_TYPE_VDEV | Other_flow_type nat

datatype fc_event = Pause_cb u8 netif_action_type netif_reason_type

record ol_tx_flow_pool_t =
  flow_pool_id :: u8
  flow_pool_size :: u16
  avail_desc :: u16
  deficient_desc :: u16
  overflow_desc :: u16
  pool_status :: flow_pool_status
  member_flow_id :: u8
  stop_th :: u16
  start_th :: u16
  freelist :: "nat list"
  pkt_drop_no_desc :: u16
  ref_cnt :: int
  stop_priority_th :: u16
  start_priority_th :: u16

definition zero_pool :: ol_tx_flow_pool_t where
  "zero_pool = \<lparr>flow_pool_id = 0, flow_pool_size = 0, avail_desc = 0, deficient_desc = 0, overflow_desc = 0,
     pool_status = FLOW_POOL_ACTIVE_UNPAUSED, member_flow_id = 0, stop_th = 0, start_th = 0, freelist = [],
     pkt_drop_no_desc = 0, ref_cnt = 0, stop_priority_th = 0, start_priority_th = 0\<rparr>"

record ol_txrx_pool_stats =
  pool_map_count :: u16
  pool_unmap_count :: u16
  pool_resize_count :: u16
  pkt_drop_no_pool :: u16

text \<open>
  The part of the device that flow control uses: the objects, \<^verbatim>\<open>pdev->tx_desc\<close>, the pool and the
  count of each descriptor, the pool of each interface and of management frames.  An assertion
  that fails sets \<open>fc_assert\<close>.
\<close>

record fc_state =
  pools :: "ptr \<Rightarrow> ol_tx_flow_pool_t option"
  next_pool :: ptr
  flow_pool_list :: "ptr list"
  tx_freelist :: "nat list"
  num_free :: u16
  num_invalid_bin :: u8
  desc_pool :: "nat \<Rightarrow> ptr option"
  desc_ref :: "nat \<Rightarrow> int"
  desc_vdev :: "nat \<Rightarrow> u8 option"
  vdev_pool :: "u8 \<Rightarrow> ptr option"
  mgmt_pool :: "ptr option"
  pool_stats :: ol_txrx_pool_stats
  fc_log :: "fc_event list"
  fc_fault :: bool
  fc_assert :: bool

text \<open>
  What lies outside: the thresholds of the configuration, the interfaces that the device knows, and
  whether an allocation succeeds.
\<close>

record fc_env =
  tx_flow_stop_queue_th :: u32
  tx_flow_start_queue_offset :: u32
  vdev_exists :: "u8 \<Rightarrow> bool"
  malloc_ok :: bool

definition INVALID_FLOW_ID :: u8 where "INVALID_FLOW_ID = 0xFF"
definition MAX_INVALID_BIN :: u8 where "MAX_INVALID_BIN = 3"
definition TX_FLOW_MGMT_POOL_ID :: u8 where "TX_FLOW_MGMT_POOL_ID = 0xEF"
definition TX_FLOW_MGMT_POOL_SIZE :: u16 where "TX_FLOW_MGMT_POOL_SIZE = 32"
definition TX_PRIORITY_TH :: nat where "TX_PRIORITY_TH = 80"
definition MAX_TSO_SEGMENT_DESC :: u16 where "MAX_TSO_SEGMENT_DESC = 44"
definition OL_TX_NON_FWD_RESERVE :: nat where "OL_TX_NON_FWD_RESERVE = 100"

section \<open>Objects and lists\<close>

definition fault :: "fc_state \<Rightarrow> fc_state" where
  "fault s = s\<lparr>fc_fault := True\<rparr>"

definition pool_of :: "fc_state \<Rightarrow> ptr \<Rightarrow> ol_tx_flow_pool_t" where
  "pool_of s p = (case pools s p of Some q \<Rightarrow> q | None \<Rightarrow> zero_pool)"

definition touch :: "ptr \<Rightarrow> fc_state \<Rightarrow> fc_state" where
  "touch p s = (if pools s p = None then fault s else s)"

definition upd_pool :: "ptr \<Rightarrow> (ol_tx_flow_pool_t \<Rightarrow> ol_tx_flow_pool_t) \<Rightarrow> fc_state \<Rightarrow> fc_state" where
  "upd_pool p f s = (case pools s p of Some q \<Rightarrow> s\<lparr>pools := (pools s)(p \<mapsto> f q)\<rparr> | None \<Rightarrow> fault s)"

definition pause_cb :: "u8 \<Rightarrow> netif_action_type \<Rightarrow> netif_reason_type \<Rightarrow> fc_state \<Rightarrow> fc_state" where
  "pause_cb v a r s = s\<lparr>fc_log := fc_log s @ [Pause_cb v a r]\<rparr>"

definition ol_tx_get_desc_global_pool :: "fc_state \<Rightarrow> nat \<times> fc_state" where
  "ol_tx_get_desc_global_pool s =
     (case tx_freelist s of
        [] \<Rightarrow> (0, fault s)
      | d # ds \<Rightarrow> (d, s\<lparr>tx_freelist := ds, num_free := num_free s - 1\<rparr>))"

definition ol_tx_put_desc_global_pool :: "nat \<Rightarrow> fc_state \<Rightarrow> fc_state" where
  "ol_tx_put_desc_global_pool d s = s\<lparr>tx_freelist := d # tx_freelist s, num_free := num_free s + 1\<rparr>"

definition ol_tx_get_desc_flow_pool :: "ptr \<Rightarrow> fc_state \<Rightarrow> nat \<times> fc_state" where
  "ol_tx_get_desc_flow_pool p s =
     (case freelist (pool_of s p) of
        [] \<Rightarrow> (0, fault s)
      | d # ds \<Rightarrow> (d, upd_pool p (\<lambda>q. q\<lparr>freelist := ds, avail_desc := avail_desc q - 1\<rparr>) s))"

definition ol_tx_put_desc_flow_pool :: "ptr \<Rightarrow> nat \<Rightarrow> fc_state \<Rightarrow> fc_state" where
  "ol_tx_put_desc_flow_pool p d s =
     upd_pool p (\<lambda>q. q\<lparr>freelist := d # freelist q, avail_desc := avail_desc q + 1\<rparr>) (s\<lparr>desc_pool := (desc_pool s)(d := Some p)\<rparr>)"

text \<open>The loops that move \<open>n\<close> descriptors between a list and the temporary list.\<close>

fun get_global_n :: "nat \<Rightarrow> nat list \<Rightarrow> fc_state \<Rightarrow> nat list \<times> fc_state" where
  "get_global_n 0 temp s = (temp, s)"
| "get_global_n (Suc n) temp s = (let (d, s1) = ol_tx_get_desc_global_pool s in get_global_n n (d # temp) s1)"

fun get_flow_n :: "ptr \<Rightarrow> nat \<Rightarrow> nat list \<Rightarrow> fc_state \<Rightarrow> nat list \<times> fc_state" where
  "get_flow_n p 0 temp s = (temp, s)"
| "get_flow_n p (Suc n) temp s = (let (d, s1) = ol_tx_get_desc_flow_pool p s in get_flow_n p n (d # temp) s1)"

text \<open>Putting takes a descriptor of the temporary list; the list ends in a null pointer.\<close>

fun put_global_n :: "nat \<Rightarrow> nat list \<Rightarrow> fc_state \<Rightarrow> fc_state" where
  "put_global_n 0 temp s = s"
| "put_global_n (Suc n) [] s = fault s"
| "put_global_n (Suc n) (d # temp) s = put_global_n n temp (ol_tx_put_desc_global_pool d s)"

fun put_flow_n :: "ptr \<Rightarrow> nat \<Rightarrow> nat list \<Rightarrow> fc_state \<Rightarrow> nat list \<times> fc_state" where
  "put_flow_n p 0 temp s = (temp, s)"
| "put_flow_n p (Suc n) [] s = ([], fault s)"
| "put_flow_n p (Suc n) (d # temp) s = put_flow_n p n temp (ol_tx_put_desc_flow_pool p d s)"

section \<open>Moving descriptors to pools that lack some\<close>

text \<open>The second loop of \<^verbatim>\<open>ol_tx_move_desc_n\<close>: what is left of the temporary list, and the count.\<close>

fun move_in :: "ptr \<Rightarrow> nat \<Rightarrow> nat list \<Rightarrow> nat \<Rightarrow> fc_state \<Rightarrow> nat list \<times> nat \<times> fc_state" where
  "move_in dst 0 temp count s = (temp, count, s)"
| "move_in dst (Suc n) temp count s =
     (if deficient_desc (pool_of s dst) = 0 then (temp, count, s)
      else let s1 = upd_pool dst (\<lambda>q. q\<lparr>deficient_desc := deficient_desc q - 1\<rparr>) s in
        case temp of
          [] \<Rightarrow> ([], count, fault s1)
        | d # ds \<Rightarrow> move_in dst n ds (Suc count) (ol_tx_put_desc_flow_pool dst d s1))"

definition ol_tx_move_desc_n :: "ptr \<Rightarrow> ptr \<Rightarrow> nat \<Rightarrow> fc_state \<Rightarrow> nat \<times> fc_state" where
  "ol_tx_move_desc_n src dst n s =
     (let (temp, s1) = get_flow_n src n [] (touch src s);
          (rest, count, s2) = move_in dst n temp 0 (touch dst s1)
      in (count, fold (ol_tx_put_desc_flow_pool src) rest s2))"

definition wake_paused :: "ptr \<Rightarrow> bool \<Rightarrow> fc_state \<Rightarrow> fc_state" where
  "wake_paused dst prio s =
     (let q = pool_of s dst in
      if pool_status q = FLOW_POOL_ACTIVE_PAUSED \<and> avail_desc q > start_th q then
        let s1 = (if prio then pause_cb (member_flow_id q) WLAN_NETIF_PRIORITY_QUEUE_ON WLAN_DATA_FLOW_CONTROL_PRIORITY s else s);
            s2 = pause_cb (member_flow_id q) WLAN_WAKE_ALL_NETIF_QUEUE WLAN_DATA_FLOW_CONTROL s1
        in upd_pool dst (\<lambda>q. q\<lparr>pool_status := FLOW_POOL_ACTIVE_UNPAUSED\<rparr>) s2
      else s)"

fun distribute_loop :: "ptr \<Rightarrow> ptr list \<Rightarrow> u16 \<Rightarrow> fc_state \<Rightarrow> fc_state" where
  "distribute_loop src [] desc_count s = s"
| "distribute_loop src (dst # l) desc_count s =
     (let s0 = touch dst s;
          need = deficient_desc (pool_of s0 dst);
          (c, s1) = (if need \<noteq> 0 then
             let (m, s1) = ol_tx_move_desc_n src dst (unat (if need > desc_count then desc_count else need)) s0
             in (desc_count - of_nat m, wake_paused dst True s1)
           else (desc_count, s0))
      in if c = 0 then s1 else distribute_loop src l c s1)"

definition ol_tx_distribute_descs_to_deficient_pools :: "ptr \<Rightarrow> fc_state \<Rightarrow> fc_state" where
  "ol_tx_distribute_descs_to_deficient_pools src s =
     (let s0 = touch src s in distribute_loop src (flow_pool_list s0) (avail_desc (pool_of s0 src)) s0)"

text \<open>
  The loop of the distribution from the global list; its last value is the last pool on the
  list that has become complete and is to be freed.
\<close>

fun global_loop :: "ptr list \<Rightarrow> u16 \<Rightarrow> nat list \<Rightarrow> ptr option \<Rightarrow> fc_state \<Rightarrow> ptr option \<times> fc_state" where
  "global_loop [] desc_move_count temp tmp_pool s = (tmp_pool, s)"
| "global_loop (dst # l) desc_move_count temp tmp_pool s =
     (let s0 = touch dst s;
          need = deficient_desc (pool_of s0 dst);
          (c, temp', tmp', s') =
            (if need \<noteq> 0 then
               let k = (if need > desc_move_count then desc_move_count else need);
                   s1 = upd_pool dst (\<lambda>q. q\<lparr>deficient_desc := deficient_desc q - k\<rparr>) s0;
                   (temp1, s2) = put_flow_n dst (unat k) temp s1;
                   q = pool_of s2 dst
               in (desc_move_count - k, temp1,
                   if pool_status q = FLOW_POOL_INVALID \<and> avail_desc q = flow_pool_size q then Some dst else tmp_pool,
                   wake_paused dst False s2)
             else (desc_move_count, temp, tmp_pool, s0))
      in if c = 0 then (tmp', s') else global_loop l c temp' tmp' s')"

definition distribute_from_global :: "fc_state \<Rightarrow> ptr option \<times> fc_state" where
  "distribute_from_global s =
     (let s0 = fold touch (flow_pool_list s) s;
          total_desc_req = fold (\<lambda>p t. t + deficient_desc (pool_of s0 p)) (flow_pool_list s0) 0;
          desc_move_count = (if num_free s0 \<ge> total_desc_req then total_desc_req else num_free s0);
          (temp, s1) = get_global_n (unat desc_move_count) [] s0
      in if desc_move_count = 0 then (None, s1)
         else global_loop (flow_pool_list s1) desc_move_count temp None s1)"

end
