(* ===== verification/Fc_Ops.thy ===== *)
theory Fc_Ops
  imports Fc_Pool
begin

text \<open>
  Creation, deletion, mapping and resizing of the pools of \<^verbatim>\<open>ol_txrx_flow_control.c\<close>, and
  allocation and release of descriptors in \<^verbatim>\<open>ol_tx_desc.c\<close>.  Dropping a reference, deleting a pool,
  distributing its descriptors and freeing a pool that became complete call each other; the
  cycle is \<open>ol_tx_dec_pool_ref\<close>, whose value is \<open>None\<close> if it does not end.
\<close>

section \<open>Creation\<close>

definition set_thresholds :: "fc_env \<Rightarrow> u16 \<Rightarrow> ol_tx_flow_pool_t \<Rightarrow> ol_tx_flow_pool_t" where
  "set_thresholds env sz q =
     (let stop_threshold = tx_flow_stop_queue_th env;
          start_threshold = stop_threshold + tx_flow_start_queue_offset env;
          start = ucast ((start_threshold * ucast sz) div 100) :: u16;
          stop = ucast ((stop_threshold * ucast sz) div 100) :: u16;
          stop_prio = of_nat (TX_PRIORITY_TH * unat stop div 100) :: u16;
          start_prio = of_nat (TX_PRIORITY_TH * unat start div 100) :: u16
      in q\<lparr>flow_pool_size := sz, start_th := start, stop_th := stop,
           stop_priority_th := (if stop_prio \<ge> MAX_TSO_SEGMENT_DESC then stop_prio - MAX_TSO_SEGMENT_DESC else stop_prio),
           start_priority_th := (if start_prio \<ge> MAX_TSO_SEGMENT_DESC then start_prio - MAX_TSO_SEGMENT_DESC else start_prio)\<rparr>)"

definition ol_tx_inc_pool_ref :: "ptr \<Rightarrow> fc_state \<Rightarrow> fc_state" where
  "ol_tx_inc_pool_ref p s = upd_pool p (\<lambda>q. q\<lparr>ref_cnt := ref_cnt q + 1\<rparr>) s"

text \<open>Taking descriptors from the global list for a new pool sets their pool.\<close>

fun take_for_pool :: "ptr \<Rightarrow> nat \<Rightarrow> nat list \<Rightarrow> fc_state \<Rightarrow> nat list \<times> fc_state" where
  "take_for_pool p 0 temp s = (temp, s)"
| "take_for_pool p (Suc n) temp s =
     (let (d, s1) = ol_tx_get_desc_global_pool s
      in take_for_pool p n (d # temp) (s1\<lparr>desc_pool := (desc_pool s1)(d := Some p)\<rparr>))"

definition ol_tx_create_flow_pool :: "fc_env \<Rightarrow> u8 \<Rightarrow> u16 \<Rightarrow> fc_state \<Rightarrow> ptr option \<times> fc_state" where
  "ol_tx_create_flow_pool env fid sz s =
     (if \<not> malloc_ok env then (None, s)
      else let p = next_pool s;
               q = set_thresholds env sz (zero_pool\<lparr>flow_pool_id := fid\<rparr>);
               s1 = ol_tx_inc_pool_ref p (s\<lparr>pools := (pools s)(p \<mapsto> q), next_pool := Suc p\<rparr>);
               n = (if num_free s1 \<ge> sz then sz else num_free s1);
               (temp, s2) = take_for_pool p (unat n) [] s1;
               s3 = upd_pool p (\<lambda>q. q\<lparr>freelist := temp, avail_desc := n, deficient_desc := flow_pool_size q - n, overflow_desc := 0\<rparr>) s2
           in (Some p, s3\<lparr>flow_pool_list := flow_pool_list s3 @ [p]\<rparr>))"

section \<open>Deletion\<close>

text \<open>\<^verbatim>\<open>ol_tx_delete_flow_pool\<close> up to the distribution.\<close>

definition delete_head :: "ptr \<Rightarrow> bool \<Rightarrow> fc_state \<Rightarrow> fc_state" where
  "delete_head p force s =
     (let q = pool_of s p;
          temp = freelist q; sz = avail_desc q;
          s2 = (if avail_desc q = flow_pool_size q \<or> force then s\<lparr>pools := (pools s)(p := None)\<rparr>
                else
                  let s1 = upd_pool p (\<lambda>q. q\<lparr>pool_status := FLOW_POOL_INVALID, freelist := [], avail_desc := 0,
                                              flow_pool_size := flow_pool_size q - sz, flow_pool_id := INVALID_FLOW_ID\<rparr>) s;
                      s2 = ol_tx_inc_pool_ref p s1;
                      n = num_invalid_bin s2 + 1
                  in s2\<lparr>num_invalid_bin := n, fc_assert := (fc_assert s2 \<or> n > MAX_INVALID_BIN), flow_pool_list := flow_pool_list s2 @ [p]\<rparr>)
      in put_global_n (unat sz) temp s2)"

text \<open>\<^verbatim>\<open>ol_tx_free_invalid_flow_pool\<close> up to the release of the reference; whether it gets there.\<close>

definition free_invalid_head :: "ptr \<Rightarrow> fc_state \<Rightarrow> bool \<times> fc_state" where
  "free_invalid_head p s =
     (let s0 = touch p s in
      if pool_status (pool_of s0 p) \<noteq> FLOW_POOL_INVALID then (False, s0)
      else let s1 = ol_tx_distribute_descs_to_deficient_pools p s0;
               s2 = upd_pool p (\<lambda>q. q\<lparr>flow_pool_size := avail_desc q\<rparr>) s1
           in (True, s2\<lparr>num_invalid_bin := num_invalid_bin s2 - 1\<rparr>))"

partial_function (option) ol_tx_dec_pool_ref :: "ptr \<Rightarrow> bool \<Rightarrow> fc_state \<Rightarrow> fc_state option" where
  [code]: "ol_tx_dec_pool_ref p force s =
     (let s1 = upd_pool p (\<lambda>q. q\<lparr>ref_cnt := ref_cnt q - 1\<rparr>) s in
      if pools s1 p = None \<or> ref_cnt (pool_of s1 p) \<noteq> 0 then Some s1
      else let s2 = delete_head p force (s1\<lparr>flow_pool_list := remove1 p (flow_pool_list s1)\<rparr>);
               s3 = snd (distribute_from_global s2)
           in case fst (distribute_from_global s2) of
                None \<Rightarrow> Some s3
              | Some p' \<Rightarrow>
                  if fst (free_invalid_head p' s3) then ol_tx_dec_pool_ref p' False (snd (free_invalid_head p' s3))
                  else Some (snd (free_invalid_head p' s3)))"

definition ol_tx_free_invalid_flow_pool :: "ptr \<Rightarrow> fc_state \<Rightarrow> fc_state option" where
  "ol_tx_free_invalid_flow_pool p s =
     (if fst (free_invalid_head p s) then ol_tx_dec_pool_ref p False (snd (free_invalid_head p s))
      else Some (snd (free_invalid_head p s)))"

definition ol_tx_distribute_descs_to_deficient_pools_from_global_pool :: "fc_state \<Rightarrow> fc_state option" where
  "ol_tx_distribute_descs_to_deficient_pools_from_global_pool s =
     (case fst (distribute_from_global s) of
        None \<Rightarrow> Some (snd (distribute_from_global s))
      | Some p \<Rightarrow> ol_tx_free_invalid_flow_pool p (snd (distribute_from_global s)))"

definition ol_tx_delete_flow_pool :: "ptr \<Rightarrow> bool \<Rightarrow> fc_state \<Rightarrow> fc_state option" where
  "ol_tx_delete_flow_pool p force s = ol_tx_distribute_descs_to_deficient_pools_from_global_pool (delete_head p force s)"

text \<open>The calls as the code has them.\<close>

lemma ol_tx_dec_pool_ref_calls:
  "ol_tx_dec_pool_ref p force s =
     (let s1 = upd_pool p (\<lambda>q. q\<lparr>ref_cnt := ref_cnt q - 1\<rparr>) s in
      if pools s1 p = None \<or> ref_cnt (pool_of s1 p) \<noteq> 0 then Some s1
      else ol_tx_delete_flow_pool p force (s1\<lparr>flow_pool_list := remove1 p (flow_pool_list s1)\<rparr>))"
  by (subst ol_tx_dec_pool_ref.simps)
     (simp add: Let_def ol_tx_delete_flow_pool_def ol_tx_distribute_descs_to_deficient_pools_from_global_pool_def
       ol_tx_free_invalid_flow_pool_def split: option.split)

section \<open>Mapping\<close>

fun find_pool :: "u8 \<Rightarrow> ptr list \<Rightarrow> fc_state \<Rightarrow> ptr option \<times> fc_state" where
  "find_pool fid [] s = (None, s)"
| "find_pool fid (p # l) s =
     (let s0 = touch p s in if flow_pool_id (pool_of s0 p) = fid then (Some p, s0) else find_pool fid l s0)"

definition ol_tx_get_flow_pool :: "u8 \<Rightarrow> fc_state \<Rightarrow> ptr option \<times> fc_state" where
  "ol_tx_get_flow_pool fid s = find_pool fid (flow_pool_list s) s"

definition ol_tx_flow_pool_vdev_map :: "fc_env \<Rightarrow> ptr \<Rightarrow> u8 \<Rightarrow> fc_state \<Rightarrow> fc_state" where
  "ol_tx_flow_pool_vdev_map env p v s =
     (if vdev_exists env v
      then upd_pool p (\<lambda>q. q\<lparr>member_flow_id := v\<rparr>) (s\<lparr>vdev_pool := (vdev_pool s)(v := Some p)\<rparr>)
      else s)"

definition ol_tx_flow_pool_vdev_unmap :: "fc_env \<Rightarrow> ptr \<Rightarrow> u8 \<Rightarrow> fc_state \<Rightarrow> fc_state" where
  "ol_tx_flow_pool_vdev_unmap env p v s =
     (if vdev_exists env v
      then upd_pool p (\<lambda>q. q\<lparr>member_flow_id := INVALID_FLOW_ID\<rparr>) (s\<lparr>vdev_pool := (vdev_pool s)(v := None)\<rparr>)
      else s)"

definition ol_tx_flow_pool_map_handler :: "fc_env \<Rightarrow> u8 \<Rightarrow> htt_flow_type \<Rightarrow> u8 \<Rightarrow> u16 \<Rightarrow> fc_state \<Rightarrow> fc_state option" where
  "ol_tx_flow_pool_map_handler env flow_id type fid sz s =
     (let s0 = s\<lparr>pool_stats := (pool_stats s)\<lparr>pool_map_count := pool_map_count (pool_stats s) + 1\<rparr>\<rparr>;
          (found, s1) = ol_tx_get_flow_pool fid s0;
          (pool, s2) = (if found = None then ol_tx_create_flow_pool env fid sz s1 else (found, s1))
      in case pool of
           None \<Rightarrow> Some s2
         | Some p \<Rightarrow>
             (case type of
                FLOW_TYPE_VDEV \<Rightarrow>
                  Some (pause_cb flow_id WLAN_WAKE_ALL_NETIF_QUEUE WLAN_DATA_FLOW_CONTROL
                         (pause_cb flow_id WLAN_NETIF_PRIORITY_QUEUE_ON WLAN_DATA_FLOW_CONTROL_PRIORITY
                           (ol_tx_flow_pool_vdev_map env p flow_id s2)))
              | Other_flow_type _ \<Rightarrow> if found = None then ol_tx_dec_pool_ref p False s2 else Some s2))"

definition ol_tx_flow_pool_unmap_handler :: "fc_env \<Rightarrow> u8 \<Rightarrow> htt_flow_type \<Rightarrow> u8 \<Rightarrow> fc_state \<Rightarrow> fc_state option" where
  "ol_tx_flow_pool_unmap_handler env flow_id type fid s =
     (let s0 = s\<lparr>pool_stats := (pool_stats s)\<lparr>pool_unmap_count := pool_unmap_count (pool_stats s) + 1\<rparr>\<rparr>
      in case ol_tx_get_flow_pool fid s0 of
           (None, s1) \<Rightarrow> Some s1
         | (Some p, s1) \<Rightarrow>
             (case type of
                FLOW_TYPE_VDEV \<Rightarrow> ol_tx_dec_pool_ref p False (ol_tx_flow_pool_vdev_unmap env p flow_id s1)
              | Other_flow_type _ \<Rightarrow> Some s1))"

section \<open>Resizing\<close>

definition ol_tx_flow_pool_update_queue_state :: "ptr \<Rightarrow> fc_state \<Rightarrow> fc_state" where
  "ol_tx_flow_pool_update_queue_state p s =
     (let s0 = touch p s; q = pool_of s0 p; put = (\<lambda>st. upd_pool p (\<lambda>q. q\<lparr>pool_status := st\<rparr>) s0) in
      if avail_desc q > start_th q then
        pause_cb (member_flow_id q) WLAN_WAKE_ALL_NETIF_QUEUE WLAN_DATA_FLOW_CONTROL (put FLOW_POOL_ACTIVE_UNPAUSED)
      else if avail_desc q < stop_th q \<and> avail_desc q \<ge> stop_priority_th q then
        pause_cb (member_flow_id q) WLAN_NETIF_PRIORITY_QUEUE_ON WLAN_DATA_FLOW_CONTROL
          (pause_cb (member_flow_id q) WLAN_STOP_NON_PRIORITY_QUEUE WLAN_DATA_FLOW_CONTROL (put FLOW_POOL_NON_PRIO_PAUSED))
      else if avail_desc q < stop_priority_th q then
        pause_cb (member_flow_id q) WLAN_STOP_ALL_NETIF_QUEUE WLAN_DATA_FLOW_CONTROL (put FLOW_POOL_ACTIVE_PAUSED)
      else s0)"

definition ol_tx_flow_pool_update :: "fc_env \<Rightarrow> ptr \<Rightarrow> u16 \<Rightarrow> u16 \<Rightarrow> u16 \<Rightarrow> fc_state \<Rightarrow> fc_state" where
  "ol_tx_flow_pool_update env p new_size deficient_count overflow_count s =
     upd_pool p (\<lambda>q. let q1 = set_thresholds env new_size q;
                         q2 = (if deficient_count \<noteq> 0 then q1\<lparr>deficient_desc := deficient_count\<rparr> else q1)
                     in if overflow_count \<noteq> 0 then q2\<lparr>overflow_desc := overflow_count\<rparr> else q2) s"

text \<open>The two directions of \<^verbatim>\<open>ol_tx_flow_pool_resize\<close>.\<close>

definition shrink_pool :: "fc_env \<Rightarrow> ptr \<Rightarrow> u16 \<Rightarrow> fc_state \<Rightarrow> fc_state" where
  "shrink_pool env p new_size s =
     (let q = pool_of s p;
          diff0 = flow_pool_size q - new_size + overflow_desc q;
          temp = min (deficient_desc q) diff0;
          diff = diff0 - temp;
          s1 = upd_pool p (\<lambda>q. q\<lparr>overflow_desc := 0, deficient_desc := deficient_desc q - temp\<rparr>) s;
          avail = avail_desc q; th = start_priority_th q;
          (to_global, overflow_count) =
            (if diff = 0 then (0, 0)
             else if unat avail \<ge> unat diff + unat th then (diff, 0)
             else if avail > th then (avail - th, diff - (avail - th))
             else (0, 0));
          (l, s2) = get_flow_n p (unat to_global) [] s1;
          s3 = ol_tx_flow_pool_update env p new_size 0 overflow_count s2
      in put_global_n (unat to_global) l s3)"

definition grow_pool :: "fc_env \<Rightarrow> ptr \<Rightarrow> u16 \<Rightarrow> fc_state \<Rightarrow> fc_state" where
  "grow_pool env p new_size s =
     (let q = pool_of s p;
          diff0 = new_size - flow_pool_size q + deficient_desc q;
          temp = min (overflow_desc q) diff0;
          diff = diff0 - temp;
          s1 = upd_pool p (\<lambda>q. q\<lparr>deficient_desc := 0, overflow_desc := overflow_desc q - temp\<rparr>) s;
          from_global = (if num_free s1 \<ge> diff then diff else num_free s1);
          deficient_count = diff - from_global;
          (l, s2) = get_global_n (unat from_global) [] s1;
          (_, s3) = put_flow_n p (unat from_global) l s2
      in ol_tx_flow_pool_update env p new_size deficient_count 0 s3)"

definition ol_tx_flow_pool_resize :: "fc_env \<Rightarrow> ptr \<Rightarrow> u16 \<Rightarrow> fc_state \<Rightarrow> fc_state" where
  "ol_tx_flow_pool_resize env p new_size s =
     (let s0 = touch p s; sz = flow_pool_size (pool_of s0 p) in
      if sz = new_size then s0
      else ol_tx_flow_pool_update_queue_state p
             (if sz > new_size then shrink_pool env p new_size s0 else grow_pool env p new_size s0))"

definition ol_tx_flow_pool_resize_handler :: "fc_env \<Rightarrow> u8 \<Rightarrow> u16 \<Rightarrow> fc_state \<Rightarrow> fc_state option" where
  "ol_tx_flow_pool_resize_handler env fid sz s =
     (let s0 = s\<lparr>pool_stats := (pool_stats s)\<lparr>pool_resize_count := pool_resize_count (pool_stats s) + 1\<rparr>\<rparr>
      in case ol_tx_get_flow_pool fid s0 of
           (None, s1) \<Rightarrow> Some s1
         | (Some p, s1) \<Rightarrow> ol_tx_dec_pool_ref p False (ol_tx_flow_pool_resize env p sz (ol_tx_inc_pool_ref p s1)))"

section \<open>Descriptors of frames\<close>

definition ol_tx_desc_alloc :: "u8 \<Rightarrow> ptr option \<Rightarrow> fc_state \<Rightarrow> nat option \<times> fc_state" where
  "ol_tx_desc_alloc v pool s =
     (case pool of
        None \<Rightarrow> (None, s\<lparr>pool_stats := (pool_stats s)\<lparr>pkt_drop_no_pool := pkt_drop_no_pool (pool_stats s) + 1\<rparr>\<rparr>)
      | Some p \<Rightarrow>
          let s0 = touch p s in
          if avail_desc (pool_of s0 p) \<noteq> 0 then
            let (d, s1) = ol_tx_get_desc_flow_pool p s0;
                q = pool_of s1 p;
                s2 = (if avail_desc q < stop_th q \<and> avail_desc q \<ge> stop_priority_th q \<and> pool_status q = FLOW_POOL_ACTIVE_UNPAUSED then
                        pause_cb v WLAN_STOP_NON_PRIORITY_QUEUE WLAN_DATA_FLOW_CONTROL
                          (upd_pool p (\<lambda>q. q\<lparr>pool_status := FLOW_POOL_NON_PRIO_PAUSED\<rparr>) s1)
                      else if avail_desc q < stop_priority_th q \<and> pool_status q = FLOW_POOL_NON_PRIO_PAUSED then
                        pause_cb v WLAN_NETIF_PRIORITY_QUEUE_OFF WLAN_DATA_FLOW_CONTROL_PRIORITY
                          (upd_pool p (\<lambda>q. q\<lparr>pool_status := FLOW_POOL_ACTIVE_PAUSED\<rparr>) s1)
                      else s1)
            in (Some d, s2\<lparr>desc_vdev := (desc_vdev s2)(d := Some v), desc_ref := (desc_ref s2)(d := desc_ref s2 d + 1)\<rparr>)
          else (None, upd_pool p (\<lambda>q. q\<lparr>pkt_drop_no_desc := pkt_drop_no_desc q + 1\<rparr>) s0))"

definition ol_tx_desc_alloc_wrapper :: "u8 \<Rightarrow> bool \<Rightarrow> fc_state \<Rightarrow> nat option \<times> fc_state" where
  "ol_tx_desc_alloc_wrapper v mgmt s = ol_tx_desc_alloc v (if mgmt then mgmt_pool s else vdev_pool s v) s"

definition ol_tx_desc_free_common :: "nat \<Rightarrow> fc_state \<Rightarrow> fc_state" where
  "ol_tx_desc_free_common d s = s\<lparr>desc_ref := (desc_ref s)(d := 0), desc_vdev := (desc_vdev s)(d := None)\<rparr>"

definition ol_tx_update_free_desc_to_pool :: "ptr \<Rightarrow> nat \<Rightarrow> fc_state \<Rightarrow> bool \<times> fc_state" where
  "ol_tx_update_free_desc_to_pool p d s =
     (if overflow_desc (pool_of s p) \<noteq> 0
      then (True, upd_pool p (\<lambda>q. q\<lparr>overflow_desc := overflow_desc q - 1\<rparr>) (ol_tx_put_desc_global_pool d s))
      else (False, ol_tx_put_desc_flow_pool p d s))"

text \<open>The queue state after a descriptor came back.\<close>

definition free_status :: "ptr \<Rightarrow> fc_state \<Rightarrow> fc_state" where
  "free_status p s =
     (let q = pool_of s p in
      if pool_status q = FLOW_POOL_ACTIVE_PAUSED \<and> avail_desc q > start_priority_th q then
        upd_pool p (\<lambda>q. q\<lparr>pool_status := FLOW_POOL_NON_PRIO_PAUSED\<rparr>)
          (pause_cb (member_flow_id q) WLAN_NETIF_PRIORITY_QUEUE_ON WLAN_DATA_FLOW_CONTROL_PRIORITY s)
      else if pool_status q = FLOW_POOL_NON_PRIO_PAUSED \<and> avail_desc q > start_th q then
        upd_pool p (\<lambda>q. q\<lparr>pool_status := FLOW_POOL_ACTIVE_UNPAUSED\<rparr>)
          (pause_cb (member_flow_id q) WLAN_WAKE_NON_PRIORITY_QUEUE WLAN_DATA_FLOW_CONTROL s)
      else s)"

definition ol_tx_desc_free :: "nat \<Rightarrow> fc_state \<Rightarrow> fc_state option" where
  "ol_tx_desc_free d s =
     (case desc_pool s d of
        None \<Rightarrow> Some (fault s)
      | Some p \<Rightarrow>
          let (distribute_desc, s1) = ol_tx_update_free_desc_to_pool p d (ol_tx_desc_free_common d (touch p s));
              q = pool_of s1 p
          in if pool_status q = FLOW_POOL_INVALID \<and> avail_desc q = flow_pool_size q then ol_tx_free_invalid_flow_pool p s1
             else let s2 = free_status p s1
                  in if distribute_desc then ol_tx_distribute_descs_to_deficient_pools_from_global_pool s2 else Some s2)"

section \<open>Start and end\<close>

definition ol_tx_register_flow_control :: "fc_env \<Rightarrow> bool \<Rightarrow> fc_state \<Rightarrow> fc_state" where
  "ol_tx_register_flow_control env mgmt_over_wmi s =
     (let s0 = s\<lparr>flow_pool_list := []\<rparr> in
      if mgmt_over_wmi then s0
      else let (p, s1) = ol_tx_create_flow_pool env TX_FLOW_MGMT_POOL_ID TX_FLOW_MGMT_POOL_SIZE s0 in s1\<lparr>mgmt_pool := p\<rparr>)"

text \<open>The loop that releases what is still on the list.\<close>

partial_function (option) drain_list :: "fc_state \<Rightarrow> fc_state option" where
  [code]: "drain_list s =
     (case flow_pool_list s of
        [] \<Rightarrow> Some s
      | p # _ \<Rightarrow> Option.bind (ol_tx_dec_pool_ref p True s) drain_list)"

definition ol_tx_deregister_flow_control :: "bool \<Rightarrow> fc_state \<Rightarrow> fc_state option" where
  "ol_tx_deregister_flow_control mgmt_over_wmi s =
     Option.bind (if mgmt_over_wmi then Some s
                  else case mgmt_pool s of None \<Rightarrow> Some (s\<lparr>fc_assert := True\<rparr>) | Some p \<Rightarrow> ol_tx_dec_pool_ref p False s) drain_list"

definition ol_tx_get_total_free_desc :: "fc_state \<Rightarrow> u32 \<times> fc_state" where
  "ol_tx_get_total_free_desc s =
     fold (\<lambda>p (t, s). (t + ucast (avail_desc (pool_of s p)), touch p s)) (flow_pool_list s) (ucast (num_free s), s)"

definition ol_txrx_fwd_desc_thresh_check :: "fc_env \<Rightarrow> u8 \<Rightarrow> fc_state \<Rightarrow> bool" where
  "ol_txrx_fwd_desc_thresh_check env v s =
     (vdev_exists env v \<and>
      (case vdev_pool s v of
         None \<Rightarrow> False
       | Some p \<Rightarrow> \<not> unat (avail_desc (pool_of s p)) < unat (stop_th (pool_of s p)) + OL_TX_NON_FWD_RESERVE))"

definition ol_tx_clear_flow_pool_stats :: "fc_state \<Rightarrow> fc_state" where
  "ol_tx_clear_flow_pool_stats s =
     s\<lparr>pool_stats := \<lparr>pool_map_count = 0, pool_unmap_count = 0, pool_resize_count = 0, pkt_drop_no_pool = 0\<rparr>\<rparr>"

section \<open>Pauses for other reasons\<close>

datatype txq_pause_reason =
    OL_TXQ_PAUSE_REASON_FW | OL_TXQ_PAUSE_REASON_PEER_UNAUTHORIZED | OL_TXQ_PAUSE_REASON_TX_ABORT
  | OL_TXQ_PAUSE_REASON_VDEV_STOP | OL_TXQ_PAUSE_REASON_THERMAL_MITIGATION | Other_pause_reason nat

fun ol_txrx_map_to_netif_reason_type :: "txq_pause_reason \<Rightarrow> netif_reason_type" where
  "ol_txrx_map_to_netif_reason_type OL_TXQ_PAUSE_REASON_FW = WLAN_FW_PAUSE"
| "ol_txrx_map_to_netif_reason_type OL_TXQ_PAUSE_REASON_PEER_UNAUTHORIZED = WLAN_PEER_UNAUTHORISED"
| "ol_txrx_map_to_netif_reason_type OL_TXQ_PAUSE_REASON_TX_ABORT = WLAN_TX_ABORT"
| "ol_txrx_map_to_netif_reason_type OL_TXQ_PAUSE_REASON_VDEV_STOP = WLAN_VDEV_STOP"
| "ol_txrx_map_to_netif_reason_type OL_TXQ_PAUSE_REASON_THERMAL_MITIGATION = WLAN_THERMAL_MITIGATION"
| "ol_txrx_map_to_netif_reason_type (Other_pause_reason _) = WLAN_REASON_TYPE_MAX"

definition ol_txrx_vdev_pause :: "fc_env \<Rightarrow> u8 \<Rightarrow> txq_pause_reason \<Rightarrow> fc_state \<Rightarrow> fc_state" where
  "ol_txrx_vdev_pause env v reason s =
     (let r = ol_txrx_map_to_netif_reason_type reason in
      if \<not> vdev_exists env v \<or> r = WLAN_REASON_TYPE_MAX then s else pause_cb v WLAN_STOP_ALL_NETIF_QUEUE r s)"

definition ol_txrx_vdev_unpause :: "fc_env \<Rightarrow> u8 \<Rightarrow> txq_pause_reason \<Rightarrow> fc_state \<Rightarrow> fc_state" where
  "ol_txrx_vdev_unpause env v reason s =
     (let r = ol_txrx_map_to_netif_reason_type reason in
      if \<not> vdev_exists env v \<or> r = WLAN_REASON_TYPE_MAX then s else pause_cb v WLAN_WAKE_ALL_NETIF_QUEUE r s)"

definition ol_txrx_pdev_pause :: "fc_env \<Rightarrow> u8 list \<Rightarrow> txq_pause_reason \<Rightarrow> fc_state \<Rightarrow> fc_state" where
  "ol_txrx_pdev_pause env vdev_list reason s = fold (\<lambda>v. ol_txrx_vdev_pause env v reason) vdev_list s"

definition ol_txrx_pdev_unpause :: "fc_env \<Rightarrow> u8 list \<Rightarrow> txq_pause_reason \<Rightarrow> fc_state \<Rightarrow> fc_state" where
  "ol_txrx_pdev_unpause env vdev_list reason s = fold (\<lambda>v. ol_txrx_vdev_unpause env v reason) vdev_list s"

end
