(* ===== verification/Fc_Inv.thy ===== *)
theory Fc_Inv
  imports Fc_Ops
begin

text \<open>
  The invariant of the pools.  Every descriptor is in exactly one place: on the global list, on the
  temporary list of the running function, on the list of the pool it names, or in flight from that
  pool; and the size of a pool and its overflow add up to the descriptors on its list, in flight and
  deficient.  Inside a function the two sides differ by \<open>off\<close>.
\<close>

named_theorems fc_defs \<open>definitions of the flow control pools\<close>

section \<open>Objects\<close>

lemma upd_pool_some: "pools s p = Some q \<Longrightarrow> upd_pool p f s = s\<lparr>pools := (pools s)(p \<mapsto> f q)\<rparr>"
  by (simp add: upd_pool_def)

lemma pool_of_some [simp]: "pools s p = Some q \<Longrightarrow> pool_of s p = q"
  by (simp add: pool_of_def)

lemma touch_some [simp]: "pools s p = Some q \<Longrightarrow> touch p s = s"
  by (simp add: touch_def)

lemma touch_all: "set l \<subseteq> dom (pools s) \<Longrightarrow> fold touch l s = s"
  by (induction l) (auto simp: touch_def)

lemma pause_cb_sel [simp]:
  "pools (pause_cb v a r s) = pools s" "next_pool (pause_cb v a r s) = next_pool s"
  "flow_pool_list (pause_cb v a r s) = flow_pool_list s" "tx_freelist (pause_cb v a r s) = tx_freelist s"
  "num_free (pause_cb v a r s) = num_free s" "desc_pool (pause_cb v a r s) = desc_pool s"
  "desc_ref (pause_cb v a r s) = desc_ref s" "fc_fault (pause_cb v a r s) = fc_fault s"
  "vdev_pool (pause_cb v a r s) = vdev_pool s" "mgmt_pool (pause_cb v a r s) = mgmt_pool s"
  by (simp_all add: pause_cb_def)

section \<open>The invariant\<close>

definition spare :: "nat list \<Rightarrow> fc_state \<Rightarrow> nat set" where
  "spare T s = set (tx_freelist s) \<union> set T"

definition lists_ok :: "nat \<Rightarrow> nat list \<Rightarrow> fc_state \<Rightarrow> bool" where
  "lists_ok N T s \<longleftrightarrow> N < 2 ^ 16 \<and> \<not> fc_fault s \<and> distinct (tx_freelist s @ T) \<and> num_free s = of_nat (length (tx_freelist s)) \<and>
     (\<forall>d \<in> spare T s. d < N \<and> desc_ref s d = 0) \<and> (\<forall>d. desc_ref s d \<noteq> 0 \<longrightarrow> d < N)"

definition pool_list :: "nat \<Rightarrow> nat list \<Rightarrow> fc_state \<Rightarrow> ptr \<Rightarrow> ol_tx_flow_pool_t \<Rightarrow> bool" where
  "pool_list N T s p q \<longleftrightarrow> distinct (freelist q) \<and> avail_desc q = of_nat (length (freelist q)) \<and>
     (\<forall>d \<in> set (freelist q). d < N \<and> desc_ref s d = 0 \<and> desc_pool s d = Some p \<and> d \<notin> spare T s)"

definition home :: "fc_state \<Rightarrow> nat \<Rightarrow> bool" where
  "home s d \<longleftrightarrow>
     (case desc_pool s d of
        None \<Rightarrow> False
      | Some p \<Rightarrow> (case pools s p of None \<Rightarrow> False | Some q \<Rightarrow> desc_ref s d \<noteq> 0 \<or> d \<in> set (freelist q)))"

definition places :: "nat \<Rightarrow> nat list \<Rightarrow> fc_state \<Rightarrow> bool" where
  "places N T s \<longleftrightarrow> lists_ok N T s \<and> (\<forall>p q. pools s p = Some q \<longrightarrow> pool_list N T s p q) \<and> (\<forall>d < N. d \<in> spare T s \<or> home s d)"

definition listed :: "fc_state \<Rightarrow> bool" where
  "listed s \<longleftrightarrow> distinct (flow_pool_list s) \<and> set (flow_pool_list s) = dom (pools s) \<and> (\<forall>p \<in> dom (pools s). p < next_pool s)"

definition inflight :: "fc_state \<Rightarrow> ptr \<Rightarrow> nat set" where
  "inflight s p = {d. desc_ref s d \<noteq> 0 \<and> desc_pool s d = Some p}"

definition balanced :: "(ptr \<Rightarrow> int) \<Rightarrow> fc_state \<Rightarrow> bool" where
  "balanced off s \<longleftrightarrow>
     (\<forall>p q. pools s p = Some q \<longrightarrow>
        uint (flow_pool_size q) + uint (overflow_desc q) =
        int (length (freelist q)) + int (card (inflight s p)) + uint (deficient_desc q) + off p)"

definition role :: "ol_tx_flow_pool_t \<Rightarrow> bool" where
  "role q \<longleftrightarrow> 1 \<le> ref_cnt q \<and> pool_status q \<noteq> FLOW_POOL_INACTIVE \<and> (overflow_desc q = 0 \<or> deficient_desc q = 0) \<and>
     (pool_status q = FLOW_POOL_INVALID \<longrightarrow> flow_pool_id q = INVALID_FLOW_ID \<and> overflow_desc q = 0 \<and> ref_cnt q = 1)"

definition roles :: "ptr set \<Rightarrow> fc_state \<Rightarrow> bool" where
  "roles U s \<longleftrightarrow> (\<forall>p q. pools s p = Some q \<longrightarrow> role q) \<and>
     (\<forall>p \<in> U. \<exists>q. pools s p = Some q \<and> pool_status q \<noteq> FLOW_POOL_INVALID)"

definition fc_inv :: "nat \<Rightarrow> nat list \<Rightarrow> (ptr \<Rightarrow> int) \<Rightarrow> ptr set \<Rightarrow> fc_state \<Rightarrow> bool" where
  "fc_inv N T off U s \<longleftrightarrow> places N T s \<and> listed s \<and> balanced off s \<and> roles U s"

lemma fc_inv_parts:
  assumes "fc_inv N T off U s"
  shows "lists_ok N T s" "pools s p = Some q \<Longrightarrow> pool_list N T s p q" "d < N \<Longrightarrow> d \<notin> spare T s \<Longrightarrow> home s d"
    "listed s" "balanced off s" "roles U s"
  using assms unfolding fc_inv_def places_def by blast+

lemma fc_invI:
  assumes "lists_ok N T s" "\<And>p q. pools s p = Some q \<Longrightarrow> pool_list N T s p q" "\<And>d. d < N \<Longrightarrow> d \<notin> spare T s \<Longrightarrow> home s d"
    "listed s" "balanced off s" "roles U s"
  shows "fc_inv N T off U s"
  using assms unfolding fc_inv_def places_def by blast

lemma small_list:
  fixes N :: nat
  assumes "distinct l" "\<And>d. d \<in> set l \<Longrightarrow> d < N" "N < 2 ^ 16"
  shows "length l < 2 ^ 16" and "unat (of_nat (length l) :: u16) = length l"
proof -
  have "set l \<subseteq> {..<N}" using assms(2) by auto
  then have "length l \<le> N"
    by (metis card_lessThan card_mono assms(1) distinct_card finite_lessThan)
  then show "length l < 2 ^ 16" using assms(3) by simp
  then show "unat (of_nat (length l) :: u16) = length l" by (simp add: unat_of_nat take_bit_nat_eq_self)
qed

lemma fc_inv_len:
  assumes "fc_inv N T off U s"
  shows "unat (num_free s) = length (tx_freelist s)"
  using small_list(2) [of "tx_freelist s" N] fc_inv_parts(1) [OF assms] by (simp add: lists_ok_def spare_def)

lemma fc_inv_avail:
  assumes "fc_inv N T off U s" "pools s p = Some q"
  shows "length (freelist q) < 2 ^ 16" and "unat (avail_desc q) = length (freelist q)"
  using small_list [of "freelist q" N] fc_inv_parts(1) [OF assms(1)] fc_inv_parts(2) [OF assms]
  by (simp_all add: lists_ok_def pool_list_def)

lemma fc_inv_uint: "fc_inv N T off U s \<Longrightarrow> pools s p = Some q \<Longrightarrow> uint (avail_desc q) = int (length (freelist q))"
  using fc_inv_avail(2) by (metis uint_nat)

lemma fc_inv_freelist:
  assumes "fc_inv N T off U s" "pools s p = Some q" "d \<in> set (freelist q)"
  shows "d < N" "desc_ref s d = 0" "desc_pool s d = Some p" "d \<notin> spare T s"
  using fc_inv_parts(2) [OF assms(1,2)] assms(3) by (auto simp: pool_list_def)

lemma inflight_finite: "fc_inv N T off U s \<Longrightarrow> finite (inflight s p)"
  by (rule finite_subset [of _ "{..<N}"]) (auto simp: fc_inv_def places_def lists_ok_def inflight_def)

lemma fc_inv_live: "fc_inv N T off U s \<Longrightarrow> p \<in> set (flow_pool_list s) \<longleftrightarrow> (\<exists>q. pools s p = Some q)"
  by (auto simp: fc_inv_def listed_def)

text \<open>Fields that the invariant does not read.\<close>

definition same_core :: "fc_state \<Rightarrow> fc_state \<Rightarrow> bool" where
  "same_core s s' \<longleftrightarrow> pools s' = pools s \<and> next_pool s' = next_pool s \<and> flow_pool_list s' = flow_pool_list s \<and>
     tx_freelist s' = tx_freelist s \<and> num_free s' = num_free s \<and> desc_pool s' = desc_pool s \<and> desc_ref s' = desc_ref s \<and>
     fc_fault s' = fc_fault s"

lemma fc_inv_same: "same_core s s' \<Longrightarrow> fc_inv N T off U s' \<longleftrightarrow> fc_inv N T off U s"
  by (simp add: same_core_def fc_inv_def places_def lists_ok_def pool_list_def home_def listed_def balanced_def roles_def inflight_def spare_def cong: option.case_cong)

lemma fc_inv_pause [simp]: "fc_inv N T off U (pause_cb v a r s) \<longleftrightarrow> fc_inv N T off U s"
  by (rule fc_inv_same) (simp add: same_core_def)

section \<open>Single descriptors\<close>

lemma get_global_inv:
  assumes I: "fc_inv N T off U s" and f: "tx_freelist s = d # ds"
  shows "fst (ol_tx_get_desc_global_pool s) = d"
    and "fc_inv N (d # T) off U (snd (ol_tx_get_desc_global_pool s))"
proof -
  show "fst (ol_tx_get_desc_global_pool s) = d" using f by (simp add: ol_tx_get_desc_global_pool_def)
  let ?s = "snd (ol_tx_get_desc_global_pool s)"
  have e: "?s = s\<lparr>tx_freelist := ds, num_free := num_free s - 1\<rparr>" using f by (simp add: ol_tx_get_desc_global_pool_def)
  have sp: "spare (d # T) ?s = spare T s" using f by (auto simp: spare_def e)
  show "fc_inv N (d # T) off U ?s"
  proof (rule fc_invI)
    show "lists_ok N (d # T) ?s" using fc_inv_parts(1) [OF I] f unfolding lists_ok_def sp by (simp add: e)
  qed (use fc_inv_parts [OF I] in \<open>simp_all only: sp pool_list_def home_def listed_def balanced_def roles_def inflight_def,
      simp_all add: e cong: option.case_cong\<close>)
qed

lemma put_global_inv:
  assumes I: "fc_inv N (d # T) off U s"
  shows "fc_inv N T off U (ol_tx_put_desc_global_pool d s)"
proof -
  let ?s = "ol_tx_put_desc_global_pool d s"
  have e: "?s = s\<lparr>tx_freelist := d # tx_freelist s, num_free := num_free s + 1\<rparr>" by (simp add: ol_tx_put_desc_global_pool_def)
  have sp: "spare T ?s = spare (d # T) s" by (auto simp: spare_def e)
  show "fc_inv N T off U ?s"
  proof (rule fc_invI)
    show "lists_ok N T ?s" using fc_inv_parts(1) [OF I] unfolding lists_ok_def sp by (simp add: e)
  qed (use fc_inv_parts [OF I] in \<open>simp_all only: sp pool_list_def home_def listed_def balanced_def roles_def inflight_def,
      simp_all add: e cong: option.case_cong\<close>)
qed

lemma put_flow_inv:
  assumes I: "fc_inv N (d # T) off U s" and q: "pools s p = Some q"
  shows "fc_inv N T (off(p := off p - 1)) U (ol_tx_put_desc_flow_pool p d s)"
proof -
  let ?s = "ol_tx_put_desc_flow_pool p d s" and ?q = "q\<lparr>freelist := d # freelist q, avail_desc := avail_desc q + 1\<rparr>"
  have e: "?s = s\<lparr>desc_pool := (desc_pool s)(d := Some p), pools := (pools s)(p \<mapsto> ?q)\<rparr>"
    using q by (simp add: ol_tx_put_desc_flow_pool_def upd_pool_def)
  have d: "d < N" "desc_ref s d = 0" "d \<notin> spare T s"
    using fc_inv_parts(1) [OF I] by (auto simp: lists_ok_def spare_def)
  have sp: "spare T ?s = spare T s" "spare (d # T) s = insert d (spare T s)" by (auto simp: spare_def e)
  have d': "d \<notin> set (freelist q')" if "pools s r = Some q'" for r q'
    using fc_inv_freelist(4) [OF I that] by (auto simp: spare_def)
  have old: "pool_list N (d # T) s r q'" if "pools s r = Some q'" for r q' using fc_inv_parts(2) [OF I that] .
  show ?thesis
  proof (rule fc_invI)
    show "lists_ok N T ?s" using fc_inv_parts(1) [OF I] unfolding lists_ok_def sp by (simp add: e)
    show "pool_list N T ?s r q'" if "pools ?s r = Some q'" for r q'
      using that d d' old [of r] old [OF q] q unfolding pool_list_def sp by (auto simp: e split: if_splits)
    show "home ?s x" if "x < N" "x \<notin> spare T ?s" for x
    proof (cases "x = d")
      case False
      then have "home s x" using fc_inv_parts(3) [OF I, of x] that unfolding sp by simp
      then show ?thesis using q False by (auto simp: e home_def split: option.splits if_splits)
    qed (simp add: e home_def)
    show "listed ?s" using fc_inv_parts(4) [OF I] q by (auto simp: e listed_def)
    have "inflight ?s r = inflight s r" for r using d by (auto simp: e inflight_def)
    then show "balanced (off(p := off p - 1)) ?s" using fc_inv_parts(5) [OF I] q by (auto simp: balanced_def e)
    show "roles U ?s" using fc_inv_parts(6) [OF I] q by (auto simp: roles_def role_def e)
  qed
qed

lemma get_flow_inv:
  assumes I: "fc_inv N T off U s" and q: "pools s p = Some q" and f: "freelist q = d # ds"
  shows "fst (ol_tx_get_desc_flow_pool p s) = d"
    and "fc_inv N (d # T) (off(p := off p + 1)) U (snd (ol_tx_get_desc_flow_pool p s))"
proof -
  show "fst (ol_tx_get_desc_flow_pool p s) = d" using q f by (simp add: ol_tx_get_desc_flow_pool_def)
  let ?s = "snd (ol_tx_get_desc_flow_pool p s)" and ?q = "q\<lparr>freelist := ds, avail_desc := avail_desc q - 1\<rparr>"
  have e: "?s = s\<lparr>pools := (pools s)(p \<mapsto> ?q)\<rparr>" using q f by (simp add: ol_tx_get_desc_flow_pool_def upd_pool_def)
  have d: "d < N" "desc_ref s d = 0" "desc_pool s d = Some p" "d \<notin> spare T s"
    using fc_inv_freelist [OF I q, of d] f by simp_all
  have sp: "spare (d # T) ?s = insert d (spare T s)" by (auto simp: spare_def e)
  have old: "pool_list N T s r q'" if "pools s r = Some q'" for r q' using fc_inv_parts(2) [OF I that] .
  have d': "d \<notin> set (freelist q')" if "pools s r = Some q'" "r \<noteq> p" for r q'
    using old [OF that(1)] that(2) d by (auto simp: pool_list_def)
  show "fc_inv N (d # T) (off(p := off p + 1)) U ?s"
  proof (rule fc_invI)
    show "lists_ok N (d # T) ?s" using fc_inv_parts(1) [OF I] d unfolding lists_ok_def sp by (auto simp: e spare_def)
    show "pool_list N (d # T) ?s r q'" if "pools ?s r = Some q'" for r q'
      using that d d' old [of r] old [OF q] f unfolding pool_list_def sp by (auto simp: e split: if_splits)
    show "home ?s x" if "x < N" "x \<notin> spare (d # T) ?s" for x
    proof -
      have "home s x" "x \<noteq> d" using fc_inv_parts(3) [OF I, of x] that unfolding sp by simp_all
      then show ?thesis using q f by (auto simp: e home_def split: option.splits if_splits)
    qed
    show "listed ?s" using fc_inv_parts(4) [OF I] q by (auto simp: e listed_def)
    have "inflight ?s r = inflight s r" for r by (auto simp: e inflight_def)
    then show "balanced (off(p := off p + 1)) ?s" using fc_inv_parts(5) [OF I] q f by (auto simp: balanced_def e)
    show "roles U ?s" using fc_inv_parts(6) [OF I] q by (auto simp: roles_def role_def e)
  qed
qed

end
