(* ===== verification/Fc_Moves.thy ===== *)
theory Fc_Moves
  imports Fc_Inv
begin

text \<open>
  The loops that move descriptors between the lists: what they keep, and that the invariant holds
  with the temporary list and the difference of the counters written out.
\<close>

section \<open>What a move keeps\<close>

definition static :: "ol_tx_flow_pool_t \<Rightarrow> u8 \<times> u16 \<times> int \<times> bool \<times> u16 \<times> u16 \<times> u16" where
  "static q = (flow_pool_id q, flow_pool_size q, ref_cnt q, pool_status q = FLOW_POOL_INVALID, overflow_desc q, start_th q, start_priority_th q)"

definition moves :: "fc_state \<Rightarrow> fc_state \<Rightarrow> bool" where
  "moves s s' \<longleftrightarrow> flow_pool_list s' = flow_pool_list s \<and> next_pool s' = next_pool s \<and> dom (pools s') = dom (pools s) \<and>
     desc_ref s' = desc_ref s \<and> vdev_pool s' = vdev_pool s \<and> mgmt_pool s' = mgmt_pool s \<and>
     inflight s' = inflight s \<and> (\<forall>p. static (pool_of s' p) = static (pool_of s p))"

lemma moves_refl [simp]: "moves s s"
  by (simp add: moves_def)

lemma moves_trans: "moves s s1 \<Longrightarrow> moves s1 s2 \<Longrightarrow> moves s s2"
  by (simp add: moves_def)

lemma inflight_pause [simp]: "inflight (pause_cb v a r s) = inflight s"
  by (simp add: fun_eq_iff inflight_def)

lemma moves_pause: "moves s s1 \<Longrightarrow> moves s (pause_cb v a r s1)"
  by (simp add: moves_def pool_of_def)

definition others :: "ptr \<Rightarrow> fc_state \<Rightarrow> fc_state \<Rightarrow> bool" where
  "others p s s' \<longleftrightarrow> (\<forall>r. r \<noteq> p \<longrightarrow> pools s' r = pools s r)"

lemma others_refl [simp]: "others p s s"
  by (simp add: others_def)

lemma others_trans: "others p s s1 \<Longrightarrow> others p s1 s2 \<Longrightarrow> others p s s2"
  by (simp add: others_def)

lemma moves_live:
  assumes "moves s s'" "pools s p = Some q"
  obtains q' where "pools s' p = Some q'" "static q' = static q"
proof -
  have "p \<in> dom (pools s')" using assms by (auto simp: moves_def)
  then obtain q' where q': "pools s' p = Some q'" by auto
  have "static (pool_of s' p) = static (pool_of s p)" using assms(1) by (simp add: moves_def)
  then show ?thesis using that [OF q'] q' assms(2) by simp
qed

lemma inflight_put:
  assumes "fc_inv N (d # T) off U s" "pools s p = Some q"
  shows "inflight (ol_tx_put_desc_flow_pool p d s) = inflight s"
proof -
  have "desc_ref s d = 0" using fc_inv_parts(1) [OF assms(1)] by (simp add: lists_ok_def spare_def)
  then show ?thesis using assms(2) by (auto simp: inflight_def fun_eq_iff ol_tx_put_desc_flow_pool_def upd_pool_def)
qed

section \<open>Counters of a pool\<close>

lemma upd_inv:
  assumes I: "fc_inv N T off U s" and q: "pools s p = Some q"
    and f: "freelist (f q) = freelist q" "avail_desc (f q) = avail_desc q"
    and bal: "uint (flow_pool_size (f q)) + uint (overflow_desc (f q)) =
      int (length (freelist q)) + int (card (inflight s p)) + uint (deficient_desc (f q)) + k"
    and r: "role (f q)" "p \<in> U \<Longrightarrow> pool_status (f q) \<noteq> FLOW_POOL_INVALID"
  shows "fc_inv N T (off(p := k)) U (upd_pool p f s)"
proof -
  let ?s = "upd_pool p f s"
  have e: "?s = s\<lparr>pools := (pools s)(p \<mapsto> f q)\<rparr>" using q by (simp add: upd_pool_def)
  have sp: "spare T ?s = spare T s" by (simp add: spare_def e)
  show ?thesis
  proof (rule fc_invI)
    show "lists_ok N T ?s" using fc_inv_parts(1) [OF I] unfolding lists_ok_def sp by (simp add: e)
    show "pool_list N T ?s x q'" if "pools ?s x = Some q'" for x q'
      using that fc_inv_parts(2) [OF I, of x] fc_inv_parts(2) [OF I q] f unfolding pool_list_def sp by (auto simp: e split: if_splits)
    show "home ?s x" if "x < N" "x \<notin> spare T ?s" for x
    proof -
      have "home s x" using fc_inv_parts(3) [OF I, of x] that unfolding sp by simp
      then show ?thesis using q f by (auto simp: e home_def split: option.splits if_splits)
    qed
    show "listed ?s" using fc_inv_parts(4) [OF I] q by (auto simp: e listed_def)
    have "inflight ?s x = inflight s x" for x by (simp add: e inflight_def)
    then show "balanced (off(p := k)) ?s" using fc_inv_parts(5) [OF I] q bal f by (auto simp: balanced_def e)
    show "roles U ?s" using fc_inv_parts(6) [OF I] q r by (auto simp: roles_def e)
  qed
qed

lemma balancedD:
  "fc_inv N T off U s \<Longrightarrow> pools s p = Some q \<Longrightarrow> uint (flow_pool_size q) + uint (overflow_desc q) =
     int (length (freelist q)) + int (card (inflight s p)) + uint (deficient_desc q) + off p"
  using fc_inv_parts(5) by (simp add: balanced_def)

lemma roleD: "fc_inv N T off U s \<Longrightarrow> pools s p = Some q \<Longrightarrow> role q"
  using fc_inv_parts(6) by (simp add: roles_def)

lemma upd_moves:
  assumes "pools s p = Some q" "static (f q) = static q"
  shows "moves s (upd_pool p f s)" and "others p s (upd_pool p f s)"
  using assms by (auto simp: moves_def others_def upd_pool_def inflight_def pool_of_def)

text \<open>A change of the queue state.\<close>

lemma upd_status_inv:
  assumes I: "fc_inv N T off U s" and q: "pools s p = Some q"
    and st: "pool_status q \<noteq> FLOW_POOL_INVALID" "st \<noteq> FLOW_POOL_INVALID" "st \<noteq> FLOW_POOL_INACTIVE"
  shows "fc_inv N T off U (upd_pool p (\<lambda>q. q\<lparr>pool_status := st\<rparr>) s)" (is "fc_inv N T off U (upd_pool p ?f s)")
    and "moves s (upd_pool p (\<lambda>q. q\<lparr>pool_status := st\<rparr>) s)"
proof -
  have "fc_inv N T (off(p := off p)) U (upd_pool p ?f s)"
    using balancedD [OF I q] roleD [OF I q] st by (intro upd_inv [OF I q]) (auto simp: role_def)
  then show "fc_inv N T off U (upd_pool p ?f s)" by simp
  show "moves s (upd_pool p ?f s)" using st by (intro upd_moves [OF q]) (simp add: static_def)
qed

lemma wake_paused_spec:
  assumes I: "fc_inv N T off U s" and q: "pools s p = Some q"
  shows "fc_inv N T off U (wake_paused p b s)" "moves s (wake_paused p b s)" "others p s (wake_paused p b s)"
    "\<exists>q'. pools (wake_paused p b s) p = Some q' \<and> freelist q' = freelist q \<and> avail_desc q' = avail_desc q \<and>
       deficient_desc q' = deficient_desc q \<and> flow_pool_size q' = flow_pool_size q \<and>
       (pool_status q = FLOW_POOL_INVALID \<longrightarrow> q' = q)"
proof -
  define s1 where "s1 = (if b then pause_cb (member_flow_id q) WLAN_NETIF_PRIORITY_QUEUE_ON WLAN_DATA_FLOW_CONTROL_PRIORITY s else s)"
  define s2 where "s2 = pause_cb (member_flow_id q) WLAN_WAKE_ALL_NETIF_QUEUE WLAN_DATA_FLOW_CONTROL s1"
  have I2: "fc_inv N T off U s2" and q2: "pools s2 p = Some q" and m2: "moves s s2" and o2: "others p s s2"
    using I q by (auto simp: s1_def s2_def others_def intro!: moves_pause)
  have "fc_inv N T off U (wake_paused p b s) \<and> moves s (wake_paused p b s) \<and> others p s (wake_paused p b s) \<and>
    (\<exists>q'. pools (wake_paused p b s) p = Some q' \<and> freelist q' = freelist q \<and> avail_desc q' = avail_desc q \<and>
       deficient_desc q' = deficient_desc q \<and> flow_pool_size q' = flow_pool_size q \<and>
       (pool_status q = FLOW_POOL_INVALID \<longrightarrow> q' = q))"
  proof (cases "pool_status q = FLOW_POOL_ACTIVE_PAUSED \<and> avail_desc q > start_th q")
    case True
    let ?f = "\<lambda>q. q\<lparr>pool_status := FLOW_POOL_ACTIVE_UNPAUSED\<rparr>"
    have w: "wake_paused p b s = upd_pool p ?f s2" using True q by (simp add: wake_paused_def s1_def s2_def Let_def)
    have "fc_inv N T off U (upd_pool p ?f s2)" "moves s2 (upd_pool p ?f s2)"
      using upd_status_inv [OF I2 q2, of FLOW_POOL_ACTIVE_UNPAUSED] True by simp_all
    moreover have "others p s2 (upd_pool p ?f s2)" using q2 by (simp add: others_def upd_pool_def)
    ultimately show ?thesis unfolding w using m2 o2 moves_trans others_trans q2 True by (auto simp: upd_pool_def)
  next
    case False
    then have "wake_paused p b s = s" using q by (auto simp: wake_paused_def)
    then show ?thesis using I q by simp
  qed
  then show "fc_inv N T off U (wake_paused p b s)" "moves s (wake_paused p b s)" "others p s (wake_paused p b s)"
    "\<exists>q'. pools (wake_paused p b s) p = Some q' \<and> freelist q' = freelist q \<and> avail_desc q' = avail_desc q \<and>
       deficient_desc q' = deficient_desc q \<and> flow_pool_size q' = flow_pool_size q \<and>
       (pool_status q = FLOW_POOL_INVALID \<longrightarrow> q' = q)" by blast+
qed

section \<open>Loops over descriptors\<close>

lemma get_global_n_spec:
  assumes "fc_inv N temp off U s" "n \<le> length (tx_freelist s)"
  shows "fc_inv N (fst (get_global_n n temp s)) off U (snd (get_global_n n temp s)) \<and>
    moves s (snd (get_global_n n temp s)) \<and> pools (snd (get_global_n n temp s)) = pools s \<and>
    length (fst (get_global_n n temp s)) = n + length temp \<and>
    tx_freelist (snd (get_global_n n temp s)) = drop n (tx_freelist s)"
  using assms
proof (induction n arbitrary: temp s)
  case (Suc n)
  then obtain d ds where f: "tx_freelist s = d # ds" by (cases "tx_freelist s") auto
  let ?s = "snd (ol_tx_get_desc_global_pool s)"
  have fl: "tx_freelist ?s = ds" and m: "moves s ?s" and p: "pools ?s = pools s"
    using f by (auto simp: ol_tx_get_desc_global_pool_def moves_def inflight_def pool_of_def)
  have "n \<le> length (tx_freelist ?s)" using Suc.prems(2) f fl by simp
  note IH = Suc.IH [OF get_global_inv(2) [OF Suc.prems(1) f] this]
  have g: "get_global_n (Suc n) temp s = get_global_n n (d # temp) ?s" by (simp add: Let_def split_beta get_global_inv(1) [OF Suc.prems(1) f])
  show ?case unfolding g using IH moves_trans [OF m, of "snd (get_global_n n (d # temp) ?s)"] p fl f by simp
qed simp

lemma put_global_n_spec:
  assumes "fc_inv N temp off U s" "n = length temp"
  shows "fc_inv N [] off U (put_global_n n temp s) \<and> moves s (put_global_n n temp s) \<and> pools (put_global_n n temp s) = pools s \<and>
    tx_freelist (put_global_n n temp s) = rev temp @ tx_freelist s"
  using assms
proof (induction temp arbitrary: n s)
  case (Cons d temp)
  let ?s = "ol_tx_put_desc_global_pool d s"
  have m: "moves s ?s" and p: "pools ?s = pools s" and f: "tx_freelist ?s = d # tx_freelist s"
    by (auto simp: ol_tx_put_desc_global_pool_def moves_def inflight_def pool_of_def)
  from Cons.IH [OF put_global_inv [OF Cons.prems(1)] refl] show ?case
    using moves_trans [OF m] p f Cons.prems(2) by auto
qed simp

lemma get_flow_n_spec:
  assumes "fc_inv N temp off U s" "pools s p = Some q" "n \<le> length (freelist q)"
  shows "fc_inv N (fst (get_flow_n p n temp s)) (off(p := off p + int n)) U (snd (get_flow_n p n temp s)) \<and>
    moves s (snd (get_flow_n p n temp s)) \<and> others p s (snd (get_flow_n p n temp s)) \<and>
    length (fst (get_flow_n p n temp s)) = n + length temp \<and>
    pools (snd (get_flow_n p n temp s)) p = Some (q\<lparr>freelist := drop n (freelist q), avail_desc := avail_desc q - of_nat n\<rparr>)"
  using assms
proof (induction n arbitrary: temp s off q)
  case (Suc n)
  then obtain d ds where f: "freelist q = d # ds" by (cases "freelist q") auto
  let ?s = "snd (ol_tx_get_desc_flow_pool p s)" and ?q = "q\<lparr>freelist := ds, avail_desc := avail_desc q - 1\<rparr>"
  have s: "?s = upd_pool p (\<lambda>q. q\<lparr>freelist := ds, avail_desc := avail_desc q - 1\<rparr>) s"
    using f Suc.prems(2) by (simp add: ol_tx_get_desc_flow_pool_def)
  have q1: "pools ?s p = Some ?q" using Suc.prems(2) by (simp add: s upd_pool_def)
  have m: "moves s ?s" "others p s ?s" unfolding s by (intro upd_moves [OF Suc.prems(2)]; simp add: static_def)+
  have "n \<le> length (freelist ?q)" using Suc.prems(3) f by simp
  note IH = Suc.IH [OF get_flow_inv(2) [OF Suc.prems(1,2) f] q1 this]
  let ?r = "snd (get_flow_n p n (d # temp) ?s)"
  have g: "get_flow_n p (Suc n) temp s = get_flow_n p n (d # temp) ?s" by (simp add: Let_def split_beta get_flow_inv(1) [OF Suc.prems(1,2) f])
  have o: "(off(p := off p + 1))(p := (off(p := off p + 1)) p + int n) = off(p := off p + int (Suc n))" by (simp add: fun_eq_iff)
  have w: "avail_desc q - 1 - of_nat n = avail_desc q - of_nat (Suc n)" by simp
  show ?case unfolding g using IH [unfolded o] moves_trans [OF m(1), of ?r] others_trans [OF m(2), of ?r] f w by simp
qed simp

lemma put_flow_step:
  assumes "fc_inv N (d # T) off U s" "pools s p = Some q"
  shows "pools (ol_tx_put_desc_flow_pool p d s) p = Some (q\<lparr>freelist := d # freelist q, avail_desc := avail_desc q + 1\<rparr>)"
    and "moves s (ol_tx_put_desc_flow_pool p d s)" and "others p s (ol_tx_put_desc_flow_pool p d s)"
  using inflight_put [OF assms] assms(2)
  by (auto simp: moves_def others_def static_def ol_tx_put_desc_flow_pool_def upd_pool_def pool_of_def)

lemma put_flow_n_spec:
  assumes "fc_inv N temp off U s" "pools s p = Some q" "n \<le> length temp"
  shows "fc_inv N (drop n temp) (off(p := off p - int n)) U (snd (put_flow_n p n temp s)) \<and>
    fst (put_flow_n p n temp s) = drop n temp \<and>
    moves s (snd (put_flow_n p n temp s)) \<and> others p s (snd (put_flow_n p n temp s)) \<and>
    pools (snd (put_flow_n p n temp s)) p = Some (q\<lparr>freelist := rev (take n temp) @ freelist q, avail_desc := avail_desc q + of_nat n\<rparr>)"
  using assms
proof (induction n arbitrary: temp s off q)
  case (Suc n)
  then obtain d ds where t: "temp = d # ds" by (cases temp) auto
  have I: "fc_inv N (d # ds) off U s" and n: "n \<le> length ds" using Suc.prems t by simp_all
  note st = put_flow_step [OF I Suc.prems(2)]
  note IH = Suc.IH [OF put_flow_inv [OF I Suc.prems(2)] st(1) n]
  let ?r = "snd (put_flow_n p n ds (ol_tx_put_desc_flow_pool p d s))"
  have o: "(off(p := off p - 1))(p := (off(p := off p - 1)) p - int n) = off(p := off p - int (Suc n))" by (simp add: fun_eq_iff)
  have w: "avail_desc q + 1 + of_nat n = avail_desc q + of_nat (Suc n)" by simp
  show ?case using IH [unfolded o] moves_trans [OF st(2), of ?r] others_trans [OF st(3), of ?r] w by (simp add: t)
qed simp

lemma put_all_spec:
  assumes "fc_inv N temp off U s" "pools s p = Some q"
  shows "fc_inv N [] (off(p := off p - int (length temp))) U (fold (ol_tx_put_desc_flow_pool p) temp s) \<and>
    moves s (fold (ol_tx_put_desc_flow_pool p) temp s) \<and> others p s (fold (ol_tx_put_desc_flow_pool p) temp s) \<and>
    (\<exists>q'. pools (fold (ol_tx_put_desc_flow_pool p) temp s) p = Some q' \<and>
       length (freelist q') = length temp + length (freelist q) \<and> deficient_desc q' = deficient_desc q)"
  using assms
proof (induction temp arbitrary: s off q)
  case (Cons d temp)
  note st = put_flow_step [OF Cons.prems]
  note IH = Cons.IH [OF put_flow_inv [OF Cons.prems] st(1)]
  let ?r = "fold (ol_tx_put_desc_flow_pool p) temp (ol_tx_put_desc_flow_pool p d s)"
  have o: "(off(p := off p - 1))(p := (off(p := off p - 1)) p - int (length temp)) = off(p := off p - int (length (d # temp)))"
    by (simp add: fun_eq_iff)
  show ?case using IH [unfolded o] moves_trans [OF st(2), of ?r] others_trans [OF st(3), of ?r] by simp
qed auto

end
