(* ===== verification/Fc_Dist.thy ===== *)
theory Fc_Dist
  imports Fc_Moves
begin

text \<open>
  The distribution of descriptors to the pools that lack some, from a pool and from the global list:
  both keep the invariant, and every descriptor that they took arrives in a pool.
\<close>

section \<open>Moving to one pool\<close>

lemma need_sub_inv:
  assumes I: "fc_inv N T off U s" and q: "pools s p = Some q" and k: "k \<le> deficient_desc q"
  shows "fc_inv N T (off(p := off p + uint k)) U (upd_pool p (\<lambda>q. q\<lparr>deficient_desc := deficient_desc q - k\<rparr>) s)"
proof (rule upd_inv [OF I q])
  have "uint (deficient_desc q - k) = uint (deficient_desc q) - uint k" using k by (simp add: uint_sub_lem word_le_def)
  then show "uint (flow_pool_size (q\<lparr>deficient_desc := deficient_desc q - k\<rparr>)) + uint (overflow_desc (q\<lparr>deficient_desc := deficient_desc q - k\<rparr>)) =
      int (length (freelist q)) + int (card (inflight s p)) + uint (deficient_desc (q\<lparr>deficient_desc := deficient_desc q - k\<rparr>)) + (off p + uint k)"
    using balancedD [OF I q] by simp
  show "role (q\<lparr>deficient_desc := deficient_desc q - k\<rparr>)" using roleD [OF I q] k by (auto simp: role_def)
  show "pool_status (q\<lparr>deficient_desc := deficient_desc q - k\<rparr>) \<noteq> FLOW_POOL_INVALID" if "p \<in> U"
    using fc_inv_parts(6) [OF I] q that by (auto simp: roles_def)
qed simp_all

text \<open>The pool after \<open>k\<close> descriptors of the temporary list arrived.\<close>

definition filled :: "nat \<Rightarrow> nat list \<Rightarrow> ol_tx_flow_pool_t \<Rightarrow> ol_tx_flow_pool_t" where
  "filled k temp q = q\<lparr>freelist := rev (take k temp) @ freelist q, avail_desc := avail_desc q + of_nat k,
     deficient_desc := deficient_desc q - of_nat k\<rparr>"

lemma filled_sel [simp]:
  "pool_status (filled k temp q) = pool_status q" "flow_pool_size (filled k temp q) = flow_pool_size q"
  "static (filled k temp q) = static q"
  by (simp_all add: filled_def static_def)

lemma unat_pred16: "n \<noteq> 0 \<Longrightarrow> unat (n - 1 :: u16) = unat n - 1"
  using unat_minus_one by blast

lemma move_in_spec:
  assumes "fc_inv N temp off U s" "pools s p = Some q" "n \<le> length temp"
  shows "let k = min n (unat (deficient_desc q)); r = move_in p n temp c s in
    fst r = drop k temp \<and> fst (snd r) = c + k \<and> fc_inv N (drop k temp) off U (snd (snd r)) \<and>
    moves s (snd (snd r)) \<and> others p s (snd (snd r)) \<and> pools (snd (snd r)) p = Some (filled k temp q)"
  using assms
proof (induction n arbitrary: temp s q c)
  case 0
  then show ?case by (simp add: Let_def filled_def)
next
  case (Suc n)
  show ?case
  proof (cases "deficient_desc q = 0")
    case True
    then show ?thesis using Suc.prems by (simp add: Let_def filled_def)
  next
    case False
    obtain d ds where t: "temp = d # ds" using Suc.prems(3) by (cases temp) auto
    have n: "n \<le> length ds" using Suc.prems(3) t by simp
    let ?f = "\<lambda>q. q\<lparr>deficient_desc := deficient_desc q - 1\<rparr>"
    let ?s1 = "upd_pool p ?f s" and ?k = "min n (unat (deficient_desc q) - 1)"
    let ?s2 = "ol_tx_put_desc_flow_pool p d ?s1" and ?q = "q\<lparr>deficient_desc := deficient_desc q - 1, freelist := d # freelist q, avail_desc := avail_desc q + 1\<rparr>"
    have "fc_inv N (d # ds) (off(p := off p + uint (1::u16))) U ?s1"
      using need_sub_inv [OF Suc.prems(1,2), of 1] False t by (simp add: word_le_nat_alt unat_eq_zero [symmetric] del: unat_eq_zero)
    then have I1: "fc_inv N (d # ds) (off(p := off p + 1)) U ?s1" by simp
    have q1: "pools ?s1 p = Some (?f q)" using Suc.prems(2) by (simp add: upd_pool_def)
    have m1: "moves s ?s1" "others p s ?s1" by (intro upd_moves [OF Suc.prems(2)]; simp add: static_def)+
    have "fc_inv N ds ((off(p := off p + 1))(p := (off(p := off p + 1)) p - 1)) U ?s2" by (rule put_flow_inv [OF I1 q1])
    then have I2: "fc_inv N ds off U ?s2" by (simp add: fun_upd_idem)
    note st = put_flow_step [OF I1 q1]
    have q2: "pools ?s2 p = Some ?q" using st(1) by simp
    have m: "moves s ?s2" "others p s ?s2" using moves_trans [OF m1(1) st(2)] others_trans [OF m1(2) st(3)] by auto
    have k: "min n (unat (deficient_desc ?q)) = ?k" using unat_pred16 [OF False] by simp
    have K: "min (Suc n) (unat (deficient_desc q)) = Suc ?k"
    proof -
      obtain m where "unat (deficient_desc q) = Suc m" using False by (metis not0_implies_Suc unat_eq_zero)
      then show ?thesis by simp
    qed
    have fill: "filled ?k ds ?q = filled (Suc ?k) temp q" by (simp add: filled_def t algebra_simps)
    have mv: "move_in p (Suc n) temp c s = move_in p n ds (Suc c) ?s2" using False Suc.prems(2) by (simp add: t Let_def)
    let ?r = "snd (snd (move_in p n ds (Suc c) ?s2))"
    from Suc.IH [OF I2 q2 n, of "Suc c", unfolded Let_def k fill] show ?thesis
      unfolding Let_def K mv using moves_trans [OF m(1), of ?r] others_trans [OF m(2), of ?r] t by simp
  qed
qed

section \<open>From a pool\<close>

lemma move_desc_n_spec:
  assumes I: "fc_inv N [] off U s" and a: "pools s src = Some qs" "n \<le> length (freelist qs)"
    and b: "pools s dst = Some qd" "dst \<noteq> src" "n \<le> unat (deficient_desc qd)"
  shows "fst (ol_tx_move_desc_n src dst n s) = n \<and> fc_inv N [] (off(src := off src + int n)) U (snd (ol_tx_move_desc_n src dst n s)) \<and>
    moves s (snd (ol_tx_move_desc_n src dst n s)) \<and>
    (\<exists>qs'. pools (snd (ol_tx_move_desc_n src dst n s)) src = Some qs' \<and>
       length (freelist qs') = length (freelist qs) - n \<and> deficient_desc qs' = deficient_desc qs)"
proof -
  define t1 s1 where "t1 = fst (get_flow_n src n [] s)" and "s1 = snd (get_flow_n src n [] s)"
  have g: "get_flow_n src n [] s = (t1, s1)" by (simp add: t1_def s1_def)
  have A: "fc_inv N t1 (off(src := off src + int n)) U s1" "moves s s1" "others src s s1" "length t1 = n"
    "pools s1 src = Some (qs\<lparr>freelist := drop n (freelist qs), avail_desc := avail_desc qs - of_nat n\<rparr>)"
    using get_flow_n_spec [OF I a] by (simp_all add: g)
  have d1: "pools s1 dst = Some qd" using A(3) b by (simp add: others_def)
  define s2 where "s2 = snd (snd (move_in dst n t1 0 s1))"
  have k: "min n (unat (deficient_desc qd)) = n" using b by simp
  have B: "fst (move_in dst n t1 0 s1) = []" "fst (snd (move_in dst n t1 0 s1)) = n"
    "fc_inv N [] (off(src := off src + int n)) U s2" "moves s1 s2" "others dst s1 s2"
    using move_in_spec [OF A(1) d1, of n 0] A(4) by (simp_all add: s2_def Let_def k)
  have m: "move_in dst n t1 0 s1 = ([], n, s2)" using B(1,2) by (simp add: s2_def prod_eq_iff)
  have r: "ol_tx_move_desc_n src dst n s = (n, s2)" using a(1) d1 by (simp add: ol_tx_move_desc_n_def g m)
  have "pools s2 src = pools s1 src" using B(5) b(2) by (simp add: others_def)
  then show ?thesis unfolding r using B(3) moves_trans [OF A(2) B(4)] A(5) a by simp
qed

lemma distribute_loop_spec:
  assumes "fc_inv N [] off U s" "set l \<subseteq> dom (pools s)" "pools s src = Some qs" "unat c \<le> length (freelist qs)" "deficient_desc qs = 0"
  shows "\<exists>k. fc_inv N [] (off(src := k)) U (distribute_loop src l c s) \<and> moves s (distribute_loop src l c s) \<and>
    (\<exists>qs'. pools (distribute_loop src l c s) src = Some qs' \<and> deficient_desc qs' = 0)"
  using assms
proof (induction l arbitrary: off s c qs)
  case Nil
  then have "fc_inv N [] (off(src := off src)) U s" by simp
  then show ?case using Nil by (intro exI [of _ "off src"]) auto
next
  case (Cons dst l)
  obtain qd where qd: "pools s dst = Some qd" using Cons.prems(2) by auto
  show ?case
  proof (cases "deficient_desc qd = 0")
    case True
    then have e: "distribute_loop src (dst # l) c s = (if c = 0 then s else distribute_loop src l c s)" using qd by (simp add: Let_def)
    have "set l \<subseteq> dom (pools s)" using Cons.prems(2) by simp
    note IH = Cons.IH [OF Cons.prems(1) this Cons.prems(3-5)]
    show ?thesis
    proof (cases "c = 0")
      case True
      then show ?thesis unfolding e using Cons.prems(1,3,5) by (intro exI [of _ "off src"]) simp
    qed (use IH e in simp)
  next
    case False
    define m where "m = (if deficient_desc qd > c then c else deficient_desc qd)"
    let ?n = "unat m"
    have ne: "dst \<noteq> src" using False Cons.prems(3,5) qd by auto
    have n: "?n \<le> length (freelist qs)" "?n \<le> unat (deficient_desc qd)" "m \<le> c"
      using Cons.prems(4) by (auto simp: m_def word_le_nat_alt word_less_nat_alt not_less split: if_splits)
    let ?r = "ol_tx_move_desc_n src dst ?n s"
    have A: "fst ?r = ?n" "fc_inv N [] (off(src := off src + int ?n)) U (snd ?r)" "moves s (snd ?r)"
      "\<exists>qs'. pools (snd ?r) src = Some qs' \<and> length (freelist qs') = length (freelist qs) - ?n \<and> deficient_desc qs' = deficient_desc qs"
      using move_desc_n_spec [OF Cons.prems(1,3) n(1) qd ne n(2)] by blast+
    obtain q1 where q1: "pools (snd ?r) src = Some q1" "length (freelist q1) = length (freelist qs) - ?n" "deficient_desc q1 = 0"
      using A(4) Cons.prems(5) by auto
    obtain q2 where q2: "pools (snd ?r) dst = Some q2" using moves_live [OF A(3) qd] by blast
    let ?s = "wake_paused dst True (snd ?r)"
    note w = wake_paused_spec [OF A(2) q2, of True]
    have q3: "pools ?s src = Some q1" using w(3) ne q1 by (simp add: others_def)
    have l: "set l \<subseteq> dom (pools ?s)" using Cons.prems(2) moves_trans [OF A(3) w(2)] by (auto simp: moves_def)
    have c: "unat (c - m) \<le> length (freelist q1)" using n(3) Cons.prems(4) q1(2) by (simp add: unat_sub)
    obtain k where k: "fc_inv N [] ((off(src := off src + int ?n))(src := k)) U (distribute_loop src l (c - m) ?s)"
      "moves ?s (distribute_loop src l (c - m) ?s)"
      "\<exists>qs'. pools (distribute_loop src l (c - m) ?s) src = Some qs' \<and> deficient_desc qs' = 0"
      using Cons.IH [OF w(1) l q3 c q1(3)] by blast
    have w16: "of_nat (unat m) = m" by simp
    have ms: "moves s ?s" by (rule moves_trans [OF A(3) w(2)])
    have e: "distribute_loop src (dst # l) c s = (if c - m = 0 then ?s else distribute_loop src l (c - m) ?s)"
      by (simp only: distribute_loop.simps touch_some [OF qd] pool_of_some [OF qd] Let_def split_beta m_def [symmetric] False
          not_False_eq_True if_True A(1) fst_conv snd_conv w16)
    show ?thesis unfolding e
      using k w(1) ms moves_trans [OF ms k(2)] q3 q1(3) by (cases "c - m = 0") (auto simp del: fun_upd_apply intro!: exI)
  qed
qed


section \<open>From the global list\<close>

definition need :: "fc_state \<Rightarrow> ptr \<Rightarrow> nat" where
  "need s p = unat (deficient_desc (pool_of s p))"

definition complete :: "fc_state \<Rightarrow> ptr \<Rightarrow> bool" where
  "complete s p \<longleftrightarrow> (\<exists>q. pools s p = Some q \<and> pool_status q = FLOW_POOL_INVALID \<and> avail_desc q = flow_pool_size q)"

lemma complete_others: "others p s s' \<Longrightarrow> r \<noteq> p \<Longrightarrow> complete s' r \<longleftrightarrow> complete s r"
  by (simp add: complete_def others_def)

lemma need_others: "others p s s' \<Longrightarrow> p \<notin> set l \<Longrightarrow> sum_list (map (need s') l) = sum_list (map (need s) l)"
  by (intro arg_cong [where f = sum_list] map_cong) (auto simp: need_def others_def pool_of_def)

lemma fill_pool_spec:
  assumes I: "fc_inv N temp off U s" and q: "pools s p = Some q" and k: "k \<le> deficient_desc q" "unat k \<le> length temp"
  defines "s1 \<equiv> upd_pool p (\<lambda>q. q\<lparr>deficient_desc := deficient_desc q - k\<rparr>) s"
  defines "s2 \<equiv> snd (put_flow_n p (unat k) temp s1)"
  shows "fc_inv N (drop (unat k) temp) off U s2" "fst (put_flow_n p (unat k) temp s1) = drop (unat k) temp"
    "moves s s2" "others p s s2" "pools s2 p = Some (filled (unat k) temp q)"
proof -
  let ?q = "q\<lparr>deficient_desc := deficient_desc q - k\<rparr>"
  have q1: "pools s1 p = Some ?q" using q by (simp add: s1_def upd_pool_def)
  have m: "moves s s1" "others p s s1" unfolding s1_def by (intro upd_moves [OF q]; simp add: static_def)+
  have I1: "fc_inv N temp (off(p := off p + uint k)) U s1" unfolding s1_def by (rule need_sub_inv [OF I q k(1)])
  note S = put_flow_n_spec [OF I1 q1 k(2), folded s2_def]
  have o: "(off(p := off p + uint k))(p := (off(p := off p + uint k)) p - int (unat k)) = off"
    by (simp add: fun_eq_iff)
  show "fc_inv N (drop (unat k) temp) off U s2" "fst (put_flow_n p (unat k) temp s1) = drop (unat k) temp"
    "moves s s2" "others p s s2" "pools s2 p = Some (filled (unat k) temp q)"
    using S [unfolded o] moves_trans [OF m(1)] others_trans [OF m(2)] by (simp_all add: filled_def)
qed

lemma global_loop_spec:
  assumes "fc_inv N temp off U s" "set l \<subseteq> dom (pools s)" "distinct l" "unat c = length temp" "c \<noteq> 0"
    "length temp \<le> sum_list (map (need s) l)" "\<And>r. t = Some r \<Longrightarrow> r \<notin> set l \<and> complete s r"
  shows "fc_inv N [] off U (snd (global_loop l c temp t s)) \<and> moves s (snd (global_loop l c temp t s)) \<and>
    (\<forall>r. fst (global_loop l c temp t s) = Some r \<longrightarrow> complete (snd (global_loop l c temp t s)) r)"
  using assms
proof (induction l arbitrary: s c temp t)
  case Nil
  then show ?case by (simp add: unat_eq_zero [symmetric] del: unat_eq_zero)
next
  case (Cons dst l)
  obtain q where q: "pools s dst = Some q" using Cons.prems(2) by auto
  show ?case
  proof (cases "deficient_desc q = 0")
    case True
    then have e: "global_loop (dst # l) c temp t s = global_loop l c temp t s" using q Cons.prems(5) by (simp add: Let_def)
    have "need s dst = 0" using q True by (simp add: need_def)
    then show ?thesis unfolding e using Cons.prems by (intro Cons.IH) auto
  next
    case False
    define k where "k = (if deficient_desc q > c then c else deficient_desc q)"
    let ?s1 = "upd_pool dst (\<lambda>q. q\<lparr>deficient_desc := deficient_desc q - k\<rparr>) s"
    let ?r = "put_flow_n dst (unat k) temp ?s1"
    let ?q = "filled (unat k) temp q"
    let ?t = "if pool_status ?q = FLOW_POOL_INVALID \<and> avail_desc ?q = flow_pool_size ?q then Some dst else t"
    let ?s = "wake_paused dst False (snd ?r)"
    have k: "k \<le> deficient_desc q" "k \<le> c" "unat k \<le> length temp" "c - k = 0 \<or> k = deficient_desc q"
      using Cons.prems(4) by (auto simp: k_def word_le_nat_alt word_less_nat_alt not_less)
    note F = fill_pool_spec [OF Cons.prems(1) q k(1,3)]
    note W = wake_paused_spec [OF F(1) F(5), of False]
    have m: "moves s ?s" "others dst s ?s" by (rule moves_trans [OF F(3) W(2)], rule others_trans [OF F(4) W(3)])
    have pq: "pool_of (snd ?r) dst = ?q" using F(5) by simp
    have e: "global_loop (dst # l) c temp t s =
        (if c - k = 0 then (?t, ?s) else global_loop l (c - k) (drop (unat k) temp) ?t ?s)"
      by (simp only: global_loop.simps touch_some [OF q] pool_of_some [OF q] Let_def split_beta k_def [symmetric] False
          not_False_eq_True if_True fst_conv snd_conv F(2) pq)
    have c: "unat (c - k) = length (drop (unat k) temp)" using Cons.prems(4) k(2) by (simp add: unat_sub)
    have t: "complete ?s r" if "?t = Some r" for r
    proof (cases "r = dst")
      case True
      then have "pool_status ?q = FLOW_POOL_INVALID" "avail_desc ?q = flow_pool_size ?q"
        using that Cons.prems(7) by (auto split: if_splits)
      then show ?thesis using W(4) True by (auto simp: complete_def)
    next
      case F: False
      then show ?thesis using that Cons.prems(7) [of r] complete_others [OF m(2) F] by (auto split: if_splits)
    qed
    show ?thesis
    proof (cases "c - k = 0")
      case True
      then have "drop (unat k) temp = []" using c by simp
      then show ?thesis using True W(1) m(1) t unfolding e by simp
    next
      case ck: False
      have l: "set l \<subseteq> dom (pools ?s)" "distinct l" using Cons.prems(2,3) m(1) by (auto simp: moves_def)
      have "k = deficient_desc q" using k(4) ck by blast
      then have nd: "need s dst = unat k" using q by (simp add: need_def)
      have sm: "length (drop (unat k) temp) \<le> sum_list (map (need ?s) l)"
        using Cons.prems(6,3) nd need_others [OF m(2), of l] by simp
      have t': "r \<notin> set l \<and> complete ?s r" if "?t = Some r" for r
        using t [OF that] that Cons.prems(3,7) by (auto split: if_splits)
      show ?thesis unfolding e
        using Cons.IH [OF W(1) l c ck sm, of ?t] t' moves_trans [OF m(1)] ck by simp
    qed
  qed
qed

lemma fold_need_le: "unat (fold (\<lambda>p t. t + deficient_desc (pool_of s p)) l t) \<le> unat t + sum_list (map (need s) l)"
proof (induction l arbitrary: t)
  case (Cons p l)
  have "unat (t + deficient_desc (pool_of s p)) \<le> unat t + need s p" unfolding need_def by (simp add: unat_word_ariths)
  then show ?case using Cons [of "t + deficient_desc (pool_of s p)"] by simp
qed simp

lemma distribute_from_global_spec:
  assumes I: "fc_inv N [] off U s"
  shows "fc_inv N [] off U (snd (distribute_from_global s)) \<and> moves s (snd (distribute_from_global s)) \<and>
    (\<forall>r. fst (distribute_from_global s) = Some r \<longrightarrow> complete (snd (distribute_from_global s)) r)"
proof -
  have li: "set (flow_pool_list s) \<subseteq> dom (pools s)" "distinct (flow_pool_list s)"
    using fc_inv_parts(4) [OF I] by (auto simp: listed_def)
  let ?f = "fold (\<lambda>p t. t + deficient_desc (pool_of s p)) (flow_pool_list s) 0"
  define c where "c = (if num_free s \<ge> ?f then ?f else num_free s)"
  let ?r = "get_global_n (unat c) [] s"
  have c: "unat c \<le> length (tx_freelist s)" "unat c \<le> sum_list (map (need s) (flow_pool_list s))"
    using fold_need_le [of s "flow_pool_list s" 0] fc_inv_len [OF I] by (auto simp: c_def word_le_nat_alt not_le)
  note G = get_global_n_spec [OF I c(1)]
  have e: "distribute_from_global s = (if c = 0 then (None, snd ?r) else global_loop (flow_pool_list (snd ?r)) c (fst ?r) None (snd ?r))"
    by (simp add: distribute_from_global_def Let_def split_beta touch_all [OF li(1)] c_def)
  show ?thesis
  proof (cases "c = 0")
    case True
    then show ?thesis unfolding e using I by simp
  next
    case False
    have l: "flow_pool_list (snd ?r) = flow_pool_list s" using G by (simp add: moves_def)
    have nd: "need (snd ?r) = need s" using G by (auto simp: need_def pool_of_def fun_eq_iff)
    have "fc_inv N [] off U (snd (global_loop (flow_pool_list s) c (fst ?r) None (snd ?r))) \<and>
      moves (snd ?r) (snd (global_loop (flow_pool_list s) c (fst ?r) None (snd ?r))) \<and>
      (\<forall>r. fst (global_loop (flow_pool_list s) c (fst ?r) None (snd ?r)) = Some r \<longrightarrow>
        complete (snd (global_loop (flow_pool_list s) c (fst ?r) None (snd ?r))) r)"
      using G li False c(2) nd by (intro global_loop_spec) auto
    then show ?thesis unfolding e l using False G moves_trans [of s "snd ?r"] by simp
  qed
qed

end
