(* ===== verification/Fc_Release.thy ===== *)
theory Fc_Release
  imports Fc_Dist
begin

text \<open>
  Dropping the last reference of a pool.  The call deletes the pool, or makes it an invalid one; the
  descriptors it had go to the pools that lack some, which may complete another invalid pool, and so
  on.  Every further call frees a complete pool, so the cycle ends: the number of pools decreases.
\<close>

section \<open>What a release keeps\<close>

definition sheds :: "ptr set \<Rightarrow> fc_state \<Rightarrow> fc_state \<Rightarrow> bool" where
  "sheds P s s' \<longleftrightarrow> next_pool s' = next_pool s \<and> desc_ref s' = desc_ref s \<and> vdev_pool s' = vdev_pool s \<and> mgmt_pool s' = mgmt_pool s \<and>
     inflight s' = inflight s \<and> dom (pools s') \<subseteq> dom (pools s) \<and>
     (\<forall>r q. r \<notin> P \<longrightarrow> pools s r = Some q \<longrightarrow> pool_status q \<noteq> FLOW_POOL_INVALID \<longrightarrow>
        (\<exists>q'. pools s' r = Some q' \<and> static q' = static q)) \<and>
     (\<forall>r q'. pools s' r = Some q' \<longrightarrow> pool_status q' \<noteq> FLOW_POOL_INVALID \<longrightarrow> (\<exists>q. pools s r = Some q \<and> static q' = static q))"

lemma sheds_moves: "moves s s' \<Longrightarrow> sheds P s s'"
proof -
  assume m: "moves s s'"
  have "\<exists>q'. pools s' r = Some q' \<and> static q' = static q" if "pools s r = Some q" for r q using moves_live [OF m that] by blast
  moreover have "\<exists>q. pools s r = Some q \<and> static q' = static q" if "pools s' r = Some q'" for r q'
  proof -
    have "r \<in> dom (pools s)" using m that by (auto simp: moves_def)
    then obtain q where q: "pools s r = Some q" by auto
    then show ?thesis using moves_live [OF m q] that by auto
  qed
  ultimately show ?thesis using m unfolding sheds_def by (simp add: moves_def)
qed

lemma sheds_chain:
  assumes "sheds P s s1" "sheds P' s1 s2" "\<And>r q. r \<in> P' \<Longrightarrow> pools s1 r = Some q \<Longrightarrow> pool_status q = FLOW_POOL_INVALID"
  shows "sheds P s s2"
proof -
  have "\<exists>q'. pools s2 r = Some q' \<and> static q' = static q"
    if r: "r \<notin> P" "pools s r = Some q" "pool_status q \<noteq> FLOW_POOL_INVALID" for r q
  proof -
    obtain q1 where q1: "pools s1 r = Some q1" "static q1 = static q" using assms(1) r unfolding sheds_def by blast
    then have "pool_status q1 \<noteq> FLOW_POOL_INVALID" using r(3) by (auto simp: static_def)
    moreover have "r \<notin> P'" using assms(3) q1 calculation by blast
    ultimately obtain q2 where "pools s2 r = Some q2" "static q2 = static q1" using assms(2) q1 unfolding sheds_def by blast
    then show ?thesis using q1(2) by simp
  qed
  moreover have "dom (pools s2) \<subseteq> dom (pools s)" using assms(1,2) unfolding sheds_def by blast
  moreover have "\<exists>q. pools s r = Some q \<and> static q2 = static q" if r: "pools s2 r = Some q2" "pool_status q2 \<noteq> FLOW_POOL_INVALID" for r q2
  proof -
    obtain q1 where q1: "pools s1 r = Some q1" "static q2 = static q1" using assms(2) r unfolding sheds_def by blast
    then have "pool_status q1 \<noteq> FLOW_POOL_INVALID" using r(2) by (auto simp: static_def)
    then obtain q where "pools s r = Some q" "static q1 = static q" using assms(1) q1 unfolding sheds_def by blast
    then show ?thesis using q1(2) by simp
  qed
  ultimately show ?thesis using assms(1,2) unfolding sheds_def by simp
qed

section \<open>A complete invalid pool\<close>

lemma completeD:
  assumes I: "fc_inv N [] off U s" and p: "pools s p = Some q" "avail_desc q = flow_pool_size q" "overflow_desc q = 0" "off p = 0"
  shows "inflight s p = {}" "deficient_desc q = 0"
proof -
  have "uint (flow_pool_size q) = int (length (freelist q))"
    using fc_inv_uint [OF I p(1)] p(2) by simp
  then have "int (card (inflight s p)) + uint (deficient_desc q) = 0" using balancedD [OF I p(1)] p(3,4) by simp
  then have "card (inflight s p) = 0" "uint (deficient_desc q) = 0"
    by (metis add_nonneg_eq_0_iff of_nat_0_le_iff of_nat_eq_0_iff uint_nonnegative)+
  then show "inflight s p = {}" "deficient_desc q = 0" using inflight_finite [OF I] by (simp_all add: uint_0_iff)
qed

lemma complete_user: "fc_inv N T off U s \<Longrightarrow> complete s p \<Longrightarrow> p \<notin> U"
  using fc_inv_parts(6) by (fastforce simp: roles_def complete_def)

lemma free_invalid_head_spec:
  assumes I: "fc_inv N [] off U s" and c: "complete s p" "off p = 0"
  shows "fst (free_invalid_head p s) \<and> fc_inv N [] off U (snd (free_invalid_head p s)) \<and>
    flow_pool_list (snd (free_invalid_head p s)) = flow_pool_list s \<and>
    complete (snd (free_invalid_head p s)) p \<and> sheds {p} s (snd (free_invalid_head p s))"
proof -
  obtain q where q: "pools s p = Some q" "pool_status q = FLOW_POOL_INVALID" "avail_desc q = flow_pool_size q"
    using c by (auto simp: complete_def)
  have ov: "overflow_desc q = 0" using roleD [OF I q(1)] q(2) by (simp add: role_def)
  note z = completeD [OF I q(1,3) ov c(2)]
  let ?s1 = "distribute_loop p (flow_pool_list s) (avail_desc q) s"
  have l: "set (flow_pool_list s) \<subseteq> dom (pools s)" using fc_inv_parts(4) [OF I] by (simp add: listed_def)
  obtain k q1 where D: "fc_inv N [] (off(p := k)) U ?s1" "moves s ?s1" "pools ?s1 p = Some q1" "deficient_desc q1 = 0"
    using distribute_loop_spec [OF I l q(1) _ z(2), of "avail_desc q"] fc_inv_avail(2) [OF I q(1)] by auto
  have s1: "static q1 = static q" using moves_live [OF D(2) q(1)] D(3) by auto
  then have q1: "pool_status q1 = FLOW_POOL_INVALID" "overflow_desc q1 = 0" using q(2) ov by (simp_all add: static_def)
  let ?f = "\<lambda>q. q\<lparr>flow_pool_size := avail_desc q\<rparr>"
  let ?s2 = "upd_pool p ?f ?s1"
  have len: "uint (avail_desc q1) = int (length (freelist q1))" by (rule fc_inv_uint [OF D(1,3)])
  have "inflight ?s1 p = {}" using D(2) z(1) by (simp add: moves_def)
  then have "fc_inv N [] ((off(p := k))(p := 0)) U ?s2"
    using roleD [OF D(1,3)] q1 D(4) len complete_user [OF I c(1)]
    by (intro upd_inv [OF D(1,3)]) (auto simp: role_def)
  then have I2: "fc_inv N [] off U ?s2" using c(2) by (simp add: fun_upd_idem)
  let ?s3 = "?s2\<lparr>num_invalid_bin := num_invalid_bin ?s2 - 1\<rparr>"
  have e: "free_invalid_head p s = (True, ?s3)"
    using q by (simp add: free_invalid_head_def ol_tx_distribute_descs_to_deficient_pools_def Let_def)
  have "sheds {p} ?s1 ?s2" using D(3) q1 by (auto simp: sheds_def upd_pool_def inflight_def fun_eq_iff)
  then have "sheds {p} s ?s2" using sheds_chain [OF sheds_moves [OF D(2), of "{p}"], of "{p}"] D(3) q1 by auto
  moreover have "sheds {p} ?s2 ?s3" by (auto simp: sheds_def inflight_def fun_eq_iff)
  ultimately have "sheds {p} s ?s3" using D(3) q1 by (rule_tac sheds_chain) (auto simp: upd_pool_def)
  moreover have "fc_inv N [] off U ?s3" using I2 by (subst fc_inv_same [of ?s2]) (simp_all add: same_core_def)
  moreover have "complete ?s3 p" using D(3) q1 by (simp add: complete_def upd_pool_def)
  moreover have "flow_pool_list ?s3 = flow_pool_list s" using D(2,3) by (simp add: moves_def upd_pool_def)
  ultimately show ?thesis unfolding e by simp
qed

section \<open>Deletion\<close>

text \<open>The state in which the reference is dropped and the pool is off the list.\<close>

definition unlinked :: "ptr \<Rightarrow> fc_state \<Rightarrow> fc_state" where
  "unlinked p s = (upd_pool p (\<lambda>q. q\<lparr>ref_cnt := ref_cnt q - 1\<rparr>) s)\<lparr>flow_pool_list := remove1 p (flow_pool_list s)\<rparr>"

lemma delete_inactive:
  assumes I: "fc_inv N [] off U s" and q: "pools s p = Some q" and d: "avail_desc q = flow_pool_size q \<or> force"
    and z: "inflight s p = {}" and U: "p \<notin> U"
  shows "fc_inv N [] off U (delete_head p force (unlinked p s)) \<and> flow_pool_list (delete_head p force (unlinked p s)) = remove1 p (flow_pool_list s) \<and>
    pools (delete_head p force (unlinked p s)) = (pools s)(p := None) \<and> sheds {p} s (delete_head p force (unlinked p s))"
proof -
  let ?s2 = "s\<lparr>flow_pool_list := remove1 p (flow_pool_list s), pools := (pools s)(p := None)\<rparr>"
  have e: "delete_head p force (unlinked p s) = put_global_n (unat (avail_desc q)) (freelist q) ?s2"
    using q d by (auto simp: delete_head_def unlinked_def upd_pool_def Let_def)
  have sp: "spare (freelist q) ?s2 = spare [] s \<union> set (freelist q)" by (auto simp: spare_def)
  have "fc_inv N (freelist q) off U ?s2"
  proof (rule fc_invI)
    have "distinct (freelist q)" "set (freelist q) \<inter> spare [] s = {}"
      using fc_inv_parts(2) [OF I q] fc_inv_freelist(4) [OF I q] by (auto simp: pool_list_def)
    then show "lists_ok N (freelist q) ?s2"
      using fc_inv_parts(1) [OF I] fc_inv_freelist [OF I q] unfolding lists_ok_def sp by (auto simp: spare_def)
    show "pool_list N (freelist q) ?s2 x q'" if "pools ?s2 x = Some q'" for x q'
    proof -
      have x: "pools s x = Some q'" "x \<noteq> p" using that by (auto split: if_splits)
      then show ?thesis
        using fc_inv_parts(2) [OF I x(1)] fc_inv_freelist(3) [OF I x(1)] fc_inv_freelist(3) [OF I q]
        unfolding pool_list_def sp by fastforce
    qed
    show "home ?s2 x" if "x < N" "x \<notin> spare (freelist q) ?s2" for x
    proof -
      have "home s x" "x \<notin> set (freelist q)" using fc_inv_parts(3) [OF I, of x] that unfolding sp by simp_all
      then show ?thesis using q z by (auto simp: home_def inflight_def split: option.splits)
    qed
    show "listed ?s2" using fc_inv_parts(4) [OF I] by (auto simp: listed_def distinct_remove1)
    show "balanced off ?s2" using fc_inv_parts(5) [OF I] by (simp add: balanced_def inflight_def)
    show "roles U ?s2" using fc_inv_parts(6) [OF I] U by (auto simp: roles_def)
  qed
  note P = put_global_n_spec [OF this fc_inv_avail(2) [OF I q]]
  have "sheds {p} s ?s2" by (auto simp: sheds_def inflight_def fun_eq_iff)
  then have "sheds {p} s (delete_head p force (unlinked p s))"
    using P sheds_chain [OF _ sheds_moves [of ?s2 _ "{}"]] unfolding e by blast
  then show ?thesis using P unfolding e by (simp add: moves_def)
qed

lemma delete_invalid:
  assumes I: "fc_inv N [] off U s" and q: "pools s p = Some q" and d: "avail_desc q \<noteq> flow_pool_size q" "\<not> force"
    and z: "off p = 0" "overflow_desc q = 0" "ref_cnt q = 1" and U: "p \<notin> U"
  shows "fc_inv N [] off U (delete_head p force (unlinked p s)) \<and>
    flow_pool_list (delete_head p force (unlinked p s)) = remove1 p (flow_pool_list s) @ [p] \<and>
    (\<exists>q'. pools (delete_head p force (unlinked p s)) p = Some q' \<and> pool_status q' = FLOW_POOL_INVALID) \<and> sheds {p} s (delete_head p force (unlinked p s))"
proof -
  let ?q = "q\<lparr>pool_status := FLOW_POOL_INVALID, freelist := [], avail_desc := 0,
    flow_pool_size := flow_pool_size q - avail_desc q, flow_pool_id := INVALID_FLOW_ID, ref_cnt := 1\<rparr>"
  let ?s2 = "s\<lparr>pools := (pools s)(p \<mapsto> ?q), num_invalid_bin := num_invalid_bin s + 1,
    fc_assert := (fc_assert s \<or> num_invalid_bin s + 1 > MAX_INVALID_BIN), flow_pool_list := remove1 p (flow_pool_list s) @ [p]\<rparr>"
  have e: "delete_head p force (unlinked p s) = put_global_n (unat (avail_desc q)) (freelist q) ?s2"
    using q d z(3) by (simp add: delete_head_def unlinked_def upd_pool_def ol_tx_inc_pool_ref_def Let_def)
  have sp: "spare (freelist q) ?s2 = spare [] s \<union> set (freelist q)" by (auto simp: spare_def)
  have "fc_inv N (freelist q) off U ?s2"
  proof (rule fc_invI)
    have "distinct (freelist q)" "set (freelist q) \<inter> spare [] s = {}"
      using fc_inv_parts(2) [OF I q] fc_inv_freelist(4) [OF I q] by (auto simp: pool_list_def)
    then show "lists_ok N (freelist q) ?s2"
      using fc_inv_parts(1) [OF I] fc_inv_freelist [OF I q] unfolding lists_ok_def sp by (auto simp: spare_def)
    show "pool_list N (freelist q) ?s2 x q'" if "pools ?s2 x = Some q'" for x q'
    proof (cases "x = p")
      case False
      then have x: "pools s x = Some q'" using that by simp
      then show ?thesis
        using False fc_inv_parts(2) [OF I x] fc_inv_freelist(3) [OF I x] fc_inv_freelist(3) [OF I q]
        unfolding pool_list_def sp by fastforce
    qed (use that in \<open>auto simp: pool_list_def\<close>)
    show "home ?s2 x" if "x < N" "x \<notin> spare (freelist q) ?s2" for x
    proof -
      have "home s x" "x \<notin> set (freelist q)" using fc_inv_parts(3) [OF I, of x] that unfolding sp by simp_all
      then show ?thesis using q by (auto simp: home_def split: option.splits)
    qed
    have "p \<in> set (flow_pool_list s)" using fc_inv_live [OF I] q by blast
    then show "listed ?s2" using fc_inv_parts(4) [OF I] q by (auto simp: listed_def distinct_remove1)
    have "avail_desc q \<le> flow_pool_size q"
      using balancedD [OF I q] z fc_inv_uint [OF I q] by (simp add: word_le_def)
    then have "uint (flow_pool_size q - avail_desc q) = uint (flow_pool_size q) - int (length (freelist q))"
      using fc_inv_uint [OF I q] unfolding word_le_def uint_sub_lem by simp
    then show "balanced off ?s2"
      using fc_inv_parts(5) [OF I] q balancedD [OF I q] z by (auto simp: balanced_def inflight_def)
    show "roles U ?s2" using fc_inv_parts(6) [OF I] U roleD [OF I q] z by (auto simp: roles_def role_def)
  qed
  note P = put_global_n_spec [OF this fc_inv_avail(2) [OF I q]]
  have "sheds {p} s ?s2" using q by (auto simp: sheds_def inflight_def fun_eq_iff)
  then have "sheds {p} s (delete_head p force (unlinked p s))"
    using P sheds_chain [OF _ sheds_moves [of ?s2 _ "{}"]] unfolding e by blast
  then show ?thesis using P unfolding e by (simp add: moves_def)
qed


section \<open>The cycle\<close>

lemma dec_pool_ref_last:
  assumes q: "pools s p = Some q" "ref_cnt q = 1"
  shows "ol_tx_dec_pool_ref p force s = ol_tx_distribute_descs_to_deficient_pools_from_global_pool (delete_head p force (unlinked p s))"
  using q by (simp add: ol_tx_dec_pool_ref_calls ol_tx_delete_flow_pool_def unlinked_def upd_pool_def Let_def)

text \<open>Distribution from the global list, when the release of a complete pool is known to return.\<close>

lemma global_pool_step:
  assumes I: "fc_inv N [] (\<lambda>_. 0) U s"
    and hyp: "\<And>p s1. fc_inv N [] (\<lambda>_. 0) U s1 \<Longrightarrow> flow_pool_list s1 = flow_pool_list s \<Longrightarrow> complete s1 p \<Longrightarrow>
      \<exists>s2. ol_tx_dec_pool_ref p False s1 = Some s2 \<and> fc_inv N [] (\<lambda>_. 0) U s2 \<and> sheds {p} s1 s2"
  shows "\<exists>s2. ol_tx_distribute_descs_to_deficient_pools_from_global_pool s = Some s2 \<and> fc_inv N [] (\<lambda>_. 0) U s2 \<and> sheds {} s s2"
proof -
  let ?t = "snd (distribute_from_global s)"
  note G = distribute_from_global_spec [OF I]
  show ?thesis
  proof (cases "fst (distribute_from_global s)")
    case None
    then show ?thesis using G by (auto simp: ol_tx_distribute_descs_to_deficient_pools_from_global_pool_def intro: sheds_moves)
  next
    case (Some r)
    then have "fc_inv N [] (\<lambda>_. 0) U ?t" and c: "complete ?t r" using G by blast+
    note F = free_invalid_head_spec [OF this refl]
    let ?u = "snd (free_invalid_head r ?t)"
    have "flow_pool_list ?u = flow_pool_list s" using F G by (simp add: moves_def)
    then obtain s2 where s2: "ol_tx_dec_pool_ref r False ?u = Some s2" "fc_inv N [] (\<lambda>_. 0) U s2" "sheds {r} ?u s2"
      using hyp F by blast
    have cu: "\<And>q. pools ?u r = Some q \<Longrightarrow> pool_status q = FLOW_POOL_INVALID" using F by (auto simp: complete_def)
    have ct: "\<And>q. pools ?t r = Some q \<Longrightarrow> pool_status q = FLOW_POOL_INVALID" using c by (auto simp: complete_def)
    have tu: "sheds {r} ?t ?u" and st: "moves s ?t" using F G by blast+
    have "sheds {r} ?t s2" by (rule sheds_chain [OF tu s2(3)]) (use cu in blast)
    then have "sheds {} s s2" by (rule sheds_chain [OF sheds_moves [OF st]]) (use ct in blast)
    then show ?thesis using s2 F
      by (simp add: ol_tx_distribute_descs_to_deficient_pools_from_global_pool_def ol_tx_free_invalid_flow_pool_def Some)
  qed
qed

lemma release_complete:
  "fc_inv N [] (\<lambda>_. 0) U s \<Longrightarrow> complete s p \<Longrightarrow>
     \<exists>s2. ol_tx_dec_pool_ref p False s = Some s2 \<and> fc_inv N [] (\<lambda>_. 0) U s2 \<and> sheds {p} s s2"
proof (induction "length (flow_pool_list s)" arbitrary: s p rule: less_induct)
  case less
  then obtain q where q: "pools s p = Some q" "pool_status q = FLOW_POOL_INVALID" "avail_desc q = flow_pool_size q"
    by (auto simp: complete_def)
  have ov: "overflow_desc q = 0" and r1: "ref_cnt q = 1" using roleD [OF less.prems(1) q(1)] q(2) by (simp_all add: role_def)
  have z: "inflight s p = {}" using completeD(1) [OF less.prems(1) q(1,3) ov] by simp
  let ?s1 = "delete_head p False (unlinked p s)"
  have D: "fc_inv N [] (\<lambda>_. 0) U ?s1" "flow_pool_list ?s1 = remove1 p (flow_pool_list s)" "pools ?s1 = (pools s)(p := None)" "sheds {p} s ?s1"
    using delete_inactive [OF less.prems(1) q(1) _ z complete_user [OF less.prems], of False] q(3) by blast+
  have "p \<in> set (flow_pool_list s)" using fc_inv_live [OF less.prems(1)] q by blast
  then have "length (remove1 p (flow_pool_list s)) < length (flow_pool_list s)" by (auto simp: length_remove1 intro!: diff_less length_pos_if_in_set)
  then have "\<exists>s2. ol_tx_distribute_descs_to_deficient_pools_from_global_pool ?s1 = Some s2 \<and> fc_inv N [] (\<lambda>_. 0) U s2 \<and> sheds {} ?s1 s2"
    using less.hyps D(2) by (intro global_pool_step [OF D(1)]) simp
  then show ?case unfolding dec_pool_ref_last [OF q(1) r1] using sheds_chain [OF D(4), of "{}"] by auto
qed

lemma global_pool_returns:
  "fc_inv N [] (\<lambda>_. 0) U s \<Longrightarrow>
     \<exists>s2. ol_tx_distribute_descs_to_deficient_pools_from_global_pool s = Some s2 \<and> fc_inv N [] (\<lambda>_. 0) U s2 \<and> sheds {} s s2"
  by (rule global_pool_step) (simp_all add: release_complete)

lemma release_returns:
  assumes I: "fc_inv N [] (\<lambda>_. 0) U s" and q: "pools s p = Some q" "overflow_desc q = 0 \<or> force" "p \<notin> U" "ref_cnt q = 1"
    and f: "force \<Longrightarrow> inflight s p = {}"
  shows "\<exists>s2. ol_tx_dec_pool_ref p force s = Some s2 \<and> fc_inv N [] (\<lambda>_. 0) U s2 \<and> sheds {p} s s2 \<and>
    (avail_desc q = flow_pool_size q \<or> force \<longrightarrow> pools s2 p = None)"
proof -
  let ?s1 = "delete_head p force (unlinked p s)"
  have D: "fc_inv N [] (\<lambda>_. 0) U ?s1 \<and> sheds {p} s ?s1 \<and> (avail_desc q = flow_pool_size q \<or> force \<longrightarrow> pools ?s1 p = None)"
  proof (cases "avail_desc q = flow_pool_size q \<or> force")
    case True
    then have "inflight s p = {}" using completeD(1) [OF I q(1)] q(2) f by auto
    then show ?thesis using delete_inactive [OF I q(1) True _ q(3)] by simp
  next
    case False
    then show ?thesis using delete_invalid [OF I q(1)] q(2-4) by simp
  qed
  then obtain s2 where s2: "ol_tx_distribute_descs_to_deficient_pools_from_global_pool ?s1 = Some s2" "fc_inv N [] (\<lambda>_. 0) U s2" "sheds {} ?s1 s2"
    using global_pool_returns by blast
  have "sheds {p} s s2" using D sheds_chain [OF _ s2(3), of "{p}" s] by simp
  moreover have "pools ?s1 p = None \<Longrightarrow> pools s2 p = None" using s2(3) by (auto simp: sheds_def)
  ultimately show ?thesis unfolding dec_pool_ref_last [OF q(1,4)] using s2(1,2) D by simp
qed

end
