(* ===== verification/Fc_Run.thy ===== *)
theory Fc_Run
  imports Fc_Release
begin

text \<open>
  Creation, mapping, allocation and release of descriptors keep the invariant.
\<close>

section \<open>Users of pools\<close>

text \<open>The pools that an interface or the device itself points to.\<close>

definition users :: "fc_state \<Rightarrow> ptr set" where
  "users s = ran (vdev_pool s) \<union> set_option (mgmt_pool s)"

definition ones :: "fc_state \<Rightarrow> bool" where
  "ones s \<longleftrightarrow> (\<forall>p q. pools s p = Some q \<longrightarrow> ref_cnt q = 1)"

definition fc_ok :: "nat \<Rightarrow> fc_state \<Rightarrow> bool" where
  "fc_ok N s \<longleftrightarrow> fc_inv N [] (\<lambda>_. 0) (users s) s \<and> ones s"

lemma ones_sheds:
  assumes "fc_inv N T off U s'" "ones s" "sheds P s s'"
  shows "ones s'"
proof -
  have "ref_cnt q' = 1" if q': "pools s' p = Some q'" for p q'
  proof (cases "pool_status q' = FLOW_POOL_INVALID")
    case True
    then show ?thesis using roleD [OF assms(1) q'] by (simp add: role_def)
  next
    case False
    then obtain q where "pools s p = Some q" "static q' = static q" using assms(3) q' unfolding sheds_def by blast
    then show ?thesis using assms(2) by (auto simp: ones_def static_def)
  qed
  then show ?thesis by (simp add: ones_def)
qed

lemma users_sheds: "sheds P s s' \<Longrightarrow> users s' = users s"
  by (simp add: sheds_def users_def)

lemma fc_inv_users:
  assumes "fc_inv N T off U s" "\<And>p. p \<in> U' \<Longrightarrow> p \<in> U \<or> (\<exists>q. pools s p = Some q \<and> pool_status q \<noteq> FLOW_POOL_INVALID)"
  shows "fc_inv N T off U' s"
  using assms unfolding fc_inv_def roles_def by blast

lemma user_live: "fc_inv N T off U s \<Longrightarrow> p \<in> U \<Longrightarrow> \<exists>q. pools s p = Some q \<and> pool_status q \<noteq> FLOW_POOL_INVALID"
  using fc_inv_parts(6) by (simp add: roles_def)

lemma invalid_id:
  "fc_inv N T off U s \<Longrightarrow> pools s p = Some q \<Longrightarrow> flow_pool_id q \<noteq> INVALID_FLOW_ID \<Longrightarrow> pool_status q \<noteq> FLOW_POOL_INVALID"
  using roleD by (auto simp: role_def)

section \<open>Finding a pool\<close>

lemma pool_of_touch [simp]: "pool_of (touch p s) = pool_of s"
  by (simp add: touch_def fault_def pool_of_def fun_eq_iff)

lemma find_pool_find: "fst (find_pool fid l s) = List.find (\<lambda>p. flow_pool_id (pool_of s p) = fid) l"
  by (induction l arbitrary: s) (simp_all add: Let_def)

lemma find_pool_spec:
  assumes "set l \<subseteq> dom (pools s)"
  shows "snd (find_pool fid l s) = s"
    and "fst (find_pool fid l s) = Some p \<Longrightarrow> p \<in> set l \<and> flow_pool_id (pool_of s p) = fid"
    and "fst (find_pool fid l s) = None \<longleftrightarrow> (\<forall>p \<in> set l. flow_pool_id (pool_of s p) \<noteq> fid)"
  using assms
proof (induction l)
  case (Cons a l)
  { case 1 with Cons show ?case by (auto simp: Let_def) }
  { case 2 with Cons show ?case by (auto simp: Let_def split: if_splits) }
  { case 3 with Cons show ?case by (auto simp: Let_def) }
qed simp_all

lemma get_flow_pool_spec:
  assumes I: "fc_inv N T off U s"
  shows "snd (ol_tx_get_flow_pool fid s) = s"
    and "fst (ol_tx_get_flow_pool fid s) = Some p \<Longrightarrow> \<exists>q. pools s p = Some q \<and> flow_pool_id q = fid"
    and "fst (ol_tx_get_flow_pool fid s) = None \<Longrightarrow> pools s p = Some q \<Longrightarrow> flow_pool_id q \<noteq> fid"
proof -
  have l: "set (flow_pool_list s) = dom (pools s)" using fc_inv_parts(4) [OF I] by (simp add: listed_def)
  show "snd (ol_tx_get_flow_pool fid s) = s" using find_pool_spec(1) l by (simp add: ol_tx_get_flow_pool_def)
  show "\<exists>q. pools s p = Some q \<and> flow_pool_id q = fid" if "fst (ol_tx_get_flow_pool fid s) = Some p"
    using find_pool_spec(2) [of "flow_pool_list s" s fid p] l that by (auto simp: ol_tx_get_flow_pool_def)
  show "flow_pool_id q \<noteq> fid" if "fst (ol_tx_get_flow_pool fid s) = None" "pools s p = Some q"
  proof -
    have "p \<in> set (flow_pool_list s)" using that(2) l by blast
    then show ?thesis
      using find_pool_spec(3) [of "flow_pool_list s" s fid] l that by (fastforce simp: ol_tx_get_flow_pool_def)
  qed
qed

section \<open>Creation\<close>

lemma set_thresholds_sel [simp]:
  "flow_pool_id (set_thresholds env n q) = flow_pool_id q" "flow_pool_size (set_thresholds env n q) = n"
  "avail_desc (set_thresholds env n q) = avail_desc q" "deficient_desc (set_thresholds env n q) = deficient_desc q"
  "overflow_desc (set_thresholds env n q) = overflow_desc q" "pool_status (set_thresholds env n q) = pool_status q"
  "member_flow_id (set_thresholds env n q) = member_flow_id q" "freelist (set_thresholds env n q) = freelist q"
  "ref_cnt (set_thresholds env n q) = ref_cnt q"
  by (simp_all add: set_thresholds_def Let_def)

lemma take_for_pool_spec:
  assumes "fc_inv N temp off U (s\<lparr>flow_pool_list := L\<rparr>)" "n \<le> length (tx_freelist s)" "\<And>d. d \<in> set temp \<Longrightarrow> desc_pool s d = Some p"
  shows "fc_inv N (fst (take_for_pool p n temp s)) off U (snd (take_for_pool p n temp s)\<lparr>flow_pool_list := L\<rparr>) \<and>
    length (fst (take_for_pool p n temp s)) = n + length temp \<and>
    (\<forall>d \<in> set (fst (take_for_pool p n temp s)). desc_pool (snd (take_for_pool p n temp s)) d = Some p) \<and>
    pools (snd (take_for_pool p n temp s)) = pools s \<and> flow_pool_list (snd (take_for_pool p n temp s)) = flow_pool_list s \<and>
    next_pool (snd (take_for_pool p n temp s)) = next_pool s \<and> desc_ref (snd (take_for_pool p n temp s)) = desc_ref s \<and>
    vdev_pool (snd (take_for_pool p n temp s)) = vdev_pool s \<and> mgmt_pool (snd (take_for_pool p n temp s)) = mgmt_pool s"
  using assms
proof (induction n arbitrary: temp s)
  case (Suc n)
  then obtain d ds where f: "tx_freelist s = d # ds" by (cases "tx_freelist s") auto
  let ?sl = "s\<lparr>flow_pool_list := L\<rparr>"
  have fl: "tx_freelist ?sl = d # ds" using f by simp
  let ?s1 = "s\<lparr>tx_freelist := ds, num_free := num_free s - 1, desc_pool := (desc_pool s)(d := Some p)\<rparr>"
  have t: "take_for_pool p (Suc n) temp s = take_for_pool p n (d # temp) ?s1"
    by (simp add: f ol_tx_get_desc_global_pool_def Let_def)
  have g: "snd (ol_tx_get_desc_global_pool ?sl) = s\<lparr>flow_pool_list := L, tx_freelist := ds, num_free := num_free s - 1\<rparr>"
    by (simp add: f ol_tx_get_desc_global_pool_def)
  have I: "fc_inv N (d # temp) off U (s\<lparr>flow_pool_list := L, tx_freelist := ds, num_free := num_free s - 1\<rparr>)" (is "fc_inv _ _ _ _ ?g")
    using get_global_inv(2) [OF Suc.prems(1) fl] unfolding g .
  have "fc_inv N (d # temp) off U (?s1\<lparr>flow_pool_list := L\<rparr>)"
  proof (rule fc_invI)
    have d: "desc_ref s d = 0" using fc_inv_parts(1) [OF I] by (simp add: lists_ok_def spare_def)
    have fd: "d \<notin> set (freelist q)" if "pools s x = Some q" for x q
      using fc_inv_freelist(4) [OF I, of x q d] that by (auto simp: spare_def)
    show "lists_ok N (d # temp) (?s1\<lparr>flow_pool_list := L\<rparr>)" using fc_inv_parts(1) [OF I] by (simp add: lists_ok_def spare_def)
    show "pool_list N (d # temp) (?s1\<lparr>flow_pool_list := L\<rparr>) x q" if "pools (?s1\<lparr>flow_pool_list := L\<rparr>) x = Some q" for x q
      using fc_inv_parts(2) [OF I, of x q] that by (auto simp: pool_list_def spare_def)
    show "home (?s1\<lparr>flow_pool_list := L\<rparr>) x" if "x < N" "x \<notin> spare (d # temp) (?s1\<lparr>flow_pool_list := L\<rparr>)" for x
      using fc_inv_parts(3) [OF I, of x] that by (auto simp: home_def spare_def split: option.splits)
    show "listed (?s1\<lparr>flow_pool_list := L\<rparr>)" using fc_inv_parts(4) [OF I] by (simp add: listed_def)
    have "inflight (?s1\<lparr>flow_pool_list := L\<rparr>) x = inflight ?g x" for x using d by (auto simp: inflight_def)
    then show "balanced off (?s1\<lparr>flow_pool_list := L\<rparr>)" using fc_inv_parts(5) [OF I] by (simp add: balanced_def)
    show "roles U (?s1\<lparr>flow_pool_list := L\<rparr>)" using fc_inv_parts(6) [OF I] by (simp add: roles_def)
  qed
  moreover have "n \<le> length (tx_freelist ?s1)" using Suc.prems(2) f by simp
  moreover have "desc_pool ?s1 x = Some p" if "x \<in> set (d # temp)" for x using Suc.prems(3) that by auto
  ultimately show ?case unfolding t using Suc.IH [of "d # temp" ?s1] by simp
qed simp

text \<open>Giving the temporary list to a pool without descriptors.\<close>

lemma give_list:
  assumes I: "fc_inv N temp off U s" and q: "pools s p = Some q" "freelist q = []" "pool_status q \<noteq> FLOW_POOL_INVALID"
      "overflow_desc q = 0" "deficient_desc q = 0"
    and t: "\<And>d. d \<in> set temp \<Longrightarrow> desc_pool s d = Some p" and n: "n = of_nat (length temp)" "n \<le> flow_pool_size q"
    and o: "off p = uint (flow_pool_size q)"
  shows "fc_inv N [] (off(p := 0)) U (upd_pool p (\<lambda>q. q\<lparr>freelist := temp, avail_desc := n, deficient_desc := flow_pool_size q - n, overflow_desc := 0\<rparr>) s)"
    (is "fc_inv N [] _ U (upd_pool p ?f s)")
proof -
  let ?s = "upd_pool p ?f s"
  have e: "?s = s\<lparr>pools := (pools s)(p \<mapsto> ?f q)\<rparr>" using q by (simp add: upd_pool_def)
  have sp: "spare temp s = set temp \<union> spare [] ?s" by (auto simp: spare_def e)
  have tm: "distinct temp" "set temp \<inter> spare [] s = {}" "\<And>d. d \<in> set temp \<Longrightarrow> d < N \<and> desc_ref s d = 0"
    and N: "N < 2 ^ 16"
    using fc_inv_parts(1) [OF I] by (auto simp: lists_ok_def spare_def)
  have len: "uint n = int (length temp)" using small_list(2) [OF tm(1) _ N] tm(3) n(1) by (metis uint_nat)
  show ?thesis
  proof (rule fc_invI)
    show "lists_ok N [] ?s" using fc_inv_parts(1) [OF I] by (auto simp: lists_ok_def spare_def e)
    show "pool_list N [] ?s x q'" if "pools ?s x = Some q'" for x q'
    proof (cases "x = p")
      case True
      then have "q' = ?f q" using that unfolding e by simp
      then show ?thesis using True tm t n unfolding e by (auto simp: pool_list_def spare_def)
    next
      case False
      then show ?thesis using that fc_inv_parts(2) [OF I, of x q'] unfolding pool_list_def sp by (auto simp: e)
    qed
    show "home ?s x" if "x < N" "x \<notin> spare [] ?s" for x
    proof (cases "x \<in> set temp")
      case True
      then show ?thesis using t q by (simp add: home_def e)
    next
      case False
      then have "home s x" using fc_inv_parts(3) [OF I that(1)] that(2) unfolding sp by blast
      then show ?thesis using q by (auto simp: home_def e split: option.splits)
    qed
    show "listed ?s" using fc_inv_parts(4) [OF I] q by (auto simp: listed_def e)
    have "inflight ?s x = inflight s x" for x by (simp add: inflight_def e)
    moreover have "uint (flow_pool_size q - n) = uint (flow_pool_size q) - uint n" using n(2) unfolding word_le_def uint_sub_lem .
    ultimately show "balanced (off(p := 0)) ?s"
      using fc_inv_parts(5) [OF I] balancedD [OF I q(1)] q o len by (auto simp: balanced_def e)
    show "roles U ?s" using fc_inv_parts(6) [OF I] roleD [OF I q(1)] q by (auto simp: roles_def role_def e)
  qed
qed

lemma fresh_pool: "fc_inv N T off U s \<Longrightarrow> pools s (next_pool s) = None"
  using fc_inv_parts(4) by (force simp: listed_def)

lemma fresh_inflight:
  assumes I: "fc_inv N [] off U s"
  shows "inflight s (next_pool s) = {}"
proof -
  have "desc_pool s d \<noteq> Some (next_pool s)" if "desc_ref s d \<noteq> 0" for d
  proof -
    have "d < N" "d \<notin> spare [] s" using fc_inv_parts(1) [OF I] that by (auto simp: lists_ok_def)
    then have "home s d" using fc_inv_parts(3) [OF I] by blast
    then show ?thesis using fresh_pool [OF I] by (auto simp: home_def split: option.splits)
  qed
  then show ?thesis by (auto simp: inflight_def)
qed

text \<open>The state with the new, still empty pool on the list.\<close>

lemma new_pool_inv:
  assumes I: "fc_inv N [] (\<lambda>_. 0) U s"
    and zq: "freelist q = []" "avail_desc q = 0" "deficient_desc q = 0" "overflow_desc q = 0" "pool_status q = FLOW_POOL_ACTIVE_UNPAUSED"
      "ref_cnt q = 1" "flow_pool_size q = sz"
  shows "fc_inv N [] ((\<lambda>_. 0)(next_pool s := uint sz)) U
    (s\<lparr>next_pool := Suc (next_pool s), pools := (pools s)(next_pool s \<mapsto> q), flow_pool_list := flow_pool_list s @ [next_pool s]\<rparr>)"
    (is "fc_inv N [] ?o U ?a")
proof (rule fc_invI)
  note fresh = fresh_pool [OF I]
  have nl: "next_pool s \<notin> set (flow_pool_list s)" using fresh fc_inv_live [OF I] by auto
  have sp: "spare [] ?a = spare [] s" by (simp add: spare_def)
  show "lists_ok N [] ?a" using fc_inv_parts(1) [OF I] by (simp add: lists_ok_def spare_def)
  show "pool_list N [] ?a x q'" if "pools ?a x = Some q'" for x q'
    using that fc_inv_parts(2) [OF I, of x q'] zq unfolding pool_list_def sp by (auto split: if_splits)
  show "home ?a x" if "x < N" "x \<notin> spare [] ?a" for x
    using fc_inv_parts(3) [OF I that(1)] that(2) fresh unfolding sp by (auto simp: home_def split: option.splits)
  show "listed ?a" using fc_inv_parts(4) [OF I] nl by (auto simp: listed_def intro: less_SucI)
  have "inflight ?a x = inflight s x" for x by (simp add: inflight_def)
  then show "balanced ?o ?a" using fc_inv_parts(5) [OF I] fresh_inflight [OF I] zq by (auto simp: balanced_def)
  show "roles U ?a" using fc_inv_parts(6) [OF I] zq fresh by (auto simp: roles_def role_def)
qed

lemma create_spec:
  fixes fid :: u8 and sz :: u16
  assumes I: "fc_inv N [] (\<lambda>_. 0) U s" and m: "malloc_ok env"
  defines "r \<equiv> ol_tx_create_flow_pool env fid sz s"
  shows "fst r = Some (next_pool s)" "fc_inv N [] (\<lambda>_. 0) U (snd r)"
    "\<exists>q. pools (snd r) (next_pool s) = Some q \<and> flow_pool_id q = fid \<and> pool_status q = FLOW_POOL_ACTIVE_UNPAUSED \<and>
       flow_pool_size q = sz \<and> ref_cnt q = 1 \<and> overflow_desc q = 0 \<and> avail_desc q = min sz (num_free s) \<and> deficient_desc q = sz - min sz (num_free s)"
    "others (next_pool s) s (snd r)" "vdev_pool (snd r) = vdev_pool s" "mgmt_pool (snd r) = mgmt_pool s" "desc_ref (snd r) = desc_ref s"
    "flow_pool_list (snd r) = flow_pool_list s @ [next_pool s]" "next_pool (snd r) = Suc (next_pool s)"
proof -
  let ?p = "next_pool s"
  let ?q = "set_thresholds env sz (zero_pool\<lparr>flow_pool_id := fid\<rparr>)\<lparr>ref_cnt := 1\<rparr>"
  let ?s1 = "s\<lparr>next_pool := Suc ?p, pools := (pools s)(?p \<mapsto> ?q)\<rparr>" and ?L = "flow_pool_list s @ [?p]"
  define n where "n = (if num_free s \<ge> sz then sz else num_free s)"
  let ?t = "take_for_pool ?p (unat n) [] ?s1"
  have nn: "n = min sz (num_free s)" by (auto simp: n_def min_def)
  note fresh = fresh_pool [OF I]
  have zq: "freelist ?q = []" "avail_desc ?q = 0" "deficient_desc ?q = 0" "overflow_desc ?q = 0" "pool_status ?q = FLOW_POOL_ACTIVE_UNPAUSED"
    by (simp_all add: zero_pool_def)
  have I1: "fc_inv N [] ((\<lambda>_. 0)(?p := uint sz)) U (?s1\<lparr>flow_pool_list := ?L\<rparr>)" (is "fc_inv N [] ?o U ?a")
    using new_pool_inv [OF I zq, of sz] by simp
  have c: "unat n \<le> length (tx_freelist ?s1)" using fc_inv_len [OF I] by (auto simp: n_def word_le_nat_alt)
  note T = take_for_pool_spec [OF I1 c, of ?p]
  let ?s2 = "snd ?t" and ?f = "\<lambda>q. q\<lparr>freelist := fst ?t, avail_desc := n, deficient_desc := flow_pool_size q - n, overflow_desc := 0\<rparr>"
  let ?s3 = "upd_pool ?p ?f ?s2"
  have r: "r = (Some ?p, ?s3\<lparr>flow_pool_list := flow_pool_list ?s3 @ [?p]\<rparr>)"
  proof -
    have z: "ref_cnt zero_pool = 0" by (simp add: zero_pool_def)
    show ?thesis using m
      by (simp add: r_def ol_tx_create_flow_pool_def ol_tx_inc_pool_ref_def upd_pool_some z Let_def split_beta n_def [symmetric] cong: if_cong split del: if_split)
  qed
  have p2: "pools ?s2 ?p = Some ?q" using T by simp
  have l3: "flow_pool_list ?s3 = flow_pool_list s" using T p2 by (simp add: upd_pool_def)
  let ?b = "?s2\<lparr>flow_pool_list := ?L\<rparr>"
  have pb: "pools ?b ?p = Some ?q" using p2 by simp
  have ns: "n \<le> sz" unfolding nn by simp
  have "fc_inv N [] (?o(?p := 0)) U (upd_pool ?p ?f ?b)"
    using T zq ns by (intro give_list [OF _ pb]) auto
  moreover have "upd_pool ?p ?f ?b = ?s3\<lparr>flow_pool_list := flow_pool_list ?s3 @ [?p]\<rparr>" unfolding l3 using p2 by (simp add: upd_pool_def)
  moreover have "?o(?p := 0) = (\<lambda>_. 0)" by auto
  ultimately show "fc_inv N [] (\<lambda>_. 0) U (snd r)" by (simp add: r)
  show "fst r = Some ?p" "flow_pool_list (snd r) = ?L" "next_pool (snd r) = Suc ?p"
    "vdev_pool (snd r) = vdev_pool s" "mgmt_pool (snd r) = mgmt_pool s" "desc_ref (snd r) = desc_ref s"
    using l3 T p2 fresh by (simp_all add: r upd_pool_def)
  show "\<exists>q. pools (snd r) ?p = Some q \<and> flow_pool_id q = fid \<and> pool_status q = FLOW_POOL_ACTIVE_UNPAUSED \<and>
       flow_pool_size q = sz \<and> ref_cnt q = 1 \<and> overflow_desc q = 0 \<and> avail_desc q = min sz (num_free s) \<and> deficient_desc q = sz - min sz (num_free s)"
    using p2 zq by (simp add: r upd_pool_def nn [symmetric])
  show "others ?p s (snd r)" using T p2 by (auto simp: r others_def upd_pool_def)
qed

end
