(* ===== verification/Fc_Handlers.thy ===== *)
theory Fc_Handlers
  imports Fc_Run
begin

text \<open>
  The handlers of the firmware's messages keep the invariant and return: mapping, unmapping and
  resizing of a pool.
\<close>

section \<open>Fields outside the invariant\<close>

lemma fc_inv_stats [simp]: "fc_inv N T off U (s\<lparr>pool_stats := x\<rparr>) \<longleftrightarrow> fc_inv N T off U s"
  by (rule fc_inv_same) (simp add: same_core_def)

lemma fc_inv_vdev_pool [simp]: "fc_inv N T off U (s\<lparr>vdev_pool := x\<rparr>) \<longleftrightarrow> fc_inv N T off U s"
  by (rule fc_inv_same) (simp add: same_core_def)

lemma fc_inv_mgmt [simp]: "fc_inv N T off U (s\<lparr>mgmt_pool := x\<rparr>) \<longleftrightarrow> fc_inv N T off U s"
  by (rule fc_inv_same) (simp add: same_core_def)

lemma users_stats [simp]: "users (s\<lparr>pool_stats := x\<rparr>) = users s"
  by (simp add: users_def)

lemma users_pause [simp]: "users (pause_cb v a r s) = users s"
  by (simp add: users_def)

lemma ones_same [simp]:
  "ones (s\<lparr>pool_stats := x\<rparr>) \<longleftrightarrow> ones s" "ones (pause_cb v a r s) \<longleftrightarrow> ones s" "ones (s\<lparr>vdev_pool := y\<rparr>) \<longleftrightarrow> ones s"
  by (simp_all add: ones_def)

lemma upd_member_inv:
  assumes I: "fc_inv N T off U s" and q: "pools s p = Some q"
  shows "fc_inv N T off U (upd_pool p (\<lambda>q. q\<lparr>member_flow_id := v\<rparr>) s)"
proof -
  have "fc_inv N T (off(p := off p)) U (upd_pool p (\<lambda>q. q\<lparr>member_flow_id := v\<rparr>) s)"
    using balancedD [OF I q] roleD [OF I q] fc_inv_parts(6) [OF I] q
    by (intro upd_inv [OF I q]) (auto simp: role_def roles_def)
  then show ?thesis by simp
qed

section \<open>Mapping\<close>

lemma vdev_map_ok:
  assumes I: "fc_inv N [] (\<lambda>_. 0) (users s) s" and o: "ones s" and q: "pools s p = Some q" "pool_status q \<noteq> FLOW_POOL_INVALID"
  shows "fc_ok N (ol_tx_flow_pool_vdev_map env p v s)"
proof (cases "vdev_exists env v")
  case True
  let ?s = "s\<lparr>vdev_pool := (vdev_pool s)(v := Some p)\<rparr>"
  let ?t = "upd_pool p (\<lambda>q. q\<lparr>member_flow_id := v\<rparr>) ?s"
  have e: "ol_tx_flow_pool_vdev_map env p v s = ?t" using True by (simp add: ol_tx_flow_pool_vdev_map_def)
  have u: "users ?t \<subseteq> insert p (users s)" using q by (auto simp: users_def upd_pool_def ran_def)
  have qs: "pools ?s p = Some q" using q by simp
  have "fc_inv N [] (\<lambda>_. 0) (users s) ?s" using I by simp
  then have "fc_inv N [] (\<lambda>_. 0) (users ?t) ?s" by (rule fc_inv_users) (use u qs q(2) in blast)
  then have "fc_inv N [] (\<lambda>_. 0) (users ?t) ?t" by (rule upd_member_inv) (simp add: q)
  moreover have "ones ?t" using o q by (auto simp: ones_def upd_pool_def)
  ultimately show ?thesis by (simp add: e fc_ok_def)
next
  case False
  then show ?thesis using I o by (simp add: ol_tx_flow_pool_vdev_map_def fc_ok_def)
qed

lemma fc_ok_pause [simp]: "fc_ok N (pause_cb v a r s) \<longleftrightarrow> fc_ok N s"
  by (simp add: fc_ok_def)

lemma dec_ref_ok:
  assumes I: "fc_inv N [] (\<lambda>_. 0) (users s) s" and o: "ones s" and q: "pools s p = Some q" "overflow_desc q = 0" "p \<notin> users s"
  shows "\<exists>s2. ol_tx_dec_pool_ref p False s = Some s2 \<and> fc_ok N s2 \<and> sheds {p} s s2 \<and>
    (avail_desc q = flow_pool_size q \<longrightarrow> pools s2 p = None)"
proof -
  have "ref_cnt q = 1" using o q(1) by (simp add: ones_def)
  then obtain s2 where s2: "ol_tx_dec_pool_ref p False s = Some s2" "fc_inv N [] (\<lambda>_. 0) (users s) s2" "sheds {p} s s2"
    "avail_desc q = flow_pool_size q \<longrightarrow> pools s2 p = None"
    using release_returns [OF I q(1) disjI1 [OF q(2)] q(3), where force = False] by auto
  then show ?thesis using ones_sheds [OF s2(2) o s2(3)] users_sheds [OF s2(3)] by (auto simp: fc_ok_def)
qed

lemma map_handler_ok:
  assumes ok: "fc_ok N s" and fid: "fid \<noteq> INVALID_FLOW_ID"
  shows "\<exists>s'. ol_tx_flow_pool_map_handler env v type fid sz s = Some s' \<and> fc_ok N s'"
proof -
  let ?s0 = "s\<lparr>pool_stats := (pool_stats s)\<lparr>pool_map_count := pool_map_count (pool_stats s) + 1\<rparr>\<rparr>"
  have I: "fc_inv N [] (\<lambda>_. 0) (users ?s0) ?s0" and o: "ones ?s0" using ok by (simp_all add: fc_ok_def)
  note G = get_flow_pool_spec [OF I, of fid]
  let ?map = "\<lambda>p s. Some (pause_cb v WLAN_WAKE_ALL_NETIF_QUEUE WLAN_DATA_FLOW_CONTROL
     (pause_cb v WLAN_NETIF_PRIORITY_QUEUE_ON WLAN_DATA_FLOW_CONTROL_PRIORITY (ol_tx_flow_pool_vdev_map env p v s)))"
  show ?thesis
  proof (cases "fst (ol_tx_get_flow_pool fid ?s0)")
    case (Some p)
    then obtain q where q: "pools ?s0 p = Some q" "flow_pool_id q = fid" using G(2) by blast
    then have "pool_status q \<noteq> FLOW_POOL_INVALID" using invalid_id [OF I q(1)] fid by simp
    then have "fc_ok N (ol_tx_flow_pool_vdev_map env p v ?s0)" using vdev_map_ok [OF I o q(1)] by blast
    moreover have "fc_ok N ?s0" using I o by (simp add: fc_ok_def)
    moreover have "ol_tx_flow_pool_map_handler env v type fid sz s = (case type of FLOW_TYPE_VDEV \<Rightarrow> ?map p ?s0 | Other_flow_type _ \<Rightarrow> Some ?s0)"
      using Some G(1) by (simp add: ol_tx_flow_pool_map_handler_def split_beta Let_def split: htt_flow_type.split)
    ultimately show ?thesis by (cases type) auto
  next
    case None
    show ?thesis
    proof (cases "malloc_ok env")
      case False
      have "fc_ok N ?s0" using I o by (simp add: fc_ok_def)
      then show ?thesis using None G(1) False by (simp add: ol_tx_flow_pool_map_handler_def ol_tx_create_flow_pool_def split_beta Let_def)
    next
      case True
      let ?r = "ol_tx_create_flow_pool env fid sz ?s0" and ?p = "next_pool ?s0"
      note C = create_spec [OF I True, of fid sz]
      obtain q where q: "pools (snd ?r) ?p = Some q" "pool_status q = FLOW_POOL_ACTIVE_UNPAUSED" "overflow_desc q = 0" "ref_cnt q = 1" using C(3) by auto
      have u: "users (snd ?r) = users ?s0" using C(5,6) by (simp add: users_def)
      have "ref_cnt q' = 1" if "pools (snd ?r) x = Some q'" for x q'
      proof (cases "x = ?p")
        case True
        then show ?thesis using that q(1,4) by simp
      next
        case False
        then show ?thesis using that C(4) o by (simp add: others_def ones_def)
      qed
      then have o2: "ones (snd ?r)" by (simp add: ones_def)
      have I2: "fc_inv N [] (\<lambda>_. 0) (users (snd ?r)) (snd ?r)" using C(2) u by simp
      have "?p \<notin> users (snd ?r)" using user_live [OF I, of ?p] fresh_pool [OF I] unfolding u by auto
      then obtain s2 where s2: "ol_tx_dec_pool_ref ?p False (snd ?r) = Some s2" "fc_ok N s2"
        using dec_ref_ok [OF I2 o2 q(1,3)] by blast
      have "fc_ok N (ol_tx_flow_pool_vdev_map env ?p v (snd ?r))" using vdev_map_ok [OF I2 o2 q(1)] q(2) by simp
      moreover have "ol_tx_flow_pool_map_handler env v type fid sz s =
          (case type of FLOW_TYPE_VDEV \<Rightarrow> ?map ?p (snd ?r) | Other_flow_type _ \<Rightarrow> ol_tx_dec_pool_ref ?p False (snd ?r))"
        using None G(1) C(1) by (simp add: ol_tx_flow_pool_map_handler_def split_beta Let_def split: htt_flow_type.split)
      ultimately show ?thesis using s2 by (cases type) auto
    qed
  qed
qed

section \<open>Unmapping\<close>

text \<open>The contract of an unmap: the pool has an identifier of its own, no overflow, and no other user.\<close>

definition unmap_allowed :: "fc_env \<Rightarrow> u8 \<Rightarrow> u8 \<Rightarrow> fc_state \<Rightarrow> bool" where
  "unmap_allowed env v fid s \<longleftrightarrow> fid \<noteq> INVALID_FLOW_ID \<and>
     (\<forall>p. fst (ol_tx_get_flow_pool fid s) = Some p \<longrightarrow> overflow_desc (pool_of s p) = 0 \<and> mgmt_pool s \<noteq> Some p \<and>
        (\<forall>w. vdev_pool s w = Some p \<longrightarrow> w = v \<and> vdev_exists env v))"

lemma unmap_handler_ok:
  assumes ok: "fc_ok N s" and a: "unmap_allowed env v fid s"
  shows "\<exists>s'. ol_tx_flow_pool_unmap_handler env v type fid s = Some s' \<and> fc_ok N s'"
proof -
  let ?s0 = "s\<lparr>pool_stats := (pool_stats s)\<lparr>pool_unmap_count := pool_unmap_count (pool_stats s) + 1\<rparr>\<rparr>"
  have I: "fc_inv N [] (\<lambda>_. 0) (users ?s0) ?s0" and o: "ones ?s0" using ok by (simp_all add: fc_ok_def)
  note G = get_flow_pool_spec [OF I, of fid]
  have g: "fst (ol_tx_get_flow_pool fid ?s0) = fst (ol_tx_get_flow_pool fid s)"
    by (simp add: ol_tx_get_flow_pool_def find_pool_find pool_of_def)
  obtain r where r: "ol_tx_get_flow_pool fid ?s0 = (r, ?s0)" using G(1) by (metis prod.collapse)
  show ?thesis
  proof (cases r)
    case None
    then show ?thesis using r I o by (simp add: ol_tx_flow_pool_unmap_handler_def Let_def fc_ok_def)
  next
    case (Some p)
    then obtain q where q: "pools ?s0 p = Some q" using G(2) r by fastforce
    have gs: "fst (ol_tx_get_flow_pool fid s) = Some p" using g r Some by simp
    have al: "overflow_desc q = 0" "mgmt_pool s \<noteq> Some p" "\<And>w. vdev_pool s w = Some p \<Longrightarrow> w = v \<and> vdev_exists env v"
      using a gs q by (auto simp: unmap_allowed_def)
    let ?t = "ol_tx_flow_pool_vdev_unmap env p v ?s0"
    have t: "\<exists>q'. pools ?t p = Some q' \<and> overflow_desc q' = 0" "ones ?t" "p \<notin> users ?t" "users ?t \<subseteq> users s"
      using q al o by (auto simp: ol_tx_flow_pool_vdev_unmap_def upd_pool_def ones_def users_def ran_def split: if_splits)
    have "fc_inv N [] (\<lambda>_. 0) (users ?s0) ?t"
      using I upd_member_inv [of N "[]" "\<lambda>_. 0" "users ?s0" "?s0\<lparr>vdev_pool := (vdev_pool s)(v := None)\<rparr>" p q] q
      by (simp add: ol_tx_flow_pool_vdev_unmap_def)
    then have "fc_inv N [] (\<lambda>_. 0) (users ?t) ?t" by (rule fc_inv_users) (use t(4) in auto)
    then obtain s2 where "ol_tx_dec_pool_ref p False ?t = Some s2" "fc_ok N s2" using dec_ref_ok t(1-3) by blast
    then show ?thesis using r Some I o by (cases type) (simp_all add: ol_tx_flow_pool_unmap_handler_def Let_def fc_ok_def)
  qed
qed

end
