(* ===== verification/Fc_Resize.thy ===== *)
theory Fc_Resize
  imports Fc_Handlers
begin

text \<open>
  Resizing a pool keeps the invariant, except when it takes nothing from a pool at or below the
  threshold of its priority queue and does not note that it should have.
\<close>

section \<open>Arithmetic of the counters\<close>

lemma uint_minus_le: "(b :: u16) \<le> a \<Longrightarrow> uint (a - b) = uint a - uint b"
  unfolding word_le_def uint_sub_lem .

lemma uint_plus_small: "uint (a :: u16) + uint b < 2 ^ 16 \<Longrightarrow> uint (a + b) = uint a + uint b"
  using uint_add_lem [of a b] by simp

lemma pool_total:
  assumes I: "fc_inv N T off U s" and q: "pools s p = Some q"
  shows "length (freelist q) + card (inflight s p) < 2 ^ 16"
proof -
  have d: "distinct (freelist q)" and N: "N < 2 ^ 16"
    using fc_inv_parts(2) [OF I q] fc_inv_parts(1) [OF I] by (simp_all add: pool_list_def lists_ok_def)
  have "set (freelist q) \<inter> inflight s p = {}" using fc_inv_freelist(2) [OF I q] by (auto simp: inflight_def)
  then have "card (set (freelist q) \<union> inflight s p) = length (freelist q) + card (inflight s p)"
    using inflight_finite [OF I] d by (simp add: card_Un_disjoint distinct_card)
  moreover have "set (freelist q) \<union> inflight s p \<subseteq> {..<N}"
    using fc_inv_freelist(1) [OF I q] fc_inv_parts(1) [OF I] by (auto simp: inflight_def lists_ok_def)
  then have "card (set (freelist q) \<union> inflight s p) \<le> N" by (metis card_lessThan card_mono finite_lessThan)
  ultimately show ?thesis using N by simp
qed

text \<open>The counts that the two directions use.\<close>

definition shrink_diff :: "u16 \<Rightarrow> ol_tx_flow_pool_t \<Rightarrow> u16" where
  "shrink_diff n q = (let d = flow_pool_size q - n + overflow_desc q in d - min (deficient_desc q) d)"

definition shrink_recorded :: "u16 \<Rightarrow> ol_tx_flow_pool_t \<Rightarrow> bool" where
  "shrink_recorded n q \<longleftrightarrow> shrink_diff n q = 0 \<or> start_priority_th q < avail_desc q \<or>
     unat (avail_desc q) \<ge> unat (shrink_diff n q) + unat (start_priority_th q)"

lemma overflow_small:
  assumes I: "fc_inv N [] (\<lambda>_. 0) U s" and q: "pools s p = Some q"
  shows "uint (flow_pool_size q) + uint (overflow_desc q) < 2 ^ 16 \<or> overflow_desc q = 0"
  using balancedD [OF I q] roleD [OF I q] pool_total [OF I q] by (auto simp: role_def)

lemma min_uint: "uint (min (a :: u16) b) = min (uint a) (uint b)"
  by (simp add: min_def word_le_def)

lemma shrink_counts:
  assumes I: "fc_inv N [] (\<lambda>_. 0) U s" and q: "pools s p = Some q" and n: "n < flow_pool_size q"
  defines "d \<equiv> flow_pool_size q - n + overflow_desc q"
  shows "uint d = uint (flow_pool_size q) - uint n + uint (overflow_desc q)"
    and "uint (shrink_diff n q) = uint d - min (uint (deficient_desc q)) (uint d)"
    and "uint (deficient_desc q - min (deficient_desc q) d) = uint (deficient_desc q) - min (uint (deficient_desc q)) (uint d)"
proof -
  have "uint (flow_pool_size q - n) = uint (flow_pool_size q) - uint n" using n by (intro uint_minus_le) simp
  moreover have "uint (flow_pool_size q) < 2 ^ 16" by (rule order.strict_trans2 [OF uint_bounded]) simp
  ultimately show "uint d = uint (flow_pool_size q) - uint n + uint (overflow_desc q)"
  proof -
    have b: "uint (flow_pool_size q) + uint (overflow_desc q) < 2 ^ 16"
      using overflow_small [OF I q] \<open>uint (flow_pool_size q) < 2 ^ 16\<close> by auto
    have "uint (flow_pool_size q) - uint n + uint (overflow_desc q) < 2 ^ 16" by (rule le_less_trans [OF _ b]) simp
    then show ?thesis using \<open>uint (flow_pool_size q - n) = _\<close> unfolding d_def by (subst uint_plus_small) simp_all
  qed
  show "uint (shrink_diff n q) = uint d - min (uint (deficient_desc q)) (uint d)"
    by (simp add: shrink_diff_def Let_def d_def [symmetric] uint_minus_le min_uint)
  show "uint (deficient_desc q - min (deficient_desc q) d) = uint (deficient_desc q) - min (uint (deficient_desc q)) (uint d)"
    by (simp add: uint_minus_le min_uint)
qed


section \<open>The directions\<close>

text \<open>What a resize keeps beside the invariant.\<close>

definition resizes :: "ptr \<Rightarrow> fc_state \<Rightarrow> fc_state \<Rightarrow> bool" where
  "resizes p s s' \<longleftrightarrow> vdev_pool s' = vdev_pool s \<and> mgmt_pool s' = mgmt_pool s \<and> others p s s' \<and>
     ref_cnt (pool_of s' p) = ref_cnt (pool_of s p) \<and> pools s' p \<noteq> None"

lemma resizes_trans: "resizes p s s1 \<Longrightarrow> resizes p s1 s2 \<Longrightarrow> resizes p s s2"
  by (simp add: resizes_def others_def)

lemma resizes_moves: "moves s s' \<Longrightarrow> others p s s' \<Longrightarrow> pools s p = Some q \<Longrightarrow> resizes p s s'"
  by (auto simp: resizes_def moves_def static_def)

lemma resizes_upd: "pools s p = Some q \<Longrightarrow> ref_cnt (f q) = ref_cnt q \<Longrightarrow> resizes p s (upd_pool p f s)"
  by (simp add: resizes_def upd_pool_def others_def)

lemma others_same: "pools s' = pools s \<Longrightarrow> others p s s'"
  by (simp add: others_def)

lemma update_inv:
  assumes I: "fc_inv N T off U s" and q: "pools s p = Some q" "pool_status q \<noteq> FLOW_POOL_INVALID"
    and bal: "uint n + uint ov = int (length (freelist q)) + int (card (inflight s p)) + uint df + k"
    and df: "df = (if dc \<noteq> 0 then dc else deficient_desc q)" and ov: "ov = (if oc \<noteq> 0 then oc else overflow_desc q)"
    and z: "ov = 0 \<or> df = 0"
  shows "fc_inv N T (off(p := k)) U (ol_tx_flow_pool_update env p n dc oc s)" "resizes p s (ol_tx_flow_pool_update env p n dc oc s)"
proof -
  show "fc_inv N T (off(p := k)) U (ol_tx_flow_pool_update env p n dc oc s)"
    unfolding ol_tx_flow_pool_update_def
    using bal z roleD [OF I q(1)] q(2) by (intro upd_inv [OF I q(1)]) (auto simp: Let_def role_def df ov split: if_splits)
  show "resizes p s (ol_tx_flow_pool_update env p n dc oc s)"
    unfolding ol_tx_flow_pool_update_def by (rule resizes_upd [OF q(1)]) (simp add: Let_def)
qed

text \<open>What a shrinking pool gives back, and the overflow it records.\<close>

definition shrink_take :: "u16 \<Rightarrow> ol_tx_flow_pool_t \<Rightarrow> u16 \<times> u16" where
  "shrink_take diff q =
     (if diff = 0 then (0, 0) else if unat (avail_desc q) \<ge> unat diff + unat (start_priority_th q) then (diff, 0)
      else if avail_desc q > start_priority_th q then (avail_desc q - start_priority_th q, diff - (avail_desc q - start_priority_th q))
      else (0, 0))"

lemma shrink_take_spec:
  assumes "diff = shrink_diff n q" "shrink_recorded n q" "shrink_take diff q = (tg, oc)"
  shows "uint tg + uint oc = uint diff" "tg \<le> avail_desc q" "oc \<noteq> 0 \<Longrightarrow> diff \<noteq> 0"
proof -
  have a: "avail_desc q - start_priority_th q < diff" if "start_priority_th q < avail_desc q" "\<not> unat (avail_desc q) \<ge> unat diff + unat (start_priority_th q)"
    using that by (simp add: word_less_nat_alt unat_sub word_le_nat_alt)
  then show "uint tg + uint oc = uint diff"
    using assms uint_minus_le [of "avail_desc q - start_priority_th q" diff]
    by (auto simp: shrink_take_def shrink_recorded_def intro: less_imp_le split: if_splits)
  show "tg \<le> avail_desc q" "oc \<noteq> 0 \<Longrightarrow> diff \<noteq> 0"
    using assms(3) by (auto simp: shrink_take_def word_le_nat_alt word_less_nat_alt unat_sub split: if_splits)
qed

lemma shrink_spec:
  assumes I: "fc_inv N [] (\<lambda>_. 0) U s" and q: "pools s p = Some q" "pool_status q \<noteq> FLOW_POOL_INVALID"
    and n: "n < flow_pool_size q" and rec: "shrink_recorded n q"
  shows "fc_inv N [] (\<lambda>_. 0) U (shrink_pool env p n s)" "resizes p s (shrink_pool env p n s)"
proof -
  define d0 diff tg oc where "d0 = flow_pool_size q - n + overflow_desc q" and "diff = shrink_diff n q"
    and "tg = fst (shrink_take diff q)" and "oc = snd (shrink_take diff q)"
  let ?tmp = "min (deficient_desc q) d0"
  let ?f = "\<lambda>q. q\<lparr>overflow_desc := 0, deficient_desc := deficient_desc q - ?tmp\<rparr>"
  let ?s1 = "upd_pool p ?f s" and ?q1 = "?f q"
  note C = shrink_counts [OF I q(1) n, folded d0_def diff_def]
  have tk: "shrink_take diff q = (tg, oc)" by (simp add: tg_def oc_def)
  note tg = shrink_take_spec [OF diff_def rec tk]
  have q1: "pools ?s1 p = Some ?q1" using q(1) by (simp add: upd_pool_def)
  let ?k = "min (uint (deficient_desc q)) (uint d0) - uint (overflow_desc q)"
  have I1: "fc_inv N [] ((\<lambda>_. 0)(p := ?k)) U ?s1"
    using balancedD [OF I q(1)] roleD [OF I q(1)] C(3) fc_inv_parts(6) [OF I] q
    by (intro upd_inv [OF I q(1)]) (auto simp: role_def roles_def)
  have len: "unat tg \<le> length (freelist ?q1)" using tg(2) fc_inv_avail(2) [OF I q(1)] by (simp add: word_le_nat_alt)
  let ?g = "get_flow_n p (unat tg) [] ?s1"
  let ?s2 = "snd ?g" and ?q2 = "?q1\<lparr>freelist := drop (unat tg) (freelist q), avail_desc := avail_desc q - tg\<rparr>"
  have G: "fc_inv N (fst ?g) ((\<lambda>_. 0)(p := ?k + uint tg)) U ?s2" "moves ?s1 ?s2" "others p ?s1 ?s2" "length (fst ?g) = unat tg" "pools ?s2 p = Some ?q2"
    using get_flow_n_spec [OF I1 q1 len] by simp_all
  let ?s3 = "ol_tx_flow_pool_update env p n 0 oc ?s2"
  have inf: "inflight ?s2 p = inflight s p" using G(2) by (simp add: moves_def) (simp add: inflight_def q(1) upd_pool_def)
  have lenq: "int (length (freelist ?q2)) = int (length (freelist q)) - uint tg" using len by (simp add: of_nat_diff)
  have ex: "oc = 0 \<or> deficient_desc q - ?tmp = 0"
  proof -
    have "deficient_desc q - ?tmp = 0" if "diff \<noteq> 0"
      using that by (auto simp: diff_def shrink_diff_def Let_def d0_def [symmetric] min_def split: if_splits)
    then show ?thesis using tg(3) by blast
  qed
  have U: "fc_inv N (fst ?g) (((\<lambda>_. 0)(p := ?k + uint tg))(p := 0)) U ?s3" "resizes p ?s2 ?s3"
  proof -
    have bal: "uint n + uint oc = int (length (freelist ?q2)) + int (card (inflight ?s2 p)) + uint (deficient_desc q - ?tmp) + 0"
      unfolding inf lenq C(3) using tg(1) C(1,2) balancedD [OF I q(1)] by simp
    show "fc_inv N (fst ?g) (((\<lambda>_. 0)(p := ?k + uint tg))(p := 0)) U ?s3" "resizes p ?s2 ?s3"
      by (rule update_inv [OF G(1,5) _ bal]; use ex q in simp)+
  qed
  have o: "((\<lambda>_. 0)(p := ?k + uint tg))(p := 0) = (\<lambda>_. 0)" by (simp add: fun_eq_iff)
  note P = put_global_n_spec [OF U(1) [unfolded o] G(4) [symmetric]]
  let ?s4 = "put_global_n (unat tg) (fst ?g) ?s3"
  have e: "shrink_pool env p n s = ?s4"
  proof -
    have dd: "d0 - ?tmp = diff" by (simp add: diff_def shrink_diff_def Let_def d0_def)
    show ?thesis
      by (simp only: shrink_pool_def Let_def pool_of_some [OF q(1)] d0_def [symmetric] dd shrink_take_def [symmetric] tk) (simp only: split_beta fst_conv snd_conv)
  qed
  show "fc_inv N [] (\<lambda>_. 0) U (shrink_pool env p n s)" using P unfolding e by blast
  have r1: "resizes p s ?s1" by (rule resizes_upd [OF q(1)]) simp
  have r2: "resizes p ?s1 ?s2" by (rule resizes_moves [OF G(2,3) q1])
  obtain q3 where q3: "pools ?s3 p = Some q3" using U(2) by (auto simp: resizes_def)
  have r4: "resizes p ?s3 ?s4" using P q3 by (intro resizes_moves [OF _ others_same]) auto
  show "resizes p s (shrink_pool env p n s)" unfolding e
    by (rule resizes_trans [OF resizes_trans [OF resizes_trans [OF r1 r2] U(2)] r4])
qed


lemma grow_counts:
  assumes I: "fc_inv N [] (\<lambda>_. 0) U s" and q: "pools s p = Some q" and n: "flow_pool_size q < n"
  defines "d \<equiv> n - flow_pool_size q + deficient_desc q"
  shows "uint d = uint n - uint (flow_pool_size q) + uint (deficient_desc q)"
    and "uint (d - min (overflow_desc q) d) = uint d - min (uint (overflow_desc q)) (uint d)"
    and "uint (overflow_desc q - min (overflow_desc q) d) = uint (overflow_desc q) - min (uint (overflow_desc q)) (uint d)"
proof -
  have s: "uint (n - flow_pool_size q) = uint n - uint (flow_pool_size q)" using n by (intro uint_minus_le) simp
  have "uint (deficient_desc q) \<le> uint (flow_pool_size q) \<or> deficient_desc q = 0"
    using balancedD [OF I q] roleD [OF I q] by (auto simp: role_def)
  then have "uint n - uint (flow_pool_size q) + uint (deficient_desc q) \<le> uint n \<or> deficient_desc q = 0" by auto
  moreover have "uint n < 2 ^ 16" by (rule order.strict_trans2 [OF uint_bounded]) simp
  ultimately have "uint (n - flow_pool_size q) + uint (deficient_desc q) < 2 ^ 16"
  proof (elim disjE)
    assume "deficient_desc q = 0"
    then show ?thesis using uint_bounded [of "n - flow_pool_size q"] by simp
  next
    assume a: "uint n - uint (flow_pool_size q) + uint (deficient_desc q) \<le> uint n" and b: "uint n < 2 ^ 16"
    show ?thesis unfolding s by (rule le_less_trans [OF a b])
  qed
  then show "uint d = uint n - uint (flow_pool_size q) + uint (deficient_desc q)" unfolding d_def by (simp add: uint_plus_small s)
  show "uint (d - min (overflow_desc q) d) = uint d - min (uint (overflow_desc q)) (uint d)"
    and "uint (overflow_desc q - min (overflow_desc q) d) = uint (overflow_desc q) - min (uint (overflow_desc q)) (uint d)"
    by (simp_all add: uint_minus_le min_uint)
qed

lemma grow_spec:
  assumes I: "fc_inv N [] (\<lambda>_. 0) U s" and q: "pools s p = Some q" "pool_status q \<noteq> FLOW_POOL_INVALID"
    and n: "flow_pool_size q < n"
  shows "fc_inv N [] (\<lambda>_. 0) U (grow_pool env p n s)" "resizes p s (grow_pool env p n s)"
proof -
  define d0 where "d0 = n - flow_pool_size q + deficient_desc q"
  let ?tmp = "min (overflow_desc q) d0"
  define diff where "diff = d0 - ?tmp"
  define fg where "fg = (if num_free s \<ge> diff then diff else num_free s)"
  let ?f = "\<lambda>q. q\<lparr>deficient_desc := 0, overflow_desc := overflow_desc q - ?tmp\<rparr>"
  let ?s1 = "upd_pool p ?f s" and ?q1 = "?f q"
  note C = grow_counts [OF I q(1) n, folded d0_def, folded diff_def]
  have fg: "fg \<le> diff" "fg \<le> num_free s" by (auto simp: fg_def)
  have q1: "pools ?s1 p = Some ?q1" and m1: "num_free ?s1 = num_free s" "tx_freelist ?s1 = tx_freelist s"
    using q(1) by (simp_all add: upd_pool_def)
  let ?k = "uint (deficient_desc q) - min (uint (overflow_desc q)) (uint d0)"
  have I1: "fc_inv N [] ((\<lambda>_. 0)(p := ?k)) U ?s1"
    using balancedD [OF I q(1)] roleD [OF I q(1)] C(3) fc_inv_parts(6) [OF I] q
    by (intro upd_inv [OF I q(1)]) (auto simp: role_def roles_def)
  have len: "unat fg \<le> length (tx_freelist ?s1)" using fg(2) fc_inv_len [OF I] m1 by (simp add: word_le_nat_alt)
  let ?g = "get_global_n (unat fg) [] ?s1"
  let ?s2 = "snd ?g"
  have G: "fc_inv N (fst ?g) ((\<lambda>_. 0)(p := ?k)) U ?s2" "moves ?s1 ?s2" "pools ?s2 = pools ?s1" "length (fst ?g) = unat fg"
    using get_global_n_spec [OF I1 len] by simp_all
  have q2: "pools ?s2 p = Some ?q1" using G(3) q1 by simp
  let ?h = "put_flow_n p (unat fg) (fst ?g) ?s2"
  let ?s3 = "snd ?h" and ?q3 = "?q1\<lparr>freelist := rev (take (unat fg) (fst ?g)) @ freelist q, avail_desc := avail_desc q + fg\<rparr>"
  have H: "fc_inv N [] ((\<lambda>_. 0)(p := ?k - uint fg)) U ?s3" "moves ?s2 ?s3" "others p ?s2 ?s3" "pools ?s3 p = Some ?q3"
    using put_flow_n_spec [OF G(1) q2, of "unat fg"] G(4) by simp_all
  let ?s4 = "ol_tx_flow_pool_update env p n (diff - fg) 0 ?s3"
  have inf: "inflight ?s3 p = inflight s p" using G(2) H(2) by (simp add: moves_def) (simp add: inflight_def q(1) upd_pool_def)
  have ex: "overflow_desc q - ?tmp = 0 \<or> diff - fg = 0"
  proof (cases "overflow_desc q \<le> d0")
    case False
    then have "diff = 0" by (simp add: diff_def min_def)
    then show ?thesis using fg(1) by simp
  qed (simp add: min_def)
  have bal: "uint n + uint (overflow_desc q - ?tmp) = int (length (freelist ?q3)) + int (card (inflight ?s3 p)) + uint (diff - fg) + 0"
    unfolding inf C(3) using G(4) C(1,2) balancedD [OF I q(1)] fg(1) by (simp add: uint_minus_le)
  have U: "fc_inv N [] (((\<lambda>_. 0)(p := ?k - uint fg))(p := 0)) U ?s4" "resizes p ?s3 ?s4"
    by (rule update_inv [OF H(1,4) _ bal]; use ex q in auto)+
  have o: "((\<lambda>_. 0)(p := ?k - uint fg))(p := 0) = (\<lambda>_. 0)" by (simp add: fun_eq_iff)
  have e: "grow_pool env p n s = ?s4"
    by (simp only: grow_pool_def Let_def pool_of_some [OF q(1)] d0_def [symmetric] diff_def [symmetric] m1 fg_def [symmetric])
      (simp only: split_beta)
  show "fc_inv N [] (\<lambda>_. 0) U (grow_pool env p n s)" using U(1) unfolding e o .
  have r1: "resizes p s ?s1" by (rule resizes_upd [OF q(1)]) simp
  have r2: "resizes p ?s1 ?s2" by (rule resizes_moves [OF G(2) others_same [OF G(3)] q1])
  have r3: "resizes p ?s2 ?s3" by (rule resizes_moves [OF H(2,3) q2])
  show "resizes p s (grow_pool env p n s)" unfolding e
    by (rule resizes_trans [OF resizes_trans [OF resizes_trans [OF r1 r2] r3] U(2)])
qed

end
