(* ===== verification/Fc_Desc.thy ===== *)
theory Fc_Desc
  imports Fc_Resize
begin

text \<open>
  The resize handler, and the allocation and release of a descriptor, keep the invariant.
\<close>

section \<open>Resizing\<close>

lemma update_queue_state_inv:
  assumes I: "fc_inv N T off U s" and q: "pools s p = Some q" "pool_status q \<noteq> FLOW_POOL_INVALID"
  shows "fc_inv N T off U (ol_tx_flow_pool_update_queue_state p s)" "resizes p s (ol_tx_flow_pool_update_queue_state p s)"
proof -
  have st: "fc_inv N T off U (upd_pool p (\<lambda>q. q\<lparr>pool_status := st\<rparr>) s)" "resizes p s (upd_pool p (\<lambda>q. q\<lparr>pool_status := st\<rparr>) s)"
    if "st \<noteq> FLOW_POOL_INVALID" "st \<noteq> FLOW_POOL_INACTIVE" for st
    using upd_status_inv(1) [OF I q that] resizes_upd [OF q(1)] by simp_all
  have r: "resizes p s (pause_cb v a r t) \<longleftrightarrow> resizes p s t" for v a r t
    by (simp add: resizes_def others_def pool_of_def)
  show "fc_inv N T off U (ol_tx_flow_pool_update_queue_state p s)"
    using I q st(1) by (simp add: ol_tx_flow_pool_update_queue_state_def Let_def)
  have "resizes p s s" using q by (simp add: resizes_def)
  then show "resizes p s (ol_tx_flow_pool_update_queue_state p s)"
    using q st(2) by (simp add: ol_tx_flow_pool_update_queue_state_def Let_def r)
qed

lemma inc_ref_inv:
  assumes I: "fc_inv N T off U s" and q: "pools s p = Some q" "pool_status q \<noteq> FLOW_POOL_INVALID"
  shows "fc_inv N T off U (ol_tx_inc_pool_ref p s)"
proof -
  have "fc_inv N T (off(p := off p)) U (ol_tx_inc_pool_ref p s)" unfolding ol_tx_inc_pool_ref_def
    using balancedD [OF I q(1)] roleD [OF I q(1)] q(2) by (intro upd_inv [OF I q(1)]) (auto simp: role_def)
  then show ?thesis by simp
qed

lemma dec_ref_inv:
  assumes I: "fc_inv N T off U s" and q: "pools s p = Some q" "pool_status q \<noteq> FLOW_POOL_INVALID" "ref_cnt q = 2"
  shows "fc_inv N T off U (upd_pool p (\<lambda>q. q\<lparr>ref_cnt := ref_cnt q - 1\<rparr>) s)"
proof -
  have "fc_inv N T (off(p := off p)) U (upd_pool p (\<lambda>q. q\<lparr>ref_cnt := ref_cnt q - 1\<rparr>) s)"
    using balancedD [OF I q(1)] roleD [OF I q(1)] q(2,3) by (intro upd_inv [OF I q(1)]) (auto simp: role_def)
  then show ?thesis by simp
qed

text \<open>What a resize needs: an own identifier, and what it cannot take is noted.\<close>

definition resize_allowed :: "u8 \<Rightarrow> u16 \<Rightarrow> fc_state \<Rightarrow> bool" where
  "resize_allowed fid n s \<longleftrightarrow> fid \<noteq> INVALID_FLOW_ID \<and>
     (\<forall>p. fst (ol_tx_get_flow_pool fid s) = Some p \<longrightarrow> flow_pool_size (pool_of s p) \<le> n \<or> shrink_recorded n (pool_of s p))"

lemma resize_inv:
  assumes I: "fc_inv N [] (\<lambda>_. 0) U s" and q: "pools s p = Some q" "pool_status q \<noteq> FLOW_POOL_INVALID" "p \<in> U"
    and n: "flow_pool_size q \<le> n \<or> shrink_recorded n q"
  shows "fc_inv N [] (\<lambda>_. 0) U (ol_tx_flow_pool_resize env p n s) \<and> resizes p s (ol_tx_flow_pool_resize env p n s)"
proof -
  define t where "t = (if flow_pool_size q > n then shrink_pool env p n s else grow_pool env p n s)"
  have e: "ol_tx_flow_pool_resize env p n s = (if flow_pool_size q = n then s else ol_tx_flow_pool_update_queue_state p t)"
    using q by (simp add: ol_tx_flow_pool_resize_def Let_def t_def)
  show ?thesis
  proof (cases "flow_pool_size q = n")
    case True
    then show ?thesis unfolding e using I q by (simp add: resizes_def)
  next
    case False
    have t: "fc_inv N [] (\<lambda>_. 0) U t" "resizes p s t"
      using shrink_spec [OF I q(1,2)] grow_spec [OF I q(1,2)] n False by (auto simp: t_def not_less)
    obtain q' where q': "pools t p = Some q'" "pool_status q' \<noteq> FLOW_POOL_INVALID" using user_live [OF t(1) q(3)] by blast
    note Q = update_queue_state_inv [OF t(1) q']
    show ?thesis unfolding e using False Q(1) resizes_trans [OF t(2) Q(2)] by simp
  qed
qed

lemma resize_handler_ok:
  assumes ok: "fc_ok N s" and a: "resize_allowed fid n s"
  shows "\<exists>s'. ol_tx_flow_pool_resize_handler env fid n s = Some s' \<and> fc_ok N s'"
proof -
  let ?s0 = "s\<lparr>pool_stats := (pool_stats s)\<lparr>pool_resize_count := pool_resize_count (pool_stats s) + 1\<rparr>\<rparr>"
  have I: "fc_inv N [] (\<lambda>_. 0) (users ?s0) ?s0" and o: "ones ?s0" using ok by (simp_all add: fc_ok_def)
  note G = get_flow_pool_spec [OF I, of fid]
  have g: "fst (ol_tx_get_flow_pool fid ?s0) = fst (ol_tx_get_flow_pool fid s)"
    by (simp add: ol_tx_get_flow_pool_def find_pool_find pool_of_def)
  obtain r where r: "ol_tx_get_flow_pool fid ?s0 = (r, ?s0)" using G(1) by (metis prod.collapse)
  show ?thesis
  proof (cases r)
    case None
    then show ?thesis using r I o by (simp add: ol_tx_flow_pool_resize_handler_def Let_def fc_ok_def)
  next
    case (Some p)
    then obtain q where q: "pools ?s0 p = Some q" "flow_pool_id q = fid" using G(2) r by fastforce
    have gs: "fst (ol_tx_get_flow_pool fid s) = Some p" using g r Some by simp
    have al: "fid \<noteq> INVALID_FLOW_ID" "flow_pool_size q \<le> n \<or> shrink_recorded n q"
      using a gs q by (auto simp: resize_allowed_def)
    have st: "pool_status q \<noteq> FLOW_POOL_INVALID" using invalid_id [OF I q(1)] q(2) al(1) by simp
    let ?U = "insert p (users s)" and ?q1 = "q\<lparr>ref_cnt := ref_cnt q + 1\<rparr>"
    have I0: "fc_inv N [] (\<lambda>_. 0) ?U ?s0" using I by (rule fc_inv_users) (use q st in auto)
    let ?s1 = "ol_tx_inc_pool_ref p ?s0"
    have I1: "fc_inv N [] (\<lambda>_. 0) ?U ?s1" by (rule inc_ref_inv [OF I0 q(1) st])
    have q1: "pools ?s1 p = Some ?q1" and r1: "ref_cnt ?q1 = 2"
      using q o by (simp_all add: ol_tx_inc_pool_ref_def upd_pool_def ones_def)
    have n1: "flow_pool_size ?q1 \<le> n \<or> shrink_recorded n ?q1" using al(2) by (simp add: shrink_recorded_def shrink_diff_def)
    have st1: "pool_status ?q1 \<noteq> FLOW_POOL_INVALID" using st by simp
    let ?s2 = "ol_tx_flow_pool_resize env p n ?s1"
    have R: "fc_inv N [] (\<lambda>_. 0) ?U ?s2" "resizes p ?s1 ?s2" using resize_inv [OF I1 q1 st1 _ n1] by simp_all
    obtain q2 where q2: "pools ?s2 p = Some q2" "pool_status q2 \<noteq> FLOW_POOL_INVALID" using user_live [OF R(1), of p] by auto
    have r2: "ref_cnt q2 = 2" using R(2) q1 q2 r1 by (simp add: resizes_def)
    let ?f = "\<lambda>q. q\<lparr>ref_cnt := ref_cnt q - 1\<rparr>"
    let ?s3 = "upd_pool p ?f ?s2"
    have d: "ol_tx_dec_pool_ref p False ?s2 = Some ?s3"
      using q2 r2 by (simp add: ol_tx_dec_pool_ref_calls Let_def upd_pool_def)
    have I3: "fc_inv N [] (\<lambda>_. 0) ?U ?s3" by (rule dec_ref_inv [OF R(1) q2 r2])
    have u: "users ?s3 = users s" using R(2) q q2 by (simp add: users_def upd_pool_def resizes_def ol_tx_inc_pool_ref_def)
    have "fc_inv N [] (\<lambda>_. 0) (users ?s3) ?s3" using I3 by (rule fc_inv_users) (use u in auto)
    moreover have "ones ?s3"
      using R(2) o q q2 r2 by (auto simp: ones_def upd_pool_def resizes_def others_def ol_tx_inc_pool_ref_def split: if_splits)
    ultimately have "fc_ok N ?s3" by (simp add: fc_ok_def)
    then show ?thesis using r Some d by (simp add: ol_tx_flow_pool_resize_handler_def Let_def)
  qed
qed

section \<open>Allocation\<close>

text \<open>A descriptor of the temporary list goes into flight.\<close>

lemma launch_inv:
  assumes I: "fc_inv N (d # T) off U s" and q: "pools s p = Some q" and d: "desc_pool s d = Some p"
  shows "fc_inv N T (off(p := off p - 1)) U (s\<lparr>desc_vdev := x, desc_ref := (desc_ref s)(d := desc_ref s d + 1)\<rparr>)"
proof -
  let ?s = "s\<lparr>desc_vdev := x, desc_ref := (desc_ref s)(d := desc_ref s d + 1)\<rparr>"
  have z: "d < N" "desc_ref s d = 0" "d \<notin> spare T s" using fc_inv_parts(1) [OF I] by (auto simp: lists_ok_def spare_def)
  have sp: "spare (d # T) s = insert d (spare T ?s)" "spare T ?s = spare T s" by (auto simp: spare_def)
  have fd: "d \<notin> set (freelist q')" if "pools s r = Some q'" for r q' using fc_inv_freelist(4) [OF I that] unfolding sp by auto
  show ?thesis
  proof (rule fc_invI)
    show "lists_ok N T ?s" using fc_inv_parts(1) [OF I] z unfolding lists_ok_def sp by auto
    show "pool_list N T ?s r q'" if "pools ?s r = Some q'" for r q'
    proof -
      have r: "pools s r = Some q'" using that by simp
      show ?thesis using fc_inv_parts(2) [OF I r] fd [OF r] unfolding pool_list_def sp by (auto split: if_splits)
    qed
    show "home ?s y" if "y < N" "y \<notin> spare T ?s" for y
    proof (cases "y = d")
      case True
      then show ?thesis using z q d by (simp add: home_def)
    next
      case False
      then have "home s y" using fc_inv_parts(3) [OF I that(1)] that(2) unfolding sp by blast
      then show ?thesis using False by (auto simp: home_def split: option.splits)
    qed
    show "listed ?s" using fc_inv_parts(4) [OF I] by (simp add: listed_def)
    have "inflight ?s p = insert d (inflight s p)" using z d by (auto simp: inflight_def)
    moreover have "d \<notin> inflight s p" using z by (simp add: inflight_def)
    moreover have "inflight ?s r = inflight s r" if "r \<noteq> p" for r using d that by (auto simp: inflight_def)
    ultimately show "balanced (off(p := off p - 1)) ?s"
      using fc_inv_parts(5) [OF I] inflight_finite [OF I, of p] by (auto simp: balanced_def)
    show "roles U ?s" using fc_inv_parts(6) [OF I] by (simp add: roles_def)
  qed
qed

lemma alloc_ok:
  assumes ok: "fc_ok N s" and p: "pool \<in> insert None (Some ` users s)"
  shows "fc_ok N (snd (ol_tx_desc_alloc v pool s))"
proof (cases pool)
  case None
  then show ?thesis using ok by (simp add: ol_tx_desc_alloc_def fc_ok_def)
next
  case (Some p)
  have I: "fc_inv N [] (\<lambda>_. 0) (users s) s" and o: "ones s" using ok by (simp_all add: fc_ok_def)
  have pU: "p \<in> users s" using p Some by auto
  obtain q where q: "pools s p = Some q" "pool_status q \<noteq> FLOW_POOL_INVALID" using user_live [OF I pU] by blast
  show ?thesis
  proof (cases "avail_desc q = 0")
    case True
    let ?f = "\<lambda>q. q\<lparr>pkt_drop_no_desc := pkt_drop_no_desc q + 1\<rparr>"
    have e: "snd (ol_tx_desc_alloc v pool s) = upd_pool p ?f s" using q True by (simp add: ol_tx_desc_alloc_def Some Let_def)
    have "fc_inv N [] ((\<lambda>_. 0)(p := 0)) (users s) (upd_pool p ?f s)"
      using balancedD [OF I q(1)] roleD [OF I q(1)] q(2) by (intro upd_inv [OF I q(1)]) (auto simp: role_def)
    moreover have "((\<lambda>_. 0)(p := 0)) = (\<lambda>_. 0 :: int)" by auto
    moreover have "users (upd_pool p ?f s) = users s" "ones (upd_pool p ?f s)"
      using q o by (auto simp: users_def upd_pool_def ones_def)
    ultimately show ?thesis unfolding e fc_ok_def by simp
  next
    case False
    then have "freelist q \<noteq> []" using fc_inv_avail(2) [OF I q(1)] by (metis list.size(3) unat_eq_zero)
    then obtain d ds where f: "freelist q = d # ds" by (cases "freelist q") auto
    let ?s1 = "snd (ol_tx_get_desc_flow_pool p s)" and ?q1 = "q\<lparr>freelist := ds, avail_desc := avail_desc q - 1\<rparr>"
    note G = get_flow_inv [OF I q(1) f]
    have s1: "?s1 = s\<lparr>pools := (pools s)(p \<mapsto> ?q1)\<rparr>" using q f by (simp add: ol_tx_get_desc_flow_pool_def upd_pool_def)
    have q1: "pools ?s1 p = Some ?q1" "pool_status ?q1 \<noteq> FLOW_POOL_INVALID" using q by (simp_all add: s1)
    have dp: "desc_pool ?s1 d = Some p" using fc_inv_freelist(3) [OF I q(1), of d] f by (simp add: s1)
    let ?c = "\<lambda>s2. fc_inv N [d] ((\<lambda>_. 0)(p := 0 + 1)) (users s) s2 \<and> (\<exists>q2. pools s2 p = Some q2) \<and> desc_pool s2 = desc_pool ?s1 \<and>
      users s2 = users s \<and> ones s2"
    define s2 where "s2 = (if avail_desc ?q1 < stop_th ?q1 \<and> avail_desc ?q1 \<ge> stop_priority_th ?q1 \<and> pool_status ?q1 = FLOW_POOL_ACTIVE_UNPAUSED then
        pause_cb v WLAN_STOP_NON_PRIORITY_QUEUE WLAN_DATA_FLOW_CONTROL (upd_pool p (\<lambda>q. q\<lparr>pool_status := FLOW_POOL_NON_PRIO_PAUSED\<rparr>) ?s1)
      else if avail_desc ?q1 < stop_priority_th ?q1 \<and> pool_status ?q1 = FLOW_POOL_NON_PRIO_PAUSED then
        pause_cb v WLAN_NETIF_PRIORITY_QUEUE_OFF WLAN_DATA_FLOW_CONTROL_PRIORITY (upd_pool p (\<lambda>q. q\<lparr>pool_status := FLOW_POOL_ACTIVE_PAUSED\<rparr>) ?s1)
      else ?s1)"
    have c1: "?c ?s1" using G(2) q1 o q by (auto simp: s1 users_def ones_def)
    have r1: "ref_cnt q = 1" using o q(1) by (simp add: ones_def)
    have st: "?c (pause_cb v a r (upd_pool p (\<lambda>q. q\<lparr>pool_status := st\<rparr>) ?s1))"
      if "st \<noteq> FLOW_POOL_INVALID" "st \<noteq> FLOW_POOL_INACTIVE" for st a r
      using upd_status_inv(1) [OF G(2) q1 that] c1 q1 q(1) r1 by (auto simp: upd_pool_def users_def ones_def)
    have c2: "?c s2" using c1 st by (simp add: s2_def)
    let ?s3 = "s2\<lparr>desc_vdev := (desc_vdev s2)(d := Some v), desc_ref := (desc_ref s2)(d := desc_ref s2 d + 1)\<rparr>"
    have e: "snd (ol_tx_desc_alloc v pool s) = ?s3"
      using q False G(1) q1(1) by (simp add: ol_tx_desc_alloc_def Some Let_def split_beta s2_def)
    obtain q2 where "pools s2 p = Some q2" using c2 by blast
    then have "fc_inv N [] (((\<lambda>_. 0)(p := 0 + 1))(p := ((\<lambda>_. 0)(p := 0 + 1)) p - 1)) (users s) ?s3"
      using c2 dp by (intro launch_inv) auto
    moreover have "((\<lambda>_. 0)(p := 0 + 1))(p := ((\<lambda>_. 0)(p := 0 + 1)) p - 1) = (\<lambda>_. 0 :: int)" by auto
    moreover have "users ?s3 = users s" "ones ?s3" using c2 by (auto simp: users_def ones_def)
    ultimately show ?thesis unfolding e fc_ok_def by simp
  qed
qed


section \<open>Release of a descriptor\<close>

lemma land_inv:
  assumes I: "fc_inv N T off U s" and d: "desc_ref s d \<noteq> 0" "desc_pool s d = Some p"
  shows "fc_inv N (d # T) (off(p := off p + 1)) U (ol_tx_desc_free_common d s)"
proof -
  let ?s = "ol_tx_desc_free_common d s"
  have e: "?s = s\<lparr>desc_ref := (desc_ref s)(d := 0), desc_vdev := (desc_vdev s)(d := None)\<rparr>" by (simp add: ol_tx_desc_free_common_def)
  have z: "d < N" "d \<notin> spare T s" using fc_inv_parts(1) [OF I] d by (auto simp: lists_ok_def)
  have sp: "spare (d # T) ?s = insert d (spare T s)" by (auto simp: spare_def e)
  have fd: "d \<notin> set (freelist q')" if "pools s r = Some q'" for r q' using fc_inv_freelist(2) [OF I that] d by auto
  show ?thesis
  proof (rule fc_invI)
    have "d \<notin> set (tx_freelist s)" "d \<notin> set T" using z by (auto simp: spare_def)
    then show "lists_ok N (d # T) ?s" using fc_inv_parts(1) [OF I] z unfolding lists_ok_def sp by (auto simp: e)
    show "pool_list N (d # T) ?s r q'" if "pools ?s r = Some q'" for r q'
    proof -
      have r: "pools s r = Some q'" using that by (simp add: e)
      show ?thesis using fc_inv_parts(2) [OF I r] fd [OF r] unfolding pool_list_def sp by (auto simp: e split: if_splits)
    qed
    show "home ?s y" if "y < N" "y \<notin> spare (d # T) ?s" for y
    proof -
      have "home s y" "y \<noteq> d" using fc_inv_parts(3) [OF I that(1)] that(2) unfolding sp by blast+
      then show ?thesis by (auto simp: home_def e split: option.splits)
    qed
    show "listed ?s" using fc_inv_parts(4) [OF I] by (simp add: listed_def e)
    have i: "inflight s p = insert d (inflight ?s p)" "d \<notin> inflight ?s p" using d by (auto simp: inflight_def e)
    have "finite (inflight ?s p)" using inflight_finite [OF I, of p] i(1) by simp
    then have "card (inflight s p) = Suc (card (inflight ?s p))" unfolding i(1) using i(2) by simp
    moreover have "inflight ?s r = inflight s r" if "r \<noteq> p" for r using d that by (auto simp: inflight_def e)
    ultimately show "balanced (off(p := off p + 1)) ?s"
      using fc_inv_parts(5) [OF I] by (auto simp: balanced_def e)
    show "roles U ?s" using fc_inv_parts(6) [OF I] by (simp add: roles_def e)
  qed
qed

lemma free_status_inv:
  assumes I: "fc_inv N T off U s" and q: "pools s p = Some q"
  shows "fc_inv N T off U (free_status p s)" "moves s (free_status p s)"
proof -
  have st: "fc_inv N T off U (upd_pool p (\<lambda>q. q\<lparr>pool_status := st\<rparr>) (pause_cb v a r s)) \<and>
      moves s (upd_pool p (\<lambda>q. q\<lparr>pool_status := st\<rparr>) (pause_cb v a r s))"
    if "st \<noteq> FLOW_POOL_INVALID" "st \<noteq> FLOW_POOL_INACTIVE" "pool_status q \<noteq> FLOW_POOL_INVALID" for st v a r
  proof -
    have p: "fc_inv N T off U (pause_cb v a r s)" "pools (pause_cb v a r s) p = Some q" using I q by simp_all
    show ?thesis using upd_status_inv [OF p that(3,1,2)] moves_trans [OF moves_pause [OF moves_refl]] by blast
  qed
  show "fc_inv N T off U (free_status p s)" "moves s (free_status p s)"
    using I q st by (simp_all add: free_status_def Let_def)
qed

lemma update_free_spec:
  assumes I: "fc_inv N [d] ((\<lambda>_. 0)(p := 0 + 1)) U s" and q: "pools s p = Some q"
  shows "fc_inv N [] (\<lambda>_. 0) U (snd (ol_tx_update_free_desc_to_pool p d s))"
    "\<exists>q'. pools (snd (ol_tx_update_free_desc_to_pool p d s)) p = Some q' \<and> ref_cnt q' = ref_cnt q"
    "others p s (snd (ol_tx_update_free_desc_to_pool p d s))" "users (snd (ol_tx_update_free_desc_to_pool p d s)) = users s"
proof -
  have o: "((\<lambda>_. 0)(p := 0 + 1))(p := 0) = (\<lambda>_. 0 :: int)" by auto
  have "fc_inv N [] (\<lambda>_. 0) U (snd (ol_tx_update_free_desc_to_pool p d s)) \<and>
    (\<exists>q'. pools (snd (ol_tx_update_free_desc_to_pool p d s)) p = Some q' \<and> ref_cnt q' = ref_cnt q) \<and>
    others p s (snd (ol_tx_update_free_desc_to_pool p d s)) \<and> users (snd (ol_tx_update_free_desc_to_pool p d s)) = users s"
  proof (cases "overflow_desc q = 0")
    case True
    have "fc_inv N [] (((\<lambda>_. 0)(p := 0 + 1))(p := ((\<lambda>_. 0)(p := 0 + 1)) p - 1)) U (ol_tx_put_desc_flow_pool p d s)"
      by (rule put_flow_inv [OF I q])
    moreover have "((\<lambda>_. 0)(p := 0 + 1))(p := ((\<lambda>_. 0)(p := 0 + 1)) p - 1) = (\<lambda>_. 0 :: int)" by auto
    ultimately have "fc_inv N [] (\<lambda>_. 0) U (ol_tx_put_desc_flow_pool p d s)" by simp
    then show ?thesis using put_flow_step [OF I q] q True
      by (simp add: ol_tx_update_free_desc_to_pool_def users_def moves_def)
  next
    case False
    let ?s1 = "ol_tx_put_desc_global_pool d s" and ?f = "\<lambda>q. q\<lparr>overflow_desc := overflow_desc q - 1\<rparr>"
    have I1: "fc_inv N [] ((\<lambda>_. 0)(p := 0 + 1)) U ?s1" by (rule put_global_inv [OF I])
    have q1: "pools ?s1 p = Some q" using q by (simp add: ol_tx_put_desc_global_pool_def)
    have "uint (overflow_desc q - 1) = uint (overflow_desc q) - uint (1 :: u16)"
      using False by (intro uint_minus_le) (simp add: word_le_nat_alt unat_gt_0 Suc_le_eq)
    then have "fc_inv N [] (((\<lambda>_. 0)(p := 0 + 1))(p := 0)) U (upd_pool p ?f ?s1)"
      using balancedD [OF I1 q1] roleD [OF I1 q1] False fc_inv_parts(6) [OF I1] q1
      by (intro upd_inv [OF I1 q1]) (auto simp: role_def roles_def)
    then have "fc_inv N [] (\<lambda>_. 0) U (upd_pool p ?f ?s1)" unfolding o .
    then show ?thesis using q False
      by (simp add: ol_tx_update_free_desc_to_pool_def users_def upd_pool_def ol_tx_put_desc_global_pool_def others_def)
  qed
  then show "fc_inv N [] (\<lambda>_. 0) U (snd (ol_tx_update_free_desc_to_pool p d s))"
    "\<exists>q'. pools (snd (ol_tx_update_free_desc_to_pool p d s)) p = Some q' \<and> ref_cnt q' = ref_cnt q"
    "others p s (snd (ol_tx_update_free_desc_to_pool p d s))" "users (snd (ol_tx_update_free_desc_to_pool p d s)) = users s"
    by blast+
qed

lemma fc_ok_sheds:
  assumes "fc_inv N [] (\<lambda>_. 0) (users s) s'" "ones s" "sheds P s s'"
  shows "fc_ok N s'"
  using assms users_sheds [OF assms(3)] ones_sheds [OF assms] by (simp add: fc_ok_def)

lemma update_free_ref: "desc_ref (snd (ol_tx_update_free_desc_to_pool p d s)) = desc_ref s"
  by (simp add: ol_tx_update_free_desc_to_pool_def ol_tx_put_desc_flow_pool_def ol_tx_put_desc_global_pool_def upd_pool_def fault_def
      split: option.split)

lemma free_ok:
  assumes ok: "fc_ok N s" and d: "desc_ref s d \<noteq> 0"
  shows "\<exists>s'. ol_tx_desc_free d s = Some s' \<and> fc_ok N s' \<and> desc_ref s' = (desc_ref s)(d := 0)"
proof -
  have I: "fc_inv N [] (\<lambda>_. 0) (users s) s" and o: "ones s" using ok by (simp_all add: fc_ok_def)
  have "d < N" "d \<notin> spare [] s" using fc_inv_parts(1) [OF I] d by (auto simp: lists_ok_def)
  then have "home s d" using fc_inv_parts(3) [OF I] by blast
  then obtain p q where p: "desc_pool s d = Some p" "pools s p = Some q" by (auto simp: home_def split: option.splits)
  let ?s1 = "ol_tx_desc_free_common d s"
  have I1: "fc_inv N [d] ((\<lambda>_. 0)(p := 0 + 1)) (users s) ?s1" by (rule land_inv [OF I d p(1)])
  have q1: "pools ?s1 p = Some q" "users ?s1 = users s" and p1: "pools ?s1 = pools s"
    using p by (simp_all add: ol_tx_desc_free_common_def users_def)
  let ?r = "ol_tx_update_free_desc_to_pool p d ?s1"
  let ?s2 = "snd ?r"
  note F = update_free_spec [OF I1 q1(1)]
  have rf: "desc_ref ?s2 = (desc_ref s)(d := 0)" by (simp add: update_free_ref ol_tx_desc_free_common_def)
  obtain q2 where q2: "pools ?s2 p = Some q2" "ref_cnt q2 = ref_cnt q" using F(2) by blast
  have "ref_cnt q' = 1" if "pools ?s2 x = Some q'" for x q'
    using that o F(3) p(2) q2 p1 by (cases "x = p") (auto simp: ones_def others_def)
  then have o2: "ones ?s2" by (simp add: ones_def)
  have I2: "fc_inv N [] (\<lambda>_. 0) (users ?s2) ?s2" using F(1,4) q1(2) by simp
  have e: "ol_tx_desc_free d s =
    (if pool_status q2 = FLOW_POOL_INVALID \<and> avail_desc q2 = flow_pool_size q2 then ol_tx_free_invalid_flow_pool p ?s2
     else if fst ?r then ol_tx_distribute_descs_to_deficient_pools_from_global_pool (free_status p ?s2) else Some (free_status p ?s2))"
    by (simp only: ol_tx_desc_free_def p(1) option.case touch_some [OF p(2)] Let_def split_beta pool_of_some [OF q2(1)])
  show ?thesis
  proof (cases "pool_status q2 = FLOW_POOL_INVALID \<and> avail_desc q2 = flow_pool_size q2")
    case True
    then have c: "complete ?s2 p" using q2 by (simp add: complete_def)
    note H = free_invalid_head_spec [OF I2 c refl]
    let ?s3 = "snd (free_invalid_head p ?s2)"
    obtain s4 where s4: "ol_tx_dec_pool_ref p False ?s3 = Some s4" "fc_inv N [] (\<lambda>_. 0) (users ?s2) s4" "sheds {p} ?s3 s4"
      using release_complete H by blast
    have "\<And>q. pools ?s3 p = Some q \<Longrightarrow> pool_status q = FLOW_POOL_INVALID" using H by (auto simp: complete_def)
    then have sh: "sheds {p} ?s2 s4" using H s4(3) sheds_chain [of "{p}" ?s2 ?s3 "{p}" s4] by simp
    have "fc_ok N s4" by (rule fc_ok_sheds [OF s4(2) o2 sh])
    moreover have "desc_ref s4 = (desc_ref s)(d := 0)" using sh rf by (simp add: sheds_def)
    moreover have "ol_tx_desc_free d s = Some s4" using True H s4(1) unfolding e by (simp add: ol_tx_free_invalid_flow_pool_def)
    ultimately show ?thesis by blast
  next
    case False
    note S = free_status_inv [OF I2 q2(1)]
    have oS: "fc_ok N (free_status p ?s2)" by (rule fc_ok_sheds [OF S(1) o2 sheds_moves [OF S(2)]])
    have e2: "ol_tx_desc_free d s = (if fst ?r then ol_tx_distribute_descs_to_deficient_pools_from_global_pool (free_status p ?s2) else Some (free_status p ?s2))"
      by (simp only: e False if_False)
    obtain s4 where s4: "ol_tx_distribute_descs_to_deficient_pools_from_global_pool (free_status p ?s2) = Some s4"
      "fc_inv N [] (\<lambda>_. 0) (users (free_status p ?s2)) s4" "sheds {} (free_status p ?s2) s4"
      using global_pool_returns oS unfolding fc_ok_def by blast
    have k4: "fc_ok N s4" by (rule fc_ok_sheds [OF s4(2) _ s4(3)]) (use oS in \<open>simp add: fc_ok_def\<close>)
    have rS: "desc_ref (free_status p ?s2) = (desc_ref s)(d := 0)" using S(2) rf by (simp add: moves_def)
    then have r4: "desc_ref s4 = (desc_ref s)(d := 0)" using s4(3) by (simp add: sheds_def)
    show ?thesis unfolding e2 using s4(1) oS k4 rS r4 by (cases "fst ?r") auto
  qed
qed


section \<open>What a sender sees\<close>

text \<open>The descriptors in flight.\<close>

definition busy :: "fc_state \<Rightarrow> nat set" where
  "busy s = {d. desc_ref s d \<noteq> 0}"

text \<open>The value of an allocation from a pool with descriptors.\<close>

lemma alloc_some:
  assumes q: "pools s p = Some q" "freelist q = d # ds" "avail_desc q \<noteq> 0"
  shows "fst (ol_tx_desc_alloc v (Some p) s) = Some d"
    "desc_ref (snd (ol_tx_desc_alloc v (Some p) s)) = (desc_ref s)(d := desc_ref s d + 1)"
  using q by (simp_all add: ol_tx_desc_alloc_def ol_tx_get_desc_flow_pool_def upd_pool_def Let_def pause_cb_def)

lemma alloc_none:
  assumes "pools s p = Some q" "avail_desc q = 0"
  shows "fst (ol_tx_desc_alloc v (Some p) s) = None" "desc_ref (snd (ol_tx_desc_alloc v (Some p) s)) = desc_ref s"
  using assms by (simp_all add: ol_tx_desc_alloc_def upd_pool_def Let_def)

lemma alloc_busy:
  assumes ok: "fc_ok N s" and p: "pool \<in> insert None (Some ` users s)"
  shows "case fst (ol_tx_desc_alloc v pool s) of None \<Rightarrow> busy (snd (ol_tx_desc_alloc v pool s)) = busy s
    | Some d \<Rightarrow> d \<notin> busy s \<and> busy (snd (ol_tx_desc_alloc v pool s)) = insert d (busy s)"
proof (cases pool)
  case None
  then show ?thesis by (simp add: ol_tx_desc_alloc_def busy_def)
next
  case (Some p)
  have I: "fc_inv N [] (\<lambda>_. 0) (users s) s" using ok by (simp add: fc_ok_def)
  obtain q where q: "pools s p = Some q" using user_live [OF I, of p] assms(2) Some by auto
  show ?thesis
  proof (cases "avail_desc q = 0")
    case True
    then show ?thesis using alloc_none [OF q True] Some by (simp add: busy_def)
  next
    case False
    then have "freelist q \<noteq> []" using fc_inv_avail(2) [OF I q] by (metis list.size(3) unat_eq_zero)
    then obtain d ds where f: "freelist q = d # ds" by (cases "freelist q") auto
    have "desc_ref s d = 0" using fc_inv_freelist(2) [OF I q, of d] f by simp
    then show ?thesis using alloc_some [OF q f False] Some by (auto simp: busy_def)
  qed
qed

lemma free_busy:
  assumes "fc_ok N s" "d \<in> busy s"
  shows "\<exists>s'. ol_tx_desc_free d s = Some s' \<and> fc_ok N s' \<and> busy s' = busy s - {d}"
  using free_ok [OF assms(1), of d] assms(2) by (fastforce simp: busy_def)

end
