(* ===== verification/Fc_Steps.thy ===== *)
theory Fc_Steps
  imports Fc_Desc
begin

text \<open>
  Runs of the pools: the messages of the firmware, and the descriptors of frames that are sent and
  completed, in any order, from the start of the device.  A run that keeps the contracts of
  \<open>fc_allowed\<close> keeps the invariant.
\<close>

section \<open>Steps\<close>

datatype fc_op =
    Flow_map u8 htt_flow_type u8 u16
  | Flow_unmap u8 htt_flow_type u8
  | Flow_resize u8 u16
  | Desc_alloc u8 bool
  | Desc_free nat

fun fc_step :: "fc_env \<Rightarrow> fc_op \<Rightarrow> fc_state \<Rightarrow> fc_state option" where
  "fc_step env (Flow_map v type fid n) s = ol_tx_flow_pool_map_handler env v type fid n s"
| "fc_step env (Flow_unmap v type fid) s = ol_tx_flow_pool_unmap_handler env v type fid s"
| "fc_step env (Flow_resize fid n) s = ol_tx_flow_pool_resize_handler env fid n s"
| "fc_step env (Desc_alloc v mgmt) s = Some (snd (ol_tx_desc_alloc_wrapper v mgmt s))"
| "fc_step env (Desc_free d) s = ol_tx_desc_free d s"

fun fc_allowed :: "fc_env \<Rightarrow> fc_op \<Rightarrow> fc_state \<Rightarrow> bool" where
  "fc_allowed env (Flow_map v type fid n) s = (fid \<noteq> INVALID_FLOW_ID)"
| "fc_allowed env (Flow_unmap v type fid) s = unmap_allowed env v fid s"
| "fc_allowed env (Flow_resize fid n) s = resize_allowed fid n s"
| "fc_allowed env (Desc_alloc v mgmt) s = True"
| "fc_allowed env (Desc_free d) s = (desc_ref s d \<noteq> 0)"

text \<open>The device at its start: every descriptor is on the global list.\<close>

definition fc_init :: "nat \<Rightarrow> fc_state" where
  "fc_init N = \<lparr>pools = Map.empty, next_pool = 0, flow_pool_list = [], tx_freelist = [0..<N], num_free = of_nat N, num_invalid_bin = 0,
     desc_pool = Map.empty, desc_ref = (\<lambda>_. 0), desc_vdev = Map.empty, vdev_pool = Map.empty, mgmt_pool = None,
     pool_stats = \<lparr>pool_map_count = 0, pool_unmap_count = 0, pool_resize_count = 0, pkt_drop_no_pool = 0\<rparr>,
     fc_log = [], fc_fault = False, fc_assert = False\<rparr>"

inductive fc_reachable :: "nat \<Rightarrow> fc_state \<Rightarrow> bool" for N where
  fc_start: "N < 2 ^ 16 \<Longrightarrow> fc_reachable N (ol_tx_register_flow_control env mgmt_over_wmi (fc_init N))"
| fc_next: "fc_reachable N s \<Longrightarrow> fc_allowed env op s \<Longrightarrow> fc_step env op s = Some s' \<Longrightarrow> fc_reachable N s'"

section \<open>The invariant of runs\<close>

lemma init_inv: "N < 2 ^ 16 \<Longrightarrow> fc_inv N [] (\<lambda>_. 0) {} (fc_init N)"
  by (rule fc_invI) (simp_all add: fc_init_def lists_ok_def spare_def listed_def balanced_def roles_def atLeast0LessThan)

lemma register_ok:
  assumes "N < 2 ^ 16"
  shows "fc_ok N (ol_tx_register_flow_control env mgmt_over_wmi (fc_init N))"
proof -
  have l: "(fc_init N)\<lparr>flow_pool_list := []\<rparr> = fc_init N" by (simp add: fc_init_def)
  have u: "users (fc_init N) = {}" "ones (fc_init N)" by (simp_all add: users_def fc_init_def ones_def)
  note I = init_inv [OF assms]
  show ?thesis
  proof (cases mgmt_over_wmi)
    case True
    then show ?thesis using I u by (simp add: ol_tx_register_flow_control_def l fc_ok_def)
  next
    case False
    let ?r = "ol_tx_create_flow_pool env TX_FLOW_MGMT_POOL_ID TX_FLOW_MGMT_POOL_SIZE (fc_init N)"
    let ?s = "(snd ?r)\<lparr>mgmt_pool := fst ?r\<rparr>"
    have e: "ol_tx_register_flow_control env mgmt_over_wmi (fc_init N) = ?s"
      using False by (simp add: ol_tx_register_flow_control_def l Let_def split_beta)
    show ?thesis
    proof (cases "malloc_ok env")
      case True
      note C = create_spec [OF I True, of TX_FLOW_MGMT_POOL_ID TX_FLOW_MGMT_POOL_SIZE]
      have us: "users ?s = {next_pool (fc_init N)}" using C(1,5) by (simp add: users_def) (simp add: fc_init_def)
      have "fc_inv N [] (\<lambda>_. 0) (users ?s) (snd ?r)" using C(2) by (rule fc_inv_users) (use us C(3) in auto)
      then have "fc_inv N [] (\<lambda>_. 0) (users ?s) ?s" by simp
      moreover have "pools (fc_init N) x = None" for x by (simp add: fc_init_def)
      then have "ones ?s" using C(3,4) by (auto simp: ones_def others_def) (metis option.distinct(1) option.inject)
      ultimately show ?thesis unfolding e fc_ok_def by simp
    next
      case False
      then have "?s = fc_init N" by (simp add: ol_tx_create_flow_pool_def) (simp add: fc_init_def)
      then show ?thesis unfolding e using I u by (simp add: fc_ok_def)
    qed
  qed
qed

lemma wrapper_pool: "(if mgmt then mgmt_pool s else vdev_pool s v) \<in> insert None (Some ` users s)"
  by (cases "if mgmt then mgmt_pool s else vdev_pool s v") (auto simp: users_def ran_def split: if_splits)

lemma fc_step_ok:
  assumes ok: "fc_ok N s" and a: "fc_allowed env op s"
  shows "\<exists>s'. fc_step env op s = Some s' \<and> fc_ok N s'"
proof (cases op)
  case (Desc_alloc v mgmt)
  show ?thesis using alloc_ok [OF ok wrapper_pool] by (simp add: Desc_alloc ol_tx_desc_alloc_wrapper_def)
next
  case (Desc_free d)
  then show ?thesis using ok a free_ok [of N s d] by auto
qed (use ok a map_handler_ok unmap_handler_ok resize_handler_ok in simp_all)

lemma fc_reachable_inv: "fc_reachable N s \<Longrightarrow> fc_ok N s"
proof (induction rule: fc_reachable.induct)
  case (fc_start env mgmt_over_wmi)
  then show ?case by (rule register_ok)
next
  case (fc_next s env op s')
  then show ?case using fc_step_ok [of N s env op] by auto
qed

section \<open>Lists of steps\<close>

fun fc_run :: "(fc_env \<times> fc_op) list \<Rightarrow> fc_state \<Rightarrow> fc_state option" where
  "fc_run [] s = Some s"
| "fc_run ((env, op) # l) s = (case fc_step env op s of None \<Rightarrow> None | Some s' \<Rightarrow> fc_run l s')"

fun fc_run_allowed :: "(fc_env \<times> fc_op) list \<Rightarrow> fc_state \<Rightarrow> bool" where
  "fc_run_allowed [] s = True"
| "fc_run_allowed ((env, op) # l) s = (fc_allowed env op s \<and> (case fc_step env op s of None \<Rightarrow> False | Some s' \<Rightarrow> fc_run_allowed l s'))"

lemma fc_run_reachable:
  "fc_reachable N s \<Longrightarrow> fc_run_allowed l s \<Longrightarrow> fc_run l s = Some s' \<Longrightarrow> fc_reachable N s'"
proof (induction l arbitrary: s)
  case (Cons a l)
  then show ?case by (cases a) (auto split: option.splits dest: fc_next)
qed simp

text \<open>The frames of \<open>ds\<close> complete, one after the other.\<close>

fun complete_all :: "nat list \<Rightarrow> fc_state \<Rightarrow> fc_state option" where
  "complete_all [] s = Some s"
| "complete_all (d # ds) s = (case ol_tx_desc_free d s of None \<Rightarrow> None | Some s' \<Rightarrow> complete_all ds s')"

section \<open>The lists of a state\<close>

definition all_free :: "fc_state \<Rightarrow> nat list" where
  "all_free s = tx_freelist s @ concat (map (\<lambda>p. freelist (pool_of s p)) (flow_pool_list s))"

lemma distinct_concat_map:
  assumes "distinct l" "\<And>x. x \<in> set l \<Longrightarrow> distinct (f x)" "\<And>x y. x \<in> set l \<Longrightarrow> y \<in> set l \<Longrightarrow> x \<noteq> y \<Longrightarrow> set (f x) \<inter> set (f y) = {}"
  shows "distinct (concat (map f l))"
  using assms
proof (induction l)
  case (Cons a l)
  then have "set (f a) \<inter> set (f y) = {}" if "y \<in> set l" for y using that by auto
  then show ?case using Cons by auto
qed simp

lemma all_free_inv:
  assumes I: "fc_inv N [] (\<lambda>_. 0) U s"
  shows "distinct (all_free s)" "set (all_free s) \<inter> {d. desc_ref s d \<noteq> 0} = {}" "set (all_free s) \<union> {d. desc_ref s d \<noteq> 0} = {..<N}"
proof -
  have l: "distinct (flow_pool_list s)" "set (flow_pool_list s) = dom (pools s)" using fc_inv_parts(4) [OF I] by (simp_all add: listed_def)
  have pl: "distinct (freelist (pool_of s p))" "\<And>d. d \<in> set (freelist (pool_of s p)) \<Longrightarrow>
      d < N \<and> desc_ref s d = 0 \<and> desc_pool s d = Some p \<and> d \<notin> set (tx_freelist s)" if p: "p \<in> set (flow_pool_list s)" for p
  proof -
    obtain q where q: "pools s p = Some q" using p l(2) by auto
    show "distinct (freelist (pool_of s p))" using fc_inv_parts(2) [OF I q] q by (simp add: pool_list_def)
    show "d < N \<and> desc_ref s d = 0 \<and> desc_pool s d = Some p \<and> d \<notin> set (tx_freelist s)" if "d \<in> set (freelist (pool_of s p))" for d
      using fc_inv_freelist [OF I q, of d] that q by (simp add: spare_def)
  qed
  have g: "distinct (tx_freelist s)" "\<And>d. d \<in> set (tx_freelist s) \<Longrightarrow> d < N \<and> desc_ref s d = 0" "\<And>d. desc_ref s d \<noteq> 0 \<Longrightarrow> d < N"
    using fc_inv_parts(1) [OF I] by (auto simp: lists_ok_def spare_def)
  have "distinct (concat (map (\<lambda>p. freelist (pool_of s p)) (flow_pool_list s)))"
    using l(1) pl by (intro distinct_concat_map) (auto, metis option.inject)
  then show "distinct (all_free s)" using g(1) pl(2) by (auto simp: all_free_def)
  show "set (all_free s) \<inter> {d. desc_ref s d \<noteq> 0} = {}" using g(2) pl(2) by (auto simp: all_free_def)
  have "d \<in> set (all_free s) \<union> {d. desc_ref s d \<noteq> 0}" if d: "d < N" for d
  proof (cases "d \<in> set (tx_freelist s)")
    case False
    then have "home s d" using fc_inv_parts(3) [OF I d] by (simp add: spare_def)
    then obtain p q where "desc_pool s d = Some p" "pools s p = Some q" "desc_ref s d \<noteq> 0 \<or> d \<in> set (freelist q)"
      by (auto simp: home_def split: option.splits)
    then show ?thesis using l(2) by (force simp: all_free_def)
  qed (simp add: all_free_def)
  then have "{..<N} \<subseteq> set (all_free s) \<union> {d. desc_ref s d \<noteq> 0}" by blast
  moreover have "set (all_free s) \<union> {d. desc_ref s d \<noteq> 0} \<subseteq> {..<N}" using g(2,3) pl(2) by (auto simp: all_free_def)
  ultimately show "set (all_free s) \<union> {d. desc_ref s d \<noteq> 0} = {..<N}" by simp
qed

lemma total_free_loop:
  "set l \<subseteq> dom (pools s) \<Longrightarrow> fold (\<lambda>p (t, s). (t + ucast (avail_desc (pool_of s p)), touch p s)) l (t, s) =
     (t + sum_list (map (\<lambda>p. ucast (avail_desc (pool_of s p))) l), s)"
  by (induction l arbitrary: t) (auto simp: touch_def ac_simps)

end
