(* ===== verification/Fc_Live.thy ===== *)
theory Fc_Live
  imports Fc_Steps "HOL-Library.Multiset"
begin

text \<open>
  Completed frames and the queues of an interface, the life of a pool from its mapping to its
  unmapping, and the end of the device.
\<close>

section \<open>A completed frame\<close>

definition next_status :: "ol_tx_flow_pool_t \<Rightarrow> flow_pool_status" where
  "next_status q =
     (if pool_status q = FLOW_POOL_ACTIVE_PAUSED \<and> avail_desc q > start_priority_th q then FLOW_POOL_NON_PRIO_PAUSED
      else if pool_status q = FLOW_POOL_NON_PRIO_PAUSED \<and> avail_desc q > start_th q then FLOW_POOL_ACTIVE_UNPAUSED
      else pool_status q)"

lemma free_status_pool:
  assumes q: "pools s p = Some q"
  shows "pools (free_status p s) p = Some (q\<lparr>pool_status := next_status q\<rparr>)" "inflight (free_status p s) = inflight s"
    "\<exists>evs. fc_log (free_status p s) = fc_log s @ evs \<and>
       (pool_status q = FLOW_POOL_NON_PRIO_PAUSED \<longrightarrow> next_status q = FLOW_POOL_ACTIVE_UNPAUSED \<longrightarrow>
          Pause_cb (member_flow_id q) WLAN_WAKE_NON_PRIORITY_QUEUE WLAN_DATA_FLOW_CONTROL \<in> set evs)"
proof -
  show "pools (free_status p s) p = Some (q\<lparr>pool_status := next_status q\<rparr>)"
    using q by (auto simp: free_status_def next_status_def Let_def upd_pool_def pause_cb_def)
  show "inflight (free_status p s) = inflight s"
    using q by (auto simp: free_status_def Let_def upd_pool_def inflight_def fun_eq_iff)
  show "\<exists>evs. fc_log (free_status p s) = fc_log s @ evs \<and>
       (pool_status q = FLOW_POOL_NON_PRIO_PAUSED \<longrightarrow> next_status q = FLOW_POOL_ACTIVE_UNPAUSED \<longrightarrow>
          Pause_cb (member_flow_id q) WLAN_WAKE_NON_PRIORITY_QUEUE WLAN_DATA_FLOW_CONTROL \<in> set evs)"
    using q by (auto simp: free_status_def next_status_def Let_def upd_pool_def pause_cb_def)
qed

lemma free_step:
  assumes I: "fc_inv N [] (\<lambda>_. 0) U s" and q: "pools s p = Some q" "pool_status q \<noteq> FLOW_POOL_INVALID" "overflow_desc q = 0"
    and d: "d \<in> inflight s p"
  defines "q1 \<equiv> q\<lparr>freelist := d # freelist q, avail_desc := avail_desc q + 1\<rparr>"
  shows "\<exists>s'. ol_tx_desc_free d s = Some s' \<and> fc_inv N [] (\<lambda>_. 0) U s' \<and> pools s' p = Some (q1\<lparr>pool_status := next_status q1\<rparr>) \<and>
    inflight s' p = inflight s p - {d} \<and>
    (\<exists>evs. fc_log s' = fc_log s @ evs \<and>
       (pool_status q = FLOW_POOL_NON_PRIO_PAUSED \<longrightarrow> next_status q1 = FLOW_POOL_ACTIVE_UNPAUSED \<longrightarrow>
          Pause_cb (member_flow_id q) WLAN_WAKE_NON_PRIORITY_QUEUE WLAN_DATA_FLOW_CONTROL \<in> set evs))"
proof -
  have d': "desc_ref s d \<noteq> 0" "desc_pool s d = Some p" using d by (auto simp: inflight_def)
  let ?s1 = "ol_tx_desc_free_common d s"
  have I1: "fc_inv N [d] ((\<lambda>_. 0)(p := 0 + 1)) U ?s1" by (rule land_inv [OF I d'])
  have p1: "pools ?s1 p = Some q" using q by (simp add: ol_tx_desc_free_common_def)
  let ?s2 = "ol_tx_put_desc_flow_pool p d ?s1"
  have "fc_inv N [] (((\<lambda>_. 0)(p := 0 + 1))(p := ((\<lambda>_. 0)(p := 0 + 1)) p - 1)) U ?s2" by (rule put_flow_inv [OF I1 p1])
  moreover have "((\<lambda>_. 0)(p := 0 + 1))(p := ((\<lambda>_. 0)(p := 0 + 1)) p - 1) = (\<lambda>_. 0 :: int)" by auto
  ultimately have I2: "fc_inv N [] (\<lambda>_. 0) U ?s2" by simp
  note st = put_flow_step [OF I1 p1]
  have p2: "pools ?s2 p = Some q1" using st(1) by (simp add: q1_def)
  have "inflight ?s2 p = inflight ?s1 p" using st(2) by (simp add: moves_def)
  also have "\<dots> = inflight s p - {d}" by (auto simp: inflight_def ol_tx_desc_free_common_def)
  finally have in2: "inflight ?s2 p = inflight s p - {d}" .
  have l2: "fc_log ?s2 = fc_log s" using p1 by (simp add: ol_tx_put_desc_flow_pool_def upd_pool_def ol_tx_desc_free_common_def)
  have e: "ol_tx_desc_free d s = Some (free_status p ?s2)"
    using q d' p1 p2 by (simp add: ol_tx_desc_free_def Let_def ol_tx_update_free_desc_to_pool_def q1_def)
  show ?thesis unfolding e
    using free_status_inv(1) [OF I2 p2] free_status_pool [OF p2] in2 l2 by (simp add: q1_def)
qed

section \<open>All frames complete\<close>

text \<open>How many more completions a pool needs at most before its queues run.\<close>

fun pending :: "flow_pool_status \<Rightarrow> nat" where
  "pending FLOW_POOL_ACTIVE_PAUSED = 2"
| "pending FLOW_POOL_NON_PRIO_PAUSED = 1"
| "pending _ = 0"

definition room :: "ol_tx_flow_pool_t \<Rightarrow> nat" where
  "room q = unat (flow_pool_size q) - unat (deficient_desc q)"

lemma avail_room:
  assumes I: "fc_inv N [] (\<lambda>_. 0) U s" and q: "pools s p = Some q" "overflow_desc q = 0"
  shows "unat (avail_desc q) + card (inflight s p) = room q"
proof -
  have e: "int (unat (flow_pool_size q)) = int (length (freelist q)) + int (card (inflight s p)) + int (unat (deficient_desc q))"
    using balancedD [OF I q(1)] q(2) by (simp add: uint_nat [symmetric])
  have "unat (flow_pool_size q) = length (freelist q) + card (inflight s p) + unat (deficient_desc q)" using e by linarith
  then show ?thesis using fc_inv_avail(2) [OF I q(1)] by (simp add: room_def)
qed

lemma drain:
  assumes "fc_inv N [] (\<lambda>_. 0) U s" "pools s p = Some q" "pool_status q \<noteq> FLOW_POOL_INVALID" "overflow_desc q = 0"
    "unat (start_th q) < room q" "unat (start_priority_th q) + 1 < room q"
    "distinct ds" "set ds = inflight s p" "pending (pool_status q) \<le> length ds"
  shows "\<exists>s' q' evs. complete_all ds s = Some s' \<and> pools s' p = Some q' \<and> pool_status q' = FLOW_POOL_ACTIVE_UNPAUSED \<and>
    unat (avail_desc q') = room q \<and> fc_log s' = fc_log s @ evs \<and>
    (pool_status q \<noteq> FLOW_POOL_ACTIVE_UNPAUSED \<longrightarrow>
      Pause_cb (member_flow_id q) WLAN_WAKE_NON_PRIORITY_QUEUE WLAN_DATA_FLOW_CONTROL \<in> set evs)"
  using assms
proof (induction ds arbitrary: s q)
  case Nil
  then have "inflight s p = {}" by simp
  then have "unat (avail_desc q) = room q" using avail_room [OF Nil.prems(1,2,4)] by simp
  moreover have "pool_status q = FLOW_POOL_ACTIVE_UNPAUSED"
    using Nil.prems(3,9) roleD [OF Nil.prems(1,2)] by (cases "pool_status q") (auto simp: role_def)
  ultimately show ?case using Nil.prems(2) by auto
next
  case (Cons d ds)
  let ?q1 = "q\<lparr>freelist := d # freelist q, avail_desc := avail_desc q + 1\<rparr>"
  let ?q2 = "?q1\<lparr>pool_status := next_status ?q1\<rparr>"
  have "d \<in> inflight s p" using Cons.prems(8) by auto
  from free_step [OF Cons.prems(1-4) this] obtain s' evs where
    s': "ol_tx_desc_free d s = Some s'" "fc_inv N [] (\<lambda>_. 0) U s'" "pools s' p = Some ?q2" "inflight s' p = inflight s p - {d}"
      "fc_log s' = fc_log s @ evs" and
    wake: "pool_status q = FLOW_POOL_NON_PRIO_PAUSED \<Longrightarrow> next_status ?q1 = FLOW_POOL_ACTIVE_UNPAUSED \<Longrightarrow>
      Pause_cb (member_flow_id q) WLAN_WAKE_NON_PRIORITY_QUEUE WLAN_DATA_FLOW_CONTROL \<in> set evs" by blast
  have i: "set ds = inflight s' p" using Cons.prems(7,8) s'(4) by auto
  have c: "card (inflight s' p) = length ds" using i Cons.prems(7) by (metis distinct.simps(2) distinct_card)
  have rm: "room ?q2 = room q" by (simp add: room_def)
  have av: "unat (avail_desc q + 1) + length ds = room q" using avail_room [OF s'(2,3)] Cons.prems(4) c rm by simp
  have st: "pool_status ?q2 \<noteq> FLOW_POOL_INVALID" using Cons.prems(3) by (simp add: next_status_def)
  have pe: "pending (pool_status ?q2) \<le> length ds"
    using Cons.prems(3,5,6,9) av by (cases "pool_status q") (auto simp: next_status_def word_less_nat_alt)
  have ov: "overflow_desc ?q2 = 0" using Cons.prems(4) by simp
  have th: "unat (start_th ?q2) < room ?q2" "unat (start_priority_th ?q2) + 1 < room ?q2" unfolding rm using Cons.prems(5,6) by simp_all
  from Cons.IH [OF s'(2,3) st ov th _ i pe] Cons.prems(7) obtain s2 q2 evs2 where
    s2: "complete_all ds s' = Some s2" "pools s2 p = Some q2" "pool_status q2 = FLOW_POOL_ACTIVE_UNPAUSED" "unat (avail_desc q2) = room q"
      "fc_log s2 = fc_log s' @ evs2" and
    wake2: "pool_status ?q2 \<noteq> FLOW_POOL_ACTIVE_UNPAUSED \<Longrightarrow>
      Pause_cb (member_flow_id q) WLAN_WAKE_NON_PRIORITY_QUEUE WLAN_DATA_FLOW_CONTROL \<in> set evs2" unfolding rm by auto
  have "Pause_cb (member_flow_id q) WLAN_WAKE_NON_PRIORITY_QUEUE WLAN_DATA_FLOW_CONTROL \<in> set (evs @ evs2)"
    if "pool_status q \<noteq> FLOW_POOL_ACTIVE_UNPAUSED"
  proof (cases "next_status ?q1 = FLOW_POOL_ACTIVE_UNPAUSED")
    case True
    then have "pool_status q = FLOW_POOL_NON_PRIO_PAUSED" using that by (simp add: next_status_def split: if_splits)
    then show ?thesis using wake True by simp
  qed (use wake2 in simp)
  then show ?case using s'(1,5) s2 by (intro exI [of _ s2] exI [of _ q2] exI [of _ "evs @ evs2"]) simp
qed

section \<open>Mapping and unmapping\<close>

lemma no_need_listed:
  assumes l: "set (flow_pool_list s) \<subseteq> dom (pools s)" and n: "\<And>p q. pools s p = Some q \<Longrightarrow> deficient_desc q = 0"
  shows "ol_tx_distribute_descs_to_deficient_pools_from_global_pool s = Some s"
proof -
  have "deficient_desc (pool_of s p) = 0" if "p \<in> set (flow_pool_list s)" for p using l n that by fastforce
  then have "unat (fold (\<lambda>p t. t + deficient_desc (pool_of s p)) (flow_pool_list s) 0) \<le> sum_list (map (need s) (flow_pool_list s))"
    "sum_list (map (need s) (flow_pool_list s)) = 0"
    using fold_need_le [of s "flow_pool_list s" 0] by (auto simp: need_def sum_list_eq_0_iff)
  then have "fold (\<lambda>p t. t + deficient_desc (pool_of s p)) (flow_pool_list s) 0 = 0" by (simp add: unat_eq_zero [symmetric] del: unat_eq_zero)
  then have "distribute_from_global s = (None, s)" by (simp add: distribute_from_global_def Let_def split_beta touch_all [OF l])
  then show ?thesis by (simp add: ol_tx_distribute_descs_to_deficient_pools_from_global_pool_def)
qed

lemma no_need:
  assumes I: "fc_inv N [] off U s" and n: "\<And>p q. pools s p = Some q \<Longrightarrow> deficient_desc q = 0"
  shows "ol_tx_distribute_descs_to_deficient_pools_from_global_pool s = Some s"
  by (rule no_need_listed [OF _ n]) (use fc_inv_parts(4) [OF I] in \<open>simp_all add: listed_def\<close>)

text \<open>The global list of a state holds what no pool has and what is not in flight.\<close>

lemma global_list:
  assumes I: "fc_inv N [] (\<lambda>_. 0) U s" and I': "fc_inv N [] (\<lambda>_. 0) U' s'"
    and same: "pools s' = pools s" "desc_ref s' = desc_ref s"
  shows "mset (tx_freelist s') = mset (tx_freelist s)"
proof -
  have d: "distinct (tx_freelist t)" if "fc_inv N [] (\<lambda>_. 0) V t" for V t
    using fc_inv_parts(1) [OF that] by (simp add: lists_ok_def)
  have free: "d \<in> set (tx_freelist t) \<longleftrightarrow> d < N \<and> desc_ref t d = 0 \<and> (\<forall>p q. pools t p = Some q \<longrightarrow> d \<notin> set (freelist q))"
    if t: "fc_inv N [] (\<lambda>_. 0) V t" for V t d
  proof
    assume a: "d \<in> set (tx_freelist t)"
    then show "d < N \<and> desc_ref t d = 0 \<and> (\<forall>p q. pools t p = Some q \<longrightarrow> d \<notin> set (freelist q))"
      using fc_inv_parts(1) [OF t] fc_inv_freelist(4) [OF t] by (auto simp: lists_ok_def spare_def)
  next
    assume b: "d < N \<and> desc_ref t d = 0 \<and> (\<forall>p q. pools t p = Some q \<longrightarrow> d \<notin> set (freelist q))"
    then have "\<not> home t d" by (auto simp: home_def split: option.splits)
    then show "d \<in> set (tx_freelist t)" using fc_inv_parts(3) [OF t] b by (auto simp: spare_def)
  qed
  have "set (tx_freelist s') = set (tx_freelist s)" using free [OF I] free [OF I'] same by auto
  then show ?thesis using d [OF I] d [OF I'] set_eq_iff_mset_eq_distinct by blast
qed

section \<open>The end\<close>

definition quiet_pools :: "nat \<Rightarrow> fc_state \<Rightarrow> bool" where
  "quiet_pools N s \<longleftrightarrow> fc_inv N [] (\<lambda>_. 0) {} s \<and> ones s \<and> (\<forall>d. desc_ref s d = 0)"

lemma release_quiet:
  assumes Q: "quiet_pools N s" and p: "pools s p = Some q" and ov: "overflow_desc q = 0 \<or> force"
  shows "\<exists>s2. ol_tx_dec_pool_ref p force s = Some s2 \<and> quiet_pools N s2 \<and> dom (pools s2) \<subseteq> dom (pools s) \<and> (force \<longrightarrow> pools s2 p = None)"
proof -
  have I: "fc_inv N [] (\<lambda>_. 0) {} s" and o: "ones s" and r: "\<And>d. desc_ref s d = 0"
    using Q unfolding quiet_pools_def by blast+
  have "ref_cnt q = 1" using o p by (simp add: ones_def)
  then obtain s2 where s2: "ol_tx_dec_pool_ref p force s = Some s2" "fc_inv N [] (\<lambda>_. 0) {} s2" "sheds {p} s s2" "force \<longrightarrow> pools s2 p = None"
    using release_returns [OF I p ov] r by (auto simp: inflight_def)
  then have "quiet_pools N s2" using r ones_sheds [OF s2(2) o s2(3)] by (simp add: quiet_pools_def sheds_def)
  then show ?thesis using s2 by (auto simp: sheds_def)
qed

lemma drain_list_returns:
  "quiet_pools N s \<Longrightarrow> \<exists>s'. drain_list s = Some s' \<and> quiet_pools N s' \<and> flow_pool_list s' = []"
proof (induction "card (dom (pools s))" arbitrary: s rule: less_induct)
  case less
  have fin: "finite (dom (pools s))" and l: "set (flow_pool_list s) = dom (pools s)"
    using less.prems by (auto simp: quiet_pools_def fc_inv_def listed_def) (metis List.finite_set)
  show ?case
  proof (cases "flow_pool_list s")
    case Nil
    then show ?thesis using less.prems by (simp add: drain_list.simps)
  next
    case (Cons p ps)
    then obtain q where q: "pools s p = Some q" using l by auto
    obtain s2 where s2: "ol_tx_dec_pool_ref p True s = Some s2" "quiet_pools N s2" "dom (pools s2) \<subseteq> dom (pools s)" "pools s2 p = None"
      using release_quiet [OF less.prems q, of True] by auto
    have "dom (pools s2) \<subset> dom (pools s)" using s2(3,4) q by auto
    then have "card (dom (pools s2)) < card (dom (pools s))" using fin by (rule psubset_card_mono [rotated])
    then show ?thesis using less.hyps s2 Cons by (subst drain_list.simps) simp
  qed
qed

section \<open>From mapping to unmapping\<close>

text \<open>Unmapping a pool that has all its descriptors, when no pool lacks any.\<close>

lemma unmap_full:
  assumes ok: "fc_ok N s" and g: "fst (ol_tx_get_flow_pool fid s) = Some p" and q: "pools s p = Some q"
    and c: "avail_desc q = flow_pool_size q" "overflow_desc q = 0" and env: "vdev_exists env v"
    and u: "p \<notin> ran ((vdev_pool s)(v := None))" "mgmt_pool s \<noteq> Some p"
    and full: "\<And>x q. x \<noteq> p \<Longrightarrow> pools s x = Some q \<Longrightarrow> deficient_desc q = 0"
  shows "\<exists>s2. fc_step env (Flow_unmap v FLOW_TYPE_VDEV fid) s = Some s2 \<and> pools s2 = (pools s)(p := None) \<and>
    flow_pool_list s2 = remove1 p (flow_pool_list s) \<and> vdev_pool s2 = (vdev_pool s)(v := None) \<and> desc_ref s2 = desc_ref s"
proof -
  let ?s0 = "s\<lparr>pool_stats := (pool_stats s)\<lparr>pool_unmap_count := pool_unmap_count (pool_stats s) + 1\<rparr>\<rparr>"
  have I: "fc_inv N [] (\<lambda>_. 0) (users s) ?s0" using ok by (simp add: fc_ok_def)
  have "fst (ol_tx_get_flow_pool fid ?s0) = Some p" using g by (simp add: ol_tx_get_flow_pool_def find_pool_find pool_of_def)
  then have g0: "ol_tx_get_flow_pool fid ?s0 = (Some p, ?s0)" using get_flow_pool_spec(1) [OF I, of fid] by (metis prod.collapse)
  let ?q = "q\<lparr>member_flow_id := INVALID_FLOW_ID\<rparr>"
  let ?t = "upd_pool p (\<lambda>q. q\<lparr>member_flow_id := INVALID_FLOW_ID\<rparr>) (?s0\<lparr>vdev_pool := (vdev_pool s)(v := None)\<rparr>)"
  have e: "fc_step env (Flow_unmap v FLOW_TYPE_VDEV fid) s = ol_tx_dec_pool_ref p False ?t"
    using g0 env by (simp add: ol_tx_flow_pool_unmap_handler_def Let_def ol_tx_flow_pool_vdev_unmap_def)
  have t: "pools ?t = (pools s)(p \<mapsto> ?q)" "vdev_pool ?t = (vdev_pool s)(v := None)" "desc_ref ?t = desc_ref s"
    "flow_pool_list ?t = flow_pool_list s" "mgmt_pool ?t = mgmt_pool s"
    using q by (simp_all add: upd_pool_def)
  then have qt: "pools ?t p = Some ?q" by simp
  have nU: "p \<notin> users ?t" using u t(2,5) by (auto simp: users_def)
  have "fc_inv N [] (\<lambda>_. 0) (users s) ?t" using I q by (intro upd_member_inv) simp_all
  moreover have "users ?t \<subseteq> users s" unfolding users_def t(2,5) by (auto simp: ran_def split: if_splits)
  ultimately have It: "fc_inv N [] (\<lambda>_. 0) (users ?t) ?t" by (elim fc_inv_users) auto
  have z: "inflight ?t p = {}" by (rule completeD(1) [OF It qt]) (use c in simp_all)
  let ?s2 = "delete_head p False (unlinked p ?t)"
  have D: "fc_inv N [] (\<lambda>_. 0) (users ?t) ?s2" "flow_pool_list ?s2 = remove1 p (flow_pool_list ?t)"
    "pools ?s2 = (pools ?t)(p := None)" "sheds {p} ?t ?s2"
    using delete_inactive [OF It qt, of False] c z nU by simp_all
  have "ref_cnt ?q = 1" using ok q by (simp add: fc_ok_def ones_def)
  then have "ol_tx_dec_pool_ref p False ?t = ol_tx_distribute_descs_to_deficient_pools_from_global_pool ?s2" by (rule dec_pool_ref_last [OF qt])
  also have "\<dots> = Some ?s2"
    by (rule no_need [OF D(1)]) (use full t(1) in \<open>auto simp: D(3) split: if_splits\<close>)
  finally show ?thesis unfolding e using D(2-4) t by (simp add: sheds_def)
qed

text \<open>Mapping a new pool.\<close>

lemma map_new:
  assumes ok: "fc_ok N s" and none: "fst (ol_tx_get_flow_pool fid s) = None"
    and env: "malloc_ok env" "vdev_exists env v" and n: "n \<le> num_free s"
  shows "\<exists>s1 q. fc_step env (Flow_map v FLOW_TYPE_VDEV fid n) s = Some s1 \<and> pools s1 = (pools s)(next_pool s \<mapsto> q) \<and>
    flow_pool_id q = fid \<and> flow_pool_size q = n \<and> avail_desc q = n \<and> overflow_desc q = 0 \<and>
    flow_pool_list s1 = flow_pool_list s @ [next_pool s] \<and> vdev_pool s1 = (vdev_pool s)(v \<mapsto> next_pool s) \<and>
    mgmt_pool s1 = mgmt_pool s \<and> desc_ref s1 = desc_ref s"
proof -
  let ?s0 = "s\<lparr>pool_stats := (pool_stats s)\<lparr>pool_map_count := pool_map_count (pool_stats s) + 1\<rparr>\<rparr>"
  let ?p = "next_pool ?s0" and ?r = "ol_tx_create_flow_pool env fid n ?s0"
  have I: "fc_inv N [] (\<lambda>_. 0) (users s) ?s0" using ok by (simp add: fc_ok_def)
  have g0: "fst (ol_tx_get_flow_pool fid ?s0) = None"
    using none by (simp add: ol_tx_get_flow_pool_def find_pool_find pool_of_def)
  note C = create_spec [OF I env(1), of fid n]
  obtain q where q: "pools (snd ?r) ?p = Some q" "flow_pool_id q = fid" "overflow_desc q = 0" "avail_desc q = n" "flow_pool_size q = n"
    using C(3) n by (auto simp: min_def)
  have ot: "pools (snd ?r) x = pools s x" if "x \<noteq> ?p" for x using C(4) that by (simp add: others_def)
  let ?q = "q\<lparr>member_flow_id := v\<rparr>"
  let ?s1 = "pause_cb v WLAN_WAKE_ALL_NETIF_QUEUE WLAN_DATA_FLOW_CONTROL (pause_cb v WLAN_NETIF_PRIORITY_QUEUE_ON WLAN_DATA_FLOW_CONTROL_PRIORITY
    (upd_pool ?p (\<lambda>q. q\<lparr>member_flow_id := v\<rparr>) ((snd ?r)\<lparr>vdev_pool := (vdev_pool (snd ?r))(v \<mapsto> ?p)\<rparr>)))"
  have m: "fc_step env (Flow_map v FLOW_TYPE_VDEV fid n) s = Some ?s1"
    using g0 get_flow_pool_spec(1) [OF I, of fid] C(1) env(2)
    by (simp add: ol_tx_flow_pool_map_handler_def Let_def split_beta ol_tx_flow_pool_vdev_map_def)
  have "pools ?s1 = (pools s)(?p \<mapsto> ?q)"
  proof
    fix x
    show "pools ?s1 x = ((pools s)(?p \<mapsto> ?q)) x" using q(1) ot [of x] by (cases "x = ?p") (simp_all add: upd_pool_def)
  qed
  then show ?thesis using m q C(5-8) by (intro exI [of _ ?s1] exI [of _ ?q]) (simp add: upd_pool_def)
qed

lemma map_unmap_states:
  assumes r: "fc_reachable N s" and none: "fst (ol_tx_get_flow_pool fid s) = None" "fid \<noteq> INVALID_FLOW_ID"
    and env: "malloc_ok env" "vdev_exists env v" and v: "vdev_pool s v = None" and n: "n \<le> num_free s"
    and full: "\<And>p q. pools s p = Some q \<Longrightarrow> deficient_desc q = 0"
  shows "\<exists>s1 s2. fc_step env (Flow_map v FLOW_TYPE_VDEV fid n) s = Some s1 \<and> fc_step env (Flow_unmap v FLOW_TYPE_VDEV fid) s1 = Some s2 \<and>
    vdev_pool s1 v = Some (next_pool s) \<and> avail_desc (pool_of s1 (next_pool s)) = n \<and> fc_allowed env (Flow_unmap v FLOW_TYPE_VDEV fid) s1 \<and>
    pools s2 = pools s \<and> flow_pool_list s2 = flow_pool_list s \<and> vdev_pool s2 = vdev_pool s \<and> desc_ref s2 = desc_ref s"
proof -
  let ?p = "next_pool s"
  have ok: "fc_ok N s" by (rule fc_reachable_inv [OF r])
  then have I: "fc_inv N [] (\<lambda>_. 0) (users s) s" by (simp add: fc_ok_def)
  note fresh = fresh_pool [OF I]
  obtain s1 q where s1: "fc_step env (Flow_map v FLOW_TYPE_VDEV fid n) s = Some s1" "pools s1 = (pools s)(?p \<mapsto> q)"
    "flow_pool_id q = fid" "flow_pool_size q = n" "avail_desc q = n" "overflow_desc q = 0" "flow_pool_list s1 = flow_pool_list s @ [?p]"
    "vdev_pool s1 = (vdev_pool s)(v \<mapsto> ?p)" "mgmt_pool s1 = mgmt_pool s" "desc_ref s1 = desc_ref s"
    using map_new [OF ok none(1) env n] by blast
  have ok1: "fc_ok N s1" using fc_step_ok [OF ok, of env "Flow_map v FLOW_TYPE_VDEV fid n"] none(2) s1(1) by auto
  then have I1: "fc_inv N [] (\<lambda>_. 0) (users s1) s1" by (simp add: fc_ok_def)
  have p1: "pools s1 ?p = Some q" using s1(2) by simp
  have g1: "fst (ol_tx_get_flow_pool fid s1) = Some ?p"
  proof (cases "fst (ol_tx_get_flow_pool fid s1)")
    case None
    then show ?thesis using get_flow_pool_spec(3) [OF I1 None p1] s1(3) by simp
  next
    case (Some x)
    then obtain qx where qx: "pools s1 x = Some qx" "flow_pool_id qx = fid" using get_flow_pool_spec(2) [OF I1] by blast
    have "x = ?p"
    proof (rule ccontr)
      assume "x \<noteq> ?p"
      then have "pools s x = Some qx" using qx(1) s1(2) by simp
      then show False using get_flow_pool_spec(3) [OF I none(1)] qx(2) by blast
    qed
    then show ?thesis using Some by simp
  qed
  have nU: "?p \<notin> users s" using user_live [OF I, of ?p] fresh by auto
  then have u: "?p \<notin> ran ((vdev_pool s1)(v := None))" "mgmt_pool s1 \<noteq> Some ?p"
    using v s1(8,9) by (auto simp: users_def ran_def split: if_splits)
  have "deficient_desc q' = 0" if "x \<noteq> ?p" "pools s1 x = Some q'" for x q' using full [of x q'] that s1(2) by simp
  then obtain s2 where s2: "fc_step env (Flow_unmap v FLOW_TYPE_VDEV fid) s1 = Some s2" "pools s2 = (pools s1)(?p := None)"
    "flow_pool_list s2 = remove1 ?p (flow_pool_list s1)" "vdev_pool s2 = (vdev_pool s1)(v := None)" "desc_ref s2 = desc_ref s1"
    using unmap_full [OF ok1 g1 p1, of env v] s1(4-6) env(2) u by auto
  have nl: "?p \<notin> set (flow_pool_list s)" using fc_inv_live [OF I, of ?p] fresh by simp
  have pp: "pools s2 = pools s" "vdev_pool s2 = vdev_pool s" using s2(2,4) s1(2,8) fresh v by (simp_all add: fun_upd_idem)
  have al: "fc_allowed env (Flow_unmap v FLOW_TYPE_VDEV fid) s1"
    using none(2) g1 p1 s1(6) u env(2) by (auto simp: unmap_allowed_def ran_def split: if_splits)
  show ?thesis using s1 s2 p1 pp nl al by (intro exI [of _ s1] exI [of _ s2]) (simp add: remove1_append)
qed

end
