(* ===== verification/Fc_Sender.thy ===== *)
theory Fc_Sender
  imports Fc_Live
begin

text \<open>
  What a sender of frames relies on: a source of descriptors hands out one that nobody has, and takes
  back any that is out.  The interface is the locale \<open>desc_source\<close>; the pools provide it for every
  interface of the device.
\<close>

section \<open>The interface\<close>

fun alloc_burst :: "('s \<Rightarrow> nat option \<times> 's) \<Rightarrow> nat \<Rightarrow> 's \<Rightarrow> nat list \<times> 's" where
  "alloc_burst alloc 0 s = ([], s)"
| "alloc_burst alloc (Suc n) s =
     (case alloc s of
        (None, s1) \<Rightarrow> ([], s1)
      | (Some d, s1) \<Rightarrow> (case alloc_burst alloc n s1 of (ds, s2) \<Rightarrow> (d # ds, s2)))"

fun free_burst :: "(nat \<Rightarrow> 's \<Rightarrow> 's option) \<Rightarrow> nat list \<Rightarrow> 's \<Rightarrow> 's option" where
  "free_burst free [] s = Some s"
| "free_burst free (d # ds) s = (case free d s of None \<Rightarrow> None | Some s' \<Rightarrow> free_burst free ds s')"

locale desc_source =
  fixes ok :: "'s \<Rightarrow> bool" and out :: "'s \<Rightarrow> nat set"
    and alloc :: "'s \<Rightarrow> nat option \<times> 's" and free :: "nat \<Rightarrow> 's \<Rightarrow> 's option"
  assumes src_ok: "ok s \<Longrightarrow> ok (snd (alloc s))"
    and src_out: "ok s \<Longrightarrow> fst (alloc s) = Some d \<Longrightarrow> d \<notin> out s \<and> out (snd (alloc s)) = insert d (out s)"
    and src_empty: "ok s \<Longrightarrow> fst (alloc s) = None \<Longrightarrow> out (snd (alloc s)) = out s"
    and src_free: "ok s \<Longrightarrow> d \<in> out s \<Longrightarrow> \<exists>s'. free d s = Some s' \<and> ok s' \<and> out s' = out s - {d}"
begin

lemma burst_out:
  "ok s \<Longrightarrow> alloc_burst alloc n s = (ds, s') \<Longrightarrow>
     ok s' \<and> distinct ds \<and> set ds \<inter> out s = {} \<and> out s' = set ds \<union> out s"
proof (induction n arbitrary: s ds s')
  case (Suc n)
  obtain r s1 where a: "alloc s = (r, s1)" by (cases "alloc s")
  have ok1: "ok s1" using src_ok [OF Suc.prems(1)] a by simp
  show ?case
  proof (cases r)
    case None
    then show ?thesis using Suc.prems a ok1 src_empty [OF Suc.prems(1)] by auto
  next
    case (Some d)
    obtain ds1 s2 where b: "alloc_burst alloc n s1 = (ds1, s2)" by (cases "alloc_burst alloc n s1")
    have "d \<notin> out s" "out s1 = insert d (out s)" using src_out [OF Suc.prems(1)] a Some by auto
    then show ?thesis using Suc.prems(2) a Some b Suc.IH [OF ok1 b] by auto
  qed
qed simp

lemma free_burst_out:
  "ok s \<Longrightarrow> distinct ds \<Longrightarrow> set ds \<subseteq> out s \<Longrightarrow> \<exists>s'. free_burst free ds s = Some s' \<and> ok s' \<and> out s' = out s - set ds"
proof (induction ds arbitrary: s)
  case (Cons d ds)
  then obtain s1 where s1: "free d s = Some s1" "ok s1" "out s1 = out s - {d}" using src_free [of s d] by auto
  then have "set ds \<subseteq> out s1" using Cons.prems by auto
  then obtain s' where "free_burst free ds s1 = Some s'" "ok s'" "out s' = out s1 - set ds"
    using Cons.IH [OF s1(2)] Cons.prems(2) by auto
  then show ?case using s1 by auto
qed simp

text \<open>A burst whose frames complete in any order leaves nothing out that was not out before.\<close>

lemma burst_returns:
  assumes "ok s" "alloc_burst alloc n s = (ds, s1)" "mset ds' = mset ds"
  shows "distinct ds \<and> set ds \<inter> out s = {} \<and> (\<exists>s2. free_burst free ds' s1 = Some s2 \<and> ok s2 \<and> out s2 = out s)"
proof -
  note B = burst_out [OF assms(1,2)]
  have d: "distinct ds'" "set ds' = set ds" using B mset_eq_imp_distinct_iff [OF assms(3)] mset_eq_setD [OF assms(3)] by auto
  then obtain s2 where "free_burst free ds' s1 = Some s2" "ok s2" "out s2 = out s1 - set ds'"
    using free_burst_out [of s1 ds'] B by auto
  then show ?thesis using B d by auto
qed

end

section \<open>The pools provide it\<close>

interpretation tx: desc_source "fc_ok N" busy "ol_tx_desc_alloc_wrapper v mgmt" ol_tx_desc_free for N v mgmt
proof
  fix s d
  assume ok: "fc_ok N s"
  note a = alloc_ok [OF ok wrapper_pool, of v mgmt v] and b = alloc_busy [OF ok wrapper_pool, of v mgmt v]
  show "fc_ok N (snd (ol_tx_desc_alloc_wrapper v mgmt s))" using a by (simp add: ol_tx_desc_alloc_wrapper_def)
  show "fst (ol_tx_desc_alloc_wrapper v mgmt s) = Some d \<Longrightarrow>
      d \<notin> busy s \<and> busy (snd (ol_tx_desc_alloc_wrapper v mgmt s)) = insert d (busy s)"
    using b by (auto simp: ol_tx_desc_alloc_wrapper_def split: option.splits)
  show "fst (ol_tx_desc_alloc_wrapper v mgmt s) = None \<Longrightarrow> busy (snd (ol_tx_desc_alloc_wrapper v mgmt s)) = busy s"
    using b by (simp add: ol_tx_desc_alloc_wrapper_def split: option.splits)
  show "d \<in> busy s \<Longrightarrow> \<exists>s'. ol_tx_desc_free d s = Some s' \<and> fc_ok N s' \<and> busy s' = busy s - {d}"
    by (rule free_busy [OF ok])
qed

section \<open>The list of the pool\<close>

abbreviation sender_pool :: "u8 \<Rightarrow> bool \<Rightarrow> fc_state \<Rightarrow> ptr option" where
  "sender_pool v mgmt s \<equiv> (if mgmt then mgmt_pool s else vdev_pool s v)"

text \<open>A descriptor is taken from the head of the list.\<close>

lemma alloc_lists:
  assumes ok: "fc_ok N s" and p: "sender_pool v mgmt s = Some p" and q: "pools s p = Some q"
  shows "\<exists>q1. pools (snd (ol_tx_desc_alloc_wrapper v mgmt s)) p = Some q1 \<and> overflow_desc q1 = overflow_desc q \<and>
    sender_pool v mgmt (snd (ol_tx_desc_alloc_wrapper v mgmt s)) = Some p \<and>
    inflight s p \<subseteq> inflight (snd (ol_tx_desc_alloc_wrapper v mgmt s)) p \<and>
    (case fst (ol_tx_desc_alloc_wrapper v mgmt s) of
       None \<Rightarrow> freelist q1 = freelist q
     | Some d \<Rightarrow> freelist q = d # freelist q1 \<and> d \<in> inflight (snd (ol_tx_desc_alloc_wrapper v mgmt s)) p)"
proof -
  have I: "fc_inv N [] (\<lambda>_. 0) (users s) s" using ok by (simp add: fc_ok_def)
  have w: "ol_tx_desc_alloc_wrapper v mgmt s = ol_tx_desc_alloc v (Some p) s" using p by (simp add: ol_tx_desc_alloc_wrapper_def)
  show ?thesis
  proof (cases "avail_desc q = 0")
    case True
    then show ?thesis unfolding w using p q by (auto simp: ol_tx_desc_alloc_def upd_pool_def inflight_def split: if_splits)
  next
    case False
    then have "freelist q \<noteq> []" using fc_inv_avail(2) [OF I q] by (metis list.size(3) unat_eq_zero)
    then obtain d ds where f: "freelist q = d # ds" by (cases "freelist q") auto
    have d: "desc_ref s d = 0" "desc_pool s d = Some p" using fc_inv_freelist [OF I q, of d] f by simp_all
    show ?thesis unfolding w alloc_some(1) [OF q f False] option.case
      using p q f False d by (auto simp: ol_tx_desc_alloc_def ol_tx_get_desc_flow_pool_def upd_pool_def Let_def pause_cb_def inflight_def split: if_splits)
  qed
qed

lemma alloc_burst_lists:
  "fc_ok N s \<Longrightarrow> alloc_burst (ol_tx_desc_alloc_wrapper v mgmt) n s = (ds, s1) \<Longrightarrow> sender_pool v mgmt s = Some p \<Longrightarrow> pools s p = Some q \<Longrightarrow>
     \<exists>q1. pools s1 p = Some q1 \<and> overflow_desc q1 = overflow_desc q \<and> sender_pool v mgmt s1 = Some p \<and> freelist q = ds @ freelist q1 \<and>
       inflight s p \<union> set ds \<subseteq> inflight s1 p"
proof (induction n arbitrary: s ds q)
  case (Suc n)
  obtain r t where a: "ol_tx_desc_alloc_wrapper v mgmt s = (r, t)" by (cases "ol_tx_desc_alloc_wrapper v mgmt s")
  obtain q1 where q1: "pools t p = Some q1" "overflow_desc q1 = overflow_desc q" "sender_pool v mgmt t = Some p" "inflight s p \<subseteq> inflight t p"
    "case r of None \<Rightarrow> freelist q1 = freelist q | Some d \<Rightarrow> freelist q = d # freelist q1 \<and> d \<in> inflight t p"
    using alloc_lists [OF Suc.prems(1,3,4)] unfolding a fst_conv snd_conv by blast
  show ?case
  proof (cases r)
    case None
    then show ?thesis using Suc.prems(2) a q1 by (auto split: if_splits)
  next
    case (Some d)
    obtain ds1 where b: "alloc_burst (ol_tx_desc_alloc_wrapper v mgmt) n t = (ds1, s1)" "ds = d # ds1"
      using Suc.prems(2) a Some by (auto split: prod.splits)
    have "fc_ok N t" using tx.src_ok [OF Suc.prems(1), of v mgmt] a by simp
    then obtain q2 where q2: "pools s1 p = Some q2" "overflow_desc q2 = overflow_desc q1" "sender_pool v mgmt s1 = Some p"
      "freelist q1 = ds1 @ freelist q2" "inflight t p \<union> set ds1 \<subseteq> inflight s1 p"
      using Suc.IH [OF _ b(1) q1(3,1)] by blast
    have d: "freelist q = d # freelist q1" "d \<in> inflight t p" using q1(5) Some by simp_all
    then have "inflight s p \<union> set ds \<subseteq> inflight s1 p" using q1(4) q2(5) b(2) by auto
    then show ?thesis using q1(2) q2(1-4) d(1) b(2) by (intro exI [of _ q2]) simp
  qed
qed auto

text \<open>A completed frame puts it at the head.\<close>

lemma free_burst_lists:
  "fc_inv N [] (\<lambda>_. 0) U s \<Longrightarrow> pools s p = Some q \<Longrightarrow> pool_status q \<noteq> FLOW_POOL_INVALID \<Longrightarrow> overflow_desc q = 0 \<Longrightarrow>
     distinct ds \<Longrightarrow> set ds \<subseteq> inflight s p \<Longrightarrow>
     \<exists>s' q'. free_burst ol_tx_desc_free ds s = Some s' \<and> pools s' p = Some q' \<and> freelist q' = rev ds @ freelist q"
proof (induction ds arbitrary: s q)
  case (Cons d ds)
  let ?q1 = "q\<lparr>freelist := d # freelist q, avail_desc := avail_desc q + 1\<rparr>"
  let ?q2 = "?q1\<lparr>pool_status := next_status ?q1\<rparr>"
  have "d \<in> inflight s p" using Cons.prems(6) by simp
  from free_step [OF Cons.prems(1-4) this] obtain t where
    t: "ol_tx_desc_free d s = Some t" "fc_inv N [] (\<lambda>_. 0) U t" "pools t p = Some ?q2" "inflight t p = inflight s p - {d}" by blast
  have "pool_status ?q2 \<noteq> FLOW_POOL_INVALID" using Cons.prems(3) by (simp add: next_status_def)
  moreover have "distinct ds" "set ds \<subseteq> inflight t p" using Cons.prems(5,6) t(4) by auto
  ultimately obtain s' q' where "free_burst ol_tx_desc_free ds t = Some s'" "pools s' p = Some q'" "freelist q' = rev ds @ freelist ?q2"
    using Cons.IH [OF t(2,3)] Cons.prems(4) by auto
  then show ?case using t(1) by auto
qed auto

lemma burst_lists:
  assumes "fc_ok N s" "alloc_burst (ol_tx_desc_alloc_wrapper v mgmt) n s = (ds, s1)" "mset ds' = mset ds"
    "sender_pool v mgmt s = Some p" "pools s p = Some q" "overflow_desc q = 0"
  shows "\<exists>s2 q2 l. free_burst ol_tx_desc_free ds' s1 = Some s2 \<and> pools s2 p = Some q2 \<and> freelist q = ds @ l \<and> freelist q2 = rev ds' @ l"
proof -
  obtain q1 where q1: "pools s1 p = Some q1" "overflow_desc q1 = 0" "sender_pool v mgmt s1 = Some p" "freelist q = ds @ freelist q1"
    "set ds \<subseteq> inflight s1 p"
    using alloc_burst_lists [OF assms(1,2,4,5)] assms(6) by auto
  have ok1: "fc_ok N s1" and d: "distinct ds" using tx.burst_out [OF assms(1,2)] by blast+
  then have I: "fc_inv N [] (\<lambda>_. 0) (users s1) s1" by (simp add: fc_ok_def)
  have "p \<in> users s1" using q1(3) by (auto simp: users_def ran_def split: if_splits)
  then have "pool_status q1 \<noteq> FLOW_POOL_INVALID" using user_live [OF I] q1(1) by fastforce
  moreover have "distinct ds'" "set ds' \<subseteq> inflight s1 p"
    using d q1(5) mset_eq_imp_distinct_iff [OF assms(3)] mset_eq_setD [OF assms(3)] by auto
  ultimately show ?thesis using free_burst_lists [OF I q1(1) _ q1(2)] q1(4) by auto
qed

end
