(* ===== verification/Fc_Cases.thy ===== *)
theory Fc_Cases
  imports Fc_Sender
begin

text \<open>
  Small runs of the pools, step by step, for a device with four descriptors and thresholds of 50 and
  75 percent: one pool with all descriptors, and two pools of which one lacks descriptors.
\<close>

section \<open>Evaluation\<close>

definition ex_env :: fc_env where
  "ex_env = \<lparr>tx_flow_stop_queue_th = 50, tx_flow_start_queue_offset = 25, vdev_exists = (\<lambda>_. True), malloc_ok = True\<rparr>"

lemma take_for_pool_numeral:
  "take_for_pool p (numeral k) temp s =
     (let (d, s1) = ol_tx_get_desc_global_pool s
      in take_for_pool p (pred_numeral k) (d # temp) (s1\<lparr>desc_pool := (desc_pool s1)(d := Some p)\<rparr>))"
  by (simp add: numeral_eq_Suc)

lemma loops_numeral:
  "put_global_n (numeral k) (d # temp) s = put_global_n (pred_numeral k) temp (ol_tx_put_desc_global_pool d s)"
  "get_global_n (numeral k) temp s = (let (d, s1) = ol_tx_get_desc_global_pool s in get_global_n (pred_numeral k) (d # temp) s1)"
  "put_flow_n p (numeral k) (d # temp) s = put_flow_n p (pred_numeral k) temp (ol_tx_put_desc_flow_pool p d s)"
  by (simp_all add: numeral_eq_Suc)

lemma upt_four: "[0..<4] = [0,1,2,3]"
  by (simp add: upt_conv_Cons)

lemma small_u16: "\<not> (44 :: u16) \<le> 2" "\<not> (44 :: u16) \<le> 1" "\<not> (44 :: u16) \<le> 0"
  by (simp_all add: word_le_nat_alt)

lemmas fc_eval =
  Let_def split_beta ex_env_def fc_init_def ol_tx_flow_pool_map_handler_def ol_tx_get_flow_pool_def ol_tx_create_flow_pool_def
  set_thresholds_def zero_pool_def ol_tx_inc_pool_ref_def upd_pool_def ol_tx_get_desc_global_pool_def TX_PRIORITY_TH_def
  MAX_TSO_SEGMENT_DESC_def ol_tx_flow_pool_vdev_map_def pause_cb_def touch_def pool_of_def upt_four take_for_pool_numeral small_u16

lemmas fc_release_eval =
  Let_def split_beta ex_env_def ol_tx_get_flow_pool_def set_thresholds_def upd_pool_def pause_cb_def touch_def pool_of_def
  TX_PRIORITY_TH_def MAX_TSO_SEGMENT_DESC_def small_u16 ol_tx_dec_pool_ref_calls ol_tx_flow_pool_unmap_handler_def
  ol_tx_flow_pool_vdev_unmap_def ol_tx_delete_flow_pool_def delete_head_def INVALID_FLOW_ID_def
  ol_tx_distribute_descs_to_deficient_pools_from_global_pool_def distribute_from_global_def ol_tx_put_desc_global_pool_def
  loops_numeral

lemma alloc_step:
  assumes "vdev_pool s v = Some p" "pools s p = Some q" "freelist q = d # ds" "avail_desc q \<noteq> 0"
  defines "q1 \<equiv> q\<lparr>freelist := ds, avail_desc := avail_desc q - 1\<rparr>"
  defines "low \<equiv> avail_desc q1 < stop_th q \<and> avail_desc q1 \<ge> stop_priority_th q \<and> pool_status q = FLOW_POOL_ACTIVE_UNPAUSED"
  assumes "\<not> (avail_desc q1 < stop_priority_th q \<and> pool_status q = FLOW_POOL_NON_PRIO_PAUSED)"
  shows "fc_step env (Desc_alloc v False) s = Some (s\<lparr>
     pools := (pools s)(p \<mapsto> (if low then q1\<lparr>pool_status := FLOW_POOL_NON_PRIO_PAUSED\<rparr> else q1)),
     fc_log := fc_log s @ (if low then [Pause_cb v WLAN_STOP_NON_PRIORITY_QUEUE WLAN_DATA_FLOW_CONTROL] else []),
     desc_vdev := (desc_vdev s)(d := Some v), desc_ref := (desc_ref s)(d := desc_ref s d + 1)\<rparr>)"
  using assms(1-4,7) unfolding low_def q1_def
  by (simp add: ol_tx_desc_alloc_wrapper_def ol_tx_desc_alloc_def ol_tx_get_desc_flow_pool_def upd_pool_def Let_def pause_cb_def) auto

section \<open>One pool\<close>

definition ex_pool :: "u8 \<Rightarrow> u8 \<Rightarrow> flow_pool_status \<Rightarrow> u16 \<Rightarrow> u16 \<Rightarrow> nat list \<Rightarrow> ol_tx_flow_pool_t" where
  "ex_pool fid v st avail defi l = \<lparr>flow_pool_id = fid, flow_pool_size = 4, avail_desc = avail, deficient_desc = defi, overflow_desc = 0,
     pool_status = st, member_flow_id = v, stop_th = 2, start_th = 3, freelist = l,
     pkt_drop_no_desc = 0, ref_cnt = 1, stop_priority_th = 1, start_priority_th = 2\<rparr>"

definition woken :: "u8 \<Rightarrow> fc_event list" where
  "woken v = [Pause_cb v WLAN_NETIF_PRIORITY_QUEUE_ON WLAN_DATA_FLOW_CONTROL_PRIORITY, Pause_cb v WLAN_WAKE_ALL_NETIF_QUEUE WLAN_DATA_FLOW_CONTROL]"

definition one_pool :: "flow_pool_status \<Rightarrow> u16 \<Rightarrow> nat list \<Rightarrow> (nat \<Rightarrow> int) \<Rightarrow> (nat \<Rightarrow> u8 option) \<Rightarrow> fc_event list \<Rightarrow> fc_state" where
  "one_pool st avail l r dv evs = \<lparr>pools = [0 \<mapsto> ex_pool 1 0 st avail 0 l], next_pool = 1, flow_pool_list = [0], tx_freelist = [], num_free = 0,
     num_invalid_bin = 0, desc_pool = [0 \<mapsto> 0, 1 \<mapsto> 0, 2 \<mapsto> 0, 3 \<mapsto> 0], desc_ref = r, desc_vdev = dv, vdev_pool = [0 \<mapsto> 0], mgmt_pool = None,
     pool_stats = \<lparr>pool_map_count = 1, pool_unmap_count = 0, pool_resize_count = 0, pkt_drop_no_pool = 0\<rparr>,
     fc_log = woken 0 @ evs, fc_fault = False, fc_assert = False\<rparr>"

abbreviation "idle_pool \<equiv> one_pool FLOW_POOL_ACTIVE_UNPAUSED 4 [3,2,1,0] (\<lambda>_. 0) Map.empty []"
abbreviation "half_pool \<equiv> one_pool FLOW_POOL_ACTIVE_UNPAUSED 2 [1,0] ((\<lambda>_. 0)(3 := 1, 2 := 1)) [3 \<mapsto> 0, 2 \<mapsto> 0] []"
abbreviation "low_pool \<equiv> one_pool FLOW_POOL_NON_PRIO_PAUSED 1 [0] ((\<lambda>_. 0)(3 := 1, 2 := 1, 1 := 1)) [3 \<mapsto> 0, 2 \<mapsto> 0, 1 \<mapsto> 0]
  [Pause_cb 0 WLAN_STOP_NON_PRIORITY_QUEUE WLAN_DATA_FLOW_CONTROL]"

lemma init_reachable: "fc_reachable 4 (fc_init 4)"
  using fc_start [of 4 ex_env True] by (simp add: ol_tx_register_flow_control_def fc_init_def)

lemma idle_step: "fc_step ex_env (Flow_map 0 FLOW_TYPE_VDEV 1 4) (fc_init 4) = Some idle_pool"
  by (simp add: fc_eval one_pool_def ex_pool_def woken_def)

lemma idle_reachable: "fc_reachable 4 idle_pool"
  by (rule fc_next [OF init_reachable _ idle_step]) (simp add: INVALID_FLOW_ID_def)

abbreviation "first_sent \<equiv> one_pool FLOW_POOL_ACTIVE_UNPAUSED 3 [2,1,0] ((\<lambda>_. 0)(3 := 1)) [3 \<mapsto> 0] []"

lemma send_first: "fc_step ex_env (Desc_alloc 0 False) idle_pool = Some first_sent"
  by (rule trans [OF alloc_step]) (simp add: one_pool_def ex_pool_def)+

lemma send_second: "fc_step ex_env (Desc_alloc 0 False) first_sent = Some half_pool"
  by (rule trans [OF alloc_step]) (simp add: one_pool_def ex_pool_def)+

lemma half_reachable: "fc_reachable 4 half_pool"
  by (rule fc_next [OF fc_next [OF idle_reachable _ send_first] _ send_second]) simp_all

text \<open>Two frames, with the descriptors they get.\<close>

lemma send_two: "alloc_burst (ol_tx_desc_alloc_wrapper 0 False) 2 idle_pool = ([3,2], half_pool)"
proof -
  have p: "pools idle_pool 0 = Some (ex_pool 1 0 FLOW_POOL_ACTIVE_UNPAUSED 4 0 [3,2,1,0])"
    "pools first_sent 0 = Some (ex_pool 1 0 FLOW_POOL_ACTIVE_UNPAUSED 3 0 [2,1,0])" "vdev_pool idle_pool 0 = Some 0" "vdev_pool first_sent 0 = Some 0"
    by (simp_all add: one_pool_def)
  have f: "fst (ol_tx_desc_alloc 0 (Some 0) idle_pool) = Some 3" "fst (ol_tx_desc_alloc 0 (Some 0) first_sent) = Some 2"
    using alloc_some(1) [OF p(1), of 3 "[2,1,0]" 0] alloc_some(1) [OF p(2), of 2 "[1,0]" 0] by (simp_all add: ex_pool_def)
  have w: "fst (ol_tx_desc_alloc_wrapper 0 False idle_pool) = Some 3" "fst (ol_tx_desc_alloc_wrapper 0 False first_sent) = Some 2"
    unfolding ol_tx_desc_alloc_wrapper_def if_False p(3,4) by (fact f)+
  have "snd (ol_tx_desc_alloc_wrapper 0 False idle_pool) = first_sent" "snd (ol_tx_desc_alloc_wrapper 0 False first_sent) = half_pool"
    using send_first send_second by (simp_all only: fc_step.simps option.inject)
  then have "ol_tx_desc_alloc_wrapper 0 False idle_pool = (Some 3, first_sent)" "ol_tx_desc_alloc_wrapper 0 False first_sent = (Some 2, half_pool)"
    using w by (simp_all only: prod_eq_iff fst_conv snd_conv)
  then show ?thesis by (simp only: numeral_2_eq_2 alloc_burst.simps prod.case option.case)
qed

lemma low_reachable: "fc_reachable 4 low_pool"
proof -
  have a: "fc_step ex_env (Desc_alloc 0 False) half_pool = Some low_pool"
    by (rule trans [OF alloc_step]) (simp add: one_pool_def ex_pool_def)+
  show ?thesis by (rule fc_next [OF half_reachable _ a]) simp
qed

section \<open>Two pools\<close>

definition first_pool :: ol_tx_flow_pool_t where
  "first_pool = \<lparr>flow_pool_id = 1, flow_pool_size = 2, avail_desc = 2, deficient_desc = 0, overflow_desc = 0,
     pool_status = FLOW_POOL_ACTIVE_UNPAUSED, member_flow_id = 0, stop_th = 1, start_th = 1, freelist = [1,0],
     pkt_drop_no_desc = 0, ref_cnt = 1, stop_priority_th = 0, start_priority_th = 0\<rparr>"

definition two_pools :: "ol_tx_flow_pool_t \<Rightarrow> (nat \<Rightarrow> int) \<Rightarrow> (nat \<Rightarrow> u8 option) \<Rightarrow> fc_event list \<Rightarrow> fc_state" where
  "two_pools q r dv evs = \<lparr>pools = [0 \<mapsto> first_pool, 1 \<mapsto> q], next_pool = 2, flow_pool_list = [0,1], tx_freelist = [], num_free = 0,
     num_invalid_bin = 0, desc_pool = [0 \<mapsto> 0, 1 \<mapsto> 0, 2 \<mapsto> 1, 3 \<mapsto> 1], desc_ref = r, desc_vdev = dv, vdev_pool = [0 \<mapsto> 0, 1 \<mapsto> 1], mgmt_pool = None,
     pool_stats = \<lparr>pool_map_count = 2, pool_unmap_count = 0, pool_resize_count = 0, pkt_drop_no_pool = 0\<rparr>,
     fc_log = woken 0 @ woken 1 @ evs, fc_fault = False, fc_assert = False\<rparr>"

definition first_only :: fc_state where
  "first_only = \<lparr>pools = [0 \<mapsto> first_pool], next_pool = 1, flow_pool_list = [0], tx_freelist = [2,3], num_free = 2,
     num_invalid_bin = 0, desc_pool = [0 \<mapsto> 0, 1 \<mapsto> 0], desc_ref = (\<lambda>_. 0), desc_vdev = Map.empty, vdev_pool = [0 \<mapsto> 0], mgmt_pool = None,
     pool_stats = \<lparr>pool_map_count = 1, pool_unmap_count = 0, pool_resize_count = 0, pkt_drop_no_pool = 0\<rparr>,
     fc_log = woken 0, fc_fault = False, fc_assert = False\<rparr>"

abbreviation "stop_event \<equiv> Pause_cb 1 WLAN_STOP_NON_PRIORITY_QUEUE WLAN_DATA_FLOW_CONTROL"
abbreviation "sent_pool \<equiv> two_pools (ex_pool 2 1 FLOW_POOL_NON_PRIO_PAUSED 1 2 [2]) ((\<lambda>_. 0)(3 := 1)) [3 \<mapsto> 1] [stop_event]"
abbreviation "stopped_pool \<equiv> two_pools (ex_pool 2 1 FLOW_POOL_NON_PRIO_PAUSED 2 2 [3,2]) (\<lambda>_. 0) Map.empty [stop_event]"

lemma stopped_reachable: "fc_reachable 4 stopped_pool"
proof -
  have a: "fc_step ex_env (Flow_map 0 FLOW_TYPE_VDEV 1 2) (fc_init 4) = Some first_only"
    by (simp add: fc_eval first_only_def first_pool_def woken_def)
  have b: "fc_step ex_env (Flow_map 1 FLOW_TYPE_VDEV 2 4) first_only =
      Some (two_pools (ex_pool 2 1 FLOW_POOL_ACTIVE_UNPAUSED 2 2 [3,2]) (\<lambda>_. 0) Map.empty [])"
    by (simp add: fc_eval first_only_def first_pool_def two_pools_def ex_pool_def woken_def)
  have c: "fc_step ex_env (Desc_alloc 1 False) (two_pools (ex_pool 2 1 FLOW_POOL_ACTIVE_UNPAUSED 2 2 [3,2]) (\<lambda>_. 0) Map.empty []) = Some sent_pool"
    by (rule trans [OF alloc_step]) (simp add: two_pools_def ex_pool_def)+
  have d: "fc_step ex_env (Desc_free 3) sent_pool = Some stopped_pool"
    by (simp add: two_pools_def ex_pool_def ol_tx_desc_free_def ol_tx_desc_free_common_def ol_tx_update_free_desc_to_pool_def
        ol_tx_put_desc_flow_pool_def upd_pool_def pool_of_def touch_def Let_def free_status_def fun_upd_idem)
  have 1: "fc_reachable 4 first_only" by (rule fc_next [OF init_reachable _ a]) (simp add: INVALID_FLOW_ID_def)
  have 2: "fc_reachable 4 sent_pool" by (rule fc_next [OF fc_next [OF 1 _ b] _ c]) (simp_all add: INVALID_FLOW_ID_def)
  show ?thesis by (rule fc_next [OF 2 _ d]) (simp add: two_pools_def)
qed


section \<open>States in which a call goes wrong\<close>

text \<open>Three of the four descriptors are in flight from the first pool.\<close>

lemma low_found: "fst (ol_tx_get_flow_pool 1 low_pool) = Some 0" "fst (ol_tx_get_flow_pool 1 idle_pool) = Some 0"
  by (simp_all add: ol_tx_get_flow_pool_def one_pool_def ex_pool_def pool_of_def touch_def)

lemma low_inflight: "inflight low_pool 0 = {1,2,3}"
  by (auto simp: inflight_def one_pool_def split: if_splits)

text \<open>The second pool gets the descriptors of the first one.\<close>

lemma stopped_unmap:
  "\<exists>s' q. fc_step ex_env (Flow_unmap 0 FLOW_TYPE_VDEV 1) stopped_pool = Some s' \<and> pools s' 1 = Some q \<and>
     avail_desc q = flow_pool_size q \<and> start_th q < avail_desc q \<and> inflight s' 1 = {}"
  by (simp add: fc_release_eval two_pools_def first_pool_def ex_pool_def inflight_def wake_paused_def
      ol_tx_get_desc_global_pool_def ol_tx_put_desc_flow_pool_def)

lemma stopped_found: "fst (ol_tx_get_flow_pool 1 stopped_pool) = Some 0"
  by (simp add: ol_tx_get_flow_pool_def two_pools_def first_pool_def pool_of_def touch_def)

lemma stopped_allowed: "fc_allowed ex_env (Flow_unmap 0 FLOW_TYPE_VDEV 1) stopped_pool"
  by (auto simp: unmap_allowed_def ol_tx_get_flow_pool_def two_pools_def first_pool_def pool_of_def touch_def ex_env_def
      INVALID_FLOW_ID_def split: if_splits)

end
