(* ===== verification/Fc_Faults.thy ===== *)
theory Fc_Faults
  imports Fc_Live
begin

text \<open>
  How a freed pool stays in use: by descriptors in flight from a pool that a resize left with as many
  available descriptors as its size, and by a second interface that was mapped to the pool.
\<close>

section \<open>Uses of a freed pool\<close>

lemma free_of_freed:
  assumes "desc_pool s d = Some p" "pools s p = None"
  shows "\<exists>s'. fc_step env (Desc_free d) s = Some s' \<and> fc_fault s'"
  using assms by (simp add: ol_tx_desc_free_def Let_def split_beta touch_def fault_def pool_of_def zero_pool_def
      ol_tx_desc_free_common_def ol_tx_update_free_desc_to_pool_def ol_tx_put_desc_flow_pool_def upd_pool_def free_status_def)

lemma alloc_of_freed:
  assumes "vdev_pool s v = Some p" "pools s p = None"
  shows "\<exists>s'. fc_step env (Desc_alloc v False) s = Some s' \<and> fc_fault s'"
  using assms by (simp add: ol_tx_desc_alloc_wrapper_def ol_tx_desc_alloc_def touch_def fault_def pool_of_def zero_pool_def upd_pool_def)

section \<open>A resize that records nothing\<close>

text \<open>The pool as the resize leaves it.\<close>

definition resized :: "fc_env \<Rightarrow> u16 \<Rightarrow> ol_tx_flow_pool_t \<Rightarrow> ol_tx_flow_pool_t \<Rightarrow> bool" where
  "resized env n q q' \<longleftrightarrow> flow_pool_size q' = n \<and> avail_desc q' = avail_desc q \<and> freelist q' = freelist q \<and> ref_cnt q' = ref_cnt q \<and>
     flow_pool_id q' = flow_pool_id q \<and> overflow_desc q' = 0 \<and> deficient_desc q' = 0"

text \<open>Everything but the pool, its statistics and the log is as it was.\<close>

definition same_but :: "ptr \<Rightarrow> fc_state \<Rightarrow> fc_state \<Rightarrow> bool" where
  "same_but p s s' \<longleftrightarrow> (\<forall>x. x \<noteq> p \<longrightarrow> pools s' x = pools s x) \<and> flow_pool_list s' = flow_pool_list s \<and> vdev_pool s' = vdev_pool s \<and>
     desc_ref s' = desc_ref s \<and> desc_pool s' = desc_pool s"

lemma same_but_refl [simp]: "same_but p s s"
  by (simp add: same_but_def)

lemma same_but_trans: "same_but p s s1 \<Longrightarrow> same_but p s1 s2 \<Longrightarrow> same_but p s s2"
  by (simp add: same_but_def)

lemma shrink_takes_nothing:
  assumes q: "pools s p = Some q" and few: "avail_desc q \<le> start_priority_th q" and n: "n < flow_pool_size q"
    and z: "overflow_desc q = 0" "deficient_desc q = 0"
  shows "\<exists>q'. pools (shrink_pool env p n s) p = Some q' \<and> resized env n q q' \<and> same_but p s (shrink_pool env p n s)"
proof -
  have d: "flow_pool_size q - n \<noteq> 0" using n by auto
  have "\<not> unat (avail_desc q) \<ge> unat (flow_pool_size q - n) + unat (start_priority_th q)"
  proof -
    have "unat (flow_pool_size q - n) \<noteq> 0" using d by (simp only: unat_eq_zero not_False_eq_True)
    then show ?thesis using few unfolding word_le_nat_alt by linarith
  qed
  then have "shrink_pool env p n s =
      ol_tx_flow_pool_update env p n 0 0 (upd_pool p (\<lambda>r. r\<lparr>overflow_desc := 0\<rparr>) s)"
    unfolding shrink_pool_def Let_def pool_of_some [OF q] z using few d by (simp add: not_less [symmetric] del: right_minus_eq)
  then show ?thesis
    using q z by (simp add: upd_pool_def ol_tx_flow_pool_update_def set_thresholds_def resized_def same_but_def Let_def)
qed

lemma queue_state_keeps:
  assumes "pools s p = Some q"
  shows "\<exists>st. pools (ol_tx_flow_pool_update_queue_state p s) p = Some (q\<lparr>pool_status := st\<rparr>) \<and>
    same_but p s (ol_tx_flow_pool_update_queue_state p s)"
proof -
  have "\<exists>st. q = q\<lparr>pool_status := st\<rparr>" by (rule exI [of _ "pool_status q"]) simp
  then show ?thesis using assms
    by (auto simp: ol_tx_flow_pool_update_queue_state_def Let_def upd_pool_def same_but_def pause_cb_def)
qed

lemma shrink_handler:
  assumes ok: "fc_ok N s" and g: "fst (ol_tx_get_flow_pool fid s) = Some p" and q: "pools s p = Some q"
    and few: "avail_desc q \<le> start_priority_th q" and n: "n < flow_pool_size q" and z: "overflow_desc q = 0" "deficient_desc q = 0"
  shows "\<exists>s1 q1. fc_step env (Flow_resize fid n) s = Some s1 \<and> pools s1 p = Some q1 \<and> resized env n q q1 \<and> same_but p s s1"
proof -
  let ?s0 = "s\<lparr>pool_stats := (pool_stats s)\<lparr>pool_resize_count := pool_resize_count (pool_stats s) + 1\<rparr>\<rparr>"
  have I: "fc_inv N [] (\<lambda>_. 0) (users s) ?s0" using ok by (simp add: fc_ok_def)
  have "fst (ol_tx_get_flow_pool fid ?s0) = Some p" using g by (simp add: ol_tx_get_flow_pool_def find_pool_find pool_of_def)
  then have g0: "ol_tx_get_flow_pool fid ?s0 = (Some p, ?s0)" using get_flow_pool_spec(1) [OF I, of fid] by (metis prod.collapse)
  have r: "ref_cnt q = 1" using ok q by (simp add: fc_ok_def ones_def)
  let ?t = "ol_tx_inc_pool_ref p ?s0" and ?q = "q\<lparr>ref_cnt := ref_cnt q + 1\<rparr>"
  have t: "pools ?t p = Some ?q" "same_but p s ?t" using q by (simp_all add: ol_tx_inc_pool_ref_def upd_pool_def same_but_def)
  obtain q1 where q1: "pools (shrink_pool env p n ?t) p = Some q1" "resized env n ?q q1" "same_but p ?t (shrink_pool env p n ?t)"
    using shrink_takes_nothing [OF t(1), of n] few n z by auto
  let ?u = "ol_tx_flow_pool_resize env p n ?t"
  have u: "?u = ol_tx_flow_pool_update_queue_state p (shrink_pool env p n ?t)"
    using t(1) n by (auto simp: ol_tx_flow_pool_resize_def Let_def)
  obtain st where st: "pools ?u p = Some (q1\<lparr>pool_status := st\<rparr>)" "same_but p (shrink_pool env p n ?t) ?u"
    using queue_state_keeps [OF q1(1)] unfolding u by blast
  have rc: "ref_cnt q1 = 2" using q1(2) r by (simp add: resized_def)
  let ?v = "upd_pool p (\<lambda>q. q\<lparr>ref_cnt := ref_cnt q - 1\<rparr>) ?u" and ?q2 = "q1\<lparr>pool_status := st, ref_cnt := 1\<rparr>"
  have v: "pools ?v p = Some ?q2" "same_but p ?u ?v" using st(1) rc by (simp_all add: upd_pool_def same_but_def)
  have "ol_tx_dec_pool_ref p False ?u = Some ?v"
    using v(1) by (simp add: ol_tx_dec_pool_ref_calls Let_def)
  then have "fc_step env (Flow_resize fid n) s = Some ?v"
    using g0 by (simp add: ol_tx_flow_pool_resize_handler_def Let_def)
  moreover have "resized env n q ?q2" using q1(2) r by (simp add: resized_def)
  moreover have "same_but p s ?v"
    using t(2) q1(3) st(2) v(2) by (blast intro: same_but_trans)
  ultimately show ?thesis using v(1) by blast
qed

section \<open>Unmapping the resized pool\<close>

lemma put_global_all:
  "k = length l \<Longrightarrow> pools (put_global_n k l s) = pools s \<and> flow_pool_list (put_global_n k l s) = flow_pool_list s \<and>
     desc_ref (put_global_n k l s) = desc_ref s \<and> desc_pool (put_global_n k l s) = desc_pool s"
  by (induction l arbitrary: k s) (simp_all add: ol_tx_put_desc_global_pool_def)

lemma unmap_resized:
  assumes I: "fc_inv N [] (\<lambda>_. 0) U s0" and g: "fst (ol_tx_get_flow_pool fid s0) = Some p" and q0: "pools s0 p = Some q0"
    and s: "same_but p s0 s" and q: "pools s p = Some q" "resized env n q0 q" "avail_desc q = n" "ref_cnt q = 1"
    and env: "vdev_exists env v" and full: "\<And>x q. x \<noteq> p \<Longrightarrow> pools s0 x = Some q \<Longrightarrow> deficient_desc q = 0"
  shows "\<exists>s'. fc_step env (Flow_unmap v FLOW_TYPE_VDEV fid) s = Some s' \<and> pools s' p = None \<and> desc_ref s' = desc_ref s \<and> desc_pool s' = desc_pool s"
proof -
  let ?s1 = "s\<lparr>pool_stats := (pool_stats s)\<lparr>pool_unmap_count := pool_unmap_count (pool_stats s) + 1\<rparr>\<rparr>"
  have l: "set (flow_pool_list s) = dom (pools s)" "distinct (flow_pool_list s)"
    using fc_inv_parts(4) [OF I] s q0 q(1) by (auto simp: listed_def same_but_def)
  have id: "flow_pool_id (pool_of ?s1 x) = flow_pool_id (pool_of s0 x)" for x
    using s q0 q(1,2) by (cases "x = p") (simp_all add: same_but_def pool_of_def resized_def)
  have "fst (ol_tx_get_flow_pool fid ?s1) = Some p"
    using g s by (simp add: ol_tx_get_flow_pool_def find_pool_find id same_but_def)
  moreover have "snd (ol_tx_get_flow_pool fid ?s1) = ?s1"
    unfolding ol_tx_get_flow_pool_def by (rule find_pool_spec(1)) (simp add: l(1))
  ultimately have g1: "ol_tx_get_flow_pool fid ?s1 = (Some p, ?s1)" by (metis prod.collapse)
  let ?q = "q\<lparr>member_flow_id := INVALID_FLOW_ID\<rparr>"
  let ?t = "upd_pool p (\<lambda>q. q\<lparr>member_flow_id := INVALID_FLOW_ID\<rparr>) (?s1\<lparr>vdev_pool := (vdev_pool s)(v := None)\<rparr>)"
  have e: "fc_step env (Flow_unmap v FLOW_TYPE_VDEV fid) s = ol_tx_dec_pool_ref p False ?t"
    using g1 env by (simp add: ol_tx_flow_pool_unmap_handler_def Let_def ol_tx_flow_pool_vdev_unmap_def)
  have t: "pools ?t p = Some ?q" "ref_cnt ?q = 1" using q(1,4) by (simp_all add: upd_pool_def)
  let ?u = "(unlinked p ?t)\<lparr>pools := (pools (unlinked p ?t))(p := None)\<rparr>"
  have "unat (avail_desc q) = length (freelist q)" using fc_inv_avail(2) [OF I q0] q(2) by (simp add: resized_def)
  note P = put_global_all [OF this, of ?u]
  have d: "delete_head p False (unlinked p ?t) = put_global_n (unat (avail_desc q)) (freelist q) ?u"
    using t(1) q(1,2,3) by (simp add: delete_head_def unlinked_def upd_pool_def resized_def Let_def)
  have up: "pools ?u = (pools s)(p := None)" "flow_pool_list ?u = remove1 p (flow_pool_list s)" "desc_ref ?u = desc_ref s" "desc_pool ?u = desc_pool s"
    using q(1) by (simp_all add: unlinked_def upd_pool_def)
  let ?v = "delete_head p False (unlinked p ?t)"
  have v: "pools ?v = (pools s)(p := None)" "flow_pool_list ?v = remove1 p (flow_pool_list s)" "desc_ref ?v = desc_ref s" "desc_pool ?v = desc_pool s"
    unfolding d using P up by simp_all
  have "ol_tx_distribute_descs_to_deficient_pools_from_global_pool ?v = Some ?v"
  proof (rule no_need_listed)
    show "set (flow_pool_list ?v) \<subseteq> dom (pools ?v)" unfolding v(1,2) using l by auto
    show "deficient_desc q' = 0" if "pools ?v x = Some q'" for x q'
      using that full [of x q'] s unfolding v(1) by (auto simp: same_but_def split: if_splits)
  qed
  then have "fc_step env (Flow_unmap v FLOW_TYPE_VDEV fid) s = Some ?v" unfolding e dec_pool_ref_last [OF t] .
  moreover have "pools ?v p = None" "desc_ref ?v = desc_ref s" "desc_pool ?v = desc_pool s" using v by simp_all
  ultimately show ?thesis by blast
qed

lemma used_after_shrink:
  assumes ok: "fc_ok N s" and g: "fst (ol_tx_get_flow_pool fid s) = Some p" and q: "pools s p = Some q"
    and few: "avail_desc q \<le> start_priority_th q" and n: "n < flow_pool_size q" and z: "overflow_desc q = 0"
    and full: "\<And>x q. pools s x = Some q \<Longrightarrow> deficient_desc q = 0"
  shows "\<exists>s1 q1. fc_step env (Flow_resize fid n) s = Some s1 \<and> pools s1 p = Some q1 \<and> flow_pool_size q1 = n \<and>
    avail_desc q1 = avail_desc q \<and> overflow_desc q1 = 0 \<and> inflight s1 p = inflight s p \<and>
    (avail_desc q = n \<longrightarrow> vdev_exists env v \<longrightarrow>
       (\<exists>s2. fc_step env (Flow_unmap v FLOW_TYPE_VDEV fid) s1 = Some s2 \<and> pools s2 p = None \<and> inflight s p \<noteq> {} \<and>
          (\<forall>d \<in> inflight s p. d \<in> inflight s2 p \<and> (\<exists>s3. fc_step env (Desc_free d) s2 = Some s3 \<and> fc_fault s3))))"
proof -
  have I: "fc_inv N [] (\<lambda>_. 0) (users s) s" using ok by (simp add: fc_ok_def)
  have "ref_cnt q = 1" using ok q by (simp add: fc_ok_def ones_def)
  then obtain s1 q1 where s1: "fc_step env (Flow_resize fid n) s = Some s1" "pools s1 p = Some q1" "resized env n q q1" "same_but p s s1" "ref_cnt q1 = 1"
    using shrink_handler [OF ok g q few n z full [OF q], of env] by (auto simp: resized_def)
  have i: "inflight s1 = inflight s" using s1(4) by (simp add: same_but_def inflight_def fun_eq_iff)
  have "\<exists>s2. fc_step env (Flow_unmap v FLOW_TYPE_VDEV fid) s1 = Some s2 \<and> pools s2 p = None \<and> inflight s p \<noteq> {} \<and>
          (\<forall>d \<in> inflight s p. d \<in> inflight s2 p \<and> (\<exists>s3. fc_step env (Desc_free d) s2 = Some s3 \<and> fc_fault s3))"
    if a: "avail_desc q = n" "vdev_exists env v"
  proof -
    have "avail_desc q1 = n" using s1(3) a(1) by (simp add: resized_def)
    then obtain s2 where s2: "fc_step env (Flow_unmap v FLOW_TYPE_VDEV fid) s1 = Some s2" "pools s2 p = None"
      "desc_ref s2 = desc_ref s1" "desc_pool s2 = desc_pool s1"
      using unmap_resized [OF I g q s1(4,2,3) _ s1(5) a(2)] full by blast
    have "inflight s2 = inflight s1" using s2(3,4) by (simp add: inflight_def fun_eq_iff)
    then have i2: "inflight s2 = inflight s" using i by simp
    have "uint (flow_pool_size q) = int (length (freelist q)) + int (card (inflight s p))"
      using balancedD [OF I q] z full [OF q] by simp
    moreover have "uint n = int (length (freelist q))" using fc_inv_uint [OF I q] a(1) by simp
    ultimately have "inflight s p \<noteq> {}" using n by (auto simp: word_less_def)
    moreover have "d \<in> inflight s2 p \<and> (\<exists>s3. fc_step env (Desc_free d) s2 = Some s3 \<and> fc_fault s3)" if "d \<in> inflight s p" for d
    proof -
      have i: "d \<in> inflight s2 p" using that i2 by simp
      then have "\<exists>s3. fc_step env (Desc_free d) s2 = Some s3 \<and> fc_fault s3" by (intro free_of_freed [OF _ s2(2)]) (simp add: inflight_def)
      then show ?thesis using i by (rule conjI [rotated])
    qed
    ultimately show ?thesis using s2(1,2) by (intro exI [of _ s2]) simp
  qed
  then show ?thesis using s1(1-3) i by (intro exI [of _ s1] exI [of _ q1]) (simp add: resized_def)
qed

section \<open>A second interface\<close>

lemma second_map:
  assumes ok: "fc_ok N s" and g: "fst (ol_tx_get_flow_pool fid s) = Some p" and q: "pools s p = Some q" and env: "vdev_exists env v2"
  shows "\<exists>s1. fc_step env (Flow_map v2 FLOW_TYPE_VDEV fid n) s = Some s1 \<and> pools s1 = (pools s)(p \<mapsto> q\<lparr>member_flow_id := v2\<rparr>) \<and>
    vdev_pool s1 = (vdev_pool s)(v2 \<mapsto> p) \<and> flow_pool_list s1 = flow_pool_list s"
proof -
  let ?s0 = "s\<lparr>pool_stats := (pool_stats s)\<lparr>pool_map_count := pool_map_count (pool_stats s) + 1\<rparr>\<rparr>"
  have I: "fc_inv N [] (\<lambda>_. 0) (users s) ?s0" using ok by (simp add: fc_ok_def)
  have "fst (ol_tx_get_flow_pool fid ?s0) = Some p" using g by (simp add: ol_tx_get_flow_pool_def find_pool_find pool_of_def)
  then have g0: "ol_tx_get_flow_pool fid ?s0 = (Some p, ?s0)" using get_flow_pool_spec(1) [OF I, of fid] by (metis prod.collapse)
  show ?thesis using g0 q env
    by (simp add: ol_tx_flow_pool_map_handler_def Let_def ol_tx_flow_pool_vdev_map_def upd_pool_def pause_cb_def)
qed

text \<open>Unmapping a pool that has all its descriptors frees it, whoever still points to it.\<close>

lemma unmap_frees:
  assumes ok: "fc_ok N s" and g: "fst (ol_tx_get_flow_pool fid s) = Some p" and q: "pools s p = Some q"
    and c: "avail_desc q = flow_pool_size q" "overflow_desc q = 0" and env: "vdev_exists env v"
  shows "\<exists>s'. fc_step env (Flow_unmap v FLOW_TYPE_VDEV fid) s = Some s' \<and> pools s' p = None \<and> vdev_pool s' = (vdev_pool s)(v := None)"
proof -
  let ?s0 = "s\<lparr>pool_stats := (pool_stats s)\<lparr>pool_unmap_count := pool_unmap_count (pool_stats s) + 1\<rparr>\<rparr>"
  have I: "fc_inv N [] (\<lambda>_. 0) (users s) ?s0" using ok by (simp add: fc_ok_def)
  have "fst (ol_tx_get_flow_pool fid ?s0) = Some p" using g by (simp add: ol_tx_get_flow_pool_def find_pool_find pool_of_def)
  then have g0: "ol_tx_get_flow_pool fid ?s0 = (Some p, ?s0)" using get_flow_pool_spec(1) [OF I, of fid] by (metis prod.collapse)
  let ?q = "q\<lparr>member_flow_id := INVALID_FLOW_ID\<rparr>"
  let ?t = "upd_pool p (\<lambda>q. q\<lparr>member_flow_id := INVALID_FLOW_ID\<rparr>) (?s0\<lparr>vdev_pool := (vdev_pool s)(v := None)\<rparr>)"
  have e: "fc_step env (Flow_unmap v FLOW_TYPE_VDEV fid) s = ol_tx_dec_pool_ref p False ?t"
    using g0 env by (simp add: ol_tx_flow_pool_unmap_handler_def Let_def ol_tx_flow_pool_vdev_unmap_def)
  have t: "pools ?t p = Some ?q" "vdev_pool ?t = (vdev_pool s)(v := None)" using q by (simp_all add: upd_pool_def)
  have "fc_inv N [] (\<lambda>_. 0) (users s) ?t" using I q by (intro upd_member_inv) simp_all
  then have It: "fc_inv N [] (\<lambda>_. 0) {} ?t" by (rule fc_inv_users) simp
  have "ref_cnt ?q = 1" using ok q by (simp add: fc_ok_def ones_def)
  then obtain s' where "ol_tx_dec_pool_ref p False ?t = Some s'" "sheds {p} ?t s'" "pools s' p = None"
    using release_returns [OF It t(1), of False] c by auto
  then show ?thesis unfolding e using t(2) by (auto simp: sheds_def)
qed

lemma second_map_dangles:
  assumes r: "fc_reachable N s" and fid: "fid \<noteq> INVALID_FLOW_ID" and g: "fst (ol_tx_get_flow_pool fid s) = Some p" and q: "pools s p = Some q"
    and c: "avail_desc q = flow_pool_size q" "overflow_desc q = 0" and env: "vdev_exists env v1" "vdev_exists env v2" and ne: "v1 \<noteq> v2"
  shows "\<exists>s1 s2 s3. fc_step env (Flow_map v2 FLOW_TYPE_VDEV fid n) s = Some s1 \<and> fc_reachable N s1 \<and> vdev_pool s1 v2 = Some p \<and>
    ref_cnt (pool_of s1 p) = ref_cnt q \<and>
    fc_step env (Flow_unmap v1 FLOW_TYPE_VDEV fid) s1 = Some s2 \<and> pools s2 p = None \<and> vdev_pool s2 v2 = Some p \<and>
    fc_step env (Desc_alloc v2 False) s2 = Some s3 \<and> fc_fault s3"
proof -
  note ok = fc_reachable_inv [OF r]
  obtain s1 where s1: "fc_step env (Flow_map v2 FLOW_TYPE_VDEV fid n) s = Some s1" "pools s1 = (pools s)(p \<mapsto> q\<lparr>member_flow_id := v2\<rparr>)"
    "vdev_pool s1 = (vdev_pool s)(v2 \<mapsto> p)" "flow_pool_list s1 = flow_pool_list s"
    using second_map [OF ok g q env(2)] by blast
  have r1: "fc_reachable N s1" by (rule fc_next [OF r _ s1(1)]) (simp add: fid)
  have p1: "pools s1 p = Some (q\<lparr>member_flow_id := v2\<rparr>)" using s1(2) by simp
  have "flow_pool_id (pool_of s1 x) = flow_pool_id (pool_of s x)" for x using s1(2) q by (simp add: pool_of_def)
  then have g1: "fst (ol_tx_get_flow_pool fid s1) = Some p" using g s1(4) by (simp add: ol_tx_get_flow_pool_def find_pool_find)
  obtain s2 where s2: "fc_step env (Flow_unmap v1 FLOW_TYPE_VDEV fid) s1 = Some s2" "pools s2 p = None" "vdev_pool s2 = (vdev_pool s1)(v1 := None)"
    using unmap_frees [OF fc_reachable_inv [OF r1] g1 p1 _ _ env(1)] c by auto
  have v2: "vdev_pool s2 v2 = Some p" using s1(3) s2(3) ne by simp
  obtain s3 where "fc_step env (Desc_alloc v2 False) s2 = Some s3" "fc_fault s3" using alloc_of_freed [OF v2 s2(2)] by blast
  then show ?thesis using s1(1,3) r1 p1 s2(1,2) v2 by (intro exI [of _ s1] exI [of _ s2] exI [of _ s3]) simp
qed

end
