(* ===== verification/Fc_Wake.thy ===== *)
theory Fc_Wake
  imports Fc_Ops
begin

text \<open>
  Which queues the distribution of descriptors wakes.  The moves between the lists of the pools change
  no status; only \<open>wake_paused\<close> does, and only of pools whose queues are all stopped.  A release
  therefore leaves every other pool whose non-priority queues are stopped as it is.
\<close>

section \<open>Changes that wake nobody\<close>

definition front :: "fc_state \<Rightarrow> ptr \<Rightarrow> (flow_pool_status \<times> u8) option" where
  "front s p = map_option (\<lambda>q. (pool_status q, member_flow_id q)) (pools s p)"

definition still :: "fc_state \<Rightarrow> fc_state \<Rightarrow> bool" where
  "still s s' \<longleftrightarrow> front s' = front s \<and> fc_log s' = fc_log s"

lemma still_refl [simp]: "still s s"
  by (simp add: still_def)

lemma still_trans [trans]: "still s s1 \<Longrightarrow> still s1 s2 \<Longrightarrow> still s s2"
  by (simp add: still_def)

lemma still_same: "pools s' = pools s \<Longrightarrow> fc_log s' = fc_log s \<Longrightarrow> still s s'"
  by (simp add: still_def front_def fun_eq_iff)

lemma still_touch [simp]: "still s (touch p s)"
  by (simp add: still_same touch_def fault_def)

lemma still_upd:
  "(\<And>q. pool_status (f q) = pool_status q \<and> member_flow_id (f q) = member_flow_id q) \<Longrightarrow> still s (upd_pool p f s)"
  by (auto simp: still_def front_def upd_pool_def fault_def fun_eq_iff split: option.split)

lemma still_put [simp]: "still s (ol_tx_put_desc_flow_pool p d s)" "still s (ol_tx_put_desc_global_pool d s)"
proof -
  have "still (s\<lparr>desc_pool := (desc_pool s)(d := Some p)\<rparr>) (ol_tx_put_desc_flow_pool p d s)"
    unfolding ol_tx_put_desc_flow_pool_def by (rule still_upd) simp
  then show "still s (ol_tx_put_desc_flow_pool p d s)" by (rule still_trans [OF still_same, rotated 2]) simp_all
  show "still s (ol_tx_put_desc_global_pool d s)" by (simp add: ol_tx_put_desc_global_pool_def still_same)
qed

lemma still_get [simp]: "still s (snd (ol_tx_get_desc_flow_pool p s))" "still s (snd (ol_tx_get_desc_global_pool s))"
  by (auto simp: ol_tx_get_desc_flow_pool_def ol_tx_get_desc_global_pool_def fault_def intro: still_same still_upd split: list.split)

lemma still_get_global_n: "still s (snd (get_global_n n temp s))"
proof (induction n arbitrary: temp s)
  case (Suc n)
  show ?case using still_trans [OF still_get(2) Suc] by (simp add: split_beta)
qed simp

lemma still_get_flow_n: "still s (snd (get_flow_n p n temp s))"
proof (induction n arbitrary: temp s)
  case (Suc n)
  show ?case using still_trans [OF still_get(1) Suc] by (simp add: split_beta)
qed simp

lemma still_put_global_n: "still s (put_global_n n temp s)"
proof (induction n temp s rule: put_global_n.induct)
  case (3 n d temp s)
  then show ?case using still_trans [OF still_put(2)] by simp
qed (simp_all add: fault_def still_same)

lemma still_put_flow_n: "still s (snd (put_flow_n p n temp s))"
proof (induction p n temp s rule: put_flow_n.induct)
  case (3 p n d temp s)
  then show ?case using still_trans [OF still_put(1)] by simp
qed (simp_all add: fault_def still_same)

lemma still_fold: "still s (fold (ol_tx_put_desc_flow_pool p) l s)"
proof (induction l arbitrary: s)
  case (Cons d l)
  show ?case using still_trans [OF still_put(1) Cons] by simp
qed simp

lemma still_fold_touch: "still s (fold touch l s)"
proof (induction l arbitrary: s)
  case (Cons d l)
  show ?case using still_trans [OF still_touch Cons] by simp
qed simp

lemma still_move_in: "still s (snd (snd (move_in dst n temp count s)))"
proof (induction n arbitrary: temp count s)
  case (Suc n)
  let ?s1 = "upd_pool dst (\<lambda>q. q\<lparr>deficient_desc := deficient_desc q - 1\<rparr>) s"
  have 1: "still s ?s1" by (rule still_upd) simp
  have 2: "still ?s1 (fault ?s1)" by (simp add: fault_def still_same)
  have "still ?s1 (snd (snd (move_in dst n ds (Suc count) (ol_tx_put_desc_flow_pool dst d ?s1))))" for d ds
    by (rule still_trans [OF still_put(1) Suc])
  then show ?case using 1 2 still_trans [OF 1] by (auto simp: Let_def split: list.split)
qed simp

lemma still_move: "still s (snd (ol_tx_move_desc_n src dst n s))"
proof -
  have "still s (snd (get_flow_n src n [] (touch src s)))" by (rule still_trans [OF still_touch still_get_flow_n])
  then have "still s (touch dst (snd (get_flow_n src n [] (touch src s))))" by (rule still_trans [OF _ still_touch])
  then have "still s (snd (snd (move_in dst n (fst (get_flow_n src n [] (touch src s))) 0 (touch dst (snd (get_flow_n src n [] (touch src s)))))))"
    by (rule still_trans [OF _ still_move_in])
  then show ?thesis unfolding ol_tx_move_desc_n_def Let_def split_beta snd_conv by (rule still_trans [OF _ still_fold])
qed

section \<open>Changes that wake only stopped pools\<close>

text \<open>The events that such a change may add: those of pools whose queues are all stopped.\<close>

definition paused_events :: "fc_state \<Rightarrow> fc_event set" where
  "paused_events s = {Pause_cb (member_flow_id q) a x | p q a x. pools s p = Some q \<and> pool_status q = FLOW_POOL_ACTIVE_PAUSED}"

definition calm :: "ptr set \<Rightarrow> fc_state \<Rightarrow> fc_state \<Rightarrow> bool" where
  "calm P s s' \<longleftrightarrow> paused_events s' \<subseteq> paused_events s \<and> (\<exists>evs. fc_log s' = fc_log s @ evs \<and> set evs \<subseteq> paused_events s) \<and>
     (\<forall>r v. r \<notin> P \<longrightarrow> front s r = Some (FLOW_POOL_NON_PRIO_PAUSED, v) \<longrightarrow> front s' r = Some (FLOW_POOL_NON_PRIO_PAUSED, v))"

lemma paused_events_front: "paused_events s = {Pause_cb v a x | p v a x. front s p = Some (FLOW_POOL_ACTIVE_PAUSED, v)}"
  by (auto simp: paused_events_def front_def)

lemma calm_still: "still s s' \<Longrightarrow> calm P s s'"
  by (simp add: calm_def still_def paused_events_front)

lemma calm_trans:
  assumes "calm P s s1" "calm P s1 s2"
  shows "calm P s s2"
proof -
  obtain e1 e2 where "fc_log s1 = fc_log s @ e1" "fc_log s2 = fc_log s1 @ e2" "set e1 \<subseteq> paused_events s" "set e2 \<subseteq> paused_events s1"
    using assms unfolding calm_def by blast
  moreover have "paused_events s1 \<subseteq> paused_events s" "paused_events s2 \<subseteq> paused_events s1" using assms by (simp_all add: calm_def)
  ultimately show ?thesis using assms unfolding calm_def by auto
qed

lemma calm_wake: "calm P s (wake_paused dst prio s)"
proof (cases "pools s dst")
  case None
  then show ?thesis by (intro calm_still) (simp add: wake_paused_def pool_of_def zero_pool_def)
next
  case (Some q)
  show ?thesis
  proof (cases "pool_status q = FLOW_POOL_ACTIVE_PAUSED \<and> avail_desc q > start_th q")
    case True
    then have "Pause_cb (member_flow_id q) a x \<in> paused_events s" for a x using Some by (auto simp: paused_events_def)
    then show ?thesis using True Some
      by (auto simp: calm_def wake_paused_def pool_of_def upd_pool_def pause_cb_def paused_events_front front_def split: if_splits)
  next
    case False
    then have "wake_paused dst prio s = s" using Some by (auto simp: wake_paused_def pool_of_def)
    then show ?thesis by (simp add: calm_still)
  qed
qed

lemma calm_distribute_loop: "calm P s (distribute_loop src l c s)"
proof (induction l arbitrary: c s)
  case Nil
  show ?case by (simp add: calm_still)
next
  case (Cons dst l)
  let ?s0 = "touch dst s"
  have 0: "calm P s ?s0" by (rule calm_still) simp
  have m: "calm P s (wake_paused dst True (snd (ol_tx_move_desc_n src dst n ?s0)))" for n
    by (rule calm_trans [OF calm_trans [OF 0 calm_still [OF still_move]] calm_wake])
  show ?case using 0 m calm_trans [OF 0 Cons] calm_trans [OF m Cons] by (simp add: Let_def split_beta)
qed

lemma calm_global_loop: "calm P s (snd (global_loop l c temp t s))"
proof (induction l arbitrary: c temp t s)
  case Nil
  show ?case by (simp add: calm_still)
next
  case (Cons dst l)
  let ?s0 = "touch dst s"
  have 0: "calm P s ?s0" by (rule calm_still) simp
  have 1: "calm P ?s0 (upd_pool dst (\<lambda>q. q\<lparr>deficient_desc := deficient_desc q - k\<rparr>) ?s0)" for k
    by (rule calm_still, rule still_upd) simp
  have m: "calm P s (wake_paused dst False (snd (put_flow_n dst n temp (upd_pool dst (\<lambda>q. q\<lparr>deficient_desc := deficient_desc q - k\<rparr>) ?s0))))" for n k
    by (rule calm_trans [OF calm_trans [OF calm_trans [OF 0 1] calm_still [OF still_put_flow_n]] calm_wake])
  show ?case using 0 m calm_trans [OF 0 Cons] calm_trans [OF m Cons] by (simp add: Let_def split_beta)
qed

lemma calm_from_global: "calm P s (snd (distribute_from_global s))"
proof -
  let ?s0 = "fold touch (flow_pool_list s) s"
  have "calm P s (snd (get_global_n n [] ?s0))" for n
    by (rule calm_still, rule still_trans [OF still_fold_touch still_get_global_n])
  then have "calm P s (snd (get_global_n n [] ?s0))" "calm P s (snd (global_loop l c temp t (snd (get_global_n n [] ?s0))))" for n l c temp t
    by (auto intro: calm_trans [OF _ calm_global_loop])
  then show ?thesis unfolding distribute_from_global_def Let_def split_beta by (simp only: if_distrib [of snd] snd_conv if_True if_False split: if_split) blast
qed

section \<open>A release\<close>

text \<open>The pool itself is freed or becomes an invalid one.\<close>

lemma calm_forget:
  assumes "\<And>r. r \<noteq> p \<Longrightarrow> front s' r = front s r" "fc_log s' = fc_log s" "\<And>v. front s' p \<noteq> Some (FLOW_POOL_ACTIVE_PAUSED, v)"
  shows "calm {p} s s'"
proof -
  have "paused_events s' \<subseteq> paused_events s" unfolding paused_events_front using assms(1,3) by fastforce
  then show ?thesis using assms(1,2) by (simp add: calm_def)
qed

lemma calm_delete: "calm {p} s (delete_head p force s)"
proof -
  define s2 where "s2 = (if avail_desc (pool_of s p) = flow_pool_size (pool_of s p) \<or> force then s\<lparr>pools := (pools s)(p := None)\<rparr>
     else let s1 = upd_pool p (\<lambda>q. q\<lparr>pool_status := FLOW_POOL_INVALID, freelist := [], avail_desc := 0,
                                              flow_pool_size := flow_pool_size q - avail_desc (pool_of s p), flow_pool_id := INVALID_FLOW_ID\<rparr>) s;
              s2 = ol_tx_inc_pool_ref p s1; n = num_invalid_bin s2 + 1
          in s2\<lparr>num_invalid_bin := n, fc_assert := (fc_assert s2 \<or> n > MAX_INVALID_BIN), flow_pool_list := flow_pool_list s2 @ [p]\<rparr>)"
  have "calm {p} s s2"
    by (rule calm_forget)
      (auto simp: s2_def front_def upd_pool_def ol_tx_inc_pool_ref_def fault_def Let_def fun_eq_iff split: option.split if_split)
  moreover have "delete_head p force s = put_global_n (unat (avail_desc (pool_of s p))) (freelist (pool_of s p)) s2"
    by (simp add: delete_head_def s2_def Let_def)
  ultimately show ?thesis using calm_trans [OF _ calm_still [OF still_put_global_n]] by simp
qed

lemma calm_free_invalid: "calm P s (snd (free_invalid_head p s))"
proof -
  let ?s0 = "touch p s"
  let ?s1 = "ol_tx_distribute_descs_to_deficient_pools p ?s0"
  have 0: "calm P s ?s0" by (rule calm_still) simp
  have "calm P ?s0 ?s1" unfolding ol_tx_distribute_descs_to_deficient_pools_def Let_def
    by (rule calm_trans [OF calm_still [OF still_touch] calm_distribute_loop])
  then have 1: "calm P s ?s1" by (rule calm_trans [OF 0])
  have "still ?s1 (upd_pool p (\<lambda>q. q\<lparr>flow_pool_size := avail_desc q\<rparr>) ?s1)" by (rule still_upd) simp
  moreover have "still t (t\<lparr>num_invalid_bin := n\<rparr>)" for t n by (rule still_same) simp_all
  ultimately have "calm P s ((upd_pool p (\<lambda>q. q\<lparr>flow_pool_size := avail_desc q\<rparr>) ?s1)\<lparr>num_invalid_bin := n\<rparr>)" for n
    by (intro calm_trans [OF 1] calm_still) (rule still_trans)
  then show ?thesis using 0 by (simp add: free_invalid_head_def Let_def)
qed

lemma free_invalid_front: "fst (free_invalid_head p s) \<Longrightarrow> front s p \<noteq> Some (FLOW_POOL_NON_PRIO_PAUSED, v)"
  by (auto simp: free_invalid_head_def Let_def front_def pool_of_def touch_def fault_def split: if_splits)

lemma calm_mono:
  "calm Q s s' \<Longrightarrow> (\<And>r v. r \<in> Q \<Longrightarrow> r \<notin> P \<Longrightarrow> front s r \<noteq> Some (FLOW_POOL_NON_PRIO_PAUSED, v)) \<Longrightarrow> calm P s s'"
  unfolding calm_def by blast

lemma calm_release:
  assumes "ol_tx_dec_pool_ref p force s = Some s'"
  shows "calm {p} s s'"
proof (rule ol_tx_dec_pool_ref.raw_induct [OF _ assms])
  fix rec p force s s'
  assume hyp: "\<And>p force s s'. rec p force s = Some s' \<Longrightarrow> calm {p} s s'"
    and body: "(let s1 = upd_pool p (\<lambda>q. q\<lparr>ref_cnt := ref_cnt q - 1\<rparr>) s in
      if pools s1 p = None \<or> ref_cnt (pool_of s1 p) \<noteq> 0 then Some s1
      else let s2 = delete_head p force (s1\<lparr>flow_pool_list := remove1 p (flow_pool_list s1)\<rparr>);
               s3 = snd (distribute_from_global s2)
           in case fst (distribute_from_global s2) of
                None \<Rightarrow> Some s3
              | Some p' \<Rightarrow>
                  if fst (free_invalid_head p' s3) then rec p' False (snd (free_invalid_head p' s3))
                  else Some (snd (free_invalid_head p' s3))) = Some s'"
  define s1 where "s1 = upd_pool p (\<lambda>q. q\<lparr>ref_cnt := ref_cnt q - 1\<rparr>) s"
  let ?s2 = "delete_head p force (s1\<lparr>flow_pool_list := remove1 p (flow_pool_list s1)\<rparr>)"
  let ?s3 = "snd (distribute_from_global ?s2)"
  have u: "calm {p} s s1" unfolding s1_def by (rule calm_still, rule still_upd) simp
  have "calm {p} s1 (s1\<lparr>flow_pool_list := remove1 p (flow_pool_list s1)\<rparr>)" by (rule calm_still, rule still_same) simp_all
  then have "calm {p} s ?s2" by (rule calm_trans [OF calm_trans [OF u] calm_delete])
  then have 3: "calm {p} s ?s3" by (rule calm_trans [OF _ calm_from_global])
  show "calm {p} s s'"
  proof (cases "pools s1 p = None \<or> ref_cnt (pool_of s1 p) \<noteq> 0")
    case True
    then have "s' = s1" using body by (simp add: s1_def [symmetric] Let_def)
    then show ?thesis using u by simp
  next
    case False
    note r = body [folded s1_def, unfolded Let_def, unfolded if_not_P [OF False]]
    show ?thesis
    proof (cases "fst (distribute_from_global ?s2)")
      case None
      then show ?thesis using r 3 by simp
    next
      case (Some p')
      let ?s4 = "snd (free_invalid_head p' ?s3)"
      show ?thesis
      proof (cases "fst (free_invalid_head p' ?s3)")
        case True
        then have "rec p' False ?s4 = Some s'" using r Some by simp
        then have "calm {p'} ?s4 s'" by (rule hyp)
        then have "calm {p'} ?s3 s'" by (rule calm_trans [OF calm_free_invalid])
        then have "calm {p} ?s3 s'" by (rule calm_mono) (use free_invalid_front [OF True] in simp)
        then show ?thesis by (rule calm_trans [OF 3])
      qed (use r Some calm_trans [OF 3 calm_free_invalid] in auto)
    qed
  qed
qed

text \<open>The unmapping of a pool.\<close>

lemma find_pool_still: "fst (find_pool fid l s) = fst (find_pool fid l t) \<or> pools s \<noteq> pools t" "still s (snd (find_pool fid l s))"
  "pools (snd (find_pool fid l s)) = pools s"
proof (induction l arbitrary: s t)
  case (Cons p l)
  { case 1
    have "pools (touch p s) = pools s" "pools (touch p t) = pools t" by (simp_all add: touch_def fault_def)
    then show ?case using Cons(1) [of "touch p s" "touch p t"] by (auto simp: Let_def pool_of_def) }
  { case 2 show ?case using still_trans [OF still_touch Cons(2)] by (simp add: Let_def) }
  { case 3 show ?case using Cons(3) [of "touch p s"] by (simp add: Let_def touch_def fault_def) }
qed simp_all

lemma calm_unmap:
  assumes "fst (ol_tx_get_flow_pool fid s) = Some p" "ol_tx_flow_pool_unmap_handler env v FLOW_TYPE_VDEV fid s = Some s'"
  shows "calm {p} (ol_tx_flow_pool_vdev_unmap env p v s) s'"
proof -
  let ?s0 = "s\<lparr>pool_stats := (pool_stats s)\<lparr>pool_unmap_count := pool_unmap_count (pool_stats s) + 1\<rparr>\<rparr>"
  let ?s1 = "snd (ol_tx_get_flow_pool fid ?s0)"
  have f: "fst (ol_tx_get_flow_pool fid ?s0) = Some p"
    using find_pool_still(1) [of fid "flow_pool_list s" s ?s0] assms(1) by (simp add: ol_tx_get_flow_pool_def)
  have "still ?s0 ?s1" "pools ?s1 = pools ?s0" unfolding ol_tx_get_flow_pool_def by (rule find_pool_still)+
  then have "still (ol_tx_flow_pool_vdev_unmap env p v s) (ol_tx_flow_pool_vdev_unmap env p v ?s1)"
    by (auto simp: still_def front_def ol_tx_flow_pool_vdev_unmap_def upd_pool_def fault_def fun_eq_iff split: option.split)
  moreover have "ol_tx_dec_pool_ref p False (ol_tx_flow_pool_vdev_unmap env p v ?s1) = Some s'"
    using assms(2) f by (simp add: ol_tx_flow_pool_unmap_handler_def Let_def split: prod.splits)
  ultimately show ?thesis using calm_trans [OF calm_still calm_release] by blast
qed

end
