(* ===== verification/Fc_Props.thy ===== *)
theory Fc_Props
  imports Fc_Cases Fc_Faults Fc_Wake
begin

text \<open>The properties of the flow control pools, with their witnesses.\<close>

lemma reachable_fc_inv: "fc_reachable N s \<Longrightarrow> fc_inv N [] (\<lambda>_. 0) (users s) s"
  using fc_reachable_inv by (simp add: fc_ok_def)

lemma ucast_sum:
  "(\<And>x. x \<in> set l \<Longrightarrow> f x = of_nat (length (g x))) \<Longrightarrow> sum_list (map f l) = of_nat (length (concat (map g l)))"
  by (induction l) auto

section \<open>Safety of runs\<close>

text \<open>C31. No run of the flow control pools uses a freed pool or takes a descriptor from an empty list,
  as long as the firmware unmaps a pool only for its one interface and without an overflow, and no resize
  leaves descriptors unrecorded.  The pool of a descriptor in flight is alive when its frame completes,
  and the pool of an interface is alive and not one that is being dissolved.\<close>

theorem fc_run_safe:
  assumes "fc_reachable N s"
  shows "\<not> fc_fault s \<and> (\<forall>d. desc_ref s d \<noteq> 0 \<longrightarrow> (\<exists>p q. desc_pool s d = Some p \<and> pools s p = Some q)) \<and>
    (\<forall>v p. vdev_pool s v = Some p \<longrightarrow> (\<exists>q. pools s p = Some q \<and> pool_status q \<noteq> FLOW_POOL_INVALID))"
proof -
  note I = reachable_fc_inv [OF assms]
  have "\<exists>p q. desc_pool s d = Some p \<and> pools s p = Some q" if d: "desc_ref s d \<noteq> 0" for d
  proof -
    have "d < N" "d \<notin> spare [] s" using fc_inv_parts(1) [OF I] d by (auto simp: lists_ok_def)
    then have "home s d" using fc_inv_parts(3) [OF I] by blast
    then show ?thesis by (auto simp: home_def split: option.splits)
  qed
  moreover have "\<exists>q. pools s p = Some q \<and> pool_status q \<noteq> FLOW_POOL_INVALID" if "vdev_pool s v = Some p" for v p
    using user_live [OF I, of p] that by (auto simp: users_def ran_def)
  ultimately show ?thesis using fc_inv_parts(1) [OF I] by (simp add: lists_ok_def)
qed

theorem fc_run_safe_witness: "desc_pool low_pool 3 = Some 0 \<and> \<not> fc_fault low_pool"
  using fc_run_safe [OF low_reachable] by (simp add: one_pool_def)

text \<open>C32. Every step that keeps the contracts (an unmap only for the one interface of a pool and without an
  overflow, no resize that leaves descriptors unrecorded, completions of frames in flight) returns, and
  leaves a state of a run: the chain of calls that drops a reference, deletes a pool, gives its
  descriptors away and frees a pool that this completed ends, whatever the pools need.\<close>

theorem fc_step_returns:
  assumes "fc_reachable N s" "fc_allowed env op s"
  shows "\<exists>s'. fc_step env op s = Some s' \<and> fc_reachable N s'"
  using fc_step_ok [OF fc_reachable_inv [OF assms(1)] assms(2)] fc_next [OF assms] by blast

theorem fc_step_returns_witness: "\<exists>s'. fc_step ex_env (Desc_free 3) low_pool = Some s' \<and> fc_reachable 4 s'"
  by (rule fc_step_returns [OF low_reachable]) (simp add: one_pool_def)

text \<open>C33. Descriptors are conserved in every state of a run, as long as pools are unmapped only for their
  one interface and without an overflow, and no resize leaves descriptors unrecorded: the free
  descriptors of the global list and of all pools are pairwise different, none of them is in flight, and
  together with those in flight they are all descriptors of the device.  The sixteen-bit counters of a
  pool say so without a wrap: the available ones are those on its list, and its size and its overflow
  add up to the available, deficient and in-flight descriptors.\<close>

theorem fc_conservation:
  assumes "fc_reachable N s"
  shows "distinct (all_free s) \<and> set (all_free s) \<inter> {d. desc_ref s d \<noteq> 0} = {} \<and> set (all_free s) \<union> {d. desc_ref s d \<noteq> 0} = {..<N} \<and>
    unat (num_free s) = length (tx_freelist s) \<and>
    (\<forall>p q. pools s p = Some q \<longrightarrow> unat (avail_desc q) = length (freelist q) \<and>
       unat (flow_pool_size q) + unat (overflow_desc q) = unat (avail_desc q) + card (inflight s p) + unat (deficient_desc q))"
proof -
  note I = reachable_fc_inv [OF assms]
  have "unat (flow_pool_size q) + unat (overflow_desc q) = unat (avail_desc q) + card (inflight s p) + unat (deficient_desc q)"
    if q: "pools s p = Some q" for p q
  proof -
    have "int (unat (flow_pool_size q)) + int (unat (overflow_desc q)) =
        int (length (freelist q)) + int (card (inflight s p)) + int (unat (deficient_desc q))"
      using balancedD [OF I q] by (simp add: uint_nat [symmetric])
    then have "unat (flow_pool_size q) + unat (overflow_desc q) = length (freelist q) + card (inflight s p) + unat (deficient_desc q)" by linarith
    then show ?thesis using fc_inv_avail(2) [OF I q] by simp
  qed
  moreover have "unat (avail_desc q) = length (freelist q)" if "pools s p = Some q" for p q by (rule fc_inv_avail(2) [OF I that])
  ultimately show ?thesis using all_free_inv [OF I] fc_inv_len [OF I] by simp
qed

theorem fc_conservation_witness: "set (all_free low_pool) = {0} \<and> card (inflight low_pool 0) = 3"
proof -
  have f: "all_free low_pool = [0]" by (simp add: all_free_def one_pool_def ex_pool_def)
  have "pools low_pool 0 = Some (ex_pool 1 0 FLOW_POOL_NON_PRIO_PAUSED 1 0 [0])" by (simp add: one_pool_def)
  then have "unat (flow_pool_size (ex_pool 1 0 FLOW_POOL_NON_PRIO_PAUSED 1 0 [0])) = unat (1 :: u16) + card (inflight low_pool 0)"
    using fc_conservation [OF low_reachable] by (fastforce simp: ex_pool_def)
  then show ?thesis unfolding f by (simp add: ex_pool_def)
qed

text \<open>The count of free descriptors that the device reports is the number of its descriptors less the
  number in flight.\<close>

theorem fc_total_free:
  assumes "fc_reachable N s"
  shows "ol_tx_get_total_free_desc s = (of_nat (N - card {d. desc_ref s d \<noteq> 0}), s)"
proof -
  note I = reachable_fc_inv [OF assms]
  have l: "set (flow_pool_list s) \<subseteq> dom (pools s)" using fc_inv_parts(4) [OF I] by (simp add: listed_def)
  have av: "ucast (avail_desc (pool_of s p)) = (of_nat (length (freelist (pool_of s p))) :: u32)" if p: "p \<in> set (flow_pool_list s)" for p
  proof -
    obtain q where q: "pools s p = Some q" using subsetD [OF l p] by auto
    have "ucast (avail_desc q) = (of_nat (unat (avail_desc q)) :: u32)" by (simp add: of_nat_unat)
    then show ?thesis using fc_inv_avail(2) [OF I q] q by simp
  qed
  have "ucast (num_free s) = (of_nat (length (tx_freelist s)) :: u32)" unfolding fc_inv_len [OF I, symmetric] by (simp add: of_nat_unat)
  moreover have "sum_list (map (\<lambda>p. ucast (avail_desc (pool_of s p))) (flow_pool_list s)) =
      (of_nat (length (concat (map (\<lambda>p. freelist (pool_of s p)) (flow_pool_list s)))) :: u32)"
    by (rule ucast_sum) (rule av)
  ultimately have t: "ol_tx_get_total_free_desc s = (of_nat (length (all_free s)), s)"
    unfolding ol_tx_get_total_free_desc_def total_free_loop [OF l] by (simp add: all_free_def)
  note A = all_free_inv [OF I]
  have "finite {d. desc_ref s d \<noteq> 0}" using A(3) by (metis finite_Un finite_lessThan)
  then have "N = length (all_free s) + card {d. desc_ref s d \<noteq> 0}"
    using card_Un_disjoint [OF _ _ A(2)] A(1,3) by (simp add: distinct_card)
  then show ?thesis unfolding t by simp
qed

theorem fc_total_free_witness: "fst (ol_tx_get_total_free_desc low_pool) = 1"
proof -
  have "{d. desc_ref low_pool d \<noteq> 0} = {1,2,3}" by (auto simp: one_pool_def split: if_splits)
  then show ?thesis using fc_total_free [OF low_reachable] by simp
qed


section \<open>Life of a pool\<close>

text \<open>C34. Mapping an interface that has no pool to a new pool for which the global list has enough
  descriptors, and unmapping it, leaves the pools, the interfaces and, up to order, the global list as
  they were, when no other pool lacks descriptors; in between, the interface has a pool with exactly the
  descriptors it asked for.  The identifier is not the invalid one, and memory for the pool is there.\<close>

theorem fc_map_unmap:
  assumes "fc_reachable N s" "fst (ol_tx_get_flow_pool fid s) = None" "fid \<noteq> INVALID_FLOW_ID"
    "malloc_ok env" "vdev_exists env v" "vdev_pool s v = None" "n \<le> num_free s"
    "\<forall>p q. pools s p = Some q \<longrightarrow> deficient_desc q = 0"
  shows "\<exists>s1 s2. fc_step env (Flow_map v FLOW_TYPE_VDEV fid n) s = Some s1 \<and> fc_step env (Flow_unmap v FLOW_TYPE_VDEV fid) s1 = Some s2 \<and>
    vdev_pool s1 v = Some (next_pool s) \<and> avail_desc (pool_of s1 (next_pool s)) = n \<and>
    pools s2 = pools s \<and> flow_pool_list s2 = flow_pool_list s \<and> vdev_pool s2 = vdev_pool s \<and> mset (tx_freelist s2) = mset (tx_freelist s)"
proof -
  have "\<And>p q. pools s p = Some q \<Longrightarrow> deficient_desc q = 0" using assms(8) by blast
  then obtain s1 s2 where s: "fc_step env (Flow_map v FLOW_TYPE_VDEV fid n) s = Some s1" "fc_step env (Flow_unmap v FLOW_TYPE_VDEV fid) s1 = Some s2"
    "vdev_pool s1 v = Some (next_pool s)" "avail_desc (pool_of s1 (next_pool s)) = n" "fc_allowed env (Flow_unmap v FLOW_TYPE_VDEV fid) s1"
    "pools s2 = pools s" "flow_pool_list s2 = flow_pool_list s" "vdev_pool s2 = vdev_pool s" "desc_ref s2 = desc_ref s"
    using map_unmap_states [OF assms(1-7)] by blast
  have "fc_reachable N s1" by (rule fc_next [OF assms(1) _ s(1)]) (simp add: assms(3))
  then have r2: "fc_reachable N s2" by (rule fc_next [OF _ s(5,2)])
  have "mset (tx_freelist s2) = mset (tx_freelist s)"
    by (rule global_list [OF reachable_fc_inv [OF assms(1)] reachable_fc_inv [OF r2] s(6,9)])
  then show ?thesis using s by blast
qed

theorem fc_map_unmap_witness:
  "\<exists>s1 s2. fc_step ex_env (Flow_map 0 FLOW_TYPE_VDEV 1 4) (fc_init 4) = Some s1 \<and>
     fc_step ex_env (Flow_unmap 0 FLOW_TYPE_VDEV 1) s1 = Some s2 \<and> avail_desc (pool_of s1 0) = 4 \<and> pools s2 = Map.empty \<and>
     mset (tx_freelist s2) = {#0, 1, 2, 3#}"
proof -
  have i: "next_pool (fc_init 4) = 0" "pools (fc_init 4) = Map.empty" "mset (tx_freelist (fc_init 4)) = {#0, 1, 2, 3#}"
    by (simp_all add: fc_init_def upt_four)
  show ?thesis
    using fc_map_unmap [OF init_reachable, of 1 ex_env 0 4] unfolding i
    by (auto simp: ol_tx_get_flow_pool_def fc_init_def ex_env_def INVALID_FLOW_ID_def)
qed

text \<open>C35. The queues of an interface start again: when every frame in flight from a pool completes, in any
  order, its status is unpaused at the end, with all descriptors available, and if it was paused before,
  the network stack has been told to wake the queues.  The pool is not being dissolved and has no
  overflow, at least two frames are in flight, and with all descriptors back it has more than its
  threshold to start and at least two more than that of its priority queue.\<close>

theorem fc_drain_wakes:
  assumes "fc_reachable N s" "pools s p = Some q" "pool_status q \<noteq> FLOW_POOL_INVALID" "overflow_desc q = 0"
    "unat (start_th q) < room q" "unat (start_priority_th q) + 1 < room q"
    "distinct ds" "set ds = inflight s p" "2 \<le> length ds"
  shows "\<exists>s' q'. complete_all ds s = Some s' \<and> pools s' p = Some q' \<and> pool_status q' = FLOW_POOL_ACTIVE_UNPAUSED \<and>
    unat (avail_desc q') = room q \<and>
    (pool_status q \<noteq> FLOW_POOL_ACTIVE_UNPAUSED \<longrightarrow>
      Pause_cb (member_flow_id q) WLAN_WAKE_NON_PRIORITY_QUEUE WLAN_DATA_FLOW_CONTROL \<in> set (drop (length (fc_log s)) (fc_log s')))"
proof -
  have "pending (pool_status q) \<le> length ds" using assms(9) by (cases "pool_status q") simp_all
  from drain [OF reachable_fc_inv [OF assms(1)] assms(2-8) this] show ?thesis by (elim exE) (intro exI conjI, auto)
qed

theorem fc_drain_wakes_witness:
  "\<exists>s'. complete_all [1,2,3] low_pool = Some s' \<and>
     Pause_cb 0 WLAN_WAKE_NON_PRIORITY_QUEUE WLAN_DATA_FLOW_CONTROL \<in> set (drop (length (fc_log low_pool)) (fc_log s'))"
proof -
  let ?q = "ex_pool 1 0 FLOW_POOL_NON_PRIO_PAUSED 1 0 [0]"
  have q: "pools low_pool 0 = Some ?q" by (simp add: one_pool_def)
  have i: "set [1,2,3] = inflight low_pool 0" by (auto simp: inflight_def one_pool_def split: if_splits)
  have r: "pool_status ?q \<noteq> FLOW_POOL_INVALID" "overflow_desc ?q = 0" "unat (start_th ?q) < room ?q" "unat (start_priority_th ?q) + 1 < room ?q"
    "pool_status ?q \<noteq> FLOW_POOL_ACTIVE_UNPAUSED" "member_flow_id ?q = 0"
    by (simp_all add: ex_pool_def room_def)
  show ?thesis using fc_drain_wakes [OF low_reachable q r(1-4) _ i] r(5,6) by auto
qed

text \<open>C36. The sender's contract: any number of descriptors that an interface allocates one after the other
  are different and were not in flight, and when their frames complete, in any order, exactly those
  are in flight that were before.  If its pool has no overflow, they were the first ones of the pool's
  list, and completion puts each at the head of what is left: completing them in the opposite order
  gives back the list itself, and any other order a list with the same descriptors.\<close>

theorem fc_burst_returns:
  assumes "fc_reachable N s" "alloc_burst (ol_tx_desc_alloc_wrapper v mgmt) n s = (ds, s1)" "mset ds' = mset ds"
  shows "distinct ds \<and> set ds \<inter> busy s = {} \<and>
    (\<exists>s2. free_burst ol_tx_desc_free ds' s1 = Some s2 \<and> busy s2 = busy s \<and>
       (\<forall>p q. (if mgmt then mgmt_pool s else vdev_pool s v) = Some p \<and> pools s p = Some q \<and> overflow_desc q = 0 \<longrightarrow>
          (\<exists>q2 l. pools s2 p = Some q2 \<and> freelist q = ds @ l \<and> freelist q2 = rev ds' @ l)))"
proof -
  note ok = fc_reachable_inv [OF assms(1)]
  obtain s2 where s2: "distinct ds" "set ds \<inter> busy s = {}" "free_burst ol_tx_desc_free ds' s1 = Some s2" "busy s2 = busy s"
    using tx.burst_returns [OF ok assms(2,3)] by blast
  moreover have "\<exists>q2 l. pools s2 p = Some q2 \<and> freelist q = ds @ l \<and> freelist q2 = rev ds' @ l"
    if "(if mgmt then mgmt_pool s else vdev_pool s v) = Some p" "pools s p = Some q" "overflow_desc q = 0" for p q
    using burst_lists [OF ok assms(2,3) that] s2(3) by auto
  ultimately show ?thesis by blast
qed

theorem fc_burst_returns_witness:
  "\<exists>s2 q2. free_burst ol_tx_desc_free [2,3] half_pool = Some s2 \<and> busy s2 = busy idle_pool \<and>
     pools s2 0 = Some q2 \<and> freelist q2 = [3,2,1,0]"
proof -
  have q: "pools idle_pool 0 = Some (ex_pool 1 0 FLOW_POOL_ACTIVE_UNPAUSED 4 0 [3,2,1,0])" "vdev_pool idle_pool 0 = Some 0"
    by (simp_all add: one_pool_def)
  have "overflow_desc (ex_pool 1 0 FLOW_POOL_ACTIVE_UNPAUSED 4 0 [3,2,1,0]) = 0"
    "freelist (ex_pool 1 0 FLOW_POOL_ACTIVE_UNPAUSED 4 0 [3,2,1,0]) = [3,2,1,0]"
    by (simp_all add: ex_pool_def)
  then show ?thesis using fc_burst_returns [OF idle_reachable send_two, of "[2,3]"] q by fastforce
qed

text \<open>C37. The end of the device returns everything: with nothing in flight, and no overflow of the pool of
  the management frames if there is one, deregistering ends, leaves no pool, and every descriptor is on
  the global list, once.  The other pools may lack descriptors or have an overflow.\<close>

theorem fc_deregister_returns:
  assumes "fc_reachable N s" "\<forall>d. desc_ref s d = 0"
    "\<forall>p. \<not> mgmt_over_wmi \<longrightarrow> mgmt_pool s = Some p \<longrightarrow> overflow_desc (pool_of s p) = 0"
  shows "\<exists>s'. ol_tx_deregister_flow_control mgmt_over_wmi s = Some s' \<and> flow_pool_list s' = [] \<and> pools s' = Map.empty \<and>
    distinct (tx_freelist s') \<and> set (tx_freelist s') = {..<N} \<and> \<not> fc_fault s'"
proof -
  note I = reachable_fc_inv [OF assms(1)]
  have "fc_inv N [] (\<lambda>_. 0) {} s" using I by (rule fc_inv_users) simp
  then have Q: "quiet_pools N s" using fc_reachable_inv [OF assms(1)] assms(2) by (simp add: quiet_pools_def fc_ok_def)
  have "fc_inv N [] (\<lambda>_. 0) {} (s\<lparr>fc_assert := True\<rparr>) = fc_inv N [] (\<lambda>_. 0) {} s" by (rule fc_inv_same) (simp add: same_core_def)
  then have QA: "quiet_pools N (s\<lparr>fc_assert := True\<rparr>)" using Q by (simp add: quiet_pools_def ones_def)
  have "\<exists>t. (if mgmt_over_wmi then Some s
      else case mgmt_pool s of None \<Rightarrow> Some (s\<lparr>fc_assert := True\<rparr>) | Some p \<Rightarrow> ol_tx_dec_pool_ref p False s) = Some t \<and> quiet_pools N t"
  proof (cases "mgmt_over_wmi \<or> mgmt_pool s = None")
    case False
    then obtain p where p: "mgmt_pool s = Some p" "\<not> mgmt_over_wmi" by auto
    then obtain q where q: "pools s p = Some q" using user_live [OF I, of p] by (auto simp: users_def)
    then have "overflow_desc q = 0" using assms(3) p by simp
    then obtain t where "ol_tx_dec_pool_ref p False s = Some t" "quiet_pools N t" using release_quiet [OF Q q, of False] by blast
    then show ?thesis using p by simp
  qed (use Q QA in auto)
  then obtain t where t: "(if mgmt_over_wmi then Some s
      else case mgmt_pool s of None \<Rightarrow> Some (s\<lparr>fc_assert := True\<rparr>) | Some p \<Rightarrow> ol_tx_dec_pool_ref p False s) = Some t" "quiet_pools N t" by blast
  obtain s' where s': "drain_list t = Some s'" "quiet_pools N s'" "flow_pool_list s' = []" using drain_list_returns [OF t(2)] by blast
  have I': "fc_inv N [] (\<lambda>_. 0) {} s'" and z: "{d. desc_ref s' d \<noteq> 0} = {}" using s'(2) by (simp_all add: quiet_pools_def)
  have "all_free s' = tx_freelist s'" using s'(3) by (simp add: all_free_def)
  moreover have "dom (pools s') = {}" using fc_inv_parts(4) [OF I'] s'(3) by (simp add: listed_def)
  ultimately show ?thesis
    using all_free_inv [OF I'] fc_inv_parts(1) [OF I'] z s'(1,3) t(1)
    by (intro exI [of _ s']) (simp add: ol_tx_deregister_flow_control_def lists_ok_def)
qed

theorem fc_deregister_returns_witness:
  "\<exists>s'. ol_tx_deregister_flow_control True stopped_pool = Some s' \<and> pools s' = Map.empty \<and> set (tx_freelist s') = {..<4}"
proof -
  have "\<forall>d. desc_ref stopped_pool d = 0" by (simp add: two_pools_def)
  then show ?thesis using fc_deregister_returns [OF stopped_reachable, of True] by auto
qed

section \<open>Defects\<close>

text \<open>C38. A resize that shrinks a pool whose available descriptors are not above the threshold of its
  priority queue takes none of them and records no overflow, so the descriptors in flight are more than
  the pool's new size admits and nothing says so (the pool and the others lack no descriptors, and it
  had no overflow).  If its new size is the number of the available ones, descriptors are in flight, and
  unmapping then frees the pool at once; each of them is still in flight from the freed pool, and when
  its frame completes, the completion uses the freed pool.\<close>

theorem fc_shrink_frees_used_pool:
  assumes "fc_reachable N s" "fst (ol_tx_get_flow_pool fid s) = Some p" "pools s p = Some q"
    "n < flow_pool_size q" "avail_desc q \<le> start_priority_th q" "overflow_desc q = 0"
    "\<forall>x q. pools s x = Some q \<longrightarrow> deficient_desc q = 0" "vdev_exists env v"
  shows "\<exists>s1 q1. fc_step env (Flow_resize fid n) s = Some s1 \<and> pools s1 p = Some q1 \<and> flow_pool_size q1 = n \<and>
    avail_desc q1 = avail_desc q \<and> overflow_desc q1 = 0 \<and> inflight s1 p = inflight s p \<and>
    (avail_desc q = n \<longrightarrow>
       (\<exists>s2. fc_step env (Flow_unmap v FLOW_TYPE_VDEV fid) s1 = Some s2 \<and> pools s2 p = None \<and> inflight s p \<noteq> {} \<and>
          (\<forall>d \<in> inflight s p. d \<in> inflight s2 p \<and> (\<exists>s3. fc_step env (Desc_free d) s2 = Some s3 \<and> fc_fault s3))))"
  using used_after_shrink [OF fc_reachable_inv [OF assms(1)] assms(2,3,5,4,6)] assms(7,8) by blast

theorem fc_shrink_frees_used_pool_witness:
  "\<exists>s1 s2 s3. fc_step ex_env (Flow_resize 1 1) low_pool = Some s1 \<and> fc_step ex_env (Flow_unmap 0 FLOW_TYPE_VDEV 1) s1 = Some s2 \<and>
     pools s2 0 = None \<and> fc_step ex_env (Desc_free 3) s2 = Some s3 \<and> fc_fault s3"
proof -
  let ?q = "ex_pool 1 0 FLOW_POOL_NON_PRIO_PAUSED 1 0 [0]"
  have q: "pools low_pool 0 = Some ?q" by (simp add: one_pool_def)
  have z: "\<forall>x q. pools low_pool x = Some q \<longrightarrow> deficient_desc q = 0" by (auto simp: one_pool_def ex_pool_def split: if_splits)
  have h: "1 < flow_pool_size ?q" "avail_desc ?q \<le> start_priority_th ?q" "overflow_desc ?q = 0" "avail_desc ?q = 1" "vdev_exists ex_env 0"
    by (simp_all add: ex_pool_def ex_env_def)
  obtain s1 q1 where s1: "fc_step ex_env (Flow_resize 1 1) low_pool = Some s1"
    "\<exists>s2. fc_step ex_env (Flow_unmap 0 FLOW_TYPE_VDEV 1) s1 = Some s2 \<and> pools s2 0 = None \<and> inflight low_pool 0 \<noteq> {} \<and>
      (\<forall>d \<in> inflight low_pool 0. d \<in> inflight s2 0 \<and> (\<exists>s3. fc_step ex_env (Desc_free d) s2 = Some s3 \<and> fc_fault s3))"
    using fc_shrink_frees_used_pool [OF low_reachable low_found(1) q h(1-3) z h(5)] h(4) by blast
  then obtain s2 where s2: "fc_step ex_env (Flow_unmap 0 FLOW_TYPE_VDEV 1) s1 = Some s2" "pools s2 0 = None"
    "\<forall>d \<in> inflight low_pool 0. \<exists>s3. fc_step ex_env (Desc_free d) s2 = Some s3 \<and> fc_fault s3" by blast
  have "3 \<in> inflight low_pool 0" unfolding low_inflight by simp
  then obtain s3 where "fc_step ex_env (Desc_free 3) s2 = Some s3" "fc_fault s3" using s2(3) by blast
  then show ?thesis using s1(1) s2(1,2) by blast
qed

text \<open>C39. Mapping a second interface to a pool that exists takes no reference on it.  If the pool has all its
  descriptors (and no overflow), unmapping another interface frees it; the second interface keeps its
  pointer, and its next frame uses the freed pool.\<close>

theorem fc_second_map_dangles:
  assumes "fc_reachable N s" "fid \<noteq> INVALID_FLOW_ID" "fst (ol_tx_get_flow_pool fid s) = Some p" "pools s p = Some q"
    "avail_desc q = flow_pool_size q" "overflow_desc q = 0" "vdev_exists env v1" "vdev_exists env v2" "v1 \<noteq> v2"
  shows "\<exists>s1 s2 s3. fc_step env (Flow_map v2 FLOW_TYPE_VDEV fid n) s = Some s1 \<and> fc_reachable N s1 \<and> vdev_pool s1 v2 = Some p \<and>
    ref_cnt (pool_of s1 p) = ref_cnt q \<and>
    fc_step env (Flow_unmap v1 FLOW_TYPE_VDEV fid) s1 = Some s2 \<and> pools s2 p = None \<and> vdev_pool s2 v2 = Some p \<and>
    fc_step env (Desc_alloc v2 False) s2 = Some s3 \<and> fc_fault s3"
  by (rule second_map_dangles [OF assms])

theorem fc_second_map_dangles_witness:
  "\<exists>s1 s2 s3. fc_step ex_env (Flow_map 1 FLOW_TYPE_VDEV 1 4) idle_pool = Some s1 \<and>
     fc_step ex_env (Flow_unmap 0 FLOW_TYPE_VDEV 1) s1 = Some s2 \<and> fc_step ex_env (Desc_alloc 1 False) s2 = Some s3 \<and> fc_fault s3"
proof -
  let ?q = "ex_pool 1 0 FLOW_POOL_ACTIVE_UNPAUSED 4 0 [3,2,1,0]"
  have q: "pools idle_pool 0 = Some ?q" by (simp add: one_pool_def)
  have h: "avail_desc ?q = flow_pool_size ?q" "overflow_desc ?q = 0" "vdev_exists ex_env 0" "vdev_exists ex_env 1" "0 \<noteq> (1 :: u8)"
    by (simp_all add: ex_pool_def ex_env_def)
  have "1 \<noteq> INVALID_FLOW_ID" by (simp add: INVALID_FLOW_ID_def)
  from fc_second_map_dangles [OF idle_reachable this low_found(2) q h] show ?thesis by blast
qed

text \<open>C40. A wake-up is lost: when the pool of an interface is unmapped and its descriptors are given to the
  pools that lack some, a pool whose non-priority queues are stopped keeps this status, however many
  descriptors it gets, and the network stack is told to wake only queues of pools all of whose queues
  were stopped.  A run can reach a state in which such a pool then has all its descriptors, more than its
  threshold to start, with nothing in flight whose completion would wake it.\<close>

theorem fc_lost_wakeup:
  assumes "fc_step env (Flow_unmap v FLOW_TYPE_VDEV fid) s = Some s'" "fst (ol_tx_get_flow_pool fid s) = Some p"
    "r \<noteq> p" "pools s r = Some q" "pool_status q = FLOW_POOL_NON_PRIO_PAUSED"
  shows "(\<exists>q'. pools s' r = Some q' \<and> pool_status q' = FLOW_POOL_NON_PRIO_PAUSED) \<and>
    (\<exists>evs. fc_log s' = fc_log s @ evs \<and> set evs \<subseteq> paused_events (ol_tx_flow_pool_vdev_unmap env p v s))"
proof -
  let ?t = "ol_tx_flow_pool_vdev_unmap env p v s"
  have c: "calm {p} ?t s'" using calm_unmap [OF assms(2)] assms(1) by simp
  have "front ?t r = Some (FLOW_POOL_NON_PRIO_PAUSED, member_flow_id q)"
    using assms(3-5) by (simp add: front_def ol_tx_flow_pool_vdev_unmap_def upd_pool_def fault_def split: option.split)
  then have "front s' r = Some (FLOW_POOL_NON_PRIO_PAUSED, member_flow_id q)" using c assms(3) by (simp add: calm_def)
  moreover have "fc_log ?t = fc_log s" by (simp add: ol_tx_flow_pool_vdev_unmap_def upd_pool_def fault_def split: option.split)
  ultimately show ?thesis using c by (auto simp: calm_def front_def)
qed

theorem fc_lost_wakeup_witness:
  "fc_reachable 4 stopped_pool \<and> fc_allowed ex_env (Flow_unmap 0 FLOW_TYPE_VDEV 1) stopped_pool \<and>
   (\<exists>s' q. fc_step ex_env (Flow_unmap 0 FLOW_TYPE_VDEV 1) stopped_pool = Some s' \<and> pools s' 1 = Some q \<and>
     pool_status q = FLOW_POOL_NON_PRIO_PAUSED \<and> avail_desc q = flow_pool_size q \<and> start_th q < avail_desc q \<and>
     inflight s' 1 = {} \<and> fc_log s' = fc_log stopped_pool)"
proof -
  obtain s' q where s': "fc_step ex_env (Flow_unmap 0 FLOW_TYPE_VDEV 1) stopped_pool = Some s'" "pools s' 1 = Some q"
    "avail_desc q = flow_pool_size q" "start_th q < avail_desc q" "inflight s' 1 = {}"
    using stopped_unmap by blast
  let ?q = "ex_pool 2 1 FLOW_POOL_NON_PRIO_PAUSED 2 2 [3,2]"
  have "pools stopped_pool 1 = Some ?q" "pool_status ?q = FLOW_POOL_NON_PRIO_PAUSED" by (simp_all add: two_pools_def ex_pool_def)
  note W = fc_lost_wakeup [OF s'(1) stopped_found _ this]
  have "paused_events (ol_tx_flow_pool_vdev_unmap ex_env 0 0 stopped_pool) = {}"
    by (auto simp: paused_events_def ol_tx_flow_pool_vdev_unmap_def upd_pool_def two_pools_def first_pool_def ex_pool_def split: if_splits)
  then show ?thesis using W s' stopped_reachable stopped_allowed by auto
qed

end
