(* ===== verification/Spec2Isabelle.thy ===== *)
theory Spec2Isabelle
  imports Dsc_Run Osif_Props Sta_Props Blm_Props Oui_Props Rx_Props Pm_Props Fc_Props
begin

text \<open>
  A model of parts of qcacld-3.0, the host driver of Qualcomm WLAN chips, with proofs that they
  do what their callers rely on.

  \<^bold>\<open>The program.\<close>  The driver registers net devices with the Linux kernel (HDD,
  \<^verbatim>\<open>src/core/hdd\<close>, and \<^verbatim>\<open>src/os_if\<close>), configures and runs the MAC (SME and PE,
  \<^verbatim>\<open>src/core/sme\<close>, \<^verbatim>\<open>src/core/mac\<close>), moves frames (\<^verbatim>\<open>src/core/dp\<close>) and talks to the
  firmware through WMI (\<^verbatim>\<open>src/core/wma\<close>, \<^verbatim>\<open>src/components/target_if\<close>).  Newer
  functionality lives in the components of \<^verbatim>\<open>src/components\<close>, each with a \<^verbatim>\<open>core\<close> that
  holds its state and a \<^verbatim>\<open>dispatcher\<close> with its interface.  The QDF layer (lists, locks,
  timers, memory) and the object manager are a separate repository and not part of the sources.

  \<^bold>\<open>What is modelled.\<close>  Eight parts that own state and decide something on it; every
  theory opens with the correspondence to its source files.

  \<^item> The driver synchronisation core, \<^verbatim>\<open>src/components/dsc\<close>: \<open>Dsc_Core\<close> (containers
    and primitives of \<^verbatim>\<open>__wlan_dsc.c\<close>), \<open>Dsc_Driver\<close>, \<open>Dsc_Psoc\<close>, \<open>Dsc_Vdev\<close>
    (the operations of the three levels), \<open>Dsc_Inv\<close> (the invariant of the tree of nodes and
    its preservation), \<open>Dsc_Threads\<close> (the step relation \<open>dsc_step\<close> of threads that call
    the core, with waiting and the node by node flush of operations), \<open>Dsc_Props\<close> and
    \<open>Dsc_Run\<close> (properties, and a run on which they are applied).  State is one record with a
    store per struct, so that drivers, psocs, vdevs and pending transitions are addressed as in C.
  \<^item> The OS interface on top of it, \<^verbatim>\<open>src/os_if/sync\<close>: \<open>Osif_State\<close>,
    \<open>Osif_Driver\<close>, \<open>Osif_Psoc\<close>, \<open>Osif_Vdev\<close>, \<open>Osif_Props\<close>.  The static arrays
    of contexts are lists, a context pointer is an index, and each operation calls the model of
    the core.
  \<^item> The station table and the association ids of a PE session,
    \<^verbatim>\<open>src/core/mac/src/dph/dph_hash_table.c\<close> and \<^verbatim>\<open>src/core/mac/src/pe/lim/lim_aid_mgmt.c\<close>:
    \<open>Dph_Hash\<close> (the hash chains through an array), \<open>Dph_Map\<close> (their invariant and the
    map they implement), \<open>Lim_Aid\<close> (the free list of ids), \<open>Sta_Props\<close>.
  \<^item> The blacklist manager, \<^verbatim>\<open>src/components/blacklist_mgr\<close>: \<open>Blm_Entry\<close> and
    \<open>Blm_List\<close> (entries, list, operations and life cycle), \<open>Blm_Inv\<close>, \<open>Blm_Calls\<close>,
    \<open>Blm_Report\<close>, \<open>Blm_Userspace\<close>, \<open>Blm_Evict\<close> (lemmas), \<open>Blm_Props\<close>.
  \<^item> The action OUI component, \<^verbatim>\<open>src/components/action_oui\<close>: \<open>Oui_Parse\<close> and
    \<open>Oui_Search\<close> (parser, store, search and life cycle), \<open>Oui_Inv\<close> (stages of an
    extension under construction), \<open>Oui_Match\<close> (declarative matching), \<open>Oui_Props\<close>.
  \<^item> The receive path before delivery, \<^verbatim>\<open>src/core/dp/txrx\<close> (\<^verbatim>\<open>ol_rx_reorder.c\<close>,
    \<^verbatim>\<open>ol_rx_pn.c\<close>, the fragment store of \<^verbatim>\<open>ol_rx_defrag.c\<close> and the message handlers of
    \<^verbatim>\<open>ol_rx.c\<close>): \<open>Rx_Data\<close> (frames, peers, the check of packet numbers),
    \<open>Rx_Reorder\<close> (reorder arrays, fragments, handlers), \<open>Rx_Inv\<close> (walks over a window),
    \<open>Rx_Frames\<close> (where the frames are), \<open>Rx_Steps\<close> (what the operations compute, and the
    relation \<open>rx_run\<close> of runs of calls), \<open>Rx_Pn\<close> (replay), \<open>Rx_Frag\<close> (fragments),
    \<open>Rx_Props\<close>.
  \<^item> The connection table of the policy manager, \<^verbatim>\<open>src/components/cmn_services/policy_mgr\<close>
    (\<^verbatim>\<open>wlan_policy_mgr_core.c\<close> and \<^verbatim>\<open>wlan_policy_mgr_get_set_utils.c\<close>): \<open>Pm_Conn\<close>
    (modes, entries, state and environment), \<open>Pm_Ops\<close> (operations on the table),
    \<open>Pm_Session\<close> (handlers of sessions), \<open>Pm_Allow\<close> (the concurrency check and channel
    switches), \<open>Pm_Inv\<close> (the table as a list), \<open>Pm_Store\<close> (deleting, storing away and
    restoring entries), \<open>Pm_Run\<close> and \<open>Pm_Steps\<close> (what the handlers leave),
    \<open>Pm_Reach\<close> (the step relation \<open>pm_step\<close> and its invariant), \<open>Pm_Props\<close>.
  \<^item> The transmit descriptors and their flow-control pools, \<^verbatim>\<open>src/core/dp/txrx\<close>
    (\<^verbatim>\<open>ol_txrx_flow_control.c\<close>, \<^verbatim>\<open>ol_tx_desc.c\<close>, \<^verbatim>\<open>ol_tx_desc.h\<close>): \<open>Fc_Pool\<close> (pools,
    lists, distribution), \<open>Fc_Ops\<close> (creation, deletion, mapping, resizing, frames),
    \<open>Fc_Inv\<close> (the invariant: who holds each descriptor, and what the counters count),
    \<open>Fc_Moves\<close>, \<open>Fc_Dist\<close>, \<open>Fc_Release\<close>, \<open>Fc_Run\<close>, \<open>Fc_Handlers\<close>,
    \<open>Fc_Resize\<close>, \<open>Fc_Desc\<close> (that every operation keeps it), \<open>Fc_Steps\<close> (the steps
    \<open>fc_step\<close>, their contracts and the reachable states), \<open>Fc_Live\<close> and \<open>Fc_Sender\<close>
    (completions and the sender), \<open>Fc_Wake\<close> (which queues a release wakes), \<open>Fc_Faults\<close> (uses
    of freed pools), \<open>Fc_Cases\<close> (states for the witnesses), \<open>Fc_Props\<close>.

  \<open>Qdf_Prelude\<close> holds what all of them share: status codes, integer types, list lemmas.

  \<^bold>\<open>Interfaces.\<close>  The contract that a group of operations shares is a locale, and
  the model's operations are interpretations of it: the tables of contexts and the node operations
  that the OS interface needs (\<open>Osif_State\<close>), the finite map that the station table provides
  (\<open>Dph_Map\<close>), the pool of ids (\<open>Lim_Aid\<close>), the walks of the blacklist that only shrink or update the list and those that
  keep the user-space entries (\<open>Blm_Inv\<close>, \<open>Blm_Userspace\<close>), the order by which an entry
  to evict is chosen (\<open>Blm_Inv\<close>), the stage contract of the eight token converters
  (\<open>Oui_Inv\<close>), the receive operations that account for every frame
  (\<open>Rx_Steps\<close>), a table from which entries are deleted by key (\<open>Pm_Store\<close>), and a source of
  descriptors as a sender sees it (\<open>Fc_Sender\<close>).

  \<^bold>\<open>What is shown.\<close>  For DSC, in every interleaving of any number of threads:
  transitions on a node exclude those on its ancestors and descendants, no assertion fires, no waiter
  is forgotten and every one returns once the owners stop, unless an owner itself waits for another
  transition, queues are served in order and from the top of the tree, and after
  \<^verbatim>\<open>wait_for_ops\<close> no operation runs below the node; in the debug build all this is for runs in
  which the timers of transitions can be set up (\<open>env_ok\<close>), and the theorem on assertions shows
  that one fires otherwise.  For the OS interface: the arrays implement maps from kernel
  objects, a context is private until it is registered, and a creation is all or nothing.  For
  the station table and the id pool: both terminate and refine a finite map and a set of free ids,
  and the two fit together.  For the blacklist: an invariant over all sequences of calls,
  escalation, expiry, eviction order, the report to the firmware against a reference definition,
  and that the user-space list does not expire.  For action OUI: the parser terminates and stays inside its arrays, and
  the search equals a declarative definition of matching.  For the receive path: over all runs
  of calls every frame is accounted for, dropped ones included, the loops over the cyclic windows end,
  and the packet numbers handed to the stack grow strictly between two installations of keys; release, removal, sequence check and fragment
  collection are specified exactly.  For the policy manager, with a configured maximum of at
  most the size of the table: over all runs of admitted sessions the
  table is compact and within its bounds and the session counters count it, a session that ends
  undoes what it began with, no connection is admitted that takes an access point off a radar
  channel, the first connection is always admitted, and the check of a channel switch leaves the
  table as it was, up to order, if not all of it switches.  For the flow-control pools: over all runs in which a pool is unmapped only for its
  one interface and without an overflow and resizes leave nothing unrecorded (\<open>fc_allowed\<close>), no freed pool is used, every call returns although deletion,
  distribution and release call each other, descriptors are conserved and counted by the
  sixteen-bit counters, queues that were stopped run again once the frames complete, and the end
  of the device gives every descriptor back.  Fifteen theorems show defects of the code:
  a status that \<^verbatim>\<open>__dsc_trans_trigger\<close> drops, an out parameter set on failure, the
  truncation of association ids to eight bits in \<^verbatim>\<open>get_node\<close>, an expired RSSI rejection that
  eviction passes over, a read past the data buffer of an extension, a leak on an error path,
  frames that a release loses behind an empty slot, an incomplete list of fragments that is taken
  for complete, a wait list that keeps a removed peer, a second station whose preferred channels are
  never updated, a session that is counted but not entered in a full table, a channel switch
  that empties the table, a pool that a resize leaves with more descriptors than it counts and that
  is freed with frames in flight, a pool shared by two interfaces that the first unmap frees, and
  queues that stay stopped although their pool is full.

  \<^bold>\<open>Conventions.\<close>  An error is a status value as in the code; a failed assertion is
  recorded in the state; an access outside an array, or undefined arithmetic, is \<open>None\<close> or a
  constructor of its own.  Whatever is decided outside the sources is an argument: the success of
  allocations and locks, every reading of the clock (records \<open>blm_env\<close> and the environments of
  DSC), the string functions (\<open>oui_lib\<close>), the search for a vendor element (\<open>vendor_ie\<close>),
  the conversion of status codes.  What a theorem needs of them is a named predicate among its
  hypotheses (\<open>lib_ok\<close>, \<open>vie_ok\<close>, ...) and its witness gives a concrete instance.
  Integers have their C width wherever wrapping could matter.  There is no fuel: loops
  that follow pointers or depend on a parameter are \<open>partial_function\<close>s whose result
  \<open>None\<close> means that they do not end, and the theorems show \<open>Some\<close>; all other loops are
  structural or have a termination proof.  A call under a lock is one step; DSC has a step
  boundary wherever it sleeps or drops its lock, the other parts treat each of their functions as
  one step, also where it releases a lock between two of its parts.

  \<^bold>\<open>Not modelled.\<close>  Logging, debug-only timers (beyond the status of their set-up),
  lock creation, and the registration of handlers.  Of the other parts of the driver, the ones
  with state machines and arithmetic of their own are the next candidates: the preferred
  channel lists and hardware modes of the policy manager, TDLS
  (\<^verbatim>\<open>src/components/tdls\<close>), the transmit scheduler for high-latency buses, P2P, PMO and NAN.  HDD, WMA, SME and the PE state
  machines are large and mostly move data between the kernel, the firmware and the components.
  \<^verbatim>\<open>dot11f.c\<close> is generated, PLD and BMI are bus glue, and the WMI layer packs structures whose
  definitions are outside the repository.
\<close>

end
